(* ===== verification/ISAL_Prelude.thy ===== *)
theory ISAL_Prelude
  imports Main "HOL-Library.Word"
begin

text \<open>
  Shared vocabulary of the development: the C integer types as machine words, the
  \<open>XOR\<close> laws every component uses (CRC registers, Galois field elements and RAID
  parity all live in the \<open>XOR\<close> group of words), the \<open>XOR\<close> sum of a list, and a
  few facts about lists updated by index.
\<close>

unbundle bit_operations_syntax

section \<open>C integer types\<close>

type_synonym u8 = "8 word"
type_synonym u16 = "16 word"
type_synonym u32 = "32 word"
type_synonym u64 = "64 word"

named_theorems xor_laws \<open>the group laws of XOR on words\<close>
named_theorems table_evals \<open>closed tables evaluated by the simplifier\<close>

lemma unat_of_nat_lt: "n < 2 ^ LENGTH('w) \<Longrightarrow> unat (of_nat n :: 'w::len word) = n"
  by (simp add: unat_of_nat)

section \<open>XOR on words\<close>

lemma word_xor_commute [xor_laws]: "(a :: 'a::len word) XOR b = b XOR a"
  by (rule xor.commute)

lemma word_xor_assoc [xor_laws]: "((a :: 'a::len word) XOR b) XOR c = a XOR (b XOR c)"
  by (rule xor.assoc)

lemma word_xor_left_commute [xor_laws]: "(a :: 'a::len word) XOR (b XOR c) = b XOR (a XOR c)"
  by (rule xor.left_commute)

lemma xor_cancel_left [simp]: "(a :: 'a::len word) XOR (a XOR b) = b"
  by (simp flip: xor.assoc)

lemma xor_eq_0_iff [simp]: "(a :: 'a::len word) XOR b = 0 \<longleftrightarrow> a = b"
proof
  assume "a XOR b = 0"
  then have "a XOR (a XOR b) = a XOR 0" by simp
  then show "a = b" by (simp del: xor.right_neutral) (simp add: xor.right_neutral)
qed simp

lemma xor_left_inject [simp]: "(a :: 'a::len word) XOR b = a XOR c \<longleftrightarrow> b = c"
proof
  assume "a XOR b = a XOR c"
  then have "a XOR (a XOR b) = a XOR (a XOR c)" by simp
  then show "b = c" by (simp only: xor_cancel_left)
qed simp

lemma xor_right_inject [simp]: "(b :: 'a::len word) XOR a = c XOR a \<longleftrightarrow> b = c"
  by (simp only: word_xor_commute [of _ a] xor_left_inject)

lemma not_not_word [simp]: "NOT (NOT (a :: 'a::len word)) = a"
  by simp

lemma not_inject_word: "NOT (a :: 'a::len word) = NOT b \<longleftrightarrow> a = b"
proof
  assume "NOT a = NOT b"
  then have "NOT (NOT a) = NOT (NOT b)" by simp
  then show "a = b" by (simp only: not_not_word)
qed simp

section \<open>The XOR sum of a list\<close>

text \<open>
  The running XOR \<open>s ^= x\<close> of the C loops, as a fold from \<open>0\<close>. Syndromes, parities
  and Galois field dot products are XOR sums.
\<close>

definition xor_sum :: "'a::len word list \<Rightarrow> 'a word" where
  "xor_sum xs = foldl (\<lambda>s x. s XOR x) 0 xs"

lemma foldl_xor: "foldl (\<lambda>s x. s XOR x) (a :: 'a::len word) xs = a XOR xor_sum xs"
proof -
  have "foldl (\<lambda>s x. s XOR x) (a XOR b) xs = a XOR foldl (\<lambda>s x. s XOR x) b xs" for b
    by (induction xs arbitrary: b) (simp_all add: xor.assoc)
  from this [of 0] show ?thesis by (simp add: xor_sum_def)
qed

lemma xor_sum_Nil [simp]: "xor_sum [] = 0"
  by (simp add: xor_sum_def)

lemma xor_sum_Cons [simp]: "xor_sum (x # xs) = x XOR xor_sum xs"
  by (subst xor_sum_def) (simp add: foldl_xor)

lemma xor_sum_append [simp]: "xor_sum (xs @ ys) = xor_sum xs XOR xor_sum ys"
  by (induction xs) (simp_all add: xor.assoc)

lemma xor_sum_map_xor:
  "xor_sum (map (\<lambda>i. f i XOR g i) xs) = xor_sum (map f xs) XOR xor_sum (map g xs)"
  by (induction xs) (simp_all add: xor_laws)

lemma xor_sum_map_0 [simp]: "xor_sum (map (\<lambda>_. 0) xs) = 0"
  by (induction xs) simp_all

lemma xor_sum_update:
  assumes "i < length xs"
  shows "xor_sum (xs[i := y]) = xor_sum xs XOR (xs ! i) XOR y"
  using assms
proof (induction xs arbitrary: i)
  case Nil
  then show ?case by simp
next
  case (Cons x xs)
  then show ?case by (cases i) (simp_all add: xor_laws)
qed

lemma xor_sum_swap:
  "xor_sum (map (\<lambda>i. xor_sum (map (f i) ys)) xs)
    = xor_sum (map (\<lambda>j. xor_sum (map (\<lambda>i. f i j) xs)) ys)"
  by (induction xs) (simp_all add: xor_sum_map_xor)

lemma xor_sum_delta:
  assumes "distinct xs" "k \<in> set xs" "\<And>i. i \<in> set xs \<Longrightarrow> i \<noteq> k \<Longrightarrow> f i = 0"
  shows "xor_sum (map f xs) = f k"
  using assms
proof (induction xs)
  case Nil
  then show ?case by simp
next
  case (Cons x xs)
  show ?case
  proof (cases "x = k")
    case True
    with Cons.prems have "map f xs = map (\<lambda>_. 0) xs" by auto
    then have "xor_sum (map f xs) = 0" by (simp only: xor_sum_map_0)
    with True show ?thesis by simp
  next
    case False
    with Cons.prems have "f x = 0" by simp
    with False Cons show ?thesis by simp
  qed
qed

section \<open>Evaluating XOR on numerals\<close>

text \<open>
  The simplifier's default rules for \<open>XOR\<close> on word numerals normalise sums bit by bit.
  For the constant tables (256 entries of up to 64 bits) the binary-numeral function
  \<open>xor_num\<close> is used instead: linear in the number of bits.
\<close>

lemma word_xor_num:
  "(numeral m :: 'a::len word) XOR numeral n
    = (case xor_num m n of None \<Rightarrow> 0 | Some p \<Rightarrow> numeral p)"
proof -
  have "(numeral m :: 'a word) XOR numeral n = word_of_int (numeral m XOR numeral n)"
    by (simp only: word_of_int_numeral [symmetric])
      (rule bit_word_eqI, simp only: bit_xor_iff bit_word_of_int_iff, auto)
  also have "\<dots> = (case xor_num m n of None \<Rightarrow> 0 | Some p \<Rightarrow> numeral p)"
    by (simp only: numeral_xor_num) (simp split: option.split)
  finally show ?thesis .
qed

lemma word_xor_num_1:
  "(1 :: 'a::len word) XOR numeral n
    = (case xor_num Num.One n of None \<Rightarrow> 0 | Some p \<Rightarrow> numeral p)"
  "(numeral n :: 'a::len word) XOR 1
    = (case xor_num n Num.One of None \<Rightarrow> 0 | Some p \<Rightarrow> numeral p)"
  by (simp_all only: word_xor_num [symmetric] numeral_One)

text \<open>All \<open>XOR\<close> combinations of a list of basis words, the first basis word as the most
  significant bit of the position.\<close>

fun xor_span :: "'a::len word list \<Rightarrow> 'a word list" where
  "xor_span [] = [0]"
| "xor_span (b # bs) = (let s = xor_span bs in s @ map (\<lambda>x. b XOR x) s)"

lemma length_xor_span [simp]: "length (xor_span bs) = 2 ^ length bs"
  by (induction bs) (simp_all add: Let_def)

lemmas xor_span_eval =
  xor_span.simps Let_def list.map append.simps word_xor_num word_xor_num_1 xor_num.simps
  option.case option.map xor.left_neutral xor.right_neutral

text \<open>An additive function of the index, tabulated, is the span of its values at the powers
  of two.\<close>

lemma xor_span_nth:
  fixes f :: "u8 \<Rightarrow> 'a::len word"
  assumes add: "\<And>a b. f (a XOR b) = f a XOR f b"
    and "k \<le> 8" "i < 2 ^ k"
  shows "xor_span (map (\<lambda>j. f (2 ^ j)) (rev [0..<k])) ! i = f (of_nat i)"
  using assms(2,3)
proof (induction k arbitrary: i)
  case 0
  have "f (0 XOR 0) = f 0 XOR f 0" by (rule add)
  then have "f 0 = 0" by simp
  with 0 show ?case by simp
next
  case (Suc k)
  let ?s = "xor_span (map (\<lambda>j. f (2 ^ j)) (rev [0..<k]))"
  show ?case
  proof (cases "i < 2 ^ k")
    case True
    with Suc.IH [of i] Suc.prems show ?thesis by (simp add: Let_def nth_append)
  next
    case False
    define j where "j = i - 2 ^ k"
    from False Suc.prems have j: "j < 2 ^ k" "i = 2 ^ k + j" by (auto simp: j_def)
    have b: "(2 :: u8) ^ k + of_nat j = 2 ^ k XOR of_nat j"
    proof (rule disjunctive_add_eq_xor, rule bit_word_eqI)
      fix n assume "n < LENGTH(8)"
      have "\<not> bit (j :: nat) k" using j(1) by (metis bit_take_bit_iff less_irrefl take_bit_nat_eq_self)
      then show "bit ((2 :: u8) ^ k AND of_nat j) n \<longleftrightarrow> bit (0 :: u8) n"
        by (auto simp: bit_simps)
    qed
    have "(of_nat i :: u8) = 2 ^ k XOR of_nat j"
      using b j(2) by simp
    then have "f (of_nat i) = f (2 ^ k) XOR f (of_nat j)"
      by (simp add: add)
    moreover have "?s ! j = f (of_nat j)" using Suc j by simp
    ultimately show ?thesis using j False by (simp add: Let_def nth_append)
  qed
qed

section \<open>Successive values of a step\<close>

fun iterates :: "('a \<Rightarrow> 'a) \<Rightarrow> 'a \<Rightarrow> nat \<Rightarrow> 'a list" where
  "iterates step p 0 = []"
| "iterates step p (Suc n) = p # iterates step (step p) n"

lemma iterates_numeral:
  "iterates step p (numeral n) = p # iterates step (step p) (pred_numeral n)"
  by (simp add: numeral_eq_Suc)

lemma iterates_1: "iterates step p 1 = [p]"
  by (simp add: One_nat_def)

lemma iterates_8:
  "iterates step p 8 =
    (let p1 = step p; p2 = step p1; p3 = step p2; p4 = step p3; p5 = step p4; p6 = step p5;
         p7 = step p6 in [p, p1, p2, p3, p4, p5, p6, p7])"
  by (simp add: iterates_numeral iterates_1 Let_def)

lemma iterates_map: "iterates step p n = map (\<lambda>j. (step ^^ j) p) [0..<n]"
proof (induction n arbitrary: p)
  case 0
  then show ?case by simp
next
  case (Suc n)
  have "[0..<Suc n] = 0 # map Suc [0..<n]" by (simp add: map_Suc_upt upt_conv_Cons del: upt_Suc)
  with Suc show ?case by (simp add: funpow_swap1)
qed

lemma iterates_rev:
  "map (\<lambda>j. (step ^^ (7 - j)) p) (rev [0..<8]) = iterates step p 8"
  unfolding iterates_map by (rule nth_equalityI) (simp_all add: rev_nth)

section \<open>Lists updated by index\<close>

lemma map_upt_Suc: "map f [0..<Suc n] = map f [0..<n] @ [f n]"
  by simp

lemma list_eq_map_nth: "xs = map (\<lambda>i. xs ! i) [0..<length xs]"
  by (simp add: map_nth)

text \<open>A loop that rewrites the first \<open>n\<close> cells of an array, each from its own value.\<close>

lemma foldl_write:
  "n \<le> length d \<Longrightarrow> foldl (\<lambda>d i. d[i := f i (d ! i)]) d [0..<n] = map (\<lambda>i. f i (d ! i)) [0..<n] @ drop n d"
proof (induction n)
  case (Suc n)
  then have "drop n d = (d ! n) # drop (Suc n) d" by (simp add: Cons_nth_drop_Suc)
  with Suc show ?case by (simp add: list_update_append nth_append)
qed simp

lemma foldl_ignore: "foldl (\<lambda>s _. f s) s xs = (f ^^ length xs) s"
  by (induction xs arbitrary: s) (simp_all add: funpow_swap1)

lemma foldl_pair:
  "foldl (\<lambda>(a, b) k. (f a k, g b k)) (a, b) ks = (foldl f a ks, foldl g b ks)"
  by (induction ks arbitrary: a b) simp_all

lemma flat_less: "i < (m :: nat) \<Longrightarrow> j < n \<Longrightarrow> i * n + j < m * n"
proof -
  assume "i < m" "j < n"
  then have "i * n + j < i * n + n" by simp
  also have "\<dots> = Suc i * n" by simp
  also have "\<dots> \<le> m * n" using \<open>i < m\<close> by (intro mult_le_mono1) simp
  finally show ?thesis .
qed

lemma nth_concat_blocks:
  assumes "\<And>x. x \<in> set xs \<Longrightarrow> length (f x) = n" "i < length xs" "j < n"
  shows "concat (map f xs) ! (i * n + j) = f (xs ! i) ! j"
  using assms
proof (induction xs arbitrary: i)
  case (Cons x xs)
  then show ?case by (cases i) (simp_all add: nth_append)
qed simp

lemma length_concat_blocks:
  "(\<And>x. x \<in> set xs \<Longrightarrow> length (f x) = n) \<Longrightarrow> length (concat (map f xs)) = length xs * n"
  by (induction xs) simp_all

end
