(* ===== verification/CRC_Register.thy ===== *)
theory CRC_Register
  imports ISAL_Prelude
begin

text \<open>
  The CRC register, as an interface. A reference CRC feeds a byte into the register and
  then runs one bit step eight times; the table-driven code replaces the eight steps by
  one table access. The locales state what both rest on: the bit step is additive over
  \<open>XOR\<close>, and eight steps split into a table entry and a shift. Inside them are proved,
  once for every polynomial and width: the table loop computes the bitwise loop, the
  register is affine in seed and message, and (when the step is injective) an error
  confined to a window no longer than the register is always detected.
\<close>

section \<open>Bit steps of the two bit orders\<close>

definition crc_refl_bit :: "'w::len word \<Rightarrow> 'w word \<Rightarrow> 'w word" where
  "crc_refl_bit poly rem = (if rem AND 1 \<noteq> 0 then drop_bit 1 rem XOR poly else drop_bit 1 rem)"

definition crc_norm_bit :: "'w::len word \<Rightarrow> 'w word \<Rightarrow> 'w word" where
  "crc_norm_bit poly rem =
    (if bit rem (LENGTH('w) - 1) then push_bit 1 rem XOR poly else push_bit 1 rem)"

section \<open>Additive bit steps\<close>

locale crc_linear =
  fixes step :: "'w::len word \<Rightarrow> 'w word"
  assumes step_xor: "step (a XOR b) = step a XOR step b"
begin

lemma step_0 [simp]: "step 0 = 0"
proof -
  have "step (0 XOR 0) = step 0 XOR step 0" by (rule step_xor)
  then show ?thesis by simp
qed

lemma steps_xor: "(step ^^ n) (a XOR b) = (step ^^ n) a XOR (step ^^ n) b"
  by (induction n) (simp_all add: step_xor)

lemma steps_0 [simp]: "(step ^^ n) 0 = 0"
  by (induction n) simp_all

end

section \<open>Table-driven registers\<close>

locale crc_table_driven = crc_linear step for step :: "'w::len word \<Rightarrow> 'w word" +
  fixes inj :: "u8 \<Rightarrow> 'w word"
    and top :: "'w word \<Rightarrow> u8"
    and shift :: "'w word \<Rightarrow> 'w word"
    and tab :: "'w word list"
  assumes inj_xor: "inj (a XOR b) = inj a XOR inj b"
    and steps_split: "(step ^^ 8) r = (step ^^ 8) (inj (top r)) XOR shift r"
    and tab: "tab ! unat b = (step ^^ 8) (inj b)"
begin

lemma inj_0 [simp]: "inj 0 = 0"
proof -
  have "inj (0 XOR 0) = inj 0 XOR inj 0" by (rule inj_xor)
  then show ?thesis by simp
qed

text \<open>One byte: the table access is the eight bit steps.\<close>

lemma table_byte: "tab ! unat (top r XOR b) XOR shift r = (step ^^ 8) (r XOR inj b)"
proof -
  have "(step ^^ 8) (r XOR inj b) = ((step ^^ 8) (inj (top r)) XOR shift r) XOR (step ^^ 8) (inj b)"
    by (simp only: steps_xor steps_split [symmetric])
  also have "\<dots> = (step ^^ 8) (inj (top r XOR b)) XOR shift r"
    by (simp add: inj_xor steps_xor xor_laws)
  finally show ?thesis by (simp add: tab)
qed

text \<open>The register after a message: the bitwise loop, and the table loop that computes it.\<close>

definition reg :: "'w word \<Rightarrow> u8 list \<Rightarrow> 'w word" where
  "reg s buf = foldl (\<lambda>r b. (step ^^ 8) (r XOR inj b)) s buf"

lemma table_loop:
  "foldl (\<lambda>r b. tab ! unat (top r XOR b) XOR shift r) s buf = reg s buf"
  by (simp add: reg_def table_byte)

lemma reg_Nil [simp]: "reg s [] = s"
  by (simp add: reg_def)

lemma reg_Cons: "reg s (b # bs) = reg ((step ^^ 8) (s XOR inj b)) bs"
  by (simp add: reg_def)

lemma reg_append: "reg s (xs @ ys) = reg (reg s xs) ys"
  by (simp add: reg_def)

text \<open>The register is additive in the pair of seed and message.\<close>

lemma reg_xor:
  assumes "length xs = length ys"
  shows "reg (s XOR t) (map2 (XOR) xs ys) = reg s xs XOR reg t ys"
  using assms
proof (induction xs ys arbitrary: s t rule: list_induct2)
  case Nil
  then show ?case by simp
next
  case (Cons x xs y ys)
  have "(step ^^ 8) ((s XOR t) XOR inj (x XOR y))
    = (step ^^ 8) (s XOR inj x) XOR (step ^^ 8) (t XOR inj y)"
    by (simp add: inj_xor steps_xor xor_laws)
  with Cons.IH show ?case by (simp add: reg_Cons)
qed

lemma reg_zeros: "reg s (replicate n 0) = (step ^^ (8 * n)) s"
proof (induction n arbitrary: s)
  case 0
  then show ?case by simp
next
  case (Suc n)
  have "(step ^^ (8 * n)) ((step ^^ 8) s) = (step ^^ (8 * Suc n)) s"
    by (simp add: add.commute flip: funpow_add [THEN fun_cong, unfolded o_apply])
  with Suc show ?case by (simp add: reg_Cons)
qed

end

section \<open>Injective registers detect bursts\<close>

text \<open>
  \<open>pos n b\<close> is the register that becomes \<open>inj b\<close> after \<open>8 * n\<close> bit steps; a window of at
  most \<open>width\<close> bytes is then packed into one register, and distinct windows give distinct
  registers.
\<close>

locale crc_burst = crc_table_driven step inj top shift tab
  for step :: "'w::len word \<Rightarrow> 'w word" and inj top shift tab +
  fixes pos :: "nat \<Rightarrow> u8 \<Rightarrow> 'w word"
    and get :: "nat \<Rightarrow> 'w word \<Rightarrow> u8"
    and width :: nat
  assumes step_eq_0: "step a = 0 \<Longrightarrow> a = 0"
    and pos_steps: "n < width \<Longrightarrow> (step ^^ (8 * n)) (pos n b) = inj b"
    and get_xor: "get n (x XOR y) = get n x XOR get n y"
    and get_pos: "n < width \<Longrightarrow> m < width \<Longrightarrow> get n (pos m b) = (if n = m then b else 0)"
begin

lemma steps_eq_0: "(step ^^ n) a = 0 \<Longrightarrow> a = 0"
  by (induction n) (auto dest: step_eq_0)

fun pack :: "nat \<Rightarrow> u8 list \<Rightarrow> 'w word" where
  "pack n [] = 0"
| "pack n (b # bs) = pos n b XOR pack (Suc n) bs"

lemma pack_append: "pack n (xs @ [b]) = pack n xs XOR pos (n + length xs) b"
  by (induction xs arbitrary: n) (simp_all add: xor_laws)

lemma reg_pack: "length bs \<le> width \<Longrightarrow> reg 0 bs = (step ^^ (8 * length bs)) (pack 0 bs)"
proof (induction bs rule: rev_induct)
  case Nil
  then show ?case by simp
next
  case (snoc b bs)
  let ?n = "8 * length bs"
  have "reg 0 (bs @ [b]) = (step ^^ 8) ((step ^^ ?n) (pack 0 bs) XOR inj b)"
    using snoc by (simp add: reg_append reg_Cons)
  also have "\<dots> = (step ^^ 8) ((step ^^ ?n) (pack 0 (bs @ [b])))"
    using snoc.prems by (simp add: pack_append steps_xor pos_steps)
  also have "\<dots> = (step ^^ (8 * length (bs @ [b]))) (pack 0 (bs @ [b]))"
    by (simp flip: funpow_add [THEN fun_cong, unfolded o_apply])
  finally show ?case .
qed

lemma get_pack:
  assumes "n + length bs \<le> width" "m < width"
  shows "get m (pack n bs) = (if n \<le> m \<and> m < n + length bs then bs ! (m - n) else 0)"
  using assms
proof (induction bs arbitrary: n)
  case Nil
  have "get m (0 XOR 0) = get m 0 XOR get m 0" by (rule get_xor)
  then have "get m 0 = 0" by simp
  then show ?case by auto
next
  case (Cons b bs)
  then have "get m (pack (Suc n) bs) =
      (if Suc n \<le> m \<and> m < Suc n + length bs then bs ! (m - Suc n) else 0)"
    by simp
  with Cons.prems show ?case
    by (auto simp: get_xor get_pos nth_Cons')
qed

lemma pack_eq_0:
  assumes "length bs \<le> width" "pack 0 bs = 0"
  shows "bs = replicate (length bs) 0"
proof (rule nth_equalityI)
  fix i assume i: "i < length bs"
  have "bs ! i = get i (pack 0 bs)"
    using assms(1) i by (simp add: get_pack)
  also have "\<dots> = get i (pack 0 [])" by (simp add: assms(2))
  also have "\<dots> = 0" using assms(1) i by (subst get_pack) auto
  finally show "bs ! i = replicate (length bs) 0 ! i" using i by simp
qed simp

lemma burst_detected:
  assumes len: "length x = length y" "length x \<le> width" and ne: "x \<noteq> y"
  shows "reg s (pre @ x @ post) \<noteq> reg s (pre @ y @ post)"
proof
  assume eq: "reg s (pre @ x @ post) = reg s (pre @ y @ post)"
  let ?t = "reg s pre" and ?d = "map2 (XOR) x y"
  have post: "reg a post XOR reg b post = (step ^^ (8 * length post)) (a XOR b)" for a b
  proof -
    have "map2 (XOR) post post = replicate (length post) 0"
      by (rule nth_equalityI) simp_all
    with reg_xor [of post post a b] show ?thesis by (simp add: reg_zeros)
  qed
  have d: "reg ?t x XOR reg ?t y = reg 0 ?d"
    using reg_xor [OF len(1), of ?t ?t] by simp
  have "(step ^^ (8 * length post)) (reg 0 ?d) = 0"
    using eq post [of "reg ?t x" "reg ?t y"] by (simp add: reg_append d)
  then have "reg 0 ?d = 0" by (rule steps_eq_0)
  then have "(step ^^ (8 * length ?d)) (pack 0 ?d) = 0"
    using len reg_pack [of ?d] by simp
  then have "pack 0 ?d = 0" by (rule steps_eq_0)
  then have "?d = replicate (length ?d) 0" using len by (intro pack_eq_0) simp_all
  then have d0: "?d = replicate (length x) 0" using len(1) by simp
  have "x ! i XOR y ! i = 0" if "i < length x" for i
  proof -
    have "?d ! i = x ! i XOR y ! i" using that len(1) by simp
    then show ?thesis using that by (simp only: d0 nth_replicate)
  qed
  then have "x = y" using len(1) by (intro nth_equalityI) simp_all
  with ne show False by contradiction
qed

end

end
