(* ===== verification/CRC_Ref.thy ===== *)
theory CRC_Ref
  imports CRC_Register
begin

text \<open>
  The reference CRCs of \<open>crc/crc_ref.h\<close> and \<open>crc/crc64_ref.h\<close>: one bit per step, eight
  steps (\<open>MAX_ITER\<close>) per byte, each function with the register width, the seed
  inversion and the test the C code has. A \<open>(buf, len)\<close> pair is the list of the \<open>len\<close>
  bytes read. The 16-bit and the IEEE reference keep a 64-bit \<open>rem\<close> whose bits above the
  register are not cleared; the model keeps that width and truncates at the return, as the
  cast does. The functions of \<open>crc_ref.h\<close> that take a 64-bit length count the bytes with a
  32-bit \<open>i\<close>: an \<open>unsigned int\<close> never reaches a length of 4 GiB and the loop does not
  end, an \<open>int\<close> overflows at 2 GiB. Their value is \<open>None\<close> from there on. \<open>crc32_iscsi_ref\<close>
  takes an \<open>int\<close> length, so its list has fewer than \<open>2 ^ 31\<close> bytes. The references of
  \<open>crc64_ref.h\<close> (\<open>unsigned int i\<close> as well) are kept total, as the specification of CRC-64.
\<close>

definition MAX_ITER :: nat where
  "MAX_ITER = 8"

section \<open>One bit step, as each function writes it\<close>

definition crc16_t10dif_ref_bit :: "u64 \<Rightarrow> u64" where
  "crc16_t10dif_ref_bit rem =
    (let rem = push_bit 1 rem in if rem AND 0x10000 \<noteq> 0 then rem XOR 0x8bb7 else rem)"

definition crc32_iscsi_ref_bit :: "u32 \<Rightarrow> u32" where
  "crc32_iscsi_ref_bit rem =
    (if rem AND 1 \<noteq> 0 then drop_bit 1 rem XOR 0x82F63B78 else drop_bit 1 rem)"

definition crc32_ieee_ref_bit :: "u64 \<Rightarrow> u64" where
  "crc32_ieee_ref_bit rem =
    (let rem = push_bit 1 rem in if rem AND 0x100000000 \<noteq> 0 then rem XOR 0x04C11DB7 else rem)"

definition crc32_gzip_refl_ref_bit :: "u64 \<Rightarrow> u64" where
  "crc32_gzip_refl_ref_bit rem =
    (if rem AND 1 \<noteq> 0 then drop_bit 1 rem XOR 0xEDB88320 else drop_bit 1 rem)"

definition crc64_refl_ref_bit :: "u64 \<Rightarrow> u64 \<Rightarrow> u64" where
  "crc64_refl_ref_bit poly rem = (if rem AND 1 \<noteq> 0 then poly else 0) XOR drop_bit 1 rem"

definition crc64_norm_ref_bit :: "u64 \<Rightarrow> u64 \<Rightarrow> u64" where
  "crc64_norm_ref_bit poly rem =
    (if rem AND 0x8000000000000000 \<noteq> 0 then poly else 0) XOR push_bit 1 rem"

section \<open>The functions of crc/crc_ref.h\<close>

definition crc32_iscsi_ref :: "u8 list \<Rightarrow> u32 \<Rightarrow> u32" where
  "crc32_iscsi_ref buffer crc_init =
    foldl (\<lambda>rem b. (crc32_iscsi_ref_bit ^^ MAX_ITER) (rem XOR ucast b)) crc_init buffer"

text \<open>The loops, and the functions with the range of their counters.\<close>

definition crc16_t10dif_ref_loop :: "u16 \<Rightarrow> u8 list \<Rightarrow> u16" where
  "crc16_t10dif_ref_loop seed buf =
    ucast (foldl (\<lambda>rem b. (crc16_t10dif_ref_bit ^^ MAX_ITER) (rem XOR push_bit 8 (ucast b)))
      (ucast seed) buf)"

definition crc16_t10dif_ref :: "u16 \<Rightarrow> u8 list \<Rightarrow> u16 option" where
  "crc16_t10dif_ref seed buf =
    (if length buf < 2 ^ 32 then Some (crc16_t10dif_ref_loop seed buf) else None)"

text \<open>The copying variant returns the register and the destination it has written.\<close>

definition crc16_t10dif_copy_ref_loop :: "u16 \<Rightarrow> u8 list \<Rightarrow> u8 list \<Rightarrow> u16 \<times> u8 list" where
  "crc16_t10dif_copy_ref_loop seed dst src =
    (let (rem, dst') = foldl (\<lambda>(rem, dst) (i, b).
        ((crc16_t10dif_ref_bit ^^ MAX_ITER) (rem XOR push_bit 8 (ucast b)), dst[i := b]))
      (ucast seed, dst) (enumerate 0 src)
     in (ucast rem, dst'))"

definition crc16_t10dif_copy_ref :: "u16 \<Rightarrow> u8 list \<Rightarrow> u8 list \<Rightarrow> (u16 \<times> u8 list) option" where
  "crc16_t10dif_copy_ref seed dst src =
    (if length src < 2 ^ 32 then Some (crc16_t10dif_copy_ref_loop seed dst src) else None)"

definition crc32_ieee_ref_loop :: "u32 \<Rightarrow> u8 list \<Rightarrow> u32" where
  "crc32_ieee_ref_loop seed buf =
    ucast (NOT (foldl (\<lambda>rem b. (crc32_ieee_ref_bit ^^ MAX_ITER) (rem XOR push_bit 24 (ucast b)))
      (ucast (NOT seed)) buf))"

definition crc32_ieee_ref :: "u32 \<Rightarrow> u8 list \<Rightarrow> u32 option" where
  "crc32_ieee_ref seed buf =
    (if length buf < 2 ^ 32 then Some (crc32_ieee_ref_loop seed buf) else None)"

definition crc32_gzip_refl_ref_loop :: "u32 \<Rightarrow> u8 list \<Rightarrow> u32" where
  "crc32_gzip_refl_ref_loop seed buf =
    ucast (NOT (foldl (\<lambda>rem b. (crc32_gzip_refl_ref_bit ^^ MAX_ITER) (rem XOR ucast b))
      (ucast (NOT seed)) buf))"

definition crc32_gzip_refl_ref :: "u32 \<Rightarrow> u8 list \<Rightarrow> u32 option" where
  "crc32_gzip_refl_ref seed buf =
    (if length buf < 2 ^ 31 then Some (crc32_gzip_refl_ref_loop seed buf) else None)"

section \<open>The functions of crc/crc64_ref.h\<close>

definition crc64_ecma_refl_ref :: "u64 \<Rightarrow> u8 list \<Rightarrow> u64" where
  "crc64_ecma_refl_ref seed buf =
    NOT (foldl (\<lambda>rem b. (crc64_refl_ref_bit 0xC96C5795D7870F42 ^^ MAX_ITER) (rem XOR ucast b))
      (NOT seed) buf)"

definition crc64_ecma_norm_ref :: "u64 \<Rightarrow> u8 list \<Rightarrow> u64" where
  "crc64_ecma_norm_ref seed buf =
    NOT (foldl (\<lambda>rem b. (crc64_norm_ref_bit 0x42F0E1EBA9EA3693 ^^ MAX_ITER) (rem XOR push_bit 56 (ucast b)))
      (NOT seed) buf)"

definition crc64_iso_refl_ref :: "u64 \<Rightarrow> u8 list \<Rightarrow> u64" where
  "crc64_iso_refl_ref seed buf =
    NOT (foldl (\<lambda>rem b. (crc64_refl_ref_bit 0xD800000000000000 ^^ MAX_ITER) (rem XOR ucast b))
      (NOT seed) buf)"

definition crc64_iso_norm_ref :: "u64 \<Rightarrow> u8 list \<Rightarrow> u64" where
  "crc64_iso_norm_ref seed buf =
    NOT (foldl (\<lambda>rem b. (crc64_norm_ref_bit 0x000000000000001B ^^ MAX_ITER) (rem XOR push_bit 56 (ucast b)))
      (NOT seed) buf)"

definition crc64_jones_refl_ref :: "u64 \<Rightarrow> u8 list \<Rightarrow> u64" where
  "crc64_jones_refl_ref seed buf =
    NOT (foldl (\<lambda>rem b. (crc64_refl_ref_bit 0x95AC9329AC4BC9B5 ^^ MAX_ITER) (rem XOR ucast b))
      (NOT seed) buf)"

definition crc64_jones_norm_ref :: "u64 \<Rightarrow> u8 list \<Rightarrow> u64" where
  "crc64_jones_norm_ref seed buf =
    NOT (foldl (\<lambda>rem b. (crc64_norm_ref_bit 0xAD93D23594C935A9 ^^ MAX_ITER) (rem XOR push_bit 56 (ucast b)))
      (NOT seed) buf)"

definition crc64_rocksoft_refl_ref :: "u64 \<Rightarrow> u8 list \<Rightarrow> u64" where
  "crc64_rocksoft_refl_ref seed buf =
    NOT (foldl (\<lambda>rem b. (crc64_refl_ref_bit 0x9A6C9329AC4BC9B5 ^^ MAX_ITER) (rem XOR ucast b))
      (NOT seed) buf)"

definition crc64_rocksoft_norm_ref :: "u64 \<Rightarrow> u8 list \<Rightarrow> u64" where
  "crc64_rocksoft_norm_ref seed buf =
    NOT (foldl (\<lambda>rem b. (crc64_norm_ref_bit 0xAD93D23594C93659 ^^ MAX_ITER) (rem XOR push_bit 56 (ucast b)))
      (NOT seed) buf)"

section \<open>The steps as register steps\<close>

lemma crc32_iscsi_ref_bit_eq: "crc32_iscsi_ref_bit = crc_refl_bit 0x82F63B78"
  by (rule ext) (simp only: crc32_iscsi_ref_bit_def crc_refl_bit_def)

lemma crc64_refl_ref_bit_eq: "crc64_refl_ref_bit poly = crc_refl_bit poly"
  by (rule ext) (simp add: crc64_refl_ref_bit_def crc_refl_bit_def xor.commute)

lemma crc64_norm_ref_bit_eq: "crc64_norm_ref_bit poly = crc_norm_bit poly"
proof
  fix rem :: u64
  have "rem AND 0x8000000000000000 \<noteq> 0 \<longleftrightarrow> bit rem 63"
    using and_exp_eq_0_iff_not_bit [of rem 63] by simp
  then show "crc64_norm_ref_bit poly rem = crc_norm_bit poly rem"
    by (simp add: crc64_norm_ref_bit_def crc_norm_bit_def xor.commute del: push_bit_Suc)
qed

text \<open>A 64-bit register whose low bits are the 16- or 32-bit register.\<close>

lemma crc16_t10dif_ref_bit_ucast:
  "(ucast (crc16_t10dif_ref_bit rem) :: u16) = crc_norm_bit 0x8bb7 (ucast rem)"
proof -
  have t: "push_bit 1 rem AND 0x10000 \<noteq> 0 \<longleftrightarrow> bit rem 15"
    using and_exp_eq_0_iff_not_bit [of "push_bit 1 rem" 16]
    by (simp add: bit_push_bit_iff del: push_bit_Suc)
  have s: "(ucast (push_bit 1 rem) :: u16) = push_bit 1 (ucast rem)"
    by (rule bit_word_eqI) (auto simp: bit_simps simp del: push_bit_Suc)
  have b: "bit (ucast rem :: u16) 15 \<longleftrightarrow> bit rem 15" by (simp add: bit_simps)
  have p: "(ucast (push_bit 1 rem XOR 0x8bb7) :: u16) = push_bit 1 (ucast rem) XOR 0x8bb7"
    by (simp only: unsigned_xor_eq s) simp
  have L: "LENGTH(16) - 1 = 15" by simp
  show ?thesis
    by (simp only: crc16_t10dif_ref_bit_def crc_norm_bit_def Let_def t b L p s if_distrib [of "ucast :: u64 \<Rightarrow> u16"])
qed

lemma crc32_ieee_ref_bit_ucast:
  "(ucast (crc32_ieee_ref_bit rem) :: u32) = crc_norm_bit 0x04C11DB7 (ucast rem)"
proof -
  have t: "push_bit 1 rem AND 0x100000000 \<noteq> 0 \<longleftrightarrow> bit rem 31"
    using and_exp_eq_0_iff_not_bit [of "push_bit 1 rem" 32]
    by (simp add: bit_push_bit_iff del: push_bit_Suc)
  have s: "(ucast (push_bit 1 rem) :: u32) = push_bit 1 (ucast rem)"
    by (rule bit_word_eqI) (auto simp: bit_simps simp del: push_bit_Suc)
  have b: "bit (ucast rem :: u32) 31 \<longleftrightarrow> bit rem 31" by (simp add: bit_simps)
  have p: "(ucast (push_bit 1 rem XOR 0x04C11DB7) :: u32) = push_bit 1 (ucast rem) XOR 0x04C11DB7"
    by (simp only: unsigned_xor_eq s) simp
  have L: "LENGTH(32) - 1 = 31" by simp
  show ?thesis
    by (simp only: crc32_ieee_ref_bit_def crc_norm_bit_def Let_def t b L p s if_distrib [of "ucast :: u64 \<Rightarrow> u32"])
qed

text \<open>The gzip reference keeps a 32-bit value in its 64-bit \<open>rem\<close>.\<close>

lemma crc32_gzip_refl_ref_bit_ucast:
  "crc32_gzip_refl_ref_bit (ucast (r :: u32)) = ucast (crc_refl_bit 0xEDB88320 r)"
proof -
  have t: "(ucast r :: u64) AND 1 \<noteq> 0 \<longleftrightarrow> r AND 1 \<noteq> 0"
    by (simp add: and_one_eq bit_0 [symmetric] bit_simps odd_iff_mod_2_eq_one [symmetric]
        flip: bit_0)
  have s: "drop_bit 1 (ucast r :: u64) = ucast (drop_bit 1 r)"
    by (rule bit_word_eqI) (auto simp: bit_simps dest: bit_imp_le_length)
  have p: "(ucast (drop_bit 1 r XOR 0xEDB88320) :: u64) = ucast (drop_bit 1 r) XOR 0xEDB88320"
    by (simp add: unsigned_xor_eq)
  show ?thesis
    by (simp only: crc32_gzip_refl_ref_bit_def crc_refl_bit_def t s p if_distrib [of "ucast :: u32 \<Rightarrow> u64"])
qed

lemma crc16_t10dif_ref_bits_ucast:
  "(ucast ((crc16_t10dif_ref_bit ^^ n) rem) :: u16) = (crc_norm_bit 0x8bb7 ^^ n) (ucast rem)"
  by (induction n) (simp_all add: crc16_t10dif_ref_bit_ucast)

lemma crc32_ieee_ref_bits_ucast:
  "(ucast ((crc32_ieee_ref_bit ^^ n) rem) :: u32) = (crc_norm_bit 0x04C11DB7 ^^ n) (ucast rem)"
  by (induction n) (simp_all add: crc32_ieee_ref_bit_ucast)

lemma crc32_gzip_refl_ref_bits_ucast:
  "(crc32_gzip_refl_ref_bit ^^ n) (ucast (r :: u32)) = ucast ((crc_refl_bit 0xEDB88320 ^^ n) r)"
  by (induction n) (simp_all add: crc32_gzip_refl_ref_bit_ucast)

end
