(* ===== verification/CRC_Tables.thy ===== *)
theory CRC_Tables
  imports ISAL_Prelude
begin

text \<open>
  The constant tables of \<open>crc/crc_base.c\<close> and \<open>crc/crc64_base.c\<close>, entry by entry as the
  source lists them: one 16-bit, three 32-bit and eight 64-bit tables of 256 entries.
\<close>

section \<open>Tables of crc/crc_base.c\<close>

definition crc16tab :: "u16 list" where
  "crc16tab = [
    0x0000, 0x8BB7, 0x9CD9, 0x176E, 0xB205, 0x39B2, 0x2EDC, 0xA56B,
    0xEFBD, 0x640A, 0x7364, 0xF8D3, 0x5DB8, 0xD60F, 0xC161, 0x4AD6,
    0x54CD, 0xDF7A, 0xC814, 0x43A3, 0xE6C8, 0x6D7F, 0x7A11, 0xF1A6,
    0xBB70, 0x30C7, 0x27A9, 0xAC1E, 0x0975, 0x82C2, 0x95AC, 0x1E1B,
    0xA99A, 0x222D, 0x3543, 0xBEF4, 0x1B9F, 0x9028, 0x8746, 0x0CF1,
    0x4627, 0xCD90, 0xDAFE, 0x5149, 0xF422, 0x7F95, 0x68FB, 0xE34C,
    0xFD57, 0x76E0, 0x618E, 0xEA39, 0x4F52, 0xC4E5, 0xD38B, 0x583C,
    0x12EA, 0x995D, 0x8E33, 0x0584, 0xA0EF, 0x2B58, 0x3C36, 0xB781,
    0xD883, 0x5334, 0x445A, 0xCFED, 0x6A86, 0xE131, 0xF65F, 0x7DE8,
    0x373E, 0xBC89, 0xABE7, 0x2050, 0x853B, 0x0E8C, 0x19E2, 0x9255,
    0x8C4E, 0x07F9, 0x1097, 0x9B20, 0x3E4B, 0xB5FC, 0xA292, 0x2925,
    0x63F3, 0xE844, 0xFF2A, 0x749D, 0xD1F6, 0x5A41, 0x4D2F, 0xC698,
    0x7119, 0xFAAE, 0xEDC0, 0x6677, 0xC31C, 0x48AB, 0x5FC5, 0xD472,
    0x9EA4, 0x1513, 0x027D, 0x89CA, 0x2CA1, 0xA716, 0xB078, 0x3BCF,
    0x25D4, 0xAE63, 0xB90D, 0x32BA, 0x97D1, 0x1C66, 0x0B08, 0x80BF,
    0xCA69, 0x41DE, 0x56B0, 0xDD07, 0x786C, 0xF3DB, 0xE4B5, 0x6F02,
    0x3AB1, 0xB106, 0xA668, 0x2DDF, 0x88B4, 0x0303, 0x146D, 0x9FDA,
    0xD50C, 0x5EBB, 0x49D5, 0xC262, 0x6709, 0xECBE, 0xFBD0, 0x7067,
    0x6E7C, 0xE5CB, 0xF2A5, 0x7912, 0xDC79, 0x57CE, 0x40A0, 0xCB17,
    0x81C1, 0x0A76, 0x1D18, 0x96AF, 0x33C4, 0xB873, 0xAF1D, 0x24AA,
    0x932B, 0x189C, 0x0FF2, 0x8445, 0x212E, 0xAA99, 0xBDF7, 0x3640,
    0x7C96, 0xF721, 0xE04F, 0x6BF8, 0xCE93, 0x4524, 0x524A, 0xD9FD,
    0xC7E6, 0x4C51, 0x5B3F, 0xD088, 0x75E3, 0xFE54, 0xE93A, 0x628D,
    0x285B, 0xA3EC, 0xB482, 0x3F35, 0x9A5E, 0x11E9, 0x0687, 0x8D30,
    0xE232, 0x6985, 0x7EEB, 0xF55C, 0x5037, 0xDB80, 0xCCEE, 0x4759,
    0x0D8F, 0x8638, 0x9156, 0x1AE1, 0xBF8A, 0x343D, 0x2353, 0xA8E4,
    0xB6FF, 0x3D48, 0x2A26, 0xA191, 0x04FA, 0x8F4D, 0x9823, 0x1394,
    0x5942, 0xD2F5, 0xC59B, 0x4E2C, 0xEB47, 0x60F0, 0x779E, 0xFC29,
    0x4BA8, 0xC01F, 0xD771, 0x5CC6, 0xF9AD, 0x721A, 0x6574, 0xEEC3,
    0xA415, 0x2FA2, 0x38CC, 0xB37B, 0x1610, 0x9DA7, 0x8AC9, 0x017E,
    0x1F65, 0x94D2, 0x83BC, 0x080B, 0xAD60, 0x26D7, 0x31B9, 0xBA0E,
    0xF0D8, 0x7B6F, 0x6C01, 0xE7B6, 0x42DD, 0xC96A, 0xDE04, 0x55B3]"

definition crc32_table_iscsi_refl :: "u32 list" where
  "crc32_table_iscsi_refl = [
    0x00000000, 0xF26B8303, 0xE13B70F7, 0x1350F3F4, 0xC79A971F, 0x35F1141C,
    0x26A1E7E8, 0xD4CA64EB, 0x8AD958CF, 0x78B2DBCC, 0x6BE22838, 0x9989AB3B,
    0x4D43CFD0, 0xBF284CD3, 0xAC78BF27, 0x5E133C24, 0x105EC76F, 0xE235446C,
    0xF165B798, 0x030E349B, 0xD7C45070, 0x25AFD373, 0x36FF2087, 0xC494A384,
    0x9A879FA0, 0x68EC1CA3, 0x7BBCEF57, 0x89D76C54, 0x5D1D08BF, 0xAF768BBC,
    0xBC267848, 0x4E4DFB4B, 0x20BD8EDE, 0xD2D60DDD, 0xC186FE29, 0x33ED7D2A,
    0xE72719C1, 0x154C9AC2, 0x061C6936, 0xF477EA35, 0xAA64D611, 0x580F5512,
    0x4B5FA6E6, 0xB93425E5, 0x6DFE410E, 0x9F95C20D, 0x8CC531F9, 0x7EAEB2FA,
    0x30E349B1, 0xC288CAB2, 0xD1D83946, 0x23B3BA45, 0xF779DEAE, 0x05125DAD,
    0x1642AE59, 0xE4292D5A, 0xBA3A117E, 0x4851927D, 0x5B016189, 0xA96AE28A,
    0x7DA08661, 0x8FCB0562, 0x9C9BF696, 0x6EF07595, 0x417B1DBC, 0xB3109EBF,
    0xA0406D4B, 0x522BEE48, 0x86E18AA3, 0x748A09A0, 0x67DAFA54, 0x95B17957,
    0xCBA24573, 0x39C9C670, 0x2A993584, 0xD8F2B687, 0x0C38D26C, 0xFE53516F,
    0xED03A29B, 0x1F682198, 0x5125DAD3, 0xA34E59D0, 0xB01EAA24, 0x42752927,
    0x96BF4DCC, 0x64D4CECF, 0x77843D3B, 0x85EFBE38, 0xDBFC821C, 0x2997011F,
    0x3AC7F2EB, 0xC8AC71E8, 0x1C661503, 0xEE0D9600, 0xFD5D65F4, 0x0F36E6F7,
    0x61C69362, 0x93AD1061, 0x80FDE395, 0x72966096, 0xA65C047D, 0x5437877E,
    0x4767748A, 0xB50CF789, 0xEB1FCBAD, 0x197448AE, 0x0A24BB5A, 0xF84F3859,
    0x2C855CB2, 0xDEEEDFB1, 0xCDBE2C45, 0x3FD5AF46, 0x7198540D, 0x83F3D70E,
    0x90A324FA, 0x62C8A7F9, 0xB602C312, 0x44694011, 0x5739B3E5, 0xA55230E6,
    0xFB410CC2, 0x092A8FC1, 0x1A7A7C35, 0xE811FF36, 0x3CDB9BDD, 0xCEB018DE,
    0xDDE0EB2A, 0x2F8B6829, 0x82F63B78, 0x709DB87B, 0x63CD4B8F, 0x91A6C88C,
    0x456CAC67, 0xB7072F64, 0xA457DC90, 0x563C5F93, 0x082F63B7, 0xFA44E0B4,
    0xE9141340, 0x1B7F9043, 0xCFB5F4A8, 0x3DDE77AB, 0x2E8E845F, 0xDCE5075C,
    0x92A8FC17, 0x60C37F14, 0x73938CE0, 0x81F80FE3, 0x55326B08, 0xA759E80B,
    0xB4091BFF, 0x466298FC, 0x1871A4D8, 0xEA1A27DB, 0xF94AD42F, 0x0B21572C,
    0xDFEB33C7, 0x2D80B0C4, 0x3ED04330, 0xCCBBC033, 0xA24BB5A6, 0x502036A5,
    0x4370C551, 0xB11B4652, 0x65D122B9, 0x97BAA1BA, 0x84EA524E, 0x7681D14D,
    0x2892ED69, 0xDAF96E6A, 0xC9A99D9E, 0x3BC21E9D, 0xEF087A76, 0x1D63F975,
    0x0E330A81, 0xFC588982, 0xB21572C9, 0x407EF1CA, 0x532E023E, 0xA145813D,
    0x758FE5D6, 0x87E466D5, 0x94B49521, 0x66DF1622, 0x38CC2A06, 0xCAA7A905,
    0xD9F75AF1, 0x2B9CD9F2, 0xFF56BD19, 0x0D3D3E1A, 0x1E6DCDEE, 0xEC064EED,
    0xC38D26C4, 0x31E6A5C7, 0x22B65633, 0xD0DDD530, 0x0417B1DB, 0xF67C32D8,
    0xE52CC12C, 0x1747422F, 0x49547E0B, 0xBB3FFD08, 0xA86F0EFC, 0x5A048DFF,
    0x8ECEE914, 0x7CA56A17, 0x6FF599E3, 0x9D9E1AE0, 0xD3D3E1AB, 0x21B862A8,
    0x32E8915C, 0xC083125F, 0x144976B4, 0xE622F5B7, 0xF5720643, 0x07198540,
    0x590AB964, 0xAB613A67, 0xB831C993, 0x4A5A4A90, 0x9E902E7B, 0x6CFBAD78,
    0x7FAB5E8C, 0x8DC0DD8F, 0xE330A81A, 0x115B2B19, 0x020BD8ED, 0xF0605BEE,
    0x24AA3F05, 0xD6C1BC06, 0xC5914FF2, 0x37FACCF1, 0x69E9F0D5, 0x9B8273D6,
    0x88D28022, 0x7AB90321, 0xAE7367CA, 0x5C18E4C9, 0x4F48173D, 0xBD23943E,
    0xF36E6F75, 0x0105EC76, 0x12551F82, 0xE03E9C81, 0x34F4F86A, 0xC69F7B69,
    0xD5CF889D, 0x27A40B9E, 0x79B737BA, 0x8BDCB4B9, 0x988C474D, 0x6AE7C44E,
    0xBE2DA0A5, 0x4C4623A6, 0x5F16D052, 0xAD7D5351]"

definition crc32_table_ieee_norm :: "u32 list" where
  "crc32_table_ieee_norm = [
    0x00000000, 0x04C11DB7, 0x09823B6E, 0x0D4326D9, 0x130476DC, 0x17C56B6B,
    0x1A864DB2, 0x1E475005, 0x2608EDB8, 0x22C9F00F, 0x2F8AD6D6, 0x2B4BCB61,
    0x350C9B64, 0x31CD86D3, 0x3C8EA00A, 0x384FBDBD, 0x4C11DB70, 0x48D0C6C7,
    0x4593E01E, 0x4152FDA9, 0x5F15ADAC, 0x5BD4B01B, 0x569796C2, 0x52568B75,
    0x6A1936C8, 0x6ED82B7F, 0x639B0DA6, 0x675A1011, 0x791D4014, 0x7DDC5DA3,
    0x709F7B7A, 0x745E66CD, 0x9823B6E0, 0x9CE2AB57, 0x91A18D8E, 0x95609039,
    0x8B27C03C, 0x8FE6DD8B, 0x82A5FB52, 0x8664E6E5, 0xBE2B5B58, 0xBAEA46EF,
    0xB7A96036, 0xB3687D81, 0xAD2F2D84, 0xA9EE3033, 0xA4AD16EA, 0xA06C0B5D,
    0xD4326D90, 0xD0F37027, 0xDDB056FE, 0xD9714B49, 0xC7361B4C, 0xC3F706FB,
    0xCEB42022, 0xCA753D95, 0xF23A8028, 0xF6FB9D9F, 0xFBB8BB46, 0xFF79A6F1,
    0xE13EF6F4, 0xE5FFEB43, 0xE8BCCD9A, 0xEC7DD02D, 0x34867077, 0x30476DC0,
    0x3D044B19, 0x39C556AE, 0x278206AB, 0x23431B1C, 0x2E003DC5, 0x2AC12072,
    0x128E9DCF, 0x164F8078, 0x1B0CA6A1, 0x1FCDBB16, 0x018AEB13, 0x054BF6A4,
    0x0808D07D, 0x0CC9CDCA, 0x7897AB07, 0x7C56B6B0, 0x71159069, 0x75D48DDE,
    0x6B93DDDB, 0x6F52C06C, 0x6211E6B5, 0x66D0FB02, 0x5E9F46BF, 0x5A5E5B08,
    0x571D7DD1, 0x53DC6066, 0x4D9B3063, 0x495A2DD4, 0x44190B0D, 0x40D816BA,
    0xACA5C697, 0xA864DB20, 0xA527FDF9, 0xA1E6E04E, 0xBFA1B04B, 0xBB60ADFC,
    0xB6238B25, 0xB2E29692, 0x8AAD2B2F, 0x8E6C3698, 0x832F1041, 0x87EE0DF6,
    0x99A95DF3, 0x9D684044, 0x902B669D, 0x94EA7B2A, 0xE0B41DE7, 0xE4750050,
    0xE9362689, 0xEDF73B3E, 0xF3B06B3B, 0xF771768C, 0xFA325055, 0xFEF34DE2,
    0xC6BCF05F, 0xC27DEDE8, 0xCF3ECB31, 0xCBFFD686, 0xD5B88683, 0xD1799B34,
    0xDC3ABDED, 0xD8FBA05A, 0x690CE0EE, 0x6DCDFD59, 0x608EDB80, 0x644FC637,
    0x7A089632, 0x7EC98B85, 0x738AAD5C, 0x774BB0EB, 0x4F040D56, 0x4BC510E1,
    0x46863638, 0x42472B8F, 0x5C007B8A, 0x58C1663D, 0x558240E4, 0x51435D53,
    0x251D3B9E, 0x21DC2629, 0x2C9F00F0, 0x285E1D47, 0x36194D42, 0x32D850F5,
    0x3F9B762C, 0x3B5A6B9B, 0x0315D626, 0x07D4CB91, 0x0A97ED48, 0x0E56F0FF,
    0x1011A0FA, 0x14D0BD4D, 0x19939B94, 0x1D528623, 0xF12F560E, 0xF5EE4BB9,
    0xF8AD6D60, 0xFC6C70D7, 0xE22B20D2, 0xE6EA3D65, 0xEBA91BBC, 0xEF68060B,
    0xD727BBB6, 0xD3E6A601, 0xDEA580D8, 0xDA649D6F, 0xC423CD6A, 0xC0E2D0DD,
    0xCDA1F604, 0xC960EBB3, 0xBD3E8D7E, 0xB9FF90C9, 0xB4BCB610, 0xB07DABA7,
    0xAE3AFBA2, 0xAAFBE615, 0xA7B8C0CC, 0xA379DD7B, 0x9B3660C6, 0x9FF77D71,
    0x92B45BA8, 0x9675461F, 0x8832161A, 0x8CF30BAD, 0x81B02D74, 0x857130C3,
    0x5D8A9099, 0x594B8D2E, 0x5408ABF7, 0x50C9B640, 0x4E8EE645, 0x4A4FFBF2,
    0x470CDD2B, 0x43CDC09C, 0x7B827D21, 0x7F436096, 0x7200464F, 0x76C15BF8,
    0x68860BFD, 0x6C47164A, 0x61043093, 0x65C52D24, 0x119B4BE9, 0x155A565E,
    0x18197087, 0x1CD86D30, 0x029F3D35, 0x065E2082, 0x0B1D065B, 0x0FDC1BEC,
    0x3793A651, 0x3352BBE6, 0x3E119D3F, 0x3AD08088, 0x2497D08D, 0x2056CD3A,
    0x2D15EBE3, 0x29D4F654, 0xC5A92679, 0xC1683BCE, 0xCC2B1D17, 0xC8EA00A0,
    0xD6AD50A5, 0xD26C4D12, 0xDF2F6BCB, 0xDBEE767C, 0xE3A1CBC1, 0xE760D676,
    0xEA23F0AF, 0xEEE2ED18, 0xF0A5BD1D, 0xF464A0AA, 0xF9278673, 0xFDE69BC4,
    0x89B8FD09, 0x8D79E0BE, 0x803AC667, 0x84FBDBD0, 0x9ABC8BD5, 0x9E7D9662,
    0x933EB0BB, 0x97FFAD0C, 0xAFB010B1, 0xAB710D06, 0xA6322BDF, 0xA2F33668,
    0xBCB4666D, 0xB8757BDA, 0xB5365D03, 0xB1F740B4]"

definition crc32_table_gzip_refl :: "u32 list" where
  "crc32_table_gzip_refl = [
    0x00000000, 0x77073096, 0xEE0E612C, 0x990951BA, 0x076DC419, 0x706AF48F,
    0xE963A535, 0x9E6495A3, 0x0EDB8832, 0x79DCB8A4, 0xE0D5E91E, 0x97D2D988,
    0x09B64C2B, 0x7EB17CBD, 0xE7B82D07, 0x90BF1D91, 0x1DB71064, 0x6AB020F2,
    0xF3B97148, 0x84BE41DE, 0x1ADAD47D, 0x6DDDE4EB, 0xF4D4B551, 0x83D385C7,
    0x136C9856, 0x646BA8C0, 0xFD62F97A, 0x8A65C9EC, 0x14015C4F, 0x63066CD9,
    0xFA0F3D63, 0x8D080DF5, 0x3B6E20C8, 0x4C69105E, 0xD56041E4, 0xA2677172,
    0x3C03E4D1, 0x4B04D447, 0xD20D85FD, 0xA50AB56B, 0x35B5A8FA, 0x42B2986C,
    0xDBBBC9D6, 0xACBCF940, 0x32D86CE3, 0x45DF5C75, 0xDCD60DCF, 0xABD13D59,
    0x26D930AC, 0x51DE003A, 0xC8D75180, 0xBFD06116, 0x21B4F4B5, 0x56B3C423,
    0xCFBA9599, 0xB8BDA50F, 0x2802B89E, 0x5F058808, 0xC60CD9B2, 0xB10BE924,
    0x2F6F7C87, 0x58684C11, 0xC1611DAB, 0xB6662D3D, 0x76DC4190, 0x01DB7106,
    0x98D220BC, 0xEFD5102A, 0x71B18589, 0x06B6B51F, 0x9FBFE4A5, 0xE8B8D433,
    0x7807C9A2, 0x0F00F934, 0x9609A88E, 0xE10E9818, 0x7F6A0DBB, 0x086D3D2D,
    0x91646C97, 0xE6635C01, 0x6B6B51F4, 0x1C6C6162, 0x856530D8, 0xF262004E,
    0x6C0695ED, 0x1B01A57B, 0x8208F4C1, 0xF50FC457, 0x65B0D9C6, 0x12B7E950,
    0x8BBEB8EA, 0xFCB9887C, 0x62DD1DDF, 0x15DA2D49, 0x8CD37CF3, 0xFBD44C65,
    0x4DB26158, 0x3AB551CE, 0xA3BC0074, 0xD4BB30E2, 0x4ADFA541, 0x3DD895D7,
    0xA4D1C46D, 0xD3D6F4FB, 0x4369E96A, 0x346ED9FC, 0xAD678846, 0xDA60B8D0,
    0x44042D73, 0x33031DE5, 0xAA0A4C5F, 0xDD0D7CC9, 0x5005713C, 0x270241AA,
    0xBE0B1010, 0xC90C2086, 0x5768B525, 0x206F85B3, 0xB966D409, 0xCE61E49F,
    0x5EDEF90E, 0x29D9C998, 0xB0D09822, 0xC7D7A8B4, 0x59B33D17, 0x2EB40D81,
    0xB7BD5C3B, 0xC0BA6CAD, 0xEDB88320, 0x9ABFB3B6, 0x03B6E20C, 0x74B1D29A,
    0xEAD54739, 0x9DD277AF, 0x04DB2615, 0x73DC1683, 0xE3630B12, 0x94643B84,
    0x0D6D6A3E, 0x7A6A5AA8, 0xE40ECF0B, 0x9309FF9D, 0x0A00AE27, 0x7D079EB1,
    0xF00F9344, 0x8708A3D2, 0x1E01F268, 0x6906C2FE, 0xF762575D, 0x806567CB,
    0x196C3671, 0x6E6B06E7, 0xFED41B76, 0x89D32BE0, 0x10DA7A5A, 0x67DD4ACC,
    0xF9B9DF6F, 0x8EBEEFF9, 0x17B7BE43, 0x60B08ED5, 0xD6D6A3E8, 0xA1D1937E,
    0x38D8C2C4, 0x4FDFF252, 0xD1BB67F1, 0xA6BC5767, 0x3FB506DD, 0x48B2364B,
    0xD80D2BDA, 0xAF0A1B4C, 0x36034AF6, 0x41047A60, 0xDF60EFC3, 0xA867DF55,
    0x316E8EEF, 0x4669BE79, 0xCB61B38C, 0xBC66831A, 0x256FD2A0, 0x5268E236,
    0xCC0C7795, 0xBB0B4703, 0x220216B9, 0x5505262F, 0xC5BA3BBE, 0xB2BD0B28,
    0x2BB45A92, 0x5CB36A04, 0xC2D7FFA7, 0xB5D0CF31, 0x2CD99E8B, 0x5BDEAE1D,
    0x9B64C2B0, 0xEC63F226, 0x756AA39C, 0x026D930A, 0x9C0906A9, 0xEB0E363F,
    0x72076785, 0x05005713, 0x95BF4A82, 0xE2B87A14, 0x7BB12BAE, 0x0CB61B38,
    0x92D28E9B, 0xE5D5BE0D, 0x7CDCEFB7, 0x0BDBDF21, 0x86D3D2D4, 0xF1D4E242,
    0x68DDB3F8, 0x1FDA836E, 0x81BE16CD, 0xF6B9265B, 0x6FB077E1, 0x18B74777,
    0x88085AE6, 0xFF0F6A70, 0x66063BCA, 0x11010B5C, 0x8F659EFF, 0xF862AE69,
    0x616BFFD3, 0x166CCF45, 0xA00AE278, 0xD70DD2EE, 0x4E048354, 0x3903B3C2,
    0xA7672661, 0xD06016F7, 0x4969474D, 0x3E6E77DB, 0xAED16A4A, 0xD9D65ADC,
    0x40DF0B66, 0x37D83BF0, 0xA9BCAE53, 0xDEBB9EC5, 0x47B2CF7F, 0x30B5FFE9,
    0xBDBDF21C, 0xCABAC28A, 0x53B39330, 0x24B4A3A6, 0xBAD03605, 0xCDD70693,
    0x54DE5729, 0x23D967BF, 0xB3667A2E, 0xC4614AB8, 0x5D681B02, 0x2A6F2B94,
    0xB40BBE37, 0xC30C8EA1, 0x5A05DF1B, 0x2D02EF8D]"

section \<open>Tables of crc/crc64_base.c\<close>

definition crc64_ecma_refl_table :: "u64 list" where
  "crc64_ecma_refl_table = [
    0x0000000000000000, 0xB32E4CBE03A75F6F, 0xF4843657A840A05B, 0x47AA7AE9ABE7FF34,
    0x7BD0C384FF8F5E33, 0xC8FE8F3AFC28015C, 0x8F54F5D357CFFE68, 0x3C7AB96D5468A107,
    0xF7A18709FF1EBC66, 0x448FCBB7FCB9E309, 0x0325B15E575E1C3D, 0xB00BFDE054F94352,
    0x8C71448D0091E255, 0x3F5F08330336BD3A, 0x78F572DAA8D1420E, 0xCBDB3E64AB761D61,
    0x7D9BA13851336649, 0xCEB5ED8652943926, 0x891F976FF973C612, 0x3A31DBD1FAD4997D,
    0x064B62BCAEBC387A, 0xB5652E02AD1B6715, 0xF2CF54EB06FC9821, 0x41E11855055BC74E,
    0x8A3A2631AE2DDA2F, 0x39146A8FAD8A8540, 0x7EBE1066066D7A74, 0xCD905CD805CA251B,
    0xF1EAE5B551A2841C, 0x42C4A90B5205DB73, 0x056ED3E2F9E22447, 0xB6409F5CFA457B28,
    0xFB374270A266CC92, 0x48190ECEA1C193FD, 0x0FB374270A266CC9, 0xBC9D3899098133A6,
    0x80E781F45DE992A1, 0x33C9CD4A5E4ECDCE, 0x7463B7A3F5A932FA, 0xC74DFB1DF60E6D95,
    0x0C96C5795D7870F4, 0xBFB889C75EDF2F9B, 0xF812F32EF538D0AF, 0x4B3CBF90F69F8FC0,
    0x774606FDA2F72EC7, 0xC4684A43A15071A8, 0x83C230AA0AB78E9C, 0x30EC7C140910D1F3,
    0x86ACE348F355AADB, 0x3582AFF6F0F2F5B4, 0x7228D51F5B150A80, 0xC10699A158B255EF,
    0xFD7C20CC0CDAF4E8, 0x4E526C720F7DAB87, 0x09F8169BA49A54B3, 0xBAD65A25A73D0BDC,
    0x710D64410C4B16BD, 0xC22328FF0FEC49D2, 0x85895216A40BB6E6, 0x36A71EA8A7ACE989,
    0x0ADDA7C5F3C4488E, 0xB9F3EB7BF06317E1, 0xFE5991925B84E8D5, 0x4D77DD2C5823B7BA,
    0x64B62BCAEBC387A1, 0xD7986774E864D8CE, 0x90321D9D438327FA, 0x231C512340247895,
    0x1F66E84E144CD992, 0xAC48A4F017EB86FD, 0xEBE2DE19BC0C79C9, 0x58CC92A7BFAB26A6,
    0x9317ACC314DD3BC7, 0x2039E07D177A64A8, 0x67939A94BC9D9B9C, 0xD4BDD62ABF3AC4F3,
    0xE8C76F47EB5265F4, 0x5BE923F9E8F53A9B, 0x1C4359104312C5AF, 0xAF6D15AE40B59AC0,
    0x192D8AF2BAF0E1E8, 0xAA03C64CB957BE87, 0xEDA9BCA512B041B3, 0x5E87F01B11171EDC,
    0x62FD4976457FBFDB, 0xD1D305C846D8E0B4, 0x96797F21ED3F1F80, 0x2557339FEE9840EF,
    0xEE8C0DFB45EE5D8E, 0x5DA24145464902E1, 0x1A083BACEDAEFDD5, 0xA9267712EE09A2BA,
    0x955CCE7FBA6103BD, 0x267282C1B9C65CD2, 0x61D8F8281221A3E6, 0xD2F6B4961186FC89,
    0x9F8169BA49A54B33, 0x2CAF25044A02145C, 0x6B055FEDE1E5EB68, 0xD82B1353E242B407,
    0xE451AA3EB62A1500, 0x577FE680B58D4A6F, 0x10D59C691E6AB55B, 0xA3FBD0D71DCDEA34,
    0x6820EEB3B6BBF755, 0xDB0EA20DB51CA83A, 0x9CA4D8E41EFB570E, 0x2F8A945A1D5C0861,
    0x13F02D374934A966, 0xA0DE61894A93F609, 0xE7741B60E174093D, 0x545A57DEE2D35652,
    0xE21AC88218962D7A, 0x5134843C1B317215, 0x169EFED5B0D68D21, 0xA5B0B26BB371D24E,
    0x99CA0B06E7197349, 0x2AE447B8E4BE2C26, 0x6D4E3D514F59D312, 0xDE6071EF4CFE8C7D,
    0x15BB4F8BE788911C, 0xA6950335E42FCE73, 0xE13F79DC4FC83147, 0x521135624C6F6E28,
    0x6E6B8C0F1807CF2F, 0xDD45C0B11BA09040, 0x9AEFBA58B0476F74, 0x29C1F6E6B3E0301B,
    0xC96C5795D7870F42, 0x7A421B2BD420502D, 0x3DE861C27FC7AF19, 0x8EC62D7C7C60F076,
    0xB2BC941128085171, 0x0192D8AF2BAF0E1E, 0x4638A2468048F12A, 0xF516EEF883EFAE45,
    0x3ECDD09C2899B324, 0x8DE39C222B3EEC4B, 0xCA49E6CB80D9137F, 0x7967AA75837E4C10,
    0x451D1318D716ED17, 0xF6335FA6D4B1B278, 0xB199254F7F564D4C, 0x02B769F17CF11223,
    0xB4F7F6AD86B4690B, 0x07D9BA1385133664, 0x4073C0FA2EF4C950, 0xF35D8C442D53963F,
    0xCF273529793B3738, 0x7C0979977A9C6857, 0x3BA3037ED17B9763, 0x888D4FC0D2DCC80C,
    0x435671A479AAD56D, 0xF0783D1A7A0D8A02, 0xB7D247F3D1EA7536, 0x04FC0B4DD24D2A59,
    0x3886B22086258B5E, 0x8BA8FE9E8582D431, 0xCC0284772E652B05, 0x7F2CC8C92DC2746A,
    0x325B15E575E1C3D0, 0x8175595B76469CBF, 0xC6DF23B2DDA1638B, 0x75F16F0CDE063CE4,
    0x498BD6618A6E9DE3, 0xFAA59ADF89C9C28C, 0xBD0FE036222E3DB8, 0x0E21AC88218962D7,
    0xC5FA92EC8AFF7FB6, 0x76D4DE52895820D9, 0x317EA4BB22BFDFED, 0x8250E80521188082,
    0xBE2A516875702185, 0x0D041DD676D77EEA, 0x4AAE673FDD3081DE, 0xF9802B81DE97DEB1,
    0x4FC0B4DD24D2A599, 0xFCEEF8632775FAF6, 0xBB44828A8C9205C2, 0x086ACE348F355AAD,
    0x34107759DB5DFBAA, 0x873E3BE7D8FAA4C5, 0xC094410E731D5BF1, 0x73BA0DB070BA049E,
    0xB86133D4DBCC19FF, 0x0B4F7F6AD86B4690, 0x4CE50583738CB9A4, 0xFFCB493D702BE6CB,
    0xC3B1F050244347CC, 0x709FBCEE27E418A3, 0x3735C6078C03E797, 0x841B8AB98FA4B8F8,
    0xADDA7C5F3C4488E3, 0x1EF430E13FE3D78C, 0x595E4A08940428B8, 0xEA7006B697A377D7,
    0xD60ABFDBC3CBD6D0, 0x6524F365C06C89BF, 0x228E898C6B8B768B, 0x91A0C532682C29E4,
    0x5A7BFB56C35A3485, 0xE955B7E8C0FD6BEA, 0xAEFFCD016B1A94DE, 0x1DD181BF68BDCBB1,
    0x21AB38D23CD56AB6, 0x9285746C3F7235D9, 0xD52F0E859495CAED, 0x6601423B97329582,
    0xD041DD676D77EEAA, 0x636F91D96ED0B1C5, 0x24C5EB30C5374EF1, 0x97EBA78EC690119E,
    0xAB911EE392F8B099, 0x18BF525D915FEFF6, 0x5F1528B43AB810C2, 0xEC3B640A391F4FAD,
    0x27E05A6E926952CC, 0x94CE16D091CE0DA3, 0xD3646C393A29F297, 0x604A2087398EADF8,
    0x5C3099EA6DE60CFF, 0xEF1ED5546E415390, 0xA8B4AFBDC5A6ACA4, 0x1B9AE303C601F3CB,
    0x56ED3E2F9E224471, 0xE5C372919D851B1E, 0xA26908783662E42A, 0x114744C635C5BB45,
    0x2D3DFDAB61AD1A42, 0x9E13B115620A452D, 0xD9B9CBFCC9EDBA19, 0x6A978742CA4AE576,
    0xA14CB926613CF817, 0x1262F598629BA778, 0x55C88F71C97C584C, 0xE6E6C3CFCADB0723,
    0xDA9C7AA29EB3A624, 0x69B2361C9D14F94B, 0x2E184CF536F3067F, 0x9D36004B35545910,
    0x2B769F17CF112238, 0x9858D3A9CCB67D57, 0xDFF2A94067518263, 0x6CDCE5FE64F6DD0C,
    0x50A65C93309E7C0B, 0xE388102D33392364, 0xA4226AC498DEDC50, 0x170C267A9B79833F,
    0xDCD7181E300F9E5E, 0x6FF954A033A8C131, 0x28532E49984F3E05, 0x9B7D62F79BE8616A,
    0xA707DB9ACF80C06D, 0x14299724CC279F02, 0x5383EDCD67C06036, 0xE0ADA17364673F59]"

definition crc64_ecma_norm_table :: "u64 list" where
  "crc64_ecma_norm_table = [
    0x0000000000000000, 0x42F0E1EBA9EA3693, 0x85E1C3D753D46D26, 0xC711223CFA3E5BB5,
    0x493366450E42ECDF, 0x0BC387AEA7A8DA4C, 0xCCD2A5925D9681F9, 0x8E224479F47CB76A,
    0x9266CC8A1C85D9BE, 0xD0962D61B56FEF2D, 0x17870F5D4F51B498, 0x5577EEB6E6BB820B,
    0xDB55AACF12C73561, 0x99A54B24BB2D03F2, 0x5EB4691841135847, 0x1C4488F3E8F96ED4,
    0x663D78FF90E185EF, 0x24CD9914390BB37C, 0xE3DCBB28C335E8C9, 0xA12C5AC36ADFDE5A,
    0x2F0E1EBA9EA36930, 0x6DFEFF5137495FA3, 0xAAEFDD6DCD770416, 0xE81F3C86649D3285,
    0xF45BB4758C645C51, 0xB6AB559E258E6AC2, 0x71BA77A2DFB03177, 0x334A9649765A07E4,
    0xBD68D2308226B08E, 0xFF9833DB2BCC861D, 0x388911E7D1F2DDA8, 0x7A79F00C7818EB3B,
    0xCC7AF1FF21C30BDE, 0x8E8A101488293D4D, 0x499B3228721766F8, 0x0B6BD3C3DBFD506B,
    0x854997BA2F81E701, 0xC7B97651866BD192, 0x00A8546D7C558A27, 0x4258B586D5BFBCB4,
    0x5E1C3D753D46D260, 0x1CECDC9E94ACE4F3, 0xDBFDFEA26E92BF46, 0x990D1F49C77889D5,
    0x172F5B3033043EBF, 0x55DFBADB9AEE082C, 0x92CE98E760D05399, 0xD03E790CC93A650A,
    0xAA478900B1228E31, 0xE8B768EB18C8B8A2, 0x2FA64AD7E2F6E317, 0x6D56AB3C4B1CD584,
    0xE374EF45BF6062EE, 0xA1840EAE168A547D, 0x66952C92ECB40FC8, 0x2465CD79455E395B,
    0x3821458AADA7578F, 0x7AD1A461044D611C, 0xBDC0865DFE733AA9, 0xFF3067B657990C3A,
    0x711223CFA3E5BB50, 0x33E2C2240A0F8DC3, 0xF4F3E018F031D676, 0xB60301F359DBE0E5,
    0xDA050215EA6C212F, 0x98F5E3FE438617BC, 0x5FE4C1C2B9B84C09, 0x1D14202910527A9A,
    0x93366450E42ECDF0, 0xD1C685BB4DC4FB63, 0x16D7A787B7FAA0D6, 0x5427466C1E109645,
    0x4863CE9FF6E9F891, 0x0A932F745F03CE02, 0xCD820D48A53D95B7, 0x8F72ECA30CD7A324,
    0x0150A8DAF8AB144E, 0x43A04931514122DD, 0x84B16B0DAB7F7968, 0xC6418AE602954FFB,
    0xBC387AEA7A8DA4C0, 0xFEC89B01D3679253, 0x39D9B93D2959C9E6, 0x7B2958D680B3FF75,
    0xF50B1CAF74CF481F, 0xB7FBFD44DD257E8C, 0x70EADF78271B2539, 0x321A3E938EF113AA,
    0x2E5EB66066087D7E, 0x6CAE578BCFE24BED, 0xABBF75B735DC1058, 0xE94F945C9C3626CB,
    0x676DD025684A91A1, 0x259D31CEC1A0A732, 0xE28C13F23B9EFC87, 0xA07CF2199274CA14,
    0x167FF3EACBAF2AF1, 0x548F120162451C62, 0x939E303D987B47D7, 0xD16ED1D631917144,
    0x5F4C95AFC5EDC62E, 0x1DBC74446C07F0BD, 0xDAAD56789639AB08, 0x985DB7933FD39D9B,
    0x84193F60D72AF34F, 0xC6E9DE8B7EC0C5DC, 0x01F8FCB784FE9E69, 0x43081D5C2D14A8FA,
    0xCD2A5925D9681F90, 0x8FDAB8CE70822903, 0x48CB9AF28ABC72B6, 0x0A3B7B1923564425,
    0x70428B155B4EAF1E, 0x32B26AFEF2A4998D, 0xF5A348C2089AC238, 0xB753A929A170F4AB,
    0x3971ED50550C43C1, 0x7B810CBBFCE67552, 0xBC902E8706D82EE7, 0xFE60CF6CAF321874,
    0xE224479F47CB76A0, 0xA0D4A674EE214033, 0x67C58448141F1B86, 0x253565A3BDF52D15,
    0xAB1721DA49899A7F, 0xE9E7C031E063ACEC, 0x2EF6E20D1A5DF759, 0x6C0603E6B3B7C1CA,
    0xF6FAE5C07D3274CD, 0xB40A042BD4D8425E, 0x731B26172EE619EB, 0x31EBC7FC870C2F78,
    0xBFC9838573709812, 0xFD39626EDA9AAE81, 0x3A28405220A4F534, 0x78D8A1B9894EC3A7,
    0x649C294A61B7AD73, 0x266CC8A1C85D9BE0, 0xE17DEA9D3263C055, 0xA38D0B769B89F6C6,
    0x2DAF4F0F6FF541AC, 0x6F5FAEE4C61F773F, 0xA84E8CD83C212C8A, 0xEABE6D3395CB1A19,
    0x90C79D3FEDD3F122, 0xD2377CD44439C7B1, 0x15265EE8BE079C04, 0x57D6BF0317EDAA97,
    0xD9F4FB7AE3911DFD, 0x9B041A914A7B2B6E, 0x5C1538ADB04570DB, 0x1EE5D94619AF4648,
    0x02A151B5F156289C, 0x4051B05E58BC1E0F, 0x87409262A28245BA, 0xC5B073890B687329,
    0x4B9237F0FF14C443, 0x0962D61B56FEF2D0, 0xCE73F427ACC0A965, 0x8C8315CC052A9FF6,
    0x3A80143F5CF17F13, 0x7870F5D4F51B4980, 0xBF61D7E80F251235, 0xFD913603A6CF24A6,
    0x73B3727A52B393CC, 0x31439391FB59A55F, 0xF652B1AD0167FEEA, 0xB4A25046A88DC879,
    0xA8E6D8B54074A6AD, 0xEA16395EE99E903E, 0x2D071B6213A0CB8B, 0x6FF7FA89BA4AFD18,
    0xE1D5BEF04E364A72, 0xA3255F1BE7DC7CE1, 0x64347D271DE22754, 0x26C49CCCB40811C7,
    0x5CBD6CC0CC10FAFC, 0x1E4D8D2B65FACC6F, 0xD95CAF179FC497DA, 0x9BAC4EFC362EA149,
    0x158E0A85C2521623, 0x577EEB6E6BB820B0, 0x906FC95291867B05, 0xD29F28B9386C4D96,
    0xCEDBA04AD0952342, 0x8C2B41A1797F15D1, 0x4B3A639D83414E64, 0x09CA82762AAB78F7,
    0x87E8C60FDED7CF9D, 0xC51827E4773DF90E, 0x020905D88D03A2BB, 0x40F9E43324E99428,
    0x2CFFE7D5975E55E2, 0x6E0F063E3EB46371, 0xA91E2402C48A38C4, 0xEBEEC5E96D600E57,
    0x65CC8190991CB93D, 0x273C607B30F68FAE, 0xE02D4247CAC8D41B, 0xA2DDA3AC6322E288,
    0xBE992B5F8BDB8C5C, 0xFC69CAB42231BACF, 0x3B78E888D80FE17A, 0x7988096371E5D7E9,
    0xF7AA4D1A85996083, 0xB55AACF12C735610, 0x724B8ECDD64D0DA5, 0x30BB6F267FA73B36,
    0x4AC29F2A07BFD00D, 0x08327EC1AE55E69E, 0xCF235CFD546BBD2B, 0x8DD3BD16FD818BB8,
    0x03F1F96F09FD3CD2, 0x41011884A0170A41, 0x86103AB85A2951F4, 0xC4E0DB53F3C36767,
    0xD8A453A01B3A09B3, 0x9A54B24BB2D03F20, 0x5D45907748EE6495, 0x1FB5719CE1045206,
    0x919735E51578E56C, 0xD367D40EBC92D3FF, 0x1476F63246AC884A, 0x568617D9EF46BED9,
    0xE085162AB69D5E3C, 0xA275F7C11F7768AF, 0x6564D5FDE549331A, 0x279434164CA30589,
    0xA9B6706FB8DFB2E3, 0xEB46918411358470, 0x2C57B3B8EB0BDFC5, 0x6EA7525342E1E956,
    0x72E3DAA0AA188782, 0x30133B4B03F2B111, 0xF7021977F9CCEAA4, 0xB5F2F89C5026DC37,
    0x3BD0BCE5A45A6B5D, 0x79205D0E0DB05DCE, 0xBE317F32F78E067B, 0xFCC19ED95E6430E8,
    0x86B86ED5267CDBD3, 0xC4488F3E8F96ED40, 0x0359AD0275A8B6F5, 0x41A94CE9DC428066,
    0xCF8B0890283E370C, 0x8D7BE97B81D4019F, 0x4A6ACB477BEA5A2A, 0x089A2AACD2006CB9,
    0x14DEA25F3AF9026D, 0x562E43B4931334FE, 0x913F6188692D6F4B, 0xD3CF8063C0C759D8,
    0x5DEDC41A34BBEEB2, 0x1F1D25F19D51D821, 0xD80C07CD676F8394, 0x9AFCE626CE85B507]"

definition crc64_iso_refl_table :: "u64 list" where
  "crc64_iso_refl_table = [
    0x0000000000000000, 0x01B0000000000000, 0x0360000000000000, 0x02D0000000000000,
    0x06C0000000000000, 0x0770000000000000, 0x05A0000000000000, 0x0410000000000000,
    0x0D80000000000000, 0x0C30000000000000, 0x0EE0000000000000, 0x0F50000000000000,
    0x0B40000000000000, 0x0AF0000000000000, 0x0820000000000000, 0x0990000000000000,
    0x1B00000000000000, 0x1AB0000000000000, 0x1860000000000000, 0x19D0000000000000,
    0x1DC0000000000000, 0x1C70000000000000, 0x1EA0000000000000, 0x1F10000000000000,
    0x1680000000000000, 0x1730000000000000, 0x15E0000000000000, 0x1450000000000000,
    0x1040000000000000, 0x11F0000000000000, 0x1320000000000000, 0x1290000000000000,
    0x3600000000000000, 0x37B0000000000000, 0x3560000000000000, 0x34D0000000000000,
    0x30C0000000000000, 0x3170000000000000, 0x33A0000000000000, 0x3210000000000000,
    0x3B80000000000000, 0x3A30000000000000, 0x38E0000000000000, 0x3950000000000000,
    0x3D40000000000000, 0x3CF0000000000000, 0x3E20000000000000, 0x3F90000000000000,
    0x2D00000000000000, 0x2CB0000000000000, 0x2E60000000000000, 0x2FD0000000000000,
    0x2BC0000000000000, 0x2A70000000000000, 0x28A0000000000000, 0x2910000000000000,
    0x2080000000000000, 0x2130000000000000, 0x23E0000000000000, 0x2250000000000000,
    0x2640000000000000, 0x27F0000000000000, 0x2520000000000000, 0x2490000000000000,
    0x6C00000000000000, 0x6DB0000000000000, 0x6F60000000000000, 0x6ED0000000000000,
    0x6AC0000000000000, 0x6B70000000000000, 0x69A0000000000000, 0x6810000000000000,
    0x6180000000000000, 0x6030000000000000, 0x62E0000000000000, 0x6350000000000000,
    0x6740000000000000, 0x66F0000000000000, 0x6420000000000000, 0x6590000000000000,
    0x7700000000000000, 0x76B0000000000000, 0x7460000000000000, 0x75D0000000000000,
    0x71C0000000000000, 0x7070000000000000, 0x72A0000000000000, 0x7310000000000000,
    0x7A80000000000000, 0x7B30000000000000, 0x79E0000000000000, 0x7850000000000000,
    0x7C40000000000000, 0x7DF0000000000000, 0x7F20000000000000, 0x7E90000000000000,
    0x5A00000000000000, 0x5BB0000000000000, 0x5960000000000000, 0x58D0000000000000,
    0x5CC0000000000000, 0x5D70000000000000, 0x5FA0000000000000, 0x5E10000000000000,
    0x5780000000000000, 0x5630000000000000, 0x54E0000000000000, 0x5550000000000000,
    0x5140000000000000, 0x50F0000000000000, 0x5220000000000000, 0x5390000000000000,
    0x4100000000000000, 0x40B0000000000000, 0x4260000000000000, 0x43D0000000000000,
    0x47C0000000000000, 0x4670000000000000, 0x44A0000000000000, 0x4510000000000000,
    0x4C80000000000000, 0x4D30000000000000, 0x4FE0000000000000, 0x4E50000000000000,
    0x4A40000000000000, 0x4BF0000000000000, 0x4920000000000000, 0x4890000000000000,
    0xD800000000000000, 0xD9B0000000000000, 0xDB60000000000000, 0xDAD0000000000000,
    0xDEC0000000000000, 0xDF70000000000000, 0xDDA0000000000000, 0xDC10000000000000,
    0xD580000000000000, 0xD430000000000000, 0xD6E0000000000000, 0xD750000000000000,
    0xD340000000000000, 0xD2F0000000000000, 0xD020000000000000, 0xD190000000000000,
    0xC300000000000000, 0xC2B0000000000000, 0xC060000000000000, 0xC1D0000000000000,
    0xC5C0000000000000, 0xC470000000000000, 0xC6A0000000000000, 0xC710000000000000,
    0xCE80000000000000, 0xCF30000000000000, 0xCDE0000000000000, 0xCC50000000000000,
    0xC840000000000000, 0xC9F0000000000000, 0xCB20000000000000, 0xCA90000000000000,
    0xEE00000000000000, 0xEFB0000000000000, 0xED60000000000000, 0xECD0000000000000,
    0xE8C0000000000000, 0xE970000000000000, 0xEBA0000000000000, 0xEA10000000000000,
    0xE380000000000000, 0xE230000000000000, 0xE0E0000000000000, 0xE150000000000000,
    0xE540000000000000, 0xE4F0000000000000, 0xE620000000000000, 0xE790000000000000,
    0xF500000000000000, 0xF4B0000000000000, 0xF660000000000000, 0xF7D0000000000000,
    0xF3C0000000000000, 0xF270000000000000, 0xF0A0000000000000, 0xF110000000000000,
    0xF880000000000000, 0xF930000000000000, 0xFBE0000000000000, 0xFA50000000000000,
    0xFE40000000000000, 0xFFF0000000000000, 0xFD20000000000000, 0xFC90000000000000,
    0xB400000000000000, 0xB5B0000000000000, 0xB760000000000000, 0xB6D0000000000000,
    0xB2C0000000000000, 0xB370000000000000, 0xB1A0000000000000, 0xB010000000000000,
    0xB980000000000000, 0xB830000000000000, 0xBAE0000000000000, 0xBB50000000000000,
    0xBF40000000000000, 0xBEF0000000000000, 0xBC20000000000000, 0xBD90000000000000,
    0xAF00000000000000, 0xAEB0000000000000, 0xAC60000000000000, 0xADD0000000000000,
    0xA9C0000000000000, 0xA870000000000000, 0xAAA0000000000000, 0xAB10000000000000,
    0xA280000000000000, 0xA330000000000000, 0xA1E0000000000000, 0xA050000000000000,
    0xA440000000000000, 0xA5F0000000000000, 0xA720000000000000, 0xA690000000000000,
    0x8200000000000000, 0x83B0000000000000, 0x8160000000000000, 0x80D0000000000000,
    0x84C0000000000000, 0x8570000000000000, 0x87A0000000000000, 0x8610000000000000,
    0x8F80000000000000, 0x8E30000000000000, 0x8CE0000000000000, 0x8D50000000000000,
    0x8940000000000000, 0x88F0000000000000, 0x8A20000000000000, 0x8B90000000000000,
    0x9900000000000000, 0x98B0000000000000, 0x9A60000000000000, 0x9BD0000000000000,
    0x9FC0000000000000, 0x9E70000000000000, 0x9CA0000000000000, 0x9D10000000000000,
    0x9480000000000000, 0x9530000000000000, 0x97E0000000000000, 0x9650000000000000,
    0x9240000000000000, 0x93F0000000000000, 0x9120000000000000, 0x9090000000000000]"

definition crc64_iso_norm_table :: "u64 list" where
  "crc64_iso_norm_table = [
    0x0000000000000000, 0x000000000000001B, 0x0000000000000036, 0x000000000000002D,
    0x000000000000006C, 0x0000000000000077, 0x000000000000005A, 0x0000000000000041,
    0x00000000000000D8, 0x00000000000000C3, 0x00000000000000EE, 0x00000000000000F5,
    0x00000000000000B4, 0x00000000000000AF, 0x0000000000000082, 0x0000000000000099,
    0x00000000000001B0, 0x00000000000001AB, 0x0000000000000186, 0x000000000000019D,
    0x00000000000001DC, 0x00000000000001C7, 0x00000000000001EA, 0x00000000000001F1,
    0x0000000000000168, 0x0000000000000173, 0x000000000000015E, 0x0000000000000145,
    0x0000000000000104, 0x000000000000011F, 0x0000000000000132, 0x0000000000000129,
    0x0000000000000360, 0x000000000000037B, 0x0000000000000356, 0x000000000000034D,
    0x000000000000030C, 0x0000000000000317, 0x000000000000033A, 0x0000000000000321,
    0x00000000000003B8, 0x00000000000003A3, 0x000000000000038E, 0x0000000000000395,
    0x00000000000003D4, 0x00000000000003CF, 0x00000000000003E2, 0x00000000000003F9,
    0x00000000000002D0, 0x00000000000002CB, 0x00000000000002E6, 0x00000000000002FD,
    0x00000000000002BC, 0x00000000000002A7, 0x000000000000028A, 0x0000000000000291,
    0x0000000000000208, 0x0000000000000213, 0x000000000000023E, 0x0000000000000225,
    0x0000000000000264, 0x000000000000027F, 0x0000000000000252, 0x0000000000000249,
    0x00000000000006C0, 0x00000000000006DB, 0x00000000000006F6, 0x00000000000006ED,
    0x00000000000006AC, 0x00000000000006B7, 0x000000000000069A, 0x0000000000000681,
    0x0000000000000618, 0x0000000000000603, 0x000000000000062E, 0x0000000000000635,
    0x0000000000000674, 0x000000000000066F, 0x0000000000000642, 0x0000000000000659,
    0x0000000000000770, 0x000000000000076B, 0x0000000000000746, 0x000000000000075D,
    0x000000000000071C, 0x0000000000000707, 0x000000000000072A, 0x0000000000000731,
    0x00000000000007A8, 0x00000000000007B3, 0x000000000000079E, 0x0000000000000785,
    0x00000000000007C4, 0x00000000000007DF, 0x00000000000007F2, 0x00000000000007E9,
    0x00000000000005A0, 0x00000000000005BB, 0x0000000000000596, 0x000000000000058D,
    0x00000000000005CC, 0x00000000000005D7, 0x00000000000005FA, 0x00000000000005E1,
    0x0000000000000578, 0x0000000000000563, 0x000000000000054E, 0x0000000000000555,
    0x0000000000000514, 0x000000000000050F, 0x0000000000000522, 0x0000000000000539,
    0x0000000000000410, 0x000000000000040B, 0x0000000000000426, 0x000000000000043D,
    0x000000000000047C, 0x0000000000000467, 0x000000000000044A, 0x0000000000000451,
    0x00000000000004C8, 0x00000000000004D3, 0x00000000000004FE, 0x00000000000004E5,
    0x00000000000004A4, 0x00000000000004BF, 0x0000000000000492, 0x0000000000000489,
    0x0000000000000D80, 0x0000000000000D9B, 0x0000000000000DB6, 0x0000000000000DAD,
    0x0000000000000DEC, 0x0000000000000DF7, 0x0000000000000DDA, 0x0000000000000DC1,
    0x0000000000000D58, 0x0000000000000D43, 0x0000000000000D6E, 0x0000000000000D75,
    0x0000000000000D34, 0x0000000000000D2F, 0x0000000000000D02, 0x0000000000000D19,
    0x0000000000000C30, 0x0000000000000C2B, 0x0000000000000C06, 0x0000000000000C1D,
    0x0000000000000C5C, 0x0000000000000C47, 0x0000000000000C6A, 0x0000000000000C71,
    0x0000000000000CE8, 0x0000000000000CF3, 0x0000000000000CDE, 0x0000000000000CC5,
    0x0000000000000C84, 0x0000000000000C9F, 0x0000000000000CB2, 0x0000000000000CA9,
    0x0000000000000EE0, 0x0000000000000EFB, 0x0000000000000ED6, 0x0000000000000ECD,
    0x0000000000000E8C, 0x0000000000000E97, 0x0000000000000EBA, 0x0000000000000EA1,
    0x0000000000000E38, 0x0000000000000E23, 0x0000000000000E0E, 0x0000000000000E15,
    0x0000000000000E54, 0x0000000000000E4F, 0x0000000000000E62, 0x0000000000000E79,
    0x0000000000000F50, 0x0000000000000F4B, 0x0000000000000F66, 0x0000000000000F7D,
    0x0000000000000F3C, 0x0000000000000F27, 0x0000000000000F0A, 0x0000000000000F11,
    0x0000000000000F88, 0x0000000000000F93, 0x0000000000000FBE, 0x0000000000000FA5,
    0x0000000000000FE4, 0x0000000000000FFF, 0x0000000000000FD2, 0x0000000000000FC9,
    0x0000000000000B40, 0x0000000000000B5B, 0x0000000000000B76, 0x0000000000000B6D,
    0x0000000000000B2C, 0x0000000000000B37, 0x0000000000000B1A, 0x0000000000000B01,
    0x0000000000000B98, 0x0000000000000B83, 0x0000000000000BAE, 0x0000000000000BB5,
    0x0000000000000BF4, 0x0000000000000BEF, 0x0000000000000BC2, 0x0000000000000BD9,
    0x0000000000000AF0, 0x0000000000000AEB, 0x0000000000000AC6, 0x0000000000000ADD,
    0x0000000000000A9C, 0x0000000000000A87, 0x0000000000000AAA, 0x0000000000000AB1,
    0x0000000000000A28, 0x0000000000000A33, 0x0000000000000A1E, 0x0000000000000A05,
    0x0000000000000A44, 0x0000000000000A5F, 0x0000000000000A72, 0x0000000000000A69,
    0x0000000000000820, 0x000000000000083B, 0x0000000000000816, 0x000000000000080D,
    0x000000000000084C, 0x0000000000000857, 0x000000000000087A, 0x0000000000000861,
    0x00000000000008F8, 0x00000000000008E3, 0x00000000000008CE, 0x00000000000008D5,
    0x0000000000000894, 0x000000000000088F, 0x00000000000008A2, 0x00000000000008B9,
    0x0000000000000990, 0x000000000000098B, 0x00000000000009A6, 0x00000000000009BD,
    0x00000000000009FC, 0x00000000000009E7, 0x00000000000009CA, 0x00000000000009D1,
    0x0000000000000948, 0x0000000000000953, 0x000000000000097E, 0x0000000000000965,
    0x0000000000000924, 0x000000000000093F, 0x0000000000000912, 0x0000000000000909]"

definition crc64_jones_refl_table :: "u64 list" where
  "crc64_jones_refl_table = [
    0x0000000000000000, 0x7AD870C830358979, 0xF5B0E190606B12F2, 0x8F689158505E9B8B,
    0xC038E5739841B68F, 0xBAE095BBA8743FF6, 0x358804E3F82AA47D, 0x4F50742BC81F2D04,
    0xAB28ECB46814FE75, 0xD1F09C7C5821770C, 0x5E980D24087FEC87, 0x24407DEC384A65FE,
    0x6B1009C7F05548FA, 0x11C8790FC060C183, 0x9EA0E857903E5A08, 0xE478989FA00BD371,
    0x7D08FF3B88BE6F81, 0x07D08FF3B88BE6F8, 0x88B81EABE8D57D73, 0xF2606E63D8E0F40A,
    0xBD301A4810FFD90E, 0xC7E86A8020CA5077, 0x4880FBD87094CBFC, 0x32588B1040A14285,
    0xD620138FE0AA91F4, 0xACF86347D09F188D, 0x2390F21F80C18306, 0x594882D7B0F40A7F,
    0x1618F6FC78EB277B, 0x6CC0863448DEAE02, 0xE3A8176C18803589, 0x997067A428B5BCF0,
    0xFA11FE77117CDF02, 0x80C98EBF2149567B, 0x0FA11FE77117CDF0, 0x75796F2F41224489,
    0x3A291B04893D698D, 0x40F16BCCB908E0F4, 0xCF99FA94E9567B7F, 0xB5418A5CD963F206,
    0x513912C379682177, 0x2BE1620B495DA80E, 0xA489F35319033385, 0xDE51839B2936BAFC,
    0x9101F7B0E12997F8, 0xEBD98778D11C1E81, 0x64B116208142850A, 0x1E6966E8B1770C73,
    0x8719014C99C2B083, 0xFDC17184A9F739FA, 0x72A9E0DCF9A9A271, 0x08719014C99C2B08,
    0x4721E43F0183060C, 0x3DF994F731B68F75, 0xB29105AF61E814FE, 0xC849756751DD9D87,
    0x2C31EDF8F1D64EF6, 0x56E99D30C1E3C78F, 0xD9810C6891BD5C04, 0xA3597CA0A188D57D,
    0xEC09088B6997F879, 0x96D1784359A27100, 0x19B9E91B09FCEA8B, 0x636199D339C963F2,
    0xDF7ADABD7A6E2D6F, 0xA5A2AA754A5BA416, 0x2ACA3B2D1A053F9D, 0x50124BE52A30B6E4,
    0x1F423FCEE22F9BE0, 0x659A4F06D21A1299, 0xEAF2DE5E82448912, 0x902AAE96B271006B,
    0x74523609127AD31A, 0x0E8A46C1224F5A63, 0x81E2D7997211C1E8, 0xFB3AA75142244891,
    0xB46AD37A8A3B6595, 0xCEB2A3B2BA0EECEC, 0x41DA32EAEA507767, 0x3B024222DA65FE1E,
    0xA2722586F2D042EE, 0xD8AA554EC2E5CB97, 0x57C2C41692BB501C, 0x2D1AB4DEA28ED965,
    0x624AC0F56A91F461, 0x1892B03D5AA47D18, 0x97FA21650AFAE693, 0xED2251AD3ACF6FEA,
    0x095AC9329AC4BC9B, 0x7382B9FAAAF135E2, 0xFCEA28A2FAAFAE69, 0x8632586ACA9A2710,
    0xC9622C4102850A14, 0xB3BA5C8932B0836D, 0x3CD2CDD162EE18E6, 0x460ABD1952DB919F,
    0x256B24CA6B12F26D, 0x5FB354025B277B14, 0xD0DBC55A0B79E09F, 0xAA03B5923B4C69E6,
    0xE553C1B9F35344E2, 0x9F8BB171C366CD9B, 0x10E3202993385610, 0x6A3B50E1A30DDF69,
    0x8E43C87E03060C18, 0xF49BB8B633338561, 0x7BF329EE636D1EEA, 0x012B592653589793,
    0x4E7B2D0D9B47BA97, 0x34A35DC5AB7233EE, 0xBBCBCC9DFB2CA865, 0xC113BC55CB19211C,
    0x5863DBF1E3AC9DEC, 0x22BBAB39D3991495, 0xADD33A6183C78F1E, 0xD70B4AA9B3F20667,
    0x985B3E827BED2B63, 0xE2834E4A4BD8A21A, 0x6DEBDF121B863991, 0x1733AFDA2BB3B0E8,
    0xF34B37458BB86399, 0x8993478DBB8DEAE0, 0x06FBD6D5EBD3716B, 0x7C23A61DDBE6F812,
    0x3373D23613F9D516, 0x49ABA2FE23CC5C6F, 0xC6C333A67392C7E4, 0xBC1B436E43A74E9D,
    0x95AC9329AC4BC9B5, 0xEF74E3E19C7E40CC, 0x601C72B9CC20DB47, 0x1AC40271FC15523E,
    0x5594765A340A7F3A, 0x2F4C0692043FF643, 0xA02497CA54616DC8, 0xDAFCE7026454E4B1,
    0x3E847F9DC45F37C0, 0x445C0F55F46ABEB9, 0xCB349E0DA4342532, 0xB1ECEEC59401AC4B,
    0xFEBC9AEE5C1E814F, 0x8464EA266C2B0836, 0x0B0C7B7E3C7593BD, 0x71D40BB60C401AC4,
    0xE8A46C1224F5A634, 0x927C1CDA14C02F4D, 0x1D148D82449EB4C6, 0x67CCFD4A74AB3DBF,
    0x289C8961BCB410BB, 0x5244F9A98C8199C2, 0xDD2C68F1DCDF0249, 0xA7F41839ECEA8B30,
    0x438C80A64CE15841, 0x3954F06E7CD4D138, 0xB63C61362C8A4AB3, 0xCCE411FE1CBFC3CA,
    0x83B465D5D4A0EECE, 0xF96C151DE49567B7, 0x76048445B4CBFC3C, 0x0CDCF48D84FE7545,
    0x6FBD6D5EBD3716B7, 0x15651D968D029FCE, 0x9A0D8CCEDD5C0445, 0xE0D5FC06ED698D3C,
    0xAF85882D2576A038, 0xD55DF8E515432941, 0x5A3569BD451DB2CA, 0x20ED197575283BB3,
    0xC49581EAD523E8C2, 0xBE4DF122E51661BB, 0x3125607AB548FA30, 0x4BFD10B2857D7349,
    0x04AD64994D625E4D, 0x7E7514517D57D734, 0xF11D85092D094CBF, 0x8BC5F5C11D3CC5C6,
    0x12B5926535897936, 0x686DE2AD05BCF04F, 0xE70573F555E26BC4, 0x9DDD033D65D7E2BD,
    0xD28D7716ADC8CFB9, 0xA85507DE9DFD46C0, 0x273D9686CDA3DD4B, 0x5DE5E64EFD965432,
    0xB99D7ED15D9D8743, 0xC3450E196DA80E3A, 0x4C2D9F413DF695B1, 0x36F5EF890DC31CC8,
    0x79A59BA2C5DC31CC, 0x037DEB6AF5E9B8B5, 0x8C157A32A5B7233E, 0xF6CD0AFA9582AA47,
    0x4AD64994D625E4DA, 0x300E395CE6106DA3, 0xBF66A804B64EF628, 0xC5BED8CC867B7F51,
    0x8AEEACE74E645255, 0xF036DC2F7E51DB2C, 0x7F5E4D772E0F40A7, 0x05863DBF1E3AC9DE,
    0xE1FEA520BE311AAF, 0x9B26D5E88E0493D6, 0x144E44B0DE5A085D, 0x6E963478EE6F8124,
    0x21C640532670AC20, 0x5B1E309B16452559, 0xD476A1C3461BBED2, 0xAEAED10B762E37AB,
    0x37DEB6AF5E9B8B5B, 0x4D06C6676EAE0222, 0xC26E573F3EF099A9, 0xB8B627F70EC510D0,
    0xF7E653DCC6DA3DD4, 0x8D3E2314F6EFB4AD, 0x0256B24CA6B12F26, 0x788EC2849684A65F,
    0x9CF65A1B368F752E, 0xE62E2AD306BAFC57, 0x6946BB8B56E467DC, 0x139ECB4366D1EEA5,
    0x5CCEBF68AECEC3A1, 0x2616CFA09EFB4AD8, 0xA97E5EF8CEA5D153, 0xD3A62E30FE90582A,
    0xB0C7B7E3C7593BD8, 0xCA1FC72BF76CB2A1, 0x45775673A732292A, 0x3FAF26BB9707A053,
    0x70FF52905F188D57, 0x0A2722586F2D042E, 0x854FB3003F739FA5, 0xFF97C3C80F4616DC,
    0x1BEF5B57AF4DC5AD, 0x61372B9F9F784CD4, 0xEE5FBAC7CF26D75F, 0x9487CA0FFF135E26,
    0xDBD7BE24370C7322, 0xA10FCEEC0739FA5B, 0x2E675FB4576761D0, 0x54BF2F7C6752E8A9,
    0xCDCF48D84FE75459, 0xB71738107FD2DD20, 0x387FA9482F8C46AB, 0x42A7D9801FB9CFD2,
    0x0DF7ADABD7A6E2D6, 0x772FDD63E7936BAF, 0xF8474C3BB7CDF024, 0x829F3CF387F8795D,
    0x66E7A46C27F3AA2C, 0x1C3FD4A417C62355, 0x935745FC4798B8DE, 0xE98F353477AD31A7,
    0xA6DF411FBFB21CA3, 0xDC0731D78F8795DA, 0x536FA08FDFD90E51, 0x29B7D047EFEC8728]"

definition crc64_jones_norm_table :: "u64 list" where
  "crc64_jones_norm_table = [
    0x0000000000000000, 0xAD93D23594C935A9, 0xF6B4765EBD5B5EFB, 0x5B27A46B29926B52,
    0x40FB3E88EE7F885F, 0xED68ECBD7AB6BDF6, 0xB64F48D65324D6A4, 0x1BDC9AE3C7EDE30D,
    0x81F67D11DCFF10BE, 0x2C65AF2448362517, 0x77420B4F61A44E45, 0xDAD1D97AF56D7BEC,
    0xC10D4399328098E1, 0x6C9E91ACA649AD48, 0x37B935C78FDBC61A, 0x9A2AE7F21B12F3B3,
    0xAE7F28162D3714D5, 0x03ECFA23B9FE217C, 0x58CB5E48906C4A2E, 0xF5588C7D04A57F87,
    0xEE84169EC3489C8A, 0x4317C4AB5781A923, 0x183060C07E13C271, 0xB5A3B2F5EADAF7D8,
    0x2F895507F1C8046B, 0x821A8732650131C2, 0xD93D23594C935A90, 0x74AEF16CD85A6F39,
    0x6F726B8F1FB78C34, 0xC2E1B9BA8B7EB99D, 0x99C61DD1A2ECD2CF, 0x3455CFE43625E766,
    0xF16D8219CEA71C03, 0x5CFE502C5A6E29AA, 0x07D9F44773FC42F8, 0xAA4A2672E7357751,
    0xB196BC9120D8945C, 0x1C056EA4B411A1F5, 0x4722CACF9D83CAA7, 0xEAB118FA094AFF0E,
    0x709BFF0812580CBD, 0xDD082D3D86913914, 0x862F8956AF035246, 0x2BBC5B633BCA67EF,
    0x3060C180FC2784E2, 0x9DF313B568EEB14B, 0xC6D4B7DE417CDA19, 0x6B4765EBD5B5EFB0,
    0x5F12AA0FE39008D6, 0xF281783A77593D7F, 0xA9A6DC515ECB562D, 0x04350E64CA026384,
    0x1FE994870DEF8089, 0xB27A46B29926B520, 0xE95DE2D9B0B4DE72, 0x44CE30EC247DEBDB,
    0xDEE4D71E3F6F1868, 0x7377052BABA62DC1, 0x2850A14082344693, 0x85C3737516FD733A,
    0x9E1FE996D1109037, 0x338C3BA345D9A59E, 0x68AB9FC86C4BCECC, 0xC5384DFDF882FB65,
    0x4F48D60609870DAF, 0xE2DB04339D4E3806, 0xB9FCA058B4DC5354, 0x146F726D201566FD,
    0x0FB3E88EE7F885F0, 0xA2203ABB7331B059, 0xF9079ED05AA3DB0B, 0x54944CE5CE6AEEA2,
    0xCEBEAB17D5781D11, 0x632D792241B128B8, 0x380ADD49682343EA, 0x95990F7CFCEA7643,
    0x8E45959F3B07954E, 0x23D647AAAFCEA0E7, 0x78F1E3C1865CCBB5, 0xD56231F41295FE1C,
    0xE137FE1024B0197A, 0x4CA42C25B0792CD3, 0x1783884E99EB4781, 0xBA105A7B0D227228,
    0xA1CCC098CACF9125, 0x0C5F12AD5E06A48C, 0x5778B6C67794CFDE, 0xFAEB64F3E35DFA77,
    0x60C18301F84F09C4, 0xCD5251346C863C6D, 0x9675F55F4514573F, 0x3BE6276AD1DD6296,
    0x203ABD891630819B, 0x8DA96FBC82F9B432, 0xD68ECBD7AB6BDF60, 0x7B1D19E23FA2EAC9,
    0xBE25541FC72011AC, 0x13B6862A53E92405, 0x489122417A7B4F57, 0xE502F074EEB27AFE,
    0xFEDE6A97295F99F3, 0x534DB8A2BD96AC5A, 0x086A1CC99404C708, 0xA5F9CEFC00CDF2A1,
    0x3FD3290E1BDF0112, 0x9240FB3B8F1634BB, 0xC9675F50A6845FE9, 0x64F48D65324D6A40,
    0x7F281786F5A0894D, 0xD2BBC5B36169BCE4, 0x899C61D848FBD7B6, 0x240FB3EDDC32E21F,
    0x105A7C09EA170579, 0xBDC9AE3C7EDE30D0, 0xE6EE0A57574C5B82, 0x4B7DD862C3856E2B,
    0x50A1428104688D26, 0xFD3290B490A1B88F, 0xA61534DFB933D3DD, 0x0B86E6EA2DFAE674,
    0x91AC011836E815C7, 0x3C3FD32DA221206E, 0x671877468BB34B3C, 0xCA8BA5731F7A7E95,
    0xD1573F90D8979D98, 0x7CC4EDA54C5EA831, 0x27E349CE65CCC363, 0x8A709BFBF105F6CA,
    0x9E91AC0C130E1B5E, 0x33027E3987C72EF7, 0x6825DA52AE5545A5, 0xC5B608673A9C700C,
    0xDE6A9284FD719301, 0x73F940B169B8A6A8, 0x28DEE4DA402ACDFA, 0x854D36EFD4E3F853,
    0x1F67D11DCFF10BE0, 0xB2F403285B383E49, 0xE9D3A74372AA551B, 0x44407576E66360B2,
    0x5F9CEF95218E83BF, 0xF20F3DA0B547B616, 0xA92899CB9CD5DD44, 0x04BB4BFE081CE8ED,
    0x30EE841A3E390F8B, 0x9D7D562FAAF03A22, 0xC65AF24483625170, 0x6BC9207117AB64D9,
    0x7015BA92D04687D4, 0xDD8668A7448FB27D, 0x86A1CCCC6D1DD92F, 0x2B321EF9F9D4EC86,
    0xB118F90BE2C61F35, 0x1C8B2B3E760F2A9C, 0x47AC8F555F9D41CE, 0xEA3F5D60CB547467,
    0xF1E3C7830CB9976A, 0x5C7015B69870A2C3, 0x0757B1DDB1E2C991, 0xAAC463E8252BFC38,
    0x6FFC2E15DDA9075D, 0xC26FFC20496032F4, 0x9948584B60F259A6, 0x34DB8A7EF43B6C0F,
    0x2F07109D33D68F02, 0x8294C2A8A71FBAAB, 0xD9B366C38E8DD1F9, 0x7420B4F61A44E450,
    0xEE0A5304015617E3, 0x43998131959F224A, 0x18BE255ABC0D4918, 0xB52DF76F28C47CB1,
    0xAEF16D8CEF299FBC, 0x0362BFB97BE0AA15, 0x58451BD25272C147, 0xF5D6C9E7C6BBF4EE,
    0xC1830603F09E1388, 0x6C10D43664572621, 0x3737705D4DC54D73, 0x9AA4A268D90C78DA,
    0x8178388B1EE19BD7, 0x2CEBEABE8A28AE7E, 0x77CC4ED5A3BAC52C, 0xDA5F9CE03773F085,
    0x40757B122C610336, 0xEDE6A927B8A8369F, 0xB6C10D4C913A5DCD, 0x1B52DF7905F36864,
    0x008E459AC21E8B69, 0xAD1D97AF56D7BEC0, 0xF63A33C47F45D592, 0x5BA9E1F1EB8CE03B,
    0xD1D97A0A1A8916F1, 0x7C4AA83F8E402358, 0x276D0C54A7D2480A, 0x8AFEDE61331B7DA3,
    0x91224482F4F69EAE, 0x3CB196B7603FAB07, 0x679632DC49ADC055, 0xCA05E0E9DD64F5FC,
    0x502F071BC676064F, 0xFDBCD52E52BF33E6, 0xA69B71457B2D58B4, 0x0B08A370EFE46D1D,
    0x10D4399328098E10, 0xBD47EBA6BCC0BBB9, 0xE6604FCD9552D0EB, 0x4BF39DF8019BE542,
    0x7FA6521C37BE0224, 0xD2358029A377378D, 0x891224428AE55CDF, 0x2481F6771E2C6976,
    0x3F5D6C94D9C18A7B, 0x92CEBEA14D08BFD2, 0xC9E91ACA649AD480, 0x647AC8FFF053E129,
    0xFE502F0DEB41129A, 0x53C3FD387F882733, 0x08E45953561A4C61, 0xA5778B66C2D379C8,
    0xBEAB1185053E9AC5, 0x1338C3B091F7AF6C, 0x481F67DBB865C43E, 0xE58CB5EE2CACF197,
    0x20B4F813D42E0AF2, 0x8D272A2640E73F5B, 0xD6008E4D69755409, 0x7B935C78FDBC61A0,
    0x604FC69B3A5182AD, 0xCDDC14AEAE98B704, 0x96FBB0C5870ADC56, 0x3B6862F013C3E9FF,
    0xA142850208D11A4C, 0x0CD157379C182FE5, 0x57F6F35CB58A44B7, 0xFA6521692143711E,
    0xE1B9BB8AE6AE9213, 0x4C2A69BF7267A7BA, 0x170DCDD45BF5CCE8, 0xBA9E1FE1CF3CF941,
    0x8ECBD005F9191E27, 0x235802306DD02B8E, 0x787FA65B444240DC, 0xD5EC746ED08B7575,
    0xCE30EE8D17669678, 0x63A33CB883AFA3D1, 0x388498D3AA3DC883, 0x95174AE63EF4FD2A,
    0x0F3DAD1425E60E99, 0xA2AE7F21B12F3B30, 0xF989DB4A98BD5062, 0x541A097F0C7465CB,
    0x4FC6939CCB9986C6, 0xE25541A95F50B36F, 0xB972E5C276C2D83D, 0x14E137F7E20BED94]"

definition crc64_rocksoft_refl_table :: "u64 list" where
  "crc64_rocksoft_refl_table = [
    0x0000000000000000, 0x7F6EF0C830358979, 0xFEDDE190606B12F2, 0x81B31158505E9B8B,
    0xC962E5739841B68F, 0xB60C15BBA8743FF6, 0x37BF04E3F82AA47D, 0x48D1F42BC81F2D04,
    0xA61CECB46814FE75, 0xD9721C7C5821770C, 0x58C10D24087FEC87, 0x27AFFDEC384A65FE,
    0x6F7E09C7F05548FA, 0x1010F90FC060C183, 0x91A3E857903E5A08, 0xEECD189FA00BD371,
    0x78E0FF3B88BE6F81, 0x078E0FF3B88BE6F8, 0x863D1EABE8D57D73, 0xF953EE63D8E0F40A,
    0xB1821A4810FFD90E, 0xCEECEA8020CA5077, 0x4F5FFBD87094CBFC, 0x30310B1040A14285,
    0xDEFC138FE0AA91F4, 0xA192E347D09F188D, 0x2021F21F80C18306, 0x5F4F02D7B0F40A7F,
    0x179EF6FC78EB277B, 0x68F0063448DEAE02, 0xE943176C18803589, 0x962DE7A428B5BCF0,
    0xF1C1FE77117CDF02, 0x8EAF0EBF2149567B, 0x0F1C1FE77117CDF0, 0x7072EF2F41224489,
    0x38A31B04893D698D, 0x47CDEBCCB908E0F4, 0xC67EFA94E9567B7F, 0xB9100A5CD963F206,
    0x57DD12C379682177, 0x28B3E20B495DA80E, 0xA900F35319033385, 0xD66E039B2936BAFC,
    0x9EBFF7B0E12997F8, 0xE1D10778D11C1E81, 0x606216208142850A, 0x1F0CE6E8B1770C73,
    0x8921014C99C2B083, 0xF64FF184A9F739FA, 0x77FCE0DCF9A9A271, 0x08921014C99C2B08,
    0x4043E43F0183060C, 0x3F2D14F731B68F75, 0xBE9E05AF61E814FE, 0xC1F0F56751DD9D87,
    0x2F3DEDF8F1D64EF6, 0x50531D30C1E3C78F, 0xD1E00C6891BD5C04, 0xAE8EFCA0A188D57D,
    0xE65F088B6997F879, 0x9931F84359A27100, 0x1882E91B09FCEA8B, 0x67EC19D339C963F2,
    0xD75ADABD7A6E2D6F, 0xA8342A754A5BA416, 0x29873B2D1A053F9D, 0x56E9CBE52A30B6E4,
    0x1E383FCEE22F9BE0, 0x6156CF06D21A1299, 0xE0E5DE5E82448912, 0x9F8B2E96B271006B,
    0x71463609127AD31A, 0x0E28C6C1224F5A63, 0x8F9BD7997211C1E8, 0xF0F5275142244891,
    0xB824D37A8A3B6595, 0xC74A23B2BA0EECEC, 0x46F932EAEA507767, 0x3997C222DA65FE1E,
    0xAFBA2586F2D042EE, 0xD0D4D54EC2E5CB97, 0x5167C41692BB501C, 0x2E0934DEA28ED965,
    0x66D8C0F56A91F461, 0x19B6303D5AA47D18, 0x980521650AFAE693, 0xE76BD1AD3ACF6FEA,
    0x09A6C9329AC4BC9B, 0x76C839FAAAF135E2, 0xF77B28A2FAAFAE69, 0x8815D86ACA9A2710,
    0xC0C42C4102850A14, 0xBFAADC8932B0836D, 0x3E19CDD162EE18E6, 0x41773D1952DB919F,
    0x269B24CA6B12F26D, 0x59F5D4025B277B14, 0xD846C55A0B79E09F, 0xA72835923B4C69E6,
    0xEFF9C1B9F35344E2, 0x90973171C366CD9B, 0x1124202993385610, 0x6E4AD0E1A30DDF69,
    0x8087C87E03060C18, 0xFFE938B633338561, 0x7E5A29EE636D1EEA, 0x0134D92653589793,
    0x49E52D0D9B47BA97, 0x368BDDC5AB7233EE, 0xB738CC9DFB2CA865, 0xC8563C55CB19211C,
    0x5E7BDBF1E3AC9DEC, 0x21152B39D3991495, 0xA0A63A6183C78F1E, 0xDFC8CAA9B3F20667,
    0x97193E827BED2B63, 0xE877CE4A4BD8A21A, 0x69C4DF121B863991, 0x16AA2FDA2BB3B0E8,
    0xF86737458BB86399, 0x8709C78DBB8DEAE0, 0x06BAD6D5EBD3716B, 0x79D4261DDBE6F812,
    0x3105D23613F9D516, 0x4E6B22FE23CC5C6F, 0xCFD833A67392C7E4, 0xB0B6C36E43A74E9D,
    0x9A6C9329AC4BC9B5, 0xE50263E19C7E40CC, 0x64B172B9CC20DB47, 0x1BDF8271FC15523E,
    0x530E765A340A7F3A, 0x2C608692043FF643, 0xADD397CA54616DC8, 0xD2BD67026454E4B1,
    0x3C707F9DC45F37C0, 0x431E8F55F46ABEB9, 0xC2AD9E0DA4342532, 0xBDC36EC59401AC4B,
    0xF5129AEE5C1E814F, 0x8A7C6A266C2B0836, 0x0BCF7B7E3C7593BD, 0x74A18BB60C401AC4,
    0xE28C6C1224F5A634, 0x9DE29CDA14C02F4D, 0x1C518D82449EB4C6, 0x633F7D4A74AB3DBF,
    0x2BEE8961BCB410BB, 0x548079A98C8199C2, 0xD53368F1DCDF0249, 0xAA5D9839ECEA8B30,
    0x449080A64CE15841, 0x3BFE706E7CD4D138, 0xBA4D61362C8A4AB3, 0xC52391FE1CBFC3CA,
    0x8DF265D5D4A0EECE, 0xF29C951DE49567B7, 0x732F8445B4CBFC3C, 0x0C41748D84FE7545,
    0x6BAD6D5EBD3716B7, 0x14C39D968D029FCE, 0x95708CCEDD5C0445, 0xEA1E7C06ED698D3C,
    0xA2CF882D2576A038, 0xDDA178E515432941, 0x5C1269BD451DB2CA, 0x237C997575283BB3,
    0xCDB181EAD523E8C2, 0xB2DF7122E51661BB, 0x336C607AB548FA30, 0x4C0290B2857D7349,
    0x04D364994D625E4D, 0x7BBD94517D57D734, 0xFA0E85092D094CBF, 0x856075C11D3CC5C6,
    0x134D926535897936, 0x6C2362AD05BCF04F, 0xED9073F555E26BC4, 0x92FE833D65D7E2BD,
    0xDA2F7716ADC8CFB9, 0xA54187DE9DFD46C0, 0x24F29686CDA3DD4B, 0x5B9C664EFD965432,
    0xB5517ED15D9D8743, 0xCA3F8E196DA80E3A, 0x4B8C9F413DF695B1, 0x34E26F890DC31CC8,
    0x7C339BA2C5DC31CC, 0x035D6B6AF5E9B8B5, 0x82EE7A32A5B7233E, 0xFD808AFA9582AA47,
    0x4D364994D625E4DA, 0x3258B95CE6106DA3, 0xB3EBA804B64EF628, 0xCC8558CC867B7F51,
    0x8454ACE74E645255, 0xFB3A5C2F7E51DB2C, 0x7A894D772E0F40A7, 0x05E7BDBF1E3AC9DE,
    0xEB2AA520BE311AAF, 0x944455E88E0493D6, 0x15F744B0DE5A085D, 0x6A99B478EE6F8124,
    0x224840532670AC20, 0x5D26B09B16452559, 0xDC95A1C3461BBED2, 0xA3FB510B762E37AB,
    0x35D6B6AF5E9B8B5B, 0x4AB846676EAE0222, 0xCB0B573F3EF099A9, 0xB465A7F70EC510D0,
    0xFCB453DCC6DA3DD4, 0x83DAA314F6EFB4AD, 0x0269B24CA6B12F26, 0x7D0742849684A65F,
    0x93CA5A1B368F752E, 0xECA4AAD306BAFC57, 0x6D17BB8B56E467DC, 0x12794B4366D1EEA5,
    0x5AA8BF68AECEC3A1, 0x25C64FA09EFB4AD8, 0xA4755EF8CEA5D153, 0xDB1BAE30FE90582A,
    0xBCF7B7E3C7593BD8, 0xC399472BF76CB2A1, 0x422A5673A732292A, 0x3D44A6BB9707A053,
    0x759552905F188D57, 0x0AFBA2586F2D042E, 0x8B48B3003F739FA5, 0xF42643C80F4616DC,
    0x1AEB5B57AF4DC5AD, 0x6585AB9F9F784CD4, 0xE436BAC7CF26D75F, 0x9B584A0FFF135E26,
    0xD389BE24370C7322, 0xACE74EEC0739FA5B, 0x2D545FB4576761D0, 0x523AAF7C6752E8A9,
    0xC41748D84FE75459, 0xBB79B8107FD2DD20, 0x3ACAA9482F8C46AB, 0x45A459801FB9CFD2,
    0x0D75ADABD7A6E2D6, 0x721B5D63E7936BAF, 0xF3A84C3BB7CDF024, 0x8CC6BCF387F8795D,
    0x620BA46C27F3AA2C, 0x1D6554A417C62355, 0x9CD645FC4798B8DE, 0xE3B8B53477AD31A7,
    0xAB69411FBFB21CA3, 0xD407B1D78F8795DA, 0x55B4A08FDFD90E51, 0x2ADA5047EFEC8728]"

definition crc64_rocksoft_norm_table :: "u64 list" where
  "crc64_rocksoft_norm_table = [
    0x0000000000000000, 0xAD93D23594C93659, 0xF6B4765EBD5B5AEB, 0x5B27A46B29926CB2,
    0x40FB3E88EE7F838F, 0xED68ECBD7AB6B5D6, 0xB64F48D65324D964, 0x1BDC9AE3C7EDEF3D,
    0x81F67D11DCFF071E, 0x2C65AF2448363147, 0x77420B4F61A45DF5, 0xDAD1D97AF56D6BAC,
    0xC10D439932808491, 0x6C9E91ACA649B2C8, 0x37B935C78FDBDE7A, 0x9A2AE7F21B12E823,
    0xAE7F28162D373865, 0x03ECFA23B9FE0E3C, 0x58CB5E48906C628E, 0xF5588C7D04A554D7,
    0xEE84169EC348BBEA, 0x4317C4AB57818DB3, 0x183060C07E13E101, 0xB5A3B2F5EADAD758,
    0x2F895507F1C83F7B, 0x821A873265010922, 0xD93D23594C936590, 0x74AEF16CD85A53C9,
    0x6F726B8F1FB7BCF4, 0xC2E1B9BA8B7E8AAD, 0x99C61DD1A2ECE61F, 0x3455CFE43625D046,
    0xF16D8219CEA74693, 0x5CFE502C5A6E70CA, 0x07D9F44773FC1C78, 0xAA4A2672E7352A21,
    0xB196BC9120D8C51C, 0x1C056EA4B411F345, 0x4722CACF9D839FF7, 0xEAB118FA094AA9AE,
    0x709BFF081258418D, 0xDD082D3D869177D4, 0x862F8956AF031B66, 0x2BBC5B633BCA2D3F,
    0x3060C180FC27C202, 0x9DF313B568EEF45B, 0xC6D4B7DE417C98E9, 0x6B4765EBD5B5AEB0,
    0x5F12AA0FE3907EF6, 0xF281783A775948AF, 0xA9A6DC515ECB241D, 0x04350E64CA021244,
    0x1FE994870DEFFD79, 0xB27A46B29926CB20, 0xE95DE2D9B0B4A792, 0x44CE30EC247D91CB,
    0xDEE4D71E3F6F79E8, 0x7377052BABA64FB1, 0x2850A14082342303, 0x85C3737516FD155A,
    0x9E1FE996D110FA67, 0x338C3BA345D9CC3E, 0x68AB9FC86C4BA08C, 0xC5384DFDF88296D5,
    0x4F48D6060987BB7F, 0xE2DB04339D4E8D26, 0xB9FCA058B4DCE194, 0x146F726D2015D7CD,
    0x0FB3E88EE7F838F0, 0xA2203ABB73310EA9, 0xF9079ED05AA3621B, 0x54944CE5CE6A5442,
    0xCEBEAB17D578BC61, 0x632D792241B18A38, 0x380ADD496823E68A, 0x95990F7CFCEAD0D3,
    0x8E45959F3B073FEE, 0x23D647AAAFCE09B7, 0x78F1E3C1865C6505, 0xD56231F41295535C,
    0xE137FE1024B0831A, 0x4CA42C25B079B543, 0x1783884E99EBD9F1, 0xBA105A7B0D22EFA8,
    0xA1CCC098CACF0095, 0x0C5F12AD5E0636CC, 0x5778B6C677945A7E, 0xFAEB64F3E35D6C27,
    0x60C18301F84F8404, 0xCD5251346C86B25D, 0x9675F55F4514DEEF, 0x3BE6276AD1DDE8B6,
    0x203ABD891630078B, 0x8DA96FBC82F931D2, 0xD68ECBD7AB6B5D60, 0x7B1D19E23FA26B39,
    0xBE25541FC720FDEC, 0x13B6862A53E9CBB5, 0x489122417A7BA707, 0xE502F074EEB2915E,
    0xFEDE6A97295F7E63, 0x534DB8A2BD96483A, 0x086A1CC994042488, 0xA5F9CEFC00CD12D1,
    0x3FD3290E1BDFFAF2, 0x9240FB3B8F16CCAB, 0xC9675F50A684A019, 0x64F48D65324D9640,
    0x7F281786F5A0797D, 0xD2BBC5B361694F24, 0x899C61D848FB2396, 0x240FB3EDDC3215CF,
    0x105A7C09EA17C589, 0xBDC9AE3C7EDEF3D0, 0xE6EE0A57574C9F62, 0x4B7DD862C385A93B,
    0x50A1428104684606, 0xFD3290B490A1705F, 0xA61534DFB9331CED, 0x0B86E6EA2DFA2AB4,
    0x91AC011836E8C297, 0x3C3FD32DA221F4CE, 0x671877468BB3987C, 0xCA8BA5731F7AAE25,
    0xD1573F90D8974118, 0x7CC4EDA54C5E7741, 0x27E349CE65CC1BF3, 0x8A709BFBF1052DAA,
    0x9E91AC0C130F76FE, 0x33027E3987C640A7, 0x6825DA52AE542C15, 0xC5B608673A9D1A4C,
    0xDE6A9284FD70F571, 0x73F940B169B9C328, 0x28DEE4DA402BAF9A, 0x854D36EFD4E299C3,
    0x1F67D11DCFF071E0, 0xB2F403285B3947B9, 0xE9D3A74372AB2B0B, 0x44407576E6621D52,
    0x5F9CEF95218FF26F, 0xF20F3DA0B546C436, 0xA92899CB9CD4A884, 0x04BB4BFE081D9EDD,
    0x30EE841A3E384E9B, 0x9D7D562FAAF178C2, 0xC65AF24483631470, 0x6BC9207117AA2229,
    0x7015BA92D047CD14, 0xDD8668A7448EFB4D, 0x86A1CCCC6D1C97FF, 0x2B321EF9F9D5A1A6,
    0xB118F90BE2C74985, 0x1C8B2B3E760E7FDC, 0x47AC8F555F9C136E, 0xEA3F5D60CB552537,
    0xF1E3C7830CB8CA0A, 0x5C7015B69871FC53, 0x0757B1DDB1E390E1, 0xAAC463E8252AA6B8,
    0x6FFC2E15DDA8306D, 0xC26FFC2049610634, 0x9948584B60F36A86, 0x34DB8A7EF43A5CDF,
    0x2F07109D33D7B3E2, 0x8294C2A8A71E85BB, 0xD9B366C38E8CE909, 0x7420B4F61A45DF50,
    0xEE0A530401573773, 0x43998131959E012A, 0x18BE255ABC0C6D98, 0xB52DF76F28C55BC1,
    0xAEF16D8CEF28B4FC, 0x0362BFB97BE182A5, 0x58451BD25273EE17, 0xF5D6C9E7C6BAD84E,
    0xC1830603F09F0808, 0x6C10D43664563E51, 0x3737705D4DC452E3, 0x9AA4A268D90D64BA,
    0x8178388B1EE08B87, 0x2CEBEABE8A29BDDE, 0x77CC4ED5A3BBD16C, 0xDA5F9CE03772E735,
    0x40757B122C600F16, 0xEDE6A927B8A9394F, 0xB6C10D4C913B55FD, 0x1B52DF7905F263A4,
    0x008E459AC21F8C99, 0xAD1D97AF56D6BAC0, 0xF63A33C47F44D672, 0x5BA9E1F1EB8DE02B,
    0xD1D97A0A1A88CD81, 0x7C4AA83F8E41FBD8, 0x276D0C54A7D3976A, 0x8AFEDE61331AA133,
    0x91224482F4F74E0E, 0x3CB196B7603E7857, 0x679632DC49AC14E5, 0xCA05E0E9DD6522BC,
    0x502F071BC677CA9F, 0xFDBCD52E52BEFCC6, 0xA69B71457B2C9074, 0x0B08A370EFE5A62D,
    0x10D4399328084910, 0xBD47EBA6BCC17F49, 0xE6604FCD955313FB, 0x4BF39DF8019A25A2,
    0x7FA6521C37BFF5E4, 0xD2358029A376C3BD, 0x891224428AE4AF0F, 0x2481F6771E2D9956,
    0x3F5D6C94D9C0766B, 0x92CEBEA14D094032, 0xC9E91ACA649B2C80, 0x647AC8FFF0521AD9,
    0xFE502F0DEB40F2FA, 0x53C3FD387F89C4A3, 0x08E45953561BA811, 0xA5778B66C2D29E48,
    0xBEAB1185053F7175, 0x1338C3B091F6472C, 0x481F67DBB8642B9E, 0xE58CB5EE2CAD1DC7,
    0x20B4F813D42F8B12, 0x8D272A2640E6BD4B, 0xD6008E4D6974D1F9, 0x7B935C78FDBDE7A0,
    0x604FC69B3A50089D, 0xCDDC14AEAE993EC4, 0x96FBB0C5870B5276, 0x3B6862F013C2642F,
    0xA142850208D08C0C, 0x0CD157379C19BA55, 0x57F6F35CB58BD6E7, 0xFA6521692142E0BE,
    0xE1B9BB8AE6AF0F83, 0x4C2A69BF726639DA, 0x170DCDD45BF45568, 0xBA9E1FE1CF3D6331,
    0x8ECBD005F918B377, 0x235802306DD1852E, 0x787FA65B4443E99C, 0xD5EC746ED08ADFC5,
    0xCE30EE8D176730F8, 0x63A33CB883AE06A1, 0x388498D3AA3C6A13, 0x95174AE63EF55C4A,
    0x0F3DAD1425E7B469, 0xA2AE7F21B12E8230, 0xF989DB4A98BCEE82, 0x541A097F0C75D8DB,
    0x4FC6939CCB9837E6, 0xE25541A95F5101BF, 0xB972E5C276C36D0D, 0x14E137F7E20A5B54]"

end
