(* ===== verification/Unaligned.thy ===== *)
theory Unaligned
  imports ISAL_Prelude
begin

text \<open>
  The unaligned loads and stores of \<open>include/unaligned.h\<close>. Memory is a list of bytes and a
  pointer an offset into it (or the list from the pointer on), so a load reads the first
  bytes of a list and a store returns the bytes written. The host is little endian, as for
  every target the base code is built for with these macros: the native order is the
  \<open>le\<close> order and the \<open>be\<close> functions swap.
\<close>

section \<open>Bytes and words\<close>

fun le_word :: "u8 list \<Rightarrow> 'w::len word" where
  "le_word [] = 0"
| "le_word (b # bs) = ucast b OR push_bit 8 (le_word bs)"

definition le_bytes :: "nat \<Rightarrow> 'w::len word \<Rightarrow> u8 list" where
  "le_bytes n w = map (\<lambda>i. ucast (drop_bit (8 * i) w)) [0..<n]"

section \<open>The functions of unaligned.h\<close>

definition load_le_u16 :: "u8 list \<Rightarrow> u16" where
  "load_le_u16 buf = le_word (take 2 buf)"

definition load_le_u32 :: "u8 list \<Rightarrow> u32" where
  "load_le_u32 buf = le_word (take 4 buf)"

definition load_le_u64 :: "u8 list \<Rightarrow> u64" where
  "load_le_u64 buf = le_word (take 8 buf)"

definition load_be_u16 :: "u8 list \<Rightarrow> u16" where
  "load_be_u16 buf = le_word (rev (take 2 buf))"

definition load_be_u32 :: "u8 list \<Rightarrow> u32" where
  "load_be_u32 buf = le_word (rev (take 4 buf))"

definition load_be_u64 :: "u8 list \<Rightarrow> u64" where
  "load_be_u64 buf = le_word (rev (take 8 buf))"

text \<open>\<open>sizeof(uintmax_t)\<close> is 8.\<close>

definition load_le_umax :: "u8 list \<Rightarrow> u64" where
  "load_le_umax buf = load_le_u64 buf"

definition blit :: "'a list \<Rightarrow> nat \<Rightarrow> 'a list \<Rightarrow> 'a list" where
  "blit dst off src = take off dst @ src @ drop (off + length src) dst"

definition store_le_u16 :: "u8 list \<Rightarrow> nat \<Rightarrow> u16 \<Rightarrow> u8 list" where
  "store_le_u16 buf off val = blit buf off (le_bytes 2 val)"

definition store_be_u16 :: "u8 list \<Rightarrow> nat \<Rightarrow> u16 \<Rightarrow> u8 list" where
  "store_be_u16 buf off val = blit buf off (rev (le_bytes 2 val))"

definition store_le_u32 :: "u8 list \<Rightarrow> nat \<Rightarrow> u32 \<Rightarrow> u8 list" where
  "store_le_u32 buf off val = blit buf off (le_bytes 4 val)"

definition store_be_u32 :: "u8 list \<Rightarrow> nat \<Rightarrow> u32 \<Rightarrow> u8 list" where
  "store_be_u32 buf off val = blit buf off (rev (le_bytes 4 val))"

definition store_le_u64 :: "u8 list \<Rightarrow> nat \<Rightarrow> u64 \<Rightarrow> u8 list" where
  "store_le_u64 buf off val = blit buf off (le_bytes 8 val)"

definition store_be_u64 :: "u8 list \<Rightarrow> nat \<Rightarrow> u64 \<Rightarrow> u8 list" where
  "store_be_u64 buf off val = blit buf off (rev (le_bytes 8 val))"

text \<open>The low 16 bits of a 64-bit cell, at its lowest address on a little-endian host.\<close>

definition store_native_u16_to_u64 :: "u64 \<Rightarrow> u16 \<Rightarrow> u64" where
  "store_native_u16_to_u64 cell val = (cell AND NOT 0xFFFF) OR ucast val"

section \<open>Lemmas\<close>

lemma u8_bit: "bit (b :: u8) n \<Longrightarrow> n < 8"
  using bit_imp_le_length [of b n] by simp

lemma u8_less: "unat (b :: u8) < 256"
proof -
  have "unat b < 2 ^ LENGTH(8)" by (rule unsigned_less)
  then show ?thesis by simp
qed

lemma bit_le_word:
  "bit (le_word bs :: 'w::len word) n
    \<longleftrightarrow> n < LENGTH('w) \<and> n < 8 * length bs \<and> bit (bs ! (n div 8)) (n mod 8)"
proof (induction bs arbitrary: n)
  case Nil
  then show ?case by simp
next
  case (Cons b bs)
  show ?case
  proof (cases "n < 8")
    case True
    then show ?thesis by (auto simp: bit_simps)
  next
    case False
    then obtain m where m: "n = m + 8" by (metis add.commute le_add_diff_inverse not_less)
    have "(m + 8) div 8 = Suc (m div 8)" "(m + 8) mod 8 = m mod 8" by simp_all
    with False m Cons.IH [of m] show ?thesis by (auto simp: bit_simps dest: u8_bit)
  qed
qed

lemma length_le_bytes [simp]: "length (le_bytes n w) = n"
  by (simp add: le_bytes_def)

lemma nth_le_bytes [simp]: "i < n \<Longrightarrow> le_bytes n w ! i = ucast (drop_bit (8 * i) w)"
  by (simp add: le_bytes_def)

text \<open>Storing then loading gives the word back; loading then storing gives the bytes back.\<close>

lemma take_le_bytes: "k \<le> n \<Longrightarrow> take k (le_bytes n w) = le_bytes k w"
  by (simp add: le_bytes_def take_map)

lemma le_word_le_bytes:
  assumes "LENGTH('w) \<le> 8 * n"
  shows "le_word (le_bytes n w) = (w :: 'w::len word)"
proof (rule bit_word_eqI)
  fix k assume k: "k < LENGTH('w)"
  then have "k div 8 < n" using assms by (simp add: div_less_iff_less_mult mult.commute)
  with k assms show "bit (le_word (le_bytes n w) :: 'w word) k = bit w k"
    by (simp add: bit_le_word bit_simps)
qed

lemma le_bytes_le_word:
  assumes "8 * length bs \<le> LENGTH('w)"
  shows "le_bytes (length bs) (le_word bs :: 'w::len word) = bs"
proof (rule nth_equalityI)
  fix i assume i: "i < length (le_bytes (length bs) (le_word bs :: 'w word))"
  then have i': "i < length bs" by simp
  show "le_bytes (length bs) (le_word bs :: 'w word) ! i = bs ! i"
  proof (rule bit_word_eqI)
    fix k assume "k < LENGTH(8)"
    then have k: "k < 8" by simp
    then have "(8 * i + k) div 8 = i" "(8 * i + k) mod 8 = k" by simp_all
    moreover have "8 * i + k < 8 * length bs" using i' k by simp
    ultimately show "bit (le_bytes (length bs) (le_word bs :: 'w word) ! i) k = bit (bs ! i) k"
      using i' k assms by (simp add: bit_le_word bit_simps)
  qed
qed simp

lemma le_word_eq_0:
  assumes "8 * length bs \<le> LENGTH('w::len)"
  shows "(le_word bs :: 'w word) = 0 \<longleftrightarrow> (\<forall>b \<in> set bs. b = 0)"
proof
  assume "(le_word bs :: 'w word) = 0"
  then have "bs = le_bytes (length bs) (0 :: 'w word)"
    using le_bytes_le_word [OF assms] by simp
  then have "bs ! i = 0" if "i < length bs" for i
    using that by (metis drop_bit_of_0 nth_le_bytes unsigned_0)
  then show "\<forall>b \<in> set bs. b = 0" by (metis in_set_conv_nth)
next
  assume "\<forall>b \<in> set bs. b = 0"
  then show "(le_word bs :: 'w word) = 0" by (induction bs) simp_all
qed

lemma length_blit [simp]: "off + length src \<le> length dst \<Longrightarrow> length (blit dst off src) = length dst"
  by (simp add: blit_def)

lemma take_blit [simp]: "off \<le> length dst \<Longrightarrow> take off (blit dst off src) = take off dst"
  by (simp add: blit_def)

lemma drop_blit: "off \<le> length dst \<Longrightarrow> drop off (blit dst off src) = src @ drop (off + length src) dst"
  by (simp add: blit_def)

lemma load_store_le_u64 [simp]:
  "off \<le> length buf \<Longrightarrow> load_le_u64 (drop off (store_le_u64 buf off val)) = val"
  by (simp add: load_le_u64_def store_le_u64_def drop_blit le_word_le_bytes)

lemma load_store_le_u32 [simp]:
  "off \<le> length buf \<Longrightarrow> load_le_u32 (drop off (store_le_u32 buf off val)) = val"
  by (simp add: load_le_u32_def store_le_u32_def drop_blit le_word_le_bytes)

lemma load_store_le_u16 [simp]:
  "off \<le> length buf \<Longrightarrow> load_le_u16 (drop off (store_le_u16 buf off val)) = val"
  by (simp add: load_le_u16_def store_le_u16_def drop_blit le_word_le_bytes)

lemma load_store_be_u64 [simp]:
  "off \<le> length buf \<Longrightarrow> load_be_u64 (drop off (store_be_u64 buf off val)) = val"
  by (simp add: load_be_u64_def store_be_u64_def drop_blit le_word_le_bytes)

lemma load_store_be_u32 [simp]:
  "off \<le> length buf \<Longrightarrow> load_be_u32 (drop off (store_be_u32 buf off val)) = val"
  by (simp add: load_be_u32_def store_be_u32_def drop_blit le_word_le_bytes)

lemma load_store_be_u16 [simp]:
  "off \<le> length buf \<Longrightarrow> load_be_u16 (drop off (store_be_u16 buf off val)) = val"
  by (simp add: load_be_u16_def store_be_u16_def drop_blit le_word_le_bytes)

section \<open>Words as byte lanes\<close>

lemma le_word_Cons_add: "(le_word (b # bs) :: u64) = ucast b + 256 * le_word bs"
proof -
  have "(ucast b :: u64) AND push_bit 8 (le_word bs) = 0"
    by (rule bit_word_eqI) (auto simp: bit_simps dest: u8_bit)
  then have "(le_word (b # bs) :: u64) = ucast b + push_bit 8 (le_word bs)"
    by (simp only: le_word.simps disjunctive_add_eq_or)
  also have "push_bit 8 (le_word bs :: u64) = 256 * le_word bs"
    by (simp add: push_bit_eq_mult)
  finally show ?thesis .
qed

lemma le_word_xor:
  "length xs = length ys \<Longrightarrow> (le_word xs :: 'w::len word) XOR le_word ys = le_word (map2 (XOR) xs ys)"
  by (rule bit_word_eqI) (auto simp: bit_simps bit_le_word)

lemma le_word_and:
  "length xs = length ys \<Longrightarrow> (le_word xs :: 'w::len word) AND le_word ys = le_word (map2 (AND) xs ys)"
  by (rule bit_word_eqI) (auto simp: bit_simps bit_le_word)

end
