(* ===== verification/CRC_Orders.thy ===== *)
theory CRC_Orders
  imports CRC_Register Unaligned
begin

text \<open>
  The two bit orders of the library's CRCs as instances of the register interface: the
  reflected order (least significant bit first: iSCSI, gzip and the \<open>_refl\<close> CRC-64s) and
  the normal order (most significant bit first: T10-DIF, IEEE and the \<open>_norm\<close> CRC-64s).
  A client names the polynomial and the table; the laws to discharge are that the table is
  the span of eight successive bit steps of the polynomial and that the polynomial has the
  term that makes the register injective.
\<close>

section \<open>Word facts\<close>

lemma and_1_neq_0: "(r :: 'w::len word) AND 1 \<noteq> 0 \<longleftrightarrow> bit r 0"
  by (simp add: and_one_eq bit_0 odd_iff_mod_2_eq_one)

lemma and_exp_neq_0: "n < LENGTH('w) \<Longrightarrow> (r :: 'w::len word) AND 2 ^ n \<noteq> 0 \<longleftrightarrow> bit r n"
  by (simp add: and_exp_eq_0_iff_not_bit)

section \<open>Reflected order\<close>

lemma crc_refl_bit_bit:
  "crc_refl_bit poly rem = (if bit rem 0 then drop_bit 1 rem XOR poly else drop_bit 1 rem)"
  by (simp only: crc_refl_bit_def and_1_neq_0)

lemma crc_refl_bit_xor:
  "crc_refl_bit poly (a XOR b) = crc_refl_bit poly a XOR crc_refl_bit poly b"
  by (auto simp: crc_refl_bit_bit bit_xor_iff drop_bit_xor xor_laws)

lemma crc_refl_bit_low:
  "(\<And>i. i < n \<Longrightarrow> \<not> bit r i) \<Longrightarrow> (crc_refl_bit poly ^^ n) r = drop_bit n r"
proof (induction n arbitrary: r)
  case 0
  then show ?case by simp
next
  case (Suc n)
  have "crc_refl_bit poly r = drop_bit 1 r" using Suc.prems [of 0] by (simp add: crc_refl_bit_bit)
  moreover have "(crc_refl_bit poly ^^ n) (drop_bit 1 r) = drop_bit n (drop_bit 1 r)"
    by (rule Suc.IH) (use Suc.prems in \<open>simp add: bit_drop_bit_eq\<close>)
  ultimately show ?case by (simp add: funpow_swap1 add.commute)
qed

lemma crc_refl_bit_eq_0:
  assumes "bit poly (LENGTH('w) - 1)" "crc_refl_bit poly (a :: 'w::len word) = 0"
  shows "a = 0"
proof (cases "bit a 0")
  case True
  then have "drop_bit 1 a = poly" using assms(2) by (simp add: crc_refl_bit_bit)
  then have "bit (drop_bit 1 a) (LENGTH('w) - 1)" using assms(1) by simp
  then show ?thesis by (simp add: bit_drop_bit_eq)
next
  case False
  then have "drop_bit 1 a = 0" using assms(2) by (simp add: crc_refl_bit_bit)
  then have "bit a (Suc n) \<longleftrightarrow> bit (0 :: 'w word) n" for n
    by (metis bit_drop_bit_eq plus_1_eq_Suc comp_apply)
  then show ?thesis using False
    by (intro bit_word_eqI) (metis bit_0_eq bot_apply bot_bool_def not0_implies_Suc)
qed

locale crc_refl_table =
  fixes poly :: "'w::len word" and tab :: "'w word list"
  assumes width_refl: "8 \<le> LENGTH('w)"
    and poly_refl: "bit poly (LENGTH('w) - 1)"
    and tab_refl: "tab = xor_span (iterates (crc_refl_bit poly) poly 8)"
begin

lemma refl_basis:
  assumes "j < 8"
  shows "(crc_refl_bit poly ^^ 8) (ucast (2 ^ j :: u8)) = (crc_refl_bit poly ^^ (7 - j)) poly"
proof -
  have u: "ucast (2 ^ j :: u8) = (2 ^ j :: 'w word)"
    using assms width_refl by (intro bit_word_eqI) (auto simp: bit_simps)
  have "(crc_refl_bit poly ^^ j) (2 ^ j :: 'w word) = drop_bit j (2 ^ j)"
    by (rule crc_refl_bit_low) (auto simp: bit_simps)
  also have "\<dots> = 1" using assms width_refl by (intro bit_word_eqI) (auto simp: bit_simps)
  finally have j: "(crc_refl_bit poly ^^ j) (2 ^ j :: 'w word) = 1" .
  have "drop_bit 1 (1 :: 'w word) = 0" by (rule bit_word_eqI) (auto simp: bit_simps)
  then have 1: "crc_refl_bit poly 1 = poly" by (simp add: crc_refl_bit_bit)
  have "(8 :: nat) = (7 - j) + (1 + j)" using assms by simp
  then have "(crc_refl_bit poly ^^ 8) (2 ^ j)
      = (crc_refl_bit poly ^^ (7 - j)) ((crc_refl_bit poly ^^ (1 + j)) (2 ^ j))"
    by (metis funpow_add comp_apply)
  also have "(crc_refl_bit poly ^^ (1 + j)) (2 ^ j) = poly" by (simp add: j 1)
  finally show ?thesis by (simp only: u)
qed

lemma refl_tab: "tab ! unat (b :: u8) = (crc_refl_bit poly ^^ 8) (ucast b)"
proof -
  let ?f = "\<lambda>b :: u8. (crc_refl_bit poly ^^ 8) (ucast b :: 'w word)"
  have lin: "crc_linear (crc_refl_bit poly)" by unfold_locales (rule crc_refl_bit_xor)
  have "?f (a XOR b) = ?f a XOR ?f b" for a b
    using crc_linear.steps_xor [OF lin, of 8] by (simp add: unsigned_xor_eq)
  then have "xor_span (map (\<lambda>j. ?f (2 ^ j)) (rev [0..<8])) ! unat b = ?f (of_nat (unat b))"
    by (rule xor_span_nth) (simp_all add: u8_less)
  moreover have "map (\<lambda>j. ?f (2 ^ j)) (rev [0..<8])
      = map (\<lambda>j. (crc_refl_bit poly ^^ (7 - j)) poly) (rev [0..<8])"
    by (simp add: refl_basis)
  moreover have "map (\<lambda>j. (crc_refl_bit poly ^^ (7 - j)) poly) (rev [0..<8])
      = iterates (crc_refl_bit poly) poly 8"
    by (rule iterates_rev)
  ultimately show ?thesis by (simp add: tab_refl)
qed

lemma refl_split:
  "(crc_refl_bit poly ^^ 8) r
    = (crc_refl_bit poly ^^ 8) (ucast (ucast r :: u8)) XOR drop_bit 8 r"
proof -
  have lin: "crc_linear (crc_refl_bit poly)" by unfold_locales (rule crc_refl_bit_xor)
  have "r = ucast (ucast r :: u8) XOR push_bit 8 (drop_bit 8 r)"
  proof (rule bit_word_eqI)
    fix n assume "n < LENGTH('w)"
    then show "bit r n = bit (ucast (ucast r :: u8) XOR push_bit 8 (drop_bit 8 r)) n"
      by (auto simp: bit_simps)
  qed
  then have "(crc_refl_bit poly ^^ 8) r = (crc_refl_bit poly ^^ 8) (ucast (ucast r :: u8))
      XOR (crc_refl_bit poly ^^ 8) (push_bit 8 (drop_bit 8 r))"
    using crc_linear.steps_xor [OF lin, of 8] by metis
  also have "(crc_refl_bit poly ^^ 8) (push_bit 8 (drop_bit 8 r)) = drop_bit 8 (push_bit 8 (drop_bit 8 r))"
    by (rule crc_refl_bit_low) (simp add: bit_simps)
  also have "\<dots> = drop_bit 8 r"
    by (rule bit_word_eqI) (auto simp: bit_simps intro: bit_imp_le_length)
  finally show ?thesis .
qed

end

sublocale crc_refl_table \<subseteq> crc_burst "crc_refl_bit poly" "ucast :: u8 \<Rightarrow> 'w word"
  "ucast :: 'w word \<Rightarrow> u8" "drop_bit 8" tab "\<lambda>n b. push_bit (8 * n) (ucast b)"
  "\<lambda>n x. ucast (drop_bit (8 * n) x)" "LENGTH('w) div 8"
proof
  show "crc_refl_bit poly (a XOR b) = crc_refl_bit poly a XOR crc_refl_bit poly b" for a b
    by (rule crc_refl_bit_xor)
  show "(ucast (a XOR b) :: 'w word) = ucast a XOR ucast b" for a b :: u8
    by (rule unsigned_xor_eq)
  show "(crc_refl_bit poly ^^ 8) r
    = (crc_refl_bit poly ^^ 8) (ucast (ucast r :: u8)) XOR drop_bit 8 r" for r
    by (rule refl_split)
  show "tab ! unat b = (crc_refl_bit poly ^^ 8) (ucast b)" for b :: u8 by (rule refl_tab)
  show "a = 0" if "crc_refl_bit poly a = 0" for a
    using poly_refl that by (rule crc_refl_bit_eq_0)
  show "(crc_refl_bit poly ^^ (8 * n)) (push_bit (8 * n) (ucast b)) = ucast b"
    if "n < LENGTH('w) div 8" for n and b :: u8
  proof -
    have "(crc_refl_bit poly ^^ (8 * n)) (push_bit (8 * n) (ucast b)) = drop_bit (8 * n) (push_bit (8 * n) (ucast b))"
      by (rule crc_refl_bit_low) (simp add: bit_simps)
    also have "\<dots> = ucast b"
    proof (rule bit_word_eqI)
      fix k assume "k < LENGTH('w)"
      show "bit (drop_bit (8 * n) (push_bit (8 * n) (ucast b :: 'w word))) k = bit (ucast b :: 'w word) k"
        using that \<open>k < LENGTH('w)\<close> by (cases "k < 8") (auto simp: bit_simps dest: u8_bit)
    qed
    finally show ?thesis .
  qed
  show "(ucast (drop_bit (8 * n) (x XOR y)) :: u8)
    = ucast (drop_bit (8 * n) x) XOR ucast (drop_bit (8 * n) y)" for n and x y :: "'w word"
    by (simp add: drop_bit_xor unsigned_xor_eq)
  show "ucast (drop_bit (8 * n) (push_bit (8 * m) (ucast b) :: 'w word)) = (if n = m then b else 0)"
    if "n < LENGTH('w) div 8" "m < LENGTH('w) div 8" for n m and b :: u8
  proof (rule bit_word_eqI)
    fix k assume "k < LENGTH(8)"
    then have k: "k < 8" by simp
    with that have "8 * n + k < LENGTH('w)" "8 * m + 7 < LENGTH('w)" by simp_all
    moreover have "n = m" if "8 * m \<le> 8 * n + k" "8 * n + k - 8 * m < 8"
      using that k by simp
    ultimately show "bit (ucast (drop_bit (8 * n) (push_bit (8 * m) (ucast b) :: 'w word)) :: u8) k
        \<longleftrightarrow> bit (if n = m then b else 0) k"
      using k by (auto simp: bit_simps dest: u8_bit)
  qed
qed

section \<open>Normal order\<close>

lemma crc_norm_bit_xor:
  "crc_norm_bit poly (a XOR b) = crc_norm_bit poly a XOR crc_norm_bit poly b"
  by (auto simp: crc_norm_bit_def bit_xor_iff push_bit_xor xor_laws)

lemma crc_norm_bit_high:
  "(\<And>i. LENGTH('w) - n \<le> i \<Longrightarrow> \<not> bit r i) \<Longrightarrow> n \<le> LENGTH('w)
    \<Longrightarrow> (crc_norm_bit poly ^^ n) (r :: 'w::len word) = push_bit n r"
proof (induction n arbitrary: r)
  case 0
  then show ?case by simp
next
  case (Suc n)
  have "crc_norm_bit poly r = push_bit 1 r" using Suc.prems by (simp add: crc_norm_bit_def)
  moreover have "(crc_norm_bit poly ^^ n) (push_bit 1 r) = push_bit n (push_bit 1 r)"
    by (rule Suc.IH) (use Suc.prems in \<open>auto simp: bit_push_bit_iff simp del: push_bit_Suc\<close>)
  ultimately show ?case by (simp add: funpow_swap1 add.commute)
qed

lemma crc_norm_bit_eq_0:
  assumes "bit poly 0" "crc_norm_bit poly (a :: 'w::len word) = 0"
  shows "a = 0"
proof (cases "bit a (LENGTH('w) - 1)")
  case True
  then have "push_bit 1 a = poly" using assms(2) by (simp add: crc_norm_bit_def)
  then have "bit (push_bit 1 a) 0" using assms(1) by simp
  then show ?thesis by (simp add: bit_push_bit_iff del: push_bit_Suc)
next
  case False
  then have "push_bit 1 a = 0" using assms(2) by (simp add: crc_norm_bit_def)
  then have "bit (push_bit 1 a) (Suc n) = bit (0 :: 'w word) (Suc n)" for n by simp
  then have "Suc n < LENGTH('w) \<Longrightarrow> \<not> bit a n" for n
    by (simp add: bit_push_bit_iff del: push_bit_Suc)
  moreover have "n < LENGTH('w) \<Longrightarrow> Suc n < LENGTH('w) \<or> n = LENGTH('w) - 1" for n by auto
  ultimately show ?thesis using False by (intro bit_word_eqI) auto
qed

locale crc_norm_table =
  fixes poly :: "'w::len word" and tab :: "'w word list"
  assumes width_norm: "8 \<le> LENGTH('w)"
    and poly_norm: "bit poly 0"
    and tab_norm: "tab = xor_span (rev (iterates (crc_norm_bit poly) poly 8))"
begin

abbreviation inj_norm :: "u8 \<Rightarrow> 'w word" where
  "inj_norm b \<equiv> push_bit (LENGTH('w) - 8) (ucast b)"

abbreviation top_norm :: "'w word \<Rightarrow> u8" where
  "top_norm r \<equiv> ucast (drop_bit (LENGTH('w) - 8) r)"

lemma inj_norm_xor: "inj_norm (a XOR b) = inj_norm a XOR inj_norm b"
  by (simp add: push_bit_xor unsigned_xor_eq)

lemma norm_basis:
  assumes "j < 8"
  shows "(crc_norm_bit poly ^^ 8) (inj_norm (2 ^ j)) = (crc_norm_bit poly ^^ j) poly"
proof -
  let ?L = "LENGTH('w)"
  have u: "inj_norm (2 ^ j) = (2 ^ (?L - 8 + j) :: 'w word)"
    using assms width_norm by (intro bit_word_eqI) (auto simp: bit_simps)
  have "(crc_norm_bit poly ^^ (7 - j)) (2 ^ (?L - 8 + j) :: 'w word) = push_bit (7 - j) (2 ^ (?L - 8 + j))"
    by (rule crc_norm_bit_high) (use assms width_norm in \<open>auto simp: bit_simps\<close>)
  also have "\<dots> = 2 ^ (?L - 1)"
    using assms width_norm by (intro bit_word_eqI) (auto simp: bit_simps)
  finally have j: "(crc_norm_bit poly ^^ (7 - j)) (2 ^ (?L - 8 + j) :: 'w word) = 2 ^ (?L - 1)" .
  have "push_bit 1 (2 ^ (?L - 1) :: 'w word) = 0"
    by (rule bit_word_eqI) (auto simp: bit_simps simp del: push_bit_Suc)
  moreover have "bit (2 ^ (?L - 1) :: 'w word) (?L - 1)" by (auto simp: bit_simps)
  ultimately have 1: "crc_norm_bit poly (2 ^ (?L - 1)) = poly"
    by (simp only: crc_norm_bit_def if_True xor.left_neutral)
  have "(8 :: nat) = j + (1 + (7 - j))" using assms by simp
  then have "(crc_norm_bit poly ^^ 8) (2 ^ (?L - 8 + j))
      = (crc_norm_bit poly ^^ j) ((crc_norm_bit poly ^^ (1 + (7 - j))) (2 ^ (?L - 8 + j)))"
    by (metis funpow_add comp_apply)
  also have "(crc_norm_bit poly ^^ (1 + (7 - j))) (2 ^ (?L - 8 + j)) = poly"
    by (simp only: funpow.simps plus_1_eq_Suc comp_apply j 1)
  finally show ?thesis by (simp only: u)
qed

lemma norm_tab: "tab ! unat (b :: u8) = (crc_norm_bit poly ^^ 8) (inj_norm b)"
proof -
  let ?f = "\<lambda>b :: u8. (crc_norm_bit poly ^^ 8) (inj_norm b)"
  have lin: "crc_linear (crc_norm_bit poly)" by unfold_locales (rule crc_norm_bit_xor)
  have "?f (a XOR b) = ?f a XOR ?f b" for a b
    using crc_linear.steps_xor [OF lin, of 8] by (simp only: inj_norm_xor)
  then have "xor_span (map (\<lambda>j. ?f (2 ^ j)) (rev [0..<8])) ! unat b = ?f (of_nat (unat b))"
    by (rule xor_span_nth) (simp_all add: u8_less)
  moreover have "map (\<lambda>j. ?f (2 ^ j)) (rev [0..<8])
      = map (\<lambda>j. (crc_norm_bit poly ^^ j) poly) (rev [0..<8])"
    by (simp add: norm_basis)
  ultimately show ?thesis by (simp add: tab_norm iterates_map rev_map)
qed

lemma norm_split:
  "(crc_norm_bit poly ^^ 8) r = (crc_norm_bit poly ^^ 8) (inj_norm (top_norm r)) XOR push_bit 8 r"
proof -
  have lin: "crc_linear (crc_norm_bit poly)" by unfold_locales (rule crc_norm_bit_xor)
  let ?l = "take_bit (LENGTH('w) - 8) r"
  have "r = inj_norm (top_norm r) XOR ?l"
  proof (rule bit_word_eqI)
    fix n assume "n < LENGTH('w)"
    then show "bit r n = bit (inj_norm (top_norm r) XOR ?l) n"
      using width_norm by (auto simp: bit_simps)
  qed
  then have "(crc_norm_bit poly ^^ 8) r = (crc_norm_bit poly ^^ 8) (inj_norm (top_norm r))
      XOR (crc_norm_bit poly ^^ 8) ?l"
    using crc_linear.steps_xor [OF lin, of 8] by metis
  also have "(crc_norm_bit poly ^^ 8) ?l = push_bit 8 ?l"
    by (rule crc_norm_bit_high) (use width_norm in \<open>auto simp: bit_simps\<close>)
  also have "\<dots> = push_bit 8 r" by (rule bit_word_eqI) (auto simp: bit_simps)
  finally show ?thesis .
qed

lemma norm_pos:
  assumes "n < LENGTH('w) div 8"
  shows "(crc_norm_bit poly ^^ (8 * n)) (push_bit (LENGTH('w) - 8 - 8 * n) (ucast b)) = inj_norm (b :: u8)"
proof -
  have n: "8 * n + 8 \<le> LENGTH('w)" using assms by simp
  have "(crc_norm_bit poly ^^ (8 * n)) (push_bit (LENGTH('w) - 8 - 8 * n) (ucast b))
      = push_bit (8 * n) (push_bit (LENGTH('w) - 8 - 8 * n) (ucast b))"
    by (rule crc_norm_bit_high) (use n in \<open>auto simp: bit_simps dest: u8_bit\<close>)
  also have "\<dots> = inj_norm b"
  proof (rule bit_word_eqI)
    fix k assume "k < LENGTH('w)"
    then show "bit (push_bit (8 * n) (push_bit (LENGTH('w) - 8 - 8 * n) (ucast b) :: 'w word)) k
      = bit (inj_norm b) k"
      using n by (auto simp: bit_simps dest: u8_bit)
  qed
  finally show ?thesis .
qed

lemma norm_get:
  assumes "n < LENGTH('w) div 8" "m < LENGTH('w) div 8"
  shows "ucast (drop_bit (LENGTH('w) - 8 - 8 * n) (push_bit (LENGTH('w) - 8 - 8 * m) (ucast b) :: 'w word))
    = (if n = m then b else (0 :: u8))"
proof (rule bit_word_eqI)
  fix k assume "k < LENGTH(8)"
  then have k: "k < 8" by simp
  have n: "8 * n + 8 \<le> LENGTH('w)" "8 * m + 8 \<le> LENGTH('w)" using assms by simp_all
  have "n = m" if "LENGTH('w) - 8 - 8 * m \<le> LENGTH('w) - 8 - 8 * n + k"
    "LENGTH('w) - 8 - 8 * n + k - (LENGTH('w) - 8 - 8 * m) < 8"
  proof -
    have "8 * n \<le> 8 * m + k" "8 * m + k < 8 * n + 8" using that n by linarith+
    then show ?thesis using k by presburger
  qed
  then show "bit (ucast (drop_bit (LENGTH('w) - 8 - 8 * n)
      (push_bit (LENGTH('w) - 8 - 8 * m) (ucast b) :: 'w word)) :: u8) k
    \<longleftrightarrow> bit (if n = m then b else 0) k"
    using k n by (auto simp: bit_simps dest: u8_bit)
qed

end

sublocale crc_norm_table \<subseteq> crc_burst "crc_norm_bit poly" inj_norm top_norm "push_bit 8" tab
  "\<lambda>n b. push_bit (LENGTH('w) - 8 - 8 * n) (ucast b)"
  "\<lambda>n x. ucast (drop_bit (LENGTH('w) - 8 - 8 * n) x)" "LENGTH('w) div 8"
proof
  show "crc_norm_bit poly (a XOR b) = crc_norm_bit poly a XOR crc_norm_bit poly b" for a b
    by (rule crc_norm_bit_xor)
  show "a = 0" if "crc_norm_bit poly a = 0" for a
    using poly_norm that by (rule crc_norm_bit_eq_0)
  show "(ucast (drop_bit (LENGTH('w) - 8 - 8 * n) (x XOR y)) :: u8)
    = ucast (drop_bit (LENGTH('w) - 8 - 8 * n) x) XOR ucast (drop_bit (LENGTH('w) - 8 - 8 * n) y)"
    for n and x y :: "'w word"
    by (simp add: drop_bit_xor unsigned_xor_eq)
qed (rule inj_norm_xor norm_split norm_tab norm_pos norm_get; assumption?)+

end
