(* ===== verification/CRC_Base.thy ===== *)
theory CRC_Base
  imports CRC_Ref CRC_Tables CRC_Orders
begin

text \<open>
  The table-driven CRCs of \<open>crc/crc_base.c\<close> and \<open>crc/crc64_base.c\<close> and their public
  aliases (\<open>crc/crc_base_aliases.c\<close>), interpreted in the register interface: each table
  is checked against the span of its polynomial, and the interpretation then gives the
  equality with the bitwise reference, the additivity of the register and the detection of
  burst errors. A \<open>(buf, len)\<close> pair is the list of the bytes read; the loops of
  \<open>crc16_t10dif_base\<close> and \<open>crc16_t10dif_copy_base\<close> count with an \<open>int\<close> up to a 64-bit
  length, which overflows at 2 GiB: there their value is \<open>None\<close>. The other functions
  count with the length or with pointers; \<open>crc32_iscsi_base\<close> takes an \<open>int\<close> length, so its
  list has fewer than \<open>2 ^ 31\<close> bytes.
\<close>

section \<open>The functions of crc/crc_base.c\<close>

definition crc16_t10dif_loop :: "u16 \<Rightarrow> u8 list \<Rightarrow> u16" where
  "crc16_t10dif_loop seed buf =
    foldl (\<lambda>crc b. push_bit 8 crc XOR crc16tab ! unat ((drop_bit 8 crc XOR ucast b) AND 0xFF))
      seed buf"

definition crc16_t10dif_base :: "u16 \<Rightarrow> u8 list \<Rightarrow> u16 option" where
  "crc16_t10dif_base seed buf =
    (if length buf < 2 ^ 31 then Some (crc16_t10dif_loop seed buf) else None)"

definition crc16_t10dif_copy_loop :: "u16 \<Rightarrow> u8 list \<Rightarrow> u8 list \<Rightarrow> u16 \<times> u8 list" where
  "crc16_t10dif_copy_loop seed dst src =
    foldl (\<lambda>(crc, dst) (i, b).
        (push_bit 8 crc XOR crc16tab ! unat ((drop_bit 8 crc XOR ucast b) AND 0xFF), dst[i := b]))
      (seed, dst) (enumerate 0 src)"

definition crc16_t10dif_copy_base :: "u16 \<Rightarrow> u8 list \<Rightarrow> u8 list \<Rightarrow> (u16 \<times> u8 list) option" where
  "crc16_t10dif_copy_base seed dst src =
    (if length src < 2 ^ 31 then Some (crc16_t10dif_copy_loop seed dst src) else None)"

definition crc32_iscsi_base :: "u8 list \<Rightarrow> u32 \<Rightarrow> u32" where
  "crc32_iscsi_base buffer crc_init =
    foldl (\<lambda>crc b. drop_bit 8 crc XOR crc32_table_iscsi_refl ! unat ((crc AND 0xFF) XOR ucast b))
      crc_init buffer"

definition crc32_ieee_base :: "u32 \<Rightarrow> u8 list \<Rightarrow> u32" where
  "crc32_ieee_base seed buf =
    NOT (foldl (\<lambda>crc b. push_bit 8 crc XOR
        crc32_table_ieee_norm ! unat ((drop_bit 24 crc XOR ucast b) AND 255)) (NOT seed) buf)"

definition crc32_gzip_refl_base :: "u32 \<Rightarrow> u8 list \<Rightarrow> u32" where
  "crc32_gzip_refl_base seed buf =
    NOT (foldl (\<lambda>crc b. drop_bit 8 crc XOR
        crc32_table_gzip_refl ! unat ((crc AND 0xFF) XOR ucast b)) (NOT seed) buf)"

section \<open>The functions of crc/crc64_base.c\<close>

definition crc64_ecma_refl_base :: "u64 \<Rightarrow> u8 list \<Rightarrow> u64" where
  "crc64_ecma_refl_base seed buf =
    NOT (foldl (\<lambda>crc b. crc64_ecma_refl_table ! unat ((ucast crc :: u8) XOR b) XOR drop_bit 8 crc)
      (NOT seed) buf)"

definition crc64_ecma_norm_base :: "u64 \<Rightarrow> u8 list \<Rightarrow> u64" where
  "crc64_ecma_norm_base seed buf =
    NOT (foldl (\<lambda>crc b. crc64_ecma_norm_table ! unat ((drop_bit 56 crc XOR ucast b) AND 0xff) XOR push_bit 8 crc)
      (NOT seed) buf)"

definition crc64_iso_refl_base :: "u64 \<Rightarrow> u8 list \<Rightarrow> u64" where
  "crc64_iso_refl_base seed buf =
    NOT (foldl (\<lambda>crc b. crc64_iso_refl_table ! unat ((ucast crc :: u8) XOR b) XOR drop_bit 8 crc)
      (NOT seed) buf)"

definition crc64_iso_norm_base :: "u64 \<Rightarrow> u8 list \<Rightarrow> u64" where
  "crc64_iso_norm_base seed buf =
    NOT (foldl (\<lambda>crc b. crc64_iso_norm_table ! unat ((drop_bit 56 crc XOR ucast b) AND 0xff) XOR push_bit 8 crc)
      (NOT seed) buf)"

definition crc64_jones_refl_base :: "u64 \<Rightarrow> u8 list \<Rightarrow> u64" where
  "crc64_jones_refl_base seed buf =
    NOT (foldl (\<lambda>crc b. crc64_jones_refl_table ! unat ((ucast crc :: u8) XOR b) XOR drop_bit 8 crc)
      (NOT seed) buf)"

definition crc64_jones_norm_base :: "u64 \<Rightarrow> u8 list \<Rightarrow> u64" where
  "crc64_jones_norm_base seed buf =
    NOT (foldl (\<lambda>crc b. crc64_jones_norm_table ! unat ((drop_bit 56 crc XOR ucast b) AND 0xff) XOR push_bit 8 crc)
      (NOT seed) buf)"

definition crc64_rocksoft_refl_base :: "u64 \<Rightarrow> u8 list \<Rightarrow> u64" where
  "crc64_rocksoft_refl_base seed buf =
    NOT (foldl (\<lambda>crc b. crc64_rocksoft_refl_table ! unat ((ucast crc :: u8) XOR b) XOR drop_bit 8 crc)
      (NOT seed) buf)"

definition crc64_rocksoft_norm_base :: "u64 \<Rightarrow> u8 list \<Rightarrow> u64" where
  "crc64_rocksoft_norm_base seed buf =
    NOT (foldl (\<lambda>crc b. crc64_rocksoft_norm_table ! unat ((drop_bit 56 crc XOR ucast b) AND 0xff) XOR push_bit 8 crc)
      (NOT seed) buf)"

section \<open>The public names (crc/crc\_base\_aliases.c)\<close>

definition crc32_iscsi :: "u8 list \<Rightarrow> u32 \<Rightarrow> u32" where
  "crc32_iscsi = crc32_iscsi_base"

definition crc16_t10dif :: "u16 \<Rightarrow> u8 list \<Rightarrow> u16 option" where
  "crc16_t10dif = crc16_t10dif_base"

definition crc16_t10dif_copy :: "u16 \<Rightarrow> u8 list \<Rightarrow> u8 list \<Rightarrow> (u16 \<times> u8 list) option" where
  "crc16_t10dif_copy = crc16_t10dif_copy_base"

definition crc32_ieee :: "u32 \<Rightarrow> u8 list \<Rightarrow> u32" where
  "crc32_ieee = crc32_ieee_base"

definition crc32_gzip_refl :: "u32 \<Rightarrow> u8 list \<Rightarrow> u32" where
  "crc32_gzip_refl = crc32_gzip_refl_base"

definition crc64_ecma_refl :: "u64 \<Rightarrow> u8 list \<Rightarrow> u64" where
  "crc64_ecma_refl = crc64_ecma_refl_base"

definition crc64_ecma_norm :: "u64 \<Rightarrow> u8 list \<Rightarrow> u64" where
  "crc64_ecma_norm = crc64_ecma_norm_base"

definition crc64_iso_refl :: "u64 \<Rightarrow> u8 list \<Rightarrow> u64" where
  "crc64_iso_refl = crc64_iso_refl_base"

definition crc64_iso_norm :: "u64 \<Rightarrow> u8 list \<Rightarrow> u64" where
  "crc64_iso_norm = crc64_iso_norm_base"

definition crc64_jones_refl :: "u64 \<Rightarrow> u8 list \<Rightarrow> u64" where
  "crc64_jones_refl = crc64_jones_refl_base"

definition crc64_jones_norm :: "u64 \<Rightarrow> u8 list \<Rightarrow> u64" where
  "crc64_jones_norm = crc64_jones_norm_base"

definition crc64_rocksoft_refl :: "u64 \<Rightarrow> u8 list \<Rightarrow> u64" where
  "crc64_rocksoft_refl = crc64_rocksoft_refl_base"

definition crc64_rocksoft_norm :: "u64 \<Rightarrow> u8 list \<Rightarrow> u64" where
  "crc64_rocksoft_norm = crc64_rocksoft_norm_base"

section \<open>Index arithmetic\<close>

text \<open>The table index, a byte of the register \<open>XOR\<close> a message byte, in the forms of the code.\<close>

lemma mask_8_ucast: "(x :: 'w::len word) AND 0xFF = ucast (ucast x :: u8)"
proof (rule bit_word_eqI)
  fix n assume n: "n < LENGTH('w)"
  have m: "(0xFF :: 'w word) = mask 8" by (simp add: mask_eq_exp_minus_1)
  show "bit (x AND 0xFF) n = bit (ucast (ucast x :: u8) :: 'w word) n"
    unfolding m using n by (auto simp: bit_simps)
qed

lemma unat_ucast_u8:
  assumes "8 \<le> LENGTH('w::len)"
  shows "unat (ucast (b :: u8) :: 'w word) = unat b"
  using assms u8_less [of b] by (simp add: unsigned_ucast_eq take_bit_nat_eq_self_iff
      order_less_le_trans [OF u8_less, of "2 ^ LENGTH('w)"] power_increasing [of 8, where a = "2 :: nat", simplified])

lemma index_norm:
  assumes "8 \<le> LENGTH('w::len)"
  shows "unat ((x XOR ucast b) AND 0xFF :: 'w word) = unat ((ucast x :: u8) XOR b)"
proof -
  have "(ucast (x XOR ucast b) :: u8) = ucast x XOR b"
    using assms by (intro bit_word_eqI) (auto simp: bit_simps)
  then show ?thesis by (simp only: mask_8_ucast unat_ucast_u8 [OF assms])
qed

lemma index_refl:
  assumes "8 \<le> LENGTH('w::len)"
  shows "unat ((x AND 0xFF) XOR ucast b :: 'w word) = unat ((ucast x :: u8) XOR b)"
proof -
  have "(x AND 0xFF) XOR ucast b = (ucast (ucast x XOR b :: u8) :: 'w word)"
    by (simp only: mask_8_ucast unsigned_xor_eq)
  then show ?thesis by (simp only: unat_ucast_u8 [OF assms])
qed

section \<open>Every table is the table of its polynomial\<close>

interpretation t10dif: crc_norm_table "0x8BB7 :: u16" crc16tab
proof
  have "iterates (crc_norm_bit (0x8BB7 :: u16)) 0x8BB7 8 =
     [0x8BB7, 0x9CD9, 0xB205, 0xEFBD, 0x54CD, 0xA99A, 0xD883, 0x3AB1]"
    by (simp add: iterates_8 crc_norm_bit_def Let_def)
  then show "crc16tab = xor_span (rev (iterates (crc_norm_bit (0x8BB7 :: u16)) 0x8BB7 8))"
    by (simp only: rev.simps crc16tab_def xor_span_eval)
qed simp_all

interpretation iscsi: crc_refl_table "0x82F63B78 :: u32" crc32_table_iscsi_refl
proof
  have "iterates (crc_refl_bit (0x82F63B78 :: u32)) 0x82F63B78 8 =
     [0x82F63B78, 0x417B1DBC, 0x20BD8EDE, 0x105EC76F, 0x8AD958CF, 0xC79A971F, 0xE13B70F7, 0xF26B8303]"
    by (simp add: iterates_8 crc_refl_bit_def Let_def)
  then show "crc32_table_iscsi_refl = xor_span (iterates (crc_refl_bit (0x82F63B78 :: u32)) 0x82F63B78 8)"
    by (simp only: crc32_table_iscsi_refl_def xor_span_eval)
qed simp_all

interpretation ieee: crc_norm_table "0x04C11DB7 :: u32" crc32_table_ieee_norm
proof
  have "iterates (crc_norm_bit (0x04C11DB7 :: u32)) 0x04C11DB7 8 =
     [0x04C11DB7, 0x09823B6E, 0x130476DC, 0x2608EDB8, 0x4C11DB70, 0x9823B6E0, 0x34867077, 0x690CE0EE]"
    by (simp add: iterates_8 crc_norm_bit_def Let_def)
  then show "crc32_table_ieee_norm = xor_span (rev (iterates (crc_norm_bit (0x04C11DB7 :: u32)) 0x04C11DB7 8))"
    by (simp only: rev.simps crc32_table_ieee_norm_def xor_span_eval)
qed simp_all

interpretation gzip: crc_refl_table "0xEDB88320 :: u32" crc32_table_gzip_refl
proof
  have "iterates (crc_refl_bit (0xEDB88320 :: u32)) 0xEDB88320 8 =
     [0xEDB88320, 0x76DC4190, 0x3B6E20C8, 0x1DB71064, 0x0EDB8832, 0x076DC419, 0xEE0E612C, 0x77073096]"
    by (simp add: iterates_8 crc_refl_bit_def Let_def)
  then show "crc32_table_gzip_refl = xor_span (iterates (crc_refl_bit (0xEDB88320 :: u32)) 0xEDB88320 8)"
    by (simp only: crc32_table_gzip_refl_def xor_span_eval)
qed simp_all

interpretation ecma_refl: crc_refl_table "0xC96C5795D7870F42 :: u64" crc64_ecma_refl_table
proof
  have "iterates (crc_refl_bit (0xC96C5795D7870F42 :: u64)) 0xC96C5795D7870F42 8 =
     [0xC96C5795D7870F42, 0x64B62BCAEBC387A1, 0xFB374270A266CC92, 0x7D9BA13851336649,
      0xF7A18709FF1EBC66, 0x7BD0C384FF8F5E33, 0xF4843657A840A05B, 0xB32E4CBE03A75F6F]"
    by (simp add: iterates_8 crc_refl_bit_def Let_def)
  then show "crc64_ecma_refl_table = xor_span (iterates (crc_refl_bit (0xC96C5795D7870F42 :: u64)) 0xC96C5795D7870F42 8)"
    by (simp only: crc64_ecma_refl_table_def xor_span_eval)
qed simp_all

interpretation ecma_norm: crc_norm_table "0x42F0E1EBA9EA3693 :: u64" crc64_ecma_norm_table
proof
  have "iterates (crc_norm_bit (0x42F0E1EBA9EA3693 :: u64)) 0x42F0E1EBA9EA3693 8 =
     [0x42F0E1EBA9EA3693, 0x85E1C3D753D46D26, 0x493366450E42ECDF, 0x9266CC8A1C85D9BE,
      0x663D78FF90E185EF, 0xCC7AF1FF21C30BDE, 0xDA050215EA6C212F, 0xF6FAE5C07D3274CD]"
    by (simp add: iterates_8 crc_norm_bit_def Let_def)
  then show "crc64_ecma_norm_table = xor_span (rev (iterates (crc_norm_bit (0x42F0E1EBA9EA3693 :: u64)) 0x42F0E1EBA9EA3693 8))"
    by (simp only: rev.simps crc64_ecma_norm_table_def xor_span_eval)
qed simp_all

interpretation iso_refl: crc_refl_table "0xD800000000000000 :: u64" crc64_iso_refl_table
proof
  have "iterates (crc_refl_bit (0xD800000000000000 :: u64)) 0xD800000000000000 8 =
     [0xD800000000000000, 0x6C00000000000000, 0x3600000000000000, 0x1B00000000000000,
      0x0D80000000000000, 0x06C0000000000000, 0x0360000000000000, 0x01B0000000000000]"
    by (simp add: iterates_8 crc_refl_bit_def Let_def)
  then show "crc64_iso_refl_table = xor_span (iterates (crc_refl_bit (0xD800000000000000 :: u64)) 0xD800000000000000 8)"
    by (simp only: crc64_iso_refl_table_def xor_span_eval)
qed simp_all

interpretation iso_norm: crc_norm_table "0x000000000000001B :: u64" crc64_iso_norm_table
proof
  have "iterates (crc_norm_bit (0x000000000000001B :: u64)) 0x000000000000001B 8 =
     [0x000000000000001B, 0x0000000000000036, 0x000000000000006C, 0x00000000000000D8,
      0x00000000000001B0, 0x0000000000000360, 0x00000000000006C0, 0x0000000000000D80]"
    by (simp add: iterates_8 crc_norm_bit_def Let_def)
  then show "crc64_iso_norm_table = xor_span (rev (iterates (crc_norm_bit (0x000000000000001B :: u64)) 0x000000000000001B 8))"
    by (simp only: rev.simps crc64_iso_norm_table_def xor_span_eval)
qed simp_all

interpretation jones_refl: crc_refl_table "0x95AC9329AC4BC9B5 :: u64" crc64_jones_refl_table
proof
  have "iterates (crc_refl_bit (0x95AC9329AC4BC9B5 :: u64)) 0x95AC9329AC4BC9B5 8 =
     [0x95AC9329AC4BC9B5, 0xDF7ADABD7A6E2D6F, 0xFA11FE77117CDF02, 0x7D08FF3B88BE6F81,
      0xAB28ECB46814FE75, 0xC038E5739841B68F, 0xF5B0E190606B12F2, 0x7AD870C830358979]"
    by (simp add: iterates_8 crc_refl_bit_def Let_def)
  then show "crc64_jones_refl_table = xor_span (iterates (crc_refl_bit (0x95AC9329AC4BC9B5 :: u64)) 0x95AC9329AC4BC9B5 8)"
    by (simp only: crc64_jones_refl_table_def xor_span_eval)
qed simp_all

interpretation jones_norm: crc_norm_table "0xAD93D23594C935A9 :: u64" crc64_jones_norm_table
proof
  have "iterates (crc_norm_bit (0xAD93D23594C935A9 :: u64)) 0xAD93D23594C935A9 8 =
     [0xAD93D23594C935A9, 0xF6B4765EBD5B5EFB, 0x40FB3E88EE7F885F, 0x81F67D11DCFF10BE,
      0xAE7F28162D3714D5, 0xF16D8219CEA71C03, 0x4F48D60609870DAF, 0x9E91AC0C130E1B5E]"
    by (simp add: iterates_8 crc_norm_bit_def Let_def)
  then show "crc64_jones_norm_table = xor_span (rev (iterates (crc_norm_bit (0xAD93D23594C935A9 :: u64)) 0xAD93D23594C935A9 8))"
    by (simp only: rev.simps crc64_jones_norm_table_def xor_span_eval)
qed simp_all

interpretation rocksoft_refl: crc_refl_table "0x9A6C9329AC4BC9B5 :: u64" crc64_rocksoft_refl_table
proof
  have "iterates (crc_refl_bit (0x9A6C9329AC4BC9B5 :: u64)) 0x9A6C9329AC4BC9B5 8 =
     [0x9A6C9329AC4BC9B5, 0xD75ADABD7A6E2D6F, 0xF1C1FE77117CDF02, 0x78E0FF3B88BE6F81,
      0xA61CECB46814FE75, 0xC962E5739841B68F, 0xFEDDE190606B12F2, 0x7F6EF0C830358979]"
    by (simp add: iterates_8 crc_refl_bit_def Let_def)
  then show "crc64_rocksoft_refl_table = xor_span (iterates (crc_refl_bit (0x9A6C9329AC4BC9B5 :: u64)) 0x9A6C9329AC4BC9B5 8)"
    by (simp only: crc64_rocksoft_refl_table_def xor_span_eval)
qed simp_all

interpretation rocksoft_norm: crc_norm_table "0xAD93D23594C93659 :: u64" crc64_rocksoft_norm_table
proof
  have "iterates (crc_norm_bit (0xAD93D23594C93659 :: u64)) 0xAD93D23594C93659 8 =
     [0xAD93D23594C93659, 0xF6B4765EBD5B5AEB, 0x40FB3E88EE7F838F, 0x81F67D11DCFF071E,
      0xAE7F28162D373865, 0xF16D8219CEA74693, 0x4F48D6060987BB7F, 0x9E91AC0C130F76FE]"
    by (simp add: iterates_8 crc_norm_bit_def Let_def)
  then show "crc64_rocksoft_norm_table = xor_span (rev (iterates (crc_norm_bit (0xAD93D23594C93659 :: u64)) 0xAD93D23594C93659 8))"
    by (simp only: rev.simps crc64_rocksoft_norm_table_def xor_span_eval)
qed simp_all

section \<open>Base and reference functions as registers\<close>

named_theorems crc_as_reg \<open>a CRC function as the register of its interpretation\<close>

lemma length_16_32_64:
  "LENGTH(16) - 8 = 8" "LENGTH(32) - 8 = 24" "LENGTH(64) - 8 = 56"
  by simp_all

lemmas index_64 = index_norm [where ?'w = 64, simplified]
lemmas index_32 = index_norm [where ?'w = 32, simplified]
lemmas index_16 = index_norm [where ?'w = 16, simplified]
lemmas index_32r = index_refl [where ?'w = 32, simplified]

lemma crc16_t10dif_loop_reg [crc_as_reg]: "crc16_t10dif_loop seed buf = t10dif.reg seed buf"
  by (simp only: crc16_t10dif_loop_def t10dif.table_loop [unfolded length_16_32_64, symmetric] index_16 length_16_32_64
      xor.commute [of "push_bit 8 _"])

lemma crc32_iscsi_base_reg [crc_as_reg]: "crc32_iscsi_base buf seed = iscsi.reg seed buf"
  by (simp only: crc32_iscsi_base_def iscsi.table_loop [symmetric] index_32r
      xor.commute [of "drop_bit 8 _"])

lemma crc32_ieee_base_reg [crc_as_reg]: "crc32_ieee_base seed buf = NOT (ieee.reg (NOT seed) buf)"
  by (simp only: crc32_ieee_base_def ieee.table_loop [unfolded length_16_32_64, symmetric] index_32 length_16_32_64
      xor.commute [of "push_bit 8 _"])

lemma crc32_gzip_refl_base_reg [crc_as_reg]:
  "crc32_gzip_refl_base seed buf = NOT (gzip.reg (NOT seed) buf)"
  by (simp only: crc32_gzip_refl_base_def gzip.table_loop [symmetric] index_32r
      xor.commute [of "drop_bit 8 _"])

lemma crc32_iscsi_ref_reg [crc_as_reg]: "crc32_iscsi_ref buf seed = iscsi.reg seed buf"
  by (simp only: crc32_iscsi_ref_def iscsi.reg_def crc32_iscsi_ref_bit_eq MAX_ITER_def)

lemma crc16_t10dif_ref_loop_reg [crc_as_reg]: "crc16_t10dif_ref_loop seed buf = t10dif.reg seed buf"
proof -
  have "ucast (foldl (\<lambda>rem b. (crc16_t10dif_ref_bit ^^ MAX_ITER) (rem XOR push_bit 8 (ucast b))) rem buf)
      = t10dif.reg (ucast rem) buf" for rem
  proof (induction buf arbitrary: rem)
    case (Cons b buf)
    have "(ucast (push_bit 8 (ucast b :: u64)) :: u16) = push_bit 8 (ucast b)"
      by (rule bit_word_eqI) (auto simp: bit_simps)
    with Cons show ?case
      by (simp add: t10dif.reg_Cons [unfolded length_16_32_64] crc16_t10dif_ref_bits_ucast MAX_ITER_def unsigned_xor_eq)
  qed (simp add: t10dif.reg_Nil [unfolded length_16_32_64])
  moreover have "ucast (ucast r :: u64) = r" for r :: u16
    by (rule bit_word_eqI) (auto simp: bit_simps)
  ultimately show ?thesis by (simp add: crc16_t10dif_ref_loop_def)
qed

lemma crc32_ieee_ref_loop_reg [crc_as_reg]: "crc32_ieee_ref_loop seed buf = NOT (ieee.reg (NOT seed) buf)"
proof -
  have "ucast (foldl (\<lambda>rem b. (crc32_ieee_ref_bit ^^ MAX_ITER) (rem XOR push_bit 24 (ucast b))) rem buf)
      = ieee.reg (ucast rem) buf" for rem
  proof (induction buf arbitrary: rem)
    case (Cons b buf)
    have "(ucast (push_bit 24 (ucast b :: u64)) :: u32) = push_bit 24 (ucast b)"
      by (rule bit_word_eqI) (auto simp: bit_simps)
    with Cons show ?case
      by (simp add: ieee.reg_Cons [unfolded length_16_32_64] crc32_ieee_ref_bits_ucast MAX_ITER_def unsigned_xor_eq)
  qed (simp add: ieee.reg_Nil [unfolded length_16_32_64])
  moreover have "(ucast (NOT r) :: u32) = NOT (ucast r)" for r :: u64
    by (rule bit_word_eqI) (auto simp: bit_simps)
  moreover have "ucast (ucast r :: u64) = r" for r :: u32
    by (rule bit_word_eqI) (auto simp: bit_simps)
  ultimately show ?thesis by (simp add: crc32_ieee_ref_loop_def)
qed

lemma crc32_gzip_refl_ref_loop_reg [crc_as_reg]:
  "crc32_gzip_refl_ref_loop seed buf = NOT (gzip.reg (NOT seed) buf)"
proof -
  have "foldl (\<lambda>rem b. (crc32_gzip_refl_ref_bit ^^ MAX_ITER) (rem XOR ucast b)) (ucast r) buf
      = (ucast (gzip.reg r buf) :: u64)" for r :: u32
  proof (induction buf arbitrary: r)
    case (Cons b buf)
    have "(ucast r XOR ucast b :: u64) = ucast (r XOR ucast b)"
      by (rule bit_word_eqI) (auto simp: bit_simps dest: u8_bit bit_imp_le_length)
    with Cons show ?case
      by (simp add: gzip.reg_Cons crc32_gzip_refl_ref_bits_ucast MAX_ITER_def)
  qed simp
  moreover have "(ucast (NOT (ucast r :: u64)) :: u32) = NOT r" for r :: u32
    by (rule bit_word_eqI) (auto simp: bit_simps)
  ultimately show ?thesis by (simp add: crc32_gzip_refl_ref_loop_def)
qed

lemma crc64_ecma_refl_base_reg [crc_as_reg]: "crc64_ecma_refl_base seed buf = NOT (ecma_refl.reg (NOT seed) buf)"
  by (simp only: crc64_ecma_refl_base_def ecma_refl.table_loop [symmetric])

lemma crc64_ecma_refl_ref_reg [crc_as_reg]: "crc64_ecma_refl_ref seed buf = NOT (ecma_refl.reg (NOT seed) buf)"
  by (simp only: crc64_ecma_refl_ref_def ecma_refl.reg_def crc64_refl_ref_bit_eq MAX_ITER_def)

lemma crc64_ecma_norm_base_reg [crc_as_reg]: "crc64_ecma_norm_base seed buf = NOT (ecma_norm.reg (NOT seed) buf)"
  by (simp only: crc64_ecma_norm_base_def ecma_norm.table_loop [unfolded length_16_32_64, symmetric] index_64 length_16_32_64)

lemma crc64_ecma_norm_ref_reg [crc_as_reg]: "crc64_ecma_norm_ref seed buf = NOT (ecma_norm.reg (NOT seed) buf)"
  by (simp only: crc64_ecma_norm_ref_def ecma_norm.reg_def [unfolded length_16_32_64] crc64_norm_ref_bit_eq MAX_ITER_def length_16_32_64)

lemma crc64_iso_refl_base_reg [crc_as_reg]: "crc64_iso_refl_base seed buf = NOT (iso_refl.reg (NOT seed) buf)"
  by (simp only: crc64_iso_refl_base_def iso_refl.table_loop [symmetric])

lemma crc64_iso_refl_ref_reg [crc_as_reg]: "crc64_iso_refl_ref seed buf = NOT (iso_refl.reg (NOT seed) buf)"
  by (simp only: crc64_iso_refl_ref_def iso_refl.reg_def crc64_refl_ref_bit_eq MAX_ITER_def)

lemma crc64_iso_norm_base_reg [crc_as_reg]: "crc64_iso_norm_base seed buf = NOT (iso_norm.reg (NOT seed) buf)"
  by (simp only: crc64_iso_norm_base_def iso_norm.table_loop [unfolded length_16_32_64, symmetric] index_64 length_16_32_64)

lemma crc64_iso_norm_ref_reg [crc_as_reg]: "crc64_iso_norm_ref seed buf = NOT (iso_norm.reg (NOT seed) buf)"
  by (simp only: crc64_iso_norm_ref_def iso_norm.reg_def [unfolded length_16_32_64] crc64_norm_ref_bit_eq MAX_ITER_def length_16_32_64)

lemma crc64_jones_refl_base_reg [crc_as_reg]: "crc64_jones_refl_base seed buf = NOT (jones_refl.reg (NOT seed) buf)"
  by (simp only: crc64_jones_refl_base_def jones_refl.table_loop [symmetric])

lemma crc64_jones_refl_ref_reg [crc_as_reg]: "crc64_jones_refl_ref seed buf = NOT (jones_refl.reg (NOT seed) buf)"
  by (simp only: crc64_jones_refl_ref_def jones_refl.reg_def crc64_refl_ref_bit_eq MAX_ITER_def)

lemma crc64_jones_norm_base_reg [crc_as_reg]: "crc64_jones_norm_base seed buf = NOT (jones_norm.reg (NOT seed) buf)"
  by (simp only: crc64_jones_norm_base_def jones_norm.table_loop [unfolded length_16_32_64, symmetric] index_64 length_16_32_64)

lemma crc64_jones_norm_ref_reg [crc_as_reg]: "crc64_jones_norm_ref seed buf = NOT (jones_norm.reg (NOT seed) buf)"
  by (simp only: crc64_jones_norm_ref_def jones_norm.reg_def [unfolded length_16_32_64] crc64_norm_ref_bit_eq MAX_ITER_def length_16_32_64)

lemma crc64_rocksoft_refl_base_reg [crc_as_reg]: "crc64_rocksoft_refl_base seed buf = NOT (rocksoft_refl.reg (NOT seed) buf)"
  by (simp only: crc64_rocksoft_refl_base_def rocksoft_refl.table_loop [symmetric])

lemma crc64_rocksoft_refl_ref_reg [crc_as_reg]: "crc64_rocksoft_refl_ref seed buf = NOT (rocksoft_refl.reg (NOT seed) buf)"
  by (simp only: crc64_rocksoft_refl_ref_def rocksoft_refl.reg_def crc64_refl_ref_bit_eq MAX_ITER_def)

lemma crc64_rocksoft_norm_base_reg [crc_as_reg]: "crc64_rocksoft_norm_base seed buf = NOT (rocksoft_norm.reg (NOT seed) buf)"
  by (simp only: crc64_rocksoft_norm_base_def rocksoft_norm.table_loop [unfolded length_16_32_64, symmetric] index_64 length_16_32_64)

lemma crc64_rocksoft_norm_ref_reg [crc_as_reg]: "crc64_rocksoft_norm_ref seed buf = NOT (rocksoft_norm.reg (NOT seed) buf)"
  by (simp only: crc64_rocksoft_norm_ref_def rocksoft_norm.reg_def [unfolded length_16_32_64] crc64_norm_ref_bit_eq MAX_ITER_def length_16_32_64)

end
