(* ===== verification/CRC_Correct.thy ===== *)
theory CRC_Correct
  imports CRC_Base
begin

text \<open>
  The correctness properties of the CRC component: the table-driven functions compute the
  bitwise reference functions, a CRC can be continued from the CRC of a prefix, the copying
  variant copies, and errors confined to a window of the register's width are detected.
\<close>

section \<open>Copying loops\<close>

lemma foldl_copy:
  "foldl (\<lambda>(r, dst) (i, b). (f r b, dst[i := b])) (r, dst) (enumerate n src)
    = (foldl f r src, foldl (\<lambda>dst (i, b). dst[i := b]) dst (enumerate n src))"
  by (induction src arbitrary: r dst n) simp_all

lemma foldl_update:
  "n + length src \<le> length dst \<Longrightarrow>
    foldl (\<lambda>dst (i, b). dst[i := b]) dst (enumerate n src)
      = take n dst @ src @ drop (n + length src) dst"
proof (induction src arbitrary: dst n)
  case Nil
  then show ?case by simp
next
  case (Cons b src)
  then have "foldl (\<lambda>dst (i, b). dst[i := b]) (dst[n := b]) (enumerate (Suc n) src)
      = take (Suc n) (dst[n := b]) @ src @ drop (Suc n + length src) (dst[n := b])"
    by simp
  also have "take (Suc n) (dst[n := b]) = take n dst @ [b]"
    using Cons.prems by (simp add: take_Suc_conv_app_nth)
  also have "drop (Suc n + length src) (dst[n := b]) = drop (n + length (b # src)) dst"
    by simp
  finally show ?case by simp
qed

section \<open>Properties\<close>

text \<open>C18: for every seed and every buffer below 2 GiB the table-driven CRC-16 and CRC-32 functions
  (T10-DIF, IEEE, gzip, iSCSI) return the value of the bit-by-bit reference function. (The
  T10-DIF loop counts with an \<open>int\<close> and has no value from 2 GiB on, as the last conjunct says;
  the length of the iSCSI function is an \<open>int\<close>.)\<close>

theorem crc32_base_equals_ref:
  "(length buf < 2 ^ 31 \<longrightarrow>
      crc16_t10dif_base seed16 buf = crc16_t10dif_ref seed16 buf
      \<and> crc16_t10dif_base seed16 buf \<noteq> None
      \<and> crc32_gzip_refl_ref seed buf = Some (crc32_gzip_refl_base seed buf)
      \<and> crc32_iscsi_base buf seed = crc32_iscsi_ref buf seed)
    \<and> (length buf < 2 ^ 32 \<longrightarrow> crc32_ieee_ref seed buf = Some (crc32_ieee_base seed buf))
    \<and> (2 ^ 31 \<le> length buf \<longrightarrow> crc16_t10dif_base seed16 buf = None)"
  by (simp only: crc16_t10dif_base_def crc16_t10dif_ref_def crc32_gzip_refl_ref_def
      crc32_ieee_ref_def crc_as_reg) simp

theorem crc32_base_equals_ref_witness:
  "crc16_t10dif_base 5 [1, 2, 3] = crc16_t10dif_ref 5 [1, 2, 3]
    \<and> crc32_ieee_ref 5 [1, 2, 3] = Some (crc32_ieee_base 5 [1, 2, 3])"
  using crc32_base_equals_ref [of "[1, 2, 3]" 5 5] by simp

text \<open>C19: the eight table-driven CRC-64 functions (ECMA, ISO, Jones, Rocksoft, each in normal and
  reflected order) return the value of the bit-by-bit reference function.\<close>

theorem crc64_base_equals_ref:
  "crc64_ecma_refl_base seed buf = crc64_ecma_refl_ref seed buf
    \<and> crc64_ecma_norm_base seed buf = crc64_ecma_norm_ref seed buf
    \<and> crc64_iso_refl_base seed buf = crc64_iso_refl_ref seed buf
    \<and> crc64_iso_norm_base seed buf = crc64_iso_norm_ref seed buf
    \<and> crc64_jones_refl_base seed buf = crc64_jones_refl_ref seed buf
    \<and> crc64_jones_norm_base seed buf = crc64_jones_norm_ref seed buf
    \<and> crc64_rocksoft_refl_base seed buf = crc64_rocksoft_refl_ref seed buf
    \<and> crc64_rocksoft_norm_base seed buf = crc64_rocksoft_norm_ref seed buf"
  by (intro conjI) (simp_all only: crc_as_reg)

text \<open>C35: continuing a CRC from the CRC of a prefix gives the CRC of the whole buffer, for every
  public CRC function (the seed inversion of the inverting ones cancels). The T10-DIF function
  counts with an \<open>int\<close> and the iSCSI function has an \<open>int\<close> length, so they are claimed for
  buffers below 2 GiB; the T10-DIF calls then all have a value.\<close>

theorem crc_continues:
  "(length (a @ b) < 2 ^ 31 \<longrightarrow>
      crc16_t10dif seed16 (a @ b) = Option.bind (crc16_t10dif seed16 a) (\<lambda>crc. crc16_t10dif crc b)
      \<and> crc16_t10dif seed16 (a @ b) \<noteq> None
      \<and> crc32_iscsi (a @ b) seed = crc32_iscsi b (crc32_iscsi a seed))
    \<and> crc32_ieee seed (a @ b) = crc32_ieee (crc32_ieee seed a) b
    \<and> crc32_gzip_refl seed (a @ b) = crc32_gzip_refl (crc32_gzip_refl seed a) b
    \<and> crc64_ecma_refl seed64 (a @ b) = crc64_ecma_refl (crc64_ecma_refl seed64 a) b
    \<and> crc64_ecma_norm seed64 (a @ b) = crc64_ecma_norm (crc64_ecma_norm seed64 a) b
    \<and> crc64_iso_refl seed64 (a @ b) = crc64_iso_refl (crc64_iso_refl seed64 a) b
    \<and> crc64_iso_norm seed64 (a @ b) = crc64_iso_norm (crc64_iso_norm seed64 a) b
    \<and> crc64_jones_refl seed64 (a @ b) = crc64_jones_refl (crc64_jones_refl seed64 a) b
    \<and> crc64_jones_norm seed64 (a @ b) = crc64_jones_norm (crc64_jones_norm seed64 a) b
    \<and> crc64_rocksoft_refl seed64 (a @ b) = crc64_rocksoft_refl (crc64_rocksoft_refl seed64 a) b
    \<and> crc64_rocksoft_norm seed64 (a @ b) = crc64_rocksoft_norm (crc64_rocksoft_norm seed64 a) b"
  by (simp only: crc16_t10dif_def crc16_t10dif_base_def crc32_iscsi_def crc32_ieee_def crc32_gzip_refl_def
      crc64_ecma_refl_def crc64_ecma_norm_def crc64_iso_refl_def
      crc64_iso_norm_def crc64_jones_refl_def crc64_jones_norm_def
      crc64_rocksoft_refl_def crc64_rocksoft_norm_def
      crc_as_reg not_not_word t10dif.reg_append iscsi.reg_append ieee.reg_append gzip.reg_append
      ecma_refl.reg_append ecma_norm.reg_append iso_refl.reg_append
      iso_norm.reg_append jones_refl.reg_append jones_norm.reg_append
      rocksoft_refl.reg_append rocksoft_norm.reg_append simp_thms) simp

theorem crc_continues_witness:
  "crc16_t10dif 5 ([1, 2] @ [3]) = Option.bind (crc16_t10dif 5 [1, 2]) (\<lambda>crc. crc16_t10dif crc [3])
    \<and> crc32_iscsi ([1, 2] @ [3]) 7 = crc32_iscsi [3] (crc32_iscsi [1, 2] 7)"
  using crc_continues [of "[1, 2]" "[3]" 5 7 0] by simp

text \<open>The copying T10-DIF CRC returns the CRC of the source and leaves the destination with the
  source in its first bytes and the rest unchanged, as the copying reference does.\<close>

theorem crc16_t10dif_copy_correct:
  assumes "length src \<le> length dst" and "length src < 2 ^ 31"
  shows "\<exists>crc. crc16_t10dif_base seed src = Some crc
      \<and> crc16_t10dif_copy_base seed dst src = Some (crc, src @ drop (length src) dst)
      \<and> crc16_t10dif_copy_ref seed dst src = Some (crc, src @ drop (length src) dst)"
proof -
  have "crc16_t10dif_copy_loop seed dst src
      = (crc16_t10dif_loop seed src, src @ drop (length src) dst)"
    using assms by (simp add: crc16_t10dif_copy_loop_def crc16_t10dif_loop_def foldl_copy
        foldl_update [of 0])
  moreover have "crc16_t10dif_copy_ref_loop seed dst src
      = (crc16_t10dif_loop seed src, src @ drop (length src) dst)"
    using assms by (simp add: crc16_t10dif_copy_ref_loop_def foldl_copy foldl_update [of 0])
      (simp only: crc_as_reg flip: crc16_t10dif_ref_loop_def)
  ultimately show ?thesis
    using assms by (simp add: crc16_t10dif_copy_base_def crc16_t10dif_base_def
        crc16_t10dif_copy_ref_def)
qed

theorem crc16_t10dif_copy_correct_witness:
  "\<exists>crc. crc16_t10dif_copy_base 0 [9, 9, 9] [1, 2] = Some (crc, [1, 2, 9])"
  using crc16_t10dif_copy_correct [of "[1, 2]" "[9, 9, 9]" 0] by auto

text \<open>C36: every CRC-16 and CRC-32 detects every error burst that fits its register: two messages
  that differ only inside a window of at most 2 (CRC-16) or 4 bytes (CRC-32) never have the
  same CRC, whatever the seed and the bytes around the window. For the T10-DIF and iSCSI
  functions the messages are below 2 GiB, and the T10-DIF CRC then has a value.\<close>

theorem crc32_detects_bursts:
  assumes "length x = length y" and "x \<noteq> y"
  shows "(length x \<le> 2 \<and> length (pre @ x @ post) < 2 ^ 31 \<longrightarrow>
      (\<exists>cx cy. crc16_t10dif_base seed16 (pre @ x @ post) = Some cx
        \<and> crc16_t10dif_base seed16 (pre @ y @ post) = Some cy \<and> cx \<noteq> cy))
    \<and> (length x \<le> 4 \<and> length (pre @ x @ post) < 2 ^ 31 \<longrightarrow>
      crc32_iscsi_base (pre @ x @ post) seed \<noteq> crc32_iscsi_base (pre @ y @ post) seed)
    \<and> (length x \<le> 4 \<longrightarrow>
      crc32_ieee_base seed (pre @ x @ post) \<noteq> crc32_ieee_base seed (pre @ y @ post)
      \<and> crc32_gzip_refl_base seed (pre @ x @ post) \<noteq> crc32_gzip_refl_base seed (pre @ y @ post))"
  using assms t10dif.burst_detected [of x y] ieee.burst_detected [of x y]
    gzip.burst_detected [of x y] iscsi.burst_detected [of x y]
  by (simp add: crc_as_reg crc16_t10dif_base_def not_inject_word)

theorem crc32_detects_bursts_witness:
  "crc16_t10dif_base 7 ([1] @ [2, 3] @ [4]) \<noteq> crc16_t10dif_base 7 ([1] @ [2, 5] @ [4])
    \<and> crc32_gzip_refl_base 7 ([1] @ [2, 3] @ [4]) \<noteq> crc32_gzip_refl_base 7 ([1] @ [2, 5] @ [4])"
  using crc32_detects_bursts [of "[2, 3]" "[2, 5]" "[1]" "[4]" 7 7] by auto

text \<open>C37: every CRC-64 detects every error burst of at most 8 bytes.\<close>

theorem crc64_detects_bursts:
  assumes "length x = length y" and "x \<noteq> y" and "length x \<le> 8"
  shows "crc64_ecma_refl_base seed (pre @ x @ post) \<noteq> crc64_ecma_refl_base seed (pre @ y @ post)
    \<and> crc64_ecma_norm_base seed (pre @ x @ post) \<noteq> crc64_ecma_norm_base seed (pre @ y @ post)
    \<and> crc64_iso_refl_base seed (pre @ x @ post) \<noteq> crc64_iso_refl_base seed (pre @ y @ post)
    \<and> crc64_iso_norm_base seed (pre @ x @ post) \<noteq> crc64_iso_norm_base seed (pre @ y @ post)
    \<and> crc64_jones_refl_base seed (pre @ x @ post) \<noteq> crc64_jones_refl_base seed (pre @ y @ post)
    \<and> crc64_jones_norm_base seed (pre @ x @ post) \<noteq> crc64_jones_norm_base seed (pre @ y @ post)
    \<and> crc64_rocksoft_refl_base seed (pre @ x @ post) \<noteq> crc64_rocksoft_refl_base seed (pre @ y @ post)
    \<and> crc64_rocksoft_norm_base seed (pre @ x @ post) \<noteq> crc64_rocksoft_norm_base seed (pre @ y @ post)"
  using assms ecma_refl.burst_detected [of x y]
    ecma_norm.burst_detected [of x y]
    iso_refl.burst_detected [of x y]
    iso_norm.burst_detected [of x y]
    jones_refl.burst_detected [of x y]
    jones_norm.burst_detected [of x y]
    rocksoft_refl.burst_detected [of x y]
    rocksoft_norm.burst_detected [of x y]
  by (simp add: crc_as_reg not_inject_word)

theorem crc64_detects_bursts_witness:
  "crc64_ecma_refl_base 0 ([1] @ [2, 3] @ [4]) \<noteq> crc64_ecma_refl_base 0 ([1] @ [2, 5] @ [4])"
  using crc64_detects_bursts [of "[2, 3]" "[2, 5]" 0 "[1]" "[4]"] by simp

end
