(* ===== verification/Mem_Zero.thy ===== *)
theory Mem_Zero
  imports Unaligned
begin

text \<open>
  The zero-detection of \<open>mem/mem_zero_detect_base.c\<close>: words of eight bytes first, then the
  remaining bytes by the fall-through switch. The buffer is the list of its \<open>n\<close> bytes.
\<close>

definition mem_zero_tail :: "u8 list \<Rightarrow> u64" where
  "mem_zero_tail c =
    (let n = length c in
     if n = 7 then ucast (c ! 0) OR ucast (c ! 1) OR ucast (c ! 2) OR ucast (load_le_u32 (drop 3 c))
     else if n = 6 then ucast (c ! 0) OR ucast (c ! 1) OR ucast (load_le_u32 (drop 2 c))
     else if n = 5 then ucast (c ! 0) OR ucast (load_le_u32 (drop 1 c))
     else if n = 4 then ucast (load_le_u32 c)
     else if n = 3 then ucast (c ! 0) OR ucast (load_le_u16 (drop 1 c))
     else if n = 2 then ucast (load_le_u16 c)
     else if n = 1 then ucast (c ! 0)
     else 0)"

function mem_zero_detect_base :: "u8 list \<Rightarrow> int" where
  "mem_zero_detect_base c =
    (if 8 \<le> length c then
       (if load_le_umax c \<noteq> 0 then - 1 else mem_zero_detect_base (drop 8 c))
     else if mem_zero_tail c = 0 then 0 else - 1)"
  by pat_completeness auto
termination
  by (relation "measure length") auto

declare mem_zero_detect_base.simps [simp del]

lemma ucast_eq_0_up:
  assumes "LENGTH('a::len) \<le> LENGTH('b::len)"
  shows "(ucast (x :: 'a word) :: 'b word) = 0 \<longleftrightarrow> x = 0"
proof
  assume 0: "(ucast x :: 'b word) = 0"
  show "x = 0"
  proof (rule bit_word_eqI)
    fix n assume "n < LENGTH('a)"
    then have "bit x n = bit (ucast x :: 'b word) n" using assms by (simp add: bit_simps)
    then show "bit x n = bit 0 n" by (simp add: 0)
  qed
qed simp

lemma length_less_8_cases:
  assumes "length c < 8"
  obtains "c = []" | a where "c = [a]" | a b where "c = [a, b]" | a b d where "c = [a, b, d]"
  | a b d e where "c = [a, b, d, e]" | a b d e f where "c = [a, b, d, e, f]"
  | a b d e f g where "c = [a, b, d, e, f, g]" | a b d e f g h where "c = [a, b, d, e, f, g, h]"
proof -
  have "length c = 0 \<or> length c = 1 \<or> length c = 2 \<or> length c = 3 \<or> length c = 4 \<or> length c = 5
      \<or> length c = 6 \<or> length c = 7"
    using assms by linarith
  then show ?thesis
    using that by (auto simp: length_Suc_conv numeral_eq_Suc)
qed

lemma mem_zero_tail_eq_0:
  assumes "length c < 8"
  shows "mem_zero_tail c = 0 \<longleftrightarrow> (\<forall>b \<in> set c. b = 0)"
  using assms
  by (cases rule: length_less_8_cases)
    (simp_all add: mem_zero_tail_def or_eq_0_iff ucast_eq_0_up load_le_u32_def load_le_u16_def le_word_eq_0
      del: le_word.simps)

text \<open>C39: the zero detector returns 0 exactly for the buffers all of whose bytes are zero, and -1
  for every other buffer, for every length.\<close>

theorem mem_zero_detect_correct:
  "mem_zero_detect_base c = (if \<forall>b \<in> set c. b = 0 then 0 else - 1)"
proof (induction c rule: mem_zero_detect_base.induct)
  case (1 c)
  show ?case
  proof (cases "8 \<le> length c")
    case True
    then have z: "load_le_umax c = 0 \<longleftrightarrow> (\<forall>b \<in> set (take 8 c). b = 0)"
      by (simp add: load_le_umax_def load_le_u64_def le_word_eq_0)
    have s: "set c = set (take 8 c) \<union> set (drop 8 c)"
      by (metis append_take_drop_id set_append)
    show ?thesis
    proof (cases "load_le_umax c = 0")
      case zero: True
      with True "1.IH" have "mem_zero_detect_base c = mem_zero_detect_base (drop 8 c)"
        by (simp add: mem_zero_detect_base.simps [of c])
      with "1.IH" True zero z s show ?thesis by auto
    next
      case False
      with True have "mem_zero_detect_base c = - 1" by (simp add: mem_zero_detect_base.simps [of c])
      with False z s show ?thesis by auto
    qed
  next
    case False
    then show ?thesis
      by (simp add: mem_zero_detect_base.simps [of c] mem_zero_tail_eq_0)
  qed
qed

theorem mem_zero_detect_correct_witness:
  "mem_zero_detect_base (replicate 9 0 @ [1, 0]) = - 1 \<and> mem_zero_detect_base (replicate 13 0) = 0"
  unfolding mem_zero_detect_correct by simp

end
