(* ===== verification/Adler32.thy ===== *)
theory Adler32
  imports Unaligned
begin

text \<open>
  Adler-32: \<open>adler32_base\<close> of \<open>igzip/adler32_base.c\<close> with its 64-bit accumulators reduced
  only every \<open>MAX_ADLER_BUF\<close> bytes, the variant \<open>isal_adler32_bam1\<close> of
  \<open>igzip/igzip.c\<close> that stores the low half minus one, and \<open>finalize_adler32\<close> of
  \<open>igzip/igzip_inflate.c\<close>. The specification is the byte-at-a-time sum of RFC 1950 on
  natural numbers.
\<close>

section \<open>The code\<close>

definition ADLER_MOD :: nat where
  "ADLER_MOD = 65521"

definition MAX_ADLER_BUF :: nat where
  "MAX_ADLER_BUF = 268435456"

definition adler32_sum :: "u64 \<times> u64 \<Rightarrow> u8 list \<Rightarrow> u64 \<times> u64" where
  "adler32_sum = foldl (\<lambda>(A, B) x. let A = A + ucast x; B = B + A in (A, B))"

definition adler32_reduce :: "u64 \<times> u64 \<Rightarrow> u64 \<times> u64" where
  "adler32_reduce = (\<lambda>(A, B). (A mod of_nat ADLER_MOD, B mod of_nat ADLER_MOD))"

function adler32_chunks :: "u64 \<times> u64 \<Rightarrow> u8 list \<Rightarrow> u64 \<times> u64" where
  "adler32_chunks AB next =
    (if MAX_ADLER_BUF < length next
     then adler32_chunks (adler32_reduce (adler32_sum AB (take MAX_ADLER_BUF next)))
       (drop MAX_ADLER_BUF next)
     else adler32_reduce (adler32_sum AB next))"
  by pat_completeness auto
termination
  by (relation "measure (\<lambda>(AB, next). length next)") (auto simp: MAX_ADLER_BUF_def)

declare adler32_chunks.simps [simp del]

definition adler32_base :: "u32 \<Rightarrow> u8 list \<Rightarrow> u32" where
  "adler32_base adler32 start =
    (let (A, B) = adler32_chunks (ucast (adler32 AND 0xffff), ucast (drop_bit 16 adler32)) start
     in ucast (push_bit 16 B OR A))"

definition isal_adler32 :: "u32 \<Rightarrow> u8 list \<Rightarrow> u32" where
  "isal_adler32 = adler32_base"

definition isal_adler32_bam1 :: "u32 \<Rightarrow> u8 list \<Rightarrow> u32" where
  "isal_adler32_bam1 adler32 start =
    (let a = adler32 AND 0xffff;
         a = (if a = of_nat ADLER_MOD - 1 then 0 else a + 1);
         adler32 = isal_adler32 ((adler32 AND 0xffff0000) OR a) start;
         a = adler32 AND 0xffff;
         a = (if a = 0 then of_nat ADLER_MOD - 1 else a - 1)
     in (adler32 AND 0xffff0000) OR a)"

definition finalize_adler32 :: "u32 \<Rightarrow> u32" where
  "finalize_adler32 crc =
    (crc AND 0xffff0000) OR (((crc AND 0xffff) + 1) mod of_nat ADLER_MOD)"

section \<open>The specification\<close>

definition adler_step :: "nat \<times> nat \<Rightarrow> u8 \<Rightarrow> nat \<times> nat" where
  "adler_step = (\<lambda>(a, b) x. let a = (a + unat x) mod ADLER_MOD in (a, (b + a) mod ADLER_MOD))"

definition adler_spec :: "nat \<times> nat \<Rightarrow> u8 list \<Rightarrow> nat \<times> nat" where
  "adler_spec = foldl adler_step"

definition adler_pack :: "nat \<times> nat \<Rightarrow> u32" where
  "adler_pack = (\<lambda>(a, b). of_nat (b * 65536 + a))"

definition adler_unpack :: "u32 \<Rightarrow> nat \<times> nat" where
  "adler_unpack w = (unat w mod 65536 mod ADLER_MOD, unat w div 65536 mod ADLER_MOD)"

section \<open>The accumulators never wrap\<close>

text \<open>The same sum on naturals, without reduction.\<close>

definition adler_raw :: "nat \<times> nat \<Rightarrow> u8 list \<Rightarrow> nat \<times> nat" where
  "adler_raw = foldl (\<lambda>(a, b) x. (a + unat x, b + (a + unat x)))"

lemma adler_raw_Nil [simp]: "adler_raw p [] = p"
  by (simp add: adler_raw_def)

lemma adler_raw_Cons [simp]: "adler_raw (a, b) (x # xs) = adler_raw (a + unat x, b + (a + unat x)) xs"
  by (simp add: adler_raw_def)

lemma adler_raw_bound:
  "fst (adler_raw (a, b) xs) \<le> a + 255 * length xs
    \<and> snd (adler_raw (a, b) xs) \<le> b + length xs * (a + 255 * length xs)"
proof (induction xs arbitrary: a b)
  case Nil
  then show ?case by simp
next
  case (Cons x xs)
  let ?n = "length xs"
  have x: "unat x \<le> 255" using u8_less [of x] by simp
  have 1: "fst (adler_raw (a, b) (x # xs)) \<le> (a + unat x) + 255 * ?n"
    using Cons by simp
  have 2: "snd (adler_raw (a, b) (x # xs)) \<le> (b + (a + unat x)) + ?n * (a + unat x + 255 * ?n)"
    using Cons by simp
  have "?n * (a + unat x + 255 * ?n) \<le> ?n * (a + 255 * Suc ?n)"
    using x by (intro mult_le_mono2) simp
  then have "(b + (a + unat x)) + ?n * (a + unat x + 255 * ?n)
      \<le> b + (a + 255 * Suc ?n) + ?n * (a + 255 * Suc ?n)"
    using x by (intro add_mono) simp_all
  also have "\<dots> = b + Suc ?n * (a + 255 * Suc ?n)" by simp
  finally show ?case using 1 2 x by (auto simp del: adler_raw_Cons)
qed

definition adler_fits :: "nat \<times> nat \<Rightarrow> u8 list \<Rightarrow> bool" where
  "adler_fits p xs \<longleftrightarrow> (\<forall>k \<le> length xs. fst (adler_raw p (take k xs)) < 2 ^ 64
    \<and> snd (adler_raw p (take k xs)) < 2 ^ 64)"

lemma adler_fits_Cons:
  assumes "adler_fits (a, b) (x # xs)"
  shows "adler_fits (a + unat x, b + (a + unat x)) xs"
    and "a + unat x < 2 ^ 64" "b + (a + unat x) < 2 ^ 64"
proof -
  have k: "fst (adler_raw (a, b) (take (Suc k) (x # xs))) < 2 ^ 64
    \<and> snd (adler_raw (a, b) (take (Suc k) (x # xs))) < 2 ^ 64" if "k \<le> length xs" for k
    using assms that unfolding adler_fits_def by (metis Suc_le_mono length_Cons)
  from k show "adler_fits (a + unat x, b + (a + unat x)) xs"
    by (simp add: adler_fits_def)
  from k [of 0] show "a + unat x < 2 ^ 64" "b + (a + unat x) < 2 ^ 64" by simp_all
qed

lemma unat_add_64: "unat a + unat b < 2 ^ 64 \<Longrightarrow> unat (a + b :: u64) = unat a + unat b"
  by (simp add: unat_word_ariths)

lemma unat_ucast_8_64: "unat (ucast (x :: u8) :: u64) = unat x"
proof -
  have "unat x < 2 ^ 64" using u8_less [of x] by simp
  then show ?thesis by (simp add: unsigned_ucast_eq take_bit_nat_eq_self_iff)
qed

lemma adler32_sum_raw:
  assumes "adler_fits (unat A, unat B) xs"
  shows "map_prod unat unat (adler32_sum (A, B) xs) = adler_raw (unat A, unat B) xs"
  using assms
proof (induction xs arbitrary: A B)
  case Nil
  then show ?case by (simp add: adler32_sum_def)
next
  case (Cons x xs)
  note f = adler_fits_Cons [OF Cons.prems]
  have A: "unat (A + ucast x) = unat A + unat x"
    using f(2) by (subst unat_add_64) (simp_all add: unat_ucast_8_64)
  have B: "unat (B + (A + ucast x)) = unat B + (unat A + unat x)"
    using f(3) by (subst unat_add_64) (simp_all add: A)
  have "adler_fits (unat (A + ucast x), unat (B + (A + ucast x))) xs"
    using f(1) by (simp add: A B)
  from Cons.IH [OF this] show ?case by (simp add: adler32_sum_def Let_def A B)
qed

lemma adler_fits_bound:
  assumes "a < 65536" "b < 65536" "length xs \<le> MAX_ADLER_BUF"
  shows "adler_fits (a, b) xs"
  unfolding adler_fits_def
proof (intro allI impI)
  fix k assume "k \<le> length xs"
  then have n: "length (take k xs) \<le> 268435456"
    using assms(3) by (simp add: MAX_ADLER_BUF_def)
  let ?n = "length (take k xs)"
  have 1: "a + 255 * ?n \<le> 65536 + 255 * 268435456" using n assms(1) by simp
  then have "?n * (a + 255 * ?n) \<le> 268435456 * (65536 + 255 * 268435456)"
    using n by (intro mult_le_mono)
  with 1 adler_raw_bound [of a b "take k xs"] assms(2)
  show "fst (adler_raw (a, b) (take k xs)) < 2 ^ 64 \<and> snd (adler_raw (a, b) (take k xs)) < 2 ^ 64"
    by auto
qed

section \<open>The reduced sum\<close>

lemma adler_spec_Nil [simp]: "adler_spec p [] = p"
  by (simp add: adler_spec_def)

lemma adler_spec_append: "adler_spec p (xs @ ys) = adler_spec (adler_spec p xs) ys"
  by (simp add: adler_spec_def)

lemma adler_raw_mod:
  "map_prod (\<lambda>a. a mod ADLER_MOD) (\<lambda>b. b mod ADLER_MOD) (adler_raw (a, b) xs)
    = adler_spec (a mod ADLER_MOD, b mod ADLER_MOD) xs"
proof (induction xs arbitrary: a b)
  case Nil
  then show ?case by simp
next
  case (Cons x xs)
  have 1: "(a mod ADLER_MOD + unat x) mod ADLER_MOD = (a + unat x) mod ADLER_MOD"
    by (rule mod_add_left_eq)
  have 2: "(b mod ADLER_MOD + (a + unat x) mod ADLER_MOD) mod ADLER_MOD
      = (b + (a + unat x)) mod ADLER_MOD"
    by (rule mod_add_eq)
  from Cons [of "a + unat x" "b + (a + unat x)"] show ?case
    by (simp add: adler_spec_def adler_step_def Let_def 1 2)
qed

lemma ADLER_MOD_word: "unat (of_nat ADLER_MOD :: u64) = ADLER_MOD" "ADLER_MOD < 65536"
  "0 < ADLER_MOD"
  by (simp_all add: ADLER_MOD_def)

lemma adler32_reduce_sum:
  assumes "unat A < 65536" "unat B < 65536" "length xs \<le> MAX_ADLER_BUF"
  shows "map_prod unat unat (adler32_reduce (adler32_sum (A, B) xs))
    = adler_spec (unat A mod ADLER_MOD, unat B mod ADLER_MOD) xs"
proof -
  obtain A' B' where s: "adler32_sum (A, B) xs = (A', B')" by (metis surj_pair)
  have "(unat A', unat B') = adler_raw (unat A, unat B) xs"
    using adler32_sum_raw [OF adler_fits_bound, OF assms] s by simp
  then have "(unat A' mod ADLER_MOD, unat B' mod ADLER_MOD)
      = adler_spec (unat A mod ADLER_MOD, unat B mod ADLER_MOD) xs"
    using adler_raw_mod [of "unat A" "unat B" xs] by (metis map_prod_simp)
  then show ?thesis by (simp add: s adler32_reduce_def unat_mod ADLER_MOD_word)
qed

lemma adler_spec_less:
  assumes "fst p < ADLER_MOD" "snd p < ADLER_MOD"
  shows "fst (adler_spec p xs) < ADLER_MOD \<and> snd (adler_spec p xs) < ADLER_MOD"
  using assms
proof (induction xs rule: rev_induct)
  case Nil
  then show ?case by simp
next
  case (snoc x xs)
  obtain a b where "adler_spec p xs = (a, b)" by (metis surj_pair)
  then show ?case using ADLER_MOD_word(3) by (simp add: adler_spec_append)
      (simp add: adler_spec_def adler_step_def Let_def)
qed

lemma adler32_chunks_spec:
  assumes "unat A < 65536" "unat B < 65536"
  shows "map_prod unat unat (adler32_chunks (A, B) xs)
    = adler_spec (unat A mod ADLER_MOD, unat B mod ADLER_MOD) xs"
  using assms
proof (induction "(A, B)" xs arbitrary: A B rule: adler32_chunks.induct)
  case (1 xs)
  show ?case
  proof (cases "MAX_ADLER_BUF < length xs")
    case True
    let ?t = "take MAX_ADLER_BUF xs" and ?d = "drop MAX_ADLER_BUF xs"
    obtain A' B' where r: "adler32_reduce (adler32_sum (A, B) ?t) = (A', B')" by (metis surj_pair)
    have t: "(unat A', unat B') = adler_spec (unat A mod ADLER_MOD, unat B mod ADLER_MOD) ?t"
      using adler32_reduce_sum [OF "1.prems", of ?t] r by simp
    then have less: "unat A' < ADLER_MOD" "unat B' < ADLER_MOD"
      using adler_spec_less [of "(unat A mod ADLER_MOD, unat B mod ADLER_MOD)" ?t] ADLER_MOD_word(3)
      by (simp_all flip: t)
    then have "map_prod unat unat (adler32_chunks (A', B') ?d)
        = adler_spec (unat A' mod ADLER_MOD, unat B' mod ADLER_MOD) ?d"
      using "1.hyps" [OF True] r ADLER_MOD_word(2) by simp
    also have "\<dots> = adler_spec (adler_spec (unat A mod ADLER_MOD, unat B mod ADLER_MOD) ?t) ?d"
      using less t by simp
    finally show ?thesis
      using True r by (simp add: adler32_chunks.simps [of "(A, B)"] flip: adler_spec_append)
  next
    case False
    then show ?thesis
      using adler32_reduce_sum [OF "1.prems"] by (simp add: adler32_chunks.simps [of "(A, B)"])
  qed
qed

section \<open>Packing\<close>

lemma pack_bits:
  assumes "unat a < 65536" "unat b < 65536"
  shows "ucast (push_bit 16 b OR a :: u64) = (of_nat (unat b * 65536 + unat a) :: u32)"
proof -
  have ucast_of_nat: "ucast (of_nat m :: u64) = (of_nat m :: u32)" for m
    by (rule bit_word_eqI) (simp add: bit_simps)
  have "push_bit 16 b AND a = 0"
  proof (rule bit_word_eqI)
    fix n assume "n < LENGTH(64)"
    have "unat (take_bit 16 a) = unat a"
      using assms(1) by (simp add: unsigned_take_bit_eq take_bit_nat_eq_self)
    then have "a = take_bit 16 a" by (metis word_unat_eq_iff)
    then have "bit a n \<Longrightarrow> n < 16" by (metis bit_take_bit_iff)
    then show "bit (push_bit 16 b AND a) n = bit 0 n" by (auto simp: bit_simps)
  qed
  then have "push_bit 16 b OR a = push_bit 16 b + a" by (simp add: disjunctive_add_eq_or)
  also have "\<dots> = of_nat (unat b * 65536 + unat a)"
    by (simp add: push_bit_eq_mult)
  finally have "ucast (push_bit 16 b OR a) = (ucast (of_nat (unat b * 65536 + unat a) :: u64) :: u32)"
    by simp
  also have "\<dots> = of_nat (unat b * 65536 + unat a)" by (rule ucast_of_nat)
  finally show ?thesis .
qed

lemma unat_low_high:
  "unat (ucast (w AND 0xffff :: u32) :: u64) = unat w mod 65536"
  "unat (ucast (drop_bit 16 w :: u32) :: u64) = unat w div 65536"
proof -
  have u: "unat (ucast x :: u64) = unat x" for x :: u32
  proof -
    have "unat x < 2 ^ LENGTH(32)" by (rule unsigned_less)
    then have "unat x < 2 ^ 64" by simp
    then show ?thesis by (simp add: unsigned_ucast_eq take_bit_nat_eq_self_iff)
  qed
  have "w AND 0xffff = take_bit 16 w" by (simp add: take_bit_eq_mask mask_eq_exp_minus_1)
  then show "unat (ucast (w AND 0xffff :: u32) :: u64) = unat w mod 65536"
    by (simp add: u unsigned_take_bit_eq take_bit_eq_mod unat_mod)
  show "unat (ucast (drop_bit 16 w :: u32) :: u64) = unat w div 65536"
    by (simp add: u unsigned_drop_bit_eq drop_bit_eq_div unat_div)
qed

text \<open>C21: for every start value and every buffer, of any length, the Adler-32 code returns the
  packed pair of the byte-at-a-time sums modulo 65521: reducing only every 2^28 bytes never
  lets a 64-bit accumulator wrap.\<close>

theorem adler32_base_correct:
  "adler32_base adler32 start = adler_pack (adler_spec (adler_unpack adler32) start)"
proof -
  let ?A = "ucast (adler32 AND 0xffff) :: u64" and ?B = "ucast (drop_bit 16 adler32) :: u64"
  have A: "unat ?A = unat adler32 mod 65536" and B: "unat ?B = unat adler32 div 65536"
    by (rule unat_low_high)+
  have "unat adler32 < 2 ^ LENGTH(32)" by (rule unsigned_less)
  then have lt: "unat ?A < 65536" "unat ?B < 65536"
    by (simp_all add: A B less_mult_imp_div_less)
  obtain a b where c: "adler32_chunks (?A, ?B) start = (a, b)" by (metis surj_pair)
  have s: "(unat a, unat b) = adler_spec (adler_unpack adler32) start"
    using adler32_chunks_spec [OF lt, of start] by (simp add: c A B adler_unpack_def)
  moreover have "fst (adler_spec (adler_unpack adler32) start) < ADLER_MOD
      \<and> snd (adler_spec (adler_unpack adler32) start) < ADLER_MOD"
    by (rule adler_spec_less) (simp_all add: adler_unpack_def ADLER_MOD_word(3))
  then have "unat a < 65536" "unat b < 65536"
    using ADLER_MOD_word(2) by (simp_all flip: s)
  ultimately show ?thesis
    by (simp add: adler32_base_def c pack_bits adler_pack_def flip: s)
qed

section \<open>The stored-minus-one variant\<close>

definition adler_bam1 :: "nat \<times> nat \<Rightarrow> u32" where
  "adler_bam1 = (\<lambda>(a, b). adler_pack (if a = 0 then ADLER_MOD - 1 else a - 1, b))"

lemma of_nat_low_bits: "a < 65536 \<Longrightarrow> bit (of_nat a :: u32) n \<longleftrightarrow> bit a n \<and> n < 16"
proof -
  assume "a < 65536"
  then have "take_bit 16 a = a" by (intro take_bit_nat_eq_self) simp
  then have "bit a n \<Longrightarrow> n < 16" by (metis bit_take_bit_iff)
  then show ?thesis by (auto simp: bit_simps)
qed

lemma adler_pack_or:
  assumes "a < 65536" "b < 65536"
  shows "adler_pack (a, b) = push_bit 16 (of_nat b) OR of_nat a"
proof -
  have "push_bit 16 (of_nat b) AND (of_nat a :: u32) = 0"
    by (rule bit_word_eqI) (auto simp: bit_and_iff bit_push_bit_iff of_nat_low_bits [OF assms(1)])
  then have "push_bit 16 (of_nat b) OR (of_nat a :: u32) = push_bit 16 (of_nat b) + of_nat a"
    by (simp add: disjunctive_add_eq_or)
  then show ?thesis by (simp add: adler_pack_def push_bit_eq_mult)
qed

lemma mask_16_words: "(0xffff :: u32) = mask 16" "(0xffff0000 :: u32) = NOT (mask 16)"
  by (simp_all add: mask_eq_exp_minus_1)

lemma pack_low:
  assumes "a < 65536" "b < 65536"
  shows "adler_pack (a, b) AND 0xffff = of_nat a"
  unfolding adler_pack_or [OF assms] mask_16_words
  by (rule bit_word_eqI) (auto simp: bit_and_iff bit_or_iff bit_push_bit_iff bit_mask_iff
      of_nat_low_bits assms)

lemma pack_set_low:
  assumes "a < 65536" "b < 65536" "c < 65536"
  shows "(adler_pack (a, b) AND 0xffff0000) OR of_nat c = adler_pack (c, b)"
  unfolding adler_pack_or [OF assms(1,2)] adler_pack_or [OF assms(3,2)] mask_16_words
  by (rule bit_word_eqI) (auto simp: bit_and_iff bit_or_iff bit_push_bit_iff bit_mask_iff
      bit_not_iff of_nat_low_bits assms)

lemma unpack_pack:
  assumes "a < ADLER_MOD" "b < ADLER_MOD"
  shows "adler_unpack (adler_pack (a, b)) = (a, b)"
proof -
  have "b * 65536 + a < 2 ^ LENGTH(32)" using assms by (simp add: ADLER_MOD_def)
  then have "unat (adler_pack (a, b)) = b * 65536 + a"
    by (simp only: adler_pack_def prod.case unat_of_nat_lt)
  then show ?thesis using assms by (simp add: adler_unpack_def ADLER_MOD_def)
qed

lemma adler_spec_pair_less:
  assumes "a < ADLER_MOD" "b < ADLER_MOD" "adler_spec (a, b) start = (a', b')"
  shows "a' < ADLER_MOD" "b' < ADLER_MOD"
  using adler_spec_less [of "(a, b)" start] assms by simp_all

lemma bam1_low:
  assumes "a < ADLER_MOD" "b < ADLER_MOD"
  shows "adler_bam1 (a, b) AND 0xffff = of_nat (if a = 0 then ADLER_MOD - 1 else a - 1)"
    and "(adler_bam1 (a, b) AND 0xffff0000) OR of_nat a = adler_pack (a, b)"
proof -
  let ?a = "if a = 0 then ADLER_MOD - 1 else a - 1"
  have lt: "?a < 65536" "a < 65536" "b < 65536" using assms by (auto simp: ADLER_MOD_def)
  show "adler_bam1 (a, b) AND 0xffff = of_nat ?a"
    using pack_low [OF lt(1,3)] by (simp only: adler_bam1_def prod.case)
  show "(adler_bam1 (a, b) AND 0xffff0000) OR of_nat a = adler_pack (a, b)"
    using pack_set_low [OF lt(1,3,2)] by (simp only: adler_bam1_def prod.case)
qed

lemma bam1_decode:
  assumes "a < ADLER_MOD"
  shows "(if (of_nat (if a = 0 then ADLER_MOD - 1 else a - 1) :: u32) = of_nat ADLER_MOD - 1
    then 0 else of_nat (if a = 0 then ADLER_MOD - 1 else a - 1) + 1) = (of_nat a :: u32)"
proof (cases "a = 0")
  case True
  then show ?thesis by (simp add: ADLER_MOD_def)
next
  case False
  have "unat (of_nat (a - 1) :: u32) = a - 1" using assms
    by (intro unat_of_nat_lt) (simp add: ADLER_MOD_def)
  moreover have "unat (of_nat ADLER_MOD - 1 :: u32) = 65520" by (simp add: ADLER_MOD_def)
  ultimately have "(of_nat (a - 1) :: u32) \<noteq> of_nat ADLER_MOD - 1"
    using assms False by (auto simp: ADLER_MOD_def)
  moreover have "(of_nat (a - 1) + 1 :: u32) = of_nat a"
    using False by (metis Suc_pred' neq0_conv of_nat_Suc add.commute)
  ultimately show ?thesis using False by (simp only: if_False)
qed

lemma bam1_encode:
  assumes "a < ADLER_MOD"
  shows "(if (of_nat a :: u32) = 0 then of_nat ADLER_MOD - 1 else of_nat a - 1)
    = (of_nat (if a = 0 then ADLER_MOD - 1 else a - 1) :: u32)"
proof (cases "a = 0")
  case True
  then show ?thesis by (simp add: ADLER_MOD_def)
next
  case False
  then obtain m where "a = Suc m" by (cases a) simp_all
  moreover have "unat (of_nat a :: u32) = a"
    using assms by (intro unat_of_nat_lt) (simp add: ADLER_MOD_def)
  then have "(of_nat a :: u32) = 0 \<longleftrightarrow> a = 0" by (auto simp del: of_nat_eq_0_iff)
  ultimately show ?thesis by simp
qed

lemma bam1_update:
  assumes ab: "a < ADLER_MOD" "b < ADLER_MOD"
  shows "isal_adler32_bam1 (adler_bam1 (a, b)) start = adler_bam1 (adler_spec (a, b) start)"
proof -
  obtain a' b' where s: "adler_spec (a, b) start = (a', b')" by (metis surj_pair)
  note less' = adler_spec_pair_less [OF ab s]
  then have lt': "a' < 65536" "b' < 65536" by (simp_all add: ADLER_MOD_def)
  have base: "isal_adler32 ((adler_bam1 (a, b) AND 0xffff0000) OR of_nat a) start = adler_pack (a', b')"
    using unpack_pack [OF ab] s by (simp only: bam1_low [OF ab] isal_adler32_def adler32_base_correct)
  have "(if a' = 0 then ADLER_MOD - 1 else a' - 1) < 65536" using lt' by (auto simp: ADLER_MOD_def)
  then show ?thesis
    unfolding isal_adler32_bam1_def Let_def bam1_low(1) [OF ab] bam1_decode [OF ab(1)] base
      pack_low [OF lt'] bam1_encode [OF less'(1)]
    using lt' by (simp only: pack_set_low adler_bam1_def s prod.case)
qed

lemma bam1_finalize:
  assumes ab: "a < ADLER_MOD" "b < ADLER_MOD"
  shows "finalize_adler32 (adler_bam1 (a, b)) = adler_pack (a, b)"
proof -
  let ?a = "if a = 0 then ADLER_MOD - 1 else a - 1"
  have "unat (of_nat (Suc ?a) :: u32) = Suc ?a"
    using ab(1) by (intro unat_of_nat_lt) (auto simp: ADLER_MOD_def)
  then have "unat ((of_nat (Suc ?a) :: u32) mod of_nat ADLER_MOD) = Suc ?a mod ADLER_MOD"
    by (simp add: unat_mod ADLER_MOD_def del: of_nat_Suc)
  also have "\<dots> = a" using ab(1) by (auto simp: ADLER_MOD_def)
  finally have "of_nat (unat ((of_nat (Suc ?a) :: u32) mod of_nat ADLER_MOD)) = (of_nat a :: u32)"
    by simp
  then have "(of_nat ?a + 1 :: u32) mod of_nat ADLER_MOD = of_nat a" by (simp add: add.commute)
  then show ?thesis by (simp only: finalize_adler32_def bam1_low [OF ab])
qed

text \<open>C38: the stored-minus-one Adler-32 that the compressor and the decompressor carry in their
  state is the Adler-32 of RFC 1950 under the encoding \<open>a \<mapsto> a - 1 (mod 65521)\<close>: updating the
  stored value with a buffer stores the updated sums, so updates compose over consecutive
  buffers, and \<open>finalize_adler32\<close> turns the stored value into the checksum. In
  particular, starting from the state's initial value 0 and finalising gives the Adler-32
  of the data started at 1.\<close>

theorem adler32_bam1_correct:
  assumes "a < ADLER_MOD" "b < ADLER_MOD"
  shows "isal_adler32_bam1 (adler_bam1 (a, b)) start = adler_bam1 (adler_spec (a, b) start)
    \<and> finalize_adler32 (adler_bam1 (a, b)) = adler_pack (a, b)
    \<and> finalize_adler32 (isal_adler32_bam1 0 start) = isal_adler32 1 start"
proof -
  have "isal_adler32_bam1 0 start = adler_bam1 (adler_spec (1, 0) start)"
    using bam1_update [of 1 0] by (simp add: adler_bam1_def adler_pack_def ADLER_MOD_def)
  moreover obtain a' b' where s: "adler_spec (1, 0) start = (a', b')" by (metis surj_pair)
  moreover have "a' < ADLER_MOD" "b' < ADLER_MOD"
    using adler_spec_pair_less [OF _ _ s] by (simp_all add: ADLER_MOD_def)
  moreover have "isal_adler32 1 start = adler_pack (adler_spec (1, 0) start)"
    by (simp add: isal_adler32_def adler32_base_correct adler_unpack_def ADLER_MOD_def)
  ultimately show ?thesis using bam1_update [OF assms] bam1_finalize [OF assms] bam1_finalize [of a' b'] by simp
qed

theorem adler32_bam1_correct_witness:
  "isal_adler32_bam1 (adler_bam1 (1, 0)) [97, 98] = adler_bam1 (196, 294)"
proof -
  have "adler_spec (1, 0) [97, 98] = (196, 294)"
    by (simp add: adler_spec_def adler_step_def ADLER_MOD_def)
  then show ?thesis
    using adler32_bam1_correct [of 1 0 "[97, 98]"] by (simp add: ADLER_MOD_def)
qed

end
