(* ===== verification/XOR_Field.thy ===== *)
theory XOR_Field
  imports ISAL_Prelude
begin

text \<open>
  The interface between the erasure code and its field arithmetic: a field whose elements
  are words and whose addition is \<open>XOR\<close>. Everything the matrix code and the encoder need
  of multiplication is stated here as a locale and proved from its laws: zero products,
  dot products, matrix products, and the non-singularity of Cauchy matrices.
\<close>

locale xor_field =
  fixes mul :: "'a::len word \<Rightarrow> 'a word \<Rightarrow> 'a word" and inv :: "'a word \<Rightarrow> 'a word"
  assumes mul_commute: "mul a b = mul b a"
    and mul_assoc: "mul (mul a b) c = mul a (mul b c)"
    and mul_xor: "mul a (b XOR c) = mul a b XOR mul a c"
    and mul_1: "mul 1 a = a"
    and mul_inv: "a \<noteq> 0 \<Longrightarrow> mul a (inv a) = 1"
begin

lemma xor_mul: "mul (a XOR b) c = mul a c XOR mul b c"
  using mul_xor [of c a b] by (simp only: mul_commute [of c])

lemma mul_0 [simp]: "mul a 0 = 0"
  using mul_xor [of a 0 0] by simp

lemma zero_mul [simp]: "mul 0 a = 0"
  by (simp add: mul_commute [of 0])

lemma mul_1_right [simp]: "mul a 1 = a"
  by (simp add: mul_commute [of a] mul_1)

lemma mul_left_commute: "mul a (mul b c) = mul b (mul a c)"
  by (metis mul_assoc mul_commute)

lemma mul_eq_0 [simp]: "mul a b = 0 \<longleftrightarrow> a = 0 \<or> b = 0"
proof
  assume 0: "mul a b = 0"
  show "a = 0 \<or> b = 0"
  proof (rule ccontr)
    assume "\<not> (a = 0 \<or> b = 0)"
    then have "mul (inv a) (mul a b) = b"
      by (metis mul_1 mul_assoc mul_commute mul_inv)
    with 0 \<open>\<not> (a = 0 \<or> b = 0)\<close> show False by simp
  qed
qed auto

lemma inv_mul: "a \<noteq> 0 \<Longrightarrow> mul (inv a) a = 1"
  by (simp add: mul_commute [of "inv a"] mul_inv)

lemma inv_neq_0: "a \<noteq> 0 \<Longrightarrow> inv a \<noteq> 0"
  using mul_inv [of a] by auto

lemma mul_left_cancel: "c \<noteq> 0 \<Longrightarrow> mul c a = mul c b \<longleftrightarrow> a = b"
  by (metis mul_eq_0 mul_xor xor_eq_0_iff)

lemma mul_xor_sum: "mul a (xor_sum (map f xs)) = xor_sum (map (\<lambda>i. mul a (f i)) xs)"
  by (induction xs) (simp_all add: mul_xor)

lemma xor_sum_mul: "mul (xor_sum (map f xs)) a = xor_sum (map (\<lambda>i. mul (f i) a) xs)"
  by (induction xs) (simp_all add: xor_mul)

section \<open>Square matrices as index functions\<close>

definition dot :: "nat \<Rightarrow> (nat \<Rightarrow> 'a word) \<Rightarrow> (nat \<Rightarrow> 'a word) \<Rightarrow> 'a word" where
  "dot n u v = xor_sum (map (\<lambda>k. mul (u k) (v k)) [0..<n])"

definition mat_mul :: "nat \<Rightarrow> (nat \<Rightarrow> nat \<Rightarrow> 'a word) \<Rightarrow> (nat \<Rightarrow> nat \<Rightarrow> 'a word)
    \<Rightarrow> nat \<Rightarrow> nat \<Rightarrow> 'a word" where
  "mat_mul n A B i j = dot n (A i) (\<lambda>k. B k j)"

definition mat_vec :: "nat \<Rightarrow> (nat \<Rightarrow> nat \<Rightarrow> 'a word) \<Rightarrow> (nat \<Rightarrow> 'a word) \<Rightarrow> nat \<Rightarrow> 'a word" where
  "mat_vec n A x i = dot n (A i) x"

definition ident :: "nat \<Rightarrow> nat \<Rightarrow> 'a word" where
  "ident i j = (if i = j then 1 else 0)"

lemma dot_cong: "(\<And>k. k < n \<Longrightarrow> u k = u' k) \<Longrightarrow> (\<And>k. k < n \<Longrightarrow> v k = v' k) \<Longrightarrow> dot n u v = dot n u' v'"
  unfolding dot_def by (intro arg_cong [where f = xor_sum] map_cong) auto

lemma dot_0 [simp]: "dot n u (\<lambda>_. 0) = 0" "dot n (\<lambda>_. 0) u = 0"
  by (simp_all add: dot_def)

lemma dot_xor_left: "dot n (\<lambda>k. u k XOR w k) v = dot n u v XOR dot n w v"
  by (simp add: dot_def xor_mul xor_sum_map_xor)

lemma dot_mul_left: "dot n (\<lambda>k. mul c (u k)) v = mul c (dot n u v)"
  by (simp add: dot_def mul_xor_sum mul_assoc)

lemma dot_ident: "i < n \<Longrightarrow> dot n (ident i) v = v i"
  unfolding dot_def by (subst xor_sum_delta [where k = i]) (auto simp: ident_def mul_1)

lemma dot_ident_right: "i < n \<Longrightarrow> dot n v (\<lambda>k. ident k i) = v i"
  unfolding dot_def by (subst xor_sum_delta [where k = i]) (auto simp: ident_def)

lemma dot_dot: "dot n (\<lambda>k. dot n u (\<lambda>l. A l k)) v = dot n u (\<lambda>l. dot n (A l) v)"
  unfolding dot_def xor_sum_mul mul_xor_sum mul_assoc by (rule xor_sum_swap)

lemma mat_vec_mul: "mat_vec n (mat_mul n A B) x i = mat_vec n A (mat_vec n B x) i"
proof -
  have "mat_mul n A B i = (\<lambda>k. dot n (A i) (\<lambda>l. B l k))" by (rule ext) (simp add: mat_mul_def)
  then have "mat_vec n (mat_mul n A B) x i = dot n (A i) (\<lambda>l. dot n (B l) x)"
    by (simp only: mat_vec_def dot_dot)
  then show ?thesis by (simp only: mat_vec_def) (simp only: mat_vec_def [abs_def])
qed

section \<open>Cauchy matrices\<close>

text \<open>
  For distinct \<open>as\<close>, distinct \<open>bs\<close>, no \<open>a\<close> equal to a \<open>b\<close>, the matrix
  \<open>1 / (a + b)\<close> has a trivial kernel. The induction removes the last column: subtracting
  the equation of the last row, scaled, from the others leaves a smaller Cauchy system.
\<close>

definition cauchy_row :: "'a word \<Rightarrow> ('a word \<times> 'a word) list \<Rightarrow> 'a word" where
  "cauchy_row a bxs = xor_sum (map (\<lambda>(b, x). mul x (inv (a XOR b))) bxs)"

lemma cauchy_row_Nil [simp]: "cauchy_row a [] = 0"
  by (simp add: cauchy_row_def)

lemma cauchy_row_Cons [simp]:
  "cauchy_row a ((b, x) # bxs) = mul x (inv (a XOR b)) XOR cauchy_row a bxs"
  by (simp add: cauchy_row_def)

lemma mul_cauchy_row:
  "mul c (cauchy_row a bxs) = cauchy_row a (map (\<lambda>(b, x). (b, mul c x)) bxs)"
  by (induction bxs) (auto simp: mul_xor mul_assoc)

text \<open>\<open>(a + b') x / (a + b) = x + (b + b') x / (a + b)\<close>.\<close>

lemma cauchy_term:
  assumes "a \<noteq> b"
  shows "mul (a XOR b') (mul x (inv (a XOR b))) = x XOR mul (mul (b XOR b') x) (inv (a XOR b))"
proof -
  have "a XOR b' = (a XOR b) XOR (b XOR b')" by (simp add: xor_laws)
  then have "mul (a XOR b') (mul x (inv (a XOR b)))
      = mul (a XOR b) (mul x (inv (a XOR b))) XOR mul (b XOR b') (mul x (inv (a XOR b)))"
    by (metis xor_mul)
  also have "mul (a XOR b) (mul x (inv (a XOR b))) = x"
    using assms by (simp add: mul_left_commute [of _ x] mul_inv)
  finally show ?thesis by (simp only: mul_assoc)
qed

lemma cauchy_shift:
  assumes "\<forall>b \<in> fst ` set bxs. a \<noteq> b"
  shows "mul (a XOR b') (cauchy_row a bxs)
    = xor_sum (map snd bxs) XOR cauchy_row a (map (\<lambda>(b, x). (b, mul (b XOR b') x)) bxs)"
  using assms
proof (induction bxs)
  case Nil
  then show ?case by simp
next
  case (Cons p bxs)
  obtain b x where "p = (b, x)" by (metis surj_pair)
  with Cons cauchy_term [of a b b' x] show ?case by (simp add: mul_xor xor_laws)
qed

lemma xor_swap4: "(p XOR q) XOR (r XOR s) = (p XOR r) XOR (q XOR (s :: 'a word))"
  by (simp add: xor_laws)

text \<open>\<open>1 / (a + b) + 1 / (c + b) = (a + c) / ((a + b) (c + b))\<close>.\<close>

lemma cauchy_diff_term:
  assumes "a \<noteq> b" "c \<noteq> b"
  shows "inv (a XOR b) XOR inv (c XOR b) = mul (a XOR c) (mul (inv (c XOR b)) (inv (a XOR b)))"
proof -
  have "a XOR c = (a XOR b) XOR (c XOR b)" by (simp add: xor_laws)
  then have "mul (a XOR c) (mul (inv (c XOR b)) (inv (a XOR b)))
      = mul (a XOR b) (mul (inv (c XOR b)) (inv (a XOR b)))
        XOR mul (c XOR b) (mul (inv (c XOR b)) (inv (a XOR b)))"
    by (simp only: xor_mul)
  also have "mul (a XOR b) (mul (inv (c XOR b)) (inv (a XOR b))) = inv (c XOR b)"
    using assms by (simp add: mul_left_commute [of _ "inv (c XOR b)"] mul_inv)
  also have "mul (c XOR b) (mul (inv (c XOR b)) (inv (a XOR b))) = inv (a XOR b)"
    using assms by (simp add: mul_inv mul_1 flip: mul_assoc)
  finally show ?thesis by (simp add: xor.commute)
qed

lemma cauchy_diff:
  assumes "\<forall>b \<in> fst ` set bxs. a \<noteq> b" "\<forall>b \<in> fst ` set bxs. c \<noteq> b"
  shows "cauchy_row a bxs XOR cauchy_row c bxs
    = mul (a XOR c) (cauchy_row a (map (\<lambda>(b, x). (b, mul x (inv (c XOR b)))) bxs))"
  using assms
proof (induction bxs)
  case Nil
  then show ?case by simp
next
  case (Cons p bxs)
  obtain b x where p: "p = (b, x)" by (metis surj_pair)
  have "mul x (inv (a XOR b)) XOR mul x (inv (c XOR b))
      = mul (a XOR c) (mul (mul x (inv (c XOR b))) (inv (a XOR b)))"
    using Cons.prems p cauchy_diff_term [of a b c]
    by (simp add: mul_left_commute [of _ x] mul_assoc flip: mul_xor)
  moreover have "cauchy_row a bxs XOR cauchy_row c bxs
      = mul (a XOR c) (cauchy_row a (map (\<lambda>(b, x). (b, mul x (inv (c XOR b)))) bxs))"
    using Cons by simp
  ultimately show ?case
    by (simp only: p cauchy_row_Cons list.map prod.case mul_xor) (subst xor_swap4, simp only:)
qed

lemma cauchy_kernel:
  assumes "length as = length bxs" "distinct as" "distinct (map fst bxs)"
    and "set as \<inter> fst ` set bxs = {}"
    and "\<forall>a \<in> set as. cauchy_row a bxs = 0"
  shows "\<forall>x \<in> snd ` set bxs. x = 0"
  using assms
proof (induction as arbitrary: bxs)
  case Nil
  then show ?case by simp
next
  case (Cons c as)
  from Cons.prems(1) obtain b' x' bxs' where p: "bxs = (b', x') # bxs'" "length as = length bxs'"
    by (cases bxs) auto
  let ?y = "map (\<lambda>(b, x). (b, mul (b XOR b') x)) bxs'"
  let ?z = "map (\<lambda>(b, x). (b, mul x (inv (c XOR b)))) ?y"
  have fst_y: "map fst ?y = map fst bxs'" "map fst ?z = map fst bxs'" by (simp_all add: case_prod_unfold)
  then have set_y: "fst ` set ?y = fst ` set bxs'" "fst ` set ?z = fst ` set bxs'"
    by (metis set_map)+
  have sum: "cauchy_row a ?y = xor_sum (map snd bxs)" if "a \<in> set (c # as)" for a
  proof -
    have ne: "\<forall>b \<in> fst ` set bxs. a \<noteq> b" using Cons.prems(4) that by auto
    have "cauchy_row a bxs = 0" using Cons.prems(5) that by blast
    then have "0 = mul (a XOR b') (cauchy_row a bxs)" by simp
    also have "\<dots> = xor_sum (map snd bxs)
        XOR cauchy_row a (map (\<lambda>(b, x). (b, mul (b XOR b') x)) bxs)"
      by (rule cauchy_shift [OF ne])
    also have "\<dots> = xor_sum (map snd bxs) XOR cauchy_row a ?y" using ne by (simp add: p)
    finally have "xor_sum (map snd bxs) XOR cauchy_row a ?y = 0" by (rule sym)
    then show ?thesis by (simp only: xor_eq_0_iff)
  qed
  have z: "cauchy_row a ?z = 0" if a: "a \<in> set as" for a
  proof -
    have ne: "\<forall>b \<in> fst ` set ?y. a \<noteq> b" "\<forall>b \<in> fst ` set ?y. c \<noteq> b"
      using Cons.prems(4) a p unfolding set_y by auto
    have "cauchy_row a ?y XOR cauchy_row c ?y = 0" using sum [of a] sum [of c] a by simp
    then have "mul (a XOR c) (cauchy_row a ?z) = 0" by (simp only: cauchy_diff [OF ne])
    moreover have "a \<noteq> c" using Cons.prems(2) a by auto
    ultimately show ?thesis by simp
  qed
  have "\<forall>x \<in> snd ` set ?z. x = 0"
    using p Cons.prems z by (intro Cons.IH) (auto simp only: fst_y set_y length_map list.simps distinct.simps)
  then have "x = 0" if "(b, x) \<in> set bxs'" for b x
  proof -
    have "mul (mul (b XOR b') x) (inv (c XOR b)) = 0"
      using \<open>\<forall>x \<in> snd ` set ?z. x = 0\<close> that by force
    moreover have "b \<noteq> b'" "c \<noteq> b" using Cons.prems(3,4) p that by force+
    ultimately show "x = 0" using inv_neq_0 [of "c XOR b"] by simp
  qed
  note rest = this
  then have "cauchy_row c bxs' = cauchy_row c (map (\<lambda>(b, x). (b, mul 0 x)) bxs')"
    by (intro arg_cong [where f = "cauchy_row c"] nth_equalityI) (auto simp: case_prod_unfold,
        metis nth_mem prod.collapse)
  also have "\<dots> = mul 0 (cauchy_row c bxs')" by (rule mul_cauchy_row [symmetric])
  also have "\<dots> = 0" by simp
  finally have "mul x' (inv (c XOR b')) = 0" using Cons.prems(5) p by simp
  moreover have "c \<noteq> b'" using Cons.prems(4) p by auto
  ultimately have "x' = 0" using inv_neq_0 [of "c XOR b'"] by simp
  with rest p show ?case by auto
qed

end

end
