(* ===== verification/GF256.thy ===== *)
theory GF256
  imports XOR_Field
begin

text \<open>
  Arithmetic in GF(2^8) with the polynomial 0x11d: the logarithm tables of
  \<open>erasure_code/ec_base.h\<close>, \<open>gf_mul\<close> and \<open>gf_inv\<close> of \<open>erasure_code/ec_base.c\<close>, and the
  proof that they are the multiplication and inverse of a field whose addition is \<open>XOR\<close>.
  The reference multiplication is the shift-and-reduce product, which uses no table.
\<close>

section \<open>The tables and functions\<close>

definition gff_base :: "u8 list" where
  "gff_base = [
    0x01, 0x02, 0x04, 0x08, 0x10, 0x20, 0x40, 0x80, 0x1D, 0x3A, 0x74, 0xE8, 0xCD, 0x87, 0x13, 0x26,
    0x4C, 0x98, 0x2D, 0x5A, 0xB4, 0x75, 0xEA, 0xC9, 0x8F, 0x03, 0x06, 0x0C, 0x18, 0x30, 0x60, 0xC0,
    0x9D, 0x27, 0x4E, 0x9C, 0x25, 0x4A, 0x94, 0x35, 0x6A, 0xD4, 0xB5, 0x77, 0xEE, 0xC1, 0x9F, 0x23,
    0x46, 0x8C, 0x05, 0x0A, 0x14, 0x28, 0x50, 0xA0, 0x5D, 0xBA, 0x69, 0xD2, 0xB9, 0x6F, 0xDE, 0xA1,
    0x5F, 0xBE, 0x61, 0xC2, 0x99, 0x2F, 0x5E, 0xBC, 0x65, 0xCA, 0x89, 0x0F, 0x1E, 0x3C, 0x78, 0xF0,
    0xFD, 0xE7, 0xD3, 0xBB, 0x6B, 0xD6, 0xB1, 0x7F, 0xFE, 0xE1, 0xDF, 0xA3, 0x5B, 0xB6, 0x71, 0xE2,
    0xD9, 0xAF, 0x43, 0x86, 0x11, 0x22, 0x44, 0x88, 0x0D, 0x1A, 0x34, 0x68, 0xD0, 0xBD, 0x67, 0xCE,
    0x81, 0x1F, 0x3E, 0x7C, 0xF8, 0xED, 0xC7, 0x93, 0x3B, 0x76, 0xEC, 0xC5, 0x97, 0x33, 0x66, 0xCC,
    0x85, 0x17, 0x2E, 0x5C, 0xB8, 0x6D, 0xDA, 0xA9, 0x4F, 0x9E, 0x21, 0x42, 0x84, 0x15, 0x2A, 0x54,
    0xA8, 0x4D, 0x9A, 0x29, 0x52, 0xA4, 0x55, 0xAA, 0x49, 0x92, 0x39, 0x72, 0xE4, 0xD5, 0xB7, 0x73,
    0xE6, 0xD1, 0xBF, 0x63, 0xC6, 0x91, 0x3F, 0x7E, 0xFC, 0xE5, 0xD7, 0xB3, 0x7B, 0xF6, 0xF1, 0xFF,
    0xE3, 0xDB, 0xAB, 0x4B, 0x96, 0x31, 0x62, 0xC4, 0x95, 0x37, 0x6E, 0xDC, 0xA5, 0x57, 0xAE, 0x41,
    0x82, 0x19, 0x32, 0x64, 0xC8, 0x8D, 0x07, 0x0E, 0x1C, 0x38, 0x70, 0xE0, 0xDD, 0xA7, 0x53, 0xA6,
    0x51, 0xA2, 0x59, 0xB2, 0x79, 0xF2, 0xF9, 0xEF, 0xC3, 0x9B, 0x2B, 0x56, 0xAC, 0x45, 0x8A, 0x09,
    0x12, 0x24, 0x48, 0x90, 0x3D, 0x7A, 0xF4, 0xF5, 0xF7, 0xF3, 0xFB, 0xEB, 0xCB, 0x8B, 0x0B, 0x16,
    0x2C, 0x58, 0xB0, 0x7D, 0xFA, 0xE9, 0xCF, 0x83, 0x1B, 0x36, 0x6C, 0xD8, 0xAD, 0x47, 0x8E, 0x01]"

definition gflog_base :: "u8 list" where
  "gflog_base = [
    0x00, 0xFF, 0x01, 0x19, 0x02, 0x32, 0x1A, 0xC6, 0x03, 0xDF, 0x33, 0xEE, 0x1B, 0x68, 0xC7, 0x4B,
    0x04, 0x64, 0xE0, 0x0E, 0x34, 0x8D, 0xEF, 0x81, 0x1C, 0xC1, 0x69, 0xF8, 0xC8, 0x08, 0x4C, 0x71,
    0x05, 0x8A, 0x65, 0x2F, 0xE1, 0x24, 0x0F, 0x21, 0x35, 0x93, 0x8E, 0xDA, 0xF0, 0x12, 0x82, 0x45,
    0x1D, 0xB5, 0xC2, 0x7D, 0x6A, 0x27, 0xF9, 0xB9, 0xC9, 0x9A, 0x09, 0x78, 0x4D, 0xE4, 0x72, 0xA6,
    0x06, 0xBF, 0x8B, 0x62, 0x66, 0xDD, 0x30, 0xFD, 0xE2, 0x98, 0x25, 0xB3, 0x10, 0x91, 0x22, 0x88,
    0x36, 0xD0, 0x94, 0xCE, 0x8F, 0x96, 0xDB, 0xBD, 0xF1, 0xD2, 0x13, 0x5C, 0x83, 0x38, 0x46, 0x40,
    0x1E, 0x42, 0xB6, 0xA3, 0xC3, 0x48, 0x7E, 0x6E, 0x6B, 0x3A, 0x28, 0x54, 0xFA, 0x85, 0xBA, 0x3D,
    0xCA, 0x5E, 0x9B, 0x9F, 0x0A, 0x15, 0x79, 0x2B, 0x4E, 0xD4, 0xE5, 0xAC, 0x73, 0xF3, 0xA7, 0x57,
    0x07, 0x70, 0xC0, 0xF7, 0x8C, 0x80, 0x63, 0x0D, 0x67, 0x4A, 0xDE, 0xED, 0x31, 0xC5, 0xFE, 0x18,
    0xE3, 0xA5, 0x99, 0x77, 0x26, 0xB8, 0xB4, 0x7C, 0x11, 0x44, 0x92, 0xD9, 0x23, 0x20, 0x89, 0x2E,
    0x37, 0x3F, 0xD1, 0x5B, 0x95, 0xBC, 0xCF, 0xCD, 0x90, 0x87, 0x97, 0xB2, 0xDC, 0xFC, 0xBE, 0x61,
    0xF2, 0x56, 0xD3, 0xAB, 0x14, 0x2A, 0x5D, 0x9E, 0x84, 0x3C, 0x39, 0x53, 0x47, 0x6D, 0x41, 0xA2,
    0x1F, 0x2D, 0x43, 0xD8, 0xB7, 0x7B, 0xA4, 0x76, 0xC4, 0x17, 0x49, 0xEC, 0x7F, 0x0C, 0x6F, 0xF6,
    0x6C, 0xA1, 0x3B, 0x52, 0x29, 0x9D, 0x55, 0xAA, 0xFB, 0x60, 0x86, 0xB1, 0xBB, 0xCC, 0x3E, 0x5A,
    0xCB, 0x59, 0x5F, 0xB0, 0x9C, 0xA9, 0xA0, 0x51, 0x0B, 0xF5, 0x16, 0xEB, 0x7A, 0x75, 0x2C, 0xD7,
    0x4F, 0xAE, 0xD5, 0xE9, 0xE6, 0xE7, 0xAD, 0xE8, 0x74, 0xD6, 0xF4, 0xEA, 0xA8, 0x50, 0x58, 0xAF]"

definition gf_mul :: "u8 \<Rightarrow> u8 \<Rightarrow> u8" where
  "gf_mul a b =
    (if a = 0 \<or> b = 0 then 0
     else let i = unat (gflog_base ! unat a) + unat (gflog_base ! unat b)
          in gff_base ! (if i > 254 then i - 255 else i))"

definition gf_inv :: "u8 \<Rightarrow> u8" where
  "gf_inv a = (if a = 0 then 0 else gff_base ! (255 - unat (gflog_base ! unat a)))"

text \<open>With \<open>GF_LARGE_TABLES\<close> the inverse is a table too.\<close>

definition gf_inv_table_base :: "u8 list" where
  "gf_inv_table_base = [
    0x00, 0x01, 0x8E, 0xF4, 0x47, 0xA7, 0x7A, 0xBA, 0xAD, 0x9D, 0xDD, 0x98, 0x3D, 0xAA, 0x5D, 0x96,
    0xD8, 0x72, 0xC0, 0x58, 0xE0, 0x3E, 0x4C, 0x66, 0x90, 0xDE, 0x55, 0x80, 0xA0, 0x83, 0x4B, 0x2A,
    0x6C, 0xED, 0x39, 0x51, 0x60, 0x56, 0x2C, 0x8A, 0x70, 0xD0, 0x1F, 0x4A, 0x26, 0x8B, 0x33, 0x6E,
    0x48, 0x89, 0x6F, 0x2E, 0xA4, 0xC3, 0x40, 0x5E, 0x50, 0x22, 0xCF, 0xA9, 0xAB, 0x0C, 0x15, 0xE1,
    0x36, 0x5F, 0xF8, 0xD5, 0x92, 0x4E, 0xA6, 0x04, 0x30, 0x88, 0x2B, 0x1E, 0x16, 0x67, 0x45, 0x93,
    0x38, 0x23, 0x68, 0x8C, 0x81, 0x1A, 0x25, 0x61, 0x13, 0xC1, 0xCB, 0x63, 0x97, 0x0E, 0x37, 0x41,
    0x24, 0x57, 0xCA, 0x5B, 0xB9, 0xC4, 0x17, 0x4D, 0x52, 0x8D, 0xEF, 0xB3, 0x20, 0xEC, 0x2F, 0x32,
    0x28, 0xD1, 0x11, 0xD9, 0xE9, 0xFB, 0xDA, 0x79, 0xDB, 0x77, 0x06, 0xBB, 0x84, 0xCD, 0xFE, 0xFC,
    0x1B, 0x54, 0xA1, 0x1D, 0x7C, 0xCC, 0xE4, 0xB0, 0x49, 0x31, 0x27, 0x2D, 0x53, 0x69, 0x02, 0xF5,
    0x18, 0xDF, 0x44, 0x4F, 0x9B, 0xBC, 0x0F, 0x5C, 0x0B, 0xDC, 0xBD, 0x94, 0xAC, 0x09, 0xC7, 0xA2,
    0x1C, 0x82, 0x9F, 0xC6, 0x34, 0xC2, 0x46, 0x05, 0xCE, 0x3B, 0x0D, 0x3C, 0x9C, 0x08, 0xBE, 0xB7,
    0x87, 0xE5, 0xEE, 0x6B, 0xEB, 0xF2, 0xBF, 0xAF, 0xC5, 0x64, 0x07, 0x7B, 0x95, 0x9A, 0xAE, 0xB6,
    0x12, 0x59, 0xA5, 0x35, 0x65, 0xB8, 0xA3, 0x9E, 0xD2, 0xF7, 0x62, 0x5A, 0x85, 0x7D, 0xA8, 0x3A,
    0x29, 0x71, 0xC8, 0xF6, 0xF9, 0x43, 0xD7, 0xD6, 0x10, 0x73, 0x76, 0x78, 0x99, 0x0A, 0x19, 0x91,
    0x14, 0x3F, 0xE6, 0xF0, 0x86, 0xB1, 0xE2, 0xF1, 0xFA, 0x74, 0xF3, 0xB4, 0x6D, 0x21, 0xB2, 0x6A,
    0xE3, 0xE7, 0xB5, 0xEA, 0x03, 0x8F, 0xD3, 0xC9, 0x42, 0xD4, 0xE8, 0x75, 0x7F, 0xFF, 0x7E, 0xFD]"

section \<open>Multiplication by x\<close>

text \<open>\<open>(c << 1) ^ ((c & 0x80) ? 0x1d : 0)\<close>, the step of the table initialisation.\<close>

definition gf_x2 :: "u8 \<Rightarrow> u8" where
  "gf_x2 c = push_bit 1 c XOR (if c AND 0x80 \<noteq> 0 then 0x1d else 0)"

text \<open>The product as a polynomial: the sum of \<open>x\<^sup>i a\<close> over the bits \<open>i\<close> of \<open>b\<close>.\<close>

definition gf_times :: "u8 \<Rightarrow> u8 \<Rightarrow> u8" where
  "gf_times a b = xor_sum (map (\<lambda>i. if bit b i then (gf_x2 ^^ i) a else 0) [0..<8])"

lemma and_0x80: "c AND 0x80 \<noteq> 0 \<longleftrightarrow> bit (c :: u8) 7"
proof -
  have b7: "bit (0x80 :: u8) n \<longleftrightarrow> n = 7" for n
    using bit_exp_iff [where 'a = u8, of 7 n] by auto
  show ?thesis
  proof
    assume "bit c 7"
    then have "bit (c AND 0x80) 7" by (simp only: bit_and_iff b7 simp_thms)
    then show "c AND 0x80 \<noteq> 0" by auto
  next
    assume "c AND 0x80 \<noteq> 0"
    then obtain n where "bit (c AND 0x80) n" by (metis bit_0_eq bit_word_eqI bot_apply bot_bool_def)
    then show "bit c 7" by (auto simp only: bit_and_iff b7)
  qed
qed

lemma gf_x2_xor: "gf_x2 (a XOR b) = gf_x2 a XOR gf_x2 b"
  unfolding gf_x2_def and_0x80 by (simp add: push_bit_xor bit_xor_iff xor_laws)

lemma gf_x2_0 [simp]: "gf_x2 0 = 0"
  by (simp add: gf_x2_def)

lemma gf_x2_pow_xor: "(gf_x2 ^^ n) (a XOR b) = (gf_x2 ^^ n) a XOR (gf_x2 ^^ n) b"
  by (induction n) (simp_all add: gf_x2_xor)

lemma gf_x2_pow_0 [simp]: "(gf_x2 ^^ n) 0 = 0"
  by (induction n) simp_all

section \<open>The tables are the powers of x and their logarithms\<close>

lemma length_gff_base [simp]: "length gff_base = 256"
  by (simp add: gff_base_def)

lemma length_gflog_base [simp]: "length gflog_base = 256"
  by (simp add: gflog_base_def)

lemma gff_base_step: "map gf_x2 (butlast gff_base) = tl gff_base"
  by (simp add: gff_base_def gf_x2_def)

lemma gff_base_ends: "gff_base ! 0 = 1" "gff_base ! 255 = 1"
  by (simp_all add: gff_base_def)

lemma gflog_base_gff: "map (\<lambda>l. gff_base ! unat l) (tl gflog_base) = map of_nat [1..<256]"
  by (simp add: gff_base_def gflog_base_def upt_conv_Cons)

lemma gff_base_nth: "i < 256 \<Longrightarrow> gff_base ! i = (gf_x2 ^^ i) 1"
proof (induction i)
  case 0
  then show ?case by (simp add: gff_base_ends)
next
  case (Suc i)
  have "gf_x2 (gff_base ! i) = map gf_x2 (butlast gff_base) ! i"
    using Suc.prems by (simp add: nth_butlast)
  also have "\<dots> = gff_base ! Suc i"
    using Suc.prems by (simp only: gff_base_step) (simp add: nth_tl)
  finally show ?case using Suc by simp
qed

lemma gf_x2_pow_255: "(gf_x2 ^^ 255) 1 = 1"
  using gff_base_nth [of 255] by (simp add: gff_base_ends)

definition gf_log :: "u8 \<Rightarrow> nat" where
  "gf_log a = unat (gflog_base ! unat a)"

lemma gf_log_le: "gf_log a \<le> 255"
  using unsigned_less [of "gflog_base ! unat a", where ?'a = nat] by (simp add: gf_log_def)

lemma gf_x2_pow_log: 
  assumes "a \<noteq> 0"
  shows "(gf_x2 ^^ gf_log a) 1 = a"
proof -
  have a: "unat a < 256" using unsigned_less [of a, where ?'a = nat] by simp
  from assms have a0: "0 < unat a" by (simp add: unat_gt_0)
  have lt: "unat a - 1 < length (tl gflog_base)" using a a0 by simp
  have "gff_base ! gf_log a = map (\<lambda>l. gff_base ! unat l) (tl gflog_base) ! (unat a - 1)"
    unfolding nth_map [OF lt] nth_tl [OF lt] using a0 by (simp add: gf_log_def)
  also have "\<dots> = of_nat (unat a)"
    using a a0 by (simp only: gflog_base_gff) (simp add: nth_upt)
  finally show ?thesis using gff_base_nth [of "gf_log a"] gf_log_le [of a] by simp
qed

lemma gf_mul_pow:
  assumes "a \<noteq> 0"
  shows "gf_mul a b = (gf_x2 ^^ gf_log a) b"
proof (cases "b = 0")
  case True
  then show ?thesis by (simp add: gf_mul_def)
next
  case False
  let ?i = "gf_log a + gf_log b"
  have "(gf_x2 ^^ ?i) 1 = gff_base ! (if ?i > 254 then ?i - 255 else ?i)"
  proof (cases "?i > 254")
    case True
    then have "?i = ?i - 255 + 255" by simp
    then have "(gf_x2 ^^ ?i) 1 = (gf_x2 ^^ (?i - 255)) ((gf_x2 ^^ 255) 1)"
      by (metis comp_apply funpow_add)
    with True gf_log_le [of a] gf_log_le [of b] show ?thesis
      by (simp add: gf_x2_pow_255 gff_base_nth)
  qed (simp add: gff_base_nth)
  then have "gf_mul a b = (gf_x2 ^^ ?i) 1"
    using assms False by (simp add: gf_mul_def gf_log_def Let_def)
  also have "\<dots> = (gf_x2 ^^ gf_log a) b"
    using gf_x2_pow_log [OF False] by (simp add: funpow_add)
  finally show ?thesis .
qed

lemma gf_mul_0 [simp]: "gf_mul 0 b = 0" "gf_mul a 0 = 0"
  by (simp_all add: gf_mul_def)

lemma gf_mul_comm: "gf_mul a b = gf_mul b a"
  by (simp add: gf_mul_def Let_def add.commute disj_commute)

section \<open>The field\<close>

lemma gf_mul_xor: "gf_mul a (b XOR c) = gf_mul a b XOR gf_mul a c"
  by (cases "a = 0") (simp_all add: gf_mul_pow gf_x2_pow_xor)

lemma gf_mul_one: "gf_mul 1 a = a"
  by (cases "a = 0") (simp_all add: gf_mul_comm [of 1] gf_mul_pow gf_x2_pow_log)

lemma gf_x2_pow_mul: "(gf_x2 ^^ n) (gf_mul a b) = gf_mul a ((gf_x2 ^^ n) b)"
  by (cases "a = 0") (simp_all add: gf_mul_pow add.commute flip: funpow_add comp_apply [of "gf_x2 ^^ _"])

lemma gf_mul_assoc': "gf_mul (gf_mul a b) c = gf_mul a (gf_mul b c)"
proof (cases "c = 0")
  case False
  then show ?thesis
    by (simp add: gf_mul_comm [of _ c] gf_mul_pow gf_x2_pow_mul)
qed simp

lemma gf_mul_inverse:
  assumes "a \<noteq> 0"
  shows "gf_mul a (gf_inv a) = 1"
proof -
  have "gf_inv a = (gf_x2 ^^ (255 - gf_log a)) 1"
    using assms by (simp add: gf_inv_def gf_log_def [symmetric] gff_base_nth)
  then have "gf_mul a (gf_inv a) = (gf_x2 ^^ (gf_log a + (255 - gf_log a))) 1"
    using assms by (simp add: gf_mul_pow funpow_add)
  then show ?thesis using gf_log_le [of a] gf_x2_pow_255 by simp
qed

interpretation gf: xor_field gf_mul gf_inv
  by unfold_locales (rule gf_mul_comm gf_mul_assoc' gf_mul_xor gf_mul_one gf_mul_inverse, assumption?)+

section \<open>The tables against the polynomial product\<close>

lemma gff_base_low: "map ((!) gff_base) [0..<8] = map (\<lambda>i. push_bit i 1) [0..<8]"
  by (simp add: upt_conv_Cons gff_base_def)

lemma gf_x2_pow_1:
  assumes "i < 8"
  shows "(gf_x2 ^^ i) 1 = push_bit i 1"
proof -
  have "map ((!) gff_base) [0..<8] ! i = map (\<lambda>i. push_bit i 1) [0..<8] ! i"
    by (simp only: gff_base_low)
  with assms show ?thesis by (simp add: gff_base_nth)
qed

lemma gf_mul_push_bit: "i < 8 \<Longrightarrow> gf_mul a (push_bit i 1) = (gf_x2 ^^ i) a"
  using gf_x2_pow_mul [of i a 1] by (simp add: gf_x2_pow_1 gf_mul_comm [of a 1] gf_mul_one)

lemma bit_xor_sum_bits:
  "n \<le> 8 \<Longrightarrow> bit (xor_sum (map (\<lambda>i. if bit b i then push_bit i 1 else 0) [0..<n]) :: u8) k
    \<longleftrightarrow> k < n \<and> bit (b :: u8) k"
proof (induction n)
  case (Suc n)
  then show ?case by (auto simp: bit_simps less_Suc_eq)
qed simp

lemma byte_bits: "xor_sum (map (\<lambda>i. if bit b i then push_bit i 1 else 0) [0..<8]) = (b :: u8)"
  by (rule bit_word_eqI) (simp add: bit_xor_sum_bits del: upt_conv_Cons)

lemma gf_mul_times: "gf_mul a b = gf_times a b"
proof -
  have "gf_mul a b = gf_mul a (xor_sum (map (\<lambda>i. if bit b i then push_bit i 1 else 0) [0..<8]))"
    by (simp only: byte_bits)
  also have "\<dots> = xor_sum (map (\<lambda>i. gf_mul a (if bit b i then push_bit i 1 else 0)) [0..<8])"
    by (rule gf.mul_xor_sum)
  also have "map (\<lambda>i. gf_mul a (if bit b i then push_bit i 1 else 0)) [0..<8]
      = map (\<lambda>i. if bit b i then (gf_x2 ^^ i) a else 0) [0..<8]"
    by (rule map_cong) (simp_all add: gf_mul_push_bit del: push_bit_of_1)
  finally show ?thesis by (simp only: gf_times_def)
qed

section \<open>The inverse table\<close>

lemma gf_inv_table_tl:
  "map (\<lambda>l. gff_base ! (255 - unat l)) (tl gflog_base) = tl gf_inv_table_base"
  by (simp add: gff_base_def gflog_base_def gf_inv_table_base_def)

lemma gf_inv_table_nth: "gf_inv_table_base ! unat a = gf_inv a"
proof (cases "a = 0")
  case True
  then show ?thesis by (simp add: gf_inv_def gf_inv_table_base_def)
next
  case False
  then have a0: "0 < unat a" by (simp add: unat_gt_0)
  have a: "unat a < 256" using unsigned_less [of a, where ?'a = nat] by simp
  have lt: "unat a - 1 < length (tl gflog_base)" using a a0 by simp
  have lt': "unat a - 1 < length (tl gf_inv_table_base)" using a a0 by (simp add: gf_inv_table_base_def)
  have "tl gf_inv_table_base ! (unat a - 1) = gff_base ! (255 - unat (tl gflog_base ! (unat a - 1)))"
    unfolding gf_inv_table_tl [symmetric] nth_map [OF lt] by simp
  then show ?thesis
    unfolding nth_tl [OF lt] nth_tl [OF lt'] using a0 False by (simp add: gf_inv_def)
qed

lemma gf_x2_mul: "gf_x2 a = gf_mul 2 a"
  using gf_mul_push_bit [of 1 a] by (simp add: gf_mul_comm [of a])

end
