(* ===== verification/GF_Matrix.thy ===== *)
theory GF_Matrix
  imports GF256 Unaligned
begin

text \<open>
  The matrix functions of \<open>erasure_code/ec_base.c\<close>: the two generator matrices and the
  Gauss-Jordan inversion. A matrix is the flat row-major array of the code; its rows are
  read by \<open>row\<close>. The inversion works on the pair \<open>(in_mat, out_mat)\<close> in place, and its
  loop invariant is stated on linear systems: \<open>in_mat x = out_mat y\<close> has the same solutions
  before and after every row operation.
\<close>

section \<open>The generator matrices\<close>

text \<open>\<open>memset(a, 0, k * m)\<close> and the identity in the first \<open>k\<close> rows.\<close>

definition gf_gen_identity :: "u8 list \<Rightarrow> nat \<Rightarrow> nat \<Rightarrow> u8 list" where
  "gf_gen_identity a m k =
    foldl (\<lambda>a i. a[k * i + i := 1]) (blit a 0 (replicate (k * m) 0)) [0..<k]"

definition gf_gen_rs_row :: "nat \<Rightarrow> nat \<Rightarrow> u8 \<Rightarrow> u8 list \<Rightarrow> u8 list" where
  "gf_gen_rs_row k i gen a =
    fst (foldl (\<lambda>(a, p) j. (a[k * i + j := p], gf_mul p gen)) (a, 1) [0..<k])"

definition gf_gen_rs_matrix :: "u8 list \<Rightarrow> nat \<Rightarrow> nat \<Rightarrow> u8 list" where
  "gf_gen_rs_matrix a m k =
    fst (foldl (\<lambda>(a, gen) i. (gf_gen_rs_row k i gen a, gf_mul gen 2))
      (gf_gen_identity a m k, 1) [k..<m])"

text \<open>The pointer \<open>p\<close> runs over the rows from \<open>k\<close> on.\<close>

definition gf_gen_cauchy1_matrix :: "u8 list \<Rightarrow> nat \<Rightarrow> nat \<Rightarrow> u8 list" where
  "gf_gen_cauchy1_matrix a m k =
    fst (foldl (\<lambda>s i. foldl (\<lambda>(a, p) j. (a[p := gf_inv (of_nat (i XOR j))], p + 1)) s [0..<k])
      (gf_gen_identity a m k, k * k) [k..<m])"

section \<open>Inversion\<close>

definition gf_invert_init :: "nat \<Rightarrow> u8 list \<Rightarrow> u8 list" where
  "gf_invert_init n out_mat =
    foldl (\<lambda>b i. b[i * n + i := 1]) (foldl (\<lambda>b i. b[i := 0]) out_mat [0..<n * n]) [0..<n]"

text \<open>The row search of the pivot step: \<open>n\<close> when there is none.\<close>

definition gf_invert_find :: "nat \<Rightarrow> nat \<Rightarrow> u8 list \<Rightarrow> nat" where
  "gf_invert_find n i in_mat =
    (case find (\<lambda>j. in_mat ! (j * n + i) \<noteq> 0) [i + 1..<n] of None \<Rightarrow> n | Some j \<Rightarrow> j)"

definition gf_swap_at :: "nat \<Rightarrow> nat \<Rightarrow> u8 list \<Rightarrow> u8 list" where
  "gf_swap_at p q a = (let temp = a ! p; a = a[p := a ! q] in a[q := temp])"

definition gf_invert_swap :: "nat \<Rightarrow> nat \<Rightarrow> nat \<Rightarrow> u8 list \<times> u8 list \<Rightarrow> u8 list \<times> u8 list" where
  "gf_invert_swap n i j s =
    foldl (\<lambda>(a, b) k. (gf_swap_at (i * n + k) (j * n + k) a, gf_swap_at (i * n + k) (j * n + k) b))
      s [0..<n]"

definition gf_invert_scale :: "nat \<Rightarrow> nat \<Rightarrow> u8 list \<times> u8 list \<Rightarrow> u8 list \<times> u8 list" where
  "gf_invert_scale n i s =
    (let temp = gf_inv (fst s ! (i * n + i))
     in foldl (\<lambda>(a, b) j. (a[i * n + j := gf_mul (a ! (i * n + j)) temp],
                           b[i * n + j := gf_mul (b ! (i * n + j)) temp])) s [0..<n])"

definition gf_invert_clear :: "nat \<Rightarrow> nat \<Rightarrow> nat \<Rightarrow> u8 list \<times> u8 list \<Rightarrow> u8 list \<times> u8 list" where
  "gf_invert_clear n i j s =
    (let temp = fst s ! (j * n + i)
     in foldl (\<lambda>(a, b) k.
          (a[j * n + k := (a ! (j * n + k)) XOR gf_mul temp (a ! (i * n + k))],
           b[j * n + k := (b ! (j * n + k)) XOR gf_mul temp (b ! (i * n + k))])) s [0..<n])"

definition gf_invert_eliminate :: "nat \<Rightarrow> nat \<Rightarrow> u8 list \<times> u8 list \<Rightarrow> u8 list \<times> u8 list" where
  "gf_invert_eliminate n i s =
    foldl (\<lambda>s j. if j = i then s else gf_invert_clear n i j s) s [0..<n]"

definition gf_invert_pivot :: "nat \<Rightarrow> nat \<Rightarrow> u8 list \<times> u8 list \<Rightarrow> (u8 list \<times> u8 list) option" where
  "gf_invert_pivot n i s =
    (if fst s ! (i * n + i) = 0 then
       let j = gf_invert_find n i (fst s)
       in if j = n then None else Some (gf_invert_swap n i j s)
     else Some s)"

function gf_invert_loop :: "nat \<Rightarrow> nat \<Rightarrow> u8 list \<times> u8 list \<Rightarrow> int \<times> u8 list \<times> u8 list" where
  "gf_invert_loop n i s =
    (if i < n then
       case gf_invert_pivot n i s of
         None \<Rightarrow> (-1, s)
       | Some s \<Rightarrow> gf_invert_loop n (i + 1) (gf_invert_eliminate n i (gf_invert_scale n i s))
     else (0, s))"
  by pat_completeness auto
termination by (relation "measure (\<lambda>(n, i, s). n - i)") auto

declare gf_invert_loop.simps [simp del]

definition gf_invert_matrix :: "u8 list \<Rightarrow> u8 list \<Rightarrow> nat \<Rightarrow> int \<times> u8 list \<times> u8 list" where
  "gf_invert_matrix in_mat out_mat n = gf_invert_loop n 0 (in_mat, gf_invert_init n out_mat)"

section \<open>Rows of a flat matrix\<close>

definition row :: "nat \<Rightarrow> u8 list \<Rightarrow> nat \<Rightarrow> nat \<Rightarrow> u8" where
  "row n a i j = a ! (i * n + j)"

lemma flat_eq_iff:
  assumes "j < n" "j' < (n :: nat)"
  shows "i * n + j = i' * n + j' \<longleftrightarrow> i = i' \<and> j = j'"
proof
  assume eq: "i * n + j = i' * n + j'"
  have "(i * n + j) div n = i" "(i' * n + j') div n = i'" using assms by simp_all
  moreover from this eq have "i = i'" by simp
  ultimately show "i = i' \<and> j = j'" using eq by simp
qed simp

lemma row_update:
  assumes "length a = m * n" "i < m" "j < n" "j' < n"
  shows "row n (a[i * n + j := x]) i' j' = (if i' = i \<and> j' = j then x else row n a i' j')"
  using assms flat_less [OF assms(2,3)] flat_eq_iff [OF assms(3,4), of i i']
  by (auto simp: row_def nth_list_update)

text \<open>A loop over the columns that rewrites row \<open>r\<close> from its own entry and row \<open>s\<close>.\<close>

lemma row_loop:
  assumes len: "length a = m * n" and r: "r < m" and sr: "s \<noteq> r \<or> (\<forall>x y z. g x y = g x z)"
    and c: "c \<le> n"
  defines "loop \<equiv> foldl (\<lambda>a k. a[r * n + k := g (a ! (r * n + k)) (a ! (s * n + k))]) a [0..<c]"
  shows "length loop = m * n
    \<and> (\<forall>i' j'. j' < n \<longrightarrow>
        row n loop i' j' = (if i' = r \<and> j' < c then g (row n a r j') (row n a s j') else row n a i' j'))"
  using c unfolding loop_def
proof (induction c)
  case 0
  then show ?case by (simp add: len)
next
  case (Suc c)
  let ?b = "foldl (\<lambda>a k. a[r * n + k := g (a ! (r * n + k)) (a ! (s * n + k))]) a [0..<c]"
  from Suc have lenb: "length ?b = m * n" and cn: "c < n"
    and rowb: "\<And>i' j'. j' < n \<Longrightarrow> row n ?b i' j'
      = (if i' = r \<and> j' < c then g (row n a r j') (row n a s j') else row n a i' j')"
    by auto
  have "g (row n ?b r c) (row n ?b s c) = g (row n a r c) (row n a s c)"
    using sr cn by (auto simp: rowb)
  then have "row n (?b[r * n + c := g (row n ?b r c) (row n ?b s c)]) i' j'
      = (if i' = r \<and> j' < Suc c then g (row n a r j') (row n a s j') else row n a i' j')"
    if "j' < n" for i' j'
    using row_update [OF lenb r cn that] rowb [OF that] by auto
  then show ?case using lenb by (simp add: row_def)
qed

lemma gf_swap_loop:
  assumes len: "length a = m * n" and ij: "i < m" "j < m" "i \<noteq> j" and c: "c \<le> n"
  defines "loop \<equiv> foldl (\<lambda>a k. gf_swap_at (i * n + k) (j * n + k) a) a [0..<c]"
  shows "length loop = m * n
    \<and> (\<forall>r k. k < n \<longrightarrow> row n loop r k
        = (if k < c then row n a (if r = i then j else if r = j then i else r) k else row n a r k))"
  using c unfolding loop_def
proof (induction c)
  case 0
  then show ?case by (simp add: len)
next
  case (Suc c)
  let ?b = "foldl (\<lambda>a k. gf_swap_at (i * n + k) (j * n + k) a) a [0..<c]"
  from Suc have lenb: "length ?b = m * n" and cn: "c < n" and rowb: "\<And>r k. k < n \<Longrightarrow> row n ?b r k
      = (if k < c then row n a (if r = i then j else if r = j then i else r) k else row n a r k)"
    by auto
  let ?b1 = "?b[i * n + c := row n ?b j c]"
  have len1: "length ?b1 = m * n" by (simp add: lenb)
  have "gf_swap_at (i * n + c) (j * n + c) ?b = ?b1[j * n + c := row n ?b i c]"
    by (simp add: gf_swap_at_def row_def Let_def)
  then show ?case
    using lenb rowb cn row_update [OF len1 ij(2) cn] row_update [OF lenb ij(1) cn] ij(3)
    by (auto simp: less_Suc_eq)
qed

section \<open>Each step of the inversion\<close>

definition gf_wf :: "nat \<Rightarrow> u8 list \<times> u8 list \<Rightarrow> bool" where
  "gf_wf n s \<longleftrightarrow> length (fst s) = n * n \<and> length (snd s) = n * n"

text \<open>\<open>in_mat x = out_mat y\<close>.\<close>

definition gf_sys :: "nat \<Rightarrow> u8 list \<times> u8 list \<Rightarrow> (nat \<Rightarrow> u8) \<Rightarrow> (nat \<Rightarrow> u8) \<Rightarrow> nat \<Rightarrow> bool" where
  "gf_sys n s x y i \<longleftrightarrow> gf.dot n (row n (fst s) i) x = gf.dot n (row n (snd s) i) y"

definition gf_solves :: "nat \<Rightarrow> u8 list \<times> u8 list \<Rightarrow> (nat \<Rightarrow> u8) \<Rightarrow> (nat \<Rightarrow> u8) \<Rightarrow> bool" where
  "gf_solves n s x y \<longleftrightarrow> (\<forall>i < n. gf_sys n s x y i)"

lemma gf_sys_cong:
  assumes "\<And>k. k < n \<Longrightarrow> row n (fst s) i k = row n (fst s') i' k"
    and "\<And>k. k < n \<Longrightarrow> row n (snd s) i k = row n (snd s') i' k"
  shows "gf_sys n s x y i \<longleftrightarrow> gf_sys n s' x y i'"
proof -
  have "gf.dot n (row n (fst s) i) x = gf.dot n (row n (fst s') i') x"
    by (rule gf.dot_cong) (simp_all add: assms)
  moreover have "gf.dot n (row n (snd s) i) y = gf.dot n (row n (snd s') i') y"
    by (rule gf.dot_cong) (simp_all add: assms)
  ultimately show ?thesis by (simp only: gf_sys_def)
qed

lemma gf_swap_rows:
  assumes wf: "gf_wf n s" and ij: "i < n" "j < n" "i \<noteq> j"
  defines "t \<equiv> gf_invert_swap n i j s"
  shows "gf_wf n t"
    and "k < n \<Longrightarrow> row n (fst t) r k = row n (fst s) (if r = i then j else if r = j then i else r) k"
    and "k < n \<Longrightarrow> row n (snd t) r k = row n (snd s) (if r = i then j else if r = j then i else r) k"
proof -
  let ?f = "\<lambda>a k. gf_swap_at (i * n + k) (j * n + k) a"
  have t: "t = (foldl ?f (fst s) [0..<n], foldl ?f (snd s) [0..<n])"
    unfolding t_def gf_invert_swap_def by (cases s) (simp only: foldl_pair fst_conv snd_conv)
  note loop = gf_swap_loop [OF _ ij order_refl]
  from wf loop [of "fst s"] loop [of "snd s"]
  show "gf_wf n t"
    "k < n \<Longrightarrow> row n (fst t) r k = row n (fst s) (if r = i then j else if r = j then i else r) k"
    "k < n \<Longrightarrow> row n (snd t) r k = row n (snd s) (if r = i then j else if r = j then i else r) k"
    by (simp_all add: gf_wf_def t)
qed

lemma gf_swap_solves:
  assumes "gf_wf n s" "i < n" "j < n" "i \<noteq> j"
  shows "gf_solves n (gf_invert_swap n i j s) x y \<longleftrightarrow> gf_solves n s x y"
proof -
  let ?p = "\<lambda>r. if r = i then j else if r = j then i else r"
  have "gf_sys n (gf_invert_swap n i j s) x y r \<longleftrightarrow> gf_sys n s x y (?p r)" for r
    by (rule gf_sys_cong) (simp_all add: gf_swap_rows [OF assms])
  then show ?thesis using assms(2,3) unfolding gf_solves_def by (metis (full_types))
qed

lemma gf_scale_rows:
  assumes wf: "gf_wf n s" and i: "i < n"
  defines "t \<equiv> gf_invert_scale n i s" and "c \<equiv> gf_inv (row n (fst s) i i)"
  shows "gf_wf n t"
    and "k < n \<Longrightarrow> row n (fst t) r k = (if r = i then gf_mul (row n (fst s) i k) c else row n (fst s) r k)"
    and "k < n \<Longrightarrow> row n (snd t) r k = (if r = i then gf_mul (row n (snd s) i k) c else row n (snd s) r k)"
proof -
  let ?f = "\<lambda>a k. a[i * n + k := gf_mul (a ! (i * n + k)) c]"
  have t: "t = (foldl ?f (fst s) [0..<n], foldl ?f (snd s) [0..<n])"
    unfolding t_def gf_invert_scale_def Let_def c_def row_def
    by (cases s) (simp only: foldl_pair fst_conv snd_conv)
  note loop = row_loop [OF _ i, where s = i and g = "\<lambda>x y. gf_mul x c", OF _ _ order_refl]
  from wf loop [of "fst s"] loop [of "snd s"]
  show "gf_wf n t"
    "k < n \<Longrightarrow> row n (fst t) r k = (if r = i then gf_mul (row n (fst s) i k) c else row n (fst s) r k)"
    "k < n \<Longrightarrow> row n (snd t) r k = (if r = i then gf_mul (row n (snd s) i k) c else row n (snd s) r k)"
    by (simp_all add: gf_wf_def t)
qed

lemma gf_scale_solves:
  assumes "gf_wf n s" "i < n" "row n (fst s) i i \<noteq> 0"
  shows "gf_solves n (gf_invert_scale n i s) x y \<longleftrightarrow> gf_solves n s x y"
proof -
  let ?c = "gf_inv (row n (fst s) i i)"
  have c: "?c \<noteq> 0" using assms(3) by (rule gf.inv_neq_0)
  have "gf_sys n (gf_invert_scale n i s) x y r \<longleftrightarrow> gf_sys n s x y r" for r
  proof (cases "r = i")
    case False
    then show ?thesis by (intro gf_sys_cong) (simp_all add: gf_scale_rows [OF assms(1,2)])
  next
    case True
    have "gf.dot n (row n (fst (gf_invert_scale n i s)) i) x = gf_mul ?c (gf.dot n (row n (fst s) i) x)"
      unfolding gf.dot_mul_left [symmetric]
      by (rule gf.dot_cong) (simp_all add: gf_scale_rows [OF assms(1,2)] gf_mul_comm [of ?c])
    moreover have "gf.dot n (row n (snd (gf_invert_scale n i s)) i) y
        = gf_mul ?c (gf.dot n (row n (snd s) i) y)"
      unfolding gf.dot_mul_left [symmetric]
      by (rule gf.dot_cong) (simp_all add: gf_scale_rows [OF assms(1,2)] gf_mul_comm [of ?c])
    ultimately show ?thesis using c True by (simp add: gf_sys_def gf.mul_left_cancel)
  qed
  then show ?thesis by (simp add: gf_solves_def)
qed

lemma gf_clear_rows:
  assumes wf: "gf_wf n s" and ij: "i < n" "j < n" "i \<noteq> j"
  defines "t \<equiv> gf_invert_clear n i j s" and "c \<equiv> row n (fst s) j i"
  shows "gf_wf n t"
    and "k < n \<Longrightarrow> row n (fst t) r k
      = (if r = j then row n (fst s) j k XOR gf_mul c (row n (fst s) i k) else row n (fst s) r k)"
    and "k < n \<Longrightarrow> row n (snd t) r k
      = (if r = j then row n (snd s) j k XOR gf_mul c (row n (snd s) i k) else row n (snd s) r k)"
proof -
  let ?f = "\<lambda>a k. a[j * n + k := (a ! (j * n + k)) XOR gf_mul c (a ! (i * n + k))]"
  have t: "t = (foldl ?f (fst s) [0..<n], foldl ?f (snd s) [0..<n])"
    unfolding t_def gf_invert_clear_def Let_def c_def row_def
    by (cases s) (simp only: foldl_pair fst_conv snd_conv)
  note loop = row_loop [OF _ ij(2), where s = i and g = "\<lambda>x y. x XOR gf_mul c y", OF _ _ order_refl]
  from wf loop [of "fst s"] loop [of "snd s"] ij(3)
  show "gf_wf n t"
    "k < n \<Longrightarrow> row n (fst t) r k
      = (if r = j then row n (fst s) j k XOR gf_mul c (row n (fst s) i k) else row n (fst s) r k)"
    "k < n \<Longrightarrow> row n (snd t) r k
      = (if r = j then row n (snd s) j k XOR gf_mul c (row n (snd s) i k) else row n (snd s) r k)"
    by (simp_all add: gf_wf_def t)
qed

lemma gf_clear_solves:
  assumes "gf_wf n s" "i < n" "j < n" "i \<noteq> j"
  shows "gf_solves n (gf_invert_clear n i j s) x y \<longleftrightarrow> gf_solves n s x y"
proof -
  let ?c = "row n (fst s) j i" and ?t = "gf_invert_clear n i j s"
  note rows = gf_clear_rows [OF assms]
  have other: "gf_sys n ?t x y r \<longleftrightarrow> gf_sys n s x y r" if "r \<noteq> j" for r
    using that by (intro gf_sys_cong) (simp_all add: rows)
  have "gf.dot n (row n (fst ?t) j) x
      = gf.dot n (row n (fst s) j) x XOR gf_mul ?c (gf.dot n (row n (fst s) i) x)"
    unfolding gf.dot_mul_left [symmetric] gf.dot_xor_left [symmetric]
    by (rule gf.dot_cong) (simp_all add: rows)
  moreover have "gf.dot n (row n (snd ?t) j) y
      = gf.dot n (row n (snd s) j) y XOR gf_mul ?c (gf.dot n (row n (snd s) i) y)"
    unfolding gf.dot_mul_left [symmetric] gf.dot_xor_left [symmetric]
    by (rule gf.dot_cong) (simp_all add: rows)
  ultimately have "gf_sys n ?t x y j \<longleftrightarrow> gf_sys n s x y j" if "gf_sys n s x y i"
    using that by (simp add: gf_sys_def)
  then show ?thesis using other assms unfolding gf_solves_def by metis
qed

lemma gf_eliminate_rows:
  assumes wf: "gf_wf n s" and i: "i < n"
  defines "t \<equiv> gf_invert_eliminate n i s"
  shows "gf_wf n t \<and> (\<forall>x y. gf_solves n t x y \<longleftrightarrow> gf_solves n s x y)
    \<and> (\<forall>r < n. \<forall>k < n. row n (fst t) r k = (if r = i then row n (fst s) i k
        else row n (fst s) r k XOR gf_mul (row n (fst s) r i) (row n (fst s) i k)))"
proof -
  let ?f = "\<lambda>s j. if j = i then s else gf_invert_clear n i j s"
  have "gf_wf n (foldl ?f s [0..<c]) \<and> (\<forall>x y. gf_solves n (foldl ?f s [0..<c]) x y \<longleftrightarrow> gf_solves n s x y)
    \<and> (\<forall>r < n. \<forall>k < n. row n (fst (foldl ?f s [0..<c])) r k = (if r = i \<or> c \<le> r then row n (fst s) r k
        else row n (fst s) r k XOR gf_mul (row n (fst s) r i) (row n (fst s) i k)))" if "c \<le> n" for c
    using that
  proof (induction c)
    case 0
    then show ?case by (simp add: wf)
  next
    case (Suc c)
    let ?u = "foldl ?f s [0..<c]"
    from Suc have IH: "gf_wf n ?u" "\<And>x y. gf_solves n ?u x y \<longleftrightarrow> gf_solves n s x y" and cn: "c < n"
      and rows: "\<And>r k. r < n \<Longrightarrow> k < n \<Longrightarrow> row n (fst ?u) r k = (if r = i \<or> c \<le> r then row n (fst s) r k
        else row n (fst s) r k XOR gf_mul (row n (fst s) r i) (row n (fst s) i k))"
      by auto
    show ?case
    proof (cases "c = i")
      case True
      then show ?thesis using IH rows by (auto simp: le_Suc_eq not_less_eq_eq)
    next
      case False
      have "row n (fst ?u) c i = row n (fst s) c i" "\<And>k. k < n \<Longrightarrow> row n (fst ?u) i k = row n (fst s) i k"
        "\<And>k. k < n \<Longrightarrow> row n (fst ?u) c k = row n (fst s) c k"
        using rows cn i by simp_all
      then show ?thesis
        using False IH rows gf_clear_rows(1,2) [OF IH(1) i cn] gf_clear_solves [OF IH(1) i cn] i cn
        by auto
    qed
  qed
  from this [of n] show ?thesis unfolding t_def gf_invert_eliminate_def by simp
qed

section \<open>The loop invariant\<close>

text \<open>Columns \<open>< i\<close> of \<open>in_mat\<close> are those of the identity.\<close>

definition gf_cols_done :: "nat \<Rightarrow> nat \<Rightarrow> u8 list \<Rightarrow> bool" where
  "gf_cols_done n i a \<longleftrightarrow> (\<forall>r < n. \<forall>k < i. row n a r k = gf.ident r k)"

lemma gf_invert_find_SomeD:
  assumes "gf_invert_find n i a = j" "j \<noteq> n"
  shows "i < j" "j < n" "row n a j i \<noteq> 0"
proof -
  let ?P = "\<lambda>j. a ! (j * n + i) \<noteq> 0"
  from assms have f: "find ?P [i + 1..<n] = Some j"
    by (simp add: gf_invert_find_def split: option.splits)
  from find_Some_iff [THEN iffD1, OF f] obtain l
    where l: "l < length [i + 1..<n]" "?P ([i + 1..<n] ! l)" "j = [i + 1..<n] ! l" by blast
  then have "j \<in> set [i + 1..<n]" by (metis nth_mem)
  with l show "i < j" "j < n" "row n a j i \<noteq> 0" by (auto simp: row_def)
qed

lemma gf_invert_find_None:
  assumes "gf_invert_find n i a = n"
  shows "\<forall>j. i < j \<longrightarrow> j < n \<longrightarrow> row n a j i = 0"
proof -
  let ?P = "\<lambda>j. a ! (j * n + i) \<noteq> 0"
  have "find ?P [i + 1..<n] \<noteq> Some n"
  proof
    assume "find ?P [i + 1..<n] = Some n"
    then obtain l where "l < length [i + 1..<n]" "n = [i + 1..<n] ! l"
      using find_Some_iff by metis
    then have "n \<in> set [i + 1..<n]" by (metis nth_mem)
    then show False by simp
  qed
  with assms have "find ?P [i + 1..<n] = None"
    by (auto simp: gf_invert_find_def split: option.splits)
  then show ?thesis by (auto simp: find_None_iff row_def)
qed

lemma gf_pivot_Some:
  assumes wf: "gf_wf n s" and i: "i < n" and cols: "gf_cols_done n i (fst s)"
    and p: "gf_invert_pivot n i s = Some t"
  shows "gf_wf n t" "gf_cols_done n i (fst t)" "row n (fst t) i i \<noteq> 0"
    "gf_solves n t x y \<longleftrightarrow> gf_solves n s x y"
proof -
  have "gf_wf n t \<and> gf_cols_done n i (fst t) \<and> row n (fst t) i i \<noteq> 0
    \<and> (gf_solves n t x y \<longleftrightarrow> gf_solves n s x y)"
  proof (cases "row n (fst s) i i = 0")
    case False
    with p wf cols show ?thesis by (simp add: gf_invert_pivot_def row_def)
  next
    case True
    define j where "j = gf_invert_find n i (fst s)"
    from True p have j: "j \<noteq> n" and t: "t = gf_invert_swap n i j s"
      by (auto simp: gf_invert_pivot_def row_def j_def Let_def split: if_splits)
    note f = gf_invert_find_SomeD [OF j_def [symmetric] j]
    have ij: "i \<noteq> j" using f by simp
    note rows = gf_swap_rows [OF wf i f(2) ij, folded t]
    have "gf_cols_done n i (fst t)"
      using cols i f(1,2) by (auto simp: gf_cols_done_def rows gf.ident_def)
    then show ?thesis using rows i f(3) gf_swap_solves [OF wf i f(2) ij, of x y, folded t] by simp
  qed
  then show "gf_wf n t" "gf_cols_done n i (fst t)" "row n (fst t) i i \<noteq> 0"
    "gf_solves n t x y \<longleftrightarrow> gf_solves n s x y" by simp_all
qed

text \<open>When no pivot is left, the column is a combination of the finished ones.\<close>

lemma gf_pivot_None:
  assumes i: "i < n" and cols: "gf_cols_done n i (fst s)" and p: "gf_invert_pivot n i s = None"
  shows "\<exists>x. (\<exists>k < n. x k \<noteq> 0) \<and> gf_solves n s x (\<lambda>_. 0)"
proof (rule exI, rule conjI)
  let ?x = "\<lambda>k. if k < i then row n (fst s) k i else if k = i then 1 else 0"
  show "\<exists>k < n. ?x k \<noteq> 0" using i by (intro exI [of _ i]) simp
  from p have ii: "row n (fst s) i i = 0" and "gf_invert_find n i (fst s) = n"
    by (auto simp: gf_invert_pivot_def row_def Let_def split: if_splits)
  then have zero: "row n (fst s) r i = 0" if "i \<le> r" "r < n" for r
    using gf_invert_find_None [of n i "fst s"] that by (cases "r = i") auto
  have "gf.dot n (row n (fst s) r) ?x = 0" if r: "r < n" for r
  proof -
    have upt: "[0..<n] = [0..<i] @ i # [Suc i..<n]"
      using i by (metis le_add1 less_imp_le_nat upt_add_eq_append upt_conv_Cons le_add_diff_inverse zero_le)
    have parts: "map (\<lambda>k. gf_mul (row n (fst s) r k) (?x k)) [0..<i]
        = map (\<lambda>k. gf_mul (row n (fst s) r k) (row n (fst s) k i)) [0..<i]"
      "map (\<lambda>k. gf_mul (row n (fst s) r k) (?x k)) [Suc i..<n] = map (\<lambda>_. 0) [Suc i..<n]"
      by simp_all
    have "gf.dot n (row n (fst s) r) ?x
        = xor_sum (map (\<lambda>k. gf_mul (row n (fst s) r k) (row n (fst s) k i)) [0..<i]) XOR row n (fst s) r i"
      unfolding gf.dot_def upt map_append list.map parts xor_sum_append xor_sum_Cons xor_sum_map_0
      by simp
    also have "map (\<lambda>k. gf_mul (row n (fst s) r k) (row n (fst s) k i)) [0..<i]
        = map (\<lambda>k. gf_mul (gf.ident r k) (row n (fst s) k i)) [0..<i]"
      using cols r by (simp add: gf_cols_done_def)
    also have "xor_sum \<dots> = row n (fst s) r i"
    proof (cases "r < i")
      case True
      then show ?thesis using gf.dot_ident [of r i "\<lambda>k. row n (fst s) k i"] by (simp add: gf.dot_def)
    next
      case False
      then have "map (\<lambda>k. gf_mul (gf.ident r k) (row n (fst s) k i)) [0..<i] = map (\<lambda>_. 0) [0..<i]"
        by (auto simp: gf.ident_def)
      with False r zero [of r] show ?thesis by (simp only: xor_sum_map_0)
    qed
    finally show ?thesis by simp
  qed
  then show "gf_solves n s ?x (\<lambda>_. 0)" by (simp add: gf_solves_def gf_sys_def)
qed

lemma gf_step_cols:
  assumes wf: "gf_wf n t" and cols: "gf_cols_done n i (fst t)" and i: "i < n" and ii: "row n (fst t) i i \<noteq> 0"
  defines "u \<equiv> gf_invert_eliminate n i (gf_invert_scale n i t)"
  shows "gf_wf n u" "gf_cols_done n (i + 1) (fst u)" "gf_solves n u x y \<longleftrightarrow> gf_solves n t x y"
proof -
  let ?v = "gf_invert_scale n i t"
  note sc = gf_scale_rows [OF wf i]
  note el = gf_eliminate_rows [OF sc(1) i, folded u_def]
  show "gf_wf n u" using el by blast
  show "gf_solves n u x y \<longleftrightarrow> gf_solves n t x y"
    using el gf_scale_solves [OF wf i ii, of x y] by blast
  have scaled: "row n (fst ?v) i i = 1" by (simp add: sc(2) i gf.mul_inv ii)
  have "row n (fst u) r k = gf.ident r k" if r: "r < n" and k: "k < i + 1" for r k
  proof -
    from i k have kn: "k < n" by simp
    have u: "row n (fst u) r k = (if r = i then row n (fst ?v) i k
        else row n (fst ?v) r k XOR gf_mul (row n (fst ?v) r i) (row n (fst ?v) i k))"
      using el r kn by blast
    show ?thesis
    proof (cases "k = i")
      case True
      then show ?thesis using u scaled by (simp add: gf.ident_def)
    next
      case False
      with k have ki: "k < i" by simp
      then have "row n (fst ?v) i k = 0"
        using cols i kn by (simp add: sc(2) gf_cols_done_def gf.ident_def)
      moreover have "row n (fst ?v) r k = gf.ident r k" if "r \<noteq> i"
        using cols r ki kn that by (simp add: sc(2) gf_cols_done_def)
      ultimately show ?thesis using u ki by (auto simp: gf.ident_def)
    qed
  qed
  then show "gf_cols_done n (i + 1) (fst u)" by (simp add: gf_cols_done_def)
qed

lemma gf_invert_loop_correct:
  assumes "gf_wf n s" "gf_cols_done n i (fst s)" "i \<le> n" "gf_invert_loop n i s = (ret, t)"
  shows "ret = 0 \<and> gf_wf n t \<and> gf_cols_done n n (fst t)
      \<and> (\<forall>x y. gf_solves n t x y \<longleftrightarrow> gf_solves n s x y)
    \<or> ret = -1 \<and> (\<exists>x. (\<exists>k < n. x k \<noteq> 0) \<and> gf_solves n s x (\<lambda>_. 0))"
  using assms
proof (induction n i s rule: gf_invert_loop.induct)
  case (1 n i s)
  show ?case
  proof (cases "i < n")
    case False
    with 1(4) have "i = n" by simp
    moreover have "gf_invert_loop n n s = (0, s)" by (simp add: gf_invert_loop.simps [of n n])
    ultimately show ?thesis using 1(2-5) by simp
  next
    case i: True
    show ?thesis
    proof (cases "gf_invert_pivot n i s")
      case None
      with 1(5) i have "ret = -1" by (simp add: gf_invert_loop.simps [of n i])
      with gf_pivot_None [OF i 1(3) None] show ?thesis by simp
    next
      case (Some v)
      let ?u = "gf_invert_eliminate n i (gf_invert_scale n i v)"
      note pv = gf_pivot_Some [OF 1(2) i 1(3) Some]
      note st = gf_step_cols [OF pv(1,2) i pv(3)]
      have "gf_invert_loop n (i + 1) ?u = (ret, t)"
        using 1(5) i Some by (simp add: gf_invert_loop.simps [of n i])
      moreover have "i + 1 \<le> n" using i by simp
      ultimately show ?thesis using 1(1) [OF i Some st(1,2)] pv(4) st(3) by simp
    qed
  qed
qed

section \<open>The whole inversion\<close>

lemma foldl_zeros:
  "c \<le> length b \<Longrightarrow> foldl (\<lambda>b i. b[i := 0]) b [0..<c] = replicate c (0 :: u8) @ drop c b"
proof (induction c)
  case (Suc c)
  then have "drop c b = (b ! c) # drop (Suc c) b" by (simp add: Cons_nth_drop_Suc)
  with Suc show ?case by (simp add: list_update_append flip: replicate_append_same)
qed simp

lemma row_ones:
  assumes "length a = m * n" "n \<le> m" "c \<le> n"
  shows "length (foldl (\<lambda>b i. b[i * n + i := 1]) a [0..<c]) = m * n
    \<and> (\<forall>r k. k < n \<longrightarrow> row n (foldl (\<lambda>b i. b[i * n + i := 1]) a [0..<c]) r k
      = (if r = k \<and> k < c then 1 else row n a r k))"
  using assms(3)
proof (induction c)
  case (Suc c)
  let ?b = "foldl (\<lambda>b i. b[i * n + i := 1]) a [0..<c]"
  from Suc assms have b: "length ?b = m * n" "c < m" "c < n" and
    rows: "\<And>r k. k < n \<Longrightarrow> row n ?b r k = (if r = k \<and> k < c then 1 else row n a r k)"
    by auto
  then show ?case using row_update [OF b] by (auto simp: less_Suc_eq)
qed (use assms in simp)

lemma row_zeros: "i < m \<Longrightarrow> j < n \<Longrightarrow> row n (replicate (m * n) 0 @ a) i j = 0"
  by (simp add: row_def nth_append flat_less)

lemma gf_invert_init_rows:
  assumes "length b = n * n"
  shows "length (gf_invert_init n b) = n * n"
    "i < n \<Longrightarrow> j < n \<Longrightarrow> row n (gf_invert_init n b) i j = gf.ident i j"
proof -
  let ?z = "replicate (n * n) (0 :: u8)"
  have "gf_invert_init n b = foldl (\<lambda>b i. b[i * n + i := 1]) ?z [0..<n]"
    using foldl_zeros [of "n * n" b] assms by (simp add: gf_invert_init_def)
  then show "length (gf_invert_init n b) = n * n"
    "i < n \<Longrightarrow> j < n \<Longrightarrow> row n (gf_invert_init n b) i j = gf.ident i j"
    using row_ones [of ?z n n n] row_zeros [of i n j n "[]"] by (auto simp: gf.ident_def)
qed

lemma gf_solves_init:
  assumes "length b = n * n"
  shows "gf_solves n (a, gf_invert_init n b) x y \<longleftrightarrow> (\<forall>i < n. gf.dot n (row n a i) x = y i)"
proof -
  have "gf.dot n (row n (gf_invert_init n b) i) y = y i" if "i < n" for i
    using gf.dot_cong [of n "row n (gf_invert_init n b) i" "gf.ident i" y y]
      gf_invert_init_rows [OF assms] that by (simp add: gf.dot_ident)
  then show ?thesis by (simp add: gf_solves_def gf_sys_def)
qed

lemma gf_invert_matrix_solves:
  assumes "length a = n * n" "length b = n * n" "gf_invert_matrix a b n = (0, a', b')"
  shows "length b' = n * n"
    "(\<forall>i < n. x i = gf.dot n (row n b' i) y) \<longleftrightarrow> (\<forall>i < n. gf.dot n (row n a i) x = y i)"
proof -
  let ?s = "(a, gf_invert_init n b)"
  have "gf_wf n ?s" "gf_cols_done n 0 (fst ?s)"
    using assms gf_invert_init_rows by (simp_all add: gf_wf_def gf_cols_done_def)
  from gf_invert_loop_correct [OF this _ assms(3) [unfolded gf_invert_matrix_def]]
  have wf: "gf_wf n (a', b')" and cols: "gf_cols_done n n a'"
    and sol: "gf_solves n (a', b') x y \<longleftrightarrow> gf_solves n ?s x y" by simp_all
  from wf show "length b' = n * n" by (simp add: gf_wf_def)
  have "gf.dot n (row n a' i) x = x i" if "i < n" for i
    using gf.dot_cong [of n "row n a' i" "gf.ident i" x x] cols that
    by (simp add: gf_cols_done_def gf.dot_ident)
  then show "(\<forall>i < n. x i = gf.dot n (row n b' i) y) \<longleftrightarrow> (\<forall>i < n. gf.dot n (row n a i) x = y i)"
    using sol gf_solves_init [OF assms(2)] by (simp add: gf_solves_def gf_sys_def)
qed

lemma gf_invert_matrix_cases:
  assumes "length a = n * n" "length b = n * n"
  shows "fst (gf_invert_matrix a b n) = 0
    \<or> fst (gf_invert_matrix a b n) = -1
      \<and> (\<exists>x. (\<exists>k < n. x k \<noteq> 0) \<and> (\<forall>i < n. gf.dot n (row n a i) x = 0))"
proof -
  obtain ret t where r: "gf_invert_matrix a b n = (ret, t)" by (metis surj_pair)
  let ?s = "(a, gf_invert_init n b)"
  have "gf_wf n ?s" "gf_cols_done n 0 (fst ?s)"
    using assms gf_invert_init_rows by (simp_all add: gf_wf_def gf_cols_done_def)
  from gf_invert_loop_correct [OF this _ r [unfolded gf_invert_matrix_def]]
  show ?thesis using r by (auto simp: gf_solves_init [OF assms(2)])
qed

section \<open>The rows of the generator matrices\<close>

lemma row_blit:
  assumes "length a = m * n" "i < m" "length xs = n" "j < n"
  shows "row n (blit a (i * n) xs) r j = (if r = i then xs ! j else row n a r j)"
proof -
  have le: "i * n + n \<le> m * n" using assms(2) by (metis Suc_leI add.commute mult_Suc mult_le_mono1)
  consider "r < i" | "r = i" | "i < r" by linarith
  then show ?thesis
  proof cases
    case 1
    then show ?thesis using le assms flat_less [OF 1, of j n]
      by (simp add: row_def blit_def nth_append)
  next
    case 2
    then show ?thesis using le assms by (simp add: row_def blit_def nth_append)
  next
    case 3
    have "i * n + n \<le> r * n" using 3 by (metis Suc_leI add.commute mult_Suc mult_le_mono1)
    then have "\<not> r * n + j < i * n" "\<not> r * n + j - i * n < n"
      "i * n + n + (r * n + j - i * n - n) = r * n + j" by simp_all
    with le 3 assms show ?thesis by (simp add: row_def blit_def nth_append)
  qed
qed

lemma blit_snoc:
  assumes "p + length xs < length a"
  shows "(blit a p xs)[p + length xs := x] = blit a p (xs @ [x])"
proof -
  have "drop (p + length xs) a = (a ! (p + length xs)) # drop (Suc (p + length xs)) a"
    using assms by (simp add: Cons_nth_drop_Suc)
  then show ?thesis using assms by (simp add: blit_def list_update_append)
qed

lemma write_loop:
  assumes "p + c \<le> length a"
  shows "foldl (\<lambda>(a, p) j. (a[p := f j], p + 1)) (a, p) [0..<c] = (blit a p (map f [0..<c]), p + c)"
  using assms
proof (induction c)
  case 0
  then show ?case by (simp add: blit_def)
next
  case (Suc c)
  then show ?case using blit_snoc [of p "map f [0..<c]" a "f c"] by simp
qed

lemma gf_gen_identity_rows:
  assumes "length a = m * k" "k \<le> m"
  shows "length (gf_gen_identity a m k) = m * k"
    "i < m \<Longrightarrow> j < k \<Longrightarrow> row k (gf_gen_identity a m k) i j = gf.ident i j"
proof -
  let ?z = "replicate (m * k) (0 :: u8)"
  have "gf_gen_identity a m k = foldl (\<lambda>b i. b[i * k + i := 1]) ?z [0..<k]"
    using assms(1) by (simp add: gf_gen_identity_def blit_def mult.commute)
  then show "length (gf_gen_identity a m k) = m * k"
    "i < m \<Longrightarrow> j < k \<Longrightarrow> row k (gf_gen_identity a m k) i j = gf.ident i j"
    using row_ones [of ?z m k k] row_zeros [of i m j k "[]"] assms by (auto simp: gf.ident_def)
qed

lemma gf_gen_cauchy1_rows:
  assumes "length a = m * k" "k \<le> m"
  shows "length (gf_gen_cauchy1_matrix a m k) = m * k"
    "i < m \<Longrightarrow> j < k \<Longrightarrow> row k (gf_gen_cauchy1_matrix a m k) i j
      = (if i < k then gf.ident i j else gf_inv (of_nat (i XOR j)))"
proof -
  let ?f = "\<lambda>s i. foldl (\<lambda>(a, p) j. (a[p := gf_inv (of_nat (i XOR j))], p + 1)) s [0..<k]"
  let ?a = "gf_gen_identity a m k"
  have "\<exists>b. foldl ?f (?a, k * k) [k..<k + c] = (b, (k + c) * k) \<and> length b = m * k
    \<and> (\<forall>i j. i < m \<longrightarrow> j < k \<longrightarrow> row k b i j
        = (if k \<le> i \<and> i < k + c then gf_inv (of_nat (i XOR j)) else gf.ident i j))" if "k + c \<le> m" for c
    using that
  proof (induction c)
    case 0
    then show ?case using gf_gen_identity_rows [OF assms] by auto
  next
    case (Suc c)
    then obtain b where b: "foldl ?f (?a, k * k) [k..<k + c] = (b, (k + c) * k)" "length b = m * k"
      and rows: "\<And>i j. i < m \<Longrightarrow> j < k \<Longrightarrow> row k b i j
        = (if k \<le> i \<and> i < k + c then gf_inv (of_nat (i XOR j)) else gf.ident i j)"
      by auto
    have i: "k + c < m" using Suc.prems by simp
    then have "Suc (k + c) * k \<le> m * k" by (intro mult_le_mono1) simp
    then have le: "(k + c) * k + k \<le> length b" using b(2) by simp
    let ?xs = "map (\<lambda>j. gf_inv (of_nat ((k + c) XOR j))) [0..<k]"
    have "foldl ?f (?a, k * k) [k..<k + Suc c] = (blit b ((k + c) * k) ?xs, (k + Suc c) * k)"
      using b(1) write_loop [OF le] by simp
    moreover have "row k (blit b ((k + c) * k) ?xs) i j
      = (if k \<le> i \<and> i < k + Suc c then gf_inv (of_nat (i XOR j)) else gf.ident i j)"
      if "i < m" "j < k" for i j
      using row_blit [OF b(2) i _ that(2), of ?xs i] rows [OF that] that by auto
    ultimately show ?case using le b(2) by auto
  qed
  from this [of "m - k"] assms obtain b where "foldl ?f (?a, k * k) [k..<m] = (b, m * k)"
    "length b = m * k"
    and "\<forall>i j. i < m \<longrightarrow> j < k \<longrightarrow> row k b i j
        = (if k \<le> i \<and> i < m then gf_inv (of_nat (i XOR j)) else gf.ident i j)" by auto
  then show "length (gf_gen_cauchy1_matrix a m k) = m * k"
    "i < m \<Longrightarrow> j < k \<Longrightarrow> row k (gf_gen_cauchy1_matrix a m k) i j
      = (if i < k then gf.ident i j else gf_inv (of_nat (i XOR j)))"
    by (auto simp: gf_gen_cauchy1_matrix_def)
qed

text \<open>Row \<open>i\<close> of the Vandermonde part holds the powers of \<open>2\<^sup>i\<^sup>-\<^sup>k\<close>.\<close>

fun gf_pow :: "u8 \<Rightarrow> nat \<Rightarrow> u8" where
  "gf_pow g 0 = 1"
| "gf_pow g (Suc n) = gf_mul (gf_pow g n) g"

lemma gf_gen_rs_row_rows:
  assumes len: "length a = m * k" and i: "i < m" and c: "c \<le> k"
  shows "\<exists>b. foldl (\<lambda>(a, p) j. (a[k * i + j := p], gf_mul p gen)) (a, 1) [0..<c] = (b, gf_pow gen c)
    \<and> length b = m * k
    \<and> (\<forall>r j. j < k \<longrightarrow> row k b r j = (if r = i \<and> j < c then gf_pow gen j else row k a r j))"
  using c
proof (induction c)
  case 0
  then show ?case using len by simp
next
  case (Suc c)
  then obtain b where b: "foldl (\<lambda>(a, p) j. (a[k * i + j := p], gf_mul p gen)) (a, 1) [0..<c]
      = (b, gf_pow gen c)" "length b = m * k"
    and rows: "\<And>r j. j < k \<Longrightarrow> row k b r j = (if r = i \<and> j < c then gf_pow gen j else row k a r j)"
    by auto
  have ck: "c < k" using Suc.prems by simp
  show ?case
    using b rows row_update [OF b(2) i ck] by (auto simp: mult.commute [of k i] less_Suc_eq)
qed

lemma gf_gen_rs_rows:
  assumes "length a = m * k" "k \<le> m"
  shows "length (gf_gen_rs_matrix a m k) = m * k"
    "i < m \<Longrightarrow> j < k \<Longrightarrow> row k (gf_gen_rs_matrix a m k) i j
      = (if i < k then gf.ident i j else gf_pow (gf_pow 2 (i - k)) j)"
proof -
  let ?f = "\<lambda>(a, gen) i. (gf_gen_rs_row k i gen a, gf_mul gen 2)"
  let ?a = "gf_gen_identity a m k"
  have "\<exists>b. foldl ?f (?a, 1) [k..<k + c] = (b, gf_pow 2 c) \<and> length b = m * k
    \<and> (\<forall>i j. i < m \<longrightarrow> j < k \<longrightarrow> row k b i j
        = (if k \<le> i \<and> i < k + c then gf_pow (gf_pow 2 (i - k)) j else gf.ident i j))" if "k + c \<le> m" for c
    using that
  proof (induction c)
    case 0
    then show ?case using gf_gen_identity_rows [OF assms] by auto
  next
    case (Suc c)
    then obtain b where b: "foldl ?f (?a, 1) [k..<k + c] = (b, gf_pow 2 c)" "length b = m * k"
      and rows: "\<And>i j. i < m \<Longrightarrow> j < k \<Longrightarrow> row k b i j
        = (if k \<le> i \<and> i < k + c then gf_pow (gf_pow 2 (i - k)) j else gf.ident i j)"
      by auto
    have i: "k + c < m" using Suc.prems by simp
    from gf_gen_rs_row_rows [OF b(2) i order_refl, of "gf_pow 2 c"] b rows show ?case
      by (auto simp: gf_gen_rs_row_def less_Suc_eq)
  qed
  from this [of "m - k"] assms obtain b g where "foldl ?f (?a, 1) [k..<m] = (b, g)"
    "length b = m * k"
    and "\<forall>i j. i < m \<longrightarrow> j < k \<longrightarrow> row k b i j
        = (if k \<le> i \<and> i < m then gf_pow (gf_pow 2 (i - k)) j else gf.ident i j)" by auto
  then show "length (gf_gen_rs_matrix a m k) = m * k"
    "i < m \<Longrightarrow> j < k \<Longrightarrow> row k (gf_gen_rs_matrix a m k) i j
      = (if i < k then gf.ident i j else gf_pow (gf_pow 2 (i - k)) j)"
    by (auto simp: gf_gen_rs_matrix_def)
qed

section \<open>Every choice of \<open>k\<close> rows of the Cauchy matrix is invertible\<close>

definition gf_select_rows :: "nat \<Rightarrow> u8 list \<Rightarrow> nat list \<Rightarrow> u8 list" where
  "gf_select_rows k a sel = concat (map (\<lambda>r. map (\<lambda>j. a ! (k * r + j)) [0..<k]) sel)"

lemma length_gf_select_rows [simp]: "length (gf_select_rows k a sel) = length sel * k"
  by (induction sel) (simp_all add: gf_select_rows_def)

lemma row_select_rows:
  assumes "i < length sel" "j < k"
  shows "row k (gf_select_rows k a sel) i j = row k a (sel ! i) j"
  using assms unfolding row_def gf_select_rows_def
  by (subst nth_concat_blocks) (simp_all add: mult.commute)

lemma of_nat_xor_u8: "(of_nat (i XOR j) :: u8) = of_nat i XOR of_nat j"
  by (rule bit_word_eqI) (simp add: bit_simps)

lemma of_nat_inj_u8: "i < 256 \<Longrightarrow> j < 256 \<Longrightarrow> (of_nat i :: u8) = of_nat j \<longleftrightarrow> i = j"
proof -
  assume "i < 256" "j < 256"
  then have "unat (of_nat i :: u8) = i" "unat (of_nat j :: u8) = j"
    by (simp_all add: unat_of_nat)
  then show ?thesis by metis
qed

lemma gf_cauchy_kernel:
  assumes len: "length a = m * k" and mk: "k \<le> m" "m \<le> 256"
    and sel: "length sel = k" "distinct sel" "set sel \<subseteq> {..<m}"
    and x: "\<forall>i < k. gf.dot k (row k (gf_gen_cauchy1_matrix a m k) (sel ! i)) x = 0"
  shows "\<forall>j < k. x j = 0"
proof -
  let ?M = "gf_gen_cauchy1_matrix a m k"
  note rows = gf_gen_cauchy1_rows(2) [OF len mk(1)]
  have xr: "gf.dot k (row k ?M r) x = 0" if "r \<in> set sel" for r
    using that x sel(1) by (metis in_set_conv_nth)
  have known: "x r = 0" if "r \<in> set sel" "r < k" for r
  proof -
    have "gf.dot k (row k ?M r) x = gf.dot k (gf.ident r) x"
      using that mk by (intro gf.dot_cong) (simp_all add: rows)
    then show ?thesis using xr that by (simp add: gf.dot_ident)
  qed
  define T where "T = filter (\<lambda>r. k \<le> r) sel"
  define C where "C = filter (\<lambda>j. j \<notin> set sel) [0..<k]"
  have "length T = length C"
  proof -
    have "set sel = set T \<union> {j \<in> set sel. j < k}" "set T \<inter> {j \<in> set sel. j < k} = {}"
      by (auto simp: T_def)
    moreover have "{..<k} = set C \<union> {j \<in> set sel. j < k}" "set C \<inter> {j \<in> set sel. j < k} = {}"
      by (auto simp: C_def)
    moreover have "card (set sel) = card {..<k}" using sel by (simp add: distinct_card)
    ultimately have "card (set T) = card (set C)"
      by (metis (no_types, lifting) List.finite_set card_Un_disjoint add_right_cancel finite_Un finite_lessThan)
    moreover have "distinct T" "distinct C" using sel(2) by (simp_all add: T_def C_def)
    ultimately show ?thesis by (simp only: distinct_card)
  qed
  define bxs where "bxs = map (\<lambda>j. (of_nat j :: u8, x j)) C"
  have "\<forall>y \<in> snd ` set bxs. y = 0"
  proof (rule gf.cauchy_kernel)
    show "length (map of_nat T :: u8 list) = length bxs"
      using \<open>length T = length C\<close> by (simp add: bxs_def)
    have Tm: "\<And>r. r \<in> set T \<Longrightarrow> r < 256" and Cm: "\<And>j. j \<in> set C \<Longrightarrow> j < 256"
      using sel(3) mk by (auto simp: T_def C_def)
    have "distinct T" "distinct C" using sel(2) by (simp_all add: T_def C_def)
    then show "distinct (map of_nat T :: u8 list)" "distinct (map fst bxs)"
      using Tm Cm of_nat_inj_u8 by (auto simp: distinct_map inj_on_def bxs_def comp_def)
    have "set T \<inter> set C = {}" by (auto simp: T_def C_def)
    then show "set (map of_nat T :: u8 list) \<inter> fst ` set bxs = {}"
      using Tm Cm of_nat_inj_u8 by (auto simp: bxs_def image_image disjoint_iff)
    have "gf.cauchy_row (of_nat r) bxs = 0" if "r \<in> set T" for r
    proof -
      from that have r: "r \<in> set sel" "k \<le> r" "r < m" using sel(3) by (auto simp: T_def)
      have split: "xor_sum (map f xs) = xor_sum (map f (filter P xs))"
        if "\<And>j. j \<in> set xs \<Longrightarrow> \<not> P j \<Longrightarrow> f j = 0" for f :: "nat \<Rightarrow> u8" and P xs
        using that by (induction xs) auto
      have "0 = gf.dot k (row k ?M r) x" using xr r by simp
      also have "\<dots> = xor_sum (map (\<lambda>j. gf_mul (row k ?M r j) (x j)) C)"
        unfolding gf.dot_def C_def by (rule split) (use known in auto)
      also have "map (\<lambda>j. gf_mul (row k ?M r j) (x j)) C
          = map (\<lambda>j. gf_mul (x j) (gf_inv (of_nat r XOR of_nat j))) C"
        using r by (intro map_cong) (auto simp: C_def rows of_nat_xor_u8 gf_mul_comm)
      finally show ?thesis by (simp add: gf.cauchy_row_def bxs_def comp_def)
    qed
    then show "\<forall>a \<in> set (map of_nat T). gf.cauchy_row a bxs = 0" by simp
  qed
  then have "x j = 0" if "j \<in> set C" for j using that by (auto simp: bxs_def image_image)
  with known show ?thesis by (auto simp: C_def)
qed

end
