(* ===== verification/EC_Base.thy ===== *)
theory EC_Base
  imports GF_Matrix
begin

text \<open>
  The erasure code of \<open>erasure_code/ec_base.c\<close>: the 32-byte tables of
  \<open>gf_vect_mul_init_base\<close> (both preprocessor variants), their initialisation for a whole
  matrix, and the encode, update, dot product, multiply-add and multiply loops. A buffer
  is a byte list, an array of buffers a list of lists, and \<open>g_tbls\<close> one flat array; a
  function returns the buffer it writes.
\<close>

section \<open>The multiplication tables\<close>

text \<open>The 64-bit little-endian variant: four 64-bit stores.\<close>

definition gf_vect_mul_init_base :: "u8 \<Rightarrow> u8 list \<Rightarrow> nat \<Rightarrow> u8 list" where
  "gf_vect_mul_init_base c tbl off =
    (let c2 = gf_x2 c;
         c4 = gf_x2 c2;
         c8 = gf_x2 c4;
         v1 = (ucast c :: u64) * 0x0100010001000100;
         v2 = (ucast c2 :: u64) * 0x0101000001010000;
         v4 = (ucast c4 :: u64) * 0x0101010100000000;
         v8 = (ucast c8 :: u64) * 0x0101010101010101;
         v4 = v1 XOR (v2 XOR v4);
         tbl = store_le_u64 tbl off v4;
         tbl = store_le_u64 tbl (off + 8) (v8 XOR v4);
         c17 = gf_x2 c8;
         c18 = gf_x2 c17;
         c20 = gf_x2 c18;
         c24 = gf_x2 c20;
         v10 = (ucast c17 :: u64) * 0x0100010001000100;
         v20 = (ucast c18 :: u64) * 0x0101000001010000;
         v40 = (ucast c20 :: u64) * 0x0101010100000000;
         v80 = (ucast c24 :: u64) * 0x0101010101010101;
         v40 = v10 XOR (v20 XOR v40);
         tbl = store_le_u64 tbl (off + 16) v40
     in store_le_u64 tbl (off + 24) (v80 XOR v40))"

text \<open>The variant for other hosts: 32 byte stores.\<close>

definition gf_vect_mul_init_base_32 :: "u8 \<Rightarrow> u8 list \<Rightarrow> nat \<Rightarrow> u8 list" where
  "gf_vect_mul_init_base_32 c tbl off =
    (let c2 = gf_x2 c;
         c4 = gf_x2 c2;
         c8 = gf_x2 c4;
         c3 = c2 XOR c;
         c5 = c4 XOR c;
         c6 = c4 XOR c2;
         c7 = c4 XOR c3;
         c9 = c8 XOR c;
         c10 = c8 XOR c2;
         c11 = c8 XOR c3;
         c12 = c8 XOR c4;
         c13 = c8 XOR c5;
         c14 = c8 XOR c6;
         c15 = c8 XOR c7;
         tbl = blit tbl off [0, c, c2, c3, c4, c5, c6, c7, c8, c9, c10, c11, c12, c13, c14, c15];
         c17 = gf_x2 c8;
         c18 = gf_x2 c17;
         c19 = c18 XOR c17;
         c20 = gf_x2 c18;
         c21 = c20 XOR c17;
         c22 = c20 XOR c18;
         c23 = c20 XOR c19;
         c24 = gf_x2 c20;
         c25 = c24 XOR c17;
         c26 = c24 XOR c18;
         c27 = c24 XOR c19;
         c28 = c24 XOR c20;
         c29 = c24 XOR c21;
         c30 = c24 XOR c22;
         c31 = c24 XOR c23
     in blit tbl (off + 16)
          [0, c17, c18, c19, c20, c21, c22, c23, c24, c25, c26, c27, c28, c29, c30, c31])"

text \<open>\<open>a\<close> and \<open>g_tbls\<close> advance with the two loops.\<close>

definition ec_init_tables_base :: "nat \<Rightarrow> nat \<Rightarrow> u8 list \<Rightarrow> u8 list \<Rightarrow> u8 list" where
  "ec_init_tables_base k rows a g_tbls =
    fst (foldl (\<lambda>s i. foldl (\<lambda>(tbl, ap, gp) j. (gf_vect_mul_init_base (a ! ap) tbl gp, ap + 1, gp + 32))
        s [0..<k]) (g_tbls, 0 :: nat, 0 :: nat) [0..<rows])"

section \<open>Encoding\<close>

definition gf_vect_dot_prod_base ::
    "nat \<Rightarrow> nat \<Rightarrow> u8 list \<Rightarrow> u8 list list \<Rightarrow> u8 list \<Rightarrow> u8 list" where
  "gf_vect_dot_prod_base len vlen v src dest =
    foldl (\<lambda>dest i.
      let s = foldl (\<lambda>s j. s XOR gf_mul (src ! j ! i) (v ! (j * 32 + 1))) 0 [0..<vlen]
      in dest[i := s]) dest [0..<len]"

definition gf_vect_mad_base ::
    "nat \<Rightarrow> nat \<Rightarrow> nat \<Rightarrow> u8 list \<Rightarrow> u8 list \<Rightarrow> u8 list \<Rightarrow> u8 list" where
  "gf_vect_mad_base len vec vec_i v src dest =
    foldl (\<lambda>dest i.
      let s = dest ! i;
          s = s XOR gf_mul (src ! i) (v ! (vec_i * 32 + 1))
      in dest[i := s]) dest [0..<len]"

definition ec_encode_data_base ::
    "nat \<Rightarrow> nat \<Rightarrow> nat \<Rightarrow> u8 list \<Rightarrow> u8 list list \<Rightarrow> u8 list list \<Rightarrow> u8 list list" where
  "ec_encode_data_base len srcs dests v src dest =
    foldl (\<lambda>dest l. dest[l := foldl (\<lambda>d i.
      let s = foldl (\<lambda>s j. s XOR gf_mul (src ! j ! i) (v ! (j * 32 + l * srcs * 32 + 1))) 0 [0..<srcs]
      in d[i := s]) (dest ! l) [0..<len]]) dest [0..<dests]"

definition ec_encode_data_update_base ::
    "nat \<Rightarrow> nat \<Rightarrow> nat \<Rightarrow> nat \<Rightarrow> u8 list \<Rightarrow> u8 list \<Rightarrow> u8 list list \<Rightarrow> u8 list list" where
  "ec_encode_data_update_base len k rows vec_i v data dest =
    foldl (\<lambda>dest l. dest[l := foldl (\<lambda>d i.
      let s = d ! i;
          s = s XOR gf_mul (data ! i) (v ! (vec_i * 32 + l * k * 32 + 1))
      in d[i := s]) (dest ! l) [0..<len]]) dest [0..<rows]"

text \<open>The result code and the destination. The C remainder is zero exactly when the
  mathematical one is; a negative length runs no iteration.\<close>

definition gf_vect_mul_base :: "int \<Rightarrow> u8 list \<Rightarrow> u8 list \<Rightarrow> u8 list \<Rightarrow> int \<times> u8 list" where
  "gf_vect_mul_base len a src dest =
    (let c = a ! 1
     in if len mod 32 \<noteq> 0 then (-1, dest)
        else (0, foldl (\<lambda>dest i. dest[i := gf_mul c (src ! i)]) dest [0..<nat len]))"

section \<open>The portable entry points\<close>

text \<open>\<open>erasure_code/ec_base_aliases.c\<close>: the dispatched names on a host without assembly.\<close>

definition gf_vect_dot_prod :: "nat \<Rightarrow> nat \<Rightarrow> u8 list \<Rightarrow> u8 list list \<Rightarrow> u8 list \<Rightarrow> u8 list" where
  "gf_vect_dot_prod len vlen v src dest = gf_vect_dot_prod_base len vlen v src dest"

definition gf_vect_mad :: "nat \<Rightarrow> nat \<Rightarrow> nat \<Rightarrow> u8 list \<Rightarrow> u8 list \<Rightarrow> u8 list \<Rightarrow> u8 list" where
  "gf_vect_mad len vec vec_i v src dest = gf_vect_mad_base len vec vec_i v src dest"

definition ec_encode_data ::
    "nat \<Rightarrow> nat \<Rightarrow> nat \<Rightarrow> u8 list \<Rightarrow> u8 list list \<Rightarrow> u8 list list \<Rightarrow> u8 list list" where
  "ec_encode_data len srcs dests v src dest = ec_encode_data_base len srcs dests v src dest"

definition ec_encode_data_update ::
    "nat \<Rightarrow> nat \<Rightarrow> nat \<Rightarrow> nat \<Rightarrow> u8 list \<Rightarrow> u8 list \<Rightarrow> u8 list list \<Rightarrow> u8 list list" where
  "ec_encode_data_update len k rows vec_i v data dest =
    ec_encode_data_update_base len k rows vec_i v data dest"

definition gf_vect_mul :: "int \<Rightarrow> u8 list \<Rightarrow> u8 list \<Rightarrow> u8 list \<Rightarrow> int \<times> u8 list" where
  "gf_vect_mul len a src dest = gf_vect_mul_base len a src dest"

definition ec_init_tables :: "nat \<Rightarrow> nat \<Rightarrow> u8 list \<Rightarrow> u8 list \<Rightarrow> u8 list" where
  "ec_init_tables k rows a g_tbls = ec_init_tables_base k rows a g_tbls"

definition gf_vect_mul_init :: "u8 \<Rightarrow> u8 list \<Rightarrow> nat \<Rightarrow> u8 list" where
  "gf_vect_mul_init c gftbl off = gf_vect_mul_init_base c gftbl off"

lemmas ec_aliases = gf_vect_dot_prod_def gf_vect_mad_def ec_encode_data_def
  ec_encode_data_update_def gf_vect_mul_def ec_init_tables_def gf_vect_mul_init_def

section \<open>The contents of a table\<close>

text \<open>The products of \<open>c\<close> with the low nibbles and with the high nibbles.\<close>

definition gf_tbl :: "u8 \<Rightarrow> u8 list" where
  "gf_tbl c = map (\<lambda>i. gf_mul c (of_nat i)) [0..<16] @ map (\<lambda>i. gf_mul c (of_nat (16 * i))) [0..<16]"

lemma length_gf_tbl [simp]: "length (gf_tbl c) = 32"
  by (simp add: gf_tbl_def)

lemma gf_tbl_1: "gf_tbl c ! 1 = c"
  by (simp add: gf_tbl_def nth_append)

lemma gf_mul_combine: "gf_mul c a XOR gf_mul c b = gf_mul c (a XOR b)"
  by (rule gf.mul_xor [symmetric])

lemma gf_x2_chain:
  "gf_x2 c = gf_mul c 2" "gf_x2 (gf_mul c 2) = gf_mul c 4" "gf_x2 (gf_mul c 4) = gf_mul c 8"
  "gf_x2 (gf_mul c 8) = gf_mul c 16" "gf_x2 (gf_mul c 16) = gf_mul c 32"
  "gf_x2 (gf_mul c 32) = gf_mul c 64" "gf_x2 (gf_mul c 64) = gf_mul c 128"
proof -
  have x2: "gf_x2 (gf_mul c a) = gf_mul c (gf_x2 a)" for a
    by (simp add: gf_x2_mul gf.mul_left_commute)
  show "gf_x2 c = gf_mul c 2" by (simp add: gf_x2_mul gf_mul_comm)
  show "gf_x2 (gf_mul c 2) = gf_mul c 4" "gf_x2 (gf_mul c 4) = gf_mul c 8"
    "gf_x2 (gf_mul c 8) = gf_mul c 16" "gf_x2 (gf_mul c 16) = gf_mul c 32"
    "gf_x2 (gf_mul c 32) = gf_mul c 64" "gf_x2 (gf_mul c 64) = gf_mul c 128"
    by (simp_all only: x2) (simp_all add: gf_x2_def)
qed

lemma gf_tbl_unfold:
  "gf_tbl c = [0, c, gf_mul c 2, gf_mul c 3, gf_mul c 4, gf_mul c 5, gf_mul c 6, gf_mul c 7,
    gf_mul c 8, gf_mul c 9, gf_mul c 10, gf_mul c 11, gf_mul c 12, gf_mul c 13, gf_mul c 14, gf_mul c 15,
    0, gf_mul c 16, gf_mul c 32, gf_mul c 48, gf_mul c 64, gf_mul c 80, gf_mul c 96, gf_mul c 112,
    gf_mul c 128, gf_mul c 144, gf_mul c 160, gf_mul c 176, gf_mul c 192, gf_mul c 208, gf_mul c 224,
    gf_mul c 240]"
  by (simp add: gf_tbl_def upt_conv_Cons)

lemma blit_blit: "off + length xs \<le> length a \<Longrightarrow> blit (blit a off xs) (off + length xs) ys = blit a off (xs @ ys)"
  by (simp add: blit_def ac_simps)

text \<open>\<open>c = c * 1\<close>, so that every entry is a product of \<open>c\<close>.\<close>

lemma gf_xor_self: "gf_mul c a XOR c = gf_mul c (a XOR 1)" "c XOR gf_mul c a = gf_mul c (1 XOR a)"
  by (simp_all add: gf.mul_xor)

lemma gf_vect_mul_init_base_32_tbl:
  assumes "off + 32 \<le> length tbl"
  shows "gf_vect_mul_init_base_32 c tbl off = blit tbl off (gf_tbl c)"
proof -
  have "gf_vect_mul_init_base_32 c tbl off
    = blit (blit tbl off (take 16 (gf_tbl c))) (off + 16) (drop 16 (gf_tbl c))"
    by (simp only: gf_vect_mul_init_base_32_def Let_def gf_x2_chain [of c] gf_xor_self [of c]
        gf_mul_combine [of c]) (simp add: gf_tbl_unfold)
  also have "\<dots> = blit tbl off (take 16 (gf_tbl c) @ drop 16 (gf_tbl c))"
    using blit_blit [of off "take 16 (gf_tbl c)" tbl "drop 16 (gf_tbl c)"] assms by simp
  finally show ?thesis by (simp only: append_take_drop_id)
qed

text \<open>A 64-bit lane: the byte \<open>c\<close> times a constant of 0/1 bytes is \<open>c\<close> in those bytes.\<close>

lemma lane_mult:
  "(ucast c :: u64) * 0x0100010001000100 = le_word [0, c, 0, c, 0, c, 0, c]"
  "(ucast c :: u64) * 0x0101000001010000 = le_word [0, 0, c, c, 0, 0, c, c]"
  "(ucast c :: u64) * 0x0101010100000000 = le_word [0, 0, 0, 0, c, c, c, c]"
  "(ucast c :: u64) * 0x0101010101010101 = le_word [c, c, c, c, c, c, c, c]"
  by (simp_all only: le_word_Cons_add le_word.simps(1)) (simp_all add: algebra_simps)

lemma lanes_xor:
  "(le_word [a0, a1, a2, a3, a4, a5, a6, a7] :: u64) XOR le_word [b0, b1, b2, b3, b4, b5, b6, b7]
    = le_word [a0 XOR b0, a1 XOR b1, a2 XOR b2, a3 XOR b3, a4 XOR b4, a5 XOR b5, a6 XOR b6, a7 XOR b7]"
  by (subst le_word_xor) (simp_all del: le_word.simps)

lemma store_lanes:
  "store_le_u64 tbl off (le_word [a0, a1, a2, a3, a4, a5, a6, a7]) = blit tbl off [a0, a1, a2, a3, a4, a5, a6, a7]"
proof -
  let ?bs = "[a0, a1, a2, a3, a4, a5, a6, a7]"
  have "le_bytes (length ?bs) (le_word ?bs :: u64) = ?bs" by (rule le_bytes_le_word) simp
  moreover have "length ?bs = 8" by simp
  ultimately show ?thesis by (simp only: store_le_u64_def)
qed

lemma gf_vect_mul_init_base_tbl:
  assumes "off + 32 \<le> length tbl"
  shows "gf_vect_mul_init_base c tbl off = blit tbl off (gf_tbl c)"
proof -
  let ?part = "\<lambda>i. take 8 (drop (8 * i) (gf_tbl c))"
  have "gf_vect_mul_init_base c tbl off
    = blit (blit (blit (blit tbl off (?part 0)) (off + 8) (?part 1)) (off + 16) (?part 2)) (off + 24) (?part 3)"
    by (simp only: gf_vect_mul_init_base_def Let_def gf_x2_chain [of c] lane_mult lanes_xor
        xor.left_neutral xor.right_neutral gf_xor_self [of c] gf_mul_combine [of c] store_lanes)
      (simp add: gf_tbl_unfold gf_mul_combine [of c] gf_xor_self [of c])
  also have "blit tbl off (?part 0) = blit tbl off (take 8 (gf_tbl c))" by simp
  also have "blit \<dots> (off + 8) (?part 1) = blit tbl off (take 16 (gf_tbl c))"
    using blit_blit [of off "take 8 (gf_tbl c)" tbl "?part 1"] assms
      take_add [of 8 8 "gf_tbl c"] by simp
  also have "blit \<dots> (off + 16) (?part 2) = blit tbl off (take 24 (gf_tbl c))"
    using blit_blit [of off "take 16 (gf_tbl c)" tbl "?part 2"] assms
      take_add [of 16 8 "gf_tbl c"] by simp
  also have "blit \<dots> (off + 24) (?part 3) = blit tbl off (gf_tbl c)"
    using blit_blit [of off "take 24 (gf_tbl c)" tbl "?part 3"] assms
      take_add [of 24 8 "gf_tbl c"] by simp
  finally show ?thesis .
qed

text \<open>The two nibbles of a byte.\<close>

lemma and_15: "(x :: u8) AND 15 = take_bit 4 x"
  by (simp add: take_bit_eq_mask mask_eq_exp_minus_1)

lemma nibble_low: "unat ((x :: u8) AND 15) < 16"
proof -
  have "unat (x AND 15) = take_bit 4 (unat x)" unfolding and_15 by (rule unsigned_take_bit_eq)
  then show ?thesis using take_bit_nat_less_exp [of 4 "unat x"] by simp
qed

lemma nibble_high: "unat (drop_bit 4 (x :: u8)) < 16"
proof -
  have "unat (drop_bit 4 x) = drop_bit 4 (unat x)" by (rule unat_drop_bit_eq)
  also have "\<dots> = unat x div 16" by (simp add: drop_bit_eq_div)
  finally show ?thesis using u8_less [of x] by simp
qed

lemma nibbles: "(x AND 15) XOR push_bit 4 (drop_bit 4 x) = (x :: u8)"
  by (rule bit_word_eqI) (auto simp: and_15 bit_simps)

lemma gf_tbl_lookup:
  "(gf_tbl c ! unat (x AND 15)) XOR (gf_tbl c ! (16 + unat (drop_bit 4 x))) = gf_mul c x" for x :: u8
proof -
  have lo: "gf_tbl c ! unat (x AND 15) = gf_mul c (x AND 15)"
    using nibble_low [of x] by (simp add: gf_tbl_def nth_append)
  have hi: "gf_tbl c ! (16 + unat (drop_bit 4 x)) = gf_mul c (push_bit 4 (drop_bit 4 x))"
    using nibble_high [of x] by (simp add: gf_tbl_def nth_append push_bit_eq_mult mult.commute)
  show ?thesis unfolding lo hi gf_mul_combine nibbles by (rule refl)
qed

section \<open>The loops\<close>

text \<open>Any 32-byte initialiser run over the coefficients writes its tables one after the other.\<close>

lemma init_tables_steps:
  assumes init: "\<And>c tbl off. off + 32 \<le> length tbl \<Longrightarrow> init c tbl off = blit tbl off (T c)"
    and T: "\<And>c. length (T c) = 32"
    and "n \<le> length a" "n * 32 \<le> length g_tbls"
  shows "((\<lambda>(tbl, ap, gp). (init (a ! ap) tbl gp, ap + 1, gp + 32)) ^^ n) (g_tbls, 0, 0)
    = (concat (map T (take n a)) @ drop (n * 32) g_tbls, n, n * 32)"
  using assms(3,4)
proof (induction n)
  case (Suc n)
  let ?t = "concat (map T (take n a))"
  have len: "length ?t = n * 32" using Suc.prems length_concat_blocks [of "take n a" T 32] T by simp
  have "init (a ! n) (?t @ drop (n * 32) g_tbls) (n * 32)
      = blit (?t @ drop (n * 32) g_tbls) (n * 32) (T (a ! n))"
    using Suc.prems len by (intro init) simp
  also have "\<dots> = (?t @ T (a ! n)) @ drop (Suc n * 32) g_tbls"
    using len T by (simp add: blit_def add.commute)
  also have "?t @ T (a ! n) = concat (map T (take (Suc n) a))"
    using Suc.prems by (simp add: take_Suc_conv_app_nth)
  finally show ?case using Suc by simp
qed simp

lemma foldl_foldl_ignore:
  "foldl (\<lambda>s i. foldl (\<lambda>s j. f s) s ys) s xs = (f ^^ (length xs * length ys)) s"
proof (induction xs arbitrary: s)
  case (Cons x xs)
  have "(f ^^ (length (x # xs) * length ys)) s = (f ^^ (length xs * length ys + length ys)) s"
    by (simp add: add.commute)
  then show ?case by (simp only: funpow_add comp_apply foldl.simps Cons.IH) (simp add: foldl_ignore)
qed simp

lemma init_tables_loop:
  assumes init: "\<And>c tbl off. off + 32 \<le> length tbl \<Longrightarrow> init c tbl off = blit tbl off (T c)"
    and T: "\<And>c. length (T c) = 32"
    and "rows * k \<le> length a" "rows * k * 32 \<le> length g_tbls"
  shows "fst (foldl (\<lambda>s (i :: nat). foldl (\<lambda>(tbl, ap, gp) (j :: nat). (init (a ! ap) tbl gp, ap + 1, gp + 32))
        s [0..<k]) (g_tbls, 0, 0) [0..<rows])
    = concat (map T (take (rows * k) a)) @ drop (rows * k * 32) g_tbls"
proof -
  let ?f = "\<lambda>(tbl, ap, gp). (init (a ! ap) tbl gp, ap + 1, gp + 32)"
  have "(\<lambda>(tbl, ap, gp) (j :: nat). (init (a ! ap) tbl gp, ap + 1, gp + 32)) = (\<lambda>s j. ?f s)"
    by (auto simp: fun_eq_iff)
  then have "fst (foldl (\<lambda>s (i :: nat). foldl (\<lambda>(tbl, ap, gp) (j :: nat). (init (a ! ap) tbl gp, ap + 1, gp + 32))
        s [0..<k]) (g_tbls, 0, 0) [0..<rows])
      = fst (foldl (\<lambda>s (i :: nat). foldl (\<lambda>s (j :: nat). ?f s) s [0..<k]) (g_tbls, 0, 0) [0..<rows])"
    by simp
  also have "\<dots> = fst ((?f ^^ (rows * k)) (g_tbls, 0, 0))"
    by (simp only: foldl_foldl_ignore length_upt diff_zero)
  finally show ?thesis
    using init_tables_steps [of init T, OF init T assms(3,4)] by (simp only: fst_conv)
qed

lemma ec_init_tables_base_eq:
  assumes "rows * k \<le> length a" "rows * k * 32 \<le> length g_tbls"
  shows "ec_init_tables_base k rows a g_tbls
    = concat (map gf_tbl (take (rows * k) a)) @ drop (rows * k * 32) g_tbls"
  unfolding ec_init_tables_base_def
  by (rule init_tables_loop [OF gf_vect_mul_init_base_tbl length_gf_tbl assms])

text \<open>The multiplier the encoder reads back from the tables is the matrix entry.\<close>

lemma ec_init_tables_coeff:
  assumes "rows * k \<le> length a" "rows * k * 32 \<le> length g_tbls" "l < rows" "j < k"
  shows "ec_init_tables_base k rows a g_tbls ! (j * 32 + l * k * 32 + 1) = row k a l j"
proof -
  have lt: "l * k + j < rows * k" using assms by (intro flat_less)
  then have idx: "(l * k + j) * 32 + 1 < rows * k * 32" by simp
  have len: "length (concat (map gf_tbl (take (rows * k) a))) = rows * k * 32"
    using assms length_concat_blocks [of "take (rows * k) a" gf_tbl 32] by simp
  have "ec_init_tables_base k rows a g_tbls ! ((l * k + j) * 32 + 1)
      = concat (map gf_tbl (take (rows * k) a)) ! ((l * k + j) * 32 + 1)"
    unfolding ec_init_tables_base_eq [OF assms(1,2)] using idx len by (simp only: nth_append if_True)
  also have "\<dots> = gf_tbl (take (rows * k) a ! (l * k + j)) ! 1"
    using lt assms by (subst nth_concat_blocks) simp_all
  finally show ?thesis using lt assms by (simp only: gf_tbl_1 row_def nth_take) (simp add: algebra_simps)
qed

lemma foldl_xor_sum: "foldl (\<lambda>s j. s XOR f j) (0 :: 'a::len word) xs = xor_sum (map f xs)"
  by (simp add: xor_sum_def foldl_map)

lemma gf_vect_dot_prod_base_eq:
  assumes "len \<le> length dest"
  shows "gf_vect_dot_prod_base len vlen v src dest
    = map (\<lambda>i. xor_sum (map (\<lambda>j. gf_mul (src ! j ! i) (v ! (j * 32 + 1))) [0..<vlen])) [0..<len] @ drop len dest"
  unfolding gf_vect_dot_prod_base_def Let_def foldl_xor_sum by (rule foldl_write [OF assms])

lemma gf_vect_mad_base_eq:
  assumes "len \<le> length dest"
  shows "gf_vect_mad_base len vec vec_i v src dest
    = map (\<lambda>i. (dest ! i) XOR gf_mul (src ! i) (v ! (vec_i * 32 + 1))) [0..<len] @ drop len dest"
  unfolding gf_vect_mad_base_def Let_def
  by (rule foldl_write [OF assms, of "\<lambda>i x. x XOR gf_mul (src ! i) (v ! (vec_i * 32 + 1))"])

lemma gf_vect_mul_base_eq:
  assumes "nat len \<le> length dest" "len mod 32 = 0"
  shows "gf_vect_mul_base len a src dest
    = (0, map (\<lambda>i. gf_mul (a ! 1) (src ! i)) [0..<nat len] @ drop (nat len) dest)"
  unfolding gf_vect_mul_base_def Let_def using assms foldl_write [OF assms(1), of "\<lambda>i x. gf_mul (a ! 1) (src ! i)"]
  by simp

text \<open>Each row of the encoder is a dot product, each row of the update a multiply-add.\<close>

definition ec_row :: "nat \<Rightarrow> nat \<Rightarrow> u8 list \<Rightarrow> u8 list list \<Rightarrow> nat \<Rightarrow> u8" where
  "ec_row srcs l v src i = xor_sum (map (\<lambda>j. gf_mul (src ! j ! i) (v ! (j * 32 + l * srcs * 32 + 1))) [0..<srcs])"

lemma ec_encode_data_base_eq:
  assumes "dests \<le> length dest" "\<forall>l < dests. len \<le> length (dest ! l)"
  shows "ec_encode_data_base len srcs dests v src dest
    = map (\<lambda>l. map (ec_row srcs l v src) [0..<len] @ drop len (dest ! l)) [0..<dests] @ drop dests dest"
proof -
  let ?h = "\<lambda>l d. foldl (\<lambda>d i. d[i := ec_row srcs l v src i]) d [0..<len]"
  have "ec_encode_data_base len srcs dests v src dest = foldl (\<lambda>dest l. dest[l := ?h l (dest ! l)]) dest [0..<dests]"
    unfolding ec_encode_data_base_def Let_def foldl_xor_sum ec_row_def ..
  also have "\<dots> = map (\<lambda>l. ?h l (dest ! l)) [0..<dests] @ drop dests dest"
    by (rule foldl_write [OF assms(1)])
  also have "map (\<lambda>l. ?h l (dest ! l)) [0..<dests]
      = map (\<lambda>l. map (ec_row srcs l v src) [0..<len] @ drop len (dest ! l)) [0..<dests]"
    using assms(2) foldl_write [of len _ "\<lambda>i x. ec_row srcs _ v src i"] by (intro map_cong) auto
  finally show ?thesis .
qed

lemma ec_encode_data_update_base_eq:
  assumes "rows \<le> length dest" "\<forall>l < rows. len \<le> length (dest ! l)"
  shows "ec_encode_data_update_base len k rows vec_i v data dest
    = map (\<lambda>l. map (\<lambda>i. (dest ! l ! i) XOR gf_mul (data ! i) (v ! (vec_i * 32 + l * k * 32 + 1))) [0..<len]
          @ drop len (dest ! l)) [0..<rows] @ drop rows dest"
proof -
  let ?g = "\<lambda>l i. gf_mul (data ! i) (v ! (vec_i * 32 + l * k * 32 + 1))"
  let ?h = "\<lambda>l d. foldl (\<lambda>d i. d[i := (d ! i) XOR ?g l i]) d [0..<len]"
  have "ec_encode_data_update_base len k rows vec_i v data dest
      = foldl (\<lambda>dest l. dest[l := ?h l (dest ! l)]) dest [0..<rows]"
    unfolding ec_encode_data_update_base_def Let_def ..
  also have "\<dots> = map (\<lambda>l. ?h l (dest ! l)) [0..<rows] @ drop rows dest"
    by (rule foldl_write [OF assms(1)])
  also have "map (\<lambda>l. ?h l (dest ! l)) [0..<rows]
      = map (\<lambda>l. map (\<lambda>i. (dest ! l ! i) XOR ?g l i) [0..<len] @ drop len (dest ! l)) [0..<rows]"
  proof (rule map_cong)
    fix l assume "l \<in> set [0..<rows]"
    then have "len \<le> length (dest ! l)" using assms(2) by simp
    then show "?h l (dest ! l) = map (\<lambda>i. (dest ! l ! i) XOR ?g l i) [0..<len] @ drop len (dest ! l)"
      by (rule foldl_write [of len "dest ! l" "\<lambda>i x. x XOR ?g l i"])
  qed simp
  finally show ?thesis .
qed

end
