(* ===== verification/EC_Correct.thy ===== *)
theory EC_Correct
  imports EC_Base
begin

text \<open>
  What the erasure code promises: the field arithmetic is GF(2^8), the inversion inverts,
  the generator matrices are the documented ones, encoding with initialised tables is the
  matrix product, updates accumulate to the encoding, and any \<open>k\<close> of \<open>m\<close> blocks restore
  the data. \<open>ec_codeword\<close> and \<open>ec_recover\<close> are the calls an application makes (as in
  \<open>erasure_code_test.c\<close>): encode the parity rows; encode the survivors with the inverse.
\<close>

definition ec_zero :: "nat \<Rightarrow> nat \<Rightarrow> u8 list list" where
  "ec_zero rows len = replicate rows (replicate len 0)"

definition ec_apply :: "nat \<Rightarrow> nat \<Rightarrow> nat \<Rightarrow> u8 list \<Rightarrow> u8 list list \<Rightarrow> u8 list list" where
  "ec_apply len k rows a src =
    ec_encode_data_base len k rows (ec_init_tables_base k rows a (replicate (rows * k * 32) 0)) src
      (ec_zero rows len)"

definition ec_codeword :: "nat \<Rightarrow> nat \<Rightarrow> nat \<Rightarrow> u8 list \<Rightarrow> u8 list list \<Rightarrow> u8 list list" where
  "ec_codeword len k m a data = data @ ec_apply len k (m - k) (drop (k * k) a) data"

definition ec_recover :: "nat \<Rightarrow> nat \<Rightarrow> u8 list \<Rightarrow> u8 list list \<Rightarrow> u8 list list" where
  "ec_recover len k inv_mat survivors = ec_apply len k k inv_mat survivors"

section \<open>Encoding as a matrix product\<close>

lemma ec_row_matrix:
  assumes "rows * k \<le> length a" "rows * k * 32 \<le> length g_tbls" "l < rows"
  shows "ec_row k l (ec_init_tables_base k rows a g_tbls) src i = gf.dot k (row k a l) (\<lambda>j. src ! j ! i)"
  unfolding ec_row_def gf.dot_def
  by (intro arg_cong [where f = xor_sum] map_cong)
    (simp_all only: ec_init_tables_coeff [OF assms] gf_mul_comm [of "row k a l _"] set_upt atLeastLessThan_iff)

lemma ec_apply_eq:
  assumes "rows * k \<le> length a"
  shows "ec_apply len k rows a src
    = map (\<lambda>l. map (\<lambda>i. gf.dot k (row k a l) (\<lambda>j. src ! j ! i)) [0..<len]) [0..<rows]"
proof -
  let ?v = "ec_init_tables_base k rows a (replicate (rows * k * 32) 0)"
  have "ec_apply len k rows a src
      = map (\<lambda>l. map (ec_row k l ?v src) [0..<len] @ drop len (ec_zero rows len ! l)) [0..<rows]
        @ drop rows (ec_zero rows len)"
    unfolding ec_apply_def by (rule ec_encode_data_base_eq) (simp_all add: ec_zero_def)
  also have "\<dots> = map (\<lambda>l. map (ec_row k l ?v src) [0..<len]) [0..<rows]"
    by (simp add: ec_zero_def)
  also have "\<dots> = map (\<lambda>l. map (\<lambda>i. gf.dot k (row k a l) (\<lambda>j. src ! j ! i)) [0..<len]) [0..<rows]"
    using ec_row_matrix [OF assms, of "replicate (rows * k * 32) 0"]
    by (intro map_cong) simp_all
  finally show ?thesis .
qed

lemma row_drop: "row k (drop (r * k) a) i j = row k a (r + i) j" if "r * k \<le> length a"
  using that by (simp add: row_def algebra_simps)

lemma ec_codeword_nth:
  assumes a: "length a = m * k" "k \<le> m" "\<And>i j. i < k \<Longrightarrow> j < k \<Longrightarrow> row k a i j = gf.ident i j"
    and data: "length data = k" "\<forall>d \<in> set data. length d = len"
    and r: "r < m" "i < len"
  shows "ec_codeword len k m a data ! r ! i = gf.dot k (row k a r) (\<lambda>j. data ! j ! i)"
proof (cases "r < k")
  case True
  then have "gf.dot k (row k a r) (\<lambda>j. data ! j ! i) = data ! r ! i"
    using gf.dot_cong [of k "row k a r" "gf.ident r"] a(3) by (simp add: gf.dot_ident)
  with True data show ?thesis by (simp add: ec_codeword_def nth_append)
next
  case False
  have le: "(m - k) * k \<le> length (drop (k * k) a)" "k * k \<le> length a"
    using a by (simp_all add: diff_mult_distrib)
  have "ec_codeword len k m a data ! r ! i
      = gf.dot k (row k (drop (k * k) a) (r - k)) (\<lambda>j. data ! j ! i)"
    using False r data by (simp add: ec_codeword_def nth_append ec_apply_eq [OF le(1)])
  also have "row k (drop (k * k) a) (r - k) = row k a r"
    using False by (simp add: fun_eq_iff row_drop [OF le(2)])
  finally show ?thesis .
qed

lemma ec_recover_data:
  assumes a: "length a = m * k" "k \<le> m" "\<And>i j. i < k \<Longrightarrow> j < k \<Longrightarrow> row k a i j = gf.ident i j"
    and data: "length data = k" "\<forall>d \<in> set data. length d = len"
    and sel: "length sel = k" "set sel \<subseteq> {..<m}"
    and inv: "length buf = k * k" "gf_invert_matrix (gf_select_rows k a sel) buf k = (0, x, inv_mat)"
  shows "ec_recover len k inv_mat (map ((!) (ec_codeword len k m a data)) sel) = data"
proof (rule nth_equalityI)
  let ?s = "map ((!) (ec_codeword len k m a data)) sel"
  have sa: "length (gf_select_rows k a sel) = k * k" using sel by simp
  note sol = gf_invert_matrix_solves [OF sa inv]
  have le: "k * k \<le> length inv_mat" using sol(1) by simp
  show len: "length (ec_recover len k inv_mat ?s) = length data"
    using data by (simp add: ec_recover_def ec_apply_eq [OF le])
  fix l assume "l < length (ec_recover len k inv_mat ?s)"
  then have l: "l < k" using len data by simp
  have "map (\<lambda>i. gf.dot k (row k inv_mat l) (\<lambda>j. ?s ! j ! i)) [0..<len] = data ! l"
  proof (rule nth_equalityI)
    show "length (map (\<lambda>i. gf.dot k (row k inv_mat l) (\<lambda>j. ?s ! j ! i)) [0..<len]) = length (data ! l)"
      using data l by simp
    fix i assume "i < length (map (\<lambda>i. gf.dot k (row k inv_mat l) (\<lambda>j. ?s ! j ! i)) [0..<len])"
    then have i: "i < len" by simp
    have "gf.dot k (row k (gf_select_rows k a sel) j) (\<lambda>j. data ! j ! i) = ?s ! j ! i" if "j < k" for j
    proof -
      have "sel ! j < m" using sel that by (metis lessThan_iff nth_mem subsetD)
      then have "?s ! j ! i = gf.dot k (row k a (sel ! j)) (\<lambda>j. data ! j ! i)"
        using ec_codeword_nth [OF a data _ i] sel(1) that by simp
      also have "\<dots> = gf.dot k (row k (gf_select_rows k a sel) j) (\<lambda>j. data ! j ! i)"
        using sel(1) that by (intro gf.dot_cong) (simp_all add: row_select_rows)
      finally show ?thesis by (rule sym)
    qed
    then have "\<forall>l < k. data ! l ! i = gf.dot k (row k inv_mat l) (\<lambda>j. ?s ! j ! i)"
      using sol(2) [of "\<lambda>j. data ! j ! i" "\<lambda>j. ?s ! j ! i"] by blast
    then show "map (\<lambda>i. gf.dot k (row k inv_mat l) (\<lambda>j. ?s ! j ! i)) [0..<len] ! i = data ! l ! i"
      using l i by simp
  qed
  then show "ec_recover len k inv_mat ?s ! l = data ! l"
    using l by (simp add: ec_recover_def ec_apply_eq [OF le])
qed

section \<open>Updates accumulate\<close>

lemma ec_updates_prefix:
  assumes "n \<le> k"
  shows "foldl (\<lambda>d j. ec_encode_data_update_base len k rows j v (src ! j) d) (ec_zero rows len) [0..<n]
    = map (\<lambda>l. map (\<lambda>i. xor_sum (map (\<lambda>j. gf_mul (src ! j ! i) (v ! (j * 32 + l * k * 32 + 1))) [0..<n]))
        [0..<len]) [0..<rows]"
  using assms
proof (induction n)
  case 0
  then show ?case by (simp add: ec_zero_def map_replicate_const)
next
  case (Suc n)
  then show ?case
    by (simp add: ec_encode_data_update_base_eq)
qed

lemmas gf_invert_evals = gf_invert_matrix_def gf_invert_init_def gf_invert_loop.simps
  gf_invert_pivot_def gf_invert_find_def gf_invert_swap_def gf_swap_at_def gf_invert_scale_def
  gf_invert_eliminate_def gf_invert_clear_def gf_mul_def gf_inv_def upt_conv_Cons gff_base_def
  gflog_base_def Let_def

lemma gf_invert_eval:
  "gf_invert_matrix [0, 1, 1, 2] [7, 7, 7, 7] 2 = (0, [1, 0, 0, 1], [2, 1, 1, 0])"
  by (simp add: gf_invert_evals)

lemma gf_cauchy_select_kernel:
  assumes "length a = m * k" "k \<le> m" "m \<le> 256"
    and "length sel = k" "distinct sel" "set sel \<subseteq> {..<m}"
    and "\<forall>i < k. gf.dot k (row k (gf_select_rows k (gf_gen_cauchy1_matrix a m k) sel) i) x = 0"
  shows "\<forall>j < k. x j = 0"
proof (rule gf_cauchy_kernel [OF assms(1-6)], intro allI impI)
  fix i assume i: "i < k"
  have "gf.dot k (row k (gf_gen_cauchy1_matrix a m k) (sel ! i)) x
      = gf.dot k (row k (gf_select_rows k (gf_gen_cauchy1_matrix a m k) sel) i) x"
    using i assms(4) by (intro gf.dot_cong) (simp_all add: row_select_rows)
  with assms(7) i show "gf.dot k (row k (gf_gen_cauchy1_matrix a m k) (sel ! i)) x = 0" by simp
qed

section \<open>Properties\<close>

text \<open>
  C12: the table-driven multiplication \<open>gf_mul\<close> is the product of polynomials over GF(2)
  reduced by 0x11d, for all 65536 pairs of bytes.
\<close>

theorem gf_mul_is_polynomial_product: "gf_mul a b = gf_times a b"
  by (rule gf_mul_times)

text \<open>\<open>gf_inv\<close> is the multiplicative inverse of every nonzero byte and maps 0 to 0, and the
  \<open>GF_LARGE_TABLES\<close> inverse table holds the same values.
\<close>

theorem gf_inv_is_inverse:
  "gf_mul a (gf_inv a) = (if a = 0 then 0 else 1) \<and> gf_inv_table_base ! unat a = gf_inv a"
  by (simp add: gf.mul_inv gf_inv_table_nth)

text \<open>
  C14: when \<open>gf_invert_matrix\<close> returns 0, the output matrix is the two-sided inverse of the
  input over GF(2^8).
\<close>

theorem gf_invert_matrix_inverse:
  assumes "length in_mat = n * n" "length out_mat = n * n"
    and "gf_invert_matrix in_mat out_mat n = (0, in_mat', out_mat')" and "i < n" "j < n"
  shows "gf.mat_mul n (row n in_mat) (row n out_mat') i j = gf.ident i j
    \<and> gf.mat_mul n (row n out_mat') (row n in_mat) i j = gf.ident i j"
proof
  note sol = gf_invert_matrix_solves(2) [OF assms(1-3)]
  have "gf.dot n (row n out_mat' i) (\<lambda>r. gf.ident r j) = row n out_mat' i j" if "i < n" for i
    by (rule gf.dot_ident_right [OF assms(5)])
  then show "gf.mat_mul n (row n in_mat) (row n out_mat') i j = gf.ident i j"
    using sol [of "\<lambda>r. row n out_mat' r j" "\<lambda>r. gf.ident r j"] assms(4) by (simp add: gf.mat_mul_def)
  have "gf.dot n (row n in_mat i) (\<lambda>r. gf.ident r j) = row n in_mat i j" if "i < n" for i
    by (rule gf.dot_ident_right [OF assms(5)])
  then show "gf.mat_mul n (row n out_mat') (row n in_mat) i j = gf.ident i j"
    using sol [of "\<lambda>r. gf.ident r j" "\<lambda>r. row n in_mat r j"] assms(4) by (simp add: gf.mat_mul_def)
qed

theorem gf_invert_matrix_inverse_witness:
  "gf.mat_mul 2 (row 2 [0, 1, 1, 2]) (row 2 [2, 1, 1, 0]) 1 1 = 1
    \<and> gf.mat_mul 2 (row 2 [2, 1, 1, 0]) (row 2 [0, 1, 1, 2]) 1 1 = 1"
  using gf_invert_matrix_inverse [OF _ _ gf_invert_eval, of 1 1] by (simp add: gf.ident_def)

text \<open>
  C15: \<open>gf_invert_matrix\<close> returns 0 or -1, and it returns 0 exactly for the nonsingular
  matrices (those with a trivial kernel), whatever the pivots.
\<close>

theorem gf_invert_matrix_decides:
  assumes "length in_mat = n * n" "length out_mat = n * n"
  shows "fst (gf_invert_matrix in_mat out_mat n) \<in> {0, -1}
    \<and> (fst (gf_invert_matrix in_mat out_mat n) = 0
      \<longleftrightarrow> (\<forall>x. (\<forall>i < n. gf.mat_vec n (row n in_mat) x i = 0) \<longrightarrow> (\<forall>j < n. x j = 0)))"
proof -
  obtain a' b' ret where r: "gf_invert_matrix in_mat out_mat n = (ret, a', b')" by (metis prod_cases3)
  have "\<forall>j < n. x j = 0" if "ret = 0" "\<forall>i < n. gf.mat_vec n (row n in_mat) x i = 0" for x
    using gf_invert_matrix_solves(2) [OF assms, of a' b' x "\<lambda>_. 0"] r that by (simp add: gf.mat_vec_def)
  then show ?thesis
    using gf_invert_matrix_cases [OF assms] r by (auto simp: gf.mat_vec_def)
qed

theorem gf_invert_matrix_decides_witness:
  "fst (gf_invert_matrix [0, 1, 1, 2] [7, 7, 7, 7] 2) = 0
    \<longleftrightarrow> (\<forall>x. (\<forall>i < 2. gf.mat_vec 2 (row 2 [0, 1, 1, 2]) x i = 0) \<longrightarrow> (\<forall>j < 2. x j = 0))"
  using gf_invert_matrix_decides [of "[0, 1, 1, 2]" 2 "[7, 7, 7, 7]"] by simp

text \<open>
  C34: the Vandermonde generator: the identity above, and below it row \<open>i\<close> holds the powers
  of \<open>2\<^sup>i\<^sup>-\<^sup>k\<close>, so the first parity row is all ones.
\<close>

theorem gf_gen_rs_matrix_rows:
  assumes "length a = m * k" "k \<le> m" "i < m" "j < k"
  shows "row k (gf_gen_rs_matrix a m k) i j
    = (if i < k then gf.ident i j else gf_pow (gf_pow 2 (i - k)) j)"
  using assms by (rule gf_gen_rs_rows(2))

theorem gf_gen_rs_matrix_rows_witness: "row 2 (gf_gen_rs_matrix (replicate 8 7) 4 2) 3 1 = 2"
  using gf_gen_rs_matrix_rows [of "replicate 8 7" 4 2 3 1] by (simp add: gf_mul_one)

text \<open>Both variants of \<open>gf_vect_mul_init_base\<close> write the same 32 bytes, and two lookups in
  them, by the low and by the high nibble of \<open>x\<close>, give the product \<open>c x\<close>.
\<close>

theorem gf_vect_mul_init_lookup:
  fixes c x :: u8
  assumes "off + 32 \<le> length tbl"
  defines "t \<equiv> gf_vect_mul_init_base c tbl off"
  shows "gf_vect_mul_init_base_32 c tbl off = t
    \<and> (t ! (off + unat (x AND 15))) XOR (t ! (off + 16 + unat (drop_bit 4 x))) = gf_mul c x"
proof -
  have t: "t = blit tbl off (gf_tbl c)" unfolding t_def by (rule gf_vect_mul_init_base_tbl [OF assms(1)])
  have nth: "t ! (off + n) = gf_tbl c ! n" if "n < 32" for n
    using that assms(1) by (simp add: t blit_def nth_append)
  have "t ! (off + 16 + unat (drop_bit 4 x)) = gf_tbl c ! (16 + unat (drop_bit 4 x))"
    using nth [of "16 + unat (drop_bit 4 x)"] nibble_high [of x] by (simp add: add.assoc)
  then show ?thesis
    using nth [of "unat (x AND 15)"] nibble_low [of x] gf_tbl_lookup [of c x]
      gf_vect_mul_init_base_32_tbl [OF assms(1)] t by simp
qed

theorem gf_vect_mul_init_lookup_witness:
  "gf_vect_mul_init_base_32 3 (replicate 32 0) 0 = gf_vect_mul_init_base 3 (replicate 32 0) 0
    \<and> (gf_vect_mul_init_base 3 (replicate 32 0) 0 ! 7) XOR (gf_vect_mul_init_base 3 (replicate 32 0) 0 ! 16)
      = gf_mul 3 7"
  using gf_vect_mul_init_lookup [of 0 "replicate 32 0" 3 7] by (simp add: drop_bit_eq_div)

text \<open>
  C16: encoding with the tables of a matrix \<open>a\<close> writes, at byte \<open>i\<close> of destination \<open>l\<close>, the
  dot product of row \<open>l\<close> of \<open>a\<close> with byte \<open>i\<close> of the sources, and leaves every byte past
  \<open>len\<close> and every further buffer as it was.
\<close>

theorem ec_encode_data_matrix:
  assumes "rows * k \<le> length a" "rows * k * 32 \<le> length g_tbls"
    and "rows \<le> length dest" "\<forall>l < rows. len \<le> length (dest ! l)"
  shows "ec_encode_data len k rows (ec_init_tables k rows a g_tbls) src dest
    = map (\<lambda>l. map (\<lambda>i. gf.dot k (row k a l) (\<lambda>j. src ! j ! i)) [0..<len] @ drop len (dest ! l)) [0..<rows]
      @ drop rows dest"
  unfolding ec_aliases ec_encode_data_base_eq [OF assms(3,4)]
  using ec_row_matrix [OF assms(1,2)] by simp

theorem ec_encode_data_matrix_witness:
  "ec_encode_data 2 2 1 (ec_init_tables 2 1 [3, 1] (replicate 64 0)) [[5, 6], [7, 8]] [[0, 0]]
    = [map (\<lambda>i. gf.dot 2 (row 2 [3, 1] 0) (\<lambda>j. [[5, 6], [7, 8]] ! j ! i)) [0, 1]]"
  using ec_encode_data_matrix [of 1 2 "[3, 1]" "replicate 64 0" "[[0, 0]]" 2 "[[5, 6], [7, 8]]"]
  by (simp add: upt_conv_Cons)

text \<open>
  C27: feeding the sources one at a time to \<open>ec_encode_data_update\<close>, starting from zeroed
  parity, gives what \<open>ec_encode_data\<close> computes from all of them at once.
\<close>

theorem ec_updates_equal_encode:
  "foldl (\<lambda>d j. ec_encode_data_update len k rows j g_tbls (src ! j) d) (ec_zero rows len) [0..<k]
    = ec_encode_data len k rows g_tbls src (ec_zero rows len)"
  unfolding ec_aliases using ec_updates_prefix [OF order_refl, of len k rows g_tbls src]
  by (simp add: ec_encode_data_base_eq ec_zero_def ec_row_def [abs_def])

text \<open>
  C28: erasure recovery. For a systematic generator matrix, if the rows of any \<open>k\<close> surviving
  blocks invert, encoding the survivors with the inverse gives back the data.
\<close>

theorem ec_recovers_data:
  assumes "length a = m * k" "k \<le> m" "\<And>i j. i < k \<Longrightarrow> j < k \<Longrightarrow> row k a i j = gf.ident i j"
    and "length data = k" "\<forall>d \<in> set data. length d = len"
    and "length sel = k" "set sel \<subseteq> {..<m}"
    and "length buf = k * k" "gf_invert_matrix (gf_select_rows k a sel) buf k = (0, x, inv_mat)"
  shows "ec_recover len k inv_mat (map ((!) (ec_codeword len k m a data)) sel) = data"
  using assms by (rule ec_recover_data)

theorem ec_recovers_data_witness:
  "ec_recover 2 2 [2, 1, 1, 0] (map ((!) (ec_codeword 2 2 4 [1, 0, 0, 1, 1, 1, 1, 2] [[5, 6], [7, 8]])) [1, 3])
    = [[5, 6], [7, 8]]"
proof -
  have "row 2 [1, 0, 0, 1, 1, 1, 1, 2] i j = gf.ident i j" if "i < 2" "j < 2" for i j
    using that by (auto simp: row_def gf.ident_def less_2_cases_iff)
  moreover have "gf_select_rows 2 [1, 0, 0, 1, 1, 1, 1, 2] [1, 3] = [0, 1, 1, 2]"
    by (simp add: gf_select_rows_def upt_conv_Cons)
  ultimately show ?thesis
    using gf_invert_eval
    by (intro ec_recovers_data [where buf = "[7, 7, 7, 7]" and x = "[1, 0, 0, 1]"]) auto
qed

text \<open>
  C13: with the Cauchy matrix of at most 256 rows, any \<open>k\<close> distinct surviving blocks restore
  the data: the inversion succeeds and the decoder returns the sources.
\<close>

theorem ec_cauchy_recovers_any_k:
  assumes "length a = m * k" "k \<le> m" "m \<le> 256"
    and "length data = k" "\<forall>d \<in> set data. length d = len"
    and "length sel = k" "distinct sel" "set sel \<subseteq> {..<m}" "length buf = k * k"
  shows "let g = gf_gen_cauchy1_matrix a m k;
      (ret, _, inv_mat) = gf_invert_matrix (gf_select_rows k g sel) buf k
    in ret = 0 \<and> ec_recover len k inv_mat (map ((!) (ec_codeword len k m g data)) sel) = data"
proof -
  let ?g = "gf_gen_cauchy1_matrix a m k"
  note rows = gf_gen_cauchy1_rows [OF assms(1,2)]
  have len: "length (gf_select_rows k ?g sel) = k * k" using assms(6) by simp
  obtain ret x inv_mat where r: "gf_invert_matrix (gf_select_rows k ?g sel) buf k = (ret, x, inv_mat)"
    by (metis prod_cases3)
  have "\<forall>j < k. x j = 0" if "\<forall>i < k. gf.dot k (row k (gf_select_rows k ?g sel) i) x = 0" for x
    using that gf_cauchy_select_kernel [OF assms(1-3,6-8)] by blast
  then have "ret = 0" using gf_invert_matrix_cases [OF len assms(9)] r by auto
  moreover have "ec_recover len k inv_mat (map ((!) (ec_codeword len k m ?g data)) sel) = data"
    using rows assms r \<open>ret = 0\<close> by (intro ec_recover_data [where buf = buf and x = x]) simp_all
  ultimately show ?thesis using r by simp
qed

theorem ec_cauchy_recovers_any_k_witness:
  "let g = gf_gen_cauchy1_matrix (replicate 8 9) 4 2;
      (ret, _, inv_mat) = gf_invert_matrix (gf_select_rows 2 g [3, 1]) (replicate 4 0) 2
    in ret = 0 \<and> ec_recover 2 2 inv_mat (map ((!) (ec_codeword 2 2 4 g [[5, 6], [7, 8]])) [3, 1])
      = [[5, 6], [7, 8]]"
  using ec_cauchy_recovers_any_k [of "replicate 8 9" 4 2 "[[5, 6], [7, 8]]" 2 "[3, 1]" "replicate 4 0"]
  by simp

end
