(* ===== verification/EC_Highlevel.thy ===== *)
theory EC_Highlevel
  imports EC_Base
begin

text \<open>
  The dispatch of \<open>erasure_code/ec_highlevel_func.c\<close> (x86), of
  \<open>aarch64/ec_aarch64_highlevel_func.c\<close>, \<open>riscv64/ec_riscv64_highlevel_func.c\<close> and
  \<open>ppc64le/ec_base_vsx.c\<close>: the rows are handed to assembly kernels that encode one to seven
  rows per call, while \<open>g_tbls\<close> and \<open>coding\<close> advance. The kernels are parameters, one function
  for each instruction set whose first argument is the number \<open>n\<close> of rows of
  \<open>gf_nvect_dot_prod\<close> or \<open>gf_nvect_mad\<close> (\<open>gf_vect_dot_prod\<close>, which takes \<open>*coding\<close>, is
  \<open>n = 1\<close>). An advanced pointer is the rest of the array, put back after the call.
\<close>

type_synonym ec_dot = "nat \<Rightarrow> nat \<Rightarrow> nat \<Rightarrow> u8 list \<Rightarrow> u8 list list \<Rightarrow> u8 list list \<Rightarrow> u8 list list"
type_synonym ec_mad = "nat \<Rightarrow> nat \<Rightarrow> nat \<Rightarrow> nat \<Rightarrow> u8 list \<Rightarrow> u8 list \<Rightarrow> u8 list list \<Rightarrow> u8 list list"
type_synonym ec_kern = "nat \<Rightarrow> u8 list \<Rightarrow> u8 list list \<Rightarrow> u8 list list"

section \<open>The loop and the final switch\<close>

text \<open>\<open>while (rows > lim) { kernel of step rows; advance }\<close>, then the switch.\<close>

function ec_while :: "nat \<Rightarrow> nat \<Rightarrow> ec_kern \<Rightarrow> (nat \<Rightarrow> u8 list \<Rightarrow> u8 list list \<Rightarrow> u8 list list) \<Rightarrow> nat \<Rightarrow>
    nat \<Rightarrow> u8 list \<Rightarrow> u8 list list \<Rightarrow> u8 list list" where
  "ec_while step lim kern switch k rows g coding =
    (if lim < rows \<and> 0 < step then
       let coding = kern step g coding
       in take step coding
          @ ec_while step lim kern switch k (rows - step) (drop (step * k * 32) g) (drop step coding)
     else switch rows g coding)"
  by pat_completeness auto
termination by (relation "measure (\<lambda>(step, lim, kern, switch, k, rows, g, coding). rows)") auto

declare ec_while.simps [simp del]

text \<open>\<open>case n: gf_nvect(...); break;\<close> for \<open>n\<close> from \<open>lim\<close> down to 1; nothing for 0.\<close>

definition ec_switch :: "nat \<Rightarrow> ec_kern \<Rightarrow> ec_kern" where
  "ec_switch lim kern rows g coding = (if 0 < rows \<and> rows \<le> lim then kern rows g coding else coding)"

text \<open>The cases that make two calls, advancing by \<open>a\<close> rows between them.\<close>

definition ec_two :: "ec_kern \<Rightarrow> nat \<Rightarrow> nat \<Rightarrow> nat \<Rightarrow> u8 list \<Rightarrow> u8 list list \<Rightarrow> u8 list list" where
  "ec_two kern k a b g coding =
    (let coding = kern a g coding in take a coding @ kern b (drop (a * k * 32) g) (drop a coding))"

definition ec_switch_sve :: "ec_kern \<Rightarrow> nat \<Rightarrow> ec_kern" where
  "ec_switch_sve kern k rows g coding =
    (if rows = 7 then ec_two kern k 4 3 g coding
     else if rows = 6 then ec_two kern k 4 2 g coding
     else ec_switch 5 kern rows g coding)"

definition ec_switch_rvv :: "ec_kern \<Rightarrow> nat \<Rightarrow> ec_kern" where
  "ec_switch_rvv kern k rows g coding =
    (if rows = 11 then ec_two kern k 7 4 g coding
     else if rows = 10 then ec_two kern k 6 4 g coding
     else if rows = 9 then ec_two kern k 5 4 g coding
     else if rows = 8 then ec_two kern k 4 4 g coding
     else ec_switch 7 kern rows g coding)"

section \<open>Encoding\<close>

definition ec_encode_data_sse :: "ec_dot \<Rightarrow> nat \<Rightarrow> nat \<Rightarrow> nat \<Rightarrow> u8 list \<Rightarrow> u8 list list \<Rightarrow> u8 list list \<Rightarrow> u8 list list" where
  "ec_encode_data_sse dot len k rows g_tbls data coding =
    (if len < 16 then ec_encode_data_base len k rows g_tbls data coding
     else let kern = (\<lambda>n g c. dot n len k g data c)
          in ec_while 6 5 kern (ec_switch 5 kern) k rows g_tbls coding)"

definition ec_encode_data_avx :: "ec_dot \<Rightarrow> nat \<Rightarrow> nat \<Rightarrow> nat \<Rightarrow> u8 list \<Rightarrow> u8 list list \<Rightarrow> u8 list list \<Rightarrow> u8 list list" where
  "ec_encode_data_avx dot len k rows g_tbls data coding =
    (if len < 16 then ec_encode_data_base len k rows g_tbls data coding
     else let kern = (\<lambda>n g c. dot n len k g data c)
          in ec_while 6 5 kern (ec_switch 5 kern) k rows g_tbls coding)"

definition ec_encode_data_avx2 :: "ec_dot \<Rightarrow> nat \<Rightarrow> nat \<Rightarrow> nat \<Rightarrow> u8 list \<Rightarrow> u8 list list \<Rightarrow> u8 list list \<Rightarrow> u8 list list" where
  "ec_encode_data_avx2 dot len k rows g_tbls data coding =
    (if len < 32 then ec_encode_data_base len k rows g_tbls data coding
     else let kern = (\<lambda>n g c. dot n len k g data c)
          in ec_while 6 5 kern (ec_switch 5 kern) k rows g_tbls coding)"

definition ec_encode_data_avx512 :: "ec_dot \<Rightarrow> nat \<Rightarrow> nat \<Rightarrow> nat \<Rightarrow> u8 list \<Rightarrow> u8 list list \<Rightarrow> u8 list list \<Rightarrow> u8 list list" where
  "ec_encode_data_avx512 dot len k rows g_tbls data coding =
    (if len < 64 then ec_encode_data_base len k rows g_tbls data coding
     else let kern = (\<lambda>n g c. dot n len k g data c)
          in ec_while 6 5 kern (ec_switch 5 kern) k rows g_tbls coding)"

definition ec_encode_data_avx512_gfni :: "ec_dot \<Rightarrow> nat \<Rightarrow> nat \<Rightarrow> nat \<Rightarrow> u8 list \<Rightarrow> u8 list list \<Rightarrow> u8 list list \<Rightarrow> u8 list list" where
  "ec_encode_data_avx512_gfni dot len k rows g_tbls data coding =
    (let kern = (\<lambda>n g c. dot n len k g data c)
     in ec_while 6 5 kern (ec_switch 5 kern) k rows g_tbls coding)"

definition ec_encode_data_avx2_gfni :: "ec_dot \<Rightarrow> nat \<Rightarrow> nat \<Rightarrow> nat \<Rightarrow> u8 list \<Rightarrow> u8 list list \<Rightarrow> u8 list list \<Rightarrow> u8 list list" where
  "ec_encode_data_avx2_gfni dot len k rows g_tbls data coding =
    (let kern = (\<lambda>n g c. dot n len k g data c)
     in ec_while 3 2 kern (ec_switch 2 kern) k rows g_tbls coding)"

definition ec_encode_data_neon :: "ec_dot \<Rightarrow> nat \<Rightarrow> nat \<Rightarrow> nat \<Rightarrow> u8 list \<Rightarrow> u8 list list \<Rightarrow> u8 list list \<Rightarrow> u8 list list" where
  "ec_encode_data_neon dot len k rows g_tbls data coding =
    (if len < 16 then ec_encode_data_base len k rows g_tbls data coding
     else let kern = (\<lambda>n g c. dot n len k g data c)
          in ec_while 5 5 kern (ec_switch 5 kern) k rows g_tbls coding)"

definition ec_encode_data_sve_impl :: "ec_dot \<Rightarrow> nat \<Rightarrow> nat \<Rightarrow> nat \<Rightarrow> u8 list \<Rightarrow> u8 list list \<Rightarrow> u8 list list \<Rightarrow> u8 list list" where
  "ec_encode_data_sve_impl dot len k rows g_tbls data coding =
    (let kern = (\<lambda>n g c. dot n len k g data c)
     in ec_while 4 7 kern (ec_switch_sve kern k) k rows g_tbls coding)"

definition ec_encode_data_sve :: "ec_dot \<Rightarrow> nat \<Rightarrow> nat \<Rightarrow> nat \<Rightarrow> u8 list \<Rightarrow> u8 list list \<Rightarrow> u8 list list \<Rightarrow> u8 list list" where
  "ec_encode_data_sve dot len k rows g_tbls data coding =
    (if len < 16 then ec_encode_data_base len k rows g_tbls data coding
     else ec_encode_data_sve_impl dot len k rows g_tbls data coding)"

definition ec_encode_data_sve2_impl :: "ec_dot \<Rightarrow> nat \<Rightarrow> nat \<Rightarrow> nat \<Rightarrow> u8 list \<Rightarrow> u8 list list \<Rightarrow> u8 list list \<Rightarrow> u8 list list" where
  "ec_encode_data_sve2_impl dot len k rows g_tbls data coding =
    (let kern = (\<lambda>n g c. dot n len k g data c)
     in ec_while 4 7 kern (ec_switch_sve kern k) k rows g_tbls coding)"

definition ec_encode_data_sve2 :: "ec_dot \<Rightarrow> nat \<Rightarrow> nat \<Rightarrow> nat \<Rightarrow> u8 list \<Rightarrow> u8 list list \<Rightarrow> u8 list list \<Rightarrow> u8 list list" where
  "ec_encode_data_sve2 dot len k rows g_tbls data coding =
    (if len < 16 then ec_encode_data_base len k rows g_tbls data coding
     else ec_encode_data_sve2_impl dot len k rows g_tbls data coding)"

definition ec_encode_data_rvv :: "ec_dot \<Rightarrow> nat \<Rightarrow> nat \<Rightarrow> nat \<Rightarrow> u8 list \<Rightarrow> u8 list list \<Rightarrow> u8 list list \<Rightarrow> u8 list list" where
  "ec_encode_data_rvv dot len k rows g_tbls data coding =
    (if len < 16 then ec_encode_data_base len k rows g_tbls data coding
     else let kern = (\<lambda>n g c. dot n len k g data c)
          in ec_while 6 11 kern (ec_switch_rvv kern k) k rows g_tbls coding)"

definition ec_encode_data_ppc64le :: "ec_dot \<Rightarrow> nat \<Rightarrow> nat \<Rightarrow> nat \<Rightarrow> u8 list \<Rightarrow> u8 list list \<Rightarrow> u8 list list \<Rightarrow> u8 list list" where
  "ec_encode_data_ppc64le dot len srcs dests v src dest =
    (if len < 64 then ec_encode_data_base len srcs dests v src dest
     else let kern = (\<lambda>n g c. dot n len srcs g src c)
          in ec_while 6 5 kern (ec_switch 6 kern) srcs dests v dest)"

section \<open>Updating\<close>

definition ec_encode_data_update_sse :: "ec_mad \<Rightarrow> nat \<Rightarrow> nat \<Rightarrow> nat \<Rightarrow> nat \<Rightarrow> u8 list \<Rightarrow> u8 list \<Rightarrow> u8 list list \<Rightarrow> u8 list list" where
  "ec_encode_data_update_sse mad len k rows vec_i g_tbls data coding =
    (if len < 16 then ec_encode_data_update_base len k rows vec_i g_tbls data coding
     else let kern = (\<lambda>n g c. mad n len k vec_i g data c)
          in ec_while 6 6 kern (ec_switch 6 kern) k rows g_tbls coding)"

definition ec_encode_data_update_avx :: "ec_mad \<Rightarrow> nat \<Rightarrow> nat \<Rightarrow> nat \<Rightarrow> nat \<Rightarrow> u8 list \<Rightarrow> u8 list \<Rightarrow> u8 list list \<Rightarrow> u8 list list" where
  "ec_encode_data_update_avx mad len k rows vec_i g_tbls data coding =
    (if len < 16 then ec_encode_data_update_base len k rows vec_i g_tbls data coding
     else let kern = (\<lambda>n g c. mad n len k vec_i g data c)
          in ec_while 6 6 kern (ec_switch 6 kern) k rows g_tbls coding)"

definition ec_encode_data_update_avx2 :: "ec_mad \<Rightarrow> nat \<Rightarrow> nat \<Rightarrow> nat \<Rightarrow> nat \<Rightarrow> u8 list \<Rightarrow> u8 list \<Rightarrow> u8 list list \<Rightarrow> u8 list list" where
  "ec_encode_data_update_avx2 mad len k rows vec_i g_tbls data coding =
    (if len < 32 then ec_encode_data_update_base len k rows vec_i g_tbls data coding
     else let kern = (\<lambda>n g c. mad n len k vec_i g data c)
          in ec_while 6 6 kern (ec_switch 6 kern) k rows g_tbls coding)"

definition ec_encode_data_update_avx512 :: "ec_mad \<Rightarrow> nat \<Rightarrow> nat \<Rightarrow> nat \<Rightarrow> nat \<Rightarrow> u8 list \<Rightarrow> u8 list \<Rightarrow> u8 list list \<Rightarrow> u8 list list" where
  "ec_encode_data_update_avx512 mad len k rows vec_i g_tbls data coding =
    (if len < 64 then ec_encode_data_update_base len k rows vec_i g_tbls data coding
     else let kern = (\<lambda>n g c. mad n len k vec_i g data c)
          in ec_while 6 5 kern (ec_switch 5 kern) k rows g_tbls coding)"

definition ec_encode_data_update_avx512_gfni :: "ec_mad \<Rightarrow> nat \<Rightarrow> nat \<Rightarrow> nat \<Rightarrow> nat \<Rightarrow> u8 list \<Rightarrow> u8 list \<Rightarrow> u8 list list \<Rightarrow> u8 list list" where
  "ec_encode_data_update_avx512_gfni mad len k rows vec_i g_tbls data coding =
    (let kern = (\<lambda>n g c. mad n len k vec_i g data c)
     in ec_while 6 5 kern (ec_switch 5 kern) k rows g_tbls coding)"

definition ec_encode_data_update_avx2_gfni :: "ec_mad \<Rightarrow> nat \<Rightarrow> nat \<Rightarrow> nat \<Rightarrow> nat \<Rightarrow> u8 list \<Rightarrow> u8 list \<Rightarrow> u8 list list \<Rightarrow> u8 list list" where
  "ec_encode_data_update_avx2_gfni mad len k rows vec_i g_tbls data coding =
    (let kern = (\<lambda>n g c. mad n len k vec_i g data c)
     in ec_while 5 4 kern (ec_switch 4 kern) k rows g_tbls coding)"

definition ec_encode_data_update_neon :: "ec_mad \<Rightarrow> nat \<Rightarrow> nat \<Rightarrow> nat \<Rightarrow> nat \<Rightarrow> u8 list \<Rightarrow> u8 list \<Rightarrow> u8 list list \<Rightarrow> u8 list list" where
  "ec_encode_data_update_neon mad len k rows vec_i g_tbls data coding =
    (if len < 16 then ec_encode_data_update_base len k rows vec_i g_tbls data coding
     else let kern = (\<lambda>n g c. mad n len k vec_i g data c)
          in ec_while 6 6 kern (ec_switch 6 kern) k rows g_tbls coding)"

definition ec_encode_data_update_sve_impl :: "ec_mad \<Rightarrow> nat \<Rightarrow> nat \<Rightarrow> nat \<Rightarrow> nat \<Rightarrow> u8 list \<Rightarrow> u8 list \<Rightarrow> u8 list list \<Rightarrow> u8 list list" where
  "ec_encode_data_update_sve_impl mad len k rows vec_i g_tbls data coding =
    (let kern = (\<lambda>n g c. mad n len k vec_i g data c)
     in ec_while 6 6 kern (ec_switch 6 kern) k rows g_tbls coding)"

definition ec_encode_data_update_sve :: "ec_mad \<Rightarrow> nat \<Rightarrow> nat \<Rightarrow> nat \<Rightarrow> nat \<Rightarrow> u8 list \<Rightarrow> u8 list \<Rightarrow> u8 list list \<Rightarrow> u8 list list" where
  "ec_encode_data_update_sve mad len k rows vec_i g_tbls data coding =
    (if len < 16 then ec_encode_data_update_base len k rows vec_i g_tbls data coding
     else ec_encode_data_update_sve_impl mad len k rows vec_i g_tbls data coding)"

definition ec_encode_data_update_rvv :: "ec_mad \<Rightarrow> nat \<Rightarrow> nat \<Rightarrow> nat \<Rightarrow> nat \<Rightarrow> u8 list \<Rightarrow> u8 list \<Rightarrow> u8 list list \<Rightarrow> u8 list list" where
  "ec_encode_data_update_rvv mad len k rows vec_i g_tbls data coding =
    (if len < 16 then ec_encode_data_update_base len k rows vec_i g_tbls data coding
     else let kern = (\<lambda>n g c. mad n len k vec_i g data c)
          in ec_while 6 6 kern (ec_switch 6 kern) k rows g_tbls coding)"

definition ec_encode_data_update_ppc64le :: "ec_mad \<Rightarrow> nat \<Rightarrow> nat \<Rightarrow> nat \<Rightarrow> nat \<Rightarrow> u8 list \<Rightarrow> u8 list \<Rightarrow> u8 list list \<Rightarrow> u8 list list" where
  "ec_encode_data_update_ppc64le mad len k rows vec_i v data dest =
    (if len < 64 then ec_encode_data_update_base len k rows vec_i v data dest
     else let kern = (\<lambda>n g c. mad n len k vec_i g data c)
          in ec_while 6 5 kern (ec_switch 6 kern) k rows v dest)"

lemmas ec_dispatch_defs =
  ec_encode_data_sse_def ec_encode_data_avx_def ec_encode_data_avx2_def ec_encode_data_avx512_def
  ec_encode_data_avx512_gfni_def ec_encode_data_avx2_gfni_def ec_encode_data_neon_def
  ec_encode_data_sve_def ec_encode_data_sve_impl_def ec_encode_data_sve2_def
  ec_encode_data_sve2_impl_def ec_encode_data_rvv_def ec_encode_data_ppc64le_def

lemmas ec_update_dispatch_defs =
  ec_encode_data_update_sse_def ec_encode_data_update_avx_def ec_encode_data_update_avx2_def
  ec_encode_data_update_avx512_def ec_encode_data_update_avx512_gfni_def
  ec_encode_data_update_avx2_gfni_def ec_encode_data_update_neon_def ec_encode_data_update_sve_def
  ec_encode_data_update_sve_impl_def ec_encode_data_update_rvv_def ec_encode_data_update_ppc64le_def

section \<open>Row-wise functions\<close>

text \<open>Both the encoder and the update rewrite each byte of each row on its own.\<close>

definition ec_with :: "(nat \<Rightarrow> nat \<Rightarrow> u8 \<Rightarrow> u8) \<Rightarrow> nat \<Rightarrow> nat \<Rightarrow> u8 list list \<Rightarrow> u8 list list" where
  "ec_with f len rows dest =
    map (\<lambda>l. map (\<lambda>i. f l i (dest ! l ! i)) [0..<len] @ drop len (dest ! l)) [0..<rows] @ drop rows dest"

definition ec_bufs :: "nat \<Rightarrow> nat \<Rightarrow> u8 list list \<Rightarrow> bool" where
  "ec_bufs len rows dest \<longleftrightarrow> rows \<le> length dest \<and> (\<forall>d \<in> set dest. len \<le> length d)"

lemma ec_bufs_with: "ec_bufs len rows dest \<Longrightarrow> ec_bufs len rows' (ec_with f len rows dest) \<longleftrightarrow> rows' \<le> length dest"
  by (auto simp: ec_bufs_def ec_with_def dest: in_set_dropD)

lemma length_ec_with [simp]: "rows \<le> length dest \<Longrightarrow> length (ec_with f len rows dest) = length dest"
  by (simp add: ec_with_def)

lemma ec_with_split:
  assumes "a + b \<le> length dest"
  shows "ec_with f len (a + b) dest
    = take a (ec_with f len a dest) @ ec_with (\<lambda>l. f (a + l)) len b (drop a (ec_with f len a dest))"
proof -
  have "drop a (ec_with f len a dest) = drop a dest" using assms by (simp add: ec_with_def)
  moreover have "take a (ec_with f len a dest)
      = map (\<lambda>l. map (\<lambda>i. f l i (dest ! l ! i)) [0..<len] @ drop len (dest ! l)) [0..<a]"
    using assms by (simp add: ec_with_def)
  moreover have "[0..<a + b] = [0..<a] @ map (\<lambda>l. a + l) [0..<b]"
    by (rule nth_equalityI) (simp_all add: nth_append)
  ultimately show ?thesis
    using assms by (simp add: ec_with_def comp_def add.commute [of b a])
qed

lemma ec_with_0 [simp]: "ec_with f len 0 dest = dest"
  by (simp add: ec_with_def)

lemma ec_with_cong: "(\<And>l i x. l < rows \<Longrightarrow> f l i x = g l i x) \<Longrightarrow> ec_with f len rows dest = ec_with g len rows dest"
  by (simp add: ec_with_def)

section \<open>Tables of whole rows\<close>

text \<open>
  \<open>g\<close> starts with what an initialisation routine writes for \<open>n\<close> rows of \<open>k\<close> coefficients, and
  the \<open>int\<close> product \<open>n * k * 32\<close> does not overflow.
\<close>

definition ec_tables :: "(nat \<Rightarrow> nat \<Rightarrow> u8 list \<Rightarrow> u8 list \<Rightarrow> u8 list) \<Rightarrow> nat \<Rightarrow> nat \<Rightarrow> u8 list \<Rightarrow> bool" where
  "ec_tables init k n g \<longleftrightarrow> n * k * 32 \<le> length g \<and> n * k * 32 < 2 ^ 31
    \<and> (\<exists>a. length a = n * k \<and> init k n a g = g)"

text \<open>An initialisation routine that writes one 32-byte table for each coefficient.\<close>

locale ec_init =
  fixes init :: "nat \<Rightarrow> nat \<Rightarrow> u8 list \<Rightarrow> u8 list \<Rightarrow> u8 list" and tbl :: "u8 \<Rightarrow> u8 list"
  assumes length_tbl: "length (tbl c) = 32"
    and init: "rows * k \<le> length a \<Longrightarrow> rows * k * 32 \<le> length g \<Longrightarrow>
      init k rows a g = concat (map tbl (take (rows * k) a)) @ drop (rows * k * 32) g"
begin

lemma length_tbls: "length (concat (map tbl cs)) = length cs * 32"
  by (rule length_concat_blocks) (simp add: length_tbl)

lemma tables_iff:
  "ec_tables init k n g \<longleftrightarrow> n * k * 32 \<le> length g \<and> n * k * 32 < 2 ^ 31
    \<and> (\<exists>a. length a = n * k \<and> take (n * k * 32) g = concat (map tbl a))"
proof -
  have "init k n a g = g \<longleftrightarrow> take (n * k * 32) g = concat (map tbl a)"
    if "length a = n * k" "n * k * 32 \<le> length g" for a
  proof -
    have "init k n a g = g \<longleftrightarrow> concat (map tbl a) @ drop (n * k * 32) g
        = take (n * k * 32) g @ drop (n * k * 32) g"
      using that by (simp add: init)
    also have "\<dots> \<longleftrightarrow> concat (map tbl a) = take (n * k * 32) g"
      using that by (intro append_same_eq)
    finally show ?thesis unfolding eq_commute [of "take (n * k * 32) g"] .
  qed
  then show ?thesis by (auto simp: ec_tables_def)
qed

lemma tables_length: "ec_tables init k n g \<Longrightarrow> n * k * 32 \<le> length g"
  by (simp add: ec_tables_def)

lemma tables_split:
  assumes "ec_tables init k (a + b) g"
  shows "ec_tables init k a g" "ec_tables init k b (drop (a * k * 32) g)"
proof -
  obtain cs where cs: "length cs = (a + b) * k" "take ((a + b) * k * 32) g = concat (map tbl cs)"
    and len: "(a + b) * k * 32 \<le> length g" "(a + b) * k * 32 < 2 ^ 31"
    using assms by (auto simp: tables_iff)
  let ?x = "take (a * k) cs" and ?y = "drop (a * k) cs"
  have l: "length ?x = a * k" "length ?y = b * k" using cs(1) by (simp_all add: add_mult_distrib)
  have le: "a * k * 32 \<le> (a + b) * k * 32" by simp
  have split: "take ((a + b) * k * 32) g = concat (map tbl ?x) @ concat (map tbl ?y)"
    unfolding cs(2) concat_append [symmetric] map_append [symmetric] append_take_drop_id by (rule refl)
  have "take (a * k * 32) g = take (a * k * 32) (take ((a + b) * k * 32) g)"
    using le by (simp add: min_absorb1)
  also have "\<dots> = concat (map tbl ?x)" unfolding split using l by (simp add: length_tbls)
  finally show "ec_tables init k a g"
    using len le l(1) unfolding tables_iff by (intro conjI exI [of _ ?x]) linarith+
  have "take (b * k * 32) (drop (a * k * 32) g) = drop (a * k * 32) (take ((a + b) * k * 32) g)"
    by (simp add: drop_take add_mult_distrib)
  also have "\<dots> = concat (map tbl ?y)" unfolding split using l by (simp add: length_tbls)
  finally show "ec_tables init k b (drop (a * k * 32) g)"
    using len l(2) unfolding tables_iff by (intro conjI exI [of _ ?y]) (simp_all add: add_mult_distrib)
qed

lemma tables_init:
  assumes "rows * k \<le> length a" "rows * k * 32 \<le> length g" "rows * k * 32 < 2 ^ 31"
  shows "ec_tables init k rows (init k rows a g)"
  unfolding tables_iff init [OF assms(1,2)] using assms length_tbls [of "take (rows * k) a"]
  by (intro conjI exI [of _ "take (rows * k) a"]) simp_all

text \<open>The table of one coefficient.\<close>

lemma table_at:
  assumes "ec_tables init k n g" "l < n" "j < k"
  obtains c where "take 32 (drop (j * 32 + l * k * 32) g) = tbl c"
proof -
  obtain cs where cs: "length cs = n * k" "take (n * k * 32) g = concat (map tbl cs)"
    using assms(1) by (auto simp: tables_iff)
  have lt: "l * k + j < n * k" using assms by (intro flat_less)
  define p where "p = l * k + j"
  have p: "p < length cs" "p * 32 + 32 \<le> n * k * 32" using lt cs(1) by (simp_all add: p_def)
  have "take 32 (drop (p * 32) g) = take 32 (drop (p * 32) (take (n * k * 32) g))"
    using p(2) by (simp add: drop_take min_def)
  also have "take (n * k * 32) g
      = concat (map tbl (take p cs)) @ tbl (cs ! p) @ concat (map tbl (drop (Suc p) cs))"
    unfolding cs(2) by (subst id_take_nth_drop [OF p(1)]) simp
  also have "take 32 (drop (p * 32) \<dots>) = tbl (cs ! p)"
    using p(1) length_tbls [of "take p cs"] by (simp add: length_tbl)
  finally have "take 32 (drop (p * 32) g) = tbl (cs ! p)" .
  moreover have "p * 32 = j * 32 + l * k * 32" by (simp add: p_def algebra_simps)
  ultimately show ?thesis by (intro that [of "cs ! p"]) (simp only:)
qed

end

interpretation ec_nibbles: ec_init ec_init_tables_base gf_tbl
  by unfold_locales (simp_all only: length_gf_tbl ec_init_tables_base_eq)

section \<open>The interface of the kernels\<close>

text \<open>
  A kernel of \<open>n\<close> rows does on the first \<open>n\<close> buffers what the row-wise function does, given
  tables \<open>ok\<close> for \<open>n\<close> rows; advancing such tables by \<open>a\<close> rows shifts the rows and leaves
  tables that are ok for the others.
\<close>

locale ec_kernels =
  fixes kern :: ec_kern and f :: "u8 list \<Rightarrow> nat \<Rightarrow> nat \<Rightarrow> u8 \<Rightarrow> u8" and ok :: "nat \<Rightarrow> u8 list \<Rightarrow> bool"
    and len k max_n :: nat
  assumes kern: "0 < n \<Longrightarrow> n \<le> max_n \<Longrightarrow> ec_bufs len n c \<Longrightarrow> ok n g \<Longrightarrow> kern n g c = ec_with (f g) len n c"
    and shift: "ok (a + b) g \<Longrightarrow> f (drop (a * k * 32) g) l = f g (a + l)"
    and first: "ok (a + b) g \<Longrightarrow> ok a g"
    and rest: "ok (a + b) g \<Longrightarrow> ok b (drop (a * k * 32) g)"
begin

definition good :: "nat \<Rightarrow> ec_kern \<Rightarrow> bool" where
  "good r sw \<longleftrightarrow> (\<forall>g c. ec_bufs len r c \<longrightarrow> ok r g \<longrightarrow> sw r g c = ec_with (f g) len r c)"

lemma split_rows:
  assumes "ec_bufs len (a + b) c" "ok (a + b) g"
  shows "ec_with (f g) len (a + b) c
    = take a (ec_with (f g) len a c) @ ec_with (f (drop (a * k * 32) g)) len b (drop a (ec_with (f g) len a c))"
proof -
  have "f (drop (a * k * 32) g) = (\<lambda>l. f g (a + l))" by (rule ext) (rule shift [OF assms(2)])
  with assms(1) show ?thesis by (simp add: ec_with_split ec_bufs_def)
qed

lemma bufs_rest:
  assumes "ec_bufs len (a + b) c"
  shows "ec_bufs len a c" "ec_bufs len b (drop a (ec_with (f g) len a c))"
proof -
  show a: "ec_bufs len a c" using assms by (simp add: ec_bufs_def)
  from ec_bufs_with [OF this, of "a + b"] assms have "ec_bufs len (a + b) (ec_with (f g) len a c)"
    by (simp add: ec_bufs_def)
  then show "ec_bufs len b (drop a (ec_with (f g) len a c))"
    by (auto simp: ec_bufs_def dest: in_set_dropD)
qed

lemma switch_good: "r \<le> lim \<Longrightarrow> lim \<le> max_n \<Longrightarrow> good r (ec_switch lim kern)"
  by (auto simp: good_def ec_switch_def kern)

lemma two_rows:
  assumes "0 < a" "a \<le> max_n" "0 < b" "b \<le> max_n" "ec_bufs len (a + b) c" "ok (a + b) g"
  shows "ec_two kern k a b g c = ec_with (f g) len (a + b) c"
proof -
  show ?thesis
    using assms(1-4) first [OF assms(6)] rest [OF assms(6)] bufs_rest [OF assms(5)] by (simp add: ec_two_def Let_def kern split_rows [OF assms(5,6)])
qed

lemma sve_good: "r \<le> 7 \<Longrightarrow> 5 \<le> max_n \<Longrightarrow> good r (ec_switch_sve kern k)"
  using two_rows [of 4 3] two_rows [of 4 2] switch_good [of r 5]
  by (auto simp: good_def ec_switch_sve_def)

lemma rvv_good: "r \<le> 11 \<Longrightarrow> 7 \<le> max_n \<Longrightarrow> good r (ec_switch_rvv kern k)"
  using two_rows [of 7 4] two_rows [of 6 4] two_rows [of 5 4] two_rows [of 4 4] switch_good [of r 7]
  by (auto simp: good_def ec_switch_rvv_def)

lemma while_rows:
  assumes "0 < step" "step \<le> max_n" "step \<le> Suc lim" "\<And>r. r \<le> lim \<Longrightarrow> good r sw"
    and "ec_bufs len rows c" "ok rows g"
  shows "ec_while step lim kern sw k rows g c = ec_with (f g) len rows c"
  using assms(5,6)
proof (induction rows arbitrary: g c rule: less_induct)
  case (less rows)
  show ?case
  proof (cases "lim < rows")
    case False
    with less.prems assms(4) [of rows] show ?thesis by (simp add: ec_while.simps [of _ lim] good_def)
  next
    case True
    define b where "b = rows - step"
    from True assms(1,3) have rows: "rows = step + b" "b < rows" by (simp_all add: b_def)
    have bufs: "ec_bufs len (step + b) c" and tbl: "ok (step + b) g"
      using less.prems rows(1) by simp_all
    note sub = first [OF tbl] rest [OF tbl]
    have "ec_while step lim kern sw k rows g c = take step (ec_with (f g) len step c)
        @ ec_while step lim kern sw k b (drop (step * k * 32) g) (drop step (ec_with (f g) len step c))"
      using True assms(1) kern [OF assms(1,2) bufs_rest(1) [OF bufs] sub(1)]
      by (simp add: ec_while.simps [of step lim kern sw k rows] Let_def b_def)
    also have "\<dots> = ec_with (f g) len (step + b) c"
      using less.IH [OF rows(2) bufs_rest(2) [OF bufs] sub(2)] split_rows [OF bufs tbl] by simp
    finally show ?thesis by (simp only: rows(1))
  qed
qed

end

section \<open>The base code provides the interface\<close>

lemma ec_encode_data_base_with:
  "ec_bufs len n c \<Longrightarrow> ec_encode_data_base len k n g data c = ec_with (\<lambda>l i x. ec_row k l g data i) len n c"
  by (subst ec_encode_data_base_eq) (auto simp: ec_bufs_def ec_with_def)

lemma ec_encode_data_update_base_with:
  "ec_bufs len n c \<Longrightarrow> ec_encode_data_update_base len k n vec_i g data c
    = ec_with (\<lambda>l i x. x XOR gf_mul (data ! i) (g ! (vec_i * 32 + l * k * 32 + 1))) len n c"
  by (subst ec_encode_data_update_base_eq) (auto simp: ec_bufs_def ec_with_def)

lemma tbl_shift:
  "(a + b) * k * 32 \<le> length g \<Longrightarrow>
    drop (a * k * 32) g ! (j * 32 + l * k * 32 + 1) = g ! (j * 32 + (a + l) * k * 32 + 1)"
  by (simp add: algebra_simps)

interpretation ec_base_dot: ec_kernels "\<lambda>n g c. ec_encode_data_base len k n g data c"
    "\<lambda>g l i x. ec_row k l g data i" "\<lambda>n g. n * k * 32 \<le> length g" len k max_n for len k max_n data
  by unfold_locales (simp_all only: ec_encode_data_base_with ec_row_def tbl_shift, simp_all add: algebra_simps)

interpretation ec_base_mad: ec_kernels "\<lambda>n g c. ec_encode_data_update_base len k n vec_i g data c"
    "\<lambda>g l i x. x XOR gf_mul (data ! i) (g ! (vec_i * 32 + l * k * 32 + 1))"
    "\<lambda>n g. n * k * 32 \<le> length g" len k max_n
    for len k max_n vec_i data
  by unfold_locales (simp_all only: ec_encode_data_update_base_with tbl_shift, simp_all add: algebra_simps)

section \<open>Kernels that agree with the base code\<close>

text \<open>
  What the assembly promises (\<open>erasure_code.h\<close>: the tables come from \<open>ec_init_tables\<close>): for at
  least one source, from a minimal length on, the result of the base function on \<open>n\<close> rows.
  Lengths and offsets are \<open>int\<close>s.
\<close>

definition ec_dot_contract :: "nat \<Rightarrow> nat \<Rightarrow> ec_dot \<Rightarrow> bool" where
  "ec_dot_contract min_len max_n dot \<longleftrightarrow>
    (\<forall>n len k g data c. 0 < n \<longrightarrow> n \<le> max_n \<longrightarrow> 0 < k \<longrightarrow> min_len \<le> len \<longrightarrow> len < 2 ^ 31
      \<longrightarrow> ec_bufs len k data \<longrightarrow> ec_bufs len n c \<longrightarrow> ec_tables ec_init_tables_base k n g
      \<longrightarrow> dot n len k g data c = ec_encode_data_base len k n g data c)"

definition ec_mad_contract :: "nat \<Rightarrow> nat \<Rightarrow> ec_mad \<Rightarrow> bool" where
  "ec_mad_contract min_len max_n mad \<longleftrightarrow>
    (\<forall>n len k vec_i g data c. 0 < n \<longrightarrow> n \<le> max_n \<longrightarrow> min_len \<le> len \<longrightarrow> len < 2 ^ 31
      \<longrightarrow> len \<le> length data \<longrightarrow> vec_i < k \<longrightarrow> ec_bufs len n c \<longrightarrow> ec_tables ec_init_tables_base k n g
      \<longrightarrow> mad n len k vec_i g data c = ec_encode_data_update_base len k n vec_i g data c)"

lemma ec_dot_kernels:
  assumes "ec_dot_contract min_len max_n dot" "min_len \<le> len" "len < 2 ^ 31" "0 < k" "ec_bufs len k data"
  shows "ec_kernels (\<lambda>n g c. dot n len k g data c) (\<lambda>g l i x. ec_row k l g data i)
    (ec_tables ec_init_tables_base k) len k max_n"
proof
  show "dot n len k g data c = ec_with (\<lambda>l i x. ec_row k l g data i) len n c"
    if "0 < n" "n \<le> max_n" "ec_bufs len n c" "ec_tables ec_init_tables_base k n g" for n c g
    using assms that by (simp only: ec_dot_contract_def ec_encode_data_base_with)
qed (rule ec_base_dot.shift, erule ec_nibbles.tables_length | erule ec_nibbles.tables_split)+

lemma ec_mad_kernels:
  assumes "ec_mad_contract min_len max_n mad" "min_len \<le> len" "len < 2 ^ 31" "len \<le> length data" "vec_i < k"
  shows "ec_kernels (\<lambda>n g c. mad n len k vec_i g data c)
    (\<lambda>g l i x. x XOR gf_mul (data ! i) (g ! (vec_i * 32 + l * k * 32 + 1)))
    (ec_tables ec_init_tables_base k) len k max_n"
proof
  show "mad n len k vec_i g data c
      = ec_with (\<lambda>l i x. x XOR gf_mul (data ! i) (g ! (vec_i * 32 + l * k * 32 + 1))) len n c"
    if "0 < n" "n \<le> max_n" "ec_bufs len n c" "ec_tables ec_init_tables_base k n g" for n c g
    using assms that by (simp only: ec_mad_contract_def ec_encode_data_update_base_with)
qed (rule ec_base_mad.shift, erule ec_nibbles.tables_length | erule ec_nibbles.tables_split)+

lemma ec_dot_while:
  assumes "ec_dot_contract min_len max_n dot" "min_len \<le> len" "len < 2 ^ 31" "0 < k" "ec_bufs len k data"
    and "ec_bufs len rows c" "ec_tables ec_init_tables_base k rows g"
    and "0 < step" "step \<le> max_n" "step \<le> Suc lim"
  shows "lim \<le> max_n \<Longrightarrow> lim \<le> lim' \<Longrightarrow> lim' \<le> max_n \<Longrightarrow>
      ec_while step lim (\<lambda>n g c. dot n len k g data c) (ec_switch lim' (\<lambda>n g c. dot n len k g data c)) k rows g c
      = ec_encode_data_base len k rows g data c" (is "_ \<Longrightarrow> _ \<Longrightarrow> _ \<Longrightarrow> ?switch")
    and "lim \<le> 7 \<Longrightarrow> 5 \<le> max_n \<Longrightarrow>
      ec_while step lim (\<lambda>n g c. dot n len k g data c) (ec_switch_sve (\<lambda>n g c. dot n len k g data c) k) k rows g c
      = ec_encode_data_base len k rows g data c" (is "_ \<Longrightarrow> _ \<Longrightarrow> ?sve")
    and "lim \<le> 11 \<Longrightarrow> 7 \<le> max_n \<Longrightarrow>
      ec_while step lim (\<lambda>n g c. dot n len k g data c) (ec_switch_rvv (\<lambda>n g c. dot n len k g data c) k) k rows g c
      = ec_encode_data_base len k rows g data c" (is "_ \<Longrightarrow> _ \<Longrightarrow> ?rvv")
proof -
  note K = ec_dot_kernels [OF assms(1-5)]
  note w = ec_kernels.while_rows [OF K assms(8-10) _ assms(6,7)]
  note base = ec_encode_data_base_with [OF assms(6)]
  show "lim \<le> max_n \<Longrightarrow> lim \<le> lim' \<Longrightarrow> lim' \<le> max_n \<Longrightarrow> ?switch"
    unfolding base by (rule w) (rule ec_kernels.switch_good [OF K], simp_all)
  show "lim \<le> 7 \<Longrightarrow> 5 \<le> max_n \<Longrightarrow> ?sve"
    unfolding base by (rule w) (rule ec_kernels.sve_good [OF K], simp_all)
  show "lim \<le> 11 \<Longrightarrow> 7 \<le> max_n \<Longrightarrow> ?rvv"
    unfolding base by (rule w) (rule ec_kernels.rvv_good [OF K], simp_all)
qed

lemma ec_mad_while:
  assumes "ec_mad_contract min_len max_n mad" "min_len \<le> len" "len < 2 ^ 31" "len \<le> length data" "vec_i < k"
    and "ec_bufs len rows c" "ec_tables ec_init_tables_base k rows g"
    and "0 < step" "step \<le> max_n" "step \<le> Suc lim" "lim \<le> lim'" "lim' \<le> max_n"
  shows "ec_while step lim (\<lambda>n g c. mad n len k vec_i g data c)
      (ec_switch lim' (\<lambda>n g c. mad n len k vec_i g data c)) k rows g c
    = ec_encode_data_update_base len k rows vec_i g data c"
  unfolding ec_encode_data_update_base_with [OF assms(6)]
  using assms ec_mad_kernels [OF assms(1-5)]
  by (intro ec_kernels.while_rows [OF ec_mad_kernels [OF assms(1-5)]] ec_kernels.switch_good) simp_all

section \<open>A kernel with table lookups\<close>

text \<open>
  The shuffle kernels multiply by two lookups of 16 entries, by the low and by the high nibble,
  in the two halves of a table. Such kernels meet the contract.
\<close>

definition gf_lookup :: "u8 list \<Rightarrow> u8 \<Rightarrow> u8" where
  "gf_lookup t x = (take 16 t ! unat (x AND 15)) XOR (take 16 (drop 16 t) ! unat (drop_bit 4 x))"

definition lookup_dot :: ec_dot where
  "lookup_dot n len k g data c =
    ec_with (\<lambda>l i x. xor_sum (map (\<lambda>j. gf_lookup (drop (j * 32 + l * k * 32) g) (data ! j ! i)) [0..<k])) len n c"

definition lookup_mad :: ec_mad where
  "lookup_mad n len k vec_i g data c =
    ec_with (\<lambda>l i x. x XOR gf_lookup (drop (vec_i * 32 + l * k * 32) g) (data ! i)) len n c"

lemma gf_lookup_base:
  assumes "ec_tables ec_init_tables_base k n g" "l < n" "j < k"
  shows "gf_lookup (drop (j * 32 + l * k * 32) g) x = gf_mul x (g ! (j * 32 + l * k * 32 + 1))"
proof -
  obtain c where c: "take 32 (drop (j * 32 + l * k * 32) g) = gf_tbl c"
    using assms by (rule ec_nibbles.table_at)
  define t where "t = drop (j * 32 + l * k * 32) g"
  have t: "take 32 t = gf_tbl c" using c by (simp only: t_def)
  then have "length (take 32 t) = 32" by simp
  then have len: "32 \<le> length t" by simp
  have nth: "t ! i = gf_tbl c ! i" if "i < 32" for i using that by (simp add: t [symmetric])
  have "gf_lookup t x = gf_mul c x"
    using nth nibble_low [of x] nibble_high [of x] len gf_tbl_lookup [of c x] by (simp add: gf_lookup_def)
  moreover have "t ! 1 = g ! (j * 32 + l * k * 32 + 1)"
    using len by (simp add: t_def)
  ultimately show ?thesis unfolding t_def [symmetric] using nth [of 1]
    by (simp add: gf_tbl_1 [unfolded One_nat_def] gf_mul_comm)
qed

lemma lookup_dot_contract: "ec_dot_contract min_len max_n lookup_dot"
  unfolding ec_dot_contract_def lookup_dot_def
proof (intro allI impI)
  fix n len k g data c
  assume "ec_bufs len n c" and ok: "ec_tables ec_init_tables_base k n g"
  then show "ec_with (\<lambda>l i x. xor_sum (map (\<lambda>j. gf_lookup (drop (j * 32 + l * k * 32) g) (data ! j ! i)) [0..<k])) len n c
      = ec_encode_data_base len k n g data c"
    unfolding ec_encode_data_base_with [OF \<open>ec_bufs len n c\<close>] ec_row_def
    by (intro ec_with_cong arg_cong [where f = xor_sum] map_cong gf_lookup_base) simp_all
qed

lemma lookup_mad_contract: "ec_mad_contract min_len max_n lookup_mad"
  unfolding ec_mad_contract_def lookup_mad_def
proof (intro allI impI)
  fix n len k vec_i g data c
  assume "ec_bufs len n c" and "ec_tables ec_init_tables_base k n g" "vec_i < k"
  then show "ec_with (\<lambda>l i x. x XOR gf_lookup (drop (vec_i * 32 + l * k * 32) g) (data ! i)) len n c
      = ec_encode_data_update_base len k n vec_i g data c"
    unfolding ec_encode_data_update_base_with [OF \<open>ec_bufs len n c\<close>]
    by (intro ec_with_cong arg_cong2 [where f = "(XOR)"] refl gf_lookup_base)
qed

text \<open>
  C17: whatever the instruction set, if its kernels meet their contract then the dispatched
  \<open>ec_encode_data\<close>, with the tables \<open>ec_init_tables\<close> has made of \<open>a\<close>, is the base encoder on
  all rows: every row is handed to exactly one kernel with the tables that belong to it, and
  lengths below the minimum take the base code.
\<close>

theorem ec_encode_data_dispatch:
  assumes "0 < k" "len < 2 ^ 31" "ec_bufs len k data" "ec_bufs len rows coding"
    and "rows * k \<le> length a" "rows * k * 32 \<le> length tbls" "rows * k * 32 < 2 ^ 31"
  defines "g_tbls \<equiv> ec_init_tables_base k rows a tbls"
  defines "base \<equiv> ec_encode_data_base len k rows g_tbls data coding"
  shows "(ec_dot_contract 16 6 dot \<longrightarrow> ec_encode_data_sse dot len k rows g_tbls data coding = base
        \<and> ec_encode_data_avx dot len k rows g_tbls data coding = base)
    \<and> (ec_dot_contract 32 6 dot \<longrightarrow> ec_encode_data_avx2 dot len k rows g_tbls data coding = base)
    \<and> (ec_dot_contract 64 6 dot \<longrightarrow> ec_encode_data_avx512 dot len k rows g_tbls data coding = base
        \<and> ec_encode_data_ppc64le dot len k rows g_tbls data coding = base)
    \<and> (ec_dot_contract 16 5 dot \<longrightarrow> ec_encode_data_neon dot len k rows g_tbls data coding = base
        \<and> ec_encode_data_sve dot len k rows g_tbls data coding = base
        \<and> ec_encode_data_sve2 dot len k rows g_tbls data coding = base)
    \<and> (ec_dot_contract 16 7 dot \<longrightarrow> ec_encode_data_rvv dot len k rows g_tbls data coding = base)"
  using ec_dot_while [OF _ _ assms(2,1,3,4) ec_nibbles.tables_init [OF assms(5-7)]]
  unfolding base_def g_tbls_def ec_dispatch_defs Let_def by simp

theorem ec_encode_data_dispatch_witness:
  "ec_encode_data_rvv lookup_dot 16 1 12 (ec_init_tables_base 1 12 [1, 2, 3, 4, 5, 6, 7, 8, 9, 10, 11, 12] (replicate 384 0))
      [replicate 16 5] (replicate 12 (replicate 16 0))
    = ec_encode_data_base 16 1 12 (ec_init_tables_base 1 12 [1, 2, 3, 4, 5, 6, 7, 8, 9, 10, 11, 12] (replicate 384 0))
      [replicate 16 5] (replicate 12 (replicate 16 0))"
proof -
  have "ec_bufs 16 1 [replicate 16 5]" "ec_bufs 16 12 (replicate 12 (replicate 16 0))"
    by (simp_all add: ec_bufs_def)
  then show ?thesis
    using lookup_dot_contract [of 16 7]
      ec_encode_data_dispatch [of 1 16 "[replicate 16 5]" 12 "replicate 12 (replicate 16 0)" "[1, 2, 3, 4, 5, 6, 7, 8, 9, 10, 11, 12]" "replicate 384 0" lookup_dot]
    by simp
qed

text \<open>
  C40: the same for \<open>ec_encode_data_update\<close>: with tables made by \<open>ec_init_tables\<close> and kernels
  that meet their contract, every dispatched update is the base update.
\<close>

theorem ec_encode_data_update_dispatch:
  assumes "len < 2 ^ 31" "len \<le> length data" "vec_i < k" "ec_bufs len rows coding"
    and "rows * k \<le> length a" "rows * k * 32 \<le> length tbls" "rows * k * 32 < 2 ^ 31"
  defines "g_tbls \<equiv> ec_init_tables_base k rows a tbls"
  defines "base \<equiv> ec_encode_data_update_base len k rows vec_i g_tbls data coding"
  shows "(ec_mad_contract 16 6 mad \<longrightarrow> ec_encode_data_update_sse mad len k rows vec_i g_tbls data coding = base
        \<and> ec_encode_data_update_avx mad len k rows vec_i g_tbls data coding = base
        \<and> ec_encode_data_update_neon mad len k rows vec_i g_tbls data coding = base
        \<and> ec_encode_data_update_sve mad len k rows vec_i g_tbls data coding = base
        \<and> ec_encode_data_update_rvv mad len k rows vec_i g_tbls data coding = base)
    \<and> (ec_mad_contract 32 6 mad \<longrightarrow> ec_encode_data_update_avx2 mad len k rows vec_i g_tbls data coding = base)
    \<and> (ec_mad_contract 64 6 mad \<longrightarrow> ec_encode_data_update_avx512 mad len k rows vec_i g_tbls data coding = base
        \<and> ec_encode_data_update_ppc64le mad len k rows vec_i g_tbls data coding = base)"
  using ec_mad_while [OF _ _ assms(1-4) ec_nibbles.tables_init [OF assms(5-7)]]
  unfolding base_def g_tbls_def ec_update_dispatch_defs Let_def by simp

theorem ec_encode_data_update_dispatch_witness:
  "ec_encode_data_update_sse lookup_mad 16 1 7 0 (ec_init_tables_base 1 7 [1, 2, 3, 4, 5, 6, 7] (replicate 224 0))
      (replicate 16 5) (replicate 7 (replicate 16 0))
    = ec_encode_data_update_base 16 1 7 0 (ec_init_tables_base 1 7 [1, 2, 3, 4, 5, 6, 7] (replicate 224 0))
      (replicate 16 5) (replicate 7 (replicate 16 0))"
proof -
  have "ec_bufs 16 7 (replicate 7 (replicate 16 0))"
    by (simp add: ec_bufs_def)
  then show ?thesis
    using lookup_mad_contract [of 16 6]
      ec_encode_data_update_dispatch [of 16 "replicate 16 5" 0 1 7 "replicate 7 (replicate 16 0)"
        "[1, 2, 3, 4, 5, 6, 7]" "replicate 224 0" lookup_mad]
    by simp
qed

end
