(* ===== verification/EC_GFNI.thy ===== *)
theory EC_GFNI
  imports EC_Highlevel
begin

text \<open>
  The GFNI variant of the erasure code (\<open>erasure_code/ec_highlevel_func.c\<close>): the table
  \<open>gf_table_gfni\<close> of \<open>ec_base.h\<close> holds, for each \<open>c\<close>, the 8x8 bit matrix of the
  multiplication by \<open>c\<close> in the layout of the instruction \<open>GF2P8AFFINEQB\<close>. The instruction is
  a parameter with its documented behaviour as hypothesis.
\<close>

section \<open>The table and its initialisation\<close>

definition gf_table_gfni :: "u64 list" where
  "gf_table_gfni = [
    0x0000000000000000, 0x0102040810204080, 0x8001828488102040, 0x8103868C983060C0,
    0x408041C2C4881020, 0x418245CAD4A850A0, 0xC081C3464C983060, 0xC183C74E5CB870E0,
    0x2040A061E2C48810, 0x2142A469F2E4C890, 0xA04122E56AD4A850, 0xA14326ED7AF4E8D0,
    0x60C0E1A3264C9830, 0x61C2E5AB366CD8B0, 0xE0C16327AE5CB870, 0xE1C3672FBE7CF8F0,
    0x102050B071E2C488, 0x112254B861C28408, 0x9021D234F9F2E4C8, 0x9123D63CE9D2A448,
    0x50A01172B56AD4A8, 0x51A2157AA54A9428, 0xD0A193F63D7AF4E8, 0xD1A397FE2D5AB468,
    0x3060F0D193264C98, 0x3162F4D983060C18, 0xB06172551B366CD8, 0xB163765D0B162C58,
    0x70E0B11357AE5CB8, 0x71E2B51B478E1C38, 0xF0E13397DFBE7CF8, 0xF1E3379FCF9E3C78,
    0x8810A8D83871E2C4, 0x8912ACD02851A244, 0x08112A5CB061C284, 0x09132E54A0418204,
    0xC890E91AFCF9F2E4, 0xC992ED12ECD9B264, 0x48916B9E74E9D2A4, 0x49936F9664C99224,
    0xA85008B9DAB56AD4, 0xA9520CB1CA952A54, 0x28518A3D52A54A94, 0x29538E3542850A14,
    0xE8D0497B1E3D7AF4, 0xE9D24D730E1D3A74, 0x68D1CBFF962D5AB4, 0x69D3CFF7860D1A34,
    0x9830F8684993264C, 0x9932FC6059B366CC, 0x18317AECC183060C, 0x19337EE4D1A3468C,
    0xD8B0B9AA8D1B366C, 0xD9B2BDA29D3B76EC, 0x58B13B2E050B162C, 0x59B33F26152B56AC,
    0xB8705809AB57AE5C, 0xB9725C01BB77EEDC, 0x3871DA8D23478E1C, 0x3973DE853367CE9C,
    0xF8F019CB6FDFBE7C, 0xF9F21DC37FFFFEFC, 0x78F19B4FE7CF9E3C, 0x79F39F47F7EFDEBC,
    0xC488D46C1C3871E2, 0xC58AD0640C183162, 0x448956E8942851A2, 0x458B52E084081122,
    0x840895AED8B061C2, 0x850A91A6C8902142, 0x0409172A50A04182, 0x050B132240800102,
    0xE4C8740DFEFCF9F2, 0xE5CA7005EEDCB972, 0x64C9F68976ECD9B2, 0x65CBF28166CC9932,
    0xA44835CF3A74E9D2, 0xA54A31C72A54A952, 0x2449B74BB264C992, 0x254BB343A2448912,
    0xD4A884DC6DDAB56A, 0xD5AA80D47DFAF5EA, 0x54A90658E5CA952A, 0x55AB0250F5EAD5AA,
    0x9428C51EA952A54A, 0x952AC116B972E5CA, 0x1429479A2142850A, 0x152B43923162C58A,
    0xF4E824BD8F1E3D7A, 0xF5EA20B59F3E7DFA, 0x74E9A639070E1D3A, 0x75EBA231172E5DBA,
    0xB468657F4B962D5A, 0xB56A61775BB66DDA, 0x3469E7FBC3860D1A, 0x356BE3F3D3A64D9A,
    0x4C987CB424499326, 0x4D9A78BC3469D3A6, 0xCC99FE30AC59B366, 0xCD9BFA38BC79F3E6,
    0x0C183D76E0C18306, 0x0D1A397EF0E1C386, 0x8C19BFF268D1A346, 0x8D1BBBFA78F1E3C6,
    0x6CD8DCD5C68D1B36, 0x6DDAD8DDD6AD5BB6, 0xECD95E514E9D3B76, 0xEDDB5A595EBD7BF6,
    0x2C589D1702050B16, 0x2D5A991F12254B96, 0xAC591F938A152B56, 0xAD5B1B9B9A356BD6,
    0x5CB82C0455AB57AE, 0x5DBA280C458B172E, 0xDCB9AE80DDBB77EE, 0xDDBBAA88CD9B376E,
    0x1C386DC69123478E, 0x1D3A69CE8103070E, 0x9C39EF42193367CE, 0x9D3BEB4A0913274E,
    0x7CF88C65B76FDFBE, 0x7DFA886DA74F9F3E, 0xFCF90EE13F7FFFFE, 0xFDFB0AE92F5FBF7E,
    0x3C78CDA773E7CF9E, 0x3D7AC9AF63C78F1E, 0xBC794F23FBF7EFDE, 0xBD7B4B2BEBD7AF5E,
    0xE2C46A368E1C3871, 0xE3C66E3E9E3C78F1, 0x62C5E8B2060C1831, 0x63C7ECBA162C58B1,
    0xA2442BF44A942851, 0xA3462FFC5AB468D1, 0x2245A970C2840811, 0x2347AD78D2A44891,
    0xC284CA576CD8B061, 0xC386CE5F7CF8F0E1, 0x428548D3E4C89021, 0x43874CDBF4E8D0A1,
    0x82048B95A850A041, 0x83068F9DB870E0C1, 0x0205091120408001, 0x03070D193060C081,
    0xF2E43A86FFFEFCF9, 0xF3E63E8EEFDEBC79, 0x72E5B80277EEDCB9, 0x73E7BC0A67CE9C39,
    0xB2647B443B76ECD9, 0xB3667F4C2B56AC59, 0x3265F9C0B366CC99, 0x3367FDC8A3468C19,
    0xD2A49AE71D3A74E9, 0xD3A69EEF0D1A3469, 0x52A51863952A54A9, 0x53A71C6B850A1429,
    0x9224DB25D9B264C9, 0x9326DF2DC9922449, 0x122559A151A24489, 0x13275DA941820409,
    0x6AD4C2EEB66DDAB5, 0x6BD6C6E6A64D9A35, 0xEAD5406A3E7DFAF5, 0xEBD744622E5DBA75,
    0x2A54832C72E5CA95, 0x2B56872462C58A15, 0xAA5501A8FAF5EAD5, 0xAB5705A0EAD5AA55,
    0x4A94628F54A952A5, 0x4B96668744891225, 0xCA95E00BDCB972E5, 0xCB97E403CC993265,
    0x0A14234D90214285, 0x0B16274580010205, 0x8A15A1C9183162C5, 0x8B17A5C108112245,
    0x7AF4925EC78F1E3D, 0x7BF69656D7AF5EBD, 0xFAF510DA4F9F3E7D, 0xFBF714D25FBF7EFD,
    0x3A74D39C03070E1D, 0x3B76D79413274E9D, 0xBA7551188B172E5D, 0xBB7755109B376EDD,
    0x5AB4323F254B962D, 0x5BB63637356BD6AD, 0xDAB5B0BBAD5BB66D, 0xDBB7B4B3BD7BF6ED,
    0x1A3473FDE1C3860D, 0x1B3677F5F1E3C68D, 0x9A35F17969D3A64D, 0x9B37F57179F3E6CD,
    0x264CBE5A92244993, 0x274EBA5282040913, 0xA64D3CDE1A3469D3, 0xA74F38D60A142953,
    0x66CCFF9856AC59B3, 0x67CEFB90468C1933, 0xE6CD7D1CDEBC79F3, 0xE7CF7914CE9C3973,
    0x060C1E3B70E0C183, 0x070E1A3360C08103, 0x860D9CBFF8F0E1C3, 0x870F98B7E8D0A143,
    0x468C5FF9B468D1A3, 0x478E5BF1A4489123, 0xC68DDD7D3C78F1E3, 0xC78FD9752C58B163,
    0x366CEEEAE3C68D1B, 0x376EEAE2F3E6CD9B, 0xB66D6C6E6BD6AD5B, 0xB76F68667BF6EDDB,
    0x76ECAF28274E9D3B, 0x77EEAB20376EDDBB, 0xF6ED2DACAF5EBD7B, 0xF7EF29A4BF7EFDFB,
    0x162C4E8B0102050B, 0x172E4A831122458B, 0x962DCC0F8912254B, 0x972FC807993265CB,
    0x56AC0F49C58A152B, 0x57AE0B41D5AA55AB, 0xD6AD8DCD4D9A356B, 0xD7AF89C55DBA75EB,
    0xAE5C1682AA55AB57, 0xAF5E128ABA75EBD7, 0x2E5D940622458B17, 0x2F5F900E3265CB97,
    0xEEDC57406EDDBB77, 0xEFDE53487EFDFBF7, 0x6EDDD5C4E6CD9B37, 0x6FDFD1CCF6EDDBB7,
    0x8E1CB6E348912347, 0x8F1EB2EB58B163C7, 0x0E1D3467C0810307, 0x0F1F306FD0A14387,
    0xCE9CF7218C193367, 0xCF9EF3299C3973E7, 0x4E9D75A504091327, 0x4F9F71AD142953A7,
    0xBE7C4632DBB76FDF, 0xBF7E423ACB972F5F, 0x3E7DC4B653A74F9F, 0x3F7FC0BE43870F1F,
    0xFEFC07F01F3F7FFF, 0xFFFE03F80F1F3F7F, 0x7EFD8574972F5FBF, 0x7FFF817C870F1F3F,
    0x9E3CE6533973E7CF, 0x9F3EE25B2953A74F, 0x1E3D64D7B163C78F, 0x1F3F60DFA143870F,
    0xDEBCA791FDFBF7EF, 0xDFBEA399EDDBB76F, 0x5EBD251575EBD7AF, 0x5FBF211D65CB972F]"

text \<open>\<open>memcpy(tbl, tmp, 32)\<close> of four copies.\<close>

definition gf_vect_mul_init_gfni :: "u8 \<Rightarrow> u8 list \<Rightarrow> nat \<Rightarrow> u8 list" where
  "gf_vect_mul_init_gfni c tbl off =
    (let val = gf_table_gfni ! unat c;
         tmp = [val, val, val, val]
     in blit tbl off (concat (map (le_bytes 8) tmp)))"

definition ec_init_tables_gfni :: "nat \<Rightarrow> nat \<Rightarrow> u8 list \<Rightarrow> u8 list \<Rightarrow> u8 list" where
  "ec_init_tables_gfni k rows a g_tbls =
    fst (foldl (\<lambda>s i. foldl (\<lambda>(tbl, ap, gp) j. (gf_vect_mul_init_gfni (a ! ap) tbl gp, ap + 1, gp + 32))
        s [0..<k]) (g_tbls, 0 :: nat, 0 :: nat) [0..<rows])"

section \<open>The instruction\<close>

text \<open>Bit \<open>i\<close> of the result is the parity of byte \<open>7 - i\<close> of the matrix masked by the operand.\<close>

definition gf2p8affine_spec :: "(u64 \<Rightarrow> u8 \<Rightarrow> u8) \<Rightarrow> bool" where
  "gf2p8affine_spec affine \<longleftrightarrow>
    (\<forall>m x. \<forall>i < 8. bit (affine m x) i
      \<longleftrightarrow> odd (length (filter (\<lambda>j. bit m (8 * (7 - i) + j) \<and> bit x j) [0..<8])))"

section \<open>The table holds the matrices of the multiplications\<close>

definition gfni_col :: "u8 \<Rightarrow> nat \<Rightarrow> u64" where
  "gfni_col c j = xor_sum (map (\<lambda>i. if bit c i then push_bit (8 * (7 - i) + j) 1 else 0) [0..<8])"

definition gfni_matrix :: "u8 \<Rightarrow> u64" where
  "gfni_matrix c = xor_sum (map (\<lambda>j. gfni_col ((gf_x2 ^^ j) c) j) [0..<8])"

lemma gfni_col_xor: "gfni_col (a XOR b) j = gfni_col a j XOR gfni_col b j"
proof -
  have "gfni_col (a XOR b) j
    = xor_sum (map (\<lambda>i. (if bit a i then push_bit (8 * (7 - i) + j) 1 else 0)
        XOR (if bit b i then push_bit (8 * (7 - i) + j) 1 else 0)) [0..<8])"
    unfolding gfni_col_def by (intro arg_cong [where f = xor_sum] map_cong) (auto simp: bit_simps)
  then show ?thesis by (simp only: xor_sum_map_xor gfni_col_def)
qed

lemma gfni_matrix_xor: "gfni_matrix (a XOR b) = gfni_matrix a XOR gfni_matrix b"
  by (simp only: gfni_matrix_def gf_x2_pow_xor gfni_col_xor xor_sum_map_xor)

lemma bit_xor_sum:
  "bit (xor_sum (map f xs) :: 'a::len word) n \<longleftrightarrow> odd (length (filter (\<lambda>x. bit (f x) n) xs))"
  by (induction xs) (auto simp: bit_simps)

lemma gf_table_gfni_span:
  "gf_table_gfni = xor_span [0xE2C46A368E1C3871, 0xC488D46C1C3871E2, 0x8810A8D83871E2C4, 0x102050B071E2C488, 0x2040A061E2C48810, 0x408041C2C4881020, 0x8001828488102040, 0x0102040810204080]"
  by (simp only: xor_span_eval gf_table_gfni_def)

lemma gfni_matrix_iterates:
  "gfni_matrix c = xor_sum (map (\<lambda>(x, j). gfni_col x j) (zip (iterates gf_x2 c 8) [0..<8]))"
  by (simp add: gfni_matrix_def iterates_map zip_map1 zip_same_conv_map comp_def)

lemma gfni_basis:
  "map (\<lambda>j. gfni_matrix (2 ^ j)) (rev [0..<8]) = [0xE2C46A368E1C3871, 0xC488D46C1C3871E2, 0x8810A8D83871E2C4, 0x102050B071E2C488, 0x2040A061E2C48810, 0x408041C2C4881020, 0x8001828488102040, 0x0102040810204080]"
  by (simp add: gfni_matrix_iterates upt_conv_Cons)
    (simp add: iterates_8 Let_def gfni_col_def gf_x2_def upt_conv_Cons)

lemma gf_table_gfni_nth: "gf_table_gfni ! unat c = gfni_matrix c"
proof -
  have "gf_table_gfni = xor_span (map (\<lambda>j. gfni_matrix (2 ^ j)) (rev [0..<8]))"
    by (simp only: gf_table_gfni_span gfni_basis)
  then show ?thesis
    using xor_span_nth [of gfni_matrix 8 "unat c"] u8_less [of c] by (simp add: gfni_matrix_xor)
qed

lemma odd_filter_unique:
  assumes "distinct xs" "k \<in> set xs" "\<And>x. x \<in> set xs \<Longrightarrow> x \<noteq> k \<Longrightarrow> \<not> Q x"
  shows "odd (length (filter Q xs)) \<longleftrightarrow> Q k"
proof -
  have "filter Q xs = (if Q k then [k] else [])" using assms
  proof (induction xs)
    case (Cons x xs)
    show ?case
    proof (cases "x = k")
      case True
      with Cons.prems have "filter Q xs = []" by (auto simp: filter_empty_conv)
      with True show ?thesis by simp
    next
      case False
      with Cons show ?thesis by simp
    qed
  qed simp
  then show ?thesis by simp
qed

lemma bit_push_one: "n < 64 \<Longrightarrow> bit (push_bit m (1 :: u64)) n \<longleftrightarrow> m = n"
  by (auto simp: bit_simps)

lemma bit_gfni_col:
  assumes "j < 8" "j' < 8" "i < 8"
  shows "bit (gfni_col c j') (8 * (7 - i) + j) \<longleftrightarrow> j' = j \<and> bit c i"
proof -
  let ?Q = "\<lambda>i'. bit (if bit c i' then push_bit (8 * (7 - i') + j') (1 :: u64) else 0) (8 * (7 - i) + j)"
  have Q: "?Q i' \<longleftrightarrow> bit c i' \<and> i' = i \<and> j' = j" if "i' < 8" for i'
  proof -
    have "8 * (7 - i) + j < 64" using assms by simp
    then have "bit (push_bit (8 * (7 - i') + j') (1 :: u64)) (8 * (7 - i) + j)
        \<longleftrightarrow> 8 * (7 - i') + j' = 8 * (7 - i) + j"
      by (rule bit_push_one)
    then have "?Q i' \<longleftrightarrow> bit c i' \<and> 8 * (7 - i') + j' = 8 * (7 - i) + j"
      by (cases "bit c i'") (simp_all only: if_True if_False simp_thms bit_0_eq bot_apply bot_bool_def)
    moreover have "8 * (7 - i') + j' = 8 * (7 - i) + j \<longleftrightarrow> 7 - i' = 7 - i \<and> j' = j"
      using flat_eq_iff [OF assms(2,1), of "7 - i'" "7 - i"] by (simp only: mult.commute [of 8])
    moreover have "7 - i' = 7 - i \<longleftrightarrow> i' = i" using assms(3) that by linarith
    ultimately show ?thesis by blast
  qed
  have "bit (gfni_col c j') (8 * (7 - i) + j) \<longleftrightarrow> odd (length (filter ?Q [0..<8]))"
    unfolding gfni_col_def by (rule bit_xor_sum)
  also have "\<dots> \<longleftrightarrow> ?Q i"
    using assms Q by (intro odd_filter_unique) (auto simp del: push_bit_of_1)
  finally show ?thesis using Q [OF assms(3)] by blast
qed

lemma bit_gfni_matrix:
  assumes "i < 8" "j < 8"
  shows "bit (gfni_matrix c) (8 * (7 - i) + j) \<longleftrightarrow> bit ((gf_x2 ^^ j) c) i"
proof -
  have "bit (gfni_matrix c) (8 * (7 - i) + j)
      \<longleftrightarrow> odd (length (filter (\<lambda>j'. bit (gfni_col ((gf_x2 ^^ j') c) j') (8 * (7 - i) + j)) [0..<8]))"
    unfolding gfni_matrix_def by (rule bit_xor_sum)
  also have "\<dots> \<longleftrightarrow> bit (gfni_col ((gf_x2 ^^ j) c) j) (8 * (7 - i) + j)"
    using assms by (intro odd_filter_unique) (auto simp: bit_gfni_col)
  finally show ?thesis using assms by (simp add: bit_gfni_col)
qed

lemma affine_gf_mul:
  assumes "gf2p8affine_spec affine"
  shows "affine (gf_table_gfni ! unat c) x = gf_mul c x"
proof (rule bit_word_eqI)
  fix i assume "i < LENGTH(8)"
  then have i: "i < 8" by simp
  have "filter (\<lambda>j. bit (gfni_matrix c) (8 * (7 - i) + j) \<and> bit x j) [0..<8]
      = filter (\<lambda>j. bit (if bit x j then (gf_x2 ^^ j) c else 0) i) [0..<8]"
    using i by (intro filter_cong) (auto simp: bit_gfni_matrix)
  then show "bit (affine (gf_table_gfni ! unat c) x) i = bit (gf_mul c x) i"
    using assms i by (simp only: gf2p8affine_spec_def gf_table_gfni_nth gf_mul_times gf_times_def bit_xor_sum)
qed

section \<open>The tables in memory\<close>

definition gfni_tbl :: "u8 \<Rightarrow> u8 list" where
  "gfni_tbl c = concat (replicate 4 (le_bytes 8 (gf_table_gfni ! unat c)))"

lemma length_gfni_tbl: "length (gfni_tbl c) = 32"
  by (simp add: gfni_tbl_def length_concat map_replicate_const sum_list_replicate)

lemma load_gfni_tbl: "load_le_u64 (gfni_tbl c @ xs) = gf_table_gfni ! unat c"
proof -
  have "gfni_tbl c = le_bytes 8 (gf_table_gfni ! unat c) @ concat (replicate 3 (le_bytes 8 (gf_table_gfni ! unat c)))"
    by (simp add: gfni_tbl_def numeral_eq_Suc)
  then show ?thesis by (simp add: load_le_u64_def le_word_le_bytes)
qed

lemma ec_init_tables_gfni_eq:
  assumes "rows * k \<le> length a" "rows * k * 32 \<le> length g_tbls"
  shows "ec_init_tables_gfni k rows a g_tbls
    = concat (map gfni_tbl (take (rows * k) a)) @ drop (rows * k * 32) g_tbls"
proof -
  have "gf_vect_mul_init_gfni c tbl off = blit tbl off (gfni_tbl c)" for c tbl off
    by (simp add: gf_vect_mul_init_gfni_def gfni_tbl_def Let_def numeral_eq_Suc)
  then show ?thesis
    unfolding ec_init_tables_gfni_def by (rule init_tables_loop [OF _ length_gfni_tbl assms])
qed

interpretation ec_matrices: ec_init ec_init_tables_gfni gfni_tbl
  by unfold_locales (simp_all only: length_gfni_tbl ec_init_tables_gfni_eq)

lemma drop_concat_blocks:
  assumes "\<And>x. x \<in> set xs \<Longrightarrow> length (T x) = n" "i < length xs"
  shows "drop (i * n) (concat (map T xs)) = T (xs ! i) @ drop (Suc i * n) (concat (map T xs))"
  using assms
proof (induction xs arbitrary: i)
  case (Cons x xs)
  then show ?case by (cases i) simp_all
qed simp

lemma ec_init_tables_gfni_load:
  assumes "rows * k \<le> length a" "rows * k * 32 \<le> length g_tbls" "l < rows" "j < k"
  shows "load_le_u64 (drop (j * 32 + l * k * 32) (ec_init_tables_gfni k rows a g_tbls))
    = gf_table_gfni ! unat (row k a l j)"
proof -
  have lt: "l * k + j < rows * k" using assms by (intro flat_less)
  let ?t = "concat (map gfni_tbl (take (rows * k) a))"
  have "length ?t = rows * k * 32"
    using assms(1) length_concat_blocks [of "take (rows * k) a" gfni_tbl 32] length_gfni_tbl by simp
  moreover have "(l * k + j) * 32 \<le> rows * k * 32" using lt by simp
  ultimately have "drop ((l * k + j) * 32) (ec_init_tables_gfni k rows a g_tbls)
      = drop ((l * k + j) * 32) ?t @ drop (rows * k * 32) g_tbls"
    unfolding ec_init_tables_gfni_eq [OF assms(1,2)] by simp
  also have "drop ((l * k + j) * 32) ?t = gfni_tbl (row k a l j) @ drop (Suc (l * k + j) * 32) ?t"
    using drop_concat_blocks [of "take (rows * k) a" gfni_tbl 32 "l * k + j"] lt assms(1)
    by (simp add: length_gfni_tbl row_def)
  finally have "load_le_u64 (drop ((l * k + j) * 32) (ec_init_tables_gfni k rows a g_tbls))
      = gf_table_gfni ! unat (row k a l j)"
    by (simp only: append_assoc load_gfni_tbl)
  moreover have "(l * k + j) * 32 = j * 32 + l * k * 32" by (simp add: algebra_simps)
  ultimately show ?thesis by (simp only:)
qed

section \<open>Encoding with the instruction\<close>

definition gfni_row :: "(u64 \<Rightarrow> u8 \<Rightarrow> u8) \<Rightarrow> nat \<Rightarrow> nat \<Rightarrow> u8 list \<Rightarrow> u8 list list \<Rightarrow> nat \<Rightarrow> u8" where
  "gfni_row affine k l g data i =
    xor_sum (map (\<lambda>j. affine (load_le_u64 (drop (j * 32 + l * k * 32) g)) (data ! j ! i)) [0..<k])"

definition gfni_mad :: "(u64 \<Rightarrow> u8 \<Rightarrow> u8) \<Rightarrow> nat \<Rightarrow> nat \<Rightarrow> u8 list \<Rightarrow> u8 list \<Rightarrow> nat \<Rightarrow> nat \<Rightarrow> u8 \<Rightarrow> u8" where
  "gfni_mad affine k vec_i g data l i x =
    x XOR affine (load_le_u64 (drop (vec_i * 32 + l * k * 32) g)) (data ! i)"

text \<open>
  The kernels apply the instruction with the matrix at the head of each 32-byte table (or with
  one of its three copies, which a load of the whole table puts in the other lanes), for at
  least one source and for tables made by \<open>ec_init_tables_gfni\<close>.
\<close>

definition gfni_dot_contract :: "(u64 \<Rightarrow> u8 \<Rightarrow> u8) \<Rightarrow> nat \<Rightarrow> ec_dot \<Rightarrow> bool" where
  "gfni_dot_contract affine max_n dot \<longleftrightarrow>
    (\<forall>n len k g data c. 0 < n \<longrightarrow> n \<le> max_n \<longrightarrow> 0 < k \<longrightarrow> len < 2 ^ 31
      \<longrightarrow> ec_bufs len k data \<longrightarrow> ec_bufs len n c \<longrightarrow> ec_tables ec_init_tables_gfni k n g
      \<longrightarrow> dot n len k g data c = ec_with (\<lambda>l i x. gfni_row affine k l g data i) len n c)"

definition gfni_mad_contract :: "(u64 \<Rightarrow> u8 \<Rightarrow> u8) \<Rightarrow> nat \<Rightarrow> ec_mad \<Rightarrow> bool" where
  "gfni_mad_contract affine max_n mad \<longleftrightarrow>
    (\<forall>n len k vec_i g data c. 0 < n \<longrightarrow> n \<le> max_n \<longrightarrow> len < 2 ^ 31 \<longrightarrow> len \<le> length data \<longrightarrow> vec_i < k
      \<longrightarrow> ec_bufs len n c \<longrightarrow> ec_tables ec_init_tables_gfni k n g
      \<longrightarrow> mad n len k vec_i g data c = ec_with (gfni_mad affine k vec_i g data) len n c)"

lemma tbl_shift_drop:
  "(a + b) * k * 32 \<le> length g \<Longrightarrow>
    drop (j * 32 + l * k * 32) (drop (a * k * 32) g) = drop (j * 32 + (a + l) * k * 32) g"
  by (simp add: algebra_simps)

lemma gfni_row_shift:
  "(a + b) * k * 32 \<le> length g \<Longrightarrow> gfni_row affine k l (drop (a * k * 32) g) data i = gfni_row affine k (a + l) g data i"
  by (simp only: gfni_row_def tbl_shift_drop)

lemma gfni_mad_shift:
  "(a + b) * k * 32 \<le> length g \<Longrightarrow> gfni_mad affine k vec_i (drop (a * k * 32) g) data l = gfni_mad affine k vec_i g data (a + l)"
  by (intro ext) (simp only: gfni_mad_def tbl_shift_drop)

lemma gfni_dot_kernels:
  assumes "gfni_dot_contract affine max_n dot" "len < 2 ^ 31" "0 < k" "ec_bufs len k data"
  shows "ec_kernels (\<lambda>n g c. dot n len k g data c) (\<lambda>g l i x. gfni_row affine k l g data i)
    (ec_tables ec_init_tables_gfni k) len k max_n"
proof
  show "dot n len k g data c = ec_with (\<lambda>l i x. gfni_row affine k l g data i) len n c"
    if "0 < n" "n \<le> max_n" "ec_bufs len n c" "ec_tables ec_init_tables_gfni k n g" for n c g
    using assms that by (simp only: gfni_dot_contract_def)
qed (intro ext gfni_row_shift, erule ec_matrices.tables_length | erule ec_matrices.tables_split)+

lemma gfni_mad_kernels:
  assumes "gfni_mad_contract affine max_n mad" "len < 2 ^ 31" "len \<le> length data" "vec_i < k"
  shows "ec_kernels (\<lambda>n g c. mad n len k vec_i g data c) (\<lambda>g. gfni_mad affine k vec_i g data)
    (ec_tables ec_init_tables_gfni k) len k max_n"
proof
  show "mad n len k vec_i g data c = ec_with (gfni_mad affine k vec_i g data) len n c"
    if "0 < n" "n \<le> max_n" "ec_bufs len n c" "ec_tables ec_init_tables_gfni k n g" for n c g
    using assms that by (simp only: gfni_mad_contract_def)
qed (rule gfni_mad_shift, erule ec_matrices.tables_length | erule ec_matrices.tables_split)+

lemma gfni_dot_while:
  assumes "gfni_dot_contract affine max_n dot" "len < 2 ^ 31" "0 < k" "ec_bufs len k data"
    and "ec_bufs len rows c" "ec_tables ec_init_tables_gfni k rows g" "0 < step" "step \<le> max_n" "step = Suc lim"
  shows "ec_while step lim (\<lambda>n g c. dot n len k g data c) (ec_switch lim (\<lambda>n g c. dot n len k g data c)) k rows g c
    = ec_with (\<lambda>l i x. gfni_row affine k l g data i) len rows c"
proof (rule ec_kernels.while_rows [OF gfni_dot_kernels [OF assms(1-4)]])
  have "lim \<le> max_n" using assms by simp
  then show "ec_kernels.good (\<lambda>g l i x. gfni_row affine k l g data i) (ec_tables ec_init_tables_gfni k) len r
      (ec_switch lim (\<lambda>n g c. dot n len k g data c))" if "r \<le> lim" for r
    using that by (intro ec_kernels.switch_good [OF gfni_dot_kernels [OF assms(1-4)]])
qed (use assms in simp_all)

lemma gfni_mad_while:
  assumes "gfni_mad_contract affine max_n mad" "len < 2 ^ 31" "len \<le> length data" "vec_i < k"
    and "ec_bufs len rows c" "ec_tables ec_init_tables_gfni k rows g" "0 < step" "step \<le> max_n" "step = Suc lim"
  shows "ec_while step lim (\<lambda>n g c. mad n len k vec_i g data c)
      (ec_switch lim (\<lambda>n g c. mad n len k vec_i g data c)) k rows g c
    = ec_with (gfni_mad affine k vec_i g data) len rows c"
proof (rule ec_kernels.while_rows [OF gfni_mad_kernels [OF assms(1-4)]])
  have "lim \<le> max_n" using assms by simp
  then show "ec_kernels.good (\<lambda>g. gfni_mad affine k vec_i g data) (ec_tables ec_init_tables_gfni k) len r
      (ec_switch lim (\<lambda>n g c. mad n len k vec_i g data c))" if "r \<le> lim" for r
    using that by (intro ec_kernels.switch_good [OF gfni_mad_kernels [OF assms(1-4)]])
qed (use assms in simp_all)

lemma gfni_row_base:
  assumes "gf2p8affine_spec affine" "rows * k \<le> length a" "rows * k * 32 \<le> length g" "rows * k * 32 \<le> length g'"
    and "l < rows"
  shows "gfni_row affine k l (ec_init_tables_gfni k rows a g) data i
    = ec_row k l (ec_init_tables_base k rows a g') data i"
  unfolding gfni_row_def ec_row_def
  by (intro arg_cong [where f = xor_sum] map_cong)
    (simp_all only: set_upt atLeastLessThan_iff ec_init_tables_gfni_load [OF assms(2,3,5)]
      ec_init_tables_coeff [OF assms(2,4,5)] affine_gf_mul [OF assms(1)] gf_mul_comm [of _ "row k a l _"])

lemma gfni_mad_base:
  assumes "gf2p8affine_spec affine" "rows * k \<le> length a" "rows * k * 32 \<le> length g" "rows * k * 32 \<le> length g'"
    and "l < rows" "vec_i < k"
  shows "gfni_mad affine k vec_i (ec_init_tables_gfni k rows a g) data l i x
    = x XOR gf_mul (data ! i) (ec_init_tables_base k rows a g' ! (vec_i * 32 + l * k * 32 + 1))"
  unfolding gfni_mad_def ec_init_tables_gfni_load [OF assms(2,3,5,6)] ec_init_tables_coeff [OF assms(2,4,5,6)]
    affine_gf_mul [OF assms(1)] by (simp only: gf_mul_comm)

text \<open>With the instruction behaving as documented, each matrix of \<open>gf_table_gfni\<close> multiplies
  by its index in GF(2^8).
\<close>

theorem gfni_table_multiplies:
  assumes "gf2p8affine_spec affine"
  shows "affine (gf_table_gfni ! unat c) x = gf_mul c x"
  using assms by (rule affine_gf_mul)

definition gf2p8affineqb :: "u64 \<Rightarrow> u8 \<Rightarrow> u8" where
  "gf2p8affineqb m x = xor_sum (map (\<lambda>i.
    if odd (length (filter (\<lambda>j. bit m (8 * (7 - i) + j) \<and> bit x j) [0..<8])) then push_bit i 1 else 0) [0..<8])"

lemma gf2p8affineqb_spec: "gf2p8affine_spec gf2p8affineqb"
  unfolding gf2p8affine_spec_def
proof (intro allI impI)
  fix m :: u64 and x :: u8 and i :: nat assume i: "i < 8"
  let ?P = "\<lambda>i. odd (length (filter (\<lambda>j. bit m (8 * (7 - i) + j) \<and> bit x j) [0..<8]))"
  have push: "bit (if ?P i' then push_bit i' (1 :: u8) else 0) i \<longleftrightarrow> i' = i \<and> ?P i" for i'
    using i by (auto simp: bit_simps)
  have "bit (gf2p8affineqb m x) i
      \<longleftrightarrow> odd (length (filter (\<lambda>i'. bit (if ?P i' then push_bit i' (1 :: u8) else 0) i) [0..<8]))"
    unfolding gf2p8affineqb_def by (rule bit_xor_sum)
  also have "\<dots> \<longleftrightarrow> bit (if ?P i then push_bit i (1 :: u8) else 0) i"
    using i push by (intro odd_filter_unique) auto
  finally show "bit (gf2p8affineqb m x) i \<longleftrightarrow> ?P i" using push by blast
qed

theorem gfni_table_multiplies_witness: "gf2p8affineqb (gf_table_gfni ! unat (7 :: u8)) 9 = gf_mul 7 9"
  by (rule gfni_table_multiplies [OF gf2p8affineqb_spec])

text \<open>
  A kernel that loads the whole 32-byte table and applies to byte \<open>i\<close> of a 32-byte block the
  matrix of its 8-byte lane (\<open>gf_nvect_dot_prod_avx2_gfni\<close> and \<open>gf_nvect_mad_avx2_gfni\<close> do so). It
  meets the contracts, because the tables hold the matrix four times.
\<close>

definition gfni_lane :: "nat \<Rightarrow> u8 list \<Rightarrow> u64" where
  "gfni_lane i t = load_le_u64 (drop (8 * (i mod 32 div 8)) (take 32 t))"

definition lane_dot :: "(u64 \<Rightarrow> u8 \<Rightarrow> u8) \<Rightarrow> ec_dot" where
  "lane_dot affine n len k g data c =
    ec_with (\<lambda>l i x. xor_sum (map (\<lambda>j. affine (gfni_lane i (drop (j * 32 + l * k * 32) g)) (data ! j ! i)) [0..<k])) len n c"

definition lane_mad :: "(u64 \<Rightarrow> u8 \<Rightarrow> u8) \<Rightarrow> ec_mad" where
  "lane_mad affine n len k vec_i g data c =
    ec_with (\<lambda>l i x. x XOR affine (gfni_lane i (drop (vec_i * 32 + l * k * 32) g)) (data ! i)) len n c"

lemma load_le_u64_take: "8 \<le> n \<Longrightarrow> load_le_u64 (take n t) = load_le_u64 t"
  by (simp add: load_le_u64_def min_absorb1)

lemma drop_gfni_tbl:
  assumes "q < 4"
  shows "load_le_u64 (drop (8 * q) (gfni_tbl c)) = gf_table_gfni ! unat c"
proof -
  let ?m = "le_bytes 8 (gf_table_gfni ! unat c)"
  have "gfni_tbl c = concat (replicate q ?m) @ ?m @ concat (replicate (3 - q) ?m)"
    using assms replicate_add [of q "Suc (3 - q)" ?m] by (simp add: gfni_tbl_def)
  then have "drop (8 * q) (gfni_tbl c) = ?m @ concat (replicate (3 - q) ?m)"
    by (simp add: length_concat map_replicate_const sum_list_replicate)
  then show ?thesis by (simp add: load_le_u64_def le_word_le_bytes)
qed

lemma gfni_lane_head:
  assumes "ec_tables ec_init_tables_gfni k n g" "l < n" "j < k"
  shows "gfni_lane i (drop (j * 32 + l * k * 32) g) = load_le_u64 (drop (j * 32 + l * k * 32) g)"
proof -
  obtain c where c: "take 32 (drop (j * 32 + l * k * 32) g) = gfni_tbl c"
    using assms by (rule ec_matrices.table_at)
  have "i mod 32 < 32" by simp
  then have "i mod 32 div 8 < 4" by linarith
  then have "gfni_lane i (drop (j * 32 + l * k * 32) g) = gf_table_gfni ! unat c"
    unfolding gfni_lane_def c by (rule drop_gfni_tbl)
  moreover have "load_le_u64 (drop (j * 32 + l * k * 32) g) = load_le_u64 (gfni_tbl c @ [])"
    unfolding c [symmetric] append_Nil2 by (rule load_le_u64_take [symmetric]) simp
  ultimately show ?thesis by (simp only: load_gfni_tbl)
qed

lemma lane_dot_contract: "gfni_dot_contract affine max_n (lane_dot affine)"
  unfolding gfni_dot_contract_def lane_dot_def gfni_row_def
  by (intro allI impI ec_with_cong arg_cong [where f = xor_sum] map_cong refl arg_cong2 [where f = affine]
    gfni_lane_head) simp_all

lemma lane_mad_contract: "gfni_mad_contract affine max_n (lane_mad affine)"
  unfolding gfni_mad_contract_def lane_mad_def
  by (intro allI impI ec_with_cong) (simp only: gfni_mad_def gfni_lane_head)

text \<open>
  C29: the GFNI path, from \<open>ec_init_tables_gfni\<close> to the dispatched encode and update, writes
  what the base path writes from the nibble tables of the same coefficients, for every kernel
  that applies the instruction with the matrices of tables made by \<open>ec_init_tables_gfni\<close>.
\<close>

theorem ec_gfni_equals_base:
  assumes "gf2p8affine_spec affine"
    and "rows * k \<le> length a" "rows * k * 32 \<le> length g_tbls" "ec_bufs len rows coding"
    and "rows * k * 32 < 2 ^ 31" "len < 2 ^ 31" "0 < k"
  defines "gt \<equiv> ec_init_tables_gfni k rows a g_tbls" and "bt \<equiv> ec_init_tables_base k rows a g_tbls"
  shows "(ec_bufs len k data \<longrightarrow>
      (gfni_dot_contract affine 6 dot \<longrightarrow>
        ec_encode_data_avx512_gfni dot len k rows gt data coding = ec_encode_data_base len k rows bt data coding)
      \<and> (gfni_dot_contract affine 3 dot \<longrightarrow>
        ec_encode_data_avx2_gfni dot len k rows gt data coding = ec_encode_data_base len k rows bt data coding))
    \<and> (len \<le> length src \<longrightarrow> vec_i < k \<longrightarrow>
      (gfni_mad_contract affine 6 mad \<longrightarrow>
        ec_encode_data_update_avx512_gfni mad len k rows vec_i gt src coding
          = ec_encode_data_update_base len k rows vec_i bt src coding)
      \<and> (gfni_mad_contract affine 5 mad \<longrightarrow>
        ec_encode_data_update_avx2_gfni mad len k rows vec_i gt src coding
          = ec_encode_data_update_base len k rows vec_i bt src coding))"
proof -
  have tbl: "ec_tables ec_init_tables_gfni k rows gt"
    unfolding gt_def by (rule ec_matrices.tables_init [OF assms(2,3,5)])
  have enc: "ec_with (\<lambda>l i x. gfni_row affine k l gt data i) len rows coding
      = ec_encode_data_base len k rows bt data coding"
    unfolding ec_encode_data_base_with [OF assms(4)] gt_def bt_def
    by (rule ec_with_cong) (rule gfni_row_base [OF assms(1-3,3)])
  have upd: "ec_with (gfni_mad affine k vec_i gt src) len rows coding
      = ec_encode_data_update_base len k rows vec_i bt src coding" if "vec_i < k"
    unfolding ec_encode_data_update_base_with [OF assms(4)] gt_def bt_def
    by (rule ec_with_cong) (rule gfni_mad_base [OF assms(1-3,3) _ that])
  note dot = gfni_dot_while [of affine _ dot len k data, OF _ assms(6,7) _ assms(4) tbl]
    and mad = gfni_mad_while [of affine _ mad len src vec_i k, OF _ assms(6) _ _ assms(4) tbl]
  have "gfni_dot_contract affine 6 dot \<Longrightarrow> ec_bufs len k data \<Longrightarrow>
      ec_encode_data_avx512_gfni dot len k rows gt data coding = ec_encode_data_base len k rows bt data coding"
    "gfni_dot_contract affine 3 dot \<Longrightarrow> ec_bufs len k data \<Longrightarrow>
      ec_encode_data_avx2_gfni dot len k rows gt data coding = ec_encode_data_base len k rows bt data coding"
    unfolding ec_dispatch_defs Let_def by - (rule trans [OF dot [of 6] enc] trans [OF dot [of 3] enc]; simp)+
  moreover have "gfni_mad_contract affine 6 mad \<Longrightarrow> len \<le> length src \<Longrightarrow> vec_i < k \<Longrightarrow>
      ec_encode_data_update_avx512_gfni mad len k rows vec_i gt src coding
        = ec_encode_data_update_base len k rows vec_i bt src coding"
    "gfni_mad_contract affine 5 mad \<Longrightarrow> len \<le> length src \<Longrightarrow> vec_i < k \<Longrightarrow>
      ec_encode_data_update_avx2_gfni mad len k rows vec_i gt src coding
        = ec_encode_data_update_base len k rows vec_i bt src coding"
    unfolding ec_update_dispatch_defs Let_def by - (rule trans [OF mad [of 6] upd] trans [OF mad [of 5] upd]; simp)+
  ultimately show ?thesis by blast
qed

theorem ec_gfni_equals_base_witness:
  "ec_encode_data_avx2_gfni (lane_dot gf2p8affineqb) 2 1 4
      (ec_init_tables_gfni 1 4 [1, 2, 3, 4] (replicate 128 0)) [[5, 6]] (replicate 4 [0, 0])
    = ec_encode_data_base 2 1 4 (ec_init_tables_base 1 4 [1, 2, 3, 4] (replicate 128 0)) [[5, 6]] (replicate 4 [0, 0])
    \<and> ec_encode_data_update_avx2_gfni (lane_mad gf2p8affineqb) 2 1 4 0
      (ec_init_tables_gfni 1 4 [1, 2, 3, 4] (replicate 128 0)) [5, 6] (replicate 4 [0, 0])
    = ec_encode_data_update_base 2 1 4 0 (ec_init_tables_base 1 4 [1, 2, 3, 4] (replicate 128 0)) [5, 6] (replicate 4 [0, 0])"
proof -
  have "ec_bufs 2 1 [[5, 6]]" "ec_bufs 2 4 (replicate 4 [0, 0])" by (simp_all add: ec_bufs_def)
  then show ?thesis
    using ec_gfni_equals_base [OF gf2p8affineqb_spec, of 4 1 "[1, 2, 3, 4]" "replicate 128 0" 2 "replicate 4 [0, 0]"
        "[[5, 6]]" "lane_dot gf2p8affineqb" "[5, 6]" 0 "lane_mad gf2p8affineqb"]
      lane_dot_contract [of gf2p8affineqb] lane_mad_contract [of gf2p8affineqb]
    by simp
qed

end
