(* ===== verification/RAID.thy ===== *)
theory RAID
  imports GF_Matrix
begin

text \<open>
  \<open>raid/raid_base.c\<close>: parity over an array of buffers, the last one (XOR) or two (P and Q)
  being the parity. \<open>pq_gen_base\<close> works on eight bytes at a time, with the doubling in
  GF(2^8) done on the eight lanes of a 64-bit word; \<open>pq_check_base\<close> works byte by byte.
  The array of pointers is a list of buffers, written in place.
\<close>

section \<open>The functions of raid_base.c\<close>

text \<open>One step of the Horner scheme on eight lanes: \<open>notbit0\<close>, \<open>bit7\<close> and \<open>gf8poly\<close> are the
  64-bit constants.\<close>

definition pq_gen_step :: "u64 \<times> u64 \<Rightarrow> u64 \<Rightarrow> u64 \<times> u64" where
  "pq_gen_step pq s =
    (let (p, q) = pq;
         p = p XOR s;
         q = s XOR ((push_bit 1 q AND 0xfefefefefefefefe)
               XOR ((push_bit 1 (q AND 0x8080808080808080) - drop_bit 7 (q AND 0x8080808080808080))
                     AND 0x1d1d1d1d1d1d1d1d))
     in (p, q))"

definition load_long :: "u8 list \<Rightarrow> nat \<Rightarrow> u64" where
  "load_long buf i = load_le_u64 (drop (8 * i) buf)"

definition store_long :: "u8 list \<Rightarrow> nat \<Rightarrow> u64 \<Rightarrow> u8 list" where
  "store_long buf i w = store_le_u64 buf (8 * i) w"

definition pq_gen_base :: "nat \<Rightarrow> nat \<Rightarrow> u8 list list \<Rightarrow> int \<times> u8 list list" where
  "pq_gen_base vects len array =
    (let blocks = len div 8
     in if vects < 4 then (1, array)
        else (0, foldl (\<lambda>src i.
          let q = load_long (src ! (vects - 3)) i;
              (p, q) = foldl (\<lambda>pq j. pq_gen_step pq (load_long (src ! j) i)) (q, q) (rev [0..<vects - 3]);
              src = src[vects - 2 := store_long (src ! (vects - 2)) i p]
          in src[vects - 1 := store_long (src ! (vects - 1)) i q]) array [0..<blocks]))"

definition pq_check_step :: "u8 \<times> u8 \<Rightarrow> u8 \<Rightarrow> u8 \<times> u8" where
  "pq_check_step pq s = (let (p, q) = pq; p = p XOR s; q = s XOR gf_x2 q in (p, q))"

definition pq_check_sum :: "nat \<Rightarrow> u8 list list \<Rightarrow> nat \<Rightarrow> u8 \<times> u8" where
  "pq_check_sum vects src i =
    (let q = src ! (vects - 3) ! i
     in foldl (\<lambda>pq j. pq_check_step pq (src ! j ! i)) (q, q) (rev [0..<vects - 3]))"

text \<open>The loop from \<open>i\<close> on, with its two early returns.\<close>

function pq_check_from :: "nat \<Rightarrow> nat \<Rightarrow> u8 list list \<Rightarrow> nat \<Rightarrow> int" where
  "pq_check_from vects len src i =
    (if i < len then
       let (p, q) = pq_check_sum vects src i
       in if src ! (vects - 2) ! i \<noteq> p then int (i OR 1)
          else if src ! (vects - 1) ! i \<noteq> q then int (i OR 2)
          else pq_check_from vects len src (i + 1)
     else 0)"
  by pat_completeness auto
termination by (relation "measure (\<lambda>(vects, len, src, i). len - i)") auto

declare pq_check_from.simps [simp del]

definition pq_check_base :: "nat \<Rightarrow> nat \<Rightarrow> u8 list list \<Rightarrow> int" where
  "pq_check_base vects len array = (if vects < 4 then 1 else pq_check_from vects len array 0)"

definition xor_gen_base :: "nat \<Rightarrow> nat \<Rightarrow> u8 list list \<Rightarrow> int \<times> u8 list list" where
  "xor_gen_base vects len array =
    (if vects < 3 then (1, array)
     else (0, foldl (\<lambda>src i.
       let parity = src ! 0 ! i;
           parity = foldl (\<lambda>parity j. parity XOR (src ! j ! i)) parity [1..<vects - 1]
       in src[vects - 1 := (src ! (vects - 1))[i := parity]]) array [0..<len]))"

function xor_check_from :: "nat \<Rightarrow> nat \<Rightarrow> u8 list list \<Rightarrow> nat \<Rightarrow> int" where
  "xor_check_from vects len src i =
    (if i < len then
       let parity = foldl (\<lambda>parity j. parity XOR (src ! j ! i)) 0 [0..<vects]
       in if parity \<noteq> 0 then 1 else xor_check_from vects len src (i + 1)
     else 0)"
  by pat_completeness auto
termination by (relation "measure (\<lambda>(vects, len, src, i). len - i)") auto

declare xor_check_from.simps [simp del]

definition xor_check_base :: "nat \<Rightarrow> nat \<Rightarrow> u8 list list \<Rightarrow> int" where
  "xor_check_base vects len array = (if vects < 2 then 1 else xor_check_from vects len array 0)"

text \<open>\<open>raid/raid_base_aliases.c\<close>.\<close>

definition pq_gen :: "nat \<Rightarrow> nat \<Rightarrow> u8 list list \<Rightarrow> int \<times> u8 list list" where
  "pq_gen vects len array = pq_gen_base vects len array"

definition pq_check :: "nat \<Rightarrow> nat \<Rightarrow> u8 list list \<Rightarrow> int" where
  "pq_check vects len array = pq_check_base vects len array"

definition xor_gen :: "nat \<Rightarrow> nat \<Rightarrow> u8 list list \<Rightarrow> int \<times> u8 list list" where
  "xor_gen vects len array = xor_gen_base vects len array"

definition xor_check :: "nat \<Rightarrow> nat \<Rightarrow> u8 list list \<Rightarrow> int" where
  "xor_check vects len array = xor_check_base vects len array"

lemmas raid_aliases = pq_gen_def pq_check_def xor_gen_def xor_check_def

section \<open>Doubling eight lanes\<close>

lemma replicate_8: "replicate 8 x = [x, x, x, x, x, x, x, x]"
  by (simp add: numeral_eq_Suc)

lemma lanes_const:
  "0xfefefefefefefefe = (le_word (replicate 8 0xfe) :: u64)"
  "0x8080808080808080 = (le_word (replicate 8 0x80) :: u64)"
  "0x1d1d1d1d1d1d1d1d = (le_word (replicate 8 0x1d) :: u64)"
  by (simp_all only: replicate_8 le_word_Cons_add le_word.simps(1)) simp_all

lemma le_word_and_const:
  "length bs = n \<Longrightarrow> (le_word bs :: u64) AND le_word (replicate n c) = le_word (map (\<lambda>b. b AND c) bs)"
  by (subst le_word_and) (simp_all add: zip_replicate2 comp_def)

lemma lanes_scale:
  fixes c :: u8
  shows "(ucast c :: u64) * le_word (map (\<lambda>b. if P b then 1 else 0) bs) = le_word (map (\<lambda>b. if P b then c else 0) bs)"
proof (induction bs)
  case (Cons b bs)
  let ?L = "le_word (map (\<lambda>b. if P b then 1 else 0) bs) :: u64"
  have "(ucast c :: u64) * le_word (map (\<lambda>b. if P b then 1 else 0) (b # bs))
      = ucast c * ucast (if P b then 1 else (0 :: u8)) + 256 * (ucast c * ?L)"
    by (simp only: list.map le_word_Cons_add distrib_left mult.left_commute [of "ucast c" 256])
  also have "(ucast c :: u64) * ucast (if P b then 1 else (0 :: u8)) = ucast (if P b then c else 0)"
    by simp
  finally show ?case by (simp only: list.map le_word_Cons_add Cons)
qed simp

text \<open>The top bits, moved to the bottom of their lanes.\<close>

lemma lanes_top:
  assumes "length bs = 8"
  shows "drop_bit 7 (le_word (map (\<lambda>b. b AND 0x80) bs) :: u64) = le_word (map (\<lambda>b. if bit b 7 then 1 else 0) bs)"
proof (rule bit_word_eqI)
  fix n assume "n < LENGTH(64)"
  then have n: "n div 8 < 8" by simp
  have b7: "bit (0x80 :: u8) m \<longleftrightarrow> m = 7" for m using bit_exp_iff [where 'a = u8, of 7 m] by auto
  define top where "top b = b AND 0x80" for b :: u8
  have bit_top: "bit (top b) m \<longleftrightarrow> bit b 7 \<and> m = 7" for b m
    unfolding top_def by (auto simp only: bit_and_iff b7)
  have one: "bit (if P then 1 else (0 :: u8)) m \<longleftrightarrow> P \<and> m = 0" for P m by (auto simp: bit_simps)
  show "bit (drop_bit 7 (le_word (map (\<lambda>b. b AND 0x80) bs) :: u64)) n
      = bit (le_word (map (\<lambda>b. if bit b 7 then 1 else (0 :: u8)) bs) :: u64) n"
  proof (cases "n mod 8 = 0")
    case True
    then have d: "(7 + n) div 8 = n div 8" "(7 + n) mod 8 = 7" by presburger+
    have "n < 57" using True \<open>n < LENGTH(64)\<close> by simp presburger
    then show ?thesis unfolding top_def [symmetric] using True n assms
      by (simp add: bit_drop_bit_eq bit_le_word d bit_top one)
  next
    case False
    then have m: "(7 + n) mod 8 \<noteq> 7" by presburger
    have "(7 + n) div 8 < 8" if "n < 57" using that by simp
    then show ?thesis unfolding top_def [symmetric] using False m n assms
      by (cases "n < 57") (simp_all add: bit_drop_bit_eq bit_le_word bit_top one)
  qed
qed

lemma lanes_shift:
  assumes "length bs = 8"
  shows "push_bit 1 (le_word bs :: u64) AND 0xfefefefefefefefe = le_word (map (push_bit 1) bs)"
proof (rule bit_word_eqI)
  fix n assume "n < LENGTH(64)"
  then have n: "n < 64" "n div 8 < 8" by simp_all
  have "(0xfe :: u8) = NOT 1" by simp
  then have fe: "bit (0xfe :: u8) m \<longleftrightarrow> 0 < m" if "m < 8" for m
    using that by (simp only: bit_not_iff) (auto simp: bit_simps)
  have lhs: "bit (push_bit 1 (le_word bs :: u64) AND 0xfefefefefefefefe) n
      \<longleftrightarrow> 0 < n \<and> bit (le_word bs :: u64) (n - 1) \<and> 0 < n mod 8"
    unfolding lanes_const using n fe [of "n mod 8"] by (auto simp only: bit_and_iff bit_push_bit_iff bit_le_word
        length_replicate nth_replicate) auto
  have "map (push_bit 1) bs ! (n div 8) = push_bit 1 (bs ! (n div 8))"
    using n assms by (intro nth_map) simp
  then have "bit (le_word (map (push_bit 1) bs) :: u64) n \<longleftrightarrow> bit (push_bit 1 (bs ! (n div 8))) (n mod 8)"
    using n assms by (simp only: bit_le_word length_map) simp
  also have "\<dots> \<longleftrightarrow> 0 < n mod 8 \<and> bit (bs ! (n div 8)) (n mod 8 - 1)"
    unfolding bit_push_bit_iff by (simp add: Suc_le_eq)
  finally have rhs: "bit (le_word (map (push_bit 1) bs) :: u64) n
    \<longleftrightarrow> 0 < n mod 8 \<and> bit (bs ! (n div 8)) (n mod 8 - 1)" .
  have "(n - 1) div 8 = n div 8 \<and> (n - 1) mod 8 = n mod 8 - 1 \<and> 0 < n" if "0 < n mod 8"
  proof -
    have "n - 1 = 8 * (n div 8) + (n mod 8 - 1)"
      using that mult_div_mod_eq [of 8 n] by linarith
    moreover have "n mod 8 - 1 < 8" using mod_less_divisor [of 8 n] by linarith
    ultimately show ?thesis using that by (metis div_mult_self4 div_less add_0 mod_mult_self4
          mod_less gr0I mod_0 less_irrefl zero_neq_numeral add.right_neutral div_add_self1)
  qed
  moreover have "n - 1 < LENGTH(64) \<and> n - 1 < 8 * length bs" using n assms by simp
  ultimately show "bit (push_bit 1 (le_word bs :: u64) AND 0xfefefefefefefefe) n
      = bit (le_word (map (push_bit 1) bs) :: u64) n"
    unfolding lhs rhs unfolding bit_le_word by metis
qed

lemma and_0x80_cases: "(b :: u8) AND 0x80 = (if bit b 7 then 0x80 else 0)"
proof -
  have b7: "bit (0x80 :: u8) m \<longleftrightarrow> m = 7" for m using bit_exp_iff [where 'a = u8, of 7 m] by auto
  show ?thesis
    by (rule bit_word_eqI, cases "bit b 7")
      (auto simp only: bit_and_iff b7 if_True if_False bit_0_eq bot_apply bot_bool_def simp_thms)
qed

lemma lanes_double:
  assumes "length bs = 8"
  defines "q \<equiv> le_word bs :: u64"
  shows "(push_bit 1 q AND 0xfefefefefefefefe)
      XOR ((push_bit 1 (q AND 0x8080808080808080) - drop_bit 7 (q AND 0x8080808080808080))
        AND 0x1d1d1d1d1d1d1d1d)
    = le_word (map gf_x2 bs)"
proof -
  let ?top = "\<lambda>b :: u8. bit b 7"
  let ?u = "le_word (map (\<lambda>b. if ?top b then 1 else 0) bs) :: u64"
  have t: "q AND 0x8080808080808080 = le_word (map (\<lambda>b. b AND 0x80) bs)"
    unfolding q_def lanes_const by (rule le_word_and_const [OF assms(1)])
  also have "\<dots> = ucast (0x80 :: u8) * ?u" unfolding and_0x80_cases by (rule lanes_scale [symmetric])
  finally have t128: "q AND 0x8080808080808080 = 128 * ?u" by simp
  have "push_bit 1 (q AND 0x8080808080808080) - drop_bit 7 (q AND 0x8080808080808080) = 2 * (128 * ?u) - ?u"
    by (subst (2) t) (simp only: lanes_top [OF assms(1)] t128 push_bit_eq_mult, simp)
  also have "\<dots> = ucast (0xff :: u8) * ?u" by simp
  also have "\<dots> = le_word (map (\<lambda>b. if ?top b then 0xff else 0) bs)" by (rule lanes_scale)
  finally have m: "push_bit 1 (q AND 0x8080808080808080) - drop_bit 7 (q AND 0x8080808080808080)
      = le_word (map (\<lambda>b. if ?top b then 0xff else 0) bs)" .
  have "le_word (map (\<lambda>b. if ?top b then 0xff else 0) bs) AND (0x1d1d1d1d1d1d1d1d :: u64)
      = le_word (map (\<lambda>b. b AND 0x1d) (map (\<lambda>b. if ?top b then 0xff else 0) bs))"
    unfolding lanes_const using assms(1) by (intro le_word_and_const) simp
  also have "map (\<lambda>b. b AND 0x1d) (map (\<lambda>b. if ?top b then 0xff else (0 :: u8)) bs)
      = map (\<lambda>b. if ?top b then 0x1d else 0) bs" by simp
  finally have m1: "le_word (map (\<lambda>b. if ?top b then 0xff else 0) bs) AND (0x1d1d1d1d1d1d1d1d :: u64)
      = le_word (map (\<lambda>b. if ?top b then 0x1d else 0) bs)" .
  show ?thesis
    unfolding m m1 unfolding q_def lanes_shift [OF assms(1)]
    by (subst le_word_xor) (simp_all add: zip_map1 zip_map2 zip_same_conv_map comp_def gf_x2_def [abs_def] and_0x80)
qed

lemma pq_gen_step_lanes:
  assumes "length ps = 8" "length qs = 8" "length ss = 8"
  shows "pq_gen_step (le_word ps, le_word qs) (le_word ss)
    = (le_word (map2 (XOR) ps ss), le_word (map2 (\<lambda>q s. s XOR gf_x2 q) qs ss))"
proof -
  have "(le_word ss :: u64) XOR le_word (map gf_x2 qs) = le_word (map2 (\<lambda>q s. s XOR gf_x2 q) qs ss)"
    using assms by (subst le_word_xor) (auto intro!: arg_cong [where f = le_word] nth_equalityI)
  then show ?thesis
    using assms by (simp only: pq_gen_step_def Let_def prod.case lanes_double) (simp add: le_word_xor)
qed

lemma pq_gen_lanes:
  assumes "length ps = 8" "length qs = 8" "\<forall>j \<in> set js. length (f j) = 8"
  defines "st m \<equiv> foldl (\<lambda>pq j. pq_check_step pq (f j ! m)) (ps ! m, qs ! m) js"
  shows "foldl (\<lambda>pq j. pq_gen_step pq (le_word (f j))) (le_word ps, le_word qs) js
    = (le_word (map (\<lambda>m. fst (st m)) [0..<8]), le_word (map (\<lambda>m. snd (st m)) [0..<8]))"
  using assms(1-3) unfolding st_def
proof (induction js arbitrary: ps qs)
  case Nil
  then show ?case by (metis (no_types, lifting) foldl_Nil fst_conv snd_conv list_eq_map_nth map_eq_conv)
next
  case (Cons j js)
  let ?ps = "map2 (XOR) ps (f j)" and ?qs = "map2 (\<lambda>q s. s XOR gf_x2 q) qs (f j)"
  have step: "pq_gen_step (le_word ps, le_word qs) (le_word (f j)) = (le_word ?ps, le_word ?qs)"
    using Cons.prems by (intro pq_gen_step_lanes) simp_all
  have "foldl (\<lambda>pq j. pq_gen_step pq (le_word (f j))) (le_word ps, le_word qs) (j # js)
    = foldl (\<lambda>pq j. pq_gen_step pq (le_word (f j))) (le_word ?ps, le_word ?qs) js"
    by (simp only: foldl.simps step)
  also have "\<dots> = (le_word (map (\<lambda>m. fst (foldl (\<lambda>pq j. pq_check_step pq (f j ! m)) (?ps ! m, ?qs ! m) js)) [0..<8]),
      le_word (map (\<lambda>m. snd (foldl (\<lambda>pq j. pq_check_step pq (f j ! m)) (?ps ! m, ?qs ! m) js)) [0..<8]))"
    using Cons.prems by (intro Cons.IH) simp_all
  also have "\<dots> = (le_word (map (\<lambda>m. fst (foldl (\<lambda>pq j. pq_check_step pq (f j ! m)) (ps ! m, qs ! m) (j # js))) [0..<8]),
      le_word (map (\<lambda>m. snd (foldl (\<lambda>pq j. pq_check_step pq (f j ! m)) (ps ! m, qs ! m) (j # js))) [0..<8]))"
    using Cons.prems by (intro arg_cong2 [where f = Pair] arg_cong [where f = le_word] map_cong)
      (simp_all add: pq_check_step_def)
  finally show ?case .
qed

section \<open>The generator\<close>

definition raid_bufs :: "nat \<Rightarrow> nat \<Rightarrow> u8 list list \<Rightarrow> bool" where
  "raid_bufs vects len src \<longleftrightarrow> length src = vects \<and> (\<forall>d \<in> set src. len \<le> length d)"

lemma raid_bufsD: "raid_bufs vects len src \<Longrightarrow> v < vects \<Longrightarrow> len \<le> length (src ! v)"
  by (auto simp: raid_bufs_def)

lemma pq_check_sum_cong:
  assumes "3 \<le> vects" "\<And>j. j < vects - 2 \<Longrightarrow> src ! j ! i = src' ! j ! i"
  shows "pq_check_sum vects src i = pq_check_sum vects src' i"
proof -
  have "foldl (\<lambda>pq j. pq_check_step pq (src ! j ! i)) s (rev [0..<vects - 3])
      = foldl (\<lambda>pq j. pq_check_step pq (src' ! j ! i)) s (rev [0..<vects - 3])" for s
    by (rule foldl_cong) (use assms(2) in auto)
  moreover have "src ! (vects - 3) ! i = src' ! (vects - 3) ! i" using assms by simp
  ultimately show ?thesis by (simp add: pq_check_sum_def)
qed

lemma pq_gen_block:
  assumes vects: "4 \<le> vects" and len: "\<forall>v < vects. 8 * i + 8 \<le> length (src ! v)"
  defines "q \<equiv> load_long (src ! (vects - 3)) i"
  shows "foldl (\<lambda>pq j. pq_gen_step pq (load_long (src ! j) i)) (q, q) (rev [0..<vects - 3])
    = (le_word (map (\<lambda>m. fst (pq_check_sum vects src (8 * i + m))) [0..<8]),
       le_word (map (\<lambda>m. snd (pq_check_sum vects src (8 * i + m))) [0..<8]))"
proof -
  define f where "f j = take 8 (drop (8 * i) (src ! j))" for j
  have len8: "length (f j) = 8" if "j < vects" for j
  proof -
    have "8 * i + 8 \<le> length (src ! j)" using len that by blast
    then show ?thesis by (simp add: f_def)
  qed
  have nth: "f j ! m = src ! j ! (8 * i + m)" if "j < vects" "m < 8" for j m
  proof -
    have "8 * i + 8 \<le> length (src ! j)" using len that by blast
    with that show ?thesis by (simp add: f_def)
  qed
  have "foldl (\<lambda>pq j. pq_gen_step pq (load_long (src ! j) i)) (q, q) (rev [0..<vects - 3])
    = foldl (\<lambda>pq j. pq_gen_step pq (le_word (f j))) (le_word (f (vects - 3)), le_word (f (vects - 3)))
        (rev [0..<vects - 3])"
    by (simp add: q_def load_long_def load_le_u64_def f_def)
  also have "\<dots> = (le_word (map (\<lambda>m. fst (foldl (\<lambda>pq j. pq_check_step pq (f j ! m))
        (f (vects - 3) ! m, f (vects - 3) ! m) (rev [0..<vects - 3]))) [0..<8]),
      le_word (map (\<lambda>m. snd (foldl (\<lambda>pq j. pq_check_step pq (f j ! m))
        (f (vects - 3) ! m, f (vects - 3) ! m) (rev [0..<vects - 3]))) [0..<8]))"
    using vects by (intro pq_gen_lanes) (auto simp: len8)
  also have "foldl (\<lambda>pq j. pq_check_step pq (f j ! m)) (f (vects - 3) ! m, f (vects - 3) ! m) (rev [0..<vects - 3])
      = pq_check_sum vects src (8 * i + m)" if "m < 8" for m
    unfolding pq_check_sum_def Let_def using vects that by (intro foldl_cong) (auto simp: nth)
  then have "(le_word (map (\<lambda>m. fst (foldl (\<lambda>pq j. pq_check_step pq (f j ! m))
        (f (vects - 3) ! m, f (vects - 3) ! m) (rev [0..<vects - 3]))) [0..<8]),
      le_word (map (\<lambda>m. snd (foldl (\<lambda>pq j. pq_check_step pq (f j ! m))
        (f (vects - 3) ! m, f (vects - 3) ! m) (rev [0..<vects - 3]))) [0..<8]))
    = (le_word (map (\<lambda>m. fst (pq_check_sum vects src (8 * i + m))) [0..<8]),
       le_word (map (\<lambda>m. snd (pq_check_sum vects src (8 * i + m))) [0..<8]) :: u64)"
    by (intro arg_cong2 [where f = Pair] arg_cong [where f = le_word] map_cong) simp_all
  finally show ?thesis .
qed

lemma list_update_pair:
  "a \<noteq> b \<Longrightarrow> a < length xs \<Longrightarrow> b < length xs \<Longrightarrow> xs[a := p, b := q, a := p', b := q'] = xs[a := p', b := q']"
  by (rule nth_equalityI) (auto simp: nth_list_update)

lemma blit_extend:
  assumes "8 * c + 8 \<le> length d"
  shows "store_long (map f [0..<8 * c] @ drop (8 * c) d) c (le_word (map (\<lambda>m. f (8 * c + m)) [0..<8]))
    = map f [0..<8 * Suc c] @ drop (8 * Suc c) d"
proof -
  have "le_bytes (length (map (\<lambda>m. f (8 * c + m)) [0..<8])) (le_word (map (\<lambda>m. f (8 * c + m)) [0..<8]) :: u64)
      = map (\<lambda>m. f (8 * c + m)) [0..<8]" by (rule le_bytes_le_word) simp
  moreover have "map f [0..<8 * Suc c] = map f [0..<8 * c] @ map (\<lambda>m. f (8 * c + m)) [0..<8]"
    by (rule nth_equalityI) (auto simp: nth_append)
  ultimately show ?thesis
    using assms by (simp add: store_long_def store_le_u64_def blit_def add.commute)
qed

lemma pq_gen_base_eq:
  assumes vects: "4 \<le> vects" and bufs: "raid_bufs vects len array"
  defines "n \<equiv> 8 * (len div 8)"
  shows "pq_gen_base vects len array = (0, array
    [vects - 2 := map (\<lambda>i. fst (pq_check_sum vects array i)) [0..<n] @ drop n (array ! (vects - 2)),
     vects - 1 := map (\<lambda>i. snd (pq_check_sum vects array i)) [0..<n] @ drop n (array ! (vects - 1))])"
proof -
  let ?P = "\<lambda>c. map (\<lambda>i. fst (pq_check_sum vects array i)) [0..<8 * c] @ drop (8 * c) (array ! (vects - 2))"
  let ?Q = "\<lambda>c. map (\<lambda>i. snd (pq_check_sum vects array i)) [0..<8 * c] @ drop (8 * c) (array ! (vects - 1))"
  let ?S = "\<lambda>c. array[vects - 2 := ?P c, vects - 1 := ?Q c]"
  let ?body = "\<lambda>src i. let q = load_long (src ! (vects - 3)) i;
              (p, q) = foldl (\<lambda>pq j. pq_gen_step pq (load_long (src ! j) i)) (q, q) (rev [0..<vects - 3]);
              src = src[vects - 2 := store_long (src ! (vects - 2)) i p]
          in src[vects - 1 := store_long (src ! (vects - 1)) i q]"
  have la: "length array = vects" using bufs by (simp add: raid_bufs_def)
  have "foldl ?body array [0..<c] = ?S c" if "8 * c \<le> len" for c
    using that
  proof (induction c)
    case 0
    then show ?case by simp
  next
    case (Suc c)
    have lenv: "8 * c + 8 \<le> length (array ! v)" if "v < vects" for v
      using raid_bufsD [OF bufs that] Suc.prems by simp
    have lens: "\<forall>v < vects. 8 * c + 8 \<le> length (?S c ! v)"
    proof (intro allI impI)
      fix v assume "v < vects"
      moreover have "8 * c \<le> length (array ! (vects - 2))" "8 * c \<le> length (array ! (vects - 1))"
        using lenv [of "vects - 2"] lenv [of "vects - 1"] vects by simp_all
      ultimately have "length (?S c ! v) = length (array ! v)" using la by (auto simp: nth_list_update)
      then show "8 * c + 8 \<le> length (?S c ! v)" using lenv [OF \<open>v < vects\<close>] by simp
    qed
    have sum: "pq_check_sum vects (?S c) i = pq_check_sum vects array i" for i
      using vects by (intro pq_check_sum_cong) auto
    have ext: "store_long (?P c) c (le_word (map (\<lambda>m. fst (pq_check_sum vects array (8 * c + m))) [0..<8])) = ?P (Suc c)"
      "store_long (?Q c) c (le_word (map (\<lambda>m. snd (pq_check_sum vects array (8 * c + m))) [0..<8])) = ?Q (Suc c)"
      by (rule blit_extend, rule lenv, use vects in simp)+
    have "?S c ! (vects - 2) = ?P c" "?S c ! (vects - 1) = ?Q c"
      "(?S c)[vects - 2 := x] ! (vects - 1) = ?Q c" for x
      using vects la by simp_all
    then have "?body (?S c) c = (?S c)[vects - 2 := ?P (Suc c), vects - 1 := ?Q (Suc c)]"
      by (simp only: Let_def pq_gen_block [OF vects lens] sum prod.case ext)
    also have "\<dots> = ?S (Suc c)"
      using vects la by (intro list_update_pair) simp_all
    finally have "?body (?S c) c = ?S (Suc c)" .
    then show ?case using Suc by simp
  qed
  from this [of "len div 8"] have "foldl ?body array [0..<len div 8] = ?S (len div 8)" by simp
  then show ?thesis using vects by (simp only: pq_gen_base_def Let_def n_def) simp
qed

section \<open>The checkers\<close>

lemma all_from_iff:
  assumes "i < (len :: nat)"
  shows "(\<forall>n. i \<le> n \<and> n < len \<longrightarrow> P n) \<longleftrightarrow> P i \<and> (\<forall>n. i + 1 \<le> n \<and> n < len \<longrightarrow> P n)"
proof (intro iffI conjI allI impI)
  fix n assume *: "P i \<and> (\<forall>n. i + 1 \<le> n \<and> n < len \<longrightarrow> P n)" "i \<le> n \<and> n < len"
  then show "P n" by (cases "n = i") auto
qed (use assms in auto)

lemma pq_check_from_0_iff:
  "pq_check_from vects len src i = 0 \<longleftrightarrow>
    (\<forall>n. i \<le> n \<and> n < len \<longrightarrow>
      pq_check_sum vects src n = (src ! (vects - 2) ! n, src ! (vects - 1) ! n))"
proof (induction vects len src i rule: pq_check_from.induct)
  case (1 vects len src i)
  obtain p q where pq: "pq_check_sum vects src i = (p, q)" by (metis surj_pair)
  have or: "int (i OR 1) \<noteq> 0" "int (i OR 2) \<noteq> 0" by (simp_all add: or_eq_0_iff)
  show ?case
  proof (cases "i < len")
    case False
    then have "pq_check_from vects len src i = 0" by (simp add: pq_check_from.simps [of vects len src i])
    with False show ?thesis by auto
  next
    case True
    show ?thesis
    proof (cases "pq_check_sum vects src i = (src ! (vects - 2) ! i, src ! (vects - 1) ! i)")
      case False
      then have "pq_check_from vects len src i \<noteq> 0"
        using True pq or by (auto simp: pq_check_from.simps [of vects len src i])
      with True False show ?thesis by blast
    next
      case eq: True
      then have "pq_check_from vects len src i = pq_check_from vects len src (i + 1)"
        using True by (simp add: pq_check_from.simps [of vects len src i])
      moreover have "pq_check_from vects len src (i + 1) = 0 \<longleftrightarrow> (\<forall>n. i + 1 \<le> n \<and> n < len \<longrightarrow>
          pq_check_sum vects src n = (src ! (vects - 2) ! n, src ! (vects - 1) ! n))"
        using True eq by (intro 1 [OF True refl]) auto
      ultimately show ?thesis
        unfolding all_from_iff [OF True] using eq by simp
    qed
  qed
qed

lemma xor_check_from_0_iff:
  "xor_check_from vects len src i = 0 \<longleftrightarrow>
    (\<forall>n. i \<le> n \<and> n < len \<longrightarrow> xor_sum (map (\<lambda>j. src ! j ! n) [0..<vects]) = 0)"
proof (induction vects len src i rule: xor_check_from.induct)
  case (1 vects len src i)
  have sum: "foldl (\<lambda>parity j. parity XOR (src ! j ! i)) 0 [0..<vects] = xor_sum (map (\<lambda>j. src ! j ! i) [0..<vects])"
    by (simp add: xor_sum_def foldl_map)
  show ?case
  proof (cases "i < len \<and> xor_sum (map (\<lambda>j. src ! j ! i) [0..<vects]) = 0")
    case False
    then consider "\<not> i < len" | "i < len" "xor_sum (map (\<lambda>j. src ! j ! i) [0..<vects]) \<noteq> 0" by blast
    then show ?thesis
    proof cases
      case 1
      then have "xor_check_from vects len src i = 0" by (simp add: xor_check_from.simps [of vects len src i])
      with 1 show ?thesis by auto
    next
      case 2
      then have "xor_check_from vects len src i = 1" by (simp add: xor_check_from.simps [of vects len src i] sum)
      with 2 show ?thesis by auto
    qed
  next
    case True
    then have "xor_check_from vects len src i = xor_check_from vects len src (i + 1)"
      by (simp add: xor_check_from.simps [of vects len src i] sum)
    moreover have "xor_check_from vects len src (i + 1) = 0 \<longleftrightarrow>
        (\<forall>n. i + 1 \<le> n \<and> n < len \<longrightarrow> xor_sum (map (\<lambda>j. src ! j ! n) [0..<vects]) = 0)"
      using True sum by (intro 1 [OF _ refl]) simp_all
    ultimately show ?thesis
      unfolding all_from_iff [OF conjunct1 [OF True]] using True by simp
  qed
qed

lemma xor_gen_base_eq:
  assumes vects: "3 \<le> vects" and bufs: "raid_bufs vects len array"
  shows "xor_gen_base vects len array = (0, array[vects - 1 :=
    map (\<lambda>i. xor_sum (map (\<lambda>j. array ! j ! i) [0..<vects - 1])) [0..<len] @ drop len (array ! (vects - 1))])"
proof -
  let ?f = "\<lambda>i. xor_sum (map (\<lambda>j. array ! j ! i) [0..<vects - 1])"
  let ?S = "\<lambda>c. array[vects - 1 := map ?f [0..<c] @ drop c (array ! (vects - 1))]"
  let ?body = "\<lambda>src i. let parity = src ! 0 ! i;
           parity = foldl (\<lambda>parity j. parity XOR (src ! j ! i)) parity [1..<vects - 1]
       in src[vects - 1 := (src ! (vects - 1))[i := parity]]"
  have la: "length array = vects" "vects - 1 < length array" using bufs vects by (simp_all add: raid_bufs_def)
  have len: "len \<le> length (array ! (vects - 1))" using raid_bufsD [OF bufs, of "vects - 1"] vects by simp
  have "foldl ?body array [0..<c] = ?S c" if "c \<le> len" for c
    using that
  proof (induction c)
    case 0
    then show ?case by simp
  next
    case (Suc c)
    have upt: "[0..<vects - 1] = 0 # [1..<vects - 1]" using vects by (simp add: upt_conv_Cons)
    have "foldl (\<lambda>parity j. parity XOR (?S c ! j ! c)) (?S c ! 0 ! c) [1..<vects - 1]
        = foldl (\<lambda>parity j. parity XOR (array ! j ! c)) (array ! 0 ! c) [1..<vects - 1]"
      using vects by (intro foldl_cong) auto
    also have "\<dots> = ?f c"
      unfolding upt list.map xor_sum_Cons
      using foldl_xor [of "array ! 0 ! c" "map (\<lambda>j. array ! j ! c) [1..<vects - 1]"] by (simp add: foldl_map)
    finally have par: "foldl (\<lambda>parity j. parity XOR (?S c ! j ! c)) (?S c ! 0 ! c) [1..<vects - 1] = ?f c" .
    have "(map ?f [0..<c] @ drop c (array ! (vects - 1)))[c := ?f c]
        = map ?f [0..<Suc c] @ drop (Suc c) (array ! (vects - 1))"
      using Suc.prems len Cons_nth_drop_Suc [of c "array ! (vects - 1)", symmetric]
      by (simp add: list_update_append)
    then have "?body (?S c) c = ?S (Suc c)"
      unfolding Let_def par using la by simp
    then show ?case using Suc by simp
  qed
  from this [of len] show ?thesis using vects by (simp only: xor_gen_base_def Let_def) simp
qed

section \<open>The Q syndrome is a polynomial in 2\<close>

lemma gf_pow_2_Suc: "gf_pow 2 (Suc n) = gf_x2 (gf_pow 2 n)"
  by (simp add: gf_x2_mul gf_mul_comm)

lemma pq_horner:
  "foldl (\<lambda>pq j. pq_check_step pq (d j)) (p, q) (rev [0..<n])
    = (p XOR xor_sum (map d [0..<n]),
       gf_mul (gf_pow 2 n) q XOR xor_sum (map (\<lambda>j. gf_mul (gf_pow 2 j) (d j)) [0..<n]))"
proof (induction n arbitrary: p q)
  case 0
  then show ?case by (simp add: gf_mul_one)
next
  case (Suc n)
  have "gf_mul (gf_pow 2 n) (d n XOR gf_x2 q) = gf_mul (gf_pow 2 n) (d n) XOR gf_mul (gf_pow 2 (Suc n)) q"
    by (simp add: gf.mul_xor gf_x2_mul gf.mul_assoc)
  then show ?case using Suc by (simp add: pq_check_step_def xor_laws)
qed

lemma pq_check_sum_eq:
  assumes "3 \<le> vects"
  shows "pq_check_sum vects src i
    = (xor_sum (map (\<lambda>j. src ! j ! i) [0..<vects - 2]),
       xor_sum (map (\<lambda>j. gf_mul (gf_pow 2 j) (src ! j ! i)) [0..<vects - 2]))"
proof -
  have "[0..<vects - 2] = [0..<vects - 3] @ [vects - 3]"
    using assms by (metis Suc_diff_Suc eval_nat_numeral(3) less_le_trans lessI numeral_2_eq_2 upt_Suc_append zero_le)
  then show ?thesis
    by (simp add: pq_check_sum_def Let_def pq_horner [of "\<lambda>j. src ! j ! i"] xor_laws)
qed

section \<open>Two erasures\<close>

lemma gf_pow_2_funpow: "gf_pow 2 n = (gf_x2 ^^ n) 1"
  by (induction n) (simp_all add: gf_x2_mul gf_mul_comm)

lemma gf_pow_2_nz: "gf_pow 2 n \<noteq> 0"
  by (induction n) (simp_all)

lemma gf_pow_2_inj: "inj_on (gf_pow 2) {..<255}"
proof (rule eq_card_imp_inj_on)
  have "- {0} \<subseteq> gf_pow 2 ` {..<255}"
  proof
    fix a :: u8 assume "a \<in> - {0}"
    then have a: "gf_pow 2 (gf_log a) = a" using gf_x2_pow_log [of a] by (simp add: gf_pow_2_funpow)
    show "a \<in> gf_pow 2 ` {..<255}"
    proof (cases "gf_log a = 255")
      case True
      with a have "gf_pow 2 0 = a" using gf_x2_pow_255 by (simp add: gf_pow_2_funpow)
      then show ?thesis by (intro image_eqI [where x = 0]) simp_all
    next
      case False
      then have "gf_log a \<in> {..<255}" using gf_log_le [of a] by simp
      with a show ?thesis by (metis imageI)
    qed
  qed
  moreover have "gf_pow 2 ` {..<255} \<subseteq> - {0}" using gf_pow_2_nz by auto
  ultimately have "gf_pow 2 ` {..<255} = - {0}" by blast
  moreover have "card (- {0 :: u8}) = 255" by (simp add: Compl_eq_Diff_UNIV card_word)
  ultimately show "card (gf_pow 2 ` {..<255}) = card {..<255 :: nat}" by simp
qed simp

lemma xor_sum_two:
  assumes "\<And>j. j < k \<Longrightarrow> j \<noteq> x \<Longrightarrow> j \<noteq> y \<Longrightarrow> f j = 0"
  shows "xor_sum (map f [0..<k]) = (if x < k then f x else 0) XOR (if y < k \<and> y \<noteq> x then f y else 0)"
  using assms by (induction k) (auto simp: less_Suc_eq xor_laws)

lemma pq_distance:
  fixes e :: "nat \<Rightarrow> u8"
  assumes k: "k \<le> 255" and P: "xor_sum (map e [0..<k]) = e k"
    and Q: "xor_sum (map (\<lambda>j. gf_mul (gf_pow 2 j) (e j)) [0..<k]) = e (k + 1)"
    and two: "\<And>v. v < k + 2 \<Longrightarrow> v \<noteq> x \<Longrightarrow> v \<noteq> y \<Longrightarrow> e v = 0"
    and v: "v < k + 2"
  shows "e v = 0"
proof -
  have Ps: "(if x < k then e x else 0) XOR (if y < k \<and> y \<noteq> x then e y else 0) = e k"
    using P two by (subst (asm) xor_sum_two [of k x y]) auto
  have Qs: "(if x < k then gf_mul (gf_pow 2 x) (e x) else 0)
      XOR (if y < k \<and> y \<noteq> x then gf_mul (gf_pow 2 y) (e y) else 0) = e (k + 1)"
    using Q two by (subst (asm) xor_sum_two [of k x y]) auto
  have one: "e z = 0" if "z < k" "gf_mul (gf_pow 2 z) (e z) = 0" for z
    using that gf_pow_2_nz by simp
  have past: "e k = 0 \<Longrightarrow> e (k + 1) = 0 \<Longrightarrow> k \<le> z \<Longrightarrow> e z = 0 \<or> \<not> z < k + 2" for z
    by (cases "z = k"; cases "z = k + 1") auto
  have "e x = 0 \<or> \<not> x < k + 2" "e y = 0 \<or> \<not> y < k + 2"
  proof -
    consider "x < k" "y < k" "x \<noteq> y" | "x < k" "y < k" "x = y" | "x < k" "k \<le> y" | "k \<le> x" "y < k" | "k \<le> x" "k \<le> y"
      by linarith
    then have "(e x = 0 \<or> \<not> x < k + 2) \<and> (e y = 0 \<or> \<not> y < k + 2)"
    proof cases
      case 1
      then have "e k = 0" "e (k + 1) = 0" using two by simp_all
      with Ps Qs 1 have "e x = e y" "gf_mul (gf_pow 2 x) (e x) XOR gf_mul (gf_pow 2 y) (e y) = 0" by simp_all
      then have "gf_mul (gf_pow 2 x XOR gf_pow 2 y) (e x) = 0" by (simp only: gf.xor_mul)
      moreover have "gf_pow 2 x \<noteq> gf_pow 2 y" using gf_pow_2_inj 1 k by (auto dest: inj_onD)
      ultimately show ?thesis using \<open>e x = e y\<close> by simp
    next
      case 2
      then have "e k = 0" using two by simp
      with Ps 2 show ?thesis by simp
    next
      case 3
      have a: "e x = e k" "gf_mul (gf_pow 2 x) (e x) = e (k + 1)" using Ps Qs 3 by simp_all
      have "e x = 0"
      proof (cases "y = k")
        case True
        then have "e (k + 1) = 0" using two [of "k + 1"] 3 by simp
        with a(2) 3 one show ?thesis by simp
      next
        case False
        then have "e k = 0" using two [of k] 3 by simp
        with a(1) show ?thesis by simp
      qed
      with a have "e k = 0" "e (k + 1) = 0" by simp_all
      then show ?thesis using past 3 \<open>e x = 0\<close> by blast
    next
      case 4
      have a: "e y = e k" "gf_mul (gf_pow 2 y) (e y) = e (k + 1)" using Ps Qs 4 by simp_all
      have "e y = 0"
      proof (cases "x = k")
        case True
        then have "e (k + 1) = 0" using two [of "k + 1"] 4 by simp
        with a(2) 4 one show ?thesis by simp
      next
        case False
        then have "e k = 0" using two [of k] 4 by simp
        with a(1) show ?thesis by simp
      qed
      with a have "e k = 0" "e (k + 1) = 0" by simp_all
      then show ?thesis using past 4 \<open>e y = 0\<close> by blast
    next
      case 5
      then have "e k = 0" "e (k + 1) = 0" using Ps Qs by auto
      with past 5 show ?thesis by blast
    qed
    then show "e x = 0 \<or> \<not> x < k + 2" "e y = 0 \<or> \<not> y < k + 2" by simp_all
  qed
  with two v show ?thesis by metis
qed

section \<open>Properties\<close>

lemma pq_check_0_iff:
  assumes "4 \<le> vects"
  shows "pq_check vects len src = 0 \<longleftrightarrow> (\<forall>n < len.
    xor_sum (map (\<lambda>j. src ! j ! n) [0..<vects - 2]) = src ! (vects - 2) ! n
    \<and> xor_sum (map (\<lambda>j. gf_mul (gf_pow 2 j) (src ! j ! n)) [0..<vects - 2]) = src ! (vects - 1) ! n)"
  using assms by (simp add: raid_aliases pq_check_base_def pq_check_from_0_iff pq_check_sum_eq)

lemma xor_check_0_iff:
  assumes "2 \<le> vects"
  shows "xor_check vects len src = 0 \<longleftrightarrow> (\<forall>n < len. xor_sum (map (\<lambda>j. src ! j ! n) [0..<vects]) = 0)"
  using assms by (simp add: raid_aliases xor_check_base_def xor_check_from_0_iff)

text \<open>
  C30: \<open>pq_gen\<close> writes, for every whole 8-byte block, the XOR of the sources into P and the
  GF(2^8) polynomial \<open>\<Sigma> 2\<^sup>j d\<^sub>j\<close> into Q; the tail of \<open>len mod 8\<close> bytes and the sources are left
  as they were.
\<close>

theorem pq_gen_syndromes:
  assumes "4 \<le> vects" "raid_bufs vects len array"
  defines "n \<equiv> 8 * (len div 8)"
  shows "pq_gen vects len array = (0, array
    [vects - 2 := map (\<lambda>i. xor_sum (map (\<lambda>j. array ! j ! i) [0..<vects - 2])) [0..<n]
        @ drop n (array ! (vects - 2)),
     vects - 1 := map (\<lambda>i. xor_sum (map (\<lambda>j. gf_mul (gf_pow 2 j) (array ! j ! i)) [0..<vects - 2])) [0..<n]
        @ drop n (array ! (vects - 1))])"
  using assms(1) unfolding n_def raid_aliases pq_gen_base_eq [OF assms(1,2)] by (simp add: pq_check_sum_eq)

theorem pq_gen_syndromes_witness:
  "fst (pq_gen 4 8 [replicate 8 3, replicate 8 5, replicate 8 0, replicate 8 0]) = 0"
  using pq_gen_syndromes [of 4 8 "[replicate 8 3, replicate 8 5, replicate 8 0, replicate 8 0]"]
  by (simp add: raid_bufs_def)

text \<open>
  C31: for a length that is a multiple of 8, \<open>pq_check\<close> accepts what \<open>pq_gen\<close> produced.
\<close>

theorem pq_check_accepts_generated:
  assumes "4 \<le> vects" "raid_bufs vects len array" "8 dvd len"
  shows "pq_check vects len (snd (pq_gen vects len array)) = 0"
proof -
  have n: "8 * (len div 8) = len" using assms(3) by simp
  have la: "length array = vects" using assms(2) by (simp add: raid_bufs_def)
  let ?b = "snd (pq_gen vects len array)"
  have data: "?b ! j = array ! j" if "j < vects - 2" for j
    using that by (simp add: raid_aliases pq_gen_base_eq [OF assms(1,2)])
  have sum: "pq_check_sum vects ?b i = pq_check_sum vects array i" for i
    using assms(1) data by (intro pq_check_sum_cong) auto
  have "?b ! (vects - 2) ! i = fst (pq_check_sum vects array i)"
    "?b ! (vects - 1) ! i = snd (pq_check_sum vects array i)" if "i < len" for i
    using that assms(1) la by (simp_all add: raid_aliases pq_gen_base_eq [OF assms(1,2)] n nth_append)
  then have "\<forall>i < len. pq_check_sum vects ?b i = (?b ! (vects - 2) ! i, ?b ! (vects - 1) ! i)"
    using sum by simp
  then show ?thesis
    using assms(1) by (simp add: pq_check_def pq_check_base_def pq_check_from_0_iff)
qed

theorem pq_check_accepts_generated_witness:
  "pq_check 4 8 (snd (pq_gen 4 8 [replicate 8 3, replicate 8 5, replicate 8 0, replicate 8 0])) = 0"
  using pq_check_accepts_generated [of 4 8 "[replicate 8 3, replicate 8 5, replicate 8 0, replicate 8 0]"]
  by (simp add: raid_bufs_def)

text \<open>
  C20: RAID-6. Two arrays of at most 257 buffers that both pass \<open>pq_check\<close> and agree on
  all buffers but two agree on these two as well: any two lost buffers are determined by the
  others.
\<close>

theorem pq_check_determines_two_erasures:
  assumes "4 \<le> vects" "vects \<le> 257" "pq_check vects len a = 0" "pq_check vects len b = 0"
    and "\<And>v i. v < vects \<Longrightarrow> v \<noteq> x \<Longrightarrow> v \<noteq> y \<Longrightarrow> i < len \<Longrightarrow> a ! v ! i = b ! v ! i"
    and "v < vects" "i < len"
  shows "a ! v ! i = b ! v ! i"
proof -
  define k where "k = vects - 2"
  with assms(1) have k: "vects = k + 2" "vects - 1 = k + 1" "vects - 2 = k" by simp_all
  let ?e = "\<lambda>v. (a ! v ! i) XOR (b ! v ! i)"
  note A = assms(3) [unfolded pq_check_0_iff [OF assms(1)] k(2,3), rule_format, OF assms(7)]
    and B = assms(4) [unfolded pq_check_0_iff [OF assms(1)] k(2,3), rule_format, OF assms(7)]
  have "?e v = 0"
  proof (rule pq_distance [of k ?e x y])
    show "k \<le> 255" using assms(2) k(1) by simp
    show "xor_sum (map ?e [0..<k]) = ?e k"
      using A B by (simp only: xor_sum_map_xor)
    show "xor_sum (map (\<lambda>j. gf_mul (gf_pow 2 j) (?e j)) [0..<k]) = ?e (k + 1)"
      using A B by (simp only: gf.mul_xor xor_sum_map_xor)
    show "?e v = 0" if "v < k + 2" "v \<noteq> x" "v \<noteq> y" for v
      unfolding xor_eq_0_iff by (rule assms(5)) (use that assms(7) k(1) in simp_all)
    show "v < k + 2" using assms(6) k(1) by simp
  qed
  then show ?thesis by simp
qed

theorem pq_check_determines_two_erasures_witness:
  "[[1], [1], [0], [3 :: u8]] ! 1 ! 0 = [[1, 7], [1, 8], [0], [3 :: u8]] ! 1 ! 0"
proof -
  have "pq_check 4 1 [[1], [1], [0], [3]] = 0" "pq_check 4 1 [[1, 7], [1, 8], [0], [3]] = 0"
    by (simp_all add: pq_check_0_iff upt_conv_Cons gf_mul_one gf_x2_mul [symmetric] gf_x2_def)
  from pq_check_determines_two_erasures [OF _ _ this, of 0 1 1 0] show ?thesis
    by (simp add: less_Suc_eq numeral_eq_Suc)
qed

text \<open>
  C32: \<open>pq_check\<close> returns 0 exactly when there are at least four buffers and every byte of
  P and Q is the syndrome of the data.
\<close>

theorem pq_check_decides:
  "pq_check vects len src = 0 \<longleftrightarrow> \<not> vects < 4 \<and> (\<forall>n \<in> {..<len}.
    xor_sum (map (\<lambda>j. src ! j ! n) [0..<vects - 2]) = src ! (vects - 2) ! n
    \<and> xor_sum (map (\<lambda>j. gf_mul (gf_pow 2 j) (src ! j ! n)) [0..<vects - 2]) = src ! (vects - 1) ! n)"
proof (cases "vects < 4")
  case True
  then show ?thesis by (simp add: raid_aliases pq_check_base_def)
next
  case False
  then show ?thesis using pq_check_0_iff [of vects len src] by auto
qed

theorem pq_check_decides_witness: "pq_check 3 1 [[1], [1], [1]] \<noteq> 0"
  using pq_check_decides [of 3 1 "[[1], [1], [1]]"] by simp

text \<open>
  C33: \<open>xor_check\<close> accepts the array \<open>xor_gen\<close> produced, and in any accepted array every
  byte of every buffer is the XOR of the same byte of the others, so one lost buffer is recovered.
\<close>

theorem xor_parity_recovers:
  assumes "3 \<le> vects" "raid_bufs vects len array"
  shows "xor_check vects len (snd (xor_gen vects len array)) = 0
    \<and> (xor_check vects len array = 0 \<longrightarrow> (\<forall>v < vects. \<forall>i < len.
        array ! v ! i = xor_sum (map (\<lambda>j. array ! j ! i) (filter (\<lambda>j. j \<noteq> v) [0..<vects]))))"
proof (intro conjI impI allI)
  have vects: "2 \<le> vects" and la: "length array = vects" using assms by (simp_all add: raid_bufs_def)
  let ?b = "snd (xor_gen vects len array)"
  have upt: "[0..<vects] = [0..<vects - 1] @ [vects - 1]"
    using upt_Suc_append [of 0 "vects - 1"] assms(1) by simp
  have "xor_sum (map (\<lambda>j. ?b ! j ! i) [0..<vects]) = 0" if "i < len" for i
  proof -
    have "map (\<lambda>j. ?b ! j ! i) [0..<vects - 1] = map (\<lambda>j. array ! j ! i) [0..<vects - 1]"
      by (simp add: raid_aliases xor_gen_base_eq [OF assms])
    moreover have "?b ! (vects - 1) ! i = xor_sum (map (\<lambda>j. array ! j ! i) [0..<vects - 1])"
      using that la assms(1) by (simp add: raid_aliases xor_gen_base_eq [OF assms] nth_append)
    ultimately show ?thesis by (simp only: upt map_append xor_sum_append list.map xor_sum_Cons xor_sum_Nil) simp
  qed
  then show "xor_check vects len ?b = 0" by (simp add: xor_check_0_iff [OF vects])
  fix v i assume ok: "xor_check vects len array = 0" and v: "v < vects" and i: "i < len"
  have split: "xor_sum (map f xs) = f v XOR xor_sum (map f (filter (\<lambda>j. j \<noteq> v) xs))"
    if "distinct xs" "v \<in> set xs" for f :: "nat \<Rightarrow> u8" and xs
    using that
  proof (induction xs)
    case (Cons x xs)
    show ?case
    proof (cases "x = v")
      case True
      with Cons.prems have "filter (\<lambda>j. j \<noteq> v) xs = xs" by (auto simp: filter_id_conv)
      with True show ?thesis by simp
    next
      case False
      with Cons show ?thesis by (simp add: xor_laws)
    qed
  qed simp
  have "xor_sum (map (\<lambda>j. array ! j ! i) [0..<vects]) = 0" using ok i by (simp add: xor_check_0_iff [OF vects])
  then show "array ! v ! i = xor_sum (map (\<lambda>j. array ! j ! i) (filter (\<lambda>j. j \<noteq> v) [0..<vects]))"
    using v by (subst (asm) split) simp_all
qed

theorem xor_parity_recovers_witness:
  "xor_check 3 2 (snd (xor_gen 3 2 [[1, 2], [3, 4], [0, 0]])) = 0"
  using xor_parity_recovers [of 3 2 "[[1, 2], [3, 4], [0, 0]]"] by (simp add: raid_bufs_def)

end
