(* ===== verification/Inflate_State.thy ===== *)
theory Inflate_State
  imports Unaligned "HOL-Library.Monad_Syntax"
begin

text \<open>
  The decompression state of \<open>include/igzip_lib.h\<close> and its bit reader, from
  \<open>igzip/igzip_inflate.c\<close>. A pointer into a buffer is the buffer and an offset: \<open>next_in\<close> and
  \<open>next_out\<close> are offsets into \<open>in_buf\<close> and \<open>out_buf\<close>, the memory blocks they point to. The
  reader is proved to refine a list of bits: loading bytes into \<open>read_in\<close> leaves the list
  alone, reading \<open>n\<close> bits drops \<open>n\<close> of them.
\<close>

section \<open>The data of igzip_lib.h\<close>

text \<open>\<open>inflate_huff_code_large\<close> has 32-bit short entries, \<open>inflate_huff_code_small\<close> 16-bit ones.\<close>

record 'a inflate_huff_code =
  short_code_lookup :: "'a list"
  long_code_lookup :: "u16 list"

type_synonym inflate_huff_code_large = "u32 inflate_huff_code"
type_synonym inflate_huff_code_small = "u16 inflate_huff_code"

datatype isal_block_state =
    ISAL_BLOCK_NEW_HDR
  | ISAL_BLOCK_HDR
  | ISAL_BLOCK_TYPE0
  | ISAL_BLOCK_CODED
  | ISAL_BLOCK_INPUT_DONE
  | ISAL_BLOCK_FINISH
  | ISAL_GZIP_EXTRA_LEN
  | ISAL_GZIP_EXTRA
  | ISAL_GZIP_NAME
  | ISAL_GZIP_COMMENT
  | ISAL_GZIP_HCRC
  | ISAL_ZLIB_DICT
  | ISAL_CHECKSUM_CHECK

text \<open>\<open>type0_block_len\<close> stands for the union of \<open>type0_block_len\<close>, \<open>count\<close> and \<open>dict_id\<close>.\<close>

record inflate_state =
  out_buf :: "u8 list"
  next_out :: nat
  avail_out :: nat
  total_out :: u32
  in_buf :: "u8 list"
  next_in :: nat
  read_in :: u64
  avail_in :: nat
  read_in_length :: int
  lit_huff_code :: inflate_huff_code_large
  dist_huff_code :: inflate_huff_code_small
  block_state :: isal_block_state
  dict_length :: nat
  bfinal :: u32
  crc_flag :: nat
  crc :: u32
  hist_bits :: nat
  type0_block_len :: u32
  write_overflow_lits :: u32
  write_overflow_len :: nat
  copy_overflow_length :: nat
  copy_overflow_distance :: nat
  wrapper_flag :: bool
  tmp_in_size :: nat
  tmp_out_valid :: nat
  tmp_out_processed :: nat
  tmp_in_buffer :: "u8 list"
  tmp_out_buffer :: "u8 list"

section \<open>The bit reader\<close>

text \<open>The byte loop of \<open>inflate_in_load\<close>.\<close>

function inflate_in_load_bytes :: "inflate_state \<Rightarrow> inflate_state" where
  "inflate_in_load_bytes state =
    (if read_in_length state < 57 \<and> avail_in state > 0 then
       let temp = ucast (in_buf state ! next_in state) :: u64
       in inflate_in_load_bytes
            (state\<lparr>read_in := read_in state OR push_bit (nat (read_in_length state)) temp,
              next_in := next_in state + 1,
              avail_in := avail_in state - 1,
              read_in_length := read_in_length state + 8\<rparr>)
     else state)"
  by pat_completeness auto
termination
  by (relation "measure avail_in") auto

declare inflate_in_load_bytes.simps [simp del]

definition inflate_in_load :: "inflate_state \<Rightarrow> inflate_state" where
  "inflate_in_load state =
    (if read_in_length state \<ge> 64 then state
     else if avail_in state \<ge> 8 then
       let new_bytes = nat (8 - (read_in_length state + 7) div 8);
           temp = load_le_u64 (drop (next_in state) (in_buf state))
       in state\<lparr>read_in := read_in state OR push_bit (nat (read_in_length state)) temp,
            next_in := next_in state + new_bytes,
            avail_in := avail_in state - new_bytes,
            read_in_length := read_in_length state + int new_bytes * 8\<rparr>
     else inflate_in_load_bytes state)"

text \<open>The mask \<open>(1 << bit_count) - 1\<close> is an \<open>int\<close>, so the function is for at most 30 bits: C leaves the
  shift undefined from 31 on. The model wraps there; the callers read at most 14.\<close>

definition inflate_in_read_bits_unsafe :: "inflate_state \<Rightarrow> nat \<Rightarrow> u64 \<times> inflate_state" where
  "inflate_in_read_bits_unsafe state bit_count =
    (read_in state AND scast (push_bit bit_count 1 - 1 :: 32 word),
     state\<lparr>read_in := drop_bit bit_count (read_in state),
       read_in_length := read_in_length state - int bit_count\<rparr>)"

definition inflate_in_read_bits :: "inflate_state \<Rightarrow> nat \<Rightarrow> u64 \<times> inflate_state" where
  "inflate_in_read_bits state bit_count = inflate_in_read_bits_unsafe (inflate_in_load state) bit_count"

section \<open>The list of bits still to be read\<close>

definition byte_bits :: "u8 list \<Rightarrow> bool list" where
  "byte_bits bs = concat (map (\<lambda>b. map (bit b) [0..<8]) bs)"

text \<open>Bit \<open>i\<close> of a list continued by zeros, and the number whose binary digits are a list,
  the first one the least significant.\<close>

definition pad_bit :: "bool list \<Rightarrow> nat \<Rightarrow> bool" where
  "pad_bit bs i \<longleftrightarrow> i < length bs \<and> bs ! i"

definition bits_val :: "bool list \<Rightarrow> nat" where
  "bits_val bs = horner_sum of_bool 2 bs"

definition avail_bytes :: "inflate_state \<Rightarrow> u8 list" where
  "avail_bytes s = take (avail_in s) (drop (next_in s) (in_buf s))"

definition in_bits :: "inflate_state \<Rightarrow> bool list" where
  "in_bits s = map (bit (read_in s)) [0..<nat (read_in_length s)] @ byte_bits (avail_bytes s)"

text \<open>The reader's invariant. Above \<open>read_in_length\<close> the register may hold bits of bytes that
  are still to be loaded: the eight-byte load keeps the bits of a byte it could not take
  whole, and a later load writes the same bits again.\<close>

definition in_wf :: "inflate_state \<Rightarrow> bool" where
  "in_wf s \<longleftrightarrow> next_in s + avail_in s \<le> length (in_buf s)
    \<and> 0 \<le> read_in_length s \<and> read_in_length s \<le> 64
    \<and> (\<forall>i \<ge> nat (read_in_length s). bit (read_in s) i \<longrightarrow> pad_bit (in_bits s) i)"

text \<open>What holds after a load: the first 57 bits are in the register.\<close>

definition in_loaded :: "inflate_state \<Rightarrow> bool" where
  "in_loaded s \<longleftrightarrow> in_wf s \<and> (57 \<le> read_in_length s \<or> avail_in s = 0)"

subsection \<open>Bits of byte lists\<close>

lemma byte_bits_Nil [simp]: "byte_bits [] = []"
  by (simp add: byte_bits_def)

lemma byte_bits_Cons [simp]: "byte_bits (b # bs) = map (bit b) [0..<8] @ byte_bits bs"
  by (simp add: byte_bits_def)

lemma byte_bits_append [simp]: "byte_bits (xs @ ys) = byte_bits xs @ byte_bits ys"
  by (simp add: byte_bits_def)

lemma length_byte_bits [simp]: "length (byte_bits bs) = 8 * length bs"
  by (induction bs) simp_all

lemma nth_byte_bits:
  assumes "i < 8 * length bs"
  shows "byte_bits bs ! i = bit (bs ! (i div 8)) (i mod 8)"
proof -
  have "byte_bits bs ! (i div 8 * 8 + i mod 8) = map (bit (bs ! (i div 8))) [0..<8] ! (i mod 8)"
    unfolding byte_bits_def using assms by (intro nth_concat_blocks) auto
  then show ?thesis by simp
qed

lemma byte_bits_take: "byte_bits (take k bs) = take (8 * k) (byte_bits bs)"
proof (induction bs arbitrary: k)
  case (Cons b bs)
  then show ?case by (cases k) simp_all
qed simp

lemma byte_bits_drop: "byte_bits (drop k bs) = drop (8 * k) (byte_bits bs)"
proof (induction bs arbitrary: k)
  case (Cons b bs)
  then show ?case by (cases k) simp_all
qed simp

lemma bit_le_word_byte_bits:
  "bit (le_word bs :: 'w::len word) n \<longleftrightarrow> n < LENGTH('w) \<and> pad_bit (byte_bits bs) n"
  by (auto simp: bit_le_word pad_bit_def nth_byte_bits)

lemma pad_bit_append: "pad_bit (xs @ ys) i = (if i < length xs then xs ! i else pad_bit ys (i - length xs))"
  by (auto simp: pad_bit_def nth_append)

lemma pad_bit_drop: "pad_bit (drop n xs) i = pad_bit xs (n + i)"
  by (auto simp: pad_bit_def)

lemma bits_val_nth: "bit (bits_val bs) i \<longleftrightarrow> pad_bit bs i"
  by (simp add: bits_val_def pad_bit_def bit_horner_sum_bit_iff)

lemma bits_val_less: "bits_val bs < 2 ^ length bs"
  unfolding bits_val_def by (rule horner_sum_of_bool_2_less)

lemma byte_bits_le_bytes: "8 * k \<le> 64 \<Longrightarrow> byte_bits (le_bytes k (w :: u64)) = map (bit w) [0..<8 * k]"
proof (rule nth_equalityI)
  fix i assume k: "8 * k \<le> 64" and "i < length (byte_bits (le_bytes k w))"
  then have i: "i < 8 * k" by simp
  then have "i div 8 < k" by linarith
  then show "byte_bits (le_bytes k w) ! i = map (bit w) [0..<8 * k] ! i"
    using i by (simp add: nth_byte_bits bit_simps)
qed simp

subsection \<open>Loading leaves the list of bits alone\<close>

lemma length_in_bits: "length (in_bits s) = nat (read_in_length s) + 8 * length (avail_bytes s)"
  by (simp add: in_bits_def)

lemma length_avail_bytes: "in_wf s \<Longrightarrow> length (avail_bytes s) = avail_in s"
  by (auto simp: in_wf_def avail_bytes_def)

lemma in_bits_low: "i < nat (read_in_length s) \<Longrightarrow> pad_bit (in_bits s) i = bit (read_in s) i"
  by (simp add: in_bits_def pad_bit_append)

lemma in_bits_high:
  "nat (read_in_length s) \<le> i \<Longrightarrow> pad_bit (in_bits s) i = pad_bit (byte_bits (avail_bytes s)) (i - nat (read_in_length s))"
  by (simp add: in_bits_def pad_bit_append)

lemma in_wf_register:
  assumes "in_wf s" "bit (read_in s) i"
  shows "pad_bit (in_bits s) i"
  using assms in_bits_low [of i s] by (cases "nat (read_in_length s) \<le> i") (auto simp: in_wf_def)

lemma load_bytes_step:
  assumes wf: "in_wf s" and k: "k \<le> avail_in s" "nat (read_in_length s) + 8 * k \<le> 64"
    and low: "\<And>i. i < nat (read_in_length s) + 8 * k \<Longrightarrow> bit R i = pad_bit (in_bits s) i"
    and high: "\<And>i. bit R i \<Longrightarrow> pad_bit (in_bits s) i"
    and s': "s' = s\<lparr>read_in := R, next_in := next_in s + k, avail_in := avail_in s - k,
      read_in_length := read_in_length s + int k * 8\<rparr>"
  shows "in_bits s' = in_bits s" "in_wf s'"
proof -
  let ?n = "nat (read_in_length s) + 8 * k"
  have L: "0 \<le> read_in_length s" using wf by (simp add: in_wf_def)
  have n: "nat (read_in_length s') = ?n" using L s' by (simp add: nat_add_distrib nat_mult_distrib)
  have av: "avail_bytes s' = drop k (avail_bytes s)"
    by (simp add: avail_bytes_def s' drop_take add.commute)
  have len: "?n \<le> length (in_bits s)"
    using k length_avail_bytes [OF wf] by (simp add: length_in_bits)
  have "map (bit R) [0..<?n] = take ?n (in_bits s)"
    using len low by (intro nth_equalityI) (auto simp: pad_bit_def)
  moreover have "byte_bits (avail_bytes s') = drop ?n (in_bits s)"
    by (simp add: av byte_bits_drop in_bits_def)
  moreover have "in_bits s' = map (bit R) [0..<?n] @ byte_bits (avail_bytes s')"
    by (subst in_bits_def) (simp only: n, simp add: s')
  ultimately have "in_bits s' = take ?n (in_bits s) @ drop ?n (in_bits s)" by (simp only:)
  then show eq: "in_bits s' = in_bits s" by simp
  have "next_in s' + avail_in s' \<le> length (in_buf s')" "0 \<le> read_in_length s'" "read_in_length s' \<le> 64"
    using wf k L by (auto simp: in_wf_def s')
  moreover have "pad_bit (in_bits s') i" if "bit (read_in s') i" for i
    using high [of i] that eq by (simp add: s')
  ultimately show "in_wf s'" by (simp add: in_wf_def)
qed

lemma bit_or_push_64:
  "bit (r OR push_bit n (t :: u64)) i \<longleftrightarrow> bit r i \<or> i < 64 \<and> n \<le> i \<and> bit t (i - n)"
  by (auto simp: bit_simps)

lemma load_fast_word:
  assumes wf: "in_wf s" and av: "8 \<le> avail_in s"
  shows "bit (load_le_u64 (drop (next_in s) (in_buf s))) j
    \<longleftrightarrow> j < 64 \<and> pad_bit (byte_bits (avail_bytes s)) j"
proof -
  have "take 8 (drop (next_in s) (in_buf s)) = take 8 (avail_bytes s)"
    using av by (simp add: avail_bytes_def min_absorb1)
  then show ?thesis
    using length_avail_bytes [OF wf] av
    by (auto simp: load_le_u64_def bit_le_word_byte_bits byte_bits_take pad_bit_def)
qed

lemma load_byte_word:
  assumes wf: "in_wf s" and av: "0 < avail_in s"
  shows "bit (ucast (in_buf s ! next_in s) :: u64) j \<longleftrightarrow> j < 8 \<and> pad_bit (byte_bits (avail_bytes s)) j"
proof -
  have "in_buf s ! next_in s = avail_bytes s ! 0"
    using wf av by (simp add: avail_bytes_def in_wf_def)
  moreover have "pad_bit (byte_bits (avail_bytes s)) j \<longleftrightarrow> bit (avail_bytes s ! 0) j" if "j < 8"
    using that length_avail_bytes [OF wf] av by (simp add: pad_bit_def nth_byte_bits)
  ultimately show ?thesis
    by (auto simp: bit_simps dest: u8_bit)
qed

text \<open>One OR of loaded bytes into the register.\<close>

lemma load_or_step:
  assumes wf: "in_wf s" and k: "k \<le> avail_in s" "nat (read_in_length s) + 8 * k \<le> 64"
    and t: "\<And>j. j < 8 * k \<Longrightarrow> bit (t :: u64) j \<longleftrightarrow> pad_bit (byte_bits (avail_bytes s)) j"
      "\<And>j. bit t j \<Longrightarrow> pad_bit (byte_bits (avail_bytes s)) j"
    and s': "s' = s\<lparr>read_in := read_in s OR push_bit (nat (read_in_length s)) t,
      next_in := next_in s + k, avail_in := avail_in s - k,
      read_in_length := read_in_length s + int k * 8\<rparr>"
  shows "in_bits s' = in_bits s" "in_wf s'"
proof -
  let ?R = "read_in s OR push_bit (nat (read_in_length s)) t"
  have high: "pad_bit (in_bits s) i" if "bit ?R i" for i
    using that in_wf_register [OF wf, of i] t(2) [of "i - nat (read_in_length s)"] in_bits_high [of s i]
    by (auto simp: bit_or_push_64)
  have low: "bit ?R i = pad_bit (in_bits s) i" if "i < nat (read_in_length s) + 8 * k" for i
  proof (cases "i < nat (read_in_length s)")
    case True
    then show ?thesis by (simp add: bit_or_push_64 in_bits_low)
  next
    case False
    then have "pad_bit (in_bits s) i \<longleftrightarrow> bit t (i - nat (read_in_length s))"
      using t(1) [of "i - nat (read_in_length s)"] in_bits_high [of s i] that by simp
    then show ?thesis
      using False that k(2) in_wf_register [OF wf, of i] by (auto simp: bit_or_push_64)
  qed
  show "in_bits s' = in_bits s" "in_wf s'"
    using load_bytes_step [OF wf k low high s'] by blast+
qed

text \<open>What a load keeps: everything but the four reader fields, and the sum of the offset and
  the count of the input.\<close>

definition in_rest :: "inflate_state \<Rightarrow> inflate_state" where
  "in_rest s = s\<lparr>read_in := 0, next_in := 0, avail_in := 0, read_in_length := 0\<rparr>"

definition in_pos :: "inflate_state \<Rightarrow> int" where
  "in_pos s = 8 * int (next_in s) - read_in_length s"

definition in_end :: "inflate_state \<Rightarrow> nat" where
  "in_end s = next_in s + avail_in s"

lemma in_rest_fields:
  assumes "in_rest s' = in_rest s"
  shows "out_buf s' = out_buf s" "next_out s' = next_out s" "avail_out s' = avail_out s"
    "total_out s' = total_out s" "in_buf s' = in_buf s" "lit_huff_code s' = lit_huff_code s"
    "dist_huff_code s' = dist_huff_code s" "block_state s' = block_state s" "bfinal s' = bfinal s"
    "hist_bits s' = hist_bits s" "type0_block_len s' = type0_block_len s"
    "copy_overflow_length s' = copy_overflow_length s"
    "copy_overflow_distance s' = copy_overflow_distance s"
    "write_overflow_len s' = write_overflow_len s" "write_overflow_lits s' = write_overflow_lits s"
  using arg_cong [OF assms, of out_buf]
    arg_cong [OF assms, of next_out]
    arg_cong [OF assms, of avail_out]
    arg_cong [OF assms, of total_out]
    arg_cong [OF assms, of in_buf]
    arg_cong [OF assms, of lit_huff_code]
    arg_cong [OF assms, of dist_huff_code]
    arg_cong [OF assms, of block_state]
    arg_cong [OF assms, of bfinal]
    arg_cong [OF assms, of hist_bits]
    arg_cong [OF assms, of type0_block_len]
    arg_cong [OF assms, of copy_overflow_length]
    arg_cong [OF assms, of copy_overflow_distance]
    arg_cong [OF assms, of write_overflow_len]
    arg_cong [OF assms, of write_overflow_lits]
  by (simp_all add: in_rest_def)

lemma in_rest_update [simp]:
  "in_rest (s\<lparr>read_in := r, next_in := n, avail_in := a, read_in_length := l\<rparr>) = in_rest s"
  "in_rest (s\<lparr>read_in := r, read_in_length := l\<rparr>) = in_rest s"
  by (simp_all add: in_rest_def)

lemma inflate_in_load_bytes:
  assumes "in_wf s"
  shows "in_wf (inflate_in_load_bytes s)" "in_bits (inflate_in_load_bytes s) = in_bits s"
    "57 \<le> read_in_length (inflate_in_load_bytes s) \<or> avail_in (inflate_in_load_bytes s) = 0"
    "in_rest (inflate_in_load_bytes s) = in_rest s" "in_pos (inflate_in_load_bytes s) = in_pos s"
    "in_end (inflate_in_load_bytes s) = in_end s"
proof -
  let ?P = "\<lambda>s s'. in_wf s' \<and> in_bits s' = in_bits s \<and> (57 \<le> read_in_length s' \<or> avail_in s' = 0)
    \<and> in_rest s' = in_rest s \<and> in_pos s' = in_pos s \<and> in_end s' = in_end s"
  have "?P s (inflate_in_load_bytes s)"
    using assms
  proof (induction s rule: inflate_in_load_bytes.induct)
    case (1 s)
    show ?case
    proof (cases "read_in_length s < 57 \<and> 0 < avail_in s")
      case False
      then have "inflate_in_load_bytes s = s" by (subst inflate_in_load_bytes.simps) auto
      with False "1.prems" show ?thesis by auto
    next
      case True
      let ?t = "ucast (in_buf s ! next_in s) :: u64"
      define s1 where s1: "s1 = s\<lparr>read_in := read_in s OR push_bit (nat (read_in_length s)) ?t,
        next_in := next_in s + 1, avail_in := avail_in s - 1, read_in_length := read_in_length s + 8\<rparr>"
      have s1': "s1 = s\<lparr>read_in := read_in s OR push_bit (nat (read_in_length s)) ?t,
        next_in := next_in s + 1, avail_in := avail_in s - 1, read_in_length := read_in_length s + int 1 * 8\<rparr>"
        by (simp add: s1)
      note t = load_byte_word [OF "1.prems" conjunct2 [OF True]]
      have t': "\<And>j. j < 8 * 1 \<Longrightarrow> bit ?t j \<longleftrightarrow> pad_bit (byte_bits (avail_bytes s)) j"
        "\<And>j. bit ?t j \<Longrightarrow> pad_bit (byte_bits (avail_bytes s)) j"
        by (simp_all only: t mult_1_right simp_thms)
      have k: "1 \<le> avail_in s" "nat (read_in_length s) + 8 * 1 \<le> 64" using True by (simp_all, linarith)
      have "in_bits s1 = in_bits s" "in_wf s1"
        using load_or_step [OF "1.prems" k t' s1'] by blast+
      moreover have "in_pos s1 = in_pos s" "in_end s1 = in_end s" "in_rest s1 = in_rest s"
        using True by (simp_all add: in_pos_def in_end_def s1)
      moreover have "inflate_in_load_bytes s = inflate_in_load_bytes s1"
        using True by (subst inflate_in_load_bytes.simps) (simp add: Let_def s1)
      moreover have "?P s1 (inflate_in_load_bytes s1)" if "in_wf s1"
        by (rule "1.IH" [OF True refl, folded s1, OF that])
      ultimately show ?thesis by metis
    qed
  qed
  then show "in_wf (inflate_in_load_bytes s)" "in_bits (inflate_in_load_bytes s) = in_bits s"
    "57 \<le> read_in_length (inflate_in_load_bytes s) \<or> avail_in (inflate_in_load_bytes s) = 0"
    "in_rest (inflate_in_load_bytes s) = in_rest s" "in_pos (inflate_in_load_bytes s) = in_pos s"
    "in_end (inflate_in_load_bytes s) = in_end s"
    by simp_all
qed

lemma inflate_in_load:
  assumes "in_wf s"
  shows "in_loaded (inflate_in_load s)" "in_bits (inflate_in_load s) = in_bits s"
    "in_rest (inflate_in_load s) = in_rest s" "in_pos (inflate_in_load s) = in_pos s"
    "in_end (inflate_in_load s) = in_end s"
proof -
  let ?P = "\<lambda>s'. in_loaded s' \<and> in_bits s' = in_bits s \<and> in_rest s' = in_rest s \<and> in_pos s' = in_pos s
    \<and> in_end s' = in_end s"
  have "?P (inflate_in_load s)"
  proof (cases "64 \<le> read_in_length s \<or> avail_in s < 8")
    case True
    then show ?thesis
      using assms inflate_in_load_bytes [OF assms] by (auto simp: inflate_in_load_def in_loaded_def)
  next
    case False
    let ?L = "read_in_length s" and ?k = "nat (8 - (read_in_length s + 7) div 8)"
    let ?t = "load_le_u64 (drop (next_in s) (in_buf s))"
    define s1 where s1: "s1 = s\<lparr>read_in := read_in s OR push_bit (nat ?L) ?t,
      next_in := next_in s + ?k, avail_in := avail_in s - ?k, read_in_length := ?L + int ?k * 8\<rparr>"
    have L: "0 \<le> ?L" "?L < 64" using assms False by (auto simp: in_wf_def)
    have k: "?k \<le> 8" "57 \<le> ?L + 8 * int ?k" "?L + 8 * int ?k \<le> 64" using L by (simp_all, linarith+)
    have av: "8 \<le> avail_in s" "?k \<le> avail_in s" "nat ?L + 8 * ?k \<le> 64" using False k L by simp_all
    note t = load_fast_word [OF assms av(1)]
    have t': "\<And>j. j < 8 * ?k \<Longrightarrow> bit ?t j \<longleftrightarrow> pad_bit (byte_bits (avail_bytes s)) j"
      "\<And>j. bit ?t j \<Longrightarrow> pad_bit (byte_bits (avail_bytes s)) j"
      using k(1) by (simp_all only: t, linarith)
    have "in_bits s1 = in_bits s" "in_wf s1"
      using load_or_step [OF assms av(2,3) t' s1] by blast+
    moreover have "in_pos s1 = in_pos s" "in_end s1 = in_end s" "57 \<le> read_in_length s1" "in_rest s1 = in_rest s"
      using False k by (simp_all add: in_pos_def in_end_def s1)
    moreover have "inflate_in_load s = s1" unfolding s1 using False by (simp add: inflate_in_load_def Let_def)
    ultimately show ?thesis by (simp only: in_loaded_def simp_thms)
  qed
  then show "in_loaded (inflate_in_load s)" "in_bits (inflate_in_load s) = in_bits s"
    "in_rest (inflate_in_load s) = in_rest s" "in_pos (inflate_in_load s) = in_pos s"
    "in_end (inflate_in_load s) = in_end s"
    by simp_all
qed

section \<open>Reading is dropping bits\<close>

definition in_skip :: "nat \<Rightarrow> inflate_state \<Rightarrow> inflate_state" where
  "in_skip n s = s\<lparr>read_in := drop_bit n (read_in s), read_in_length := read_in_length s - int n\<rparr>"

lemma in_skip_fields [simp]:
  "next_in (in_skip n s) = next_in s" "avail_in (in_skip n s) = avail_in s"
  "read_in_length (in_skip n s) = read_in_length s - int n" "avail_bytes (in_skip n s) = avail_bytes s"
  "in_rest (in_skip n s) = in_rest s" "in_end (in_skip n s) = in_end s"
  "in_pos (in_skip n s) = in_pos s + int n" "in_buf (in_skip n s) = in_buf s"
  by (simp_all add: in_skip_def avail_bytes_def in_end_def in_pos_def)

lemma in_skip:
  assumes "in_wf s" "int n \<le> read_in_length s"
  shows "in_wf (in_skip n s)" "in_bits (in_skip n s) = drop n (in_bits s)"
proof -
  have n: "n \<le> nat (read_in_length s)" "nat (read_in_length s - int n) = nat (read_in_length s) - n"
    using assms(2) by simp_all
  have "map (bit (drop_bit n (read_in s))) [0..<nat (read_in_length s) - n] = drop n (map (bit (read_in s)) [0..<nat (read_in_length s)])"
    by (rule nth_equalityI) (simp_all add: bit_simps)
  then show eq: "in_bits (in_skip n s) = drop n (in_bits s)"
    using n by (simp add: in_bits_def in_skip_def avail_bytes_def)
  have "pad_bit (in_bits (in_skip n s)) i" if "bit (read_in (in_skip n s)) i" for i
    using in_wf_register [OF assms(1), of "n + i"] that unfolding eq
    by (simp add: in_skip_def bit_simps pad_bit_drop)
  then show "in_wf (in_skip n s)"
    using assms by (simp add: in_wf_def in_skip_def)
qed

text \<open>After a load the register agrees with the list continued by zeros on the first 57 bits.\<close>

lemma in_loaded_bit:
  assumes "in_loaded s" "i < 57"
  shows "bit (read_in s) i \<longleftrightarrow> pad_bit (in_bits s) i"
proof (cases "i < nat (read_in_length s)")
  case True
  then show ?thesis by (simp add: in_bits_low)
next
  case False
  then have "avail_bytes s = []" using assms by (auto simp: in_loaded_def avail_bytes_def)
  then have "\<not> pad_bit (in_bits s) i" using False in_bits_high [of s i] by (simp add: pad_bit_def)
  with assms show ?thesis using in_wf_register [of s i] by (auto simp: in_loaded_def)
qed

lemma in_loaded_length:
  assumes "in_loaded s" "n \<le> 57"
  shows "int n \<le> read_in_length s \<longleftrightarrow> n \<le> length (in_bits s)"
proof (cases "avail_in s = 0")
  case True
  then have "length (in_bits s) = nat (read_in_length s)" by (simp add: length_in_bits avail_bytes_def)
  then show ?thesis using assms by (auto simp: in_loaded_def in_wf_def)
next
  case False
  then have "57 \<le> read_in_length s" using assms by (simp add: in_loaded_def)
  moreover have "nat (read_in_length s) \<le> length (in_bits s)" by (simp add: length_in_bits)
  ultimately show ?thesis using assms by auto
qed

lemma in_loaded_mask:
  assumes "in_loaded s" "n \<le> 57"
  shows "unat (read_in s AND (push_bit n 1 - 1)) = bits_val (map (pad_bit (in_bits s)) [0..<n])"
proof -
  have "bit (unat (read_in s AND (push_bit n 1 - 1))) i \<longleftrightarrow> bit (bits_val (map (pad_bit (in_bits s)) [0..<n])) i" for i
  proof -
    have "(push_bit n 1 - 1 :: u64) = mask n" by (simp add: mask_eq_exp_minus_1 push_bit_eq_mult)
    then show ?thesis
      using assms in_loaded_bit [OF assms(1), of i]
      by (auto simp: bits_val_nth pad_bit_def bit_simps bit_mask_iff)
  qed
  then show ?thesis by (rule bit_eqI)
qed

lemma pad_bits_take: "n \<le> length bs \<Longrightarrow> map (pad_bit bs) [0..<n] = take n bs"
  by (rule nth_equalityI) (auto simp: pad_bit_def)

lemma inflate_in_read_bits_skip:
  assumes "n \<le> 30"
  shows "inflate_in_read_bits_unsafe s n = (read_in s AND (push_bit n 1 - 1), in_skip n s)"
proof -
  have "scast (push_bit n 1 - 1 :: 32 word) = (mask n :: u64)"
    by (rule bit_word_eqI) (use assms in \<open>auto simp: bit_signed_iff bit_mask_iff mask_eq_exp_minus_1 [symmetric] push_bit_eq_mult\<close>)
  then have "scast (push_bit n 1 - 1 :: 32 word) = (push_bit n 1 - 1 :: u64)"
    by (simp add: mask_eq_exp_minus_1 push_bit_eq_mult)
  then show ?thesis by (simp add: inflate_in_read_bits_unsafe_def in_skip_def)
qed

lemma inflate_in_read_bits_spec:
  assumes "in_wf s" "n \<le> 30" "inflate_in_read_bits s n = (v, s')"
  shows "in_rest s' = in_rest s \<and> in_end s' = in_end s \<and> in_pos s' = in_pos s + int n
    \<and> (0 \<le> read_in_length s' \<longleftrightarrow> n \<le> length (in_bits s))
    \<and> (n \<le> length (in_bits s) \<longrightarrow>
        in_wf s' \<and> unat v = bits_val (take n (in_bits s)) \<and> in_bits s' = drop n (in_bits s))"
proof -
  let ?l = "inflate_in_load s"
  note load = inflate_in_load [OF assms(1)]
  have s': "s' = in_skip n ?l" "v = read_in ?l AND (push_bit n 1 - 1)"
    using assms(2,3) by (simp_all add: inflate_in_read_bits_def inflate_in_read_bits_skip)
  have len: "int n \<le> read_in_length ?l \<longleftrightarrow> n \<le> length (in_bits s)"
    using in_loaded_length [OF load(1), of n] assms(2) load(2) by simp
  have "in_wf s' \<and> unat v = bits_val (take n (in_bits s)) \<and> in_bits s' = drop n (in_bits s)"
    if n: "n \<le> length (in_bits s)"
    using in_skip [of ?l n] in_loaded_mask [OF load(1), of n] assms(2) load len n
    by (simp add: s' in_loaded_def pad_bits_take)
  then show ?thesis using load len by (simp add: s')
qed

text \<open>
  C26: the bit reader. \<open>inflate_in_read_bits\<close> for at most 30 bits returns the number spelled by
  the next bits of the stream, the first the least significant, and drops them; the bits that
  are left, the input block and every other field are what they were. When fewer bits are
  left the count of the register becomes negative, which is how its callers notice.
\<close>

theorem inflate_in_read_bits_refines:
  assumes "in_wf s" "n \<le> 30" "inflate_in_read_bits s n = (v, s')"
  shows "in_rest s' = in_rest s \<and> in_end s' = in_end s \<and> in_pos s' = in_pos s + int n
    \<and> (0 \<le> read_in_length s' \<longleftrightarrow> n \<le> length (in_bits s))
    \<and> (n \<le> length (in_bits s) \<longrightarrow>
        in_wf s' \<and> unat v = bits_val (take n (in_bits s)) \<and> in_bits s' = drop n (in_bits s))"
  using assms by (rule inflate_in_read_bits_spec)

theorem inflate_in_read_bits_refines_witness:
  "\<forall>s. unat (fst (inflate_in_read_bits (s\<lparr>in_buf := [0xB5, 1], next_in := 0, avail_in := 2, read_in := 0,
      read_in_length := 0\<rparr>) 3)) = 5"
proof
  fix s :: inflate_state
  let ?s = "s\<lparr>in_buf := [0xB5, 1], next_in := 0, avail_in := 2, read_in := 0, read_in_length := 0\<rparr>"
  obtain v s' where r: "inflate_in_read_bits ?s 3 = (v, s')" by fastforce
  have "in_wf ?s" by (simp add: in_wf_def)
  moreover have "in_bits ?s = [True, False, True, False, True, True, False, True] @ byte_bits [1]"
    by (simp add: in_bits_def avail_bytes_def upt_rec)
  ultimately show "unat (fst (inflate_in_read_bits ?s 3)) = 5"
    using inflate_in_read_bits_refines [OF _ _ r] r by (simp add: bits_val_def)
qed

end
