(* ===== verification/Huffman_Codes.thy ===== *)
theory Huffman_Codes
  imports ISAL_Prelude
begin

text \<open>
  Huffman codes of DEFLATE as \<open>igzip/huff_codes.h\<close> and \<open>igzip/igzip_inflate.c\<close> hold them:
  the packed \<open>huff_code\<close>, the bit reversal, and \<open>set_codes\<close>, which gives every symbol the
  canonical code of its length (RFC 1951, 3.2.2). The locales \<open>prefix_code\<close> and
  \<open>canonical_code\<close> say what the users of the codes rely on; \<open>set_codes\<close> interprets them.
\<close>

section \<open>The code of igzip_inflate.c\<close>

definition MAX_HUFF_TREE_DEPTH :: nat where "MAX_HUFF_TREE_DEPTH = 15"
definition ISAL_INVALID_BLOCK :: int where "ISAL_INVALID_BLOCK = - 1"

text \<open>The union \<open>huff_code\<close> is its \<open>code_and_length\<close>; the other members are parts of it.\<close>

type_synonym huff_code = u32

definition hc_code :: "huff_code \<Rightarrow> u16" where
  "hc_code h = ucast h"

definition hc_code_and_extra :: "huff_code \<Rightarrow> u32" where
  "hc_code_and_extra h = h AND 0xFFFFFF"

definition hc_length :: "huff_code \<Rightarrow> nat" where
  "hc_length h = unat (drop_bit 24 h)"

definition hc_set_code :: "huff_code \<Rightarrow> u16 \<Rightarrow> huff_code" where
  "hc_set_code h c = (h AND 0xFFFF0000) OR ucast c"

definition hc_set_code_and_extra :: "huff_code \<Rightarrow> u32 \<Rightarrow> huff_code" where
  "hc_set_code_and_extra h c = (h AND 0xFF000000) OR (c AND 0xFFFFFF)"

definition write_huff_code :: "u32 \<Rightarrow> nat \<Rightarrow> huff_code" where
  "write_huff_code code len = code OR push_bit 24 (of_nat len)"

definition bitrev_table :: "u8 list" where
  "bitrev_table = [
    0x00, 0x80, 0x40, 0xc0, 0x20, 0xa0, 0x60, 0xe0, 0x10, 0x90, 0x50, 0xd0, 0x30, 0xb0, 0x70,
    0xf0, 0x08, 0x88, 0x48, 0xc8, 0x28, 0xa8, 0x68, 0xe8, 0x18, 0x98, 0x58, 0xd8, 0x38, 0xb8,
    0x78, 0xf8, 0x04, 0x84, 0x44, 0xc4, 0x24, 0xa4, 0x64, 0xe4, 0x14, 0x94, 0x54, 0xd4, 0x34,
    0xb4, 0x74, 0xf4, 0x0c, 0x8c, 0x4c, 0xcc, 0x2c, 0xac, 0x6c, 0xec, 0x1c, 0x9c, 0x5c, 0xdc,
    0x3c, 0xbc, 0x7c, 0xfc, 0x02, 0x82, 0x42, 0xc2, 0x22, 0xa2, 0x62, 0xe2, 0x12, 0x92, 0x52,
    0xd2, 0x32, 0xb2, 0x72, 0xf2, 0x0a, 0x8a, 0x4a, 0xca, 0x2a, 0xaa, 0x6a, 0xea, 0x1a, 0x9a,
    0x5a, 0xda, 0x3a, 0xba, 0x7a, 0xfa, 0x06, 0x86, 0x46, 0xc6, 0x26, 0xa6, 0x66, 0xe6, 0x16,
    0x96, 0x56, 0xd6, 0x36, 0xb6, 0x76, 0xf6, 0x0e, 0x8e, 0x4e, 0xce, 0x2e, 0xae, 0x6e, 0xee,
    0x1e, 0x9e, 0x5e, 0xde, 0x3e, 0xbe, 0x7e, 0xfe, 0x01, 0x81, 0x41, 0xc1, 0x21, 0xa1, 0x61,
    0xe1, 0x11, 0x91, 0x51, 0xd1, 0x31, 0xb1, 0x71, 0xf1, 0x09, 0x89, 0x49, 0xc9, 0x29, 0xa9,
    0x69, 0xe9, 0x19, 0x99, 0x59, 0xd9, 0x39, 0xb9, 0x79, 0xf9, 0x05, 0x85, 0x45, 0xc5, 0x25,
    0xa5, 0x65, 0xe5, 0x15, 0x95, 0x55, 0xd5, 0x35, 0xb5, 0x75, 0xf5, 0x0d, 0x8d, 0x4d, 0xcd,
    0x2d, 0xad, 0x6d, 0xed, 0x1d, 0x9d, 0x5d, 0xdd, 0x3d, 0xbd, 0x7d, 0xfd, 0x03, 0x83, 0x43,
    0xc3, 0x23, 0xa3, 0x63, 0xe3, 0x13, 0x93, 0x53, 0xd3, 0x33, 0xb3, 0x73, 0xf3, 0x0b, 0x8b,
    0x4b, 0xcb, 0x2b, 0xab, 0x6b, 0xeb, 0x1b, 0x9b, 0x5b, 0xdb, 0x3b, 0xbb, 0x7b, 0xfb, 0x07,
    0x87, 0x47, 0xc7, 0x27, 0xa7, 0x67, 0xe7, 0x17, 0x97, 0x57, 0xd7, 0x37, 0xb7, 0x77, 0xf7,
    0x0f, 0x8f, 0x4f, 0xcf, 0x2f, 0xaf, 0x6f, 0xef, 0x1f, 0x9f, 0x5f, 0xdf, 0x3f, 0xbf, 0x7f,
    0xff]"

definition bit_reverse2 :: "u16 \<Rightarrow> nat \<Rightarrow> u32" where
  "bit_reverse2 bits len =
    (let bitrev = ucast (bitrev_table ! unat (drop_bit 8 bits)) :: u32;
         bitrev = bitrev OR push_bit 8 (ucast (bitrev_table ! unat (bits AND 0xFF)))
     in drop_bit (16 - len) bitrev)"

text \<open>\<open>next_code[i]\<close> after the set-up loop of \<open>set_codes\<close>.\<close>

fun next_code_at :: "u16 list \<Rightarrow> nat \<Rightarrow> u32" where
  "next_code_at count i =
    (if i < 2 then 0 else push_bit 1 (next_code_at count (i - 1) + ucast (count ! (i - 1))))"

declare next_code_at.simps [simp del]

fun set_codes_loop :: "u32 list \<Rightarrow> huff_code list \<Rightarrow> huff_code list" where
  "set_codes_loop next_code [] = []"
| "set_codes_loop next_code (h # table) =
    (let len = hc_length h
     in if len = 0 then h # set_codes_loop next_code table
        else
          let code = bit_reverse2 (ucast (next_code ! len)) len
          in write_huff_code code len
             # set_codes_loop (next_code[len := next_code ! len + 1]) table)"

text \<open>The table has \<open>table_length\<close> entries; the result is the return value and the table.\<close>

definition set_codes :: "huff_code list \<Rightarrow> u16 list \<Rightarrow> int \<times> huff_code list" where
  "set_codes huff_code_table count =
    (let next_code = map (next_code_at count) [0..<MAX_HUFF_TREE_DEPTH + 1];
         max = next_code ! MAX_HUFF_TREE_DEPTH + ucast (count ! MAX_HUFF_TREE_DEPTH)
     in if max > push_bit MAX_HUFF_TREE_DEPTH 1 then (ISAL_INVALID_BLOCK, huff_code_table)
        else (0, set_codes_loop next_code huff_code_table))"

text \<open>The tables of RFC 1951 on page 11.\<close>

definition dist_extra_bit_count :: "nat list" where
  "dist_extra_bit_count = [
    0x00, 0x00, 0x00, 0x00, 0x01, 0x01, 0x02, 0x02, 0x03, 0x03, 0x04,
    0x04, 0x05, 0x05, 0x06, 0x06, 0x07, 0x07, 0x08, 0x08, 0x09, 0x09,
    0x0a, 0x0a, 0x0b, 0x0b, 0x0c, 0x0c, 0x0d, 0x0d, 0x00, 0x00]"

definition dist_start :: "nat list" where
  "dist_start = [
    0x0001, 0x0002, 0x0003, 0x0004, 0x0005, 0x0007, 0x0009, 0x000d,
    0x0011, 0x0019, 0x0021, 0x0031, 0x0041, 0x0061, 0x0081, 0x00c1,
    0x0101, 0x0181, 0x0201, 0x0301, 0x0401, 0x0601, 0x0801, 0x0c01,
    0x1001, 0x1801, 0x2001, 0x3001, 0x4001, 0x6001, 0x0000, 0x0000]"

definition len_extra_bit_count :: "nat list" where
  "len_extra_bit_count = [
    0x00, 0x00, 0x00, 0x00, 0x00, 0x00, 0x00, 0x00, 0x01, 0x01, 0x01,
    0x01, 0x02, 0x02, 0x02, 0x02, 0x03, 0x03, 0x03, 0x03, 0x04, 0x04,
    0x04, 0x04, 0x05, 0x05, 0x05, 0x05, 0x00, 0x00, 0x00, 0x00]"

definition len_start :: "nat list" where
  "len_start = [
    0x0003, 0x0004, 0x0005, 0x0006, 0x0007, 0x0008, 0x0009, 0x000a,
    0x000b, 0x000d, 0x000f, 0x0011, 0x0013, 0x0017, 0x001b, 0x001f,
    0x0023, 0x002b, 0x0033, 0x003b, 0x0043, 0x0053, 0x0063, 0x0073,
    0x0083, 0x00a3, 0x00c3, 0x00e3, 0x0102, 0x0103, 0x0000, 0x0000]"

section \<open>Reversing bits\<close>

definition rev_bits :: "nat \<Rightarrow> nat \<Rightarrow> nat" where
  "rev_bits n k = horner_sum of_bool 2 (rev (map (bit k) [0..<n]))"

lemma bit_rev_bits [bit_simps]: "bit (rev_bits n k) i \<longleftrightarrow> i < n \<and> bit k (n - 1 - i)"
  by (auto simp: rev_bits_def bit_horner_sum_bit_iff rev_nth)

lemma rev_bits_less: "rev_bits n k < 2 ^ n"
  using horner_sum_of_bool_2_less [of "rev (map (bit k) [0..<n])"] by (simp add: rev_bits_def)

lemma rev_bits_rev_bits: "rev_bits n (rev_bits n k) = k mod 2 ^ n"
proof -
  have "rev_bits n (rev_bits n k) = take_bit n k"
    by (rule bit_eqI) (auto simp: bit_simps)
  then show ?thesis by (simp add: take_bit_eq_mod)
qed

lemma rev_bits_mod: "m \<le> n \<Longrightarrow> rev_bits n k mod 2 ^ m = rev_bits m (k div 2 ^ (n - m))"
proof -
  assume m: "m \<le> n"
  have "take_bit m (rev_bits n k) = rev_bits m (drop_bit (n - m) k)"
    using m by (intro bit_eqI) (auto simp: bit_simps)
  then show ?thesis by (simp add: take_bit_eq_mod drop_bit_eq_div)
qed

lemma rev_bits_inj: "a < 2 ^ n \<Longrightarrow> b < 2 ^ n \<Longrightarrow> rev_bits n a = rev_bits n b \<Longrightarrow> a = b"
  by (metis mod_less rev_bits_rev_bits)

definition rev8 :: "u8 \<Rightarrow> u8" where
  "rev8 b = of_nat (rev_bits 8 (unat b))"

lemma bit_rev8: "bit (rev8 b) i \<longleftrightarrow> i < 8 \<and> bit b (7 - i)"
  by (auto simp: rev8_def bit_simps)

lemma bitrev_table_span: "bitrev_table = xor_span [1, 2, 4, 8, 16, 32, 64, 128]"
  by (simp only: bitrev_table_def xor_span_eval num.case)

lemma rev8_xor: "rev8 (a XOR b) = rev8 a XOR rev8 b"
  by (rule bit_word_eqI) (auto simp: bit_rev8 bit_simps)

lemma rev8_power: "j < 8 \<Longrightarrow> rev8 (2 ^ j) = 2 ^ (7 - j)"
  by (rule bit_word_eqI) (auto simp: bit_rev8 bit_simps)

lemma bitrev_table_rev8: "bitrev_table ! unat b = rev8 b"
proof -
  have "map (\<lambda>j. rev8 (2 ^ j)) (rev [0..<8]) = map (\<lambda>j. 2 ^ (7 - j)) (rev [0..<8])"
    by (intro map_cong refl rev8_power) simp
  also have "\<dots> = [1, 2, 4, 8, 16, 32, 64, 128]" by (simp add: upt_rec)
  finally have m: "map (\<lambda>j. rev8 (2 ^ j)) (rev [0..<8]) = [1, 2, 4, 8, 16, 32, 64, 128]" .
  have "unat b < 2 ^ 8" using unsigned_less [of b] by simp
  from xor_span_nth [of rev8 8, OF rev8_xor _ this] show ?thesis
    unfolding m bitrev_table_span by simp
qed

lemma bit_bit_reverse2:
  assumes "len \<le> 16"
  shows "bit (bit_reverse2 c len) i \<longleftrightarrow> i < len \<and> bit c (len - 1 - i)"
proof -
  have ff: "(0xFF :: u16) = mask 8" by (simp add: mask_eq_exp_minus_1)
  have m: "unat (c AND 0xFF) = unat (ucast c :: u8)"
    unfolding ff by (rule bit_eqI) (auto simp: bit_simps bit_mask_iff)
  have h: "unat (drop_bit 8 c) = unat (ucast (drop_bit 8 c) :: u8)"
    by (rule bit_eqI) (auto simp: bit_simps dest: bit_imp_le_length)
  define k where "k = 16 - len + i"
  have b: "bit (bit_reverse2 c len) i
    \<longleftrightarrow> k < 8 \<and> bit c (8 + (7 - k)) \<or> 8 \<le> k \<and> k < 16 \<and> bit c (7 - (k - 8))"
    unfolding bit_reverse2_def Let_def m h bitrev_table_rev8 k_def
    by (auto simp: bit_simps bit_rev8 dest: bit_imp_le_length)
  show ?thesis
  proof (cases "k < 8")
    case True
    then have "8 + (7 - k) = len - 1 - i" "i < len" using assms unfolding k_def by linarith+
    with True show ?thesis by (simp add: b)
  next
    case False
    moreover have "7 - (k - 8) = len - 1 - i" if "i < len" using False that assms unfolding k_def by linarith
    moreover have "k < 16 \<longleftrightarrow> i < len" using assms unfolding k_def by linarith
    ultimately show ?thesis by (auto simp: b)
  qed
qed

lemma unat_bit_reverse2: "len \<le> 16 \<Longrightarrow> unat (bit_reverse2 c len) = rev_bits len (unat c)"
  by (rule bit_eqI) (auto simp: bit_simps bit_bit_reverse2 dest: bit_imp_le_length)

section \<open>The packed code\<close>

lemma hc_write [simp]:
  assumes "unat c < 2 ^ 24" "len < 256"
  shows "hc_length (write_huff_code c len) = len"
    and "hc_code (write_huff_code c len) = ucast c"
    and "hc_code_and_extra (write_huff_code c len) = c"
proof -
  have c: "bit c i \<Longrightarrow> i < 24" for i
  proof -
    assume "bit c i"
    then have "bit (take_bit 24 (unat c)) i"
      using assms(1) by (simp add: take_bit_nat_eq_self bit_unsigned_iff)
    then show ?thesis by (simp add: bit_take_bit_iff)
  qed
  have l: "bit len i \<Longrightarrow> i < 8" for i
    using assms(2) bit_take_bit_iff [of 8 len i] by (simp add: take_bit_nat_eq_self)
  show "hc_length (write_huff_code c len) = len"
    by (rule bit_eqI) (auto simp: hc_length_def write_huff_code_def bit_simps dest: c l)
  show "hc_code (write_huff_code c len) = ucast c"
    by (rule bit_word_eqI) (auto simp: hc_code_def write_huff_code_def bit_simps)
  have m: "(0xFFFFFF :: u32) = mask 24" by (simp add: mask_eq_exp_minus_1)
  show "hc_code_and_extra (write_huff_code c len) = c"
    unfolding hc_code_and_extra_def m
    by (rule bit_word_eqI) (auto simp: write_huff_code_def bit_simps bit_mask_iff dest: c)
qed

lemma hc_set_code [simp]:
  "hc_code (hc_set_code h c) = c" "hc_length (hc_set_code h c) = hc_length h"
proof -
  define mm :: u32 where "mm = 0xFFFF0000"
  have m: "bit mm i \<longleftrightarrow> 16 \<le> i \<and> i < 32" for i
  proof -
    have "mm = push_bit 16 (mask 16)" by (simp add: mm_def mask_eq_exp_minus_1)
    then show ?thesis by (auto simp: bit_simps)
  qed
  show "hc_code (hc_set_code h c) = c" unfolding hc_code_def hc_set_code_def mm_def [symmetric]
    by (rule bit_word_eqI) (auto simp: bit_simps m)
  show "hc_length (hc_set_code h c) = hc_length h"
    unfolding hc_length_def hc_set_code_def mm_def [symmetric]
    by (rule bit_eqI) (auto simp: bit_simps m dest: bit_imp_le_length)
qed

section \<open>What a code promises\<close>

text \<open>
  A code of \<open>n\<close> symbols as the decoder sees it: \<open>rc i\<close> is the code of symbol \<open>i\<close> with its first
  bit the least significant, \<open>len i\<close> its length, 0 for a symbol that is not used. No code is
  the beginning of another.
\<close>

definition code_match :: "(nat \<Rightarrow> nat) \<Rightarrow> (nat \<Rightarrow> nat) \<Rightarrow> nat \<Rightarrow> nat \<Rightarrow> bool" where
  "code_match len rc w i \<longleftrightarrow> 0 < len i \<and> w mod 2 ^ len i = rc i"

locale prefix_code =
  fixes n :: nat and len :: "nat \<Rightarrow> nat" and rc :: "nat \<Rightarrow> nat"
  assumes rc_less: "i < n \<Longrightarrow> rc i < 2 ^ len i"
    and prefix_free: "i < n \<Longrightarrow> j < n \<Longrightarrow> 0 < len i \<Longrightarrow> len i \<le> len j \<Longrightarrow> rc j mod 2 ^ len i = rc i \<Longrightarrow> i = j"
begin

lemma match_unique_le:
  assumes "len i \<le> len j" "i < n" "j < n" "code_match len rc w i" "code_match len rc w j"
  shows "i = j"
proof -
  have "(w mod 2 ^ len j) mod 2 ^ len i = w mod 2 ^ len i"
    using assms(1) by (simp add: le_imp_power_dvd mod_mod_cancel)
  then have "rc j mod 2 ^ len i = rc i" using assms by (simp add: code_match_def)
  then show ?thesis using assms prefix_free [of i j] by (simp add: code_match_def)
qed

lemma match_unique:
  assumes "i < n" "j < n" "code_match len rc w i" "code_match len rc w j"
  shows "i = j"
  using match_unique_le [of i j w] match_unique_le [of j i w] assms by (cases "len i \<le> len j") auto

end

text \<open>
  A canonical code: the codes are consecutive intervals of the \<open>M\<close>-bit numbers, in the order
  of the lengths and, among equal lengths, of the symbols; \<open>lo i\<close> is the left end.
\<close>

definition code_before :: "(nat \<Rightarrow> nat) \<Rightarrow> nat \<Rightarrow> nat \<Rightarrow> bool" where
  "code_before len i j \<longleftrightarrow> len i < len j \<or> len i = len j \<and> i < j"

definition stream_code :: "nat \<Rightarrow> (nat \<Rightarrow> nat) \<Rightarrow> (nat \<Rightarrow> nat) \<Rightarrow> nat \<Rightarrow> nat" where
  "stream_code M len lo i = rev_bits (len i) (lo i div 2 ^ (M - len i))"

locale canonical_code =
  fixes M n :: nat and len lo :: "nat \<Rightarrow> nat"
  assumes len_le: "i < n \<Longrightarrow> len i \<le> M"
    and lo_aligned: "i < n \<Longrightarrow> 0 < len i \<Longrightarrow> 2 ^ (M - len i) dvd lo i"
    and lo_end: "i < n \<Longrightarrow> 0 < len i \<Longrightarrow> lo i + 2 ^ (M - len i) \<le> 2 ^ M"
    and lo_order: "i < n \<Longrightarrow> j < n \<Longrightarrow> 0 < len i \<Longrightarrow> code_before len i j \<Longrightarrow> lo i + 2 ^ (M - len i) \<le> lo j"
begin

lemma stream_code_mod:
  assumes "i < n" "k \<le> len i"
  shows "stream_code M len lo i mod 2 ^ k = rev_bits k (lo i div 2 ^ (M - k))"
proof -
  have "stream_code M len lo i mod 2 ^ k = rev_bits k (lo i div 2 ^ (M - len i) div 2 ^ (len i - k))"
    unfolding stream_code_def using assms by (intro rev_bits_mod)
  also have "lo i div 2 ^ (M - len i) div 2 ^ (len i - k) = lo i div 2 ^ (M - k)"
    using assms len_le [of i] by (simp flip: div_mult2_eq power_add)
  finally show ?thesis .
qed

lemma lo_div_less: "i < n \<Longrightarrow> 0 < len i \<Longrightarrow> k \<le> M \<Longrightarrow> lo i div 2 ^ (M - k) < 2 ^ k"
proof -
  assume a: "i < n" "0 < len i" "k \<le> M"
  have "(0 :: nat) < 2 ^ (M - len i)" by simp
  then have "lo i < 2 ^ M" using lo_end [OF a(1,2)] by linarith
  moreover have "(2 :: nat) ^ M = 2 ^ k * 2 ^ (M - k)" using a(3) by (simp flip: power_add)
  ultimately show ?thesis by (simp add: div_less_iff_less_mult)
qed

text \<open>The first \<open>k\<close> bits of the longer codes are monotone along the order.\<close>

lemma prefix_mono:
  assumes "i < n" "j < n" "0 < len i" "code_before len i j"
  shows "lo i div 2 ^ (M - k) \<le> lo j div 2 ^ (M - k)"
  using lo_order [OF assms] by (intro div_le_mono) simp

end

sublocale canonical_code \<subseteq> prefix_code n len "stream_code M len lo"
proof
  show "stream_code M len lo i < 2 ^ len i" for i
    unfolding stream_code_def by (rule rev_bits_less)
next
  fix i j
  assume a: "i < n" "j < n" "0 < len i" "len i \<le> len j"
    and m: "stream_code M len lo j mod 2 ^ len i = stream_code M len lo i"
  have le: "len i \<le> M" using a len_le by simp
  have "rev_bits (len i) (lo j div 2 ^ (M - len i)) = rev_bits (len i) (lo i div 2 ^ (M - len i))"
    using m stream_code_mod [OF a(2,4)] by (simp add: stream_code_def)
  then have "lo j div 2 ^ (M - len i) = lo i div 2 ^ (M - len i)"
    by (rule rev_bits_inj [OF lo_div_less lo_div_less, rotated -1]) (use a le in auto)
  then have eq: "lo j div 2 ^ (M - len i) * 2 ^ (M - len i) = lo i"
    using lo_aligned [OF a(1,3)] by simp
  have ge: "lo i \<le> lo j" by (subst eq [symmetric]) simp
  have lt: "lo j < lo i + 2 ^ (M - len i)"
  proof -
    have "lo j mod 2 ^ (M - len i) < 2 ^ (M - len i)" by simp
    moreover have "lo j = lo i + lo j mod 2 ^ (M - len i)" using div_mult_mod_eq [of "lo j" "2 ^ (M - len i)"] eq by metis
    ultimately show ?thesis by linarith
  qed
  show "i = j"
  proof (rule ccontr)
    assume "i \<noteq> j"
    then consider "code_before len i j" | "code_before len j i"
      using a(4) unfolding code_before_def by linarith
    then show False
    proof cases
      case 1
      with lo_order [OF a(1,2,3)] lt show False by simp
    next
      case 2
      have "(0 :: nat) < 2 ^ (M - len j)" by simp
      with lo_order [OF a(2,1) _ 2] a(3,4) ge show False by linarith
    qed
  qed
qed

section \<open>The canonical code of a list of lengths\<close>

definition sym_count :: "nat list \<Rightarrow> nat \<Rightarrow> nat" where
  "sym_count lens l = length (filter (\<lambda>x. x = l) lens)"

fun canon_next :: "nat list \<Rightarrow> nat \<Rightarrow> nat" where
  "canon_next lens l = (if l < 2 then 0 else 2 * (canon_next lens (l - 1) + sym_count lens (l - 1)))"

declare canon_next.simps [simp del]

definition canon_code :: "nat list \<Rightarrow> nat \<Rightarrow> nat" where
  "canon_code lens i = canon_next lens (lens ! i) + sym_count (take i lens) (lens ! i)"

text \<open>The number of 15-bit strings that begin with a code.\<close>

definition canon_total :: "nat list \<Rightarrow> nat" where
  "canon_total lens = canon_next lens MAX_HUFF_TREE_DEPTH + sym_count lens MAX_HUFF_TREE_DEPTH"

definition canon_ok :: "nat list \<Rightarrow> bool" where
  "canon_ok lens \<longleftrightarrow> (\<forall>l \<in> set lens. l \<le> MAX_HUFF_TREE_DEPTH) \<and> canon_total lens \<le> 2 ^ MAX_HUFF_TREE_DEPTH"

definition canon_len :: "nat list \<Rightarrow> nat \<Rightarrow> nat" where
  "canon_len lens i = (if canon_ok lens \<and> i < length lens then lens ! i else 0)"

definition canon_lo :: "nat list \<Rightarrow> nat \<Rightarrow> nat" where
  "canon_lo lens i = canon_code lens i * 2 ^ (MAX_HUFF_TREE_DEPTH - lens ! i)"

lemma sym_count_append: "sym_count (xs @ ys) l = sym_count xs l + sym_count ys l"
  by (simp add: sym_count_def)

lemma sym_count_take_Suc:
  "i < length lens \<Longrightarrow> sym_count (take (Suc i) lens) l = sym_count (take i lens) l + (if lens ! i = l then 1 else 0)"
  by (simp add: take_Suc_conv_app_nth sym_count_append sym_count_def)

lemma sym_count_take_mono: "i \<le> j \<Longrightarrow> sym_count (take i lens) l \<le> sym_count (take j lens) l"
  by (metis le_add1 le_add_diff_inverse sym_count_append take_add)

lemma sym_count_rank_less:
  assumes "i < j" "i < length lens"
  shows "sym_count (take i lens) (lens ! i) < sym_count (take j lens) (lens ! i)"
  using sym_count_take_Suc [OF assms(2), of "lens ! i"] sym_count_take_mono [of "Suc i" j lens "lens ! i"] assms
  by simp

lemma sym_count_le: "sym_count lens l \<le> length lens"
  by (simp add: sym_count_def)

lemma canon_next_Suc: "1 \<le> l \<Longrightarrow> canon_next lens (Suc l) = 2 * (canon_next lens l + sym_count lens l)"
  by (subst canon_next.simps) simp

lemma canon_next_1: "l < 2 \<Longrightarrow> canon_next lens l = 0"
  by (subst canon_next.simps) simp

text \<open>Scaled to \<open>d\<close> bits, the first code of a length is the end of the codes of the length before.\<close>

lemma canon_start_mono:
  assumes "1 \<le> l" "l < m" "m \<le> d"
  shows "(canon_next lens l + sym_count lens l) * 2 ^ (d - l) \<le> canon_next lens m * 2 ^ (d - m)"
  using assms(2,3)
proof (induction m)
  case (Suc m)
  have step: "(canon_next lens m + sym_count lens m) * 2 ^ (d - m) = canon_next lens (Suc m) * 2 ^ (d - Suc m)"
    if "1 \<le> m"
  proof -
    have "(2 :: nat) ^ (d - m) = 2 * 2 ^ (d - Suc m)"
      using Suc.prems by (metis Suc_diff_Suc Suc_le_lessD power_Suc)
    with that show ?thesis by (simp add: canon_next_Suc)
  qed
  show ?case
  proof (cases "l = m")
    case True
    with step assms(1) show ?thesis by simp
  next
    case False
    then have "(canon_next lens l + sym_count lens l) * 2 ^ (d - l) \<le> canon_next lens m * 2 ^ (d - m)"
      using Suc by simp
    also have "\<dots> \<le> (canon_next lens m + sym_count lens m) * 2 ^ (d - m)" by simp
    also have "\<dots> = canon_next lens (Suc m) * 2 ^ (d - Suc m)" using step Suc.prems assms(1) by simp
    finally show ?thesis .
  qed
qed simp

lemma canon_lo_end_le:
  assumes "i < length lens"
  shows "canon_lo lens i + 2 ^ (MAX_HUFF_TREE_DEPTH - lens ! i)
    \<le> (canon_next lens (lens ! i) + sym_count lens (lens ! i)) * 2 ^ (MAX_HUFF_TREE_DEPTH - lens ! i)"
proof -
  have "canon_code lens i + 1 \<le> canon_next lens (lens ! i) + sym_count lens (lens ! i)"
    using sym_count_rank_less [of i "length lens" lens] assms by (simp add: canon_code_def)
  then have "(canon_code lens i + 1) * 2 ^ (MAX_HUFF_TREE_DEPTH - lens ! i)
    \<le> (canon_next lens (lens ! i) + sym_count lens (lens ! i)) * 2 ^ (MAX_HUFF_TREE_DEPTH - lens ! i)"
    by (rule mult_le_mono1)
  then show ?thesis by (simp add: canon_lo_def)
qed

lemma canon_lo_order:
  assumes "i < length lens" "j < length lens" "0 < lens ! i" "lens ! j \<le> MAX_HUFF_TREE_DEPTH"
    and "code_before ((!) lens) i j"
  shows "canon_lo lens i + 2 ^ (MAX_HUFF_TREE_DEPTH - lens ! i) \<le> canon_lo lens j"
proof (cases "lens ! i = lens ! j")
  case True
  then have "i < j" using assms by (simp add: code_before_def)
  then have "canon_code lens i + 1 \<le> canon_code lens j"
    using sym_count_rank_less [of i j lens] assms True by (simp add: canon_code_def)
  then have "(canon_code lens i + 1) * 2 ^ (MAX_HUFF_TREE_DEPTH - lens ! i) \<le> canon_code lens j * 2 ^ (MAX_HUFF_TREE_DEPTH - lens ! i)"
    by (rule mult_le_mono1)
  with True show ?thesis by (simp add: canon_lo_def)
next
  case False
  then have "lens ! i < lens ! j" using assms by (simp add: code_before_def)
  then have "(canon_next lens (lens ! i) + sym_count lens (lens ! i)) * 2 ^ (MAX_HUFF_TREE_DEPTH - lens ! i)
    \<le> canon_next lens (lens ! j) * 2 ^ (MAX_HUFF_TREE_DEPTH - lens ! j)"
    using assms by (intro canon_start_mono) auto
  also have "\<dots> \<le> canon_lo lens j" by (simp add: canon_lo_def canon_code_def)
  finally show ?thesis using canon_lo_end_le [OF assms(1)] by simp
qed

lemma canon_lo_end:
  assumes "i < length lens" "canon_ok lens" "0 < lens ! i"
  shows "canon_lo lens i + 2 ^ (MAX_HUFF_TREE_DEPTH - lens ! i) \<le> 2 ^ MAX_HUFF_TREE_DEPTH"
proof -
  have le: "lens ! i \<le> MAX_HUFF_TREE_DEPTH" using assms by (simp add: canon_ok_def)
  have "(canon_next lens (lens ! i) + sym_count lens (lens ! i)) * 2 ^ (MAX_HUFF_TREE_DEPTH - lens ! i)
    \<le> canon_total lens"
  proof (cases "lens ! i = MAX_HUFF_TREE_DEPTH")
    case True
    then show ?thesis by (simp add: canon_total_def)
  next
    case False
    then have "(canon_next lens (lens ! i) + sym_count lens (lens ! i)) * 2 ^ (MAX_HUFF_TREE_DEPTH - lens ! i)
      \<le> canon_next lens MAX_HUFF_TREE_DEPTH * 2 ^ (MAX_HUFF_TREE_DEPTH - MAX_HUFF_TREE_DEPTH)"
      using assms(3) le by (intro canon_start_mono) auto
    then show ?thesis by (simp add: canon_total_def)
  qed
  then show ?thesis using canon_lo_end_le [OF assms(1)] assms(2) by (simp add: canon_ok_def)
qed

interpretation canon: canonical_code MAX_HUFF_TREE_DEPTH "length lens" "canon_len lens" "canon_lo lens" for lens
proof
  fix i
  assume i: "i < length lens"
  then show "canon_len lens i \<le> MAX_HUFF_TREE_DEPTH" by (auto simp: canon_len_def canon_ok_def)
  assume "0 < canon_len lens i"
  then have ok: "canon_ok lens" "0 < lens ! i" "canon_len lens i = lens ! i"
    by (auto simp: canon_len_def split: if_splits)
  show "2 ^ (MAX_HUFF_TREE_DEPTH - canon_len lens i) dvd canon_lo lens i" by (simp add: canon_lo_def ok(3))
  show "canon_lo lens i + 2 ^ (MAX_HUFF_TREE_DEPTH - canon_len lens i) \<le> 2 ^ MAX_HUFF_TREE_DEPTH"
    using canon_lo_end [OF i ok(1,2)] by (simp add: ok(3))
next
  fix i j
  assume ij: "i < length lens" "j < length lens" "0 < canon_len lens i" and b: "code_before (canon_len lens) i j"
  then have ok: "canon_ok lens" "0 < lens ! i" "canon_len lens i = lens ! i" "canon_len lens j = lens ! j"
    by (auto simp: canon_len_def split: if_splits)
  then show "canon_lo lens i + 2 ^ (MAX_HUFF_TREE_DEPTH - canon_len lens i) \<le> canon_lo lens j"
    using canon_lo_order [OF ij(1,2) ok(2)] b ij by (auto simp: code_before_def canon_ok_def)
qed

section \<open>set_codes assigns the canonical code\<close>

text \<open>\<open>count\<close> is the histogram of the lengths, as the callers build it.\<close>

definition count_of :: "nat list \<Rightarrow> u16 list \<Rightarrow> bool" where
  "count_of lens count \<longleftrightarrow> length lens < 2 ^ 16 \<and> MAX_HUFF_TREE_DEPTH < length count
    \<and> (\<forall>l. 0 < l \<and> l \<le> MAX_HUFF_TREE_DEPTH \<longrightarrow> unat (count ! l) = sym_count lens l)"

lemma canon_next_le: "canon_next lens l \<le> length lens * (2 ^ l - 2)"
proof (induction l)
  case (Suc l)
  show ?case
  proof (cases "1 \<le> l")
    case True
    have "canon_next lens (Suc l) = 2 * (canon_next lens l + sym_count lens l)"
      using True by (rule canon_next_Suc)
    also have "\<dots> \<le> 2 * (length lens * (2 ^ l - 2) + length lens)"
      using Suc sym_count_le [of lens l] by simp
    also have "\<dots> = length lens * (2 * (2 ^ l - 2) + 2)" by (simp add: algebra_simps)
    also have "2 * (2 ^ l - 2) + 2 = (2 :: nat) ^ Suc l - 2"
    proof -
      have "(2 :: nat) \<le> 2 ^ l" using True by (metis numeral_le_iff power_increasing power_one_right one_le_numeral)
      then show ?thesis by simp
    qed
    finally show ?thesis .
  qed (simp add: canon_next_1)
qed (simp add: canon_next_1)

lemma canon_total_less:
  assumes "length lens < 2 ^ 16"
  shows "canon_total lens < 2 ^ 32"
proof -
  have "canon_total lens \<le> length lens * (2 ^ MAX_HUFF_TREE_DEPTH - 2) + length lens"
    unfolding canon_total_def using canon_next_le sym_count_le by (intro add_mono) auto
  also have "\<dots> \<le> length lens * 2 ^ MAX_HUFF_TREE_DEPTH" by (simp add: MAX_HUFF_TREE_DEPTH_def)
  also have "\<dots> < 2 ^ 32" using assms by (simp add: MAX_HUFF_TREE_DEPTH_def)
  finally show ?thesis .
qed

lemma ucast_count:
  assumes "count_of lens count" "0 < l" "l \<le> MAX_HUFF_TREE_DEPTH"
  shows "(ucast (count ! l) :: u32) = of_nat (sym_count lens l)"
  using assms by (metis count_of_def of_nat_unat)

lemma next_code_at_canon:
  assumes "count_of lens count" "l \<le> MAX_HUFF_TREE_DEPTH"
  shows "next_code_at count l = of_nat (canon_next lens l)"
  using assms(2)
proof (induction l)
  case (Suc l)
  show ?case
  proof (cases "1 \<le> l")
    case True
    then have "next_code_at count (Suc l) = push_bit 1 (next_code_at count l + ucast (count ! l))"
      by (subst next_code_at.simps) simp
    also have "\<dots> = of_nat (canon_next lens (Suc l))"
      using Suc True ucast_count [OF assms(1), of l] by (simp add: canon_next_Suc push_bit_eq_mult)
    finally show ?thesis .
  qed (simp add: canon_next_1 next_code_at.simps)
qed (simp add: canon_next_1 next_code_at.simps)

lemma length_set_codes_loop [simp]: "length (set_codes_loop nc hs) = length hs"
  by (induction hs arbitrary: nc) (simp_all add: Let_def)

lemma set_codes_loop_nth:
  assumes "i < length hs" "\<forall>h \<in> set hs. hc_length h < length nc"
  shows "set_codes_loop nc hs ! i = (if hc_length (hs ! i) = 0 then hs ! i else
    write_huff_code (bit_reverse2 (ucast (nc ! hc_length (hs ! i)
      + of_nat (sym_count (take i (map hc_length hs)) (hc_length (hs ! i))))) (hc_length (hs ! i)))
      (hc_length (hs ! i)))"
  using assms
proof (induction hs arbitrary: nc i)
  case (Cons h hs)
  then show ?case
    by (cases i) (auto simp: Let_def sym_count_def nth_list_update add_ac)
qed simp

lemma canon_code_less:
  assumes "i < length lens" "canon_ok lens" "0 < lens ! i"
  shows "canon_code lens i < 2 ^ (lens ! i)"
proof -
  have len: "canon_len lens i = lens ! i" "lens ! i \<le> MAX_HUFF_TREE_DEPTH"
    using assms by (auto simp: canon_len_def canon_ok_def)
  then show ?thesis
    using canon.lo_div_less [of i lens "lens ! i"] assms by (simp add: canon_lo_def)
qed

lemma set_codes_fst:
  assumes "count_of (map hc_length table) count" "\<forall>h \<in> set table. hc_length h \<le> MAX_HUFF_TREE_DEPTH"
  shows "fst (set_codes table count) = (if canon_ok (map hc_length table) then 0 else ISAL_INVALID_BLOCK)"
proof -
  let ?lens = "map hc_length table"
  have m: "map (next_code_at count) [0..<MAX_HUFF_TREE_DEPTH + 1] ! MAX_HUFF_TREE_DEPTH + ucast (count ! MAX_HUFF_TREE_DEPTH)
      = (of_nat (canon_total ?lens) :: u32)"
    using next_code_at_canon [OF assms(1)] ucast_count [OF assms(1)]
    by (simp add: canon_total_def MAX_HUFF_TREE_DEPTH_def del: upt_Suc)
  have u: "unat (of_nat (canon_total ?lens) :: u32) = canon_total ?lens"
    using canon_total_less [of ?lens] assms(1) by (intro unat_of_nat_lt) (auto simp: count_of_def)
  have "(push_bit MAX_HUFF_TREE_DEPTH 1 :: u32) < of_nat (canon_total ?lens) \<longleftrightarrow> \<not> canon_ok ?lens"
    using assms(2) unfolding word_less_nat_alt u by (auto simp: canon_ok_def MAX_HUFF_TREE_DEPTH_def)
  then show ?thesis unfolding set_codes_def Let_def m by simp
qed

lemma set_codes_snd:
  assumes "count_of (map hc_length table) count" "canon_ok (map hc_length table)" "i < length table"
  shows "hc_length (snd (set_codes table count) ! i) = hc_length (table ! i)"
    and "0 < hc_length (table ! i) \<Longrightarrow> unat (hc_code (snd (set_codes table count) ! i))
      = stream_code MAX_HUFF_TREE_DEPTH (canon_len (map hc_length table)) (canon_lo (map hc_length table)) i"
    and "length (snd (set_codes table count)) = length table"
proof -
  let ?lens = "map hc_length table" and ?nc = "map (next_code_at count) [0..<MAX_HUFF_TREE_DEPTH + 1]"
  have le: "\<forall>h \<in> set table. hc_length h \<le> MAX_HUFF_TREE_DEPTH" using assms(2) by (auto simp: canon_ok_def)
  have t: "snd (set_codes table count) = set_codes_loop ?nc table"
    using set_codes_fst [OF assms(1) le] assms(2)
    by (auto simp: set_codes_def Let_def ISAL_INVALID_BLOCK_def split: if_splits)
  show "length (snd (set_codes table count)) = length table" by (simp add: t)
  let ?l = "hc_length (table ! i)"
  have l: "?l \<le> MAX_HUFF_TREE_DEPTH" using le assms(3) by simp
  have pos: "hc_length (snd (set_codes table count) ! i) = ?l"
      "unat (hc_code (snd (set_codes table count) ! i)) = stream_code MAX_HUFF_TREE_DEPTH (canon_len ?lens) (canon_lo ?lens) i"
    if pos: "0 < ?l"
  proof -
    have "?nc ! ?l + of_nat (sym_count (take i ?lens) ?l) = (of_nat (canon_code ?lens i) :: u32)"
      using l next_code_at_canon [OF assms(1) l] assms(3) by (simp add: canon_code_def del: upt_Suc)
    then have e: "set_codes_loop ?nc table ! i
        = write_huff_code (bit_reverse2 (ucast (of_nat (canon_code ?lens i) :: u32)) ?l) ?l"
      using pos assms(3) le by (subst set_codes_loop_nth) (auto simp: less_Suc_eq_le)
    have c: "canon_code ?lens i < 2 ^ ?l" using canon_code_less [of i ?lens] assms pos by simp
    have "(2 :: nat) ^ ?l \<le> 2 ^ 15" using l by (intro power_increasing) (auto simp: MAX_HUFF_TREE_DEPTH_def)
    then have u: "unat (ucast (of_nat (canon_code ?lens i) :: u32) :: u16) = canon_code ?lens i"
      using c by (simp add: unsigned_ucast_eq unat_of_nat take_bit_nat_eq_self)
    have r: "unat (bit_reverse2 (ucast (of_nat (canon_code ?lens i) :: u32)) ?l) = rev_bits ?l (canon_code ?lens i)"
      using unat_bit_reverse2 [of ?l] l u by (simp add: MAX_HUFF_TREE_DEPTH_def)
    have r': "rev_bits ?l (canon_code ?lens i) < 2 ^ 15"
      using rev_bits_less [of ?l "canon_code ?lens i"] \<open>2 ^ ?l \<le> 2 ^ 15\<close> by linarith
    have w: "unat (bit_reverse2 (ucast (of_nat (canon_code ?lens i) :: u32)) ?l) < 2 ^ 24" "?l < 256"
      using r r' l by (auto simp: MAX_HUFF_TREE_DEPTH_def)
    show "hc_length (snd (set_codes table count) ! i) = ?l" unfolding t e by (rule hc_write [OF w])
    have "unat (hc_code (snd (set_codes table count) ! i)) = rev_bits ?l (canon_code ?lens i)"
      unfolding t e hc_write(2) [OF w] using r r' by (simp add: unsigned_ucast_eq take_bit_nat_eq_self)
    moreover have "canon_len ?lens i = ?l" using assms by (simp add: canon_len_def)
    ultimately show "unat (hc_code (snd (set_codes table count) ! i)) = stream_code MAX_HUFF_TREE_DEPTH (canon_len ?lens) (canon_lo ?lens) i"
      using assms(3) by (simp add: stream_code_def canon_lo_def)
  qed
  show "hc_length (snd (set_codes table count) ! i) = ?l"
    using pos(1) assms(3) le by (cases "0 < ?l") (simp_all add: t set_codes_loop_nth less_Suc_eq_le)
  show "unat (hc_code (snd (set_codes table count) ! i)) = stream_code MAX_HUFF_TREE_DEPTH (canon_len ?lens) (canon_lo ?lens) i"
    if "0 < ?l"
    using that by (rule pos(2))
qed

section \<open>The Kraft inequality\<close>

lemma canon_next_sum:
  "0 < l \<Longrightarrow> canon_next lens l = (\<Sum>k \<in> {0<..<l}. sym_count lens k * 2 ^ (l - k))"
proof (induction l)
  case (Suc l)
  show ?case
  proof (cases "l = 0")
    case False
    have s: "{0<..<Suc l} = insert l {0<..<l}" using False by auto
    have "(\<Sum>k \<in> {0<..<l}. sym_count lens k * 2 ^ (Suc l - k)) = 2 * (\<Sum>k \<in> {0<..<l}. sym_count lens k * 2 ^ (l - k))"
      unfolding sum_distrib_left by (intro sum.cong) (auto simp: Suc_diff_le)
    then show ?thesis using Suc False by (simp add: canon_next_Suc s)
  qed (simp add: canon_next_1)
qed simp

definition kraft_sum :: "nat list \<Rightarrow> nat" where
  "kraft_sum lens = (\<Sum>l \<leftarrow> filter ((<) 0) lens. 2 ^ (MAX_HUFF_TREE_DEPTH - l))"

lemma canon_total_kraft:
  assumes "\<forall>l \<in> set lens. l \<le> MAX_HUFF_TREE_DEPTH"
  shows "canon_total lens = kraft_sum lens"
proof -
  have t: "canon_total lens = (\<Sum>k \<in> {0<..MAX_HUFF_TREE_DEPTH}. sym_count lens k * 2 ^ (MAX_HUFF_TREE_DEPTH - k))"
  proof -
    have "{0<..MAX_HUFF_TREE_DEPTH} = insert MAX_HUFF_TREE_DEPTH {0<..<MAX_HUFF_TREE_DEPTH}"
      by (auto simp: MAX_HUFF_TREE_DEPTH_def)
    then show ?thesis by (simp add: canon_total_def canon_next_sum MAX_HUFF_TREE_DEPTH_def)
  qed
  have "(\<Sum>k \<in> {0<..MAX_HUFF_TREE_DEPTH}. sym_count xs k * 2 ^ (MAX_HUFF_TREE_DEPTH - k)) = kraft_sum xs"
    if "\<forall>l \<in> set xs. l \<le> MAX_HUFF_TREE_DEPTH" for xs
    using that
  proof (induction xs)
    case (Cons l xs)
    have "(\<Sum>k \<in> {0<..MAX_HUFF_TREE_DEPTH}. sym_count (l # xs) k * 2 ^ (MAX_HUFF_TREE_DEPTH - k))
      = (\<Sum>k \<in> {0<..MAX_HUFF_TREE_DEPTH}. (if k = l then 2 ^ (MAX_HUFF_TREE_DEPTH - k) else 0)
          + sym_count xs k * 2 ^ (MAX_HUFF_TREE_DEPTH - k))"
      by (intro sum.cong) (auto simp: sym_count_def)
    also have "\<dots> = (if 0 < l then 2 ^ (MAX_HUFF_TREE_DEPTH - l) else 0) + kraft_sum xs"
      using Cons by (simp add: sum.distrib)
    finally show ?case by (simp add: kraft_sum_def)
  qed (simp add: kraft_sum_def sym_count_def)
  then show ?thesis using assms by (simp add: t)
qed

text \<open>
  C22: \<open>set_codes\<close> accepts code lengths up to 15 exactly when they satisfy the Kraft inequality, and
  then the codes it writes, with the first bit least significant, fit their lengths and none is
  the beginning of another.
\<close>

theorem set_codes_prefix_free:
  assumes "count_of (map hc_length table) count" "\<forall>h \<in> set table. hc_length h \<le> MAX_HUFF_TREE_DEPTH"
    and "set_codes table count = (err, codes)"
  shows "err = (if kraft_sum (map hc_length table) \<le> 2 ^ MAX_HUFF_TREE_DEPTH then 0 else ISAL_INVALID_BLOCK)
    \<and> (err = 0 \<longrightarrow> map hc_length codes = map hc_length table
      \<and> (\<forall>i < length table. 0 < hc_length (table ! i) \<longrightarrow> unat (hc_code (codes ! i)) < 2 ^ hc_length (table ! i)
        \<and> (\<forall>j < length table. j \<noteq> i \<and> hc_length (table ! i) \<le> hc_length (table ! j)
            \<longrightarrow> unat (hc_code (codes ! j)) mod 2 ^ hc_length (table ! i) \<noteq> unat (hc_code (codes ! i)))))"
    (is "?e \<and> (_ \<longrightarrow> ?c)")
proof
  let ?lens = "map hc_length table"
  have ok: "canon_ok ?lens \<longleftrightarrow> kraft_sum ?lens \<le> 2 ^ MAX_HUFF_TREE_DEPTH"
    using canon_total_kraft [of ?lens] assms(2) by (simp add: canon_ok_def)
  show ?e using set_codes_fst [OF assms(1,2)] assms(3) by (simp add: ok)
  show "err = 0 \<longrightarrow> ?c"
  proof
    assume "err = 0"
    then have c: "canon_ok ?lens" using set_codes_fst [OF assms(1,2)] assms(3)
      by (simp add: ISAL_INVALID_BLOCK_def split: if_splits)
    note s = set_codes_snd [OF assms(1) c, unfolded assms(3) snd_conv]
    have len: "canon_len ?lens i = hc_length (table ! i)" if "i < length table" for i
      using that c by (simp add: canon_len_def)
    have l: "length codes = length table" using set_codes_snd(3) [OF assms(1) c] assms(3)
      by (cases table) (auto simp: set_codes_def Let_def split: if_splits)
    show ?c
    proof (intro conjI allI impI)
      show "map hc_length codes = ?lens" using s(1) l by (intro nth_equalityI) auto
      fix i assume i: "i < length table" "0 < hc_length (table ! i)"
      show "unat (hc_code (codes ! i)) < 2 ^ hc_length (table ! i)"
        using canon.rc_less [of i ?lens] i s(2) [OF i] len [OF i(1)] by simp
      fix j assume j: "j < length table" "j \<noteq> i \<and> hc_length (table ! i) \<le> hc_length (table ! j)"
      then have "0 < hc_length (table ! j)" using i by simp
      then show "unat (hc_code (codes ! j)) mod 2 ^ hc_length (table ! i) \<noteq> unat (hc_code (codes ! i))"
        using canon.prefix_free [of i ?lens j] i j s(2) [OF i] s(2) [OF j(1)] len by auto
    qed
  qed
qed

theorem set_codes_prefix_free_witness:
  "fst (set_codes (map (write_huff_code 0) [2, 1, 3, 3]) (0 # 1 # 1 # 2 # replicate 12 0)) = 0
    \<and> fst (set_codes (map (write_huff_code 0) [1, 1, 1]) (0 # 3 # replicate 14 0)) = ISAL_INVALID_BLOCK"
proof -
  have "count_of (map hc_length (map (write_huff_code 0) [2, 1, 3, 3])) (0 # 1 # 1 # 2 # replicate 12 0)"
    "count_of (map hc_length (map (write_huff_code 0) [1, 1, 1])) (0 # 3 # replicate 14 0)"
    by (auto simp: count_of_def MAX_HUFF_TREE_DEPTH_def sym_count_def nth_Cons')
  from set_codes_prefix_free [OF this(1) _ prod.collapse [symmetric]] set_codes_prefix_free [OF this(2) _ prod.collapse [symmetric]]
  show ?thesis by (simp add: kraft_sum_def MAX_HUFF_TREE_DEPTH_def)
qed
end
