(* ===== verification/Inflate_Lookup.thy ===== *)
theory Inflate_Lookup
  imports Inflate_State Huffman_Codes
begin

text \<open>
  The lookup tables with 10-bit short entries of \<open>igzip/igzip_inflate.c\<close>: their construction
  from a canonical code (\<open>make_inflate_huff_code_dist\<close>, \<open>make_inflate_huff_code_header\<close>) and
  the decoders that use them (\<open>decode_next_dist\<close>, \<open>decode_next_header\<close>). An access outside
  of an array is the value \<open>None\<close>. The two constructions are the same code with other
  entries, so they share their loops here: \<open>se\<close> and \<open>le\<close> give the short and the long entry of
  a symbol (\<open>None\<close> where the code skips it), \<open>later\<close> the update of \<open>max_length\<close>.
\<close>

section \<open>Construction\<close>

definition ISAL_DECODE_SHORT_BITS :: nat where "ISAL_DECODE_SHORT_BITS = 10"

definition INVALID_SYMBOL :: u16 where "INVALID_SYMBOL = 0x1FFF"

definition get_at :: "'a list \<Rightarrow> nat \<Rightarrow> 'a option" where
  "get_at xs i = (if i < length xs then Some (xs ! i) else None)"

definition memset0 :: "u16 list \<Rightarrow> nat \<Rightarrow> nat \<Rightarrow> u16 list option" where
  "memset0 xs off n = (if off + n \<le> length xs then Some (blit xs off (replicate n 0)) else None)"

text \<open>\<open>count_total\<close>: where the symbols of a length begin in \<open>code_list\<close>.\<close>

fun count_total_at :: "u16 list \<Rightarrow> nat \<Rightarrow> nat" where
  "count_total_at count i = (if i < 2 then 0 else count_total_at count (i - 1) + unat (count ! (i - 1)))"

declare count_total_at.simps [simp del]

definition code_list_step :: "huff_code list \<Rightarrow> nat list \<times> nat list \<Rightarrow> nat \<Rightarrow> nat list \<times> nat list" where
  "code_list_step table st i =
    (let (code_list, tmp) = st; code_length = hc_length (table ! i)
     in if code_length = 0 then (code_list, tmp)
        else (code_list[tmp ! code_length := i], tmp[code_length := tmp ! code_length + 1]))"

definition make_code_list :: "huff_code list \<Rightarrow> nat list \<Rightarrow> nat list" where
  "make_code_list table count_total =
    fst (foldl (code_list_step table) (replicate 32 0, count_total) [0..<length table])"

text \<open>The short table is the initialised beginning of \<open>short_code_lookup\<close>: \<open>memcpy\<close> of the first
  half behind it doubles the list, up to the 1024 entries.\<close>

definition short_set :: "(nat \<Rightarrow> nat \<Rightarrow> u16 option) \<Rightarrow> huff_code list \<Rightarrow> u16 list \<Rightarrow> nat \<Rightarrow> u16 list" where
  "short_set se table short i =
    (case se i (hc_length (table ! i)) of
       None \<Rightarrow> short
     | Some e \<Rightarrow> short[unat (hc_code (table ! i)) := e])"

function short_loop :: "(nat \<Rightarrow> nat \<Rightarrow> u16 option) \<Rightarrow> huff_code list \<Rightarrow> nat list \<Rightarrow> nat list \<Rightarrow>
    nat \<Rightarrow> u16 list \<Rightarrow> u16 list" where
  "short_loop se table code_list count_total last_length short =
    (if last_length \<le> ISAL_DECODE_SHORT_BITS then
       short_loop se table code_list count_total (last_length + 1)
         (foldl (short_set se table) (short @ short)
           (map ((!) code_list) [count_total ! last_length..<count_total ! (last_length + 1)]))
     else short)"
  by pat_completeness auto
termination
  by (relation "measure (\<lambda>(_, _, _, _, l, _). Suc ISAL_DECODE_SHORT_BITS - l)") auto

declare short_loop.simps [simp del]

text \<open>The positions \<open>long_bits\<close>, stepping by \<open>min_increment\<close>.\<close>

function strides :: "nat \<Rightarrow> nat \<Rightarrow> nat \<Rightarrow> nat list" where
  "strides b inc lim = (if b < lim \<and> 0 < inc then b # strides (b + inc) inc lim else [])"
  by pat_completeness auto
termination
  by (relation "measure (\<lambda>(b, inc, lim). lim - b)") auto

declare strides.simps [simp del]

definition long_set :: "(nat \<Rightarrow> nat \<Rightarrow> u16) \<Rightarrow> nat \<Rightarrow> nat \<Rightarrow> huff_code list \<times> u16 list \<Rightarrow> nat \<Rightarrow>
    huff_code list \<times> u16 list" where
  "long_set le off max_length st i =
    (let (table, long) = st; code_length = hc_length (table ! i);
         long_bits = unat (hc_code (table ! i)) div 2 ^ ISAL_DECODE_SHORT_BITS;
         min_increment = 2 ^ (code_length - ISAL_DECODE_SHORT_BITS);
         long = foldl (\<lambda>long b. long[off + b := le i code_length]) long
           (strides long_bits min_increment (2 ^ (max_length - ISAL_DECODE_SHORT_BITS)))
     in (table[i := hc_set_code (table ! i) 0xFFFF], long))"

fun long_loop :: "(nat \<Rightarrow> nat \<Rightarrow> nat) \<Rightarrow> (nat \<Rightarrow> nat \<Rightarrow> u16) \<Rightarrow> huff_code list \<Rightarrow> u16 list \<Rightarrow> u16 list \<Rightarrow>
    nat \<Rightarrow> nat list \<Rightarrow> inflate_huff_code_small option" where
  "long_loop later le table short long long_code_lookup_length [] =
    Some \<lparr>short_code_lookup = short, long_code_lookup = long\<rparr>"
| "long_loop later le table short long long_code_lookup_length (i # long_code_list) =
    (if hc_code (table ! i) = 0xFFFF
     then long_loop later le table short long long_code_lookup_length long_code_list
     else
       let first_bits = hc_code (table ! i) AND 0x3FF;
           others = filter (\<lambda>j. hc_code (table ! j) AND 0x3FF = first_bits) long_code_list;
           max_length = foldl (\<lambda>m j. later m (hc_length (table ! j))) (hc_length (table ! i)) others;
           size = 2 ^ (max_length - ISAL_DECODE_SHORT_BITS)
       in do {
         long \<leftarrow> memset0 long long_code_lookup_length size;
         let (table, long) = foldl (long_set le long_code_lookup_length max_length) (table, long) (i # others);
         let short = short[unat first_bits :=
           of_nat long_code_lookup_length OR push_bit 11 (of_nat max_length) OR 0x400];
         long_loop later le table short long (long_code_lookup_length + size) long_code_list
       })"

definition make_small :: "(nat \<Rightarrow> nat \<Rightarrow> nat) \<Rightarrow> (nat \<Rightarrow> nat \<Rightarrow> u16 option) \<Rightarrow> (nat \<Rightarrow> nat \<Rightarrow> u16) \<Rightarrow>
    inflate_huff_code_small \<Rightarrow> huff_code list \<Rightarrow> u16 list \<Rightarrow> inflate_huff_code_small option" where
  "make_small later se le result table count =
    (let count_total = map (count_total_at count) [0..<17];
         code_list_len = count_total ! 16
     in if code_list_len = 0 then Some (result\<lparr>short_code_lookup := replicate 1024 0\<rparr>)
        else
          let code_list = make_code_list table count_total;
              last_length = min (hc_length (table ! (code_list ! 0))) (ISAL_DECODE_SHORT_BITS + 1);
              short = short_loop se table code_list count_total last_length (replicate (2 ^ (last_length - 1)) 0)
          in long_loop later le table short (long_code_lookup result) 0
               (map ((!) code_list) [count_total ! (ISAL_DECODE_SHORT_BITS + 1)..<code_list_len]))"

definition dist_short_entry :: "nat \<Rightarrow> nat \<Rightarrow> nat \<Rightarrow> u16 option" where
  "dist_short_entry max_symbol i len =
    Some (if i \<ge> max_symbol then of_nat len
      else of_nat i OR push_bit 5 (of_nat (dist_extra_bit_count ! i)) OR push_bit 11 (of_nat len))"

definition dist_long_entry :: "nat \<Rightarrow> nat \<Rightarrow> nat \<Rightarrow> u16" where
  "dist_long_entry max_symbol i len =
    (if i \<ge> max_symbol then of_nat len
     else of_nat i OR push_bit 5 (of_nat (dist_extra_bit_count ! i)) OR push_bit 10 (of_nat len))"

definition header_short_entry :: "nat \<Rightarrow> nat \<Rightarrow> nat \<Rightarrow> u16 option" where
  "header_short_entry max_symbol i len =
    (if i \<ge> max_symbol then None else Some (of_nat i OR push_bit 11 (of_nat len)))"

definition header_long_entry :: "nat \<Rightarrow> nat \<Rightarrow> u16" where
  "header_long_entry i len = of_nat i OR push_bit 10 (of_nat len)"

definition make_inflate_huff_code_dist :: "inflate_huff_code_small \<Rightarrow> huff_code list \<Rightarrow> u16 list \<Rightarrow>
    nat \<Rightarrow> inflate_huff_code_small option" where
  "make_inflate_huff_code_dist result table count max_symbol =
    make_small (\<lambda>_ l. l) (dist_short_entry max_symbol) (dist_long_entry max_symbol) result table count"

definition make_inflate_huff_code_header :: "inflate_huff_code_small \<Rightarrow> huff_code list \<Rightarrow> u16 list \<Rightarrow>
    nat \<Rightarrow> inflate_huff_code_small option" where
  "make_inflate_huff_code_header result table count max_symbol =
    make_small (\<lambda>m l. if m < l then l else m) (header_short_entry max_symbol) header_long_entry result table count"

section \<open>Decoding\<close>

definition decode_next_dist :: "inflate_state \<Rightarrow> inflate_huff_code_small \<Rightarrow> (u16 \<times> inflate_state) option" where
  "decode_next_dist state huff_code =
    (let state = (if read_in_length state \<le> 15 then inflate_in_load state else state);
         next_bits = unat (read_in state AND 0x3FF)
     in do {
       next_sym \<leftarrow> get_at (short_code_lookup huff_code) next_bits;
       if next_sym AND 0x400 = 0 then do {
         let bit_count = unat (drop_bit 11 next_sym);
         let state = in_skip bit_count state;
         if bit_count = 0
         then Some (INVALID_SYMBOL AND 0x1F, state\<lparr>read_in_length := read_in_length state - int (unat next_sym)\<rparr>)
         else Some (next_sym AND 0x1F, state)
       } else do {
         let bit_mask = unat (drop_bit 11 (next_sym - 0x400));
         let next_bits = unat (read_in state AND (push_bit bit_mask 1 - 1));
         next_sym \<leftarrow> get_at (long_code_lookup huff_code) (unat (next_sym AND 0x1FF) + next_bits div 2 ^ ISAL_DECODE_SHORT_BITS);
         let bit_count = unat (drop_bit 10 next_sym);
         let state = in_skip bit_count state;
         if bit_count = 0
         then Some (INVALID_SYMBOL AND 0x1F, state\<lparr>read_in_length := read_in_length state - int (unat next_sym)\<rparr>)
         else Some (next_sym AND 0x1F, state)
       }
     })"

definition decode_next_header :: "inflate_state \<Rightarrow> inflate_huff_code_small \<Rightarrow> (u16 \<times> inflate_state) option" where
  "decode_next_header state huff_code =
    (let state = (if read_in_length state \<le> 15 then inflate_in_load state else state);
         next_bits = unat (read_in state AND 0x3FF)
     in do {
       next_sym \<leftarrow> get_at (short_code_lookup huff_code) next_bits;
       if next_sym AND 0x400 = 0 then do {
         let bit_count = unat (drop_bit 11 next_sym);
         let state = in_skip bit_count state;
         Some ((if bit_count = 0 then INVALID_SYMBOL else next_sym) AND 0x1FF, state)
       } else do {
         let bit_mask = unat (drop_bit 11 (next_sym - 0x400));
         let next_bits = unat (read_in state AND (push_bit bit_mask 1 - 1));
         next_sym \<leftarrow> get_at (long_code_lookup huff_code) (unat (next_sym AND 0x1FF) + next_bits div 2 ^ ISAL_DECODE_SHORT_BITS);
         let bit_count = unat (drop_bit 10 next_sym);
         Some (next_sym AND 0x1FF, in_skip bit_count state)
       }
     })"

section \<open>The list of symbols by length\<close>

text \<open>The table of a canonical code with at most 32 symbols, and its reversed codes.\<close>

abbreviation rcode :: "nat list \<Rightarrow> nat \<Rightarrow> nat" where
  "rcode lens \<equiv> stream_code MAX_HUFF_TREE_DEPTH (canon_len lens) (canon_lo lens)"

definition small_code :: "nat list \<Rightarrow> huff_code list \<Rightarrow> bool" where
  "small_code lens table \<longleftrightarrow> canon_ok lens \<and> length table = length lens \<and> length lens \<le> 32
    \<and> (\<forall>i < length lens. hc_length (table ! i) = lens ! i)
    \<and> (\<forall>i < length lens. 0 < lens ! i \<longrightarrow> unat (hc_code (table ! i)) = rcode lens i)"

lemma length_set_codes: "length (snd (set_codes table count)) = length table"
  by (simp add: set_codes_def Let_def)

lemma set_codes_small_code:
  assumes "count_of (map hc_length table) count" "length table \<le> 32" "set_codes table count = (0, table')"
    and "\<forall>h \<in> set table. hc_length h \<le> MAX_HUFF_TREE_DEPTH"
  shows "small_code (map hc_length table) table'"
proof -
  have ok: "canon_ok (map hc_length table)"
    using set_codes_fst [OF assms(1,4)] assms(3) by (simp add: ISAL_INVALID_BLOCK_def split: if_splits)
  show ?thesis
    using set_codes_snd(1,2) [OF assms(1) ok] length_set_codes [of table count] assms ok
    by (simp add: small_code_def)
qed

definition syms_of :: "nat list \<Rightarrow> nat \<Rightarrow> nat list" where
  "syms_of lens l = filter (\<lambda>i. lens ! i = l) [0..<length lens]"

lemma length_syms_of_take: "k \<le> length lens \<Longrightarrow> length (filter (\<lambda>i. lens ! i = l) [0..<k]) = sym_count (take k lens) l"
  by (induction k) (simp_all add: sym_count_take_Suc, simp add: sym_count_def)

lemma length_syms_of: "length (syms_of lens l) = sym_count lens l"
  using length_syms_of_take [of "length lens" lens l] by (simp add: syms_of_def)

lemma count_total_at_Suc:
  "count_of lens count \<Longrightarrow> 1 \<le> l \<Longrightarrow> l \<le> MAX_HUFF_TREE_DEPTH
    \<Longrightarrow> count_total_at count (Suc l) = count_total_at count l + sym_count lens l"
  by (subst count_total_at.simps) (simp add: count_of_def)

lemma count_total_at_1 [simp]: "count_total_at count 0 = 0" "count_total_at count (Suc 0) = 0"
  by (simp_all add: count_total_at.simps)

lemma count_total_at_mono:
  assumes "count_of lens count" "1 \<le> l" "l \<le> m" "m \<le> Suc MAX_HUFF_TREE_DEPTH"
  shows "count_total_at count l \<le> count_total_at count m"
  using assms(3,4)
proof (induction m)
  case (Suc m)
  then show ?case using count_total_at_Suc [OF assms(1), of m] assms(2) by (cases "l = Suc m") auto
qed (use assms in simp)

lemma count_total_at_filter:
  assumes "count_of lens count" "1 \<le> l" "l \<le> Suc MAX_HUFF_TREE_DEPTH"
  shows "count_total_at count l = length (filter (\<lambda>x. 0 < x \<and> x < l) lens)"
  using assms(2,3)
proof (induction l rule: nat_induct_at_least)
  case base
  have "filter (\<lambda>x. 0 < x \<and> x < (1 :: nat)) lens = []" by (auto simp: filter_empty_conv)
  then show ?case by simp
next
  case (Suc l)
  have "length (filter (\<lambda>x. 0 < x \<and> x < Suc l) lens) = length (filter (\<lambda>x. 0 < x \<and> x < l) lens) + sym_count lens l"
    using Suc(1) unfolding sym_count_def by (induction lens) auto
  with Suc count_total_at_Suc [OF assms(1), of l] show ?case by simp
qed

lemma count_total_le_length:
  assumes "count_of lens count" "l \<le> Suc MAX_HUFF_TREE_DEPTH"
  shows "count_total_at count l \<le> length lens"
  using count_total_at_filter [OF assms(1) _ assms(2)] by (cases "l = 0") simp_all

text \<open>The counting sort of \<open>make_code_list\<close>, after \<open>k\<close> symbols.\<close>

definition code_list_inv :: "nat list \<Rightarrow> u16 list \<Rightarrow> nat \<Rightarrow> nat list \<times> nat list \<Rightarrow> bool" where
  "code_list_inv lens count k st \<longleftrightarrow> length (fst st) = 32 \<and> length (snd st) = 17
    \<and> (\<forall>l. 0 < l \<and> l \<le> MAX_HUFF_TREE_DEPTH \<longrightarrow>
        snd st ! l = count_total_at count l + sym_count (take k lens) l
        \<and> map ((!) (fst st)) [count_total_at count l..<snd st ! l] = filter (\<lambda>i. lens ! i = l) [0..<k])"

lemma code_list_step_inv:
  assumes inv: "code_list_inv lens count k st" and k: "k < length lens" "length lens \<le> 32"
    and tab: "hc_length (table ! k) = lens ! k" and ok: "lens ! k \<le> MAX_HUFF_TREE_DEPTH"
    and count: "count_of lens count"
  shows "code_list_inv lens count (Suc k) (code_list_step table st k)"
proof (cases "lens ! k = 0")
  case True
  then have "code_list_step table st k = st"
    by (simp add: code_list_step_def tab case_prod_beta)
  with True inv k show ?thesis by (auto simp: code_list_inv_def sym_count_take_Suc)
next
  case False
  obtain cl tmp where st: "st = (cl, tmp)" by fastforce
  let ?l = "lens ! k"
  let ?p = "tmp ! ?l"
  have len: "length cl = 32" "length tmp = 17" using inv by (simp_all add: code_list_inv_def st)
  have tmp: "tmp ! m = count_total_at count m + sym_count (take k lens) m"
    and seg: "map ((!) cl) [count_total_at count m..<tmp ! m] = filter (\<lambda>i. lens ! i = m) [0..<k]"
    if "0 < m" "m \<le> MAX_HUFF_TREE_DEPTH" for m
    using inv that unfolding code_list_inv_def st fst_conv snd_conv by blast+
  have lt: "tmp ! m + (if m = ?l then 1 else 0) \<le> count_total_at count (Suc m)"
    if "0 < m" "m \<le> MAX_HUFF_TREE_DEPTH" for m
    using tmp [OF that] count_total_at_Suc [OF count, of m] that k
      sym_count_rank_less [of k "length lens" lens] sym_count_take_mono [of k "length lens" lens m] by auto
  have "count_total_at count (Suc ?l) \<le> 32"
    using count_total_le_length [OF count, of "Suc ?l"] ok k by simp
  then have p: "?p < 32" using lt [of ?l] False ok by simp
  have out: "?p < count_total_at count m \<or> tmp ! m \<le> ?p" if "0 < m" "m \<le> MAX_HUFF_TREE_DEPTH" "m \<noteq> ?l" for m
  proof (cases "m < ?l")
    case True
    then have "count_total_at count (Suc m) \<le> count_total_at count ?l"
      using count_total_at_mono [OF count, of "Suc m" ?l] ok by simp
    then show ?thesis using lt [OF that(1,2)] that(3) tmp [of ?l] False ok by simp
  next
    case f: False
    then have "count_total_at count (Suc ?l) \<le> count_total_at count m"
      using count_total_at_mono [OF count, of "Suc ?l" m] that by simp
    then show ?thesis using lt [of ?l] False ok by simp
  qed
  have "map ((!) (cl[?p := k])) [count_total_at count m..<(tmp[?l := ?p + 1]) ! m] = filter (\<lambda>i. lens ! i = m) [0..<Suc k]"
    if m: "0 < m" "m \<le> MAX_HUFF_TREE_DEPTH" for m
  proof (cases "m = ?l")
    case True
    define q where "q = ?p"
    have l: "?l < 17" "0 < ?l" "?l \<le> MAX_HUFF_TREE_DEPTH" using True m by (simp_all add: MAX_HUFF_TREE_DEPTH_def)
    have "map ((!) (cl[q := k])) [count_total_at count ?l..<q] = map ((!) cl) [count_total_at count ?l..<q]"
      by (intro map_cong refl) auto
    moreover have "[count_total_at count ?l..<q + 1] = [count_total_at count ?l..<q] @ [q]"
      using tmp [OF l(2,3)] by (simp add: q_def)
    moreover have "(cl[q := k]) ! q = k" using p len by (simp add: q_def)
    moreover have "map ((!) cl) [count_total_at count ?l..<q] = filter (\<lambda>i. lens ! i = ?l) [0..<k]"
      using seg [OF l(2,3)] by (simp add: q_def)
    moreover have "(tmp[?l := q + 1]) ! ?l = q + 1" using l len by simp
    ultimately show ?thesis unfolding True q_def [symmetric] by simp
  next
    case False
    have "map ((!) (cl[?p := k])) [count_total_at count m..<tmp ! m] = map ((!) cl) [count_total_at count m..<tmp ! m]"
      using out [OF m False] by (intro map_cong refl) (auto simp: nth_list_update)
    then show ?thesis using False seg [OF m] by simp
  qed
  moreover have "(tmp[?l := ?p + 1]) ! m = count_total_at count m + sym_count (take (Suc k) lens) m"
    if m: "0 < m" "m \<le> MAX_HUFF_TREE_DEPTH" for m
    using tmp [OF m] m k len ok by (auto simp: sym_count_take_Suc nth_list_update MAX_HUFF_TREE_DEPTH_def)
  moreover have "code_list_step table st k = (cl[?p := k], tmp[?l := ?p + 1])"
    using False by (simp add: code_list_step_def st tab Let_def)
  ultimately show ?thesis using len by (simp add: code_list_inv_def)
qed

lemma make_code_list_seg:
  assumes "small_code lens table" "count_of lens count" "0 < l" "l \<le> MAX_HUFF_TREE_DEPTH"
  shows "map ((!) (make_code_list table (map (count_total_at count) [0..<17])))
      [count_total_at count l..<count_total_at count (Suc l)] = syms_of lens l"
proof -
  let ?st0 = "(replicate 32 0, map (count_total_at count) [0..<17])"
  have "code_list_inv lens count k (foldl (code_list_step table) ?st0 [0..<k])" if "k \<le> length lens" for k
    using that
  proof (induction k)
    case 0
    then show ?case by (simp add: code_list_inv_def sym_count_def MAX_HUFF_TREE_DEPTH_def del: upt_Suc)
  next
    case (Suc k)
    then show ?case
      using assms(1,2) by (auto simp: small_code_def canon_ok_def intro!: code_list_step_inv)
  qed
  from this [of "length lens"] have "code_list_inv lens count (length lens)
      (foldl (code_list_step table) ?st0 [0..<length table])"
    using assms(1) by (simp add: small_code_def)
  then show ?thesis
    using assms(3,4) count_total_at_Suc [OF assms(2), of l]
    by (auto simp: make_code_list_def code_list_inv_def syms_of_def)
qed

text \<open>The first symbol of the list has the shortest code.\<close>

lemma make_code_list_first_sym:
  assumes "small_code lens table" "count_of lens count" "0 < count_total_at count 16"
  defines "m \<equiv> LEAST x. x \<in> set lens \<and> 0 < x"
  shows "m \<in> set lens" "0 < m" "x \<in> set lens \<Longrightarrow> 0 < x \<Longrightarrow> m \<le> x"
    "make_code_list table (map (count_total_at count) [0..<17]) ! 0 \<in> set (syms_of lens m)"
proof -
  have le: "x \<le> MAX_HUFF_TREE_DEPTH" if "x \<in> set lens" for x using assms(1) that by (simp add: small_code_def canon_ok_def)
  have "filter (\<lambda>x. 0 < x \<and> x < 16) lens \<noteq> []"
    using count_total_at_filter [OF assms(2), of 16] assms(3) by (auto simp: MAX_HUFF_TREE_DEPTH_def)
  then have ex: "\<exists>x. x \<in> set lens \<and> 0 < x" by (auto simp: filter_empty_conv)
  show m: "m \<in> set lens" "0 < m" using LeastI_ex [OF ex] by (simp_all add: m_def)
  show min: "m \<le> x" if "x \<in> set lens" "0 < x" for x using that by (auto simp: m_def intro: Least_le)
  have mle: "m \<le> MAX_HUFF_TREE_DEPTH" using le m by simp
  have "filter (\<lambda>x. 0 < x \<and> x < m) lens = []" using min by (fastforce simp: filter_empty_conv)
  then have z: "count_total_at count m = 0"
    using count_total_at_filter [OF assms(2), of m] m mle by simp
  have "0 < sym_count lens m" using m by (auto simp: sym_count_def filter_empty_conv)
  then have pos: "0 < count_total_at count (Suc m)"
    using count_total_at_Suc [OF assms(2), of m] m mle by simp
  have "map ((!) (make_code_list table (map (count_total_at count) [0..<17]))) [0..<count_total_at count (Suc m)] = syms_of lens m"
    using make_code_list_seg [OF assms(1,2) m(2) mle] z by simp
  then show "make_code_list table (map (count_total_at count) [0..<17]) ! 0 \<in> set (syms_of lens m)"
    using pos by (metis (no_types, lifting) atLeast0LessThan image_eqI lessThan_iff list.set_map set_upt)
qed

lemma make_code_list_first:
  assumes "small_code lens table" "count_of lens count" "0 < count_total_at count 16"
  defines "l \<equiv> lens ! (make_code_list table (map (count_total_at count) [0..<17]) ! 0)"
  shows "0 < l" "i < length lens \<Longrightarrow> 0 < lens ! i \<Longrightarrow> l \<le> lens ! i"
  using make_code_list_first_sym [OF assms(1-3)] by (simp_all add: l_def syms_of_def)

lemma make_code_list_first_index:
  assumes "small_code lens table" "count_of lens count" "0 < count_total_at count 16"
  shows "make_code_list table (map (count_total_at count) [0..<17]) ! 0 < length lens"
  using make_code_list_first_sym [OF assms] by (simp add: syms_of_def)

section \<open>The short table\<close>

abbreviation cmatch :: "nat list \<Rightarrow> nat \<Rightarrow> nat \<Rightarrow> bool" where
  "cmatch lens w i \<equiv> i < length lens \<and> code_match (canon_len lens) (rcode lens) w i"

lemma small_code_len: "small_code lens table \<Longrightarrow> i < length lens \<Longrightarrow> canon_len lens i = lens ! i"
  by (simp add: small_code_def canon_len_def)

lemma cmatch_iff:
  "small_code lens table \<Longrightarrow> cmatch lens w i \<longleftrightarrow> i < length lens \<and> 0 < lens ! i \<and> w mod 2 ^ (lens ! i) = rcode lens i"
  using small_code_len by (auto simp: code_match_def)

lemma cmatch_mod:
  assumes "small_code lens table" "lens ! i \<le> k"
  shows "cmatch lens (w mod 2 ^ k) i \<longleftrightarrow> cmatch lens w i"
  using assms by (simp add: cmatch_iff [OF assms(1)] mod_mod_cancel le_imp_power_dvd)

lemma cmatch_unique: "cmatch lens w i \<Longrightarrow> cmatch lens w j \<Longrightarrow> i = j"
  by (meson canon.match_unique)

lemma rcode_less: "small_code lens table \<Longrightarrow> i < length lens \<Longrightarrow> rcode lens i < 2 ^ (lens ! i)"
  using canon.rc_less [of i lens] by (simp add: small_code_len)

lemma cmatch_full:
  assumes "small_code lens table" "w < 2 ^ k" "i < length lens" "lens ! i = k" "0 < k"
  shows "cmatch lens w i \<longleftrightarrow> w = rcode lens i"
  unfolding cmatch_iff [OF assms(1)] using assms by simp

definition entry_or_0 :: "u16 option \<Rightarrow> u16" where
  "entry_or_0 e = (case e of None \<Rightarrow> 0 | Some x \<Rightarrow> x)"

definition short_inv :: "nat list \<Rightarrow> (nat \<Rightarrow> nat \<Rightarrow> u16 option) \<Rightarrow> nat \<Rightarrow> u16 list \<Rightarrow> bool" where
  "short_inv lens se k short \<longleftrightarrow> length short = 2 ^ k
    \<and> (\<forall>w < 2 ^ k. (\<forall>i. cmatch lens w i \<and> lens ! i \<le> k \<longrightarrow> short ! w = entry_or_0 (se i (lens ! i)))
      \<and> ((\<forall>i. cmatch lens w i \<longrightarrow> k < lens ! i) \<longrightarrow> short ! w = 0))"

lemma length_foldl_short_set [simp]: "length (foldl (short_set se table) xs is) = length xs"
  by (induction "is" arbitrary: xs) (simp_all add: short_set_def split: option.split)

lemma foldl_short_set_other:
  "w \<notin> (\<lambda>i. unat (hc_code (table ! i))) ` set is \<Longrightarrow> foldl (short_set se table) xs is ! w = xs ! w"
  by (induction "is" arbitrary: xs) (auto simp: short_set_def split: option.split)

lemma foldl_short_set_same:
  assumes "i \<in> set is" "distinct is" "inj_on (\<lambda>i. unat (hc_code (table ! i))) (set is)"
    "unat (hc_code (table ! i)) < length xs" "xs ! unat (hc_code (table ! i)) = 0"
  shows "foldl (short_set se table) xs is ! unat (hc_code (table ! i)) = entry_or_0 (se i (hc_length (table ! i)))"
  using assms
proof (induction "is" arbitrary: xs)
  case (Cons j "is")
  show ?case
  proof (cases "i = j")
    case True
    then have "unat (hc_code (table ! i)) \<notin> (\<lambda>i. unat (hc_code (table ! i))) ` set is"
      using Cons.prems by (auto dest: inj_onD)
    then have "foldl (short_set se table) xs (j # is) ! unat (hc_code (table ! i))
        = short_set se table xs j ! unat (hc_code (table ! i))"
      by (simp add: foldl_short_set_other)
    also have "\<dots> = entry_or_0 (se i (hc_length (table ! i)))"
      using True Cons.prems by (simp add: short_set_def entry_or_0_def split: option.split)
    finally show ?thesis .
  next
    case False
    then have "unat (hc_code (table ! j)) \<noteq> unat (hc_code (table ! i))"
      using Cons.prems by (auto dest: inj_onD)
    then have "short_set se table xs j ! unat (hc_code (table ! i)) = 0"
      "length (short_set se table xs j) = length xs"
      using Cons.prems by (simp_all add: short_set_def split: option.split)
    then show ?thesis using Cons False by simp
  qed
qed simp

lemma short_inv_step:
  assumes sc: "small_code lens table" and inv: "short_inv lens se k short" and k: "k < MAX_HUFF_TREE_DEPTH"
  shows "short_inv lens se (Suc k) (foldl (short_set se table) (short @ short) (syms_of lens (Suc k)))"
proof -
  let ?is = "syms_of lens (Suc k)"
  let ?r = "foldl (short_set se table) (short @ short) ?is"
  have len: "length short = 2 ^ k" using inv by (simp add: short_inv_def)
  have set_is: "i \<in> set ?is \<longleftrightarrow> i < length lens \<and> lens ! i = Suc k" for i by (auto simp: syms_of_def)
  have code: "unat (hc_code (table ! i)) = rcode lens i" "hc_length (table ! i) = lens ! i" if "i \<in> set ?is" for i
    using sc that by (simp_all add: small_code_def set_is)
  have inj: "inj_on (\<lambda>i. unat (hc_code (table ! i))) (set ?is)"
  proof (rule inj_onI)
    fix i j assume i: "i \<in> set ?is" and j: "j \<in> set ?is" and e: "unat (hc_code (table ! i)) = unat (hc_code (table ! j))"
    have "rcode lens i < 2 ^ Suc k" using rcode_less [OF sc, of i] i by (simp add: set_is)
    then have "cmatch lens (rcode lens i) i" "cmatch lens (rcode lens i) j"
      using cmatch_full [OF sc, of "rcode lens i" "Suc k"] i j e code by (auto simp: set_is)
    then show "i = j" by (rule cmatch_unique)
  qed
  have dbl: "(short @ short) ! w = short ! (w mod 2 ^ k)" if "w < 2 ^ Suc k" for w
  proof (cases "w < 2 ^ k")
    case False
    then have "w mod 2 ^ k = w - 2 ^ k" using that by (simp add: mod_if)
    with False show ?thesis by (simp add: nth_append len)
  qed (simp add: nth_append len)
  have old0: "(short @ short) ! w = 0" if w: "w < 2 ^ Suc k" "\<And>i. cmatch lens w i \<Longrightarrow> k < lens ! i" for w
  proof -
    have "k < lens ! i" if "cmatch lens (w mod 2 ^ k) i" for i
      using that cmatch_mod [OF sc, of i k w] w(2) [of i] by (cases "lens ! i \<le> k") auto
    moreover have "w mod 2 ^ k < 2 ^ k" by simp
    ultimately have "short ! (w mod 2 ^ k) = 0" using inv unfolding short_inv_def by blast
    then show ?thesis using dbl [OF w(1)] by simp
  qed
  have "?r ! w = entry_or_0 (se i (lens ! i))" if w: "w < 2 ^ Suc k" "cmatch lens w i" "lens ! i \<le> Suc k" for w i
  proof (cases "lens ! i = Suc k")
    case True
    then have i: "i \<in> set ?is" using w by (simp add: set_is)
    have e: "w = unat (hc_code (table ! i))" using cmatch_full [OF sc w(1) _ True] w(2) code(1) [OF i] by simp
    have "k < lens ! j" if "cmatch lens w j" for j using cmatch_unique [OF w(2) that] True by simp
    then have "(short @ short) ! w = 0" by (rule old0 [OF w(1)])
    then show ?thesis
      using foldl_short_set_same [OF i _ inj, of "short @ short" se] w(1) code [OF i]
      by (simp add: e len syms_of_def)
  next
    case False
    then have le: "lens ! i \<le> k" using w by simp
    have "w \<notin> (\<lambda>i. unat (hc_code (table ! i))) ` set ?is"
    proof
      assume "w \<in> (\<lambda>i. unat (hc_code (table ! i))) ` set ?is"
      then obtain j where j: "j \<in> set ?is" "w = rcode lens j" using code by auto
      then have "cmatch lens w j" using cmatch_full [OF sc w(1), of j] by (simp add: set_is)
      then show False using cmatch_unique [OF w(2)] j le by (auto simp: set_is)
    qed
    then have "?r ! w = short ! (w mod 2 ^ k)" using dbl [OF w(1)] by (simp add: foldl_short_set_other)
    moreover have "cmatch lens (w mod 2 ^ k) i" using cmatch_mod [OF sc le] w by simp
    moreover have "w mod 2 ^ k < 2 ^ k" by simp
    ultimately show ?thesis using inv le unfolding short_inv_def by metis
  qed
  moreover have "?r ! w = 0" if w: "w < 2 ^ Suc k" "\<And>i. cmatch lens w i \<Longrightarrow> Suc k < lens ! i" for w
  proof -
    have "w \<notin> (\<lambda>i. unat (hc_code (table ! i))) ` set ?is"
      using cmatch_full [OF sc w(1)] w(2) code by (fastforce simp: set_is)
    moreover have "(short @ short) ! w = 0" using w(2) by (intro old0 [OF w(1)]) fastforce
    ultimately show ?thesis by (simp add: foldl_short_set_other)
  qed
  ultimately show ?thesis using len by (simp add: short_inv_def)
qed

lemma short_loop_inv:
  assumes sc: "small_code lens table" and count: "count_of lens count"
    and cl: "cl = make_code_list table (map (count_total_at count) [0..<17])"
    and inv: "short_inv lens se k short" and k: "k \<le> ISAL_DECODE_SHORT_BITS"
  shows "short_inv lens se ISAL_DECODE_SHORT_BITS
    (short_loop se table cl (map (count_total_at count) [0..<17]) (Suc k) short)"
  using inv k
proof (induction "ISAL_DECODE_SHORT_BITS - k" arbitrary: k short)
  case 0
  then show ?case by (subst short_loop.simps) (simp add: ISAL_DECODE_SHORT_BITS_def)
next
  case (Suc d)
  have lt: "Suc k \<le> ISAL_DECODE_SHORT_BITS" using Suc.hyps by simp
  have "map ((!) cl) [map (count_total_at count) [0..<17] ! Suc k..<map (count_total_at count) [0..<17] ! (Suc k + 1)]
      = syms_of lens (Suc k)"
    using make_code_list_seg [OF sc count, of "Suc k"] lt
    by (simp add: cl ISAL_DECODE_SHORT_BITS_def MAX_HUFF_TREE_DEPTH_def del: upt_Suc)
  then have "short_loop se table cl (map (count_total_at count) [0..<17]) (Suc k) short
    = short_loop se table cl (map (count_total_at count) [0..<17]) (Suc (Suc k))
        (foldl (short_set se table) (short @ short) (syms_of lens (Suc k)))"
    using lt by (subst short_loop.simps) (simp del: upt_Suc)
  moreover have "short_inv lens se (Suc k) (foldl (short_set se table) (short @ short) (syms_of lens (Suc k)))"
    using Suc.prems lt by (intro short_inv_step sc) (simp_all add: ISAL_DECODE_SHORT_BITS_def MAX_HUFF_TREE_DEPTH_def)
  ultimately show ?case using Suc.hyps lt by simp
qed

end
