(* ===== verification/Inflate_Lookup_Correct.thy ===== *)
theory Inflate_Lookup_Correct
  imports Inflate_Lookup
begin

text \<open>
  The lookup tables built by \<open>make_small\<close> answer for every bit string which code it begins
  with: the long table and the two-step lookup.
\<close>

section \<open>The words of the tables\<close>

lemma hint_word:
  assumes "off < 512" "m < 32"
  defines "e \<equiv> of_nat off OR push_bit 11 (of_nat m) OR 0x400 :: u16"
  shows "e AND 0x400 \<noteq> 0" "unat (e AND 0x1FF) = off" "unat (drop_bit 11 (e - 0x400)) = m"
proof -
  have b10: "bit (0x400 :: u16) n \<longleftrightarrow> n = 10" for n
  proof -
    have "(0x400 :: u16) = push_bit 10 1" by simp
    then show ?thesis by (simp only: bit_push_bit_iff) (auto simp: bit_simps)
  qed
  have boff: "bit off n \<Longrightarrow> n < 9" for n
    using assms(1) bit_take_bit_iff [of 9 off n] by (simp add: take_bit_nat_eq_self)
  have bm: "bit m n \<Longrightarrow> n < 5" for n
    using assms(2) bit_take_bit_iff [of 5 m n] by (simp add: take_bit_nat_eq_self)
  define d :: u16 where "d = of_nat off OR push_bit 11 (of_nat m)"
  define c :: u16 where "c = 0x400"
  have c: "bit c n \<longleftrightarrow> n = 10" for n unfolding c_def by (rule b10)
  have d: "bit d n \<longleftrightarrow> n < 16 \<and> (bit off n \<or> 11 \<le> n \<and> bit m (n - 11))" for n
    by (auto simp: d_def bit_simps)
  have e: "e = d OR c" by (simp add: e_def d_def c_def or.assoc)
  have "bit (e AND c) 10" by (simp add: e bit_simps c)
  then have ne: "e AND c \<noteq> 0" by (metis bit_0_eq bot_apply bot_bool_def)
  show "e AND 0x400 \<noteq> 0" by (rule ne [unfolded c_def])
  have m9: "(0x1FF :: u16) = mask 9" by (simp add: mask_eq_exp_minus_1)
  show "unat (e AND 0x1FF) = off"
    unfolding m9 by (rule bit_eqI) (auto simp: bit_simps bit_mask_iff e c d dest: boff)
  have "d AND c = 0" by (rule bit_word_eqI) (auto simp: bit_simps c d dest: boff)
  then have "d + c = d OR c" by (rule disjunctive_add_eq_or)
  then have "e - c = d" unfolding e by (metis add_diff_cancel_right')
  then have "e - 0x400 = d" by (simp only: c_def)
  then show "unat (drop_bit 11 (e - 0x400)) = m"
    by (intro bit_eqI) (auto simp: bit_simps d dest: boff bm)
qed

section \<open>Strides\<close>

lemma set_strides:
  assumes "0 < inc"
  shows "set (strides b inc lim) = {x. b \<le> x \<and> x < lim \<and> inc dvd x - b}"
  using assms
proof (induction b inc lim rule: strides.induct)
  case (1 b inc lim)
  show ?case
  proof (cases "b < lim")
    case True
    have "x = b \<or> b + inc \<le> x \<and> inc dvd x - (b + inc)" if "b \<le> x" "inc dvd x - b" for x
    proof (cases "x = b")
      case False
      with that have "0 < x - b" by simp
      with that(2) have "inc \<le> x - b" by (rule dvd_imp_le)
      moreover have "inc dvd x - (b + inc)" using that(2) by (metis dvd_diff_nat dvd_refl diff_diff_left)
      ultimately show ?thesis using that False by auto
    qed simp
    moreover have "inc dvd x - b" if "b + inc \<le> x" "inc dvd x - (b + inc)" for x
      using that by (metis diff_diff_left dvd_minus_self le_diff_conv2 add_leD1 add.commute linorder_not_less)
    ultimately show ?thesis
      using 1 True by (subst strides.simps) auto
  qed (auto simp: strides.simps)
qed

lemma stride_iff:
  assumes "b < inc"
  shows "x \<in> set (strides b inc lim) \<longleftrightarrow> x < lim \<and> x mod inc = b"
proof -
  have "b \<le> x \<and> inc dvd x - b \<longleftrightarrow> x mod inc = b"
  proof
    assume "b \<le> x \<and> inc dvd x - b"
    then have "x mod inc = b mod inc" by (metis mod_eq_dvd_iff_nat)
    with assms show "x mod inc = b" by simp
  next
    assume "x mod inc = b"
    then show "b \<le> x \<and> inc dvd x - b" by (metis dvd_minus_mod mod_less_eq_dividend)
  qed
  with assms show ?thesis by (auto simp: set_strides)
qed

lemma length_foldl_put [simp]: "length (foldl (\<lambda>l b. l[off + b := e]) xs bs) = length xs"
  by (induction bs arbitrary: xs) simp_all

lemma foldl_put:
  "k < length xs \<Longrightarrow> foldl (\<lambda>l b. l[off + b := e]) xs bs ! k = (if off \<le> k \<and> k - off \<in> set bs then e else xs ! k)"
  by (induction bs arbitrary: xs) (auto simp: nth_list_update)

section \<open>The symbols with long codes\<close>

definition long_syms :: "nat list \<Rightarrow> nat list" where
  "long_syms lens = concat (map (syms_of lens) [11..<16])"

lemma upt_11_16: "[11..<16] = [11, 12, 13, 14, 15 :: nat]"
  by (simp add: upt_rec)

lemma set_long_syms:
  "small_code lens table \<Longrightarrow> i \<in> set (long_syms lens) \<longleftrightarrow> i < length lens \<and> 10 < lens ! i"
proof -
  assume "small_code lens table"
  then have "lens ! i \<le> 15" if "i < length lens"
    using that by (simp add: small_code_def canon_ok_def MAX_HUFF_TREE_DEPTH_def)
  then show ?thesis by (auto simp: long_syms_def syms_of_def)
qed

lemma sorted_long_syms: "sorted_wrt (code_before ((!) lens)) (long_syms lens)"
proof -
  have s: "sorted_wrt (code_before ((!) lens)) (syms_of lens l)" for l
  proof -
    have "sorted_wrt (<) (syms_of lens l)" unfolding syms_of_def by (intro sorted_wrt_filter) simp
    then show ?thesis by (rule sorted_wrt_mono_rel [rotated]) (auto simp: code_before_def syms_of_def)
  qed
  have m: "lens ! x = l" if "x \<in> set (syms_of lens l)" for x l using that by (simp add: syms_of_def)
  show ?thesis unfolding long_syms_def upt_11_16
    by (auto simp: sorted_wrt_append s code_before_def dest!: m)
qed

lemma sorted_before_distinct: "sorted_wrt (code_before len) xs \<Longrightarrow> distinct xs"
  by (induction xs) (auto simp: code_before_def)

lemma long_segment:
  assumes "small_code lens table" "count_of lens count"
  shows "map ((!) (make_code_list table (map (count_total_at count) [0..<17])))
    [count_total_at count 11..<count_total_at count 16] = long_syms lens"
proof -
  let ?cl = "make_code_list table (map (count_total_at count) [0..<17])"
  have "map ((!) ?cl) [count_total_at count 11..<count_total_at count (11 + k)]
    = concat (map (syms_of lens) [11..<11 + k])" if "k \<le> 5" for k
    using that
  proof (induction k)
    case (Suc k)
    have le: "count_total_at count 11 \<le> count_total_at count (11 + k)"
      "count_total_at count (11 + k) \<le> count_total_at count (11 + Suc k)"
      using Suc.prems count_total_at_mono [OF assms(2), of 11 "11 + k"]
        count_total_at_mono [OF assms(2), of "11 + k" "11 + Suc k"]
      by (simp_all add: MAX_HUFF_TREE_DEPTH_def)
    have "[count_total_at count 11..<count_total_at count (11 + Suc k)]
      = [count_total_at count 11..<count_total_at count (11 + k)]
        @ [count_total_at count (11 + k)..<count_total_at count (11 + Suc k)]"
      using le by (metis le_add_diff_inverse upt_add_eq_append)
    moreover have "map ((!) ?cl) [count_total_at count (11 + k)..<count_total_at count (Suc (11 + k))] = syms_of lens (11 + k)"
      using Suc.prems by (intro make_code_list_seg assms) (simp_all add: MAX_HUFF_TREE_DEPTH_def)
    moreover have "[11..<11 + Suc k] = [11..<11 + k] @ [11 + k]" by (metis add_Suc_right le_add1 upt_Suc_append)
    ultimately show ?case using Suc by (simp del: upt_Suc)
  qed simp
  from this [of 5] show ?thesis by (simp add: long_syms_def)
qed

definition code_prefix :: "nat list \<Rightarrow> nat \<Rightarrow> nat" where
  "code_prefix lens i = rcode lens i mod 1024"

lemma code_prefix_rev:
  assumes "small_code lens table" "i < length lens" "10 < lens ! i"
  shows "code_prefix lens i = rev_bits 10 (canon_lo lens i div 32)" "canon_lo lens i div 32 < 1024"
proof -
  have len: "canon_len lens i = lens ! i" using small_code_len [OF assms(1,2)] .
  have d: "(2 :: nat) ^ (MAX_HUFF_TREE_DEPTH - 10) = 32" "(2 :: nat) ^ 10 = 1024" "10 \<le> MAX_HUFF_TREE_DEPTH"
    by (simp_all add: MAX_HUFF_TREE_DEPTH_def)
  show "code_prefix lens i = rev_bits 10 (canon_lo lens i div 32)"
    unfolding code_prefix_def d(2) [symmetric] d(1) [symmetric]
    using assms len by (intro canon.stream_code_mod) auto
  show "canon_lo lens i div 32 < 1024"
    unfolding d(2) [symmetric] d(1) [symmetric]
    using assms len d(3) by (intro canon.lo_div_less) auto
qed

text \<open>The prefix of ones is the last one, so a code whose entry was overwritten by \<open>0xFFFF\<close> is
  not taken for a member of a later group.\<close>

lemma code_prefix_last:
  assumes "small_code lens table" "i < length lens" "j < length lens" "10 < lens ! i"
    "code_before ((!) lens) i j" "code_prefix lens i = 1023"
  shows "code_prefix lens j = 1023"
proof -
  have j: "10 < lens ! j" using assms by (auto simp: code_before_def)
  have m: "(1023 :: nat) = mask 10" by (simp add: mask_eq_exp_minus_1)
  have "rev_bits 10 (mask 10) = mask 10" by (rule bit_eqI) (auto simp: bit_rev_bits bit_mask_iff)
  then have r: "rev_bits 10 1023 = 1023" by (simp only: m)
  have "canon_lo lens i div 32 = 1023"
  proof (rule rev_bits_inj [of _ 10])
    show "rev_bits 10 (canon_lo lens i div 32) = rev_bits 10 1023"
      unfolding r using code_prefix_rev(1) [OF assms(1,2,4)] assms(6) by (rule subst)
  qed (use code_prefix_rev(2) [OF assms(1,2,4)] in simp_all)
  moreover have "canon_lo lens i div 2 ^ (MAX_HUFF_TREE_DEPTH - 10) \<le> canon_lo lens j div 2 ^ (MAX_HUFF_TREE_DEPTH - 10)"
    using assms(4,5) small_code_len [OF assms(1)] assms(2,3)
    by (intro canon.prefix_mono) (auto simp: code_before_def)
  ultimately have "canon_lo lens j div 32 = 1023"
    using code_prefix_rev(2) [OF assms(1,3) j] by (simp add: MAX_HUFF_TREE_DEPTH_def)
  then show ?thesis using code_prefix_rev(1) [OF assms(1,3) j] r by simp
qed

section \<open>Filling one group\<close>

lemma prefix_word:
  fixes f :: nat
  assumes "f < 1024" "10 \<le> l"
  shows "(f + 1024 * b) mod 2 ^ l = f + 1024 * (b mod 2 ^ (l - 10))"
proof -
  have l: "(2 :: nat) ^ l = 1024 * 2 ^ (l - 10)"
  proof -
    have "(2 :: nat) ^ l = 2 ^ (10 + (l - 10))" using assms(2) by simp
    then show ?thesis unfolding power_add by simp
  qed
  have "(f + 1024 * b) mod (1024 * 2 ^ (l - 10))
      = 1024 * ((f + 1024 * b) div 1024 mod 2 ^ (l - 10)) + (f + 1024 * b) mod 1024"
    by (rule mod_mult2_eq)
  then show ?thesis using assms(1) by (simp add: l)
qed

lemma group_match:
  assumes "small_code lens table" "g < length lens" "10 < lens ! g"
  shows "b mod 2 ^ (lens ! g - 10) = rcode lens g div 1024 \<longleftrightarrow> cmatch lens (code_prefix lens g + 1024 * b) g"
proof -
  have p: "code_prefix lens g < 1024" by (simp add: code_prefix_def)
  have r: "rcode lens g = code_prefix lens g + 1024 * (rcode lens g div 1024)"
    unfolding code_prefix_def using div_mult_mod_eq [of "rcode lens g" 1024] by simp
  have "(code_prefix lens g + 1024 * b) mod 2 ^ (lens ! g) = code_prefix lens g + 1024 * (b mod 2 ^ (lens ! g - 10))"
    using prefix_word [OF p, of "lens ! g" b] assms(3) by simp
  then show ?thesis unfolding cmatch_iff [OF assms(1)] using assms r by auto
qed

text \<open>The state of a group's loop: \<open>gs\<close> are the symbols whose entries are written.\<close>

definition group_inv :: "nat list \<Rightarrow> (nat \<Rightarrow> nat \<Rightarrow> u16) \<Rightarrow> nat \<Rightarrow> nat \<Rightarrow> nat set \<Rightarrow> huff_code list \<times> u16 list \<Rightarrow>
    huff_code list \<times> u16 list \<Rightarrow> bool" where
  "group_inv lens le off m gs st0 st \<longleftrightarrow>
    length (fst st) = length (fst st0) \<and> length (snd st) = length (snd st0)
    \<and> (\<forall>j. hc_length (fst st ! j) = hc_length (fst st0 ! j))
    \<and> (\<forall>j < length (fst st0). hc_code (fst st ! j) = (if j \<in> gs then 0xFFFF else hc_code (fst st0 ! j)))
    \<and> (\<forall>k < length (snd st0). \<not> (off \<le> k \<and> k < off + 2 ^ (m - 10)) \<longrightarrow> snd st ! k = snd st0 ! k)
    \<and> (\<forall>b < 2 ^ (m - 10).
        (\<forall>g \<in> gs. b mod 2 ^ (lens ! g - 10) = rcode lens g div 1024 \<longrightarrow> snd st ! (off + b) = le g (lens ! g))
        \<and> ((\<forall>g \<in> gs. b mod 2 ^ (lens ! g - 10) \<noteq> rcode lens g div 1024) \<longrightarrow> snd st ! (off + b) = snd st0 ! (off + b)))"

lemma long_set_inv:
  assumes inv: "group_inv lens le off m gs st0 st" and g: "g \<notin> gs" "g < length (fst st0)"
    and tab: "hc_length (fst st0 ! g) = lens ! g" "unat (hc_code (fst st0 ! g)) = rcode lens g"
    and size: "off + 2 ^ (m - 10) \<le> length (snd st0)"
    and less: "rcode lens g div 1024 < 2 ^ (lens ! g - 10)"
    and excl: "\<And>h b. h \<in> gs \<Longrightarrow> b mod 2 ^ (lens ! h - 10) = rcode lens h div 1024
      \<Longrightarrow> b mod 2 ^ (lens ! g - 10) = rcode lens g div 1024 \<Longrightarrow> False"
  shows "group_inv lens le off m (insert g gs) st0 (long_set le off m st g)"
proof -
  obtain t l where st: "st = (t, l)" by fastforce
  have i: "length t = length (fst st0)" "length l = length (snd st0)" "\<And>j. hc_length (t ! j) = hc_length (fst st0 ! j)"
    "\<And>j. j < length (fst st0) \<Longrightarrow> hc_code (t ! j) = (if j \<in> gs then 0xFFFF else hc_code (fst st0 ! j))"
    "\<And>k. k < length (snd st0) \<Longrightarrow> \<not> (off \<le> k \<and> k < off + 2 ^ (m - 10)) \<Longrightarrow> l ! k = snd st0 ! k"
    "\<And>b h. b < 2 ^ (m - 10) \<Longrightarrow> h \<in> gs \<Longrightarrow> b mod 2 ^ (lens ! h - 10) = rcode lens h div 1024 \<Longrightarrow> l ! (off + b) = le h (lens ! h)"
    "\<And>b. b < 2 ^ (m - 10) \<Longrightarrow> (\<And>h. h \<in> gs \<Longrightarrow> b mod 2 ^ (lens ! h - 10) \<noteq> rcode lens h div 1024) \<Longrightarrow> l ! (off + b) = snd st0 ! (off + b)"
    using inv unfolding group_inv_def st by auto
  let ?bs = "strides (rcode lens g div 1024) (2 ^ (lens ! g - 10)) (2 ^ (m - 10))"
  define l' where "l' = foldl (\<lambda>long b. long[off + b := le g (lens ! g)]) l ?bs"
  have tg: "hc_length (t ! g) = lens ! g" "unat (hc_code (t ! g)) = rcode lens g" using i(3,4) g tab by simp_all
  have r: "long_set le off m st g = (t[g := hc_set_code (t ! g) 0xFFFF], l')"
    by (simp add: long_set_def st tg ISAL_DECODE_SHORT_BITS_def l'_def Let_def)
  have bs: "b \<in> set ?bs \<longleftrightarrow> b < 2 ^ (m - 10) \<and> b mod 2 ^ (lens ! g - 10) = rcode lens g div 1024" for b
    by (rule stride_iff [OF less])
  have l': "length l' = length (snd st0)" by (simp add: l'_def i(2))
  have nth: "l' ! k = (if off \<le> k \<and> k - off \<in> set ?bs then le g (lens ! g) else l ! k)" if "k < length (snd st0)" for k
    unfolding l'_def using that i(2) by (intro foldl_put) simp
  have at: "l' ! (off + b) = (if b mod 2 ^ (lens ! g - 10) = rcode lens g div 1024 then le g (lens ! g) else l ! (off + b))"
    if "b < 2 ^ (m - 10)" for b
    using nth [of "off + b"] that size bs [of b] by simp
  have "l' ! k = snd st0 ! k" if "k < length (snd st0)" "\<not> (off \<le> k \<and> k < off + 2 ^ (m - 10))" for k
    using nth [OF that(1)] bs [of "k - off"] that i(5) [OF that] by auto
  moreover have "l' ! (off + b) = le h (lens ! h)"
    if b: "b < 2 ^ (m - 10)" and h: "h \<in> insert g gs" "b mod 2 ^ (lens ! h - 10) = rcode lens h div 1024" for b h
    using at [OF b] i(6) [OF b, of h] h excl [of h b] by (cases "h = g") auto
  moreover have "l' ! (off + b) = snd st0 ! (off + b)"
    if b: "b < 2 ^ (m - 10)" and h: "\<And>h. h \<in> insert g gs \<Longrightarrow> b mod 2 ^ (lens ! h - 10) \<noteq> rcode lens h div 1024" for b
    using at [OF b] i(7) [OF b] h by simp
  moreover have "hc_length (t[g := hc_set_code (t ! g) 0xFFFF] ! j) = hc_length (fst st0 ! j)" for j
    using i(1,3) g by (cases "j = g") simp_all
  moreover have "hc_code (t[g := hc_set_code (t ! g) 0xFFFF] ! j) = (if j \<in> insert g gs then 0xFFFF else hc_code (fst st0 ! j))"
    if "j < length (fst st0)" for j
    using i(1,4) g that by (cases "j = g") simp_all
  ultimately show ?thesis
    unfolding group_inv_def r fst_conv snd_conv using i(1) l' by (intro conjI allI ballI impI) (blast | simp)+
qed

lemma foldl_long_set:
  assumes "distinct gs" "\<And>g. g \<in> set gs \<Longrightarrow> g < length table \<and> hc_length (table ! g) = lens ! g
      \<and> unat (hc_code (table ! g)) = rcode lens g \<and> rcode lens g div 1024 < 2 ^ (lens ! g - 10)"
    and "off + 2 ^ (m - 10) \<le> length long"
    and "\<And>g h b. g \<in> set gs \<Longrightarrow> h \<in> set gs \<Longrightarrow> b mod 2 ^ (lens ! h - 10) = rcode lens h div 1024
      \<Longrightarrow> b mod 2 ^ (lens ! g - 10) = rcode lens g div 1024 \<Longrightarrow> g = h"
  shows "group_inv lens le off m (set gs) (table, long) (foldl (long_set le off m) (table, long) gs)"
  using assms
proof (induction gs rule: rev_induct)
  case Nil
  show ?case by (simp add: group_inv_def)
next
  case (snoc g gs)
  have g: "g \<in> set (gs @ [g])" and sub: "\<And>h. h \<in> set gs \<Longrightarrow> h \<in> set (gs @ [g])" by simp_all
  note sg = snoc.prems(2) [OF g]
  have d: "distinct gs" "g \<notin> set gs" using snoc.prems(1) by simp_all
  have IH: "group_inv lens le off m (set gs) (table, long) (foldl (long_set le off m) (table, long) gs)"
    by (rule snoc.IH [OF d(1) snoc.prems(2) [OF sub] snoc.prems(3) snoc.prems(4) [OF sub sub]])
  have excl: False if "h \<in> set gs" "b mod 2 ^ (lens ! h - 10) = rcode lens h div 1024"
    "b mod 2 ^ (lens ! g - 10) = rcode lens g div 1024" for h b
    using snoc.prems(4) [OF g sub [OF that(1)] that(2,3)] that(1) d(2) by blast
  have t: "g < length (fst (table, long))" "hc_length (fst (table, long) ! g) = lens ! g"
      "unat (hc_code (fst (table, long) ! g)) = rcode lens g" "rcode lens g div 1024 < 2 ^ (lens ! g - 10)"
      "off + 2 ^ (m - 10) \<le> length (snd (table, long))"
    unfolding fst_conv snd_conv using sg snoc.prems(3) by blast+
  have "group_inv lens le off m (insert g (set gs)) (table, long)
      (long_set le off m (foldl (long_set le off m) (table, long) gs) g)"
    by (rule long_set_inv [OF IH d(2) t(1-3,5,4) excl])
  then show ?case by simp
qed

section \<open>The long table\<close>

lemma unat_and_3ff: "unat ((c :: u16) AND 0x3FF) = unat c mod 1024"
proof -
  have m: "(0x3FF :: u16) = mask 10" by (simp add: mask_eq_exp_minus_1)
  have "unat (c AND mask 10) = take_bit 10 (unat c)" by (rule bit_eqI) (auto simp: bit_simps bit_mask_iff)
  then show ?thesis unfolding m by (simp add: take_bit_eq_mod)
qed

lemma memset0_nth:
  assumes "memset0 xs off n = Some ys"
  shows "length ys = length xs" "off + n \<le> length xs" "k < off \<Longrightarrow> ys ! k = xs ! k"
    "off \<le> k \<Longrightarrow> k < off + n \<Longrightarrow> ys ! k = 0"
  using assms by (auto simp: memset0_def blit_def nth_append split: if_splits)

lemma foldl_later:
  fixes x :: nat
  assumes "\<And>m l. m \<le> l \<Longrightarrow> later m l = l" "sorted (x # map f xs)"
  shows "foldl (\<lambda>m j. later m (f j)) x xs \<in> set (x # map f xs)"
    "y \<in> set (x # map f xs) \<Longrightarrow> y \<le> foldl (\<lambda>m j. later m (f j)) x xs"
proof -
  have "foldl (\<lambda>m j. later m (f j)) x xs = last (x # map f xs)"
    using assms(2)
  proof (induction xs arbitrary: x)
    case (Cons a xs)
    then show ?case using assms(1) [of x "f a"] by simp
  qed simp
  note eq = this
  have le: "y \<le> last zs" if "sorted zs" "y \<in> set zs" for y :: nat and zs
    using that by (induction zs) auto
  show "foldl (\<lambda>m j. later m (f j)) x xs \<in> set (x # map f xs)"
    "y \<in> set (x # map f xs) \<Longrightarrow> y \<le> foldl (\<lambda>m j. later m (f j)) x xs"
    unfolding eq by (rule last_in_set, simp) (rule le [OF assms(2)])
qed

text \<open>The two-step lookup of a bit string \<open>w\<close> through the long table.\<close>

definition long_done :: "nat list \<Rightarrow> (nat \<Rightarrow> nat \<Rightarrow> u16) \<Rightarrow> u16 list \<Rightarrow> u16 list \<Rightarrow> nat \<Rightarrow> nat \<Rightarrow> bool" where
  "long_done lens le short long off w \<longleftrightarrow> (\<exists>p m. 10 < m \<and> m \<le> 15
    \<and> short ! (w mod 1024) = of_nat p OR push_bit 11 (of_nat m) OR 0x400
    \<and> p + 2 ^ (m - 10) \<le> off
    \<and> (\<forall>i. cmatch lens w i \<longrightarrow> long ! (p + w mod 2 ^ m div 1024) = le i (lens ! i))
    \<and> ((\<forall>i. \<not> cmatch lens w i) \<longrightarrow> long ! (p + w mod 2 ^ m div 1024) = 0))"

text \<open>The entries used by the groups of a set of prefixes: a group needs as many as its longest code.\<close>

definition group_max :: "nat list \<Rightarrow> nat \<Rightarrow> nat" where
  "group_max lens f = Max ((!) lens ` {j. j < length lens \<and> 10 < lens ! j \<and> code_prefix lens j = f})"

definition long_used :: "nat list \<Rightarrow> nat set \<Rightarrow> nat" where
  "long_used lens dn = (\<Sum>f \<in> dn. 2 ^ (group_max lens f - 10))"

definition long_need :: "nat list \<Rightarrow> nat" where
  "long_need lens = long_used lens (code_prefix lens ` {j. j < length lens \<and> 10 < lens ! j})"

definition long_inv :: "nat list \<Rightarrow> (nat \<Rightarrow> nat \<Rightarrow> u16) \<Rightarrow> huff_code list \<Rightarrow> u16 list \<Rightarrow> nat \<Rightarrow> nat set \<Rightarrow>
    huff_code list \<Rightarrow> u16 list \<Rightarrow> u16 list \<Rightarrow> nat \<Rightarrow> nat list \<Rightarrow> bool" where
  "long_inv lens le table0 short0 n dn table short long off rest \<longleftrightarrow>
    length table = length lens \<and> length short = 1024 \<and> length long = n
    \<and> (\<forall>j < length lens. hc_length (table ! j) = lens ! j)
    \<and> (\<forall>j \<in> set (long_syms lens). hc_code (table ! j) = (if code_prefix lens j \<in> dn then 0xFFFF else hc_code (table0 ! j)))
    \<and> (\<exists>pre. long_syms lens = pre @ rest \<and> (\<forall>j \<in> set pre. code_prefix lens j \<in> dn))
    \<and> dn \<subseteq> code_prefix lens ` set (long_syms lens)
    \<and> (\<forall>f. f \<notin> dn \<longrightarrow> short ! f = short0 ! f)
    \<and> (\<forall>w. w mod 1024 \<in> dn \<longrightarrow> long_done lens le short long off w)
    \<and> off \<le> n"

lemma mod_pow_1024: "l \<le> 10 \<Longrightarrow> (x :: nat) mod 1024 mod 2 ^ l = x mod 2 ^ l"
proof -
  assume "l \<le> 10"
  then have "(2 :: nat) ^ l dvd 2 ^ 10" by (rule le_imp_power_dvd)
  then show ?thesis by (simp add: mod_mod_cancel)
qed

lemma mod_1024_pow: "10 \<le> l \<Longrightarrow> (x :: nat) mod 2 ^ l mod 1024 = x mod 1024"
proof -
  assume "10 \<le> l"
  then have "(2 :: nat) ^ 10 dvd 2 ^ l" by (rule le_imp_power_dvd)
  then show ?thesis by (simp add: mod_mod_cancel)
qed

lemma cmatch_long:
  assumes sc: "small_code lens table" and g: "g < length lens" "10 < lens ! g" "code_prefix lens g = w mod 1024"
    and m: "cmatch lens w i"
  shows "10 < lens ! i \<and> code_prefix lens i = w mod 1024"
proof -
  have i: "i < length lens" "0 < lens ! i" "w mod 2 ^ (lens ! i) = rcode lens i"
    using m unfolding cmatch_iff [OF sc] by simp_all
  have gt: "10 < lens ! i"
  proof (rule ccontr)
    assume "\<not> 10 < lens ! i"
    then have le: "lens ! i \<le> 10" by simp
    have "rcode lens g mod 2 ^ (lens ! i) = rcode lens g mod 1024 mod 2 ^ (lens ! i)"
      using mod_pow_1024 [OF le] by simp
    also have "\<dots> = w mod 1024 mod 2 ^ (lens ! i)" using g(3) by (simp add: code_prefix_def)
    also have "\<dots> = rcode lens i"
      using mod_pow_1024 [OF le] i(3) by simp
    finally have "i = g"
      using canon.prefix_free [of i lens g] i g le small_code_len [OF sc] by simp
    with le g show False by simp
  qed
  have "rcode lens i mod 1024 = w mod 2 ^ (lens ! i) mod 1024" using i(3) by simp
  also have "\<dots> = w mod 1024" using mod_1024_pow [of "lens ! i" w] gt by simp
  finally show ?thesis using gt by (simp add: code_prefix_def)
qed

lemma long_done_mono:
  assumes "long_done lens le short long off w" "short' ! (w mod 1024) = short ! (w mod 1024)" "off \<le> off'"
    and "\<And>k. k < off \<Longrightarrow> long' ! k = long ! k"
  shows "long_done lens le short' long' off' w"
proof -
  obtain p m where pm: "10 < m" "m \<le> 15" "short ! (w mod 1024) = of_nat p OR push_bit 11 (of_nat m) OR 0x400"
    "p + 2 ^ (m - 10) \<le> off"
    "\<And>i. cmatch lens w i \<Longrightarrow> long ! (p + w mod 2 ^ m div 1024) = le i (lens ! i)"
    "(\<forall>i. \<not> cmatch lens w i) \<Longrightarrow> long ! (p + w mod 2 ^ m div 1024) = 0"
    using assms(1) unfolding long_done_def by blast
  have "(2 :: nat) ^ m = 2 ^ (m - 10) * 1024"
  proof -
    have "(2 :: nat) ^ m = 2 ^ ((m - 10) + 10)" using pm(1) by simp
    then show ?thesis unfolding power_add by simp
  qed
  then have "w mod 2 ^ m div 1024 < 2 ^ (m - 10)" by (simp add: div_less_iff_less_mult)
  then have "long' ! (p + w mod 2 ^ m div 1024) = long ! (p + w mod 2 ^ m div 1024)"
    using pm(4) by (intro assms(4)) simp
  then show ?thesis unfolding long_done_def using pm assms(2,3) by (intro exI [of _ p] exI [of _ m]) auto
qed

text \<open>One turn of the loop: \<open>i\<close> is the first symbol of a new prefix, \<open>gs\<close> are all symbols with
  it, \<open>m\<close> is the longest of their codes.\<close>

definition long_group :: "nat list \<Rightarrow> nat set \<Rightarrow> nat \<Rightarrow> nat list \<Rightarrow> nat list \<Rightarrow> nat \<Rightarrow> bool" where
  "long_group lens dn i rest gs m \<longleftrightarrow>
    (\<exists>pre. long_syms lens = pre @ i # rest \<and> (\<forall>j \<in> set pre. code_prefix lens j \<in> dn))
    \<and> code_prefix lens i \<notin> dn \<and> gs = i # filter (\<lambda>j. code_prefix lens j = code_prefix lens i) rest
    \<and> (\<exists>g \<in> set gs. m = lens ! g) \<and> (\<forall>g \<in> set gs. lens ! g \<le> m)"

lemma long_code:
  assumes sc: "small_code lens table0" and inv: "long_inv lens le table0 short0 n dn table short long off rest"
    and j: "j \<in> set (long_syms lens)"
  shows "j < length lens" "10 < lens ! j" "hc_length (table ! j) = lens ! j"
    "code_prefix lens j \<in> dn \<Longrightarrow> hc_code (table ! j) = 0xFFFF"
    "code_prefix lens j \<notin> dn \<Longrightarrow> unat (hc_code (table ! j)) = rcode lens j"
  using j set_long_syms [OF sc, of j] sc inv by (simp_all add: small_code_def long_inv_def)

lemma long_head:
  assumes "long_inv lens le table0 short0 n dn table short long off (i # rest)"
  obtains pre where "long_syms lens = pre @ i # rest" "\<And>j. j \<in> set pre \<Longrightarrow> code_prefix lens j \<in> dn"
  using assms unfolding long_inv_def by blast

lemma long_first_bits:
  assumes sc: "small_code lens table0" and inv: "long_inv lens le table0 short0 n dn table short long off (i # rest)"
    and fresh: "hc_code (table ! i) \<noteq> 0xFFFF"
  shows "code_prefix lens i \<notin> dn" "unat (hc_code (table ! i) AND 0x3FF) = code_prefix lens i"
proof -
  obtain pre where "long_syms lens = pre @ i # rest" by (rule long_head [OF inv])
  then have i: "i \<in> set (long_syms lens)" by simp
  show f: "code_prefix lens i \<notin> dn" using fresh long_code(4) [OF sc inv i] by auto
  show "unat (hc_code (table ! i) AND 0x3FF) = code_prefix lens i"
    using long_code(5) [OF sc inv i f] by (simp add: unat_and_3ff code_prefix_def)
qed

lemma long_others:
  assumes sc: "small_code lens table0" and inv: "long_inv lens le table0 short0 n dn table short long off (i # rest)"
    and fresh: "hc_code (table ! i) \<noteq> 0xFFFF"
  shows "filter (\<lambda>j. hc_code (table ! j) AND 0x3FF = hc_code (table ! i) AND 0x3FF) rest
    = filter (\<lambda>j. code_prefix lens j = code_prefix lens i) rest"
proof (rule filter_cong [OF refl])
  let ?fb = "hc_code (table ! i) AND 0x3FF"
  note f = long_first_bits [OF sc inv fresh]
  obtain pre where pre: "long_syms lens = pre @ i # rest" by (rule long_head [OF inv])
  fix j assume "j \<in> set rest"
  then have ij: "i \<in> set (long_syms lens)" "j \<in> set (long_syms lens)" "code_before ((!) lens) i j"
    using pre sorted_long_syms [of lens] by (simp_all add: sorted_wrt_append)
  note i = long_code [OF sc inv ij(1)] and j = long_code [OF sc inv ij(2)]
  show "(hc_code (table ! j) AND 0x3FF = ?fb) = (code_prefix lens j = code_prefix lens i)"
  proof (cases "code_prefix lens j \<in> dn")
    case True
    have "?fb \<noteq> 0x3FF"
    proof
      assume "?fb = 0x3FF"
      then have f1: "code_prefix lens i = 1023" using f(2) by simp
      have "code_prefix lens j = 1023" by (rule code_prefix_last [OF sc i(1) j(1) i(2) ij(3) f1])
      with True f(1) f1 show False by simp
    qed
    moreover have "hc_code (table ! j) AND 0x3FF = 0x3FF" using j(4) [OF True] by simp
    ultimately show ?thesis using True f(1) by auto
  next
    case False
    then have "unat (hc_code (table ! j) AND 0x3FF) = code_prefix lens j"
      using j(5) by (simp add: unat_and_3ff code_prefix_def)
    then show ?thesis using f(2) by (metis word_unat_eq_iff)
  qed
qed

lemma foldl_lens:
  assumes "\<And>j. j \<in> set js \<Longrightarrow> hc_length (table ! j) = lens ! j"
  shows "foldl (\<lambda>m j. later m (hc_length (table ! j))) x js = foldl (\<lambda>m j. later m (lens ! j)) x js"
  using assms by (induction js arbitrary: x) simp_all

lemma long_group_intro:
  assumes sc: "small_code lens table0" and inv: "long_inv lens le table0 short0 n dn table short long off (i # rest)"
    and later: "\<And>m l. m \<le> l \<Longrightarrow> later m l = l" and fresh: "hc_code (table ! i) \<noteq> 0xFFFF"
  defines "others \<equiv> filter (\<lambda>j. hc_code (table ! j) AND 0x3FF = hc_code (table ! i) AND 0x3FF) rest"
  shows "long_group lens dn i rest (i # others)
    (foldl (\<lambda>m j. later m (hc_length (table ! j))) (hc_length (table ! i)) others)"
proof -
  obtain pre where pre: "long_syms lens = pre @ i # rest" "\<And>j. j \<in> set pre \<Longrightarrow> code_prefix lens j \<in> dn"
    using inv unfolding long_inv_def by blast
  have others: "others = filter (\<lambda>j. code_prefix lens j = code_prefix lens i) rest"
    unfolding others_def by (rule long_others [OF sc inv fresh])
  have hl: "hc_length (table ! j) = lens ! j" if "j = i \<or> j \<in> set others" for j
    using that pre(1) by (intro long_code(3) [OF sc inv]) (auto simp: others)
  have "sorted_wrt (code_before ((!) lens)) (i # others)"
    using sorted_long_syms [of lens] pre(1) by (auto simp: sorted_wrt_append others intro: sorted_wrt_filter)
  then have srt: "sorted (lens ! i # map ((!) lens) others)"
    unfolding list.map(2) [symmetric] sorted_map by (rule sorted_wrt_mono_rel [rotated]) (auto simp: code_before_def)
  have m: "foldl (\<lambda>m j. later m (hc_length (table ! j))) (hc_length (table ! i)) others
      = foldl (\<lambda>m j. later m (lens ! j)) (lens ! i) others"
    using foldl_lens [of others table lens] hl by simp
  show ?thesis unfolding m long_group_def
    using pre long_first_bits(1) [OF sc inv fresh] others
      foldl_later(1) [of later, OF later srt] foldl_later(2) [of later, OF later srt]
    by auto
qed

lemma long_groupD:
  assumes sc: "small_code lens table" and grp: "long_group lens dn i rest gs m"
  shows "j \<in> set gs \<longleftrightarrow> j < length lens \<and> 10 < lens ! j \<and> code_prefix lens j = code_prefix lens i"
    and "distinct gs" "10 < m" "m \<le> 15" "group_max lens (code_prefix lens i) = m"
proof -
  obtain pre where pre: "long_syms lens = pre @ i # rest" "\<And>j. j \<in> set pre \<Longrightarrow> code_prefix lens j \<in> dn"
    using grp unfolding long_group_def by blast
  have g: "code_prefix lens i \<notin> dn" "gs = i # filter (\<lambda>j. code_prefix lens j = code_prefix lens i) rest"
    "\<exists>g \<in> set gs. m = lens ! g" "\<And>g. g \<in> set gs \<Longrightarrow> lens ! g \<le> m"
    using grp unfolding long_group_def by blast+
  have mem: "j \<in> set gs \<longleftrightarrow> j \<in> set (long_syms lens) \<and> code_prefix lens j = code_prefix lens i" for j
    using pre(2) [of j] g(1) unfolding pre(1) g(2) by auto
  show all: "j \<in> set gs \<longleftrightarrow> j < length lens \<and> 10 < lens ! j \<and> code_prefix lens j = code_prefix lens i" for j
    using mem [of j] set_long_syms [OF sc, of j] by blast
  show "distinct gs"
    using sorted_before_distinct [OF sorted_long_syms [of lens]] pre(1) by (simp add: g(2))
  obtain g' where g': "g' \<in> set gs" "m = lens ! g'" using g(3) by blast
  then show "10 < m" "m \<le> 15"
    using all [of g'] sc by (auto simp: small_code_def canon_ok_def MAX_HUFF_TREE_DEPTH_def)
  have "{j. j < length lens \<and> 10 < lens ! j \<and> code_prefix lens j = code_prefix lens i} = set gs" using all by blast
  then show "group_max lens (code_prefix lens i) = m"
    unfolding group_max_def using g' g(4) by (auto intro!: Max_eqI)
qed

lemma long_group_match:
  assumes sc: "small_code lens table" and grp: "long_group lens dn i rest gs m" and g: "g \<in> set gs"
  shows "b mod 2 ^ (lens ! g - 10) = rcode lens g div 1024 \<longleftrightarrow> cmatch lens (code_prefix lens i + 1024 * b) g"
  using group_match [OF sc, of g b] long_groupD(1) [OF sc grp, of g] g by simp

lemma pow_10: "10 \<le> m \<Longrightarrow> (2 :: nat) ^ m = 2 ^ (m - 10) * 1024"
proof -
  assume "10 \<le> m"
  then have "(2 :: nat) ^ m = 2 ^ ((m - 10) + 10)" by simp
  then show ?thesis unfolding power_add by simp
qed

lemma long_group_filled:
  assumes sc: "small_code lens table0" and inv: "long_inv lens le table0 short0 n dn table short long off (i # rest)"
    and grp: "long_group lens dn i rest gs m" and mem: "memset0 long off (2 ^ (m - 10)) = Some long1"
  shows "group_inv lens le off m (set gs) (table, long1) (foldl (long_set le off m) (table, long1) gs)"
proof (rule foldl_long_set [OF long_groupD(2) [OF sc grp]])
  fix g assume "g \<in> set gs"
  then have g: "g < length lens" "10 < lens ! g" "code_prefix lens g = code_prefix lens i"
    using long_groupD(1) [OF sc grp] by blast+
  then have gl: "g \<in> set (long_syms lens)" using set_long_syms [OF sc] by simp
  have "code_prefix lens g \<notin> dn" using grp g(3) by (simp add: long_group_def)
  moreover have "rcode lens g div 1024 < 2 ^ (lens ! g - 10)"
    using rcode_less [OF sc g(1)] pow_10 [of "lens ! g"] g(2) by (simp add: div_less_iff_less_mult)
  ultimately show "g < length table \<and> hc_length (table ! g) = lens ! g \<and> unat (hc_code (table ! g)) = rcode lens g
      \<and> rcode lens g div 1024 < 2 ^ (lens ! g - 10)"
    using long_code(3,5) [OF sc inv gl] g inv by (simp add: long_inv_def)
next
  show "off + 2 ^ (m - 10) \<le> length long1" using memset0_nth(1,2) [OF mem] by simp
next
  fix g h b assume gh: "g \<in> set gs" "h \<in> set gs" "b mod 2 ^ (lens ! h - 10) = rcode lens h div 1024"
    "b mod 2 ^ (lens ! g - 10) = rcode lens g div 1024"
  then have "cmatch lens (code_prefix lens i + 1024 * b) g" "cmatch lens (code_prefix lens i + 1024 * b) h"
    using long_group_match [OF sc grp gh(1)] long_group_match [OF sc grp gh(2)] by blast+
  then show "g = h" by (rule cmatch_unique)
qed

lemma long_done_group:
  assumes sc: "small_code lens table" and grp: "long_group lens dn i rest gs m" and w: "w mod 1024 = code_prefix lens i"
    and sh: "short ! code_prefix lens i = of_nat off OR push_bit 11 (of_nat m) OR 0x400"
    and hit: "\<And>b g. b < 2 ^ (m - 10) \<Longrightarrow> g \<in> set gs \<Longrightarrow> b mod 2 ^ (lens ! g - 10) = rcode lens g div 1024
      \<Longrightarrow> long ! (off + b) = le g (lens ! g)"
    and miss: "\<And>b. b < 2 ^ (m - 10) \<Longrightarrow> (\<And>g. g \<in> set gs \<Longrightarrow> b mod 2 ^ (lens ! g - 10) \<noteq> rcode lens g div 1024)
      \<Longrightarrow> long ! (off + b) = 0"
  shows "long_done lens le short long (off + 2 ^ (m - 10)) w"
proof -
  note m = long_groupD(3,4) [OF sc grp]
  define b where "b = w mod 2 ^ m div 1024"
  have b: "b < 2 ^ (m - 10)" unfolding b_def using pow_10 [of m] m by (simp add: div_less_iff_less_mult)
  have wb: "w mod 2 ^ m = code_prefix lens i + 1024 * b"
    using mod_1024_pow [of m w] m(1) w div_mult_mod_eq [of "w mod 2 ^ m" 1024] by (simp add: b_def)
  have cm: "b mod 2 ^ (lens ! g - 10) = rcode lens g div 1024 \<longleftrightarrow> cmatch lens w g" if g: "g \<in> set gs" for g
  proof -
    have "lens ! g \<le> m" using grp g by (simp add: long_group_def)
    then show ?thesis
      using cmatch_mod [OF sc, of g m w] long_group_match [OF sc grp g, of b] unfolding wb by blast
  qed
  have i: "i < length lens" "10 < lens ! i"
    using long_groupD(1) [OF sc grp, of i] grp by (simp_all add: long_group_def)
  have in_gs: "j \<in> set gs" if "cmatch lens w j" for j
    using cmatch_long [OF sc i _ that] w that long_groupD(1) [OF sc grp, of j] by simp
  have "long ! (off + b) = le j (lens ! j)" if "cmatch lens w j" for j
    using hit [OF b in_gs [OF that]] cm [OF in_gs [OF that]] that by blast
  moreover have "long ! (off + b) = 0" if "\<forall>j. \<not> cmatch lens w j"
    using that cm by (intro miss [OF b]) blast
  ultimately show ?thesis unfolding long_done_def b_def [symmetric]
    using m w sh by (intro exI [of _ off] exI [of _ m]) (simp add: b_def)
qed

lemma long_room:
  assumes sc: "small_code lens table0" and inv: "long_inv lens le table0 short0 n dn table short long off (i # rest)"
    and grp: "long_group lens dn i rest gs m" and used: "off = long_used lens dn"
  shows "off + 2 ^ (m - 10) = long_used lens (insert (code_prefix lens i) dn)"
proof -
  have "dn \<subseteq> code_prefix lens ` set (long_syms lens)" using inv by (simp add: long_inv_def)
  then have "finite dn" by (rule finite_subset) simp
  moreover have "code_prefix lens i \<notin> dn" using grp by (simp add: long_group_def)
  ultimately show ?thesis using long_groupD(5) [OF sc grp] used by (simp add: long_used_def)
qed

lemma long_step:
  assumes sc: "small_code lens table0" and inv: "long_inv lens le table0 short0 n dn table short long off (i # rest)"
    and grp: "long_group lens dn i rest gs m" and fb: "fb = code_prefix lens i"
    and mem: "memset0 long off (2 ^ (m - 10)) = Some long1"
    and fold: "foldl (long_set le off m) (table, long1) gs = (table', long')"
  shows "long_inv lens le table0 short0 n (insert (code_prefix lens i) dn) table'
    (short[fb := of_nat off OR push_bit 11 (of_nat m) OR 0x400]) long' (off + 2 ^ (m - 10)) rest"
proof -
  let ?f = "code_prefix lens i" and ?short = "short[fb := of_nat off OR push_bit 11 (of_nat m) OR 0x400]"
  have I: "length table = length lens" "length short = 1024" "length long = n"
    "\<And>j. j < length lens \<Longrightarrow> hc_length (table ! j) = lens ! j"
    "\<And>j. j \<in> set (long_syms lens) \<Longrightarrow> hc_code (table ! j) = (if code_prefix lens j \<in> dn then 0xFFFF else hc_code (table0 ! j))"
    "dn \<subseteq> code_prefix lens ` set (long_syms lens)" "\<And>f. f \<notin> dn \<Longrightarrow> short ! f = short0 ! f"
    "\<And>w. w mod 1024 \<in> dn \<Longrightarrow> long_done lens le short long off w" "off \<le> n"
    using inv unfolding long_inv_def by blast+
  obtain pre where pre: "long_syms lens = pre @ i # rest" "\<And>j. j \<in> set pre \<Longrightarrow> code_prefix lens j \<in> dn"
    using inv unfolding long_inv_def by blast
  have f: "?f \<notin> dn" using grp by (simp add: long_group_def)
  have len1: "length long1 = n" using memset0_nth(1) [OF mem] I(3) by simp
  have G: "length table' = length lens" "length long' = n"
    "\<And>j. hc_length (table' ! j) = hc_length (table ! j)"
    "\<And>j. j < length lens \<Longrightarrow> hc_code (table' ! j) = (if j \<in> set gs then 0xFFFF else hc_code (table ! j))"
    "\<And>k. k < n \<Longrightarrow> \<not> (off \<le> k \<and> k < off + 2 ^ (m - 10)) \<Longrightarrow> long' ! k = long1 ! k"
    "\<And>b g. b < 2 ^ (m - 10) \<Longrightarrow> g \<in> set gs \<Longrightarrow> b mod 2 ^ (lens ! g - 10) = rcode lens g div 1024 \<Longrightarrow> long' ! (off + b) = le g (lens ! g)"
    "\<And>b. b < 2 ^ (m - 10) \<Longrightarrow> (\<And>g. g \<in> set gs \<Longrightarrow> b mod 2 ^ (lens ! g - 10) \<noteq> rcode lens g div 1024) \<Longrightarrow> long' ! (off + b) = long1 ! (off + b)"
    using long_group_filled [OF sc inv grp mem] unfolding fold group_inv_def fst_conv snd_conv I(1) len1 by blast+
  have new: "long_done lens le ?short long' (off + 2 ^ (m - 10)) w" if w: "w mod 1024 = ?f" for w
  proof (rule long_done_group [OF sc grp w])
    show "?short ! ?f = of_nat off OR push_bit 11 (of_nat m) OR 0x400" using fb I(2) by (simp add: code_prefix_def)
    show "long' ! (off + b) = 0" if "b < 2 ^ (m - 10)"
      "\<And>g. g \<in> set gs \<Longrightarrow> b mod 2 ^ (lens ! g - 10) \<noteq> rcode lens g div 1024" for b
      using G(7) [OF that] memset0_nth(4) [OF mem, of "off + b"] that(1) by simp
  qed (rule G(6))
  have old: "long_done lens le ?short long' (off + 2 ^ (m - 10)) w" if w: "w mod 1024 \<in> dn" for w
  proof (rule long_done_mono [OF I(8) [OF w]])
    have "fb \<noteq> w mod 1024" using w f fb by auto
    then show "?short ! (w mod 1024) = short ! (w mod 1024)" by (rule nth_list_update_neq)
    show "long' ! k = long ! k" if "k < off" for k
      using G(5) [of k] memset0_nth(3) [OF mem that] that I(9) by simp
  qed simp
  have code': "hc_code (table' ! j) = (if code_prefix lens j \<in> insert ?f dn then 0xFFFF else hc_code (table0 ! j))"
    if j: "j \<in> set (long_syms lens)" for j
  proof -
    have jl: "j < length lens" "10 < lens ! j" using j set_long_syms [OF sc] by simp_all
    then have "j \<in> set gs \<longleftrightarrow> code_prefix lens j = ?f" using long_groupD(1) [OF sc grp, of j] by simp
    then show ?thesis using G(4) [OF jl(1)] I(5) [OF j] by simp
  qed
  have "?short ! g = short0 ! g" if g: "g \<notin> insert ?f dn" for g
  proof -
    have "fb \<noteq> g" using g fb by auto
    then have "?short ! g = short ! g" by (rule nth_list_update_neq)
    with g show ?thesis using I(7) by simp
  qed
  moreover have "off + 2 ^ (m - 10) \<le> n" using memset0_nth(2) [OF mem] I(3) by simp
  moreover have "\<exists>pre. long_syms lens = pre @ rest \<and> (\<forall>j \<in> set pre. code_prefix lens j \<in> insert ?f dn)"
    using pre by (intro exI [of _ "pre @ [i]"]) auto
  moreover have "i \<in> set (long_syms lens)" using pre(1) by simp
  ultimately show ?thesis unfolding long_inv_def using G(1,2,3) I(2,4,6) code' new old by auto
qed

lemma long_inv_skip:
  assumes "long_inv lens le table0 short0 n dn table short long off (i # rest)" "code_prefix lens i \<in> dn"
  shows "long_inv lens le table0 short0 n dn table short long off rest"
proof -
  obtain pre where "long_syms lens = pre @ i # rest" "\<forall>j \<in> set pre. code_prefix lens j \<in> dn"
    using assms(1) unfolding long_inv_def by blast
  then have "\<exists>pre. long_syms lens = pre @ rest \<and> (\<forall>j \<in> set pre. code_prefix lens j \<in> dn)"
    using assms(2) by (intro exI [of _ "pre @ [i]"]) auto
  with assms(1) show ?thesis unfolding long_inv_def by blast
qed

lemma long_skipped:
  assumes sc: "small_code lens table0" and inv: "long_inv lens le table0 short0 n dn table short long off (i # rest)"
    and eq: "hc_code (table ! i) = 0xFFFF"
  shows "code_prefix lens i \<in> dn"
proof (rule ccontr)
  obtain pre where "long_syms lens = pre @ i # rest" by (rule long_head [OF inv])
  then have i: "i \<in> set (long_syms lens)" by simp
  note c = long_code [OF sc inv i]
  assume "code_prefix lens i \<notin> dn"
  then have "rcode lens i = 65535" using c(5) eq by simp
  moreover have "lens ! i \<le> 15" using sc c(1) by (simp add: small_code_def canon_ok_def MAX_HUFF_TREE_DEPTH_def)
  then have "(2 :: nat) ^ (lens ! i) \<le> 2 ^ 15" by (intro power_increasing) auto
  ultimately show False using rcode_less [OF sc c(1)] by simp
qed

text \<open>The loop succeeds exactly when the long table has room for all groups; what it leaves is
  the invariant with every prefix done.\<close>

lemma long_loop_inv:
  assumes sc: "small_code lens table0" and later: "\<And>m l. m \<le> l \<Longrightarrow> later m l = l"
    and "long_inv lens le table0 short0 n dn table short long off rest" "off = long_used lens dn"
  shows "case long_loop later le table short long off rest of
      None \<Rightarrow> n < long_need lens
    | Some tbl \<Rightarrow> \<exists>dn table off. long_inv lens le table0 short0 n dn table (short_code_lookup tbl) (long_code_lookup tbl) off []
        \<and> off = long_used lens dn"
  using assms(3,4)
proof (induction rest arbitrary: dn table short long off)
  case Nil
  then show ?case by (simp del: split_paired_Ex) blast
next
  case (Cons i rest)
  note inv = Cons.prems(1)
  show ?case
  proof (cases "hc_code (table ! i) = 0xFFFF")
    case True
    show ?thesis
      using Cons.IH [OF long_inv_skip [OF inv long_skipped [OF sc inv True]] Cons.prems(2)] True by simp
  next
    case False
    let ?fb = "hc_code (table ! i) AND 0x3FF"
    let ?others = "filter (\<lambda>j. hc_code (table ! j) AND 0x3FF = ?fb) rest"
    let ?m = "foldl (\<lambda>m j. later m (hc_length (table ! j))) (hc_length (table ! i)) ?others"
    note grp = long_group_intro [of lens table0 le short0 n dn table short long off i rest later, OF sc inv later False]
    note room = long_room [OF sc inv grp Cons.prems(2)]
    show ?thesis
    proof (cases "memset0 long off (2 ^ (?m - 10))")
      case None
      have "insert (code_prefix lens i) dn \<subseteq> code_prefix lens ` {j. j < length lens \<and> 10 < lens ! j}"
      proof -
        have "dn \<subseteq> code_prefix lens ` set (long_syms lens)" using inv by (simp add: long_inv_def)
        moreover obtain pre where "long_syms lens = pre @ i # rest" by (rule long_head [OF inv])
        then have "i \<in> set (long_syms lens)" by simp
        ultimately show ?thesis using set_long_syms [OF sc] by auto
      qed
      then have "long_used lens (insert (code_prefix lens i) dn) \<le> long_need lens"
        unfolding long_need_def long_used_def by (intro sum_mono2) auto
      moreover have "n < off + 2 ^ (?m - 10)"
        using None inv by (simp add: memset0_def long_inv_def split: if_splits)
      ultimately show ?thesis using None False room by (simp add: Let_def ISAL_DECODE_SHORT_BITS_def)
    next
      case (Some long1)
      obtain table' long' where f: "foldl (long_set le off ?m) (table, long1) (i # ?others) = (table', long')" by fastforce
      note step = long_step [OF sc inv grp long_first_bits(2) [OF sc inv False] Some f]
      show ?thesis
        using Cons.IH [OF step room] Some f False by (simp add: Let_def ISAL_DECODE_SHORT_BITS_def)
    qed
  qed
qed

section \<open>The whole table\<close>

text \<open>For a bit string \<open>w\<close>: either no long code shares its first ten bits and the short table
  has the answer, or the long table has it.\<close>

definition small_table :: "nat list \<Rightarrow> (nat \<Rightarrow> nat \<Rightarrow> u16 option) \<Rightarrow> (nat \<Rightarrow> nat \<Rightarrow> u16) \<Rightarrow> inflate_huff_code_small \<Rightarrow> bool" where
  "small_table lens se le tbl \<longleftrightarrow> length (short_code_lookup tbl) = 1024
    \<and> (\<forall>w. (\<exists>j < length lens. 10 < lens ! j \<and> code_prefix lens j = w mod 1024)
        \<and> long_done lens le (short_code_lookup tbl) (long_code_lookup tbl) (length (long_code_lookup tbl)) w
      \<or> (\<forall>i. cmatch lens w i \<longrightarrow> short_code_lookup tbl ! (w mod 1024) = entry_or_0 (se i (lens ! i)) \<and> lens ! i \<le> 10)
        \<and> ((\<forall>i. \<not> cmatch lens w i) \<longrightarrow> short_code_lookup tbl ! (w mod 1024) = 0))"

lemma make_small_loop:
  assumes sc: "small_code lens table" and count: "count_of lens count"
  obtains (empty) "\<And>x. x \<in> set lens \<Longrightarrow> x = 0"
      "make_small later se le result table count = Some (result\<lparr>short_code_lookup := replicate 1024 0\<rparr>)"
  | (loop) short0 where "short_inv lens se 10 short0"
      "make_small later se le result table count
        = long_loop later le table short0 (long_code_lookup result) 0 (long_syms lens)"
      "long_inv lens le table short0 (length (long_code_lookup result)) {} table short0 (long_code_lookup result) 0 (long_syms lens)"
proof -
  let ?ct = "map (count_total_at count) [0..<17]"
  have ct: "?ct ! k = count_total_at count k" if "k < 17" for k
    using that by (subst nth_map) (auto simp del: upt_Suc)
  show thesis
  proof (cases "count_total_at count 16 = 0")
    case True
    then have mk: "make_small later se le result table count = Some (result\<lparr>short_code_lookup := replicate 1024 0\<rparr>)"
      using ct [of 16] by (simp add: make_small_def del: upt_Suc)
    have "filter (\<lambda>x. 0 < x \<and> x < 16) lens = []"
      using count_total_at_filter [OF count, of 16] True by (simp add: MAX_HUFF_TREE_DEPTH_def)
    then have "x = 0" if "x \<in> set lens" for x
      using that sc by (fastforce simp: filter_empty_conv small_code_def canon_ok_def MAX_HUFF_TREE_DEPTH_def)
    then show thesis using empty mk by blast
  next
    case False
    let ?cl = "make_code_list table ?ct"
    let ?l = "lens ! (?cl ! 0)"
    note first = make_code_list_first [OF sc count]
    let ?k = "min ?l 11 - 1"
    have cl0: "?cl ! 0 < length lens" using make_code_list_first_index [OF sc count] False by simp
    have hl: "hc_length (table ! (?cl ! 0)) = ?l" using sc cl0 by (simp add: small_code_def)
    have k: "Suc ?k = min ?l 11" "?k \<le> ISAL_DECODE_SHORT_BITS"
      using first(1) False by (auto simp: ISAL_DECODE_SHORT_BITS_def)
    define short0 where "short0 = short_loop se table ?cl ?ct (min ?l 11) (replicate (2 ^ ?k) 0)"
    have "short_inv lens se ?k (replicate (2 ^ ?k) 0)"
    proof -
      have "\<not> (cmatch lens w i \<and> lens ! i \<le> ?k)" for w i
        unfolding cmatch_iff [OF sc] using first(2) [of i] k(1) False by fastforce
      then show ?thesis unfolding short_inv_def by auto
    qed
    then have si: "short_inv lens se 10 short0"
      unfolding short0_def using short_loop_inv [OF sc count refl _ k(2), of se] k(1)
      by (simp add: ISAL_DECODE_SHORT_BITS_def)
    moreover have "make_small later se le result table count
        = long_loop later le table short0 (long_code_lookup result) 0 (long_syms lens)"
      using False ct [of 11] ct [of 16] long_segment [OF sc count] hl
      by (simp add: make_small_def short0_def Let_def ISAL_DECODE_SHORT_BITS_def del: upt_Suc)
    moreover have "long_inv lens le table short0 (length (long_code_lookup result)) {} table short0 (long_code_lookup result) 0 (long_syms lens)"
      using sc si by (simp add: long_inv_def small_code_def short_inv_def)
    ultimately show thesis by (rule loop)
  qed
qed

text \<open>Every write stays inside \<open>long_code_lookup\<close> exactly when the groups fit.\<close>

lemma make_small_room:
  assumes sc: "small_code lens table" and count: "count_of lens count" and later: "\<And>m l. m \<le> l \<Longrightarrow> later m l = l"
  shows "make_small later se le result table count = None \<longleftrightarrow> length (long_code_lookup result) < long_need lens"
proof (rule make_small_loop [OF sc count])
  assume "\<And>x. x \<in> set lens \<Longrightarrow> x = 0" "make_small later se le result table count = Some (result\<lparr>short_code_lookup := replicate 1024 0\<rparr>)"
  moreover from this(1) have "{j. j < length lens \<and> 10 < lens ! j} = {}" by (metis (no_types, lifting) Collect_empty_eq not_less_zero nth_mem)
  then have "long_need lens = 0" by (simp only: long_need_def long_used_def) simp
  ultimately show ?thesis by simp
next
  fix short0
  assume mk: "make_small later se le result table count
      = long_loop later le table short0 (long_code_lookup result) 0 (long_syms lens)"
    and inv0: "long_inv lens le table short0 (length (long_code_lookup result)) {} table short0 (long_code_lookup result) 0 (long_syms lens)"
  note l = long_loop_inv [of lens table later, OF sc later inv0]
  show ?thesis
  proof (cases "make_small later se le result table count")
    case None
    then show ?thesis using l mk by (simp add: long_used_def)
  next
    case (Some tbl)
    then obtain dn t off where inv: "long_inv lens le table short0 (length (long_code_lookup result)) dn t
        (short_code_lookup tbl) (long_code_lookup tbl) off []" and off: "off = long_used lens dn"
      using l mk by (auto simp: long_used_def)
    have "dn = code_prefix lens ` set (long_syms lens)" using inv unfolding long_inv_def by auto
    also have "set (long_syms lens) = {j. j < length lens \<and> 10 < lens ! j}" using set_long_syms [OF sc] by blast
    finally have "off = long_need lens" using off by (simp add: long_need_def)
    moreover have "off \<le> length (long_code_lookup result)" using inv by (simp add: long_inv_def)
    ultimately show ?thesis using Some by simp
  qed
qed

lemma make_small_table:
  assumes sc: "small_code lens table" and count: "count_of lens count"
    and later: "\<And>m l. m \<le> l \<Longrightarrow> later m l = l"
    and mk: "make_small later se le result table count = Some tbl"
  shows "small_table lens se le tbl" "length (long_code_lookup tbl) = length (long_code_lookup result)"
proof -
  have "small_table lens se le tbl \<and> length (long_code_lookup tbl) = length (long_code_lookup result)"
  proof (rule make_small_loop [OF sc count])
    assume z: "\<And>x. x \<in> set lens \<Longrightarrow> x = 0"
      and e: "make_small later se le result table count = Some (result\<lparr>short_code_lookup := replicate 1024 0\<rparr>)"
    have tbl: "tbl = result\<lparr>short_code_lookup := replicate 1024 0\<rparr>" using mk e by simp
    have no: "\<not> cmatch lens w i" for w i
      unfolding cmatch_iff [OF sc] by (metis z less_irrefl nth_mem)
    have "replicate 1024 (0 :: u16) ! (w mod 1024) = 0" for w :: nat by simp
    moreover have s: "short_code_lookup tbl = replicate 1024 0" "long_code_lookup tbl = long_code_lookup result"
      by (simp_all add: tbl)
    ultimately show ?thesis using no unfolding small_table_def s length_replicate by blast
  next
    fix short0
    assume si: "short_inv lens se 10 short0" and loop: "make_small later se le result table count
        = long_loop later le table short0 (long_code_lookup result) 0 (long_syms lens)"
      and inv0: "long_inv lens le table short0 (length (long_code_lookup result)) {} table short0 (long_code_lookup result) 0 (long_syms lens)"
    obtain dn t off where inv: "long_inv lens le table short0 (length (long_code_lookup result)) dn t
        (short_code_lookup tbl) (long_code_lookup tbl) off []"
      using long_loop_inv [of lens table later, OF sc later inv0] trans [OF loop [symmetric] mk]
      by (auto simp: long_used_def)
    have len: "length (long_code_lookup tbl) = length (long_code_lookup result)" "length (short_code_lookup tbl) = 1024"
      using inv by (simp_all add: long_inv_def)
    have "(\<exists>j < length lens. 10 < lens ! j \<and> code_prefix lens j = w mod 1024)
        \<and> long_done lens le (short_code_lookup tbl) (long_code_lookup tbl) (length (long_code_lookup tbl)) w
      \<or> (\<forall>i. cmatch lens w i \<longrightarrow> short_code_lookup tbl ! (w mod 1024) = entry_or_0 (se i (lens ! i)) \<and> lens ! i \<le> 10)
        \<and> ((\<forall>i. \<not> cmatch lens w i) \<longrightarrow> short_code_lookup tbl ! (w mod 1024) = 0)" for w
    proof (cases "w mod 1024 \<in> dn")
      case True
      then have "long_done lens le (short_code_lookup tbl) (long_code_lookup tbl) off w" "off \<le> length (long_code_lookup tbl)"
        using inv len by (simp_all add: long_inv_def)
      moreover have "\<exists>j < length lens. 10 < lens ! j \<and> code_prefix lens j = w mod 1024"
      proof -
        obtain j where "j \<in> set (long_syms lens)" "w mod 1024 = code_prefix lens j"
          using inv True unfolding long_inv_def by blast
        then show ?thesis using set_long_syms [OF sc] by auto
      qed
      ultimately show ?thesis using long_done_mono by blast
    next
      case F: False
      have eq: "short_code_lookup tbl ! (w mod 1024) = short0 ! (w mod 1024)" using inv F by (simp add: long_inv_def)
      have le: "lens ! i \<le> 10" if m: "cmatch lens w i" for i
      proof (rule ccontr)
        assume c: "\<not> lens ! i \<le> 10"
        then have "i \<in> set (long_syms lens)" using m set_long_syms [OF sc] by simp
        then have "code_prefix lens i \<in> dn" using inv unfolding long_inv_def by simp
        moreover have "code_prefix lens i = w mod 1024"
          using m c mod_1024_pow [of "lens ! i" w] unfolding cmatch_iff [OF sc] code_prefix_def by simp
        ultimately show False using F by simp
      qed
      have w: "w mod 1024 < 2 ^ 10" by simp
      have s1: "short0 ! (w mod 1024) = entry_or_0 (se i (lens ! i))" if m: "cmatch lens w i" for i
      proof -
        have "cmatch lens (w mod 2 ^ 10) i" using cmatch_mod [OF sc le [OF m], of w] m by blast
        then show ?thesis using si w le [OF m] unfolding short_inv_def by simp
      qed
      have s2: "short0 ! (w mod 1024) = 0" if m: "\<forall>i. \<not> cmatch lens w i"
      proof -
        have "10 < lens ! i" if "cmatch lens (w mod 1024) i" for i
          using cmatch_mod [OF sc, of i 10 w] m that by (cases "lens ! i \<le> 10") auto
        then show ?thesis using si w unfolding short_inv_def by blast
      qed
      show ?thesis unfolding eq using s1 s2 le by blast
    qed
    then show ?thesis using len by (simp add: small_table_def)
  qed
  then show "small_table lens se le tbl" "length (long_code_lookup tbl) = length (long_code_lookup result)"
    by blast+
qed

end
