(* ===== verification/Inflate_Symbols.thy ===== *)
theory Inflate_Symbols
  imports Inflate_Lookup_Correct
begin

text \<open>
  \<open>decode_next_dist\<close> and \<open>decode_next_header\<close> with a table made from a canonical code read one
  code word from the stream.
\<close>

section \<open>The bits a decoder looks at\<close>

lemma small_code_le15: "small_code lens table \<Longrightarrow> i < length lens \<Longrightarrow> lens ! i \<le> 15"
  by (simp add: small_code_def canon_ok_def MAX_HUFF_TREE_DEPTH_def)

definition in_peek :: "inflate_state \<Rightarrow> inflate_state" where
  "in_peek s = (if read_in_length s \<le> 15 then inflate_in_load s else s)"

definition in_window :: "bool list \<Rightarrow> nat" where
  "in_window bs = bits_val (map (pad_bit bs) [0..<15])"

lemma in_peek:
  assumes "in_wf s"
  shows "in_wf (in_peek s)" "in_bits (in_peek s) = in_bits s" "in_rest (in_peek s) = in_rest s"
    "in_pos (in_peek s) = in_pos s" "in_end (in_peek s) = in_end s"
  using assms inflate_in_load [OF assms] by (simp_all add: in_peek_def in_loaded_def)

lemma in_peek_bit:
  assumes "in_wf s" "i < 16"
  shows "bit (read_in (in_peek s)) i \<longleftrightarrow> pad_bit (in_bits s) i"
  using assms inflate_in_load [OF assms(1)] in_loaded_bit [of "inflate_in_load s" i] in_bits_low [of i s]
  by (auto simp: in_peek_def)

lemma in_peek_length:
  assumes "in_wf s" "n \<le> 16"
  shows "int n \<le> read_in_length (in_peek s) \<longleftrightarrow> n \<le> length (in_bits s)"
proof (cases "read_in_length s \<le> 15")
  case True
  then show ?thesis
    using inflate_in_load [OF assms(1)] in_loaded_length [of "inflate_in_load s" n] assms(2) by (simp add: in_peek_def)
next
  case False
  then show ?thesis using assms(2) length_in_bits [of s] by (simp add: in_peek_def)
qed

lemma unat_and_ones:
  "n < 64 \<Longrightarrow> unat ((r :: u64) AND (push_bit n 1 - 1)) = unat r mod 2 ^ n"
proof -
  assume n: "n < 64"
  have m: "(push_bit n 1 - 1 :: u64) = mask n" by (simp add: mask_eq_exp_minus_1 push_bit_eq_mult)
  have "unat (r AND mask n) = take_bit n (unat r)"
    using n by (intro bit_eqI) (auto simp: bit_simps bit_mask_iff)
  then show ?thesis unfolding m by (simp add: take_bit_eq_mod)
qed

lemma in_peek_word:
  assumes "in_wf s" "n \<le> 15"
  shows "unat (read_in (in_peek s)) mod 2 ^ n = in_window (in_bits s) mod 2 ^ n"
proof -
  have "take_bit n (unat (read_in (in_peek s))) = take_bit n (in_window (in_bits s))"
    using assms in_peek_bit [OF assms(1)]
    by (intro bit_eqI) (auto simp: bit_simps in_window_def bits_val_nth pad_bit_def [of "map _ _"])
  then show ?thesis by (simp add: take_bit_eq_mod)
qed

text \<open>The code word of a symbol as it stands in the stream.\<close>

definition huff_bits :: "nat list \<Rightarrow> nat \<Rightarrow> bool list" where
  "huff_bits lens i = map (bit (rcode lens i)) [0..<lens ! i]"

lemma length_huff_bits [simp]: "length (huff_bits lens i) = lens ! i"
  by (simp add: huff_bits_def)

lemma cmatch_window:
  assumes sc: "small_code lens table"
  shows "cmatch lens (in_window bs) i
    \<longleftrightarrow> i < length lens \<and> 0 < lens ! i \<and> (\<forall>k < lens ! i. pad_bit bs k = bit (rcode lens i) k)"
proof (cases "i < length lens \<and> 0 < lens ! i")
  case True
  then have le: "lens ! i \<le> 15" using sc by (simp add: small_code_def canon_ok_def MAX_HUFF_TREE_DEPTH_def)
  have r: "rcode lens i = take_bit (lens ! i) (rcode lens i)"
    using rcode_less [OF sc, of i] True by (simp add: take_bit_nat_eq_self)
  have "in_window bs mod 2 ^ (lens ! i) = rcode lens i
    \<longleftrightarrow> take_bit (lens ! i) (in_window bs) = take_bit (lens ! i) (rcode lens i)"
    using r by (simp add: take_bit_eq_mod)
  also have "\<dots> \<longleftrightarrow> (\<forall>k. k < lens ! i \<longrightarrow> bit (in_window bs) k = bit (rcode lens i) k)"
    unfolding bit_eq_iff bit_take_bit_iff by auto
  also have "\<dots> \<longleftrightarrow> (\<forall>k < lens ! i. pad_bit bs k = bit (rcode lens i) k)"
  proof -
    have "bit (in_window bs) k = pad_bit bs k" if "k < lens ! i" for k
      using that le by (simp add: in_window_def bits_val_nth pad_bit_def [of "map _ _"])
    then show ?thesis by blast
  qed
  finally show ?thesis using True unfolding cmatch_iff [OF sc] by simp
qed (auto simp: cmatch_iff [OF sc])

lemma cmatch_huff_bits:
  assumes "small_code lens table" "i < length lens" "0 < lens ! i"
  shows "cmatch lens (in_window (huff_bits lens i @ rest)) i"
  using assms unfolding cmatch_window [OF assms(1)] by (simp add: pad_bit_append) (simp add: huff_bits_def)

lemma cmatch_prefix:
  assumes "small_code lens table" "cmatch lens (in_window bs) i" "lens ! i \<le> length bs"
  shows "bs = huff_bits lens i @ drop (lens ! i) bs"
proof -
  have "take (lens ! i) bs = huff_bits lens i"
    using assms(2,3) unfolding cmatch_window [OF assms(1)]
    by (intro nth_equalityI) (auto simp: huff_bits_def pad_bit_def)
  then show ?thesis by (metis append_take_drop_id)
qed

section \<open>The entries\<close>

lemma and_400: "(x :: u16) AND 0x400 = 0 \<longleftrightarrow> \<not> bit x 10"
proof -
  define c :: u16 where "c = push_bit 10 1"
  have c: "c = 0x400" by (simp add: c_def)
  have cb: "bit c n \<longleftrightarrow> n = 10" for n
    unfolding c_def bit_push_bit_iff by (auto simp: bit_simps)
  have "x AND c = 0 \<longleftrightarrow> \<not> bit x 10"
  proof
    assume "x AND c = 0"
    then have "\<not> bit (x AND c) 10" by simp
    then show "\<not> bit x 10" by (simp add: bit_and_iff cb)
  next
    assume "\<not> bit x 10"
    then show "x AND c = 0" by (intro bit_word_eqI) (auto simp: bit_and_iff cb)
  qed
  with c show ?thesis by simp
qed

lemma bit_of_nat_less:
  assumes "x < 2 ^ k" "bit (of_nat x :: 'a::len word) n"
  shows "n < k"
  using assms bit_take_bit_iff [of k x n] by (simp add: take_bit_nat_eq_self bit_simps)

lemma entry_word:
  assumes "i < 32" "x < 16" "l < 16" "s = 10 \<or> s = 11"
  defines "e \<equiv> of_nat i OR push_bit 5 (of_nat x) OR push_bit s (of_nat l) :: u16"
  shows "unat (drop_bit s e) = l" "e AND 0x1F = of_nat i" "s = 11 \<Longrightarrow> e AND 0x400 = 0"
proof -
  have b: "bit (of_nat i :: u16) n \<Longrightarrow> n < 5" "bit (of_nat x :: u16) n \<Longrightarrow> n < 4" "bit (of_nat l :: u16) n \<Longrightarrow> n < 4" for n
    using assms(1-3) bit_of_nat_less [of i 5] bit_of_nat_less [of x 4] bit_of_nat_less [of l 4] by auto
  have bn: "bit i n \<Longrightarrow> n < 5" "bit x n \<Longrightarrow> n < 4" "bit l n \<Longrightarrow> n < 4" for n
    using assms(1-3) bit_take_bit_iff [of 5 i n] bit_take_bit_iff [of 4 x n] bit_take_bit_iff [of 4 l n]
    by (simp_all add: take_bit_nat_eq_self)
  show "unat (drop_bit s e) = l"
    using assms(4) by (intro bit_eqI) (auto simp: e_def bit_simps dest: bn)
  have m5: "(0x1F :: u16) = mask 5" by (simp add: mask_eq_exp_minus_1)
  show "e AND 0x1F = of_nat i"
    unfolding m5 using assms(4) by (intro bit_word_eqI) (auto simp: e_def bit_simps bit_mask_iff dest: bn)
  show "e AND 0x400 = 0" if "s = 11"
    unfolding and_400 using that by (auto simp: e_def bit_simps dest: bn)
qed

lemma entry_length:
  assumes "l < 16"
  shows "unat (of_nat l :: u16) = l" "(of_nat l :: u16) AND 0x400 = 0" "drop_bit 10 (of_nat l :: u16) = 0"
    "drop_bit 11 (of_nat l :: u16) = 0"
proof -
  have bn: "bit l n \<Longrightarrow> n < 4" for n
    using assms bit_take_bit_iff [of 4 l n] by (simp add: take_bit_nat_eq_self)
  show "unat (of_nat l :: u16) = l" using assms by (simp add: unat_of_nat)
  show "(of_nat l :: u16) AND 0x400 = 0"
    unfolding and_400 by (auto simp: bit_simps dest: bn)
  show "drop_bit 10 (of_nat l :: u16) = 0" "drop_bit 11 (of_nat l :: u16) = 0"
    by (rule bit_word_eqI, auto simp: bit_simps dest: bn)+
qed

section \<open>decode_next_dist\<close>

lemma dist_extra_less: "dist_extra_bit_count ! i < 16" if "i < 32"
proof -
  have "\<forall>x \<in> set dist_extra_bit_count. x < 16" by (simp add: dist_extra_bit_count_def)
  moreover have "length dist_extra_bit_count = 32" by (simp add: dist_extra_bit_count_def)
  ultimately show ?thesis using that by simp
qed

definition dist_table :: "nat list \<Rightarrow> nat \<Rightarrow> inflate_huff_code_small \<Rightarrow> bool" where
  "dist_table lens max_symbol tbl \<longleftrightarrow>
    (\<exists>table. small_code lens table) \<and> small_table lens (dist_short_entry max_symbol) (dist_long_entry max_symbol) tbl
    \<and> max_symbol \<le> 32 \<and> length (long_code_lookup tbl) \<le> 512"

text \<open>The state after an invalid symbol: its length is taken off the count, not off the register.\<close>

definition in_invalid :: "nat \<Rightarrow> inflate_state \<Rightarrow> inflate_state" where
  "in_invalid n s = (in_skip 0 (in_peek s))\<lparr>read_in_length := read_in_length (in_peek s) - int n\<rparr>"

lemma get_at_Some: "i < length xs \<Longrightarrow> get_at xs i = Some (xs ! i)"
  by (simp add: get_at_def)

text \<open>The two lookups as one: the entry found and where its length starts.\<close>

definition dist_result :: "inflate_state \<Rightarrow> nat \<Rightarrow> u16 \<Rightarrow> (u16 \<times> inflate_state) option" where
  "dist_result s shift e = (if unat (drop_bit shift e) = 0 then Some (INVALID_SYMBOL AND 0x1F, in_invalid (unat e) s)
    else Some (e AND 0x1F, in_skip (unat (drop_bit shift e)) (in_peek s)))"

lemma small_lookup:
  assumes wf: "in_wf s" and t: "small_table lens se le tbl" and sc: "small_code lens table"
    and n: "length (long_code_lookup tbl) \<le> 512"
    and flag: "\<And>i. i < length lens \<Longrightarrow> lens ! i \<le> 10 \<Longrightarrow> entry_or_0 (se i (lens ! i)) AND 0x400 = 0"
  obtains (short) e where "get_at (short_code_lookup tbl) (unat (read_in (in_peek s) AND 0x3FF)) = Some e" "e AND 0x400 = 0"
      "\<And>i. cmatch lens (in_window (in_bits s)) i \<Longrightarrow> e = entry_or_0 (se i (lens ! i)) \<and> lens ! i \<le> 10"
      "(\<forall>i. \<not> cmatch lens (in_window (in_bits s)) i) \<Longrightarrow> e = 0"
  | (long) h e where "get_at (short_code_lookup tbl) (unat (read_in (in_peek s) AND 0x3FF)) = Some h" "h AND 0x400 \<noteq> 0"
      "get_at (long_code_lookup tbl) (unat (h AND 0x1FF)
        + unat (read_in (in_peek s) AND (push_bit (unat (drop_bit 11 (h - 0x400))) 1 - 1)) div 1024) = Some e"
      "\<exists>j < length lens. 10 < lens ! j"
      "\<And>i. cmatch lens (in_window (in_bits s)) i \<Longrightarrow> e = le i (lens ! i)"
      "(\<forall>i. \<not> cmatch lens (in_window (in_bits s)) i) \<Longrightarrow> e = 0"
proof -
  let ?w = "in_window (in_bits s)" and ?sh = "short_code_lookup tbl" and ?lo = "long_code_lookup tbl"
  have m10: "(0x3FF :: u64) = push_bit 10 1 - 1" by simp
  have ix: "unat (read_in (in_peek s) AND 0x3FF) = ?w mod 1024"
    unfolding m10 using unat_and_ones [of 10] in_peek_word [OF wf, of 10] by simp
  have len: "length ?sh = 1024" using t by (simp add: small_table_def)
  have get: "get_at ?sh (unat (read_in (in_peek s) AND 0x3FF)) = Some (?sh ! (?w mod 1024))"
    by (simp only: ix) (simp add: get_at_Some len)
  show thesis
  proof (cases "(\<exists>j < length lens. 10 < lens ! j \<and> code_prefix lens j = ?w mod 1024)
      \<and> long_done lens le ?sh ?lo (length ?lo) ?w")
    case True
    then obtain p m where pm: "10 < m" "m \<le> 15" "?sh ! (?w mod 1024) = of_nat p OR push_bit 11 (of_nat m) OR 0x400"
      "p + 2 ^ (m - 10) \<le> length ?lo"
      "\<And>i. cmatch lens ?w i \<Longrightarrow> ?lo ! (p + ?w mod 2 ^ m div 1024) = le i (lens ! i)"
      "(\<forall>i. \<not> cmatch lens ?w i) \<Longrightarrow> ?lo ! (p + ?w mod 2 ^ m div 1024) = 0"
      unfolding long_done_def by blast
    have p: "p < 512"
    proof -
      have "(0 :: nat) < 2 ^ (m - 10)" by simp
      then show ?thesis using pm(4) n by linarith
    qed
    note h = hint_word [OF p, of m]
    have m32: "m < 32" using pm(2) by simp
    let ?h = "?sh ! (?w mod 1024)"
    have hm: "unat (drop_bit 11 (?h - 0x400)) = m" "unat (?h AND 0x1FF) = p" "?h AND 0x400 \<noteq> 0"
      unfolding pm(3) using h [OF m32] by blast+
    have "(2 :: nat) ^ m = 2 ^ (m - 10) * 1024"
    proof -
      have "(2 :: nat) ^ m = 2 ^ ((m - 10) + 10)" using pm(1) by simp
      then show ?thesis unfolding power_add by simp
    qed
    then have "?w mod 2 ^ m div 1024 < 2 ^ (m - 10)" by (simp add: div_less_iff_less_mult)
    then have "p + ?w mod 2 ^ m div 1024 < length ?lo" using pm(4) by simp
    moreover have "unat (read_in (in_peek s) AND (push_bit m 1 - 1)) = ?w mod 2 ^ m"
      using unat_and_ones [of m] in_peek_word [OF wf pm(2)] pm(2) by simp
    ultimately have "get_at ?lo (unat (?h AND 0x1FF)
        + unat (read_in (in_peek s) AND (push_bit (unat (drop_bit 11 (?h - 0x400))) 1 - 1)) div 1024)
        = Some (?lo ! (p + ?w mod 2 ^ m div 1024))"
      unfolding hm by (simp add: get_at_Some)
    then show thesis using long [OF get hm(3) _ _ pm(5,6)] True by blast
  next
    case False
    then have f: "\<And>i. cmatch lens ?w i \<Longrightarrow> ?sh ! (?w mod 1024) = entry_or_0 (se i (lens ! i)) \<and> lens ! i \<le> 10"
      "(\<forall>i. \<not> cmatch lens ?w i) \<Longrightarrow> ?sh ! (?w mod 1024) = 0"
      using t unfolding small_table_def by blast+
    have "?sh ! (?w mod 1024) AND 0x400 = 0"
    proof (cases "\<exists>i. cmatch lens ?w i")
      case True
      then show ?thesis using f(1) flag by metis
    next
      case False
      then show ?thesis using f(2) by simp
    qed
    then show thesis using short [OF get _ f] by blast
  qed
qed

lemma decode_next_dist_step:
  assumes wf: "in_wf s" and t: "dist_table lens max_symbol tbl"
  shows "cmatch lens (in_window (in_bits s)) i \<Longrightarrow> decode_next_dist s tbl =
      Some (if i < max_symbol then (of_nat i, in_skip (lens ! i) (in_peek s)) else (31, in_invalid (lens ! i) s))"
    and "(\<forall>i. \<not> cmatch lens (in_window (in_bits s)) i) \<Longrightarrow> decode_next_dist s tbl = Some (31, in_invalid 0 s)"
proof -
  obtain table where sc: "small_code lens table" using t by (auto simp: dist_table_def)
  have tb: "small_table lens (dist_short_entry max_symbol) (dist_long_entry max_symbol) tbl" "length (long_code_lookup tbl) \<le> 512"
    and mx: "max_symbol \<le> 32"
    using t by (simp_all add: dist_table_def)
  have l15: "lens ! j < 16" if "j < length lens" for j
    using small_code_le15 [OF sc that] by simp
  have inv: "INVALID_SYMBOL AND 0x1F = 31" by (simp add: INVALID_SYMBOL_def)
  have es: "dist_result s 11 (entry_or_0 (dist_short_entry max_symbol j (lens ! j)))
      = Some (if j < max_symbol then (of_nat j, in_skip (lens ! j) (in_peek s)) else (31, in_invalid (lens ! j) s))"
    and el: "dist_result s 10 (dist_long_entry max_symbol j (lens ! j))
      = Some (if j < max_symbol then (of_nat j, in_skip (lens ! j) (in_peek s)) else (31, in_invalid (lens ! j) s))"
    and fl: "entry_or_0 (dist_short_entry max_symbol j (lens ! j)) AND 0x400 = 0"
    if j: "j < length lens" "0 < lens ! j" for j
    using entry_word [of j "dist_extra_bit_count ! j" "lens ! j" 11] entry_word [of j "dist_extra_bit_count ! j" "lens ! j" 10]
      entry_length [OF l15 [OF j(1)]] dist_extra_less [of j] l15 [OF j(1)] j mx
    by (auto simp: dist_result_def dist_short_entry_def dist_long_entry_def entry_or_0_def inv)
  have e0: "dist_result s k 0 = Some (31, in_invalid 0 s)" for k by (simp add: dist_result_def inv)
  have flag: "entry_or_0 (dist_short_entry max_symbol j (lens ! j)) AND 0x400 = 0" if "j < length lens" for j
    using entry_word(3) [of j "dist_extra_bit_count ! j" "lens ! j" 11] entry_length(2) [OF l15 [OF that]]
      dist_extra_less [of j] l15 [OF that] mx
    by (auto simp: dist_short_entry_def entry_or_0_def)
  show "decode_next_dist s tbl =
      Some (if i < max_symbol then (of_nat i, in_skip (lens ! i) (in_peek s)) else (31, in_invalid (lens ! i) s))"
    if m: "cmatch lens (in_window (in_bits s)) i"
  proof -
    have i: "i < length lens" "0 < lens ! i" using m unfolding cmatch_iff [OF sc] by simp_all
    show ?thesis
    proof (rule small_lookup [OF wf tb(1) sc tb(2) flag])
      fix e assume e: "get_at (short_code_lookup tbl) (unat (read_in (in_peek s) AND 0x3FF)) = Some e" "e AND 0x400 = 0"
        "\<And>i. cmatch lens (in_window (in_bits s)) i \<Longrightarrow> e = entry_or_0 (dist_short_entry max_symbol i (lens ! i)) \<and> lens ! i \<le> 10"
      then have "decode_next_dist s tbl = dist_result s 11 e"
        by (simp add: decode_next_dist_def in_peek_def [symmetric] dist_result_def in_invalid_def Let_def)
      then show ?thesis using e(3) [OF m] es [OF i] by simp
    next
      fix h e assume e: "get_at (short_code_lookup tbl) (unat (read_in (in_peek s) AND 0x3FF)) = Some h" "h AND 0x400 \<noteq> 0"
        "get_at (long_code_lookup tbl) (unat (h AND 0x1FF)
          + unat (read_in (in_peek s) AND (push_bit (unat (drop_bit 11 (h - 0x400))) 1 - 1)) div 1024) = Some e"
        "\<And>i. cmatch lens (in_window (in_bits s)) i \<Longrightarrow> e = dist_long_entry max_symbol i (lens ! i)"
      then have "decode_next_dist s tbl = dist_result s 10 e"
        by (simp add: decode_next_dist_def in_peek_def [symmetric] dist_result_def in_invalid_def Let_def ISAL_DECODE_SHORT_BITS_def)
      then show ?thesis using e(4) [OF m] el [OF i] by simp
    qed simp_all
  qed
  show "decode_next_dist s tbl = Some (31, in_invalid 0 s)" if m: "\<forall>i. \<not> cmatch lens (in_window (in_bits s)) i"
  proof (rule small_lookup [OF wf tb(1) sc tb(2) flag])
    fix e assume e: "get_at (short_code_lookup tbl) (unat (read_in (in_peek s) AND 0x3FF)) = Some e" "e AND 0x400 = 0"
      "(\<forall>i. \<not> cmatch lens (in_window (in_bits s)) i) \<Longrightarrow> e = 0"
    then have "decode_next_dist s tbl = dist_result s 11 0"
      using m by (simp add: decode_next_dist_def in_peek_def [symmetric] dist_result_def in_invalid_def Let_def)
    then show ?thesis using e0 by simp
  next
    fix h e assume e: "get_at (short_code_lookup tbl) (unat (read_in (in_peek s) AND 0x3FF)) = Some h" "h AND 0x400 \<noteq> 0"
      "get_at (long_code_lookup tbl) (unat (h AND 0x1FF)
        + unat (read_in (in_peek s) AND (push_bit (unat (drop_bit 11 (h - 0x400))) 1 - 1)) div 1024) = Some e"
      "(\<forall>i. \<not> cmatch lens (in_window (in_bits s)) i) \<Longrightarrow> e = 0"
    then have "decode_next_dist s tbl = dist_result s 10 0"
      using m by (simp add: decode_next_dist_def in_peek_def [symmetric] dist_result_def in_invalid_def Let_def ISAL_DECODE_SHORT_BITS_def)
    then show ?thesis using e0 by simp
  qed simp_all
qed

lemma make_dist_table:
  assumes "small_code lens table" "count_of lens count" "max_symbol \<le> 32" "length (long_code_lookup result) \<le> 512"
    "make_inflate_huff_code_dist result table count max_symbol = Some tbl"
  shows "dist_table lens max_symbol tbl"
  using make_small_table [OF assms(1,2) _ assms(5) [unfolded make_inflate_huff_code_dist_def]] assms(1,3,4)
  by (auto simp: dist_table_def)

lemma decode_next_dist_bits:
  assumes wf: "in_wf s" and t: "dist_table lens max_symbol tbl"
    and i: "i < length lens" "0 < lens ! i" "i < max_symbol" and bs: "in_bits s = huff_bits lens i @ rest"
  obtains s' where "decode_next_dist s tbl = Some (of_nat i, s')" "in_wf s'" "in_bits s' = rest" "in_rest s' = in_rest s"
    "in_end s' = in_end s" "in_pos s' = in_pos s + int (lens ! i)"
proof
  obtain table where sc: "small_code lens table" using t by (auto simp: dist_table_def)
  note p = in_peek [OF wf]
  have m: "cmatch lens (in_window (in_bits s)) i" unfolding bs by (rule cmatch_huff_bits [OF sc i(1,2)])
  then show "decode_next_dist s tbl = Some (of_nat i, in_skip (lens ! i) (in_peek s))"
    using decode_next_dist_step(1) [OF wf t m] i(3) by simp
  have "int (lens ! i) \<le> read_in_length (in_peek s)"
    using in_peek_length [OF wf, of "lens ! i"] small_code_le15 [OF sc i(1)] bs by simp
  note sk = in_skip [OF p(1) this]
  show "in_wf (in_skip (lens ! i) (in_peek s))" by (rule sk)
  show "in_bits (in_skip (lens ! i) (in_peek s)) = rest" using sk(2) p(2) bs by simp
qed (use in_peek [OF wf] in simp_all)

text \<open>
  C23: the distance decoder. When \<open>set_codes\<close> accepted the code lengths and
  \<open>make_inflate_huff_code_dist\<close> built its tables, a stream that begins with the code word of a
  distance symbol is decoded to that symbol, and exactly the bits of the word are taken.
\<close>

theorem decode_next_dist_decodes:
  assumes "count_of (map hc_length table) count" "\<forall>h \<in> set table. hc_length h \<le> MAX_HUFF_TREE_DEPTH"
    and "length table \<le> 32" "max_symbol \<le> 32" "length (long_code_lookup result) \<le> 512"
    and "set_codes table count = (0, table')"
    and "make_inflate_huff_code_dist result table' count max_symbol = Some tbl"
    and "in_wf s" "i < length table" "0 < hc_length (table ! i)" "i < max_symbol"
    and "in_bits s = huff_bits (map hc_length table) i @ rest"
  shows "\<exists>s'. decode_next_dist s tbl = Some (of_nat i, s') \<and> in_wf s' \<and> in_bits s' = rest \<and> in_rest s' = in_rest s"
proof -
  have "dist_table (map hc_length table) max_symbol tbl"
    using set_codes_small_code [OF assms(1,3,6,2)] assms(1,4,5,7) by (rule make_dist_table)
  from decode_next_dist_bits [OF assms(8) this, of i rest] assms(9-12) show ?thesis by auto
qed

text \<open>A stream that begins with no code word gives the invalid symbol 31.\<close>

lemma decode_next_dist_invalid:
  assumes "in_wf s" "dist_table lens max_symbol tbl"
    and "\<And>i rest. i < length lens \<Longrightarrow> 0 < lens ! i \<Longrightarrow> in_bits s \<noteq> huff_bits lens i @ rest" "15 \<le> length (in_bits s)"
  shows "\<exists>s'. decode_next_dist s tbl = Some (31, s')"
proof -
  obtain table where sc: "small_code lens table" using assms(2) by (auto simp: dist_table_def)
  have "\<not> cmatch lens (in_window (in_bits s)) i" for i
  proof
    assume m: "cmatch lens (in_window (in_bits s)) i"
    then have i: "i < length lens" "0 < lens ! i" unfolding cmatch_iff [OF sc] by simp_all
    have "lens ! i \<le> length (in_bits s)" using small_code_le15 [OF sc i(1)] assms(4) by simp
    then have "in_bits s = huff_bits lens i @ drop (lens ! i) (in_bits s)" by (rule cmatch_prefix [OF sc m])
    then show False using assms(3) [OF i] by blast
  qed
  then show ?thesis using decode_next_dist_step(2) [OF assms(1,2)] by blast
qed

section \<open>Room in the long table\<close>

lemma long_need_ge:
  assumes sc: "small_code lens table" and js: "\<And>j. j \<in> set js \<Longrightarrow> j < length lens \<and> 10 < lens ! j"
    and dist: "distinct (map (\<lambda>j. canon_lo lens j div 32) js)"
  shows "(\<Sum>j \<leftarrow> js. 2 ^ (lens ! j - 10)) \<le> long_need lens"
proof -
  let ?L = "{j. j < length lens \<and> 10 < lens ! j}"
  have sub: "set js \<subseteq> ?L" using js by auto
  have inj: "inj_on (code_prefix lens) (set js)"
  proof (rule inj_onI)
    fix i j assume ij: "i \<in> set js" "j \<in> set js" "code_prefix lens i = code_prefix lens j"
    have "canon_lo lens i div 32 = canon_lo lens j div 32"
      using ij js code_prefix_rev [OF sc, of i] code_prefix_rev [OF sc, of j]
      rev_bits_inj [of "canon_lo lens i div 32" 10 "canon_lo lens j div 32"] by simp
    then show "i = j" using dist ij by (auto simp: distinct_map dest: inj_onD)
  qed
  have "(\<Sum>j \<leftarrow> js. 2 ^ (lens ! j - 10)) = (\<Sum>j \<in> set js. (2 :: nat) ^ (lens ! j - 10))"
    using dist by (intro sum_list_distinct_conv_sum_set) (simp add: distinct_map)
  also have "\<dots> \<le> (\<Sum>j \<in> set js. 2 ^ (group_max lens (code_prefix lens j) - 10))"
  proof (rule sum_mono)
    fix j assume "j \<in> set js"
    then have "lens ! j \<le> group_max lens (code_prefix lens j)"
      unfolding group_max_def using js by (intro Max_ge) auto
    then show "(2 :: nat) ^ (lens ! j - 10) \<le> 2 ^ (group_max lens (code_prefix lens j) - 10)"
      by (intro power_increasing diff_le_mono) auto
  qed
  also have "\<dots> = long_used lens (code_prefix lens ` set js)"
    unfolding long_used_def by (simp add: sum.reindex [OF inj])
  also have "\<dots> \<le> long_need lens"
    unfolding long_need_def long_used_def using sub by (intro sum_mono2) auto
  finally show ?thesis .
qed

lemma make_dist_room:
  assumes "count_of (map hc_length table) count" "\<forall>h \<in> set table. hc_length h \<le> MAX_HUFF_TREE_DEPTH"
    and "length table \<le> 32" "set_codes table count = (0, table')"
  shows "make_inflate_huff_code_dist result table' count max_symbol = None
    \<longleftrightarrow> length (long_code_lookup result) < long_need (map hc_length table)"
  unfolding make_inflate_huff_code_dist_def
  by (rule make_small_room [OF set_codes_small_code [OF assms(1,3,4,2)] assms(1)]) simp

text \<open>
  C24: the writes to \<open>long_code_lookup\<close> stay inside the array exactly when the groups of long
  codes fit, a group taking \<open>2\<^sup>m\<^sup>-\<^sup>1\<^sup>0\<close> entries for its longest code of \<open>m\<close> bits.
\<close>

theorem make_dist_in_bounds:
  assumes "count_of (map hc_length table) count" "\<forall>h \<in> set table. hc_length h \<le> MAX_HUFF_TREE_DEPTH"
    and "length table \<le> 32" "set_codes table count = (0, table')"
  shows "make_inflate_huff_code_dist result table' count max_symbol = None
    \<longleftrightarrow> length (long_code_lookup result) < long_need (map hc_length table)"
  using assms by (rule make_dist_room)

lemma long_need_short: "\<forall>l \<in> set lens. l \<le> 10 \<Longrightarrow> long_need lens = 0"
proof -
  assume "\<forall>l \<in> set lens. l \<le> 10"
  then have none: "{j. j < length lens \<and> 10 < lens ! j} = {}"
    using nth_mem [of _ lens] by (metis (mono_tags, lifting) Collect_empty_eq not_less)
  show "long_need lens = 0" unfolding long_need_def none by (simp add: long_used_def)
qed

lemma two_code:
  "set_codes [write_huff_code 0 1, write_huff_code 0 1] (0 # 2 # replicate 14 0)
    = (0, snd (set_codes [write_huff_code 0 1, write_huff_code 0 1] (0 # 2 # replicate 14 0)))"
proof -
  have "fst (set_codes [write_huff_code 0 1, write_huff_code 0 1] (0 # 2 # replicate 14 0)) = 0" by code_simp
  then show ?thesis by (metis prod.collapse)
qed

lemma two_count: "count_of (map hc_length [write_huff_code 0 1, write_huff_code 0 1]) (0 # 2 # replicate 14 0)"
  by (auto simp: count_of_def MAX_HUFF_TREE_DEPTH_def sym_count_def nth_Cons')

lemma two_bits: "huff_bits (map hc_length [write_huff_code 0 1, write_huff_code 0 1]) 1 = [True]"
proof -
  have "canon_total [1, 1] = 2 ^ 15" "canon_lo [1, 1] 1 = 2 ^ 14"
    by (simp_all add: canon_total_def canon_lo_def canon_code_def canon_next.simps sym_count_def MAX_HUFF_TREE_DEPTH_def)
  then show ?thesis
    by (simp add: huff_bits_def stream_code_def canon_len_def canon_ok_def MAX_HUFF_TREE_DEPTH_def rev_bits_def bit_0)
qed

theorem make_dist_in_bounds_witness:
  "\<forall>result. make_inflate_huff_code_dist result
      (snd (set_codes [write_huff_code 0 1, write_huff_code 0 1] (0 # 2 # replicate 14 0)))
      (0 # 2 # replicate 14 0) 30 \<noteq> None"
proof
  fix result :: inflate_huff_code_small
  show "make_inflate_huff_code_dist result
      (snd (set_codes [write_huff_code 0 1, write_huff_code 0 1] (0 # 2 # replicate 14 0)))
      (0 # 2 # replicate 14 0) 30 \<noteq> None"
    unfolding not_None_eq [symmetric]
    by (subst make_dist_in_bounds [OF two_count _ _ two_code])
      (simp_all add: long_need_short MAX_HUFF_TREE_DEPTH_def)
qed

theorem decode_next_dist_decodes_witness:
  "\<forall>s result. \<exists>tbl s'. make_inflate_huff_code_dist (result\<lparr>long_code_lookup := replicate 80 0\<rparr>)
        (snd (set_codes [write_huff_code 0 1, write_huff_code 0 1] (0 # 2 # replicate 14 0)))
        (0 # 2 # replicate 14 0) 30 = Some tbl
    \<and> decode_next_dist (s\<lparr>in_buf := [0xB5], next_in := 0, avail_in := 1, read_in := 0, read_in_length := 0\<rparr>) tbl
        = Some (1, s')
    \<and> in_bits s' = [False, True, False, True, True, False, True]"
proof (intro allI)
  fix s :: inflate_state and result :: inflate_huff_code_small
  let ?s = "s\<lparr>in_buf := [0xB5], next_in := 0, avail_in := 1, read_in := 0, read_in_length := 0\<rparr>"
  let ?t = "[write_huff_code 0 1, write_huff_code 0 1]"
  let ?r = "result\<lparr>long_code_lookup := replicate 80 0\<rparr>"
  have small: "\<forall>h \<in> set ?t. hc_length h \<le> MAX_HUFF_TREE_DEPTH" by (simp add: MAX_HUFF_TREE_DEPTH_def)
  have "make_inflate_huff_code_dist ?r (snd (set_codes ?t (0 # 2 # replicate 14 0))) (0 # 2 # replicate 14 0) 30 \<noteq> None"
    using make_dist_room [OF two_count small _ two_code, of ?r 30] by (simp add: long_need_short)
  then obtain tbl where tbl:
    "make_inflate_huff_code_dist ?r (snd (set_codes ?t (0 # 2 # replicate 14 0))) (0 # 2 # replicate 14 0) 30 = Some tbl"
    by blast
  have bits: "in_bits ?s = huff_bits (map hc_length ?t) 1 @ [False, True, False, True, True, False, True]"
    unfolding two_bits by (simp add: in_bits_def avail_bytes_def upt_rec byte_bits_def)
  have "in_wf ?s" by (simp add: in_wf_def)
  from decode_next_dist_decodes [OF two_count small _ _ _ two_code tbl this _ _ _ bits]
  obtain s' where "decode_next_dist ?s tbl = Some (1, s')" "in_bits s' = [False, True, False, True, True, False, True]"
    by auto
  with tbl show "\<exists>tbl s'. make_inflate_huff_code_dist ?r (snd (set_codes ?t (0 # 2 # replicate 14 0)))
      (0 # 2 # replicate 14 0) 30 = Some tbl \<and> decode_next_dist ?s tbl = Some (1, s')
      \<and> in_bits s' = [False, True, False, True, True, False, True]" by blast
qed

text \<open>A code of 27 symbols, one of 11 bits, five of 12, one of 13, seventeen of 14 and three of
  15: it is not complete, and a dynamic block header can announce it for its 30 distances.\<close>

definition overrun_lens :: "nat list" where
  "overrun_lens = 11 # replicate 5 12 @ 13 # replicate 17 14 @ replicate 3 15"

definition overrun_count :: "u16 list" where
  "overrun_count = [0, 0, 0, 0, 0, 0, 0, 0, 0, 0, 0, 1, 5, 1, 17, 3]"

lemma overrun_code:
  "set_codes (map (write_huff_code 0) overrun_lens) overrun_count
    = (0, snd (set_codes (map (write_huff_code 0) overrun_lens) overrun_count))"
proof -
  have "fst (set_codes (map (write_huff_code 0) overrun_lens) overrun_count) = 0" by code_simp
  then show ?thesis by (metis prod.collapse)
qed

lemma overrun_lengths: "map hc_length (map (write_huff_code 0) overrun_lens) = overrun_lens"
  by (simp add: overrun_lens_def)

lemma overrun_sym_count:
  "l < 16 \<Longrightarrow> sym_count overrun_lens l = [0, 0, 0, 0, 0, 0, 0, 0, 0, 0, 0, 1, 5, 1, 17, 3] ! l"
proof -
  have "map (sym_count overrun_lens) [0..<16] = [0, 0, 0, 0, 0, 0, 0, 0, 0, 0, 0, 1, 5, 1, 17, 3]" by code_simp
  from arg_cong [OF this, of "\<lambda>xs. xs ! l"] show "l < 16 \<Longrightarrow> ?thesis" by simp
qed

lemma overrun_count_of: "count_of overrun_lens overrun_count"
proof -
  have "map unat overrun_count = [0, 0, 0, 0, 0, 0, 0, 0, 0, 0, 0, 1, 5, 1, 17, 3]" by (simp add: overrun_count_def)
  moreover have "length overrun_count = 16" "length overrun_lens = 27"
    by (simp_all add: overrun_count_def overrun_lens_def)
  ultimately have "unat (overrun_count ! l) = sym_count overrun_lens l" if "l < 16" for l
    using that overrun_sym_count [OF that] by (metis nth_map)
  then show ?thesis
    using \<open>length overrun_count = 16\<close> \<open>length overrun_lens = 27\<close> by (simp add: count_of_def MAX_HUFF_TREE_DEPTH_def)
qed

lemma overrun_nth: "map ((!) overrun_lens) [2, 8, 25, 26] = [12, 14, 15, 15]" "length overrun_lens = 27"
  by code_simp (simp add: overrun_lens_def)

lemma overrun_groups: "map (\<lambda>j. canon_lo overrun_lens j div 32) [2, 8, 25, 26] = [0, 1, 2, 3]"
proof -
  have "canon_next overrun_lens 12 = 2" "canon_next overrun_lens 14 = 30" "canon_next overrun_lens 15 = 94"
    by (simp_all add: canon_next.simps [of overrun_lens] overrun_sym_count)
  moreover have "map (\<lambda>j. sym_count (take j overrun_lens) (overrun_lens ! j)) [2, 8, 25, 26] = [1, 1, 1, 2]"
    by code_simp
  ultimately show ?thesis using overrun_nth by (simp add: canon_lo_def canon_code_def MAX_HUFF_TREE_DEPTH_def)
qed

text \<open>
  C25: \<open>set_codes\<close> accepts that code, and building the distance table of an inflate state from it
  writes outside of \<open>long_code_lookup\<close>, which has 80 entries: the code needs at least 84.
\<close>

theorem make_dist_overruns:
  "fst (set_codes (map (write_huff_code 0) overrun_lens) overrun_count) = 0
    \<and> make_inflate_huff_code_dist (result\<lparr>long_code_lookup := replicate 80 0\<rparr>)
        (snd (set_codes (map (write_huff_code 0) overrun_lens) overrun_count)) overrun_count 30 = None"
proof
  show "fst (set_codes (map (write_huff_code 0) overrun_lens) overrun_count) = 0"
    using overrun_code by (metis fst_conv)
  let ?t = "map (write_huff_code 0) overrun_lens"
  have le: "\<forall>h \<in> set ?t. hc_length h \<le> MAX_HUFF_TREE_DEPTH" "length ?t \<le> 32"
    by (simp_all add: overrun_lens_def MAX_HUFF_TREE_DEPTH_def)
  have count: "count_of (map hc_length ?t) overrun_count"
    using overrun_count_of by (simp only: overrun_lengths)
  have "small_code overrun_lens (snd (set_codes ?t overrun_count))"
    using set_codes_small_code [OF count le(2) overrun_code le(1)] by (simp only: overrun_lengths)
  moreover have "j < length overrun_lens \<and> 10 < overrun_lens ! j" if "j \<in> set [2, 8, 25, 26]" for j
    using that overrun_nth by auto
  ultimately have "84 \<le> long_need overrun_lens"
    using long_need_ge [of overrun_lens _ "[2, 8, 25, 26]"] overrun_groups overrun_nth by simp
  then show "make_inflate_huff_code_dist (result\<lparr>long_code_lookup := replicate 80 0\<rparr>)
      (snd (set_codes ?t overrun_count)) overrun_count 30 = None"
    using make_dist_room [OF count le overrun_code, of "result\<lparr>long_code_lookup := replicate 80 0\<rparr>" 30]
    unfolding overrun_lengths by simp
qed

end
