(* ===== verification/Bit_Writer.thy ===== *)
theory Bit_Writer
  imports Inflate_State Huffman_Codes
begin

text \<open>
  The bit buffer of the compressor, \<open>igzip/bitbuf2.h\<close>, and the encoder that writes intermediate
  symbols through it, \<open>igzip/encode_df.c\<close>. The buffer is proved to refine an append-only list of
  bits, the same abstraction as the reader of \<open>Inflate_State\<close>, so what is written is what is read.
  A store outside of the memory block is \<open>None\<close>.
\<close>

section \<open>The bit buffer\<close>

text \<open>\<open>m_mem\<close> is the memory block the three pointers point into.\<close>

record BitBuf2 =
  m_mem :: "u8 list"
  m_bits :: u64
  m_bit_count :: nat
  m_out_buf :: nat
  m_out_end :: int
  m_out_start :: nat

definition MAX_BITBUF_BIT_WRITE :: nat where "MAX_BITBUF_BIT_WRITE = 56"

definition init_bitbuf :: "BitBuf2 \<Rightarrow> BitBuf2" where
  "init_bitbuf me = me\<lparr>m_bits := 0, m_bit_count := 0\<rparr>"

definition set_buf :: "BitBuf2 \<Rightarrow> nat \<Rightarrow> nat \<Rightarrow> BitBuf2" where
  "set_buf me buf len = me\<lparr>m_out_buf := buf, m_out_start := buf, m_out_end := int buf + int len - 8\<rparr>"

definition is_full :: "BitBuf2 \<Rightarrow> bool" where
  "is_full me \<longleftrightarrow> int (m_out_buf me) > m_out_end me"

definition buffer_ptr :: "BitBuf2 \<Rightarrow> nat" where
  "buffer_ptr me = m_out_buf me"

definition buffer_used :: "BitBuf2 \<Rightarrow> u32" where
  "buffer_used me = of_nat (m_out_buf me - m_out_start me)"

definition buffer_bits_used :: "BitBuf2 \<Rightarrow> u32" where
  "buffer_bits_used me = 8 * of_nat (m_out_buf me - m_out_start me) + of_nat (m_bit_count me)"

definition put_le_u64 :: "u8 list \<Rightarrow> nat \<Rightarrow> u64 \<Rightarrow> u8 list option" where
  "put_le_u64 mem off v = (if off + 8 \<le> length mem then Some (store_le_u64 mem off v) else None)"

definition flush_bits :: "BitBuf2 \<Rightarrow> BitBuf2 option" where
  "flush_bits me = do {
     mem \<leftarrow> put_le_u64 (m_mem me) (m_out_buf me) (m_bits me);
     let bits = m_bit_count me - m_bit_count me mod 8;
     Some (me\<lparr>m_mem := mem, m_bit_count := m_bit_count me - bits, m_out_buf := m_out_buf me + bits div 8,
       m_bits := drop_bit bits (m_bits me)\<rparr>)
   }"

definition flush :: "BitBuf2 \<Rightarrow> BitBuf2 option" where
  "flush me = do {
     me \<leftarrow> (if m_bit_count me \<noteq> 0 then do {
              mem \<leftarrow> put_le_u64 (m_mem me) (m_out_buf me) (m_bits me);
              let bytes = (m_bit_count me + 7) div 8;
              Some (me\<lparr>m_mem := mem, m_out_buf := m_out_buf me + bytes\<rparr>)
            } else Some me);
     Some (me\<lparr>m_bits := 0, m_bit_count := 0\<rparr>)
   }"

definition check_space :: "BitBuf2 \<Rightarrow> nat \<Rightarrow> BitBuf2 option" where
  "check_space me num_bits = (if 63 - m_bit_count me < num_bits then flush_bits me else Some me)"

definition write_bits_unsafe :: "BitBuf2 \<Rightarrow> u64 \<Rightarrow> nat \<Rightarrow> BitBuf2" where
  "write_bits_unsafe me code count =
    me\<lparr>m_bits := m_bits me OR push_bit (m_bit_count me) code, m_bit_count := m_bit_count me + count\<rparr>"

definition write_bits :: "BitBuf2 \<Rightarrow> u64 \<Rightarrow> nat \<Rightarrow> BitBuf2 option" where
  "write_bits me code count =
    flush_bits (me\<lparr>m_bits := m_bits me OR push_bit (m_bit_count me) code, m_bit_count := m_bit_count me + count\<rparr>)"

definition write_bits_flush :: "BitBuf2 \<Rightarrow> u64 \<Rightarrow> nat \<Rightarrow> BitBuf2 option" where
  "write_bits_flush me code count =
    flush (me\<lparr>m_bits := m_bits me OR push_bit (m_bit_count me) code, m_bit_count := m_bit_count me + count\<rparr>)"

section \<open>The encoder of intermediate symbols\<close>

record deflate_icf =
  lit_len :: nat
  lit_dist :: nat
  dist_extra :: u32

text \<open>The tables of \<open>hufftables_icf\<close> are views of one array of 544 codes.\<close>

type_synonym hufftables_icf = "huff_code list"

definition dist_lit_table :: "hufftables_icf \<Rightarrow> nat \<Rightarrow> huff_code" where
  "dist_lit_table h i = h ! i"

definition lit_len_table :: "hufftables_icf \<Rightarrow> nat \<Rightarrow> huff_code" where
  "lit_len_table h i = h ! (31 + i)"

definition hc_extra_bit_count :: "huff_code \<Rightarrow> nat" where
  "hc_extra_bit_count h = unat (drop_bit 16 h AND 0xFF)"

fun encode_deflate_icf_base :: "deflate_icf list \<Rightarrow> BitBuf2 \<Rightarrow> hufftables_icf \<Rightarrow>
    (deflate_icf list \<times> BitBuf2) option" where
  "encode_deflate_icf_base [] bb hufftables = Some ([], bb)"
| "encode_deflate_icf_base (x # icfs) bb hufftables =
    (if is_full bb then Some (x # icfs, bb)
     else
       let lsym = lit_len_table hufftables (lit_len x);
           dsym = dist_lit_table hufftables (lit_dist x);
           bb = write_bits_unsafe bb (ucast (hc_code_and_extra lsym)) (hc_length lsym);
           bb = write_bits_unsafe bb (ucast (hc_code dsym)) (hc_length dsym);
           bb = write_bits_unsafe bb (ucast (dist_extra x)) (hc_extra_bit_count dsym)
       in do {
         bb \<leftarrow> flush_bits bb;
         encode_deflate_icf_base icfs bb hufftables
       })"

definition encode_deflate_icf :: "deflate_icf list \<Rightarrow> BitBuf2 \<Rightarrow> hufftables_icf \<Rightarrow>
    (deflate_icf list \<times> BitBuf2) option" where
  "encode_deflate_icf icfs bb hufftables = encode_deflate_icf_base icfs bb hufftables"

section \<open>The list of bits written\<close>

definition word_bits :: "u64 \<Rightarrow> nat \<Rightarrow> bool list" where
  "word_bits w n = map (bit w) [0..<n]"

definition bb_out :: "BitBuf2 \<Rightarrow> u8 list" where
  "bb_out bb = take (m_out_buf bb - m_out_start bb) (drop (m_out_start bb) (m_mem bb))"

definition bb_bits :: "BitBuf2 \<Rightarrow> bool list" where
  "bb_bits bb = byte_bits (bb_out bb) @ word_bits (m_bits bb) (m_bit_count bb)"

text \<open>The invariant: the pointers are in order and no bit is set above the count.\<close>

definition bb_wf :: "BitBuf2 \<Rightarrow> bool" where
  "bb_wf bb \<longleftrightarrow> m_out_start bb \<le> m_out_buf bb \<and> m_out_buf bb \<le> length (m_mem bb) \<and> m_bit_count bb \<le> 63
    \<and> take_bit (m_bit_count bb) (m_bits bb) = m_bits bb"

text \<open>What an operation leaves alone: the pointers' frame and the memory before the buffer.\<close>

definition bb_frame :: "BitBuf2 \<Rightarrow> BitBuf2 \<Rightarrow> bool" where
  "bb_frame bb bb' \<longleftrightarrow> m_out_start bb' = m_out_start bb \<and> m_out_end bb' = m_out_end bb
    \<and> length (m_mem bb') = length (m_mem bb) \<and> take (m_out_start bb) (m_mem bb') = take (m_out_start bb) (m_mem bb)"

lemma bb_frame_refl [simp, intro]: "bb_frame bb bb"
  by (simp add: bb_frame_def)

lemma bb_frame_trans: "bb_frame a b \<Longrightarrow> bb_frame b c \<Longrightarrow> bb_frame a c"
  by (simp add: bb_frame_def)

lemma length_word_bits [simp]: "length (word_bits w n) = n"
  by (simp add: word_bits_def)

lemma word_bits_append: "word_bits w (m + n) = word_bits w m @ word_bits (drop_bit m w) n"
  by (rule nth_equalityI) (auto simp: word_bits_def nth_append bit_simps)

lemma write_bits_unsafe:
  assumes "bb_wf bb" "m_bit_count bb + n \<le> 63" "take_bit n code = code"
  shows "bb_wf (write_bits_unsafe bb code n)" "bb_bits (write_bits_unsafe bb code n) = bb_bits bb @ word_bits code n"
    "bb_frame bb (write_bits_unsafe bb code n)" "m_bit_count (write_bits_unsafe bb code n) = m_bit_count bb + n"
    "m_out_buf (write_bits_unsafe bb code n) = m_out_buf bb"
proof -
  let ?c = "m_bit_count bb"
  have lo: "bit (m_bits bb) i \<Longrightarrow> i < ?c" for i
    using assms(1) by (metis bb_wf_def bit_take_bit_iff)
  have hi: "bit code i \<Longrightarrow> i < n" for i using assms(3) by (metis bit_take_bit_iff)
  have "take_bit (?c + n) (m_bits bb OR push_bit ?c code) = m_bits bb OR push_bit ?c code"
    by (rule bit_eqI) (auto simp: bit_simps dest: lo hi)
  then show "bb_wf (write_bits_unsafe bb code n)"
    using assms by (simp add: bb_wf_def write_bits_unsafe_def)
  have "word_bits (m_bits bb OR push_bit ?c code) ?c = word_bits (m_bits bb) ?c"
    by (simp add: word_bits_def bit_simps)
  moreover have "drop_bit ?c (m_bits bb OR push_bit ?c code) = code"
  proof (rule bit_eqI)
    fix i assume "possible_bit TYPE(u64) i"
    have "bit code i \<Longrightarrow> ?c + i < 64" using hi [of i] assms(2) by simp
    then show "bit (drop_bit ?c (m_bits bb OR push_bit ?c code)) i = bit code i"
      using lo [of "?c + i"] by (auto simp: bit_simps)
  qed
  ultimately show "bb_bits (write_bits_unsafe bb code n) = bb_bits bb @ word_bits code n"
    by (simp add: bb_bits_def bb_out_def write_bits_unsafe_def word_bits_append)
qed (simp_all add: write_bits_unsafe_def bb_frame_def)

lemma put_le_u64_Some: "off + 8 \<le> length mem \<Longrightarrow> put_le_u64 mem off v = Some (blit mem off (le_bytes 8 v))"
  by (simp add: put_le_u64_def store_le_u64_def)

lemma bb_out_store:
  assumes "bb_wf bb" "m_out_buf bb + 8 \<le> length (m_mem bb)" "k \<le> 8"
  shows "take (m_out_buf bb + k - m_out_start bb) (drop (m_out_start bb) (blit (m_mem bb) (m_out_buf bb) (le_bytes 8 v)))
    = bb_out bb @ le_bytes k v"
proof -
  have o: "m_out_start bb \<le> m_out_buf bb" "m_out_buf bb \<le> length (m_mem bb)" using assms(1) by (simp_all add: bb_wf_def)
  have "take k (le_bytes 8 v) = le_bytes k v" using assms(3) by (simp add: le_bytes_def take_map)
  moreover have "m_out_buf bb + k - m_out_start bb - (m_out_buf bb - m_out_start bb) = k" using o by simp
  moreover have "drop (m_out_start bb) (blit (m_mem bb) (m_out_buf bb) (le_bytes 8 v))
      = take (m_out_buf bb - m_out_start bb) (drop (m_out_start bb) (m_mem bb))
        @ le_bytes 8 v @ drop (m_out_buf bb + 8) (m_mem bb)"
    using o by (simp add: blit_def drop_take)
  ultimately show ?thesis using o assms(3) by (simp add: bb_out_def)
qed

lemma take_start_store:
  "bb_wf bb \<Longrightarrow> m_out_buf bb + 8 \<le> length (m_mem bb)
    \<Longrightarrow> take (m_out_start bb) (blit (m_mem bb) (m_out_buf bb) xs) = take (m_out_start bb) (m_mem bb)"
  by (simp add: bb_wf_def blit_def)

lemma flush_bits:
  assumes wf: "bb_wf bb" and room: "m_out_buf bb + 8 \<le> length (m_mem bb)"
  obtains bb' where "flush_bits bb = Some bb'" "bb_wf bb'" "bb_bits bb' = bb_bits bb" "bb_frame bb bb'"
    "m_bit_count bb' = m_bit_count bb mod 8" "m_out_buf bb' = m_out_buf bb + m_bit_count bb div 8"
proof
  let ?c = "m_bit_count bb" and ?mem = "blit (m_mem bb) (m_out_buf bb) (le_bytes 8 (m_bits bb))"
  define bb' where "bb' = bb\<lparr>m_mem := ?mem, m_bit_count := ?c mod 8, m_out_buf := m_out_buf bb + ?c div 8,
    m_bits := drop_bit (8 * (?c div 8)) (m_bits bb)\<rparr>"
  have c: "?c - ?c mod 8 = 8 * (?c div 8)" by (simp add: minus_mod_eq_mult_div)
  have m: "?c - 8 * (?c div 8) = ?c mod 8" by (simp add: minus_mult_div_eq_mod)
  have le: "?c \<le> 63" "take_bit ?c (m_bits bb) = m_bits bb" using wf by (simp_all add: bb_wf_def)
  then have le8: "?c div 8 \<le> 7" by simp
  show "flush_bits bb = Some bb'"
    by (simp add: flush_bits_def put_le_u64_Some [OF room] Let_def c m bb'_def)
  have "take_bit (?c mod 8) (drop_bit (8 * (?c div 8)) (m_bits bb)) = drop_bit (8 * (?c div 8)) (m_bits bb)"
    using take_bit_drop_bit [of "?c mod 8" "8 * (?c div 8)" "m_bits bb"] le(2) by simp
  then show "bb_wf bb'" using wf room le8 by (auto simp: bb_wf_def bb'_def)
  have "bb_out bb' = bb_out bb @ le_bytes (?c div 8) (m_bits bb)"
    using bb_out_store [OF wf room, of "?c div 8" "m_bits bb"] le8 by (simp add: bb_out_def bb'_def)
  moreover have "word_bits (m_bits bb) ?c
    = word_bits (m_bits bb) (8 * (?c div 8)) @ word_bits (drop_bit (8 * (?c div 8)) (m_bits bb)) (?c mod 8)"
    by (simp flip: word_bits_append)
  ultimately show "bb_bits bb' = bb_bits bb"
    using le8 by (simp add: bb_bits_def byte_bits_le_bytes word_bits_def) (simp add: bb'_def)
  show "bb_frame bb bb'"
    using take_start_store [OF wf room] room by (simp add: bb_frame_def bb'_def)
qed (simp_all)

lemma write_bits:
  assumes wf: "bb_wf bb" "m_bit_count bb + n \<le> 63" "take_bit n code = code" and room: "m_out_buf bb + 8 \<le> length (m_mem bb)"
  obtains bb' where "write_bits bb code n = Some bb'" "bb_wf bb'" "bb_bits bb' = bb_bits bb @ word_bits code n"
    "bb_frame bb bb'" "m_bit_count bb' = (m_bit_count bb + n) mod 8" "m_out_buf bb' = m_out_buf bb + (m_bit_count bb + n) div 8"
proof -
  note u = write_bits_unsafe [OF wf]
  have mem: "m_mem (write_bits_unsafe bb code n) = m_mem bb" by (simp add: write_bits_unsafe_def)
  from room have "m_out_buf (write_bits_unsafe bb code n) + 8 \<le> length (m_mem (write_bits_unsafe bb code n))"
    by (simp add: mem u(5))
  from flush_bits [OF u(1) this] obtain bb' where b: "flush_bits (write_bits_unsafe bb code n) = Some bb'" "bb_wf bb'"
    "bb_bits bb' = bb_bits (write_bits_unsafe bb code n)" "bb_frame (write_bits_unsafe bb code n) bb'"
    "m_bit_count bb' = m_bit_count (write_bits_unsafe bb code n) mod 8"
    "m_out_buf bb' = m_out_buf (write_bits_unsafe bb code n) + m_bit_count (write_bits_unsafe bb code n) div 8" .
  show thesis
  proof (rule that)
    show "write_bits bb code n = Some bb'" using b(1) by (simp add: write_bits_def write_bits_unsafe_def)
    show "bb_frame bb bb'" using u(3) b(4) by (rule bb_frame_trans)
  qed (use b u in simp_all)
qed

lemma flush:
  assumes wf: "bb_wf bb" and room: "m_out_buf bb + 8 \<le> length (m_mem bb)"
  obtains bb' pad where "flush bb = Some bb'" "bb_wf bb'" "byte_bits (bb_out bb') = bb_bits bb @ replicate pad False" "pad < 8"
    "m_bit_count bb' = 0" "bb_frame bb bb'"
proof -
  let ?c = "m_bit_count bb" and ?k = "(m_bit_count bb + 7) div 8"
  let ?bb = "bb\<lparr>m_mem := if ?c = 0 then m_mem bb else blit (m_mem bb) (m_out_buf bb) (le_bytes 8 (m_bits bb)),
    m_out_buf := m_out_buf bb + ?k, m_bits := 0, m_bit_count := 0\<rparr>"
  have f: "flush bb = Some ?bb"
    by (simp add: flush_def put_le_u64_Some [OF room] Let_def)
  have "?c \<le> 63" using wf by (simp add: bb_wf_def)
  then have k8: "?k \<le> 8" by linarith
  have "bb_out ?bb = bb_out bb @ le_bytes ?k (m_bits bb)"
    using bb_out_store [OF wf room k8, of "m_bits bb"] by (simp add: bb_out_def le_bytes_def)
  moreover have "word_bits (m_bits bb) (8 * ?k) = word_bits (m_bits bb) ?c @ replicate (8 * ?k - ?c) False"
  proof -
    have ge: "?c \<le> 8 * ?k" by linarith
    have t: "take_bit ?c (m_bits bb) = m_bits bb" using wf by (simp add: bb_wf_def)
    have z: "\<not> bit (m_bits bb) i" if "?c \<le> i" for i using t that by (metis bit_take_bit_iff not_less)
    show ?thesis
      using ge z by (intro nth_equalityI) (auto simp: word_bits_def nth_append)
  qed
  ultimately have bits: "byte_bits (bb_out ?bb) = bb_bits bb @ replicate (8 * ?k - ?c) False"
    using k8 by (simp add: bb_bits_def byte_bits_le_bytes word_bits_def)
  have "bb_wf ?bb" using wf room k8 by (simp add: bb_wf_def)
  moreover have "bb_frame bb ?bb" using take_start_store [OF wf room] room by (simp add: bb_frame_def)
  moreover have "8 * ?k - ?c < 8" by linarith
  ultimately show thesis by (intro that [OF f _ bits]) simp_all
qed

section \<open>The encoder\<close>

text \<open>The bits of an intermediate symbol, and when its codes fit their lengths and the buffer.\<close>

definition icf_bits :: "hufftables_icf \<Rightarrow> deflate_icf \<Rightarrow> bool list" where
  "icf_bits h x =
    (let lsym = lit_len_table h (lit_len x); dsym = dist_lit_table h (lit_dist x)
     in word_bits (ucast (hc_code_and_extra lsym)) (hc_length lsym) @ word_bits (ucast (hc_code dsym)) (hc_length dsym)
        @ word_bits (ucast (dist_extra x)) (hc_extra_bit_count dsym))"

definition icf_ok :: "hufftables_icf \<Rightarrow> deflate_icf \<Rightarrow> bool" where
  "icf_ok h x \<longleftrightarrow>
    (let lsym = lit_len_table h (lit_len x); dsym = dist_lit_table h (lit_dist x)
     in take_bit (hc_length lsym) (ucast (hc_code_and_extra lsym) :: u64) = ucast (hc_code_and_extra lsym)
      \<and> take_bit (hc_length dsym) (ucast (hc_code dsym) :: u64) = ucast (hc_code dsym)
      \<and> take_bit (hc_extra_bit_count dsym) (ucast (dist_extra x) :: u64) = ucast (dist_extra x)
      \<and> hc_length lsym + hc_length dsym + hc_extra_bit_count dsym \<le> MAX_BITBUF_BIT_WRITE)"

lemma encode_step:
  assumes wf: "bb_wf bb" "m_bit_count bb < 8" and ok: "icf_ok h x" and room: "m_out_buf bb + 8 \<le> length (m_mem bb)"
  obtains bb' where "encode_deflate_icf_base (x # xs) bb h
      = (if is_full bb then Some (x # xs, bb) else encode_deflate_icf_base xs bb' h)"
    "bb_wf bb'" "bb_bits bb' = bb_bits bb @ icf_bits h x" "bb_frame bb bb'" "m_bit_count bb' < 8" "m_out_buf bb' \<le> m_out_buf bb + 7"
proof -
  define l d where "l = lit_len_table h (lit_len x)" and "d = dist_lit_table h (lit_dist x)"
  define b1 where "b1 = write_bits_unsafe bb (ucast (hc_code_and_extra l)) (hc_length l)"
  define b2 where "b2 = write_bits_unsafe b1 (ucast (hc_code d)) (hc_length d)"
  define b3 where "b3 = write_bits_unsafe b2 (ucast (dist_extra x)) (hc_extra_bit_count d)"
  have fit: "take_bit (hc_length l) (ucast (hc_code_and_extra l) :: u64) = ucast (hc_code_and_extra l)"
    "take_bit (hc_length d) (ucast (hc_code d) :: u64) = ucast (hc_code d)"
    "take_bit (hc_extra_bit_count d) (ucast (dist_extra x) :: u64) = ucast (dist_extra x)"
    and le: "hc_length l + hc_length d + hc_extra_bit_count d \<le> 56"
    using ok by (simp_all add: icf_ok_def Let_def l_def d_def MAX_BITBUF_BIT_WRITE_def)
  have "m_bit_count bb + hc_length l \<le> 63" using wf(2) le by simp
  note 1 = write_bits_unsafe [OF wf(1) this fit(1), folded b1_def]
  have "m_bit_count b1 + hc_length d \<le> 63" using wf(2) le 1(4) by simp
  note 2 = write_bits_unsafe [OF 1(1) this fit(2), folded b2_def]
  have "m_bit_count b2 + hc_extra_bit_count d \<le> 63" using wf(2) le 1(4) 2(4) by simp
  note 3 = write_bits_unsafe [OF 2(1) this fit(3), folded b3_def]
  have fr: "bb_frame bb b3" using 1(3) 2(3) 3(3) by (blast intro: bb_frame_trans)
  then have "m_out_buf b3 + 8 \<le> length (m_mem b3)" using room 1(5) 2(5) 3(5) by (simp add: bb_frame_def)
  from flush_bits [OF 3(1) this] obtain bb' where b: "flush_bits b3 = Some bb'" "bb_wf bb'" "bb_bits bb' = bb_bits b3"
    "bb_frame b3 bb'" "m_bit_count bb' = m_bit_count b3 mod 8" "m_out_buf bb' = m_out_buf b3 + m_bit_count b3 div 8" .
  show thesis
  proof (rule that)
    show "encode_deflate_icf_base (x # xs) bb h
        = (if is_full bb then Some (x # xs, bb) else encode_deflate_icf_base xs bb' h)"
      using b(1) by (simp add: Let_def l_def d_def b1_def b2_def b3_def)
    show "bb_bits bb' = bb_bits bb @ icf_bits h x"
      by (simp add: b(3) 1(2) 2(2) 3(2) icf_bits_def Let_def l_def d_def)
    show "bb_frame bb bb'" using fr b(4) by (rule bb_frame_trans)
    show "m_out_buf bb' \<le> m_out_buf bb + 7"
    proof -
      have "m_bit_count b3 \<le> 63" using wf(2) le 1(4) 2(4) 3(4) by simp
      then have "m_bit_count b3 div 8 \<le> 7" by simp
      then show ?thesis using b(6) 1(5) 2(5) 3(5) by simp
    qed
  qed (use b in simp_all)
qed

lemma not_full_room: "\<not> is_full bb \<Longrightarrow> m_out_end bb + 8 \<le> int (length (m_mem bb)) \<Longrightarrow> m_out_buf bb + 8 \<le> length (m_mem bb)"
  by (simp add: is_full_def)

text \<open>
  C2: the encoder. With codes that fit, \<open>encode_deflate_icf\<close> on a buffer set up by \<open>set_buf\<close> stores
  nothing outside of the buffer: it appends the bits of the symbols it takes, in their order, and it
  leaves symbols only when the buffer is full.
\<close>

theorem encode_deflate_icf_refines:
  assumes "bb_wf bb" "m_bit_count bb < 8" "\<forall>x \<in> set xs. icf_ok h x" "m_out_end bb + 8 \<le> int (length (m_mem bb))"
  shows "\<exists>done rest bb'. encode_deflate_icf xs bb h = Some (rest, bb') \<and> xs = done @ rest
    \<and> bb_bits bb' = bb_bits bb @ concat (map (icf_bits h) done) \<and> (rest = [] \<or> is_full bb')
    \<and> bb_wf bb' \<and> m_bit_count bb' < 8 \<and> bb_frame bb bb'"
  unfolding encode_deflate_icf_def using assms
proof (induction xs arbitrary: bb)
  case Nil
  then show ?case by auto
next
  case (Cons x xs)
  show ?case
  proof (cases "is_full bb")
    case True
    then show ?thesis using Cons.prems by (intro exI [of _ "[]"] exI [of _ "x # xs"] exI [of _ bb]) simp
  next
    case False
    from encode_step [OF Cons.prems(1,2) _ not_full_room [OF False Cons.prems(4)], of h x xs] Cons.prems(3)
    obtain bb1 where e: "encode_deflate_icf_base (x # xs) bb h
        = (if is_full bb then Some (x # xs, bb) else encode_deflate_icf_base xs bb1 h)"
      and b: "bb_wf bb1" "bb_bits bb1 = bb_bits bb @ icf_bits h x" "bb_frame bb bb1" "m_bit_count bb1 < 8" by auto
    have "m_out_end bb1 + 8 \<le> int (length (m_mem bb1))" using Cons.prems(4) b(3) by (simp add: bb_frame_def)
    with Cons.IH [OF b(1,4)] Cons.prems(3) obtain ds rest bb' where
      r: "encode_deflate_icf_base xs bb1 h = Some (rest, bb')" "xs = ds @ rest"
        "bb_bits bb' = bb_bits bb1 @ concat (map (icf_bits h) ds)" "rest = [] \<or> is_full bb'"
        "bb_wf bb'" "m_bit_count bb' < 8" "bb_frame bb1 bb'" by auto
    have "bb_frame bb bb'" using b(3) r(7) by (rule bb_frame_trans)
    with e r b False show ?thesis by (intro exI [of _ "x # ds"] exI [of _ rest] exI [of _ bb']) simp
  qed
qed

section \<open>What is written is what is read\<close>

fun write_list :: "(u64 \<times> nat) list \<Rightarrow> BitBuf2 \<Rightarrow> BitBuf2 option" where
  "write_list [] bb = Some bb"
| "write_list ((code, n) # ws) bb = do { bb \<leftarrow> write_bits bb code n; write_list ws bb }"

fun read_list :: "nat list \<Rightarrow> inflate_state \<Rightarrow> u64 list \<times> inflate_state" where
  "read_list [] s = ([], s)"
| "read_list (n # ns) s = (let (v, s) = inflate_in_read_bits s n; (vs, s) = read_list ns s in (v # vs, s))"

abbreviation list_bits :: "(u64 \<times> nat) list \<Rightarrow> bool list" where
  "list_bits ws \<equiv> concat (map (\<lambda>(code, n). word_bits code n) ws)"

lemma write_list:
  assumes "bb_wf bb" "m_bit_count bb < 8" "\<forall>(code, n) \<in> set ws. n \<le> MAX_BITBUF_BIT_WRITE \<and> take_bit n code = code"
    and "8 * m_out_buf bb + m_bit_count bb + length (list_bits ws) + 64 \<le> 8 * length (m_mem bb)"
  shows "\<exists>bb'. write_list ws bb = Some bb' \<and> bb_wf bb' \<and> bb_bits bb' = bb_bits bb @ list_bits ws \<and> bb_frame bb bb'
    \<and> m_out_buf bb' + 8 \<le> length (m_mem bb')"
  using assms
proof (induction ws arbitrary: bb)
  case (Cons w ws)
  obtain code n where w: "w = (code, n)" by (cases w)
  have n: "n \<le> 56" "take_bit n code = code" using Cons.prems(3) w by (auto simp: MAX_BITBUF_BIT_WRITE_def)
  have c: "m_bit_count bb + n \<le> 63" using n Cons.prems(2) by simp
  have "m_out_buf bb + 8 \<le> length (m_mem bb)" using Cons.prems(4) by simp
  from write_bits [OF Cons.prems(1) c n(2) this] obtain bb1 where b: "write_bits bb code n = Some bb1" "bb_wf bb1"
    "bb_bits bb1 = bb_bits bb @ word_bits code n" "bb_frame bb bb1" "m_bit_count bb1 = (m_bit_count bb + n) mod 8"
    "m_out_buf bb1 = m_out_buf bb + (m_bit_count bb + n) div 8" .
  have "8 * m_out_buf bb1 + m_bit_count bb1 = 8 * m_out_buf bb + m_bit_count bb + n" using b(5,6) by simp
  then have "8 * m_out_buf bb1 + m_bit_count bb1 + length (list_bits ws) + 64 \<le> 8 * length (m_mem bb1)"
    using Cons.prems(4) b(4) by (simp add: w bb_frame_def)
  moreover have "m_bit_count bb1 < 8" using b(5) by simp
  ultimately obtain bb' where "write_list ws bb1 = Some bb'" "bb_wf bb'"
    "bb_bits bb' = bb_bits bb1 @ list_bits ws" "bb_frame bb1 bb'" "m_out_buf bb' + 8 \<le> length (m_mem bb')"
    using Cons.IH [OF b(2)] Cons.prems(3) by auto
  with b bb_frame_trans [OF b(4)] show ?case by (simp add: w)
qed (simp add: bb_wf_def)

lemma bits_val_word_bits: "take_bit n w = w \<Longrightarrow> bits_val (word_bits w n) = unat w"
proof (rule bit_eqI)
  fix i assume t: "take_bit n w = w"
  show "bit (bits_val (word_bits w n)) i = bit (unat w) i"
    using arg_cong [OF t, of "\<lambda>w. bit w i"]
    by (auto simp: bits_val_nth pad_bit_def word_bits_def bit_simps dest: bit_imp_le_length)
qed

lemma read_list:
  assumes "in_wf s" "\<forall>(code, n) \<in> set ws. n \<le> 30 \<and> take_bit n code = code"
    and "in_bits s = list_bits ws @ rest"
  shows "fst (read_list (map snd ws) s) = map fst ws"
  using assms
proof (induction ws arbitrary: s)
  case (Cons w ws)
  obtain code n where w: "w = (code, n)" by (cases w)
  have n: "n \<le> 30" "take_bit n code = code" using Cons.prems(2) w by auto
  obtain v s' where r: "inflate_in_read_bits s n = (v, s')" by fastforce
  have bits: "in_bits s = word_bits code n @ list_bits ws @ rest" using Cons.prems(3) by (simp add: w)
  from inflate_in_read_bits_spec [OF Cons.prems(1) n(1) r] bits
  have s': "in_wf s'" "unat v = unat code" "in_bits s' = list_bits ws @ rest"
    using bits_val_word_bits [OF n(2)] by simp_all
  obtain vs s'' where l: "read_list (map snd ws) s' = (vs, s'')" by fastforce
  have "vs = map fst ws" using Cons.IH [OF s'(1) _ s'(3)] Cons.prems(2) l by simp
  moreover have "v = code" using s'(2) by (simp add: word_unat_eq_iff)
  ultimately show ?case by (simp add: w r l)
qed simp

text \<open>
  C1: the compressor's bit buffer and the decompressor's bit reader agree. Codes of at most 30 bits,
  as many as the reader takes at once, written one after the other to an empty buffer and flushed are read back with the same widths.
\<close>

theorem written_bits_are_read:
  assumes "bb_wf bb" "m_bit_count bb = 0" "m_out_buf bb = m_out_start bb"
    and "\<forall>(code, n) \<in> set ws. n \<le> 30 \<and> take_bit n code = code"
    and "8 * m_out_buf bb + sum_list (map snd ws) + 64 \<le> 8 * length (m_mem bb)"
  shows "\<exists>bb'. write_list ws bb \<bind> flush = Some bb'
    \<and> fst (read_list (map snd ws) (s\<lparr>in_buf := m_mem bb', next_in := m_out_start bb',
        avail_in := m_out_buf bb' - m_out_start bb', read_in := 0, read_in_length := 0\<rparr>)) = map fst ws"
proof -
  have "length (list_bits ws) = sum_list (map snd ws)" by (induction ws) auto
  then have "8 * m_out_buf bb + m_bit_count bb + length (list_bits ws) + 64 \<le> 8 * length (m_mem bb)"
    using assms(2,5) by simp
  moreover have "\<forall>(code, n) \<in> set ws. n \<le> MAX_BITBUF_BIT_WRITE \<and> take_bit n code = code"
    using assms(4) by (auto simp: MAX_BITBUF_BIT_WRITE_def)
  ultimately obtain b1 where
    b: "write_list ws bb = Some b1" "bb_wf b1" "bb_bits b1 = bb_bits bb @ list_bits ws"
      "m_out_buf b1 + 8 \<le> length (m_mem b1)" using write_list [OF assms(1)] assms(2) by auto
  from flush [OF b(2,4)] obtain bb' pad where f: "flush b1 = Some bb'" "bb_wf bb'"
    "byte_bits (bb_out bb') = bb_bits b1 @ replicate pad False" by metis
  let ?s = "s\<lparr>in_buf := m_mem bb', next_in := m_out_start bb', avail_in := m_out_buf bb' - m_out_start bb',
    read_in := 0, read_in_length := 0\<rparr>"
  have "bb_bits bb = []" using assms(2,3) by (simp add: bb_bits_def bb_out_def word_bits_def)
  then have "in_bits ?s = list_bits ws @ replicate pad False"
    using f(3) b(3) by (simp add: in_bits_def avail_bytes_def bb_out_def)
  moreover have "in_wf ?s" using f(2) by (simp add: in_wf_def bb_wf_def)
  ultimately have "fst (read_list (map snd ws) ?s) = map fst ws" using read_list assms(4) by blast
  with b(1) f(1) show ?thesis by auto
qed

theorem written_bits_are_read_witness:
  "\<exists>bb'. write_list [(5, 3), (0x1FF, 9)]
      \<lparr>m_mem = replicate 16 0, m_bits = 0, m_bit_count = 0, m_out_buf = 2, m_out_end = 8, m_out_start = 2\<rparr> \<bind> flush = Some bb'"
proof -
  let ?bb = "\<lparr>m_mem = replicate 16 0, m_bits = 0, m_bit_count = 0, m_out_buf = 2, m_out_end = 8, m_out_start = 2\<rparr>"
  have "take_bit 3 (5 :: u64) = 5" "take_bit 9 (0x1FF :: u64) = 0x1FF" by simp_all
  then show ?thesis
    using written_bits_are_read [of ?bb "[(5, 3), (0x1FF, 9)]"] by (auto simp: bb_wf_def)
qed

text \<open>A literal \<open>a\<close> with a code of 3 bits and no distance.\<close>

theorem encode_deflate_icf_refines_witness:
  "\<exists>rest bb'. encode_deflate_icf [\<lparr>lit_len = 2, lit_dist = 30, dist_extra = 0\<rparr>]
      \<lparr>m_mem = replicate 16 0, m_bits = 0, m_bit_count = 0, m_out_buf = 2, m_out_end = 8, m_out_start = 2\<rparr>
      (replicate 33 0 @ [write_huff_code 5 3]) = Some (rest, bb')"
proof -
  let ?bb = "\<lparr>m_mem = replicate 16 0, m_bits = 0, m_bit_count = 0, m_out_buf = 2, m_out_end = 8, m_out_start = 2\<rparr>"
  let ?h = "replicate 33 0 @ [write_huff_code 5 3]"
  have "icf_ok ?h \<lparr>lit_len = 2, lit_dist = 30, dist_extra = 0\<rparr>"
    by (simp add: icf_ok_def lit_len_table_def dist_lit_table_def nth_append MAX_BITBUF_BIT_WRITE_def)
      code_simp
  then show ?thesis
    using encode_deflate_icf_refines [of ?bb "[\<lparr>lit_len = 2, lit_dist = 30, dist_extra = 0\<rparr>]" ?h]
    by (fastforce simp: bb_wf_def)
qed

end
