(* ===== verification/Inflate_Block.thy ===== *)
theory Inflate_Block
  imports Inflate_Symbols CRC_Base Adler32
begin

text \<open>
  The block decoders of \<open>igzip/igzip_inflate.c\<close>: stored blocks (\<open>decode_literal_block\<close>) and
  Huffman coded blocks (\<open>decode_huffman_code_block_stateless_base\<close> with \<open>decode_next_lit_len\<close>
  and \<open>byte_copy\<close>), and the checksum of the output. The value \<open>None\<close> is an access outside of
  an array, or a loop that does not end; the theorems show it does not arise.
\<close>

section \<open>Constants\<close>

definition ISAL_END_INPUT :: int where "ISAL_END_INPUT = 1"
definition ISAL_OUT_OVERFLOW :: int where "ISAL_OUT_OVERFLOW = 2"
definition ISAL_INVALID_SYMBOL :: int where "ISAL_INVALID_SYMBOL = - 2"
definition ISAL_INVALID_LOOKBACK :: int where "ISAL_INVALID_LOOKBACK = - 3"
definition MAX_LIT_LEN_SYM :: nat where "MAX_LIT_LEN_SYM = 512"
definition DIST_LEN :: nat where "DIST_LEN = 30"

text \<open>The inflate flags of \<open>crc_flag\<close>.\<close>

definition ISAL_GZIP :: nat where "ISAL_GZIP = 1"
definition ISAL_GZIP_NO_HDR :: nat where "ISAL_GZIP_NO_HDR = 2"
definition ISAL_ZLIB :: nat where "ISAL_ZLIB = 3"
definition ISAL_ZLIB_NO_HDR :: nat where "ISAL_ZLIB_NO_HDR = 4"
definition ISAL_ZLIB_NO_HDR_VER :: nat where "ISAL_ZLIB_NO_HDR_VER = 5"
definition ISAL_GZIP_NO_HDR_VER :: nat where "ISAL_GZIP_NO_HDR_VER = 6"

section \<open>Copies and checksums\<close>

text \<open>\<open>byte_copy\<close> at offset \<open>dest\<close> of a buffer, and \<open>memcpy\<close> within it.\<close>

fun byte_copy :: "u8 list \<Rightarrow> nat \<Rightarrow> nat \<Rightarrow> nat \<Rightarrow> u8 list option" where
  "byte_copy buf dest lookback_distance 0 = Some buf"
| "byte_copy buf dest lookback_distance (Suc repeat_length) =
    (if lookback_distance \<le> dest \<and> dest < length buf
     then byte_copy (buf[dest := buf ! (dest - lookback_distance)]) (dest + 1) lookback_distance repeat_length
     else None)"

definition copy_within :: "u8 list \<Rightarrow> nat \<Rightarrow> nat \<Rightarrow> nat \<Rightarrow> u8 list option" where
  "copy_within buf dest src n =
    (if dest + n \<le> length buf \<and> src + n \<le> length buf then Some (blit buf dest (take n (drop src buf))) else None)"

definition put_bytes :: "u8 list \<Rightarrow> nat \<Rightarrow> u8 list \<Rightarrow> u8 list option" where
  "put_bytes buf dest bs = (if dest + length bs \<le> length buf then Some (blit buf dest bs) else None)"

definition get_bytes :: "u8 list \<Rightarrow> nat \<Rightarrow> nat \<Rightarrow> u8 list option" where
  "get_bytes buf src n = (if src + n \<le> length buf then Some (take n (drop src buf)) else None)"

definition update_checksum :: "inflate_state \<Rightarrow> u8 list \<Rightarrow> inflate_state" where
  "update_checksum state start_in =
    (if crc_flag state \<in> {ISAL_GZIP, ISAL_GZIP_NO_HDR, ISAL_GZIP_NO_HDR_VER}
     then state\<lparr>crc := crc32_gzip_refl (crc state) start_in\<rparr>
     else if crc_flag state \<in> {ISAL_ZLIB, ISAL_ZLIB_NO_HDR, ISAL_ZLIB_NO_HDR_VER}
     then state\<lparr>crc := isal_adler32_bam1 (crc state) start_in\<rparr>
     else state)"

section \<open>Stored blocks\<close>

text \<open>How many bytes to take, and the state of the block after them. The sum \<open>avail_in + bytes\<close> has 32 bits.\<close>

definition literal_len :: "nat \<Rightarrow> inflate_state \<Rightarrow> nat \<times> inflate_state" where
  "literal_len bytes state =
    (let len = unat (type0_block_len state);
         state = state\<lparr>block_state := if bfinal state \<noteq> 0 then ISAL_BLOCK_INPUT_DONE else ISAL_BLOCK_NEW_HDR\<rparr>;
         (len, state) = (if avail_out state < len
           then (avail_out state, state\<lparr>block_state := ISAL_BLOCK_TYPE0\<rparr>) else (len, state));
         avail = (avail_in state + bytes) mod 2 ^ 32
     in if avail < len then (avail, state\<lparr>block_state := ISAL_BLOCK_TYPE0\<rparr>) else (len, state))"

definition literal_out :: "u8 list \<Rightarrow> inflate_state \<Rightarrow> inflate_state option" where
  "literal_out bs state = do {
     out \<leftarrow> put_bytes (out_buf state) (next_out state) bs;
     Some (state\<lparr>out_buf := out, next_out := next_out state + length bs, avail_out := avail_out state - length bs,
       total_out := total_out state + of_nat (length bs), type0_block_len := type0_block_len state - of_nat (length bs)\<rparr>)
   }"

text \<open>The bytes in the register, then the bytes in the input.\<close>

definition literal_register :: "nat \<Rightarrow> nat \<Rightarrow> inflate_state \<Rightarrow> (nat \<times> nat \<times> inflate_state) option" where
  "literal_register len bytes state =
    (if read_in_length state \<noteq> 0 then
       if len \<ge> bytes then do {
         state \<leftarrow> literal_out (take bytes (le_bytes 8 (read_in state))) state;
         Some (len - bytes, 0, state\<lparr>read_in := 0, read_in_length := 0\<rparr>)
       } else do {
         state \<leftarrow> literal_out (take len (le_bytes 8 (read_in state))) state;
         Some (0, bytes - len, state\<lparr>read_in := drop_bit (8 * len) (read_in state),
           read_in_length := read_in_length state - int (8 * len)\<rparr>)
       }
     else Some (len, bytes, state))"

definition literal_input :: "nat \<Rightarrow> inflate_state \<Rightarrow> inflate_state option" where
  "literal_input len state = do {
     bs \<leftarrow> get_bytes (in_buf state) (next_in state) len;
     state \<leftarrow> literal_out bs state;
     Some (state\<lparr>next_in := next_in state + len, avail_in := avail_in state - len\<rparr>)
   }"

definition decode_literal_block :: "inflate_state \<Rightarrow> (int \<times> inflate_state) option" where
  "decode_literal_block state = do {
     let bytes = nat (read_in_length state) div 8;
     let (len, state) = literal_len bytes state;
     (len, bytes, state) \<leftarrow> literal_register len bytes state;
     state \<leftarrow> literal_input len state;
     if (avail_in state + bytes) mod 2 ^ 32 = 0 \<and> block_state state \<noteq> ISAL_BLOCK_INPUT_DONE then Some (ISAL_END_INPUT, state)
     else if avail_out state = 0 \<and> sint (type0_block_len state) > 0 then Some (ISAL_OUT_OVERFLOW, state)
     else Some (0, state)
   }"

section \<open>Huffman coded blocks\<close>

definition decode_next_lit_len :: "inflate_state \<Rightarrow> inflate_huff_code_large \<Rightarrow>
    (u32 \<times> nat \<times> inflate_state) option" where
  "decode_next_lit_len state huff_code =
    (let state = (if read_in_length state \<le> 15 then inflate_in_load state else state);
         next_bits = unat (read_in state AND 0xFFF)
     in do {
       next_sym \<leftarrow> get_at (short_code_lookup huff_code) next_bits;
       if next_sym AND 0x2000000 = 0 then do {
         let bit_count = unat (drop_bit 28 next_sym);
         let state = in_skip bit_count state;
         let next_sym = (if bit_count = 0 then ucast INVALID_SYMBOL else next_sym);
         Some (next_sym AND 0x1FFFFFF, unat (drop_bit 26 next_sym AND 3), state)
       } else do {
         let bit_mask = unat (drop_bit 26 next_sym);
         let next_bits = unat (read_in state AND (push_bit bit_mask 1 - 1));
         next_sym \<leftarrow> get_at (long_code_lookup huff_code) (unat (next_sym AND 0x1FFFFFF) + next_bits div 2 ^ 12);
         let bit_count = unat (drop_bit 10 next_sym);
         let state = in_skip bit_count state;
         let next_sym = (if bit_count = 0 then INVALID_SYMBOL else next_sym);
         Some (ucast (next_sym AND 0x3FF), 1, state)
       }
     })"

text \<open>\<open>saved\<close> is the state before the symbols were read.\<close>

definition restore_in :: "inflate_state \<Rightarrow> inflate_state \<Rightarrow> inflate_state" where
  "restore_in saved state =
    state\<lparr>read_in := read_in saved, read_in_length := read_in_length saved, next_in := next_in saved,
      avail_in := avail_in saved\<rparr>"

definition end_of_block :: "inflate_state \<Rightarrow> inflate_state" where
  "end_of_block state =
    state\<lparr>block_state := if bfinal state \<noteq> 0 then ISAL_BLOCK_INPUT_DONE else ISAL_BLOCK_NEW_HDR\<rparr>"

text \<open>A repeat length: distance code, extra bits, copy.\<close>

definition copy_match :: "nat \<Rightarrow> nat \<Rightarrow> inflate_state \<Rightarrow> (int \<times> inflate_state) option" where
  "copy_match repeat_length look_back_dist state =
    (let (repeat_length, state) = (if avail_out state < repeat_length
       then (avail_out state, state\<lparr>copy_overflow_length := repeat_length - avail_out state,
         copy_overflow_distance := look_back_dist\<rparr>)
       else (repeat_length, state))
     in do {
       out \<leftarrow> (if look_back_dist > repeat_length
         then copy_within (out_buf state) (next_out state) (next_out state - look_back_dist) repeat_length
         else byte_copy (out_buf state) (next_out state) look_back_dist repeat_length);
       let state = state\<lparr>out_buf := out, next_out := next_out state + repeat_length,
         avail_out := avail_out state - repeat_length, total_out := total_out state + of_nat repeat_length\<rparr>;
       Some (if copy_overflow_length state > 0 then ISAL_OUT_OVERFLOW else 0, state)
     })"

definition repeat_symbol :: "inflate_state \<Rightarrow> nat \<Rightarrow> nat \<Rightarrow> inflate_state \<Rightarrow> (int \<times> inflate_state) option" where
  "repeat_symbol saved start_out repeat_length state = do {
     (next_dist, state) \<leftarrow> decode_next_dist state (dist_huff_code state);
     if read_in_length state \<ge> 0 \<and> unat next_dist \<ge> DIST_LEN then Some (ISAL_INVALID_SYMBOL, state)
     else do {
       let (look_back_dist, state) =
         (if read_in_length state \<ge> 0 then
            let (extra, state) = inflate_in_read_bits state (dist_extra_bit_count ! unat next_dist)
            in (dist_start ! unat next_dist + unat extra, state)
          else (0, state));
       if read_in_length state < 0 then
         Some (ISAL_END_INPUT, (restore_in saved state)\<lparr>next_out := next_out saved, avail_out := avail_out saved,
           total_out := total_out saved, write_overflow_lits := 0, write_overflow_len := 0\<rparr>)
       else if int (next_out state) - int look_back_dist < int start_out then Some (ISAL_INVALID_LOOKBACK, state)
       else copy_match repeat_length look_back_dist state
     }
   }"

text \<open>A literal that finds no room: the symbols that are left are kept for the caller. When the
  last of them is a repeat length the loop goes on with it alone; a last symbol whose low 16 bits
  are a literal but which is larger than 256 would then keep the loop at the same place for ever.\<close>

definition overflow_literals :: "u32 \<Rightarrow> nat \<Rightarrow> inflate_state \<Rightarrow> u32 \<times> inflate_state" where
  "overflow_literals next_lits sym_cnt state =
    (drop_bit (8 * (sym_cnt - 1)) next_lits,
     state\<lparr>write_overflow_lits := next_lits, write_overflow_len := sym_cnt\<rparr>)"

text \<open>The last of the symbols when it is not a literal.\<close>

definition last_symbol :: "inflate_state \<Rightarrow> nat \<Rightarrow> nat \<Rightarrow> inflate_state \<Rightarrow> (int \<times> inflate_state) option" where
  "last_symbol saved start_out next_lit state =
    (if next_lit = 256 then Some (0, end_of_block state)
     else if next_lit \<le> MAX_LIT_LEN_SYM then repeat_symbol saved start_out (next_lit - 254) state
     else Some (ISAL_INVALID_SYMBOL, state))"

fun write_symbols :: "inflate_state \<Rightarrow> nat \<Rightarrow> u32 \<Rightarrow> nat \<Rightarrow> inflate_state \<Rightarrow> (int \<times> inflate_state) option" where
  "write_symbols saved start_out next_lits 0 state = Some (0, state)"
| "write_symbols saved start_out next_lits (Suc n) state =
    (let next_lit = next_lits AND 0xFFFF
     in if next_lit < 256 \<or> Suc n > 1 then
          if avail_out state < 1 then
            let (next_lits, state) = overflow_literals next_lits (Suc n) state
            in if next_lits < 256 then Some (ISAL_OUT_OVERFLOW, state)
               else
                 let state = state\<lparr>write_overflow_len := write_overflow_len state - 1\<rparr>
                 in if next_lits = 256 then Some (ISAL_OUT_OVERFLOW, end_of_block state)
                    else if next_lits AND 0xFFFF < 256 then None
                    else last_symbol saved start_out (unat (next_lits AND 0xFFFF)) state
          else do {
            out \<leftarrow> put_bytes (out_buf state) (next_out state) [ucast next_lit];
            write_symbols saved start_out (drop_bit 8 next_lits) n
              (state\<lparr>out_buf := out, next_out := next_out state + 1, avail_out := avail_out state - 1,
                total_out := total_out state + 1\<rparr>)
          }
        else last_symbol saved start_out (unat next_lit) state)"

partial_function (option) block_loop :: "nat \<Rightarrow> inflate_state \<Rightarrow> (int \<times> inflate_state) option" where
  "block_loop start_out state =
    (if block_state state = ISAL_BLOCK_CODED then do {
       let state = inflate_in_load state;
       let saved = state;
       (next_lits, sym_cnt, state) \<leftarrow> decode_next_lit_len state (lit_huff_code state);
       if sym_cnt = 0 then Some (ISAL_INVALID_SYMBOL, state)
       else if read_in_length state < 0 then Some (ISAL_END_INPUT, restore_in saved state)
       else do {
         (ret, state) \<leftarrow> write_symbols saved start_out next_lits sym_cnt state;
         if ret \<noteq> 0 then Some (ret, state) else block_loop start_out state
       }
     } else Some (0, state))"

definition decode_huffman_code_block_stateless_base :: "inflate_state \<Rightarrow> nat \<Rightarrow> (int \<times> inflate_state) option" where
  "decode_huffman_code_block_stateless_base state start_out =
    block_loop start_out (state\<lparr>copy_overflow_length := 0, copy_overflow_distance := 0\<rparr>)"

definition decode_huffman_code_block_stateless :: "inflate_state \<Rightarrow> nat \<Rightarrow> (int \<times> inflate_state) option" where
  "decode_huffman_code_block_stateless state start_out = decode_huffman_code_block_stateless_base state start_out"

section \<open>The copy of a repeat\<close>

text \<open>Byte \<open>i\<close> of a repeat at distance \<open>d\<close>: the last \<open>d\<close> bytes over and over.\<close>

definition lz_repeat :: "u8 list \<Rightarrow> nat \<Rightarrow> nat \<Rightarrow> nat \<Rightarrow> u8 list" where
  "lz_repeat buf dest d n = map (\<lambda>i. buf ! (dest - d + i mod d)) [0..<n]"

lemma length_lz_repeat [simp]: "length (lz_repeat buf dest d n) = n"
  by (simp add: lz_repeat_def)

lemma byte_copy_repeat:
  assumes "0 < d" "d \<le> dest" "dest + n \<le> length buf"
  shows "byte_copy buf dest d n = Some (blit buf dest (lz_repeat buf dest d n))"
  using assms
proof (induction n arbitrary: buf dest)
  case 0
  then show ?case by (simp add: blit_def lz_repeat_def)
next
  case (Suc n)
  let ?buf = "buf[dest := buf ! (dest - d)]"
  have "lz_repeat ?buf (dest + 1) d n = map (\<lambda>i. buf ! (dest - d + Suc i mod d)) [0..<n]"
    unfolding lz_repeat_def
  proof (rule map_cong [OF refl])
    fix i assume "i \<in> set [0..<n]"
    have r: "i mod d < d" using Suc.prems by simp
    show "?buf ! (dest + 1 - d + i mod d) = buf ! (dest - d + Suc i mod d)"
    proof (cases "Suc (i mod d) = d")
      case True
      then have "dest + 1 - d + i mod d = dest" "Suc i mod d = 0" using Suc.prems by (simp_all add: mod_Suc)
      then show ?thesis using Suc.prems by simp
    next
      case False
      then have "dest + 1 - d + i mod d = dest - d + Suc i mod d" "dest + 1 - d + i mod d \<noteq> dest"
        using Suc.prems r by (simp_all add: mod_Suc)
      then show ?thesis by simp
    qed
  qed
  moreover have "lz_repeat buf dest d (Suc n) = buf ! (dest - d) # map (\<lambda>i. buf ! (dest - d + Suc i mod d)) [0..<n]"
    unfolding lz_repeat_def by (simp add: upt_conv_Cons map_Suc_upt [symmetric] comp_def del: upt_Suc)
  moreover have "blit ?buf (dest + 1) ys = blit buf dest (buf ! (dest - d) # ys)" for ys
    using Suc.prems by (simp add: blit_def take_Suc_conv_app_nth)
  ultimately show ?case using Suc.prems Suc.IH [of "dest + 1" ?buf] by simp
qed

lemma copy_within_repeat:
  assumes "n < d" "d \<le> dest" "dest + n \<le> length buf"
  shows "copy_within buf dest (dest - d) n = Some (blit buf dest (lz_repeat buf dest d n))"
proof -
  have "take n (drop (dest - d) buf) = lz_repeat buf dest d n"
    using assms by (intro nth_equalityI) (auto simp: lz_repeat_def)
  then show ?thesis using assms by (simp add: copy_within_def)
qed

section \<open>What the decoders keep\<close>

definition out_wf :: "inflate_state \<Rightarrow> bool" where
  "out_wf s \<longleftrightarrow> next_out s + avail_out s \<le> length (out_buf s)"

text \<open>From \<open>s\<close> to \<open>s'\<close> only the bytes between \<open>next_out s\<close> and \<open>next_out s + avail_out s\<close> are
  written, the counters agree, and the input block and the tables are the same.\<close>

definition out_ext :: "inflate_state \<Rightarrow> inflate_state \<Rightarrow> bool" where
  "out_ext s s' \<longleftrightarrow> in_buf s' = in_buf s \<and> in_end s' = in_end s
    \<and> lit_huff_code s' = lit_huff_code s \<and> dist_huff_code s' = dist_huff_code s
    \<and> next_out s \<le> next_out s' \<and> next_out s' + avail_out s' = next_out s + avail_out s
    \<and> length (out_buf s') = length (out_buf s) \<and> take (next_out s) (out_buf s') = take (next_out s) (out_buf s)
    \<and> drop (next_out s + avail_out s) (out_buf s') = drop (next_out s + avail_out s) (out_buf s)
    \<and> total_out s' = total_out s + of_nat (next_out s' - next_out s)"

lemma out_ext_refl [simp]: "out_ext s s"
  by (simp add: out_ext_def)

lemma out_ext_trans:
  assumes "out_ext a b" "out_ext b c"
  shows "out_ext a c"
proof -
  have "take (next_out a) (out_buf c) = take (next_out a) (out_buf b)"
    using assms by (simp add: out_ext_def) (metis min.absorb1 take_take)
  moreover have "next_out c - next_out a = (next_out b - next_out a) + (next_out c - next_out b)"
    using assms by (simp add: out_ext_def)
  ultimately show ?thesis using assms by (simp add: out_ext_def)
qed

lemma out_ext_wf: "out_ext s s' \<Longrightarrow> out_wf s \<Longrightarrow> out_wf s'"
  by (simp add: out_ext_def out_wf_def)

lemma out_ext_in_rest: "in_rest s' = in_rest s \<Longrightarrow> in_end s' = in_end s \<Longrightarrow> out_ext s s'"
  using in_rest_fields [of s' s] by (simp add: out_ext_def)

text \<open>Writing bytes at \<open>next_out\<close>.\<close>

lemma out_ext_write:
  assumes "out_wf s" "length bs \<le> avail_out s"
    and "s' = s\<lparr>out_buf := blit (out_buf s) (next_out s) bs, next_out := next_out s + length bs,
      avail_out := avail_out s - length bs, total_out := total_out s + of_nat (length bs)\<rparr>"
  shows "out_ext s s'"
  using assms by (auto simp: out_ext_def out_wf_def blit_def in_end_def add.commute)

lemma put_bytes_room:
  "out_wf s \<Longrightarrow> length bs \<le> avail_out s \<Longrightarrow> put_bytes (out_buf s) (next_out s) bs = Some (blit (out_buf s) (next_out s) bs)"
  by (simp add: put_bytes_def out_wf_def)

section \<open>Symbols are looked up inside the tables\<close>

text \<open>Every hint points to entries of the long table for all the bits it selects; the symbols of a
  short entry leave a last one below \<open>2\<^sup>1\<^sup>6\<close>.\<close>

definition small_ok :: "inflate_huff_code_small \<Rightarrow> bool" where
  "small_ok tbl \<longleftrightarrow> length (short_code_lookup tbl) = 1024
    \<and> (\<forall>e \<in> set (short_code_lookup tbl). e AND 0x400 \<noteq> 0 \<longrightarrow>
        unat (e AND 0x1FF) + 2 ^ (unat (drop_bit 11 (e - 0x400)) - 10) \<le> length (long_code_lookup tbl))"

definition large_ok :: "inflate_huff_code_large \<Rightarrow> bool" where
  "large_ok tbl \<longleftrightarrow> length (short_code_lookup tbl) = 4096
    \<and> (\<forall>e \<in> set (short_code_lookup tbl).
        if e AND 0x2000000 \<noteq> 0
        then unat (drop_bit 26 e) \<le> 21
          \<and> unat (e AND 0x1FFFFFF) + 2 ^ (unat (drop_bit 26 e) - 12) \<le> length (long_code_lookup tbl)
        else drop_bit (8 * (unat (drop_bit 26 e AND 3) - 1)) (e AND 0x1FFFFFF) < 0x10000)"

text \<open>What a decoded symbol leaves: bits were taken from the front of the stream, unless there were
  too few.\<close>

definition taken :: "inflate_state \<Rightarrow> inflate_state \<Rightarrow> bool" where
  "taken s s' \<longleftrightarrow> in_rest s' = in_rest s \<and> in_end s' = in_end s
    \<and> (0 \<le> read_in_length s' \<longrightarrow> in_wf s' \<and> length (in_bits s') < length (in_bits s))"

lemma taken_in_skip:
  assumes "in_wf s" "0 < n"
  shows "taken s (in_skip n s)"
proof -
  have "in_wf (in_skip n s) \<and> length (in_bits (in_skip n s)) < length (in_bits s)" if "0 \<le> read_in_length (in_skip n s)"
  proof -
    have n: "int n \<le> read_in_length s" using that by simp
    then have "n \<le> length (in_bits s)" by (simp add: length_in_bits)
    then show ?thesis using in_skip [OF assms(1) n] assms(2) by simp
  qed
  then show ?thesis by (simp add: taken_def)
qed

lemma in_peek_alt: "(if read_in_length s \<le> 15 then inflate_in_load s else s) = in_peek s"
  by (simp add: in_peek_def)

lemma taken_in_peek: "in_wf s \<Longrightarrow> taken (in_peek s) s' \<Longrightarrow> taken s s'"
  using in_peek [of s] by (simp add: taken_def)

lemma unat_and_ones_div:
  "m < 64 \<Longrightarrow> k \<le> m \<Longrightarrow> unat ((r :: u64) AND (push_bit m 1 - 1)) div 2 ^ k < 2 ^ (m - k)"
  using unat_and_ones [of m r] by (simp add: div_less_iff_less_mult power_add [symmetric])

lemma unat_and_ones_div':
  "m < 64 \<Longrightarrow> unat ((r :: u64) AND (push_bit m 1 - 1)) div 2 ^ k < 2 ^ (m - k)"
proof (cases "k \<le> m")
  case False
  assume m: "m < 64"
  have "unat (r AND (push_bit m 1 - 1)) < 2 ^ m" using unat_and_ones [OF m, of r] by simp
  also have "(2 :: nat) ^ m \<le> 2 ^ k" using False by (intro power_increasing) auto
  finally show ?thesis using False by simp
qed (rule unat_and_ones_div)

lemma decode_next_dist_safe:
  assumes wf: "in_wf s" and ok: "small_ok t"
  obtains v s' where "decode_next_dist s t = Some (v, s')" "in_rest s' = in_rest s" "in_end s' = in_end s"
    "unat v < 32" "unat v < 30 \<Longrightarrow> taken s s'"
proof -
  note result = that
  let ?s = "in_peek s" and ?r = "read_in (in_peek s)"
  let ?e = "short_code_lookup t ! unat (?r AND 0x3FF)"
  have pw: "in_wf ?s" "in_rest ?s = in_rest s" "in_end ?s = in_end s" using in_peek [OF wf] by simp_all
  have len: "length (short_code_lookup t) = 1024" using ok by (simp add: small_ok_def)
  have "unat (?r AND (push_bit 10 1 - 1)) < 2 ^ 10" using unat_and_ones [of 10 ?r] by simp
  then have ix: "unat (?r AND 0x3FF) < 1024" by simp
  then have get: "get_at (short_code_lookup t) (unat (?r AND 0x3FF)) = Some ?e" by (simp add: get_at_Some len)
  have m31: "(0x1F :: u16) = mask 5" by (simp add: mask_eq_exp_minus_1)
  have v32: "unat (x AND 0x1F) < 32" for x :: u16
  proof -
    have "unat (x AND mask 5) < 2 ^ 5"
      by (simp only: take_bit_eq_mask [symmetric] unsigned_take_bit_eq take_bit_nat_less_exp)
    then show ?thesis unfolding m31 by simp
  qed
  have inv: "unat (INVALID_SYMBOL AND 0x1F) = 31" by (simp add: INVALID_SYMBOL_def)
  have res: thesis
    if "decode_next_dist s t = (if n = 0 then Some (INVALID_SYMBOL AND 0x1F, (in_skip n ?s)\<lparr>read_in_length := l\<rparr>)
      else Some (x AND 0x1F, in_skip n ?s))" for n x l
  proof (cases "n = 0")
    case True
    have "in_rest ((in_skip n ?s)\<lparr>read_in_length := l\<rparr>) = in_rest (in_skip n ?s)" by (simp add: in_rest_def)
    then show ?thesis using that True pw inv
      by (intro result [of "INVALID_SYMBOL AND 0x1F" "(in_skip n ?s)\<lparr>read_in_length := l\<rparr>"])
        (auto simp: in_end_def)
  next
    case False
    then show ?thesis using that pw v32 taken_in_peek [OF wf taken_in_skip [OF pw(1), of n]]
      by (intro result [of "x AND 0x1F" "in_skip n ?s"]) (auto)
  qed
  show thesis
  proof (cases "?e AND 0x400 = 0")
    case True
    show thesis
      by (rule res [of "unat (drop_bit 11 ?e)" "read_in_length (in_skip (unat (drop_bit 11 ?e)) ?s) - int (unat ?e)" ?e])
        (simp add: decode_next_dist_def in_peek_alt Let_def get True)
  next
    case False
    let ?m = "unat (drop_bit 11 (?e - 0x400))"
    let ?i = "unat (?e AND 0x1FF) + unat (?r AND (push_bit ?m 1 - 1)) div 2 ^ 10"
    have "?e \<in> set (short_code_lookup t)" using ix len by simp
    then have "unat (?e AND 0x1FF) + 2 ^ (?m - 10) \<le> length (long_code_lookup t)"
      using ok False by (auto simp: small_ok_def)
    moreover have "?m < 64"
    proof -
      have "?m = drop_bit 11 (unat (?e - 0x400))" by (rule unat_drop_bit_eq)
      then have "?m = unat (?e - 0x400) div 2 ^ 11" by (simp only: drop_bit_eq_div)
      moreover have "unat (?e - 0x400) < 2 ^ 16" using unsigned_less [of "?e - 0x400"] by simp
      ultimately show ?thesis by simp
    qed
    then have "unat (?r AND (push_bit ?m 1 - 1)) div 2 ^ 10 < 2 ^ (?m - 10)" by (rule unat_and_ones_div')
    ultimately have "?i < length (long_code_lookup t)" by linarith
    then have get2: "get_at (long_code_lookup t) ?i = Some (long_code_lookup t ! ?i)" by (rule get_at_Some)
    let ?x = "long_code_lookup t ! ?i"
    show thesis
      by (rule res [of "unat (drop_bit 10 ?x)" "read_in_length (in_skip (unat (drop_bit 10 ?x)) ?s) - int (unat ?x)" ?x])
        (simp add: decode_next_dist_def in_peek_alt Let_def get False ISAL_DECODE_SHORT_BITS_def get2 [unfolded power_numeral, simplified] get2)
  qed
qed

lemma decode_next_lit_len_safe:
  assumes wf: "in_wf s" and ok: "large_ok t"
  obtains l c s' where "decode_next_lit_len s t = Some (l, c, s')" "in_rest s' = in_rest s" "in_end s' = in_end s"
    "c = 0 \<or> drop_bit (8 * (c - 1)) l < 0x10000" "c = 0 \<or> c = 1 \<and> l = 0x3FF \<or> taken s s'"
    "0 \<le> read_in_length s' \<Longrightarrow> in_wf s'"
proof -
  note result = that
  let ?s = "in_peek s" and ?r = "read_in (in_peek s)"
  let ?e = "short_code_lookup t ! unat (?r AND 0xFFF)"
  have pw: "in_wf ?s" "in_rest ?s = in_rest s" "in_end ?s = in_end s" using in_peek [OF wf] by simp_all
  have len: "length (short_code_lookup t) = 4096" using ok by (simp add: large_ok_def)
  have "unat (?r AND (push_bit 12 1 - 1)) < 2 ^ 12" using unat_and_ones [of 12 ?r] by simp
  then have ix: "unat (?r AND 0xFFF) < 4096" by simp
  then have get: "get_at (short_code_lookup t) (unat (?r AND 0xFFF)) = Some ?e" by (simp add: get_at_Some len)
  have mem: "?e \<in> set (short_code_lookup t)" using ix len by simp
  have skip0: "in_wf (in_skip 0 ?s)" using in_skip [OF pw(1), of 0] pw(1) by (simp add: in_wf_def)
  have tk: "taken s (in_skip n ?s)" if "n \<noteq> 0" for n
    using that taken_in_peek [OF wf taken_in_skip [OF pw(1)]] by simp
  show thesis
  proof (cases "?e AND 0x2000000 = 0")
    case True
    let ?n = "unat (drop_bit 28 ?e)"
    have d: "decode_next_lit_len s t = (if ?n = 0 then Some (ucast INVALID_SYMBOL AND 0x1FFFFFF, 0, in_skip 0 ?s)
      else Some (?e AND 0x1FFFFFF, unat (drop_bit 26 ?e AND 3), in_skip ?n ?s))"
      by (simp add: decode_next_lit_len_def in_peek_alt Let_def get True) (simp add: INVALID_SYMBOL_def)
    show thesis
    proof (cases "?n = 0")
      case True
      then have "decode_next_lit_len s t = Some (ucast INVALID_SYMBOL AND 0x1FFFFFF, 0, in_skip 0 ?s)" using d by simp
      then show ?thesis by (rule result) (use pw skip0 in simp_all)
    next
      case False
      have last: "drop_bit (8 * (unat (drop_bit 26 ?e AND 3) - 1)) (?e AND 0x1FFFFFF) < 0x10000"
        using ok mem True by (auto simp: large_ok_def split: if_splits)
      have "decode_next_lit_len s t = Some (?e AND 0x1FFFFFF, unat (drop_bit 26 ?e AND 3), in_skip ?n ?s)"
        using d False by simp
      then show ?thesis by (rule result) (use pw tk [OF False] last in \<open>simp_all add: taken_def\<close>)
    qed
  next
    case False
    let ?m = "unat (drop_bit 26 ?e)"
    let ?i = "unat (?e AND 0x1FFFFFF) + unat (?r AND (push_bit ?m 1 - 1)) div 2 ^ 12"
    have e: "?m \<le> 21" "unat (?e AND 0x1FFFFFF) + 2 ^ (?m - 12) \<le> length (long_code_lookup t)"
      using ok mem False by (auto simp: large_ok_def split: if_splits)
    have "unat (?r AND (push_bit ?m 1 - 1)) div 2 ^ 12 < 2 ^ (?m - 12)" by (rule unat_and_ones_div') (use e(1) in simp)
    then have "?i < length (long_code_lookup t)" using e(2) by linarith
    then have get2: "get_at (long_code_lookup t) ?i = Some (long_code_lookup t ! ?i)" by (rule get_at_Some)
    let ?x = "long_code_lookup t ! ?i"
    let ?n = "unat (drop_bit 10 ?x)"
    have d: "decode_next_lit_len s t = Some (ucast ((if ?n = 0 then INVALID_SYMBOL else ?x) AND 0x3FF), 1, in_skip ?n ?s)"
      using get2 by (simp add: decode_next_lit_len_def in_peek_alt Let_def get False)
    have lo: "(ucast (y AND 0x3FF) :: u32) < 0x10000" for y :: u16
    proof -
      have "unat (y AND 0x3FF) < 2 ^ LENGTH(16)" by (rule unsigned_less)
      then have "unat (y AND 0x3FF) < 65536" by simp
      then have "unat (ucast (y AND 0x3FF) :: u32) < 65536"
        unfolding unsigned_ucast_eq by (rule le_less_trans [OF take_bit_nat_less_eq_self])
      then show ?thesis by (simp add: word_less_nat_alt)
    qed
    show thesis
    proof (cases "?n = 0")
      case True
      have "(ucast (INVALID_SYMBOL AND 0x3FF) :: u32) = 0x3FF" by (simp add: INVALID_SYMBOL_def)
      then have "decode_next_lit_len s t = Some (0x3FF, 1, in_skip 0 ?s)" using d True by simp
      then show ?thesis by (rule result) (use pw skip0 in simp_all)
    next
      case False
      then have "decode_next_lit_len s t = Some (ucast (?x AND 0x3FF), 1, in_skip ?n ?s)" using d by simp
      then show ?thesis by (rule result) (use pw lo [of ?x] tk [OF False] in \<open>simp_all add: taken_def\<close>)
    qed
  qed
qed

section \<open>Coded blocks are decoded inside the buffers\<close>

text \<open>The states of the loop, and what a step from \<open>s\<close> returns.\<close>

definition block_ok :: "inflate_state \<Rightarrow> bool" where
  "block_ok s \<longleftrightarrow> in_wf s \<and> out_wf s \<and> small_ok (dist_huff_code s) \<and> large_ok (lit_huff_code s)"

definition step_ok :: "inflate_state \<Rightarrow> inflate_state \<Rightarrow> int \<Rightarrow> inflate_state \<Rightarrow> bool" where
  "step_ok saved s ret s' \<longleftrightarrow> ret \<in> {0, ISAL_END_INPUT, ISAL_OUT_OVERFLOW, ISAL_INVALID_SYMBOL, ISAL_INVALID_LOOKBACK}
    \<and> out_ext saved s' \<and> (0 \<le> ret \<longrightarrow> in_wf s') \<and> (ret = 0 \<longrightarrow> length (in_bits s') \<le> length (in_bits s) \<and> copy_overflow_length s' = 0)"

lemma out_ext_block_ok: "out_ext s s' \<Longrightarrow> block_ok s \<Longrightarrow> in_wf s' \<Longrightarrow> block_ok s'"
  using out_ext_wf [of s s'] by (simp add: block_ok_def out_ext_def)

lemma in_fields_ignore:
  "in_wf (s\<lparr>out_buf := a, next_out := b, avail_out := c, total_out := d\<rparr>) = in_wf s"
  "in_bits (s\<lparr>out_buf := a, next_out := b, avail_out := c, total_out := d\<rparr>) = in_bits s"
  "in_wf (s\<lparr>block_state := e\<rparr>) = in_wf s" "in_bits (s\<lparr>block_state := e\<rparr>) = in_bits s"
  "in_wf (s\<lparr>copy_overflow_length := f, copy_overflow_distance := g\<rparr>) = in_wf s"
  "in_bits (s\<lparr>copy_overflow_length := f, copy_overflow_distance := g\<rparr>) = in_bits s"
  "in_wf (s\<lparr>write_overflow_lits := h, write_overflow_len := i\<rparr>) = in_wf s"
  "in_bits (s\<lparr>write_overflow_lits := h, write_overflow_len := i\<rparr>) = in_bits s"
  "in_wf (s\<lparr>write_overflow_lits := h\<rparr>) = in_wf s" "in_bits (s\<lparr>write_overflow_lits := h\<rparr>) = in_bits s"
  "in_wf (s\<lparr>write_overflow_len := i\<rparr>) = in_wf s" "in_bits (s\<lparr>write_overflow_len := i\<rparr>) = in_bits s"
  by (simp_all add: in_wf_def in_bits_def avail_bytes_def)

lemma out_ext_ignore:
  "out_ext s (t\<lparr>block_state := e\<rparr>) = out_ext s t"
  "out_ext s (t\<lparr>copy_overflow_length := f, copy_overflow_distance := g\<rparr>) = out_ext s t"
  "out_ext s (t\<lparr>write_overflow_lits := h, write_overflow_len := i\<rparr>) = out_ext s t"
  "out_ext s (t\<lparr>write_overflow_lits := h\<rparr>) = out_ext s t"
  "out_ext s (t\<lparr>write_overflow_len := i\<rparr>) = out_ext s t"
  by (simp_all add: out_ext_def in_end_def)

lemma out_ext_restore:
  assumes "out_ext saved s"
  shows "out_ext saved (restore_in saved s)"
    "out_ext saved ((restore_in saved s)\<lparr>next_out := next_out saved, avail_out := avail_out saved,
      total_out := total_out saved, write_overflow_lits := a, write_overflow_len := b\<rparr>)"
  using assms by (simp_all add: out_ext_def restore_in_def in_end_def)

lemma in_wf_restore:
  assumes "in_wf saved" "in_buf s = in_buf saved"
  shows "in_wf (restore_in saved s)"
    "in_wf ((restore_in saved s)\<lparr>next_out := c, avail_out := d,
      total_out := e, write_overflow_lits := a, write_overflow_len := b\<rparr>)"
  using assms by (simp_all add: in_wf_def restore_in_def in_bits_def avail_bytes_def)

lemma copy_repeat:
  assumes "0 < d" "d \<le> dest" "dest + n \<le> length buf"
  shows "(if d > n then copy_within buf dest (dest - d) n else byte_copy buf dest d n)
    = Some (blit buf dest (lz_repeat buf dest d n))"
  using copy_within_repeat [OF _ assms(2,3)] byte_copy_repeat [OF assms] by auto

lemma dist_start_pos: "v < 30 \<Longrightarrow> 0 < dist_start ! v \<and> dist_extra_bit_count ! v \<le> 13"
proof -
  assume v: "v < 30"
  have "list_all ((<) 0) (take 30 dist_start)" "list_all (\<lambda>x. x \<le> 13) dist_extra_bit_count"
    "length dist_start = 32" "length dist_extra_bit_count = 32"
    by (simp_all add: dist_start_def dist_extra_bit_count_def)
  with v show ?thesis by (simp add: list_all_length)
qed

text \<open>The copy itself, once the distance \<open>d\<close> is known.\<close>

definition do_repeat :: "nat \<Rightarrow> nat \<Rightarrow> inflate_state \<Rightarrow> inflate_state" where
  "do_repeat n d s =
    (let m = min n (avail_out s);
         s = (if avail_out s < n then s\<lparr>copy_overflow_length := n - avail_out s, copy_overflow_distance := d\<rparr> else s)
     in s\<lparr>out_buf := blit (out_buf s) (next_out s) (lz_repeat (out_buf s) (next_out s) d m), next_out := next_out s + m,
        avail_out := avail_out s - m, total_out := total_out s + of_nat m\<rparr>)"

lemma do_repeat:
  assumes "out_wf s"
  shows "out_ext s (do_repeat n d s)" "in_wf (do_repeat n d s) = in_wf s" "in_bits (do_repeat n d s) = in_bits s"
    "block_state (do_repeat n d s) = block_state s"
    "\<not> avail_out s < n \<Longrightarrow> copy_overflow_length (do_repeat n d s) = copy_overflow_length s"
proof -
  let ?m = "min n (avail_out s)"
  let ?bs = "lz_repeat (out_buf s) (next_out s) d ?m"
  let ?s = "s\<lparr>out_buf := blit (out_buf s) (next_out s) ?bs, next_out := next_out s + length ?bs,
    avail_out := avail_out s - length ?bs, total_out := total_out s + of_nat (length ?bs)\<rparr>"
  let ?t = "if avail_out s < n then ?s\<lparr>copy_overflow_length := n - avail_out s, copy_overflow_distance := d\<rparr> else ?s"
  have t: "do_repeat n d s = ?t" by (simp add: do_repeat_def Let_def)
  have "out_ext s ?s" by (rule out_ext_write [OF assms _ refl]) simp
  then show "out_ext s (do_repeat n d s)"
    unfolding t by (cases "avail_out s < n") (simp_all add: out_ext_ignore min_def)
  show "in_wf (do_repeat n d s) = in_wf s" "in_bits (do_repeat n d s) = in_bits s"
    "block_state (do_repeat n d s) = block_state s"
    "\<not> avail_out s < n \<Longrightarrow> copy_overflow_length (do_repeat n d s) = copy_overflow_length s"
    unfolding t by (simp_all add: in_fields_ignore)
qed

lemma copy_match:
  assumes "0 < d" "d \<le> next_out s" "out_wf s" "copy_overflow_length s = 0"
  shows "copy_match n d s = Some (if avail_out s < n then ISAL_OUT_OVERFLOW else 0, do_repeat n d s)"
proof -
  have copy: "(if d > m then copy_within (out_buf s) (next_out s) (next_out s - d) m else byte_copy (out_buf s) (next_out s) d m)
      = Some (blit (out_buf s) (next_out s) (lz_repeat (out_buf s) (next_out s) d m))" if "m \<le> avail_out s" for m
    using copy_repeat [OF assms(1,2), of m "out_buf s"] that assms(3) by (simp add: out_wf_def)
  show ?thesis
  proof (cases "avail_out s < n")
    case True
    then show ?thesis using copy [of "avail_out s"] assms(4)
      by (auto simp: copy_match_def do_repeat_def Let_def split: if_splits)
  next
    case False
    then have "min n (avail_out s) = n" by simp
    with False show ?thesis using copy [of n] assms(4)
      by (auto simp: copy_match_def do_repeat_def Let_def split: if_splits)
  qed
qed

lemma repeat_symbol_cases:
  assumes dist: "decode_next_dist s (dist_huff_code s) = Some (v, s1)"
  shows "0 \<le> read_in_length s1 \<Longrightarrow> 30 \<le> unat v \<Longrightarrow> repeat_symbol saved start_out n s = Some (ISAL_INVALID_SYMBOL, s1)"
    and "read_in_length s1 < 0 \<Longrightarrow> repeat_symbol saved start_out n s
      = Some (ISAL_END_INPUT, (restore_in saved s1)\<lparr>next_out := next_out saved, avail_out := avail_out saved,
          total_out := total_out saved, write_overflow_lits := 0, write_overflow_len := 0\<rparr>)"
    and "\<lbrakk>0 \<le> read_in_length s1; unat v < 30; inflate_in_read_bits s1 (dist_extra_bit_count ! unat v) = (e, s2);
        read_in_length s2 < 0\<rbrakk> \<Longrightarrow> repeat_symbol saved start_out n s
      = Some (ISAL_END_INPUT, (restore_in saved s2)\<lparr>next_out := next_out saved, avail_out := avail_out saved,
          total_out := total_out saved, write_overflow_lits := 0, write_overflow_len := 0\<rparr>)"
    and "\<lbrakk>0 \<le> read_in_length s1; unat v < 30; inflate_in_read_bits s1 (dist_extra_bit_count ! unat v) = (e, s2);
        0 \<le> read_in_length s2; next_out s2 < start_out + (dist_start ! unat v + unat e)\<rbrakk>
      \<Longrightarrow> repeat_symbol saved start_out n s = Some (ISAL_INVALID_LOOKBACK, s2)"
    and "\<lbrakk>0 \<le> read_in_length s1; unat v < 30; inflate_in_read_bits s1 (dist_extra_bit_count ! unat v) = (e, s2);
        0 \<le> read_in_length s2; start_out + (dist_start ! unat v + unat e) \<le> next_out s2; out_wf s2; copy_overflow_length s2 = 0\<rbrakk>
      \<Longrightarrow> repeat_symbol saved start_out n s = Some (if avail_out s2 < n then ISAL_OUT_OVERFLOW else 0,
          do_repeat n (dist_start ! unat v + unat e) s2)"
proof -
  let ?d = "dist_start ! unat v + unat e"
  assume r: "0 \<le> read_in_length s1" "unat v < 30" "inflate_in_read_bits s1 (dist_extra_bit_count ! unat v) = (e, s2)"
    "0 \<le> read_in_length s2" "start_out + ?d \<le> next_out s2" "out_wf s2" "copy_overflow_length s2 = 0"
  have "\<not> int (next_out s2) - int ?d < int start_out" using r(5) by linarith
  then have "repeat_symbol saved start_out n s = copy_match n ?d s2"
    using r by (simp add: repeat_symbol_def dist DIST_LEN_def Let_def)
  then show "repeat_symbol saved start_out n s = Some (if avail_out s2 < n then ISAL_OUT_OVERFLOW else 0, do_repeat n ?d s2)"
    using copy_match [of ?d s2 n] dist_start_pos [OF r(2)] r(5-7) by simp
next
  assume r: "0 \<le> read_in_length s1" "unat v < 30" "inflate_in_read_bits s1 (dist_extra_bit_count ! unat v) = (e, s2)"
    "0 \<le> read_in_length s2" "next_out s2 < start_out + (dist_start ! unat v + unat e)"
  then have "int (next_out s2) - int (dist_start ! unat v + unat e) < int start_out" by linarith
  then show "repeat_symbol saved start_out n s = Some (ISAL_INVALID_LOOKBACK, s2)"
    using r by (simp add: repeat_symbol_def dist DIST_LEN_def Let_def)
qed (simp_all add: repeat_symbol_def dist DIST_LEN_def Let_def)

lemma step_ok_end_input:
  assumes "out_ext saved s'" "in_wf saved"
  shows "step_ok saved s ISAL_END_INPUT (restore_in saved s')"
    "step_ok saved s ISAL_END_INPUT ((restore_in saved s')\<lparr>next_out := next_out saved, avail_out := avail_out saved,
      total_out := total_out saved, write_overflow_lits := a, write_overflow_len := b\<rparr>)"
proof -
  have "in_buf s' = in_buf saved" using assms(1) by (simp add: out_ext_def)
  then show "step_ok saved s ISAL_END_INPUT (restore_in saved s')"
    "step_ok saved s ISAL_END_INPUT ((restore_in saved s')\<lparr>next_out := next_out saved, avail_out := avail_out saved,
      total_out := total_out saved, write_overflow_lits := a, write_overflow_len := b\<rparr>)"
    using out_ext_restore [OF assms(1)] in_wf_restore [OF assms(2)]
    by (simp_all add: step_ok_def ISAL_END_INPUT_def)
qed

lemma repeat_symbol_safe:
  assumes ok: "block_ok s" and saved: "out_ext saved s" "in_wf saved" and co: "copy_overflow_length s = 0"
  shows "\<exists>ret s'. repeat_symbol saved start_out n s = Some (ret, s') \<and> step_ok saved s ret s'"
proof -
  have b: "in_wf s" "out_wf s" "small_ok (dist_huff_code s)" using ok by (simp_all add: block_ok_def)
  from decode_next_dist_safe [OF b(1,3)] obtain v s1 where d: "decode_next_dist s (dist_huff_code s) = Some (v, s1)"
    "in_rest s1 = in_rest s" "in_end s1 = in_end s" "unat v < 32" "unat v < 30 \<Longrightarrow> taken s s1" by blast
  note rc = repeat_symbol_cases [OF d(1)]
  have x1: "out_ext saved s1" by (rule out_ext_trans [OF saved(1) out_ext_in_rest [OF d(2,3)]])
  consider "0 \<le> read_in_length s1" "30 \<le> unat v" | "read_in_length s1 < 0" | "0 \<le> read_in_length s1" "unat v < 30"
    by linarith
  then show ?thesis
  proof cases
    case 1
    then show ?thesis using rc(1) x1 by (simp add: step_ok_def ISAL_INVALID_SYMBOL_def)
  next
    case 2
    then show ?thesis using rc(2) step_ok_end_input(2) [OF x1 saved(2)] by auto
  next
    case 3
    then have t: "in_wf s1" "length (in_bits s1) < length (in_bits s)" using d(5) by (simp_all add: taken_def)
    obtain e s2 where e: "inflate_in_read_bits s1 (dist_extra_bit_count ! unat v) = (e, s2)" by fastforce
    have "dist_extra_bit_count ! unat v \<le> 30" using dist_start_pos [OF 3(2)] by simp
    note sp = inflate_in_read_bits_spec [OF t(1) this e]
    have r2: "in_rest s2 = in_rest s1" "in_end s2 = in_end s1" using sp by simp_all
    have x2: "out_ext saved s2" by (rule out_ext_trans [OF x1 out_ext_in_rest [OF r2]])
    show ?thesis
    proof (cases "read_in_length s2 < 0")
      case True
      show ?thesis using rc(3) [OF 3 e True] step_ok_end_input(2) [OF x2 saved(2)] by auto
    next
      case False
      then have w2: "in_wf s2" "length (in_bits s2) \<le> length (in_bits s1)" using sp by auto
      show ?thesis
      proof (cases "next_out s2 < start_out + (dist_start ! unat v + unat e)")
        case True
        show ?thesis using rc(4) [OF 3 e _ True] False x2 by (simp add: step_ok_def ISAL_INVALID_LOOKBACK_def)
      next
        case lb: False
        have o2: "out_wf s2" using out_ext_wf [OF out_ext_in_rest [of s2 s]] r2 d(2,3) b(2) by simp
        have c2: "copy_overflow_length s2 = 0" using in_rest_fields [of s2 s] r2 d(2) co by simp
        note rr = do_repeat [OF o2, of n "dist_start ! unat v + unat e"]
        have "out_ext saved (do_repeat n (dist_start ! unat v + unat e) s2)" using x2 rr(1) by (rule out_ext_trans)
        then show ?thesis using rc(5) [OF 3 e _ _ o2 c2] False lb rr w2 t(2) c2
          by (auto simp: step_ok_def ISAL_OUT_OVERFLOW_def)
      qed
    qed
  qed
qed

lemma last_symbol_safe:
  assumes "block_ok s" "out_ext saved s" "in_wf saved" "copy_overflow_length s = 0"
  shows "\<exists>ret s'. last_symbol saved start_out k s = Some (ret, s') \<and> step_ok saved s ret s'"
proof -
  have "step_ok saved s 0 (end_of_block s)"
    using assms by (simp add: step_ok_def end_of_block_def out_ext_ignore in_fields_ignore block_ok_def)
  moreover have "step_ok saved s ISAL_INVALID_SYMBOL s" using assms(2) by (simp add: step_ok_def ISAL_INVALID_SYMBOL_def)
  ultimately show ?thesis using repeat_symbol_safe [OF assms] by (simp add: last_symbol_def)
qed

lemma and_FFFF:
  assumes "(x :: u32) < 0x10000"
  shows "x AND 0xFFFF = x"
proof -
  have "unat x < 2 ^ 16" using assms by (simp add: word_less_nat_alt)
  then have "unat (take_bit 16 x) = unat x" by (simp add: unsigned_take_bit_eq take_bit_nat_eq_self)
  then have t: "take_bit 16 x = x" by (simp only: word_unat_eq_iff)
  have m: "(0xFFFF :: u32) = mask 16" by (simp add: mask_eq_exp_minus_1)
  show ?thesis using t unfolding m take_bit_eq_mask .
qed

lemma write_literal:
  fixes b :: u8
  assumes ok: "block_ok s" and ext: "out_ext saved s" and room: "\<not> avail_out s < 1"
  defines "s' \<equiv> s\<lparr>out_buf := blit (out_buf s) (next_out s) [b], next_out := next_out s + 1,
    avail_out := avail_out s - 1, total_out := total_out s + 1\<rparr>"
  shows "put_bytes (out_buf s) (next_out s) [b] = Some (blit (out_buf s) (next_out s) [b])"
    "block_ok s'" "out_ext saved s'" "copy_overflow_length s' = copy_overflow_length s" "in_bits s' = in_bits s"
proof -
  have w: "out_wf s" using ok by (simp add: block_ok_def)
  show "put_bytes (out_buf s) (next_out s) [b] = Some (blit (out_buf s) (next_out s) [b])"
    using put_bytes_room [OF w, of "[b]"] room by simp
  have x: "out_ext s s'" by (rule out_ext_write [OF w, of "[b]"]) (use room in \<open>simp_all add: s'_def\<close>)
  then show "out_ext saved s'" using ext by (blast intro: out_ext_trans)
  have "in_wf s'" using ok by (simp add: s'_def in_fields_ignore block_ok_def)
  then show "block_ok s'" using out_ext_block_ok [OF x ok] by simp
qed (simp_all add: s'_def in_fields_ignore)

lemma write_symbols_safe:
  assumes "block_ok s" "out_ext saved s" "in_wf saved" "copy_overflow_length s = 0"
    and "c = 0 \<or> drop_bit (8 * (c - 1)) l < 0x10000"
  shows "\<exists>ret s'. write_symbols saved start_out l c s = Some (ret, s') \<and> step_ok saved s ret s'"
  using assms
proof (induction c arbitrary: s l)
  case 0
  then show ?case by (simp add: step_ok_def block_ok_def)
next
  case (Suc n)
  let ?x = "l AND 0xFFFF"
  show ?case
  proof (cases "?x < 256 \<or> Suc n > 1")
    case lit: True
    show ?thesis
    proof (cases "avail_out s < 1")
      case full: True
      let ?y = "drop_bit (8 * n) l"
      let ?s = "s\<lparr>write_overflow_lits := l, write_overflow_len := Suc n\<rparr>"
      let ?t = "?s\<lparr>write_overflow_len := n\<rparr>"
      have y: "?y < 0x10000" using Suc.prems(5) by simp
      have s: "step_ok saved s ISAL_OUT_OVERFLOW ?s" "step_ok saved s ISAL_OUT_OVERFLOW (end_of_block ?t)"
        using Suc.prems(1,2)
        by (simp_all add: step_ok_def ISAL_OUT_OVERFLOW_def end_of_block_def out_ext_ignore in_fields_ignore block_ok_def)
      have t: "block_ok ?t" "out_ext saved ?t" "copy_overflow_length ?t = 0" "in_bits ?t = in_bits s"
        using Suc.prems by (simp_all add: block_ok_def out_wf_def out_ext_ignore in_fields_ignore)
      obtain ret s' where l: "last_symbol saved start_out (unat (?y AND 0xFFFF)) ?t = Some (ret, s')" "step_ok saved s ret s'"
        using last_symbol_safe [OF t(1,2) Suc.prems(3) t(3), of start_out "unat (?y AND 0xFFFF)"] t(4)
        by (auto simp: step_ok_def)
      have "write_symbols saved start_out l (Suc n) s = (if ?y < 256 then Some (ISAL_OUT_OVERFLOW, ?s)
          else if ?y = 256 then Some (ISAL_OUT_OVERFLOW, end_of_block ?t)
          else last_symbol saved start_out (unat (?y AND 0xFFFF)) ?t)"
        using lit full and_FFFF [OF y] by (auto simp: overflow_literals_def Let_def)
      then show ?thesis using s l by auto
    next
      case room: False
      note w = write_literal [OF Suc.prems(1,2) room, of "ucast ?x"]
      let ?t = "s\<lparr>out_buf := blit (out_buf s) (next_out s) [ucast ?x], next_out := next_out s + 1,
        avail_out := avail_out s - 1, total_out := total_out s + 1\<rparr>"
      have "write_symbols saved start_out l (Suc n) s = write_symbols saved start_out (drop_bit 8 l) n ?t"
        using lit room w(1) by (auto simp: Let_def)
      moreover have "n = 0 \<or> drop_bit (8 * (n - 1)) (drop_bit 8 l) < 0x10000"
        using Suc.prems(5) by (cases n) (simp_all add: drop_bit_drop_bit add.commute)
      ultimately show ?thesis using Suc.IH [OF w(2,3) Suc.prems(3)] w(4,5) Suc.prems(4) by (auto simp: step_ok_def)
    qed
  next
    case False
    then show ?thesis using last_symbol_safe [OF Suc.prems(1-4)] by (simp add: Let_def)
  qed
qed

text \<open>A turn of the loop that goes on has taken bits, so the loop ends.\<close>

lemma block_loop_safe:
  assumes "block_ok s" "copy_overflow_length s = 0"
  shows "\<exists>ret s'. block_loop start_out s = Some (ret, s') \<and> out_ext s s' \<and> (0 \<le> ret \<longrightarrow> in_wf s')
    \<and> ret \<in> {0, ISAL_END_INPUT, ISAL_OUT_OVERFLOW, ISAL_INVALID_SYMBOL, ISAL_INVALID_LOOKBACK}
    \<and> (ret = 0 \<longrightarrow> block_state s' \<noteq> ISAL_BLOCK_CODED)"
  using assms
proof (induction "length (in_bits s)" arbitrary: s rule: less_induct)
  case less
  show ?case
  proof (cases "block_state s = ISAL_BLOCK_CODED")
    case False
    then show ?thesis using less.prems by (subst block_loop.simps) (simp add: block_ok_def)
  next
    case coded: True
    let ?s = "inflate_in_load s"
    have wf: "in_wf s" using less.prems(1) by (simp add: block_ok_def)
    note ld = inflate_in_load [OF wf]
    have w1: "in_wf ?s" using ld(1) by (simp add: in_loaded_def)
    have x1: "out_ext s ?s" using ld by (intro out_ext_in_rest)
    have ok1: "block_ok ?s" by (rule out_ext_block_ok [OF x1 less.prems(1) w1])
    then have "large_ok (lit_huff_code ?s)" by (simp add: block_ok_def)
    from decode_next_lit_len_safe [OF w1 this] obtain l c s2 where
      d: "decode_next_lit_len ?s (lit_huff_code ?s) = Some (l, c, s2)" "in_rest s2 = in_rest ?s" "in_end s2 = in_end ?s"
        "c = 0 \<or> drop_bit (8 * (c - 1)) l < 0x10000" "c = 0 \<or> c = 1 \<and> l = 0x3FF \<or> taken ?s s2"
        "0 \<le> read_in_length s2 \<Longrightarrow> in_wf s2" by blast
    have x2: "out_ext ?s s2" using d(2,3) by (rule out_ext_in_rest)
    have x02: "out_ext s s2" using x1 x2 by (rule out_ext_trans)
    have co: "copy_overflow_length s2 = 0"
      using in_rest_fields [OF d(2)] in_rest_fields [OF ld(3)] less.prems(2) by simp
    have unf: "block_loop start_out s = (if c = 0 then Some (ISAL_INVALID_SYMBOL, s2)
      else if read_in_length s2 < 0 then Some (ISAL_END_INPUT, restore_in ?s s2)
      else do { (ret, state) \<leftarrow> write_symbols ?s start_out l c s2;
                if ret \<noteq> 0 then Some (ret, state) else block_loop start_out state })"
      by (subst block_loop.simps) (simp add: coded Let_def d(1))
    consider "c = 0" | "c \<noteq> 0" "read_in_length s2 < 0" | "c \<noteq> 0" "0 \<le> read_in_length s2" by linarith
    then show ?thesis
    proof cases
      case 1
      then show ?thesis using unf x02 by (simp add: ISAL_INVALID_SYMBOL_def)
    next
      case 2
      then show ?thesis using unf step_ok_end_input(1) [OF x2 w1, of s] out_ext_trans [OF x1]
        by (simp add: step_ok_def ISAL_END_INPUT_def)
    next
      case 3
      have ok2: "block_ok s2" using out_ext_block_ok [OF x02 less.prems(1) d(6)] 3 by simp
      from write_symbols_safe [OF ok2 x2 w1 co d(4), of start_out] obtain ret s3 where
        w: "write_symbols ?s start_out l c s2 = Some (ret, s3)" "step_ok ?s s2 ret s3" by blast
      have x3: "out_ext s s3" using out_ext_trans [OF x1] w(2) by (simp add: step_ok_def)
      show ?thesis
      proof (cases "ret = 0")
        case False
        then show ?thesis using unf 3 w x3 by (simp add: step_ok_def)
      next
        case True
        have "c \<noteq> 1 \<or> l \<noteq> 0x3FF"
          using w(1) True by (auto simp: last_symbol_def MAX_LIT_LEN_SYM_def ISAL_INVALID_SYMBOL_def)
        then have "taken ?s s2" using d(5) 3 by blast
        then have lt: "length (in_bits s3) < length (in_bits s)"
          using w(2) True 3 ld(2) by (simp add: step_ok_def taken_def)
        have "block_ok s3" using out_ext_block_ok [OF x3 less.prems(1)] w(2) True by (simp add: step_ok_def)
        from less.hyps [OF lt this] w(2) True obtain ret' s' where
          "block_loop start_out s3 = Some (ret', s')" "out_ext s3 s'" "0 \<le> ret' \<longrightarrow> in_wf s'"
          "ret' \<in> {0, ISAL_END_INPUT, ISAL_OUT_OVERFLOW, ISAL_INVALID_SYMBOL, ISAL_INVALID_LOOKBACK}"
          "ret' = 0 \<longrightarrow> block_state s' \<noteq> ISAL_BLOCK_CODED" by (auto simp: step_ok_def)
        then show ?thesis using unf 3 w(1) True out_ext_trans [OF x3] by auto
      qed
    qed
  qed
qed

section \<open>Stored blocks copy the stream\<close>

lemma literal_len:
  "literal_len bytes s = (let n = min (unat (type0_block_len s)) (min (avail_out s) ((avail_in s + bytes) mod 2 ^ 32))
    in (n, s\<lparr>block_state := if n < unat (type0_block_len s) then ISAL_BLOCK_TYPE0
          else if bfinal s \<noteq> 0 then ISAL_BLOCK_INPUT_DONE else ISAL_BLOCK_NEW_HDR\<rparr>))"
  by (auto simp: literal_len_def Let_def)

text \<open>What \<open>literal_out\<close> makes of a state.\<close>

definition lit_put :: "u8 list \<Rightarrow> inflate_state \<Rightarrow> inflate_state" where
  "lit_put bs s = s\<lparr>out_buf := blit (out_buf s) (next_out s) bs, next_out := next_out s + length bs,
    avail_out := avail_out s - length bs, total_out := total_out s + of_nat (length bs),
    type0_block_len := type0_block_len s - of_nat (length bs)\<rparr>"

lemma literal_out: "out_wf s \<Longrightarrow> length bs \<le> avail_out s \<Longrightarrow> literal_out bs s = Some (lit_put bs s)"
  by (simp add: literal_out_def lit_put_def put_bytes_room)

lemma lit_put_in [simp]:
  "in_buf (lit_put bs s) = in_buf s" "next_in (lit_put bs s) = next_in s" "avail_in (lit_put bs s) = avail_in s"
  "read_in (lit_put bs s) = read_in s" "read_in_length (lit_put bs s) = read_in_length s"
  "in_wf (lit_put bs s) = in_wf s" "in_bits (lit_put bs s) = in_bits s" "block_state (lit_put bs s) = block_state s"
  "bfinal (lit_put bs s) = bfinal s"
  by (simp_all add: lit_put_def in_wf_def in_bits_def avail_bytes_def)

lemma lit_put_append:
  "out_wf s \<Longrightarrow> length xs + length ys \<le> avail_out s \<Longrightarrow> lit_put ys (lit_put xs s) = lit_put (xs @ ys) s"
  by (simp add: lit_put_def out_wf_def blit_def algebra_simps)

lemma lit_put_wf: "out_wf s \<Longrightarrow> length bs \<le> avail_out s \<Longrightarrow> out_wf (lit_put bs s)"
  by (simp add: out_wf_def lit_put_def)

text \<open>The input side of a stored block: \<open>n\<close> bytes leave the front of the stream.\<close>

lemma literal_input:
  assumes wf: "in_wf s" and z: "read_in s = 0" "read_in_length s = 0" and o: "out_wf s" "n \<le> avail_out s" and n: "n \<le> avail_in s"
  defines "t \<equiv> s\<lparr>next_in := next_in s + n, avail_in := avail_in s - n\<rparr>" and "bs \<equiv> take n (drop (next_in s) (in_buf s))"
  shows "literal_input n s = Some (lit_put bs t)" "in_wf t" "in_bits t = drop (8 * n) (in_bits s)"
    "byte_bits bs = take (8 * n) (in_bits s)" "length bs = n"
proof -
  have w: "next_in s + avail_in s \<le> length (in_buf s)" using wf by (simp add: in_wf_def)
  then show l: "length bs = n" using n by (simp add: bs_def)
  have "get_bytes (in_buf s) (next_in s) n = Some bs" using w n by (simp add: get_bytes_def bs_def)
  then have "literal_input n s = Some ((lit_put bs s)\<lparr>next_in := next_in s + n, avail_in := avail_in s - n\<rparr>)"
    using literal_out [of s bs] o l by (simp add: literal_input_def)
  then show "literal_input n s = Some (lit_put bs t)" by (simp add: lit_put_def t_def)
  have b: "in_bits s = byte_bits (avail_bytes s)" using z by (simp add: in_bits_def)
  have "in_bits t = byte_bits (avail_bytes t)" using z by (simp add: in_bits_def t_def)
  also have "avail_bytes t = drop n (avail_bytes s)"
    using n by (simp add: avail_bytes_def t_def drop_take add.commute)
  finally show "in_bits t = drop (8 * n) (in_bits s)" using b by (simp add: byte_bits_drop)
  have "bs = take n (avail_bytes s)" using n by (simp add: bs_def avail_bytes_def min_def)
  then show "byte_bits bs = take (8 * n) (in_bits s)" using b by (simp add: byte_bits_take)
  show "in_wf t" using w n z by (simp add: in_wf_def t_def)
qed

lemma literal_input_0: "in_wf s \<Longrightarrow> out_wf s \<Longrightarrow> literal_input 0 s = Some s"
  using literal_out [of s "[]"] by (simp add: literal_input_def get_bytes_def in_wf_def lit_put_def blit_def)

lemma literal_take:
  assumes wf: "in_wf s" and al: "8 dvd read_in_length s" and clean: "read_in_length s = 0 \<longrightarrow> read_in s = 0"
    and o: "out_wf s" "n \<le> avail_out s" and n: "n \<le> avail_in s + nat (read_in_length s) div 8"
  obtains bs s' rest bytes t where "literal_register n (nat (read_in_length s) div 8) s = Some (rest, bytes, s')"
    "literal_input rest s' = Some (lit_put bs t)" "length bs = n" "byte_bits bs = take (8 * n) (in_bits s)"
    "in_wf t" "in_bits t = drop (8 * n) (in_bits s)" "avail_in t + bytes = length (in_bits t) div 8" "in_rest t = in_rest s"
proof -
  let ?B = "nat (read_in_length s) div 8" and ?w = "read_in s"
  have rl: "0 \<le> read_in_length s" "read_in_length s \<le> 64" using wf by (simp_all add: in_wf_def)
  have B: "nat (read_in_length s) = 8 * ?B" using al rl by (metis dvd_mult_div_cancel int_dvd_int_iff int_nat_eq of_nat_numeral)
  then have B8: "?B \<le> 8" using rl by simp
  have reg: "byte_bits (take k (le_bytes 8 ?w)) = take (8 * k) (in_bits s)" if "k \<le> ?B" for k
  proof -
    have "take k (le_bytes 8 ?w) = le_bytes k ?w" using that B8 by (simp add: le_bytes_def take_map)
    moreover have "take (8 * k) (in_bits s) = map (bit ?w) [0..<8 * k]" using that B by (simp add: in_bits_def take_map)
    ultimately show ?thesis using that B8 by (simp add: byte_bits_le_bytes)
  qed
  consider "read_in_length s = 0" | "read_in_length s \<noteq> 0" "?B \<le> n" | "read_in_length s \<noteq> 0" "n < ?B" by linarith
  then show thesis
  proof cases
    case 1
    have n1: "n \<le> avail_in s" using n 1 by simp
    note li = literal_input [OF wf _ 1 o n1]
    let ?t = "s\<lparr>next_in := next_in s + n, avail_in := avail_in s - n\<rparr>"
    have "length (in_bits ?t) div 8 = avail_in s - n" using li(2) 1 clean length_avail_bytes [of ?t] by (simp add: length_in_bits)
    moreover have "in_rest ?t = in_rest s" by (simp add: in_rest_def)
    ultimately show ?thesis using 1 clean li
      by (intro that [of n 0 s "take n (drop (next_in s) (in_buf s))" ?t]) (simp_all add: literal_register_def)
  next
    case 2
    let ?rb = "take ?B (le_bytes 8 ?w)" and ?s0 = "s\<lparr>read_in := 0, read_in_length := 0\<rparr>"
    have b0: "in_bits ?s0 = drop (8 * ?B) (in_bits s)" using B by (simp add: in_bits_def avail_bytes_def)
    have w0: "in_wf ?s0" using wf by (simp add: in_wf_def)
    have lrb: "length ?rb = ?B" using B8 by simp
    have o1: "out_wf (lit_put ?rb ?s0)" "n - ?B \<le> avail_out (lit_put ?rb ?s0)"
      using lit_put_wf [of ?s0 ?rb] o 2 lrb by (simp_all add: out_wf_def) (simp add: lit_put_def diff_le_mono)
    have n1: "n - ?B \<le> avail_in (lit_put ?rb ?s0)" using n by simp
    have w1: "in_wf (lit_put ?rb ?s0)" using w0 by simp
    note li = literal_input [OF w1 _ _ o1 n1]
    let ?t = "?s0\<lparr>next_in := next_in s + (n - ?B), avail_in := avail_in s - (n - ?B)\<rparr>"
    let ?bs = "take (n - ?B) (drop (next_in s) (in_buf s))"
    have lp: "lit_put ?bs ((lit_put ?rb ?s0)\<lparr>next_in := next_in s + (n - ?B), avail_in := avail_in s - (n - ?B)\<rparr>)
        = lit_put (?rb @ ?bs) ?t"
    proof -
      have e: "(lit_put ?rb ?s0)\<lparr>next_in := next_in s + (n - ?B), avail_in := avail_in s - (n - ?B)\<rparr> = lit_put ?rb ?t"
        by (simp add: lit_put_def)
      have "length ?bs = n - ?B" using li(5) by simp
      then have "length ?rb + length ?bs \<le> avail_out ?t" using lrb o(2) 2(2) by simp
      then show ?thesis unfolding e by (intro lit_put_append) (use o(1) in \<open>simp_all add: out_wf_def\<close>)
    qed
    show ?thesis
    proof (rule that)
      show "literal_register n ?B s = Some (n - ?B, 0, lit_put ?rb ?s0)"
        using 2 literal_out [OF o(1), of ?rb] lrb o by (simp add: literal_register_def) (simp add: lit_put_def)
      show "literal_input (n - ?B) (lit_put ?rb ?s0) = Some (lit_put (?rb @ ?bs) ?t)" using li(1) lp by simp
      show "length (?rb @ ?bs) = n" using li(5) lrb 2 by simp
      have "take (8 * n) (in_bits s) = take (8 * ?B) (in_bits s) @ take (8 * (n - ?B)) (drop (8 * ?B) (in_bits s))"
        using 2 by (simp add: take_add [symmetric] diff_mult_distrib2)
      then show "byte_bits (?rb @ ?bs) = take (8 * n) (in_bits s)" using li(4) reg [of ?B] b0 by simp
      show tw: "in_wf ?t" using li(2) by (simp add: in_wf_def in_bits_def avail_bytes_def)
      have "in_bits ?t = drop (8 * (n - ?B)) (in_bits ?s0)" using li(3) by (simp add: in_bits_def avail_bytes_def)
      then show "in_bits ?t = drop (8 * n) (in_bits s)" using b0 2 by (simp add: diff_mult_distrib2)
      show "avail_in ?t + 0 = length (in_bits ?t) div 8" using length_avail_bytes [OF tw] by (simp add: length_in_bits)
      show "in_rest ?t = in_rest s" by (simp add: in_rest_def)
    qed
  next
    case 3
    let ?rb = "take n (le_bytes 8 ?w)" and ?t = "in_skip (8 * n) s"
    have lrb: "length ?rb = n" using 3 B8 by simp
    have "int (8 * n) \<le> read_in_length s" using 3 B rl by linarith
    note sk = in_skip [OF wf this]
    show ?thesis
    proof (rule that)
      show "literal_register n ?B s = Some (0, ?B - n, lit_put ?rb ?t)"
        using 3 literal_out [OF o(1), of ?rb] lrb o by (simp add: literal_register_def) (simp add: lit_put_def in_skip_def)
      have "out_wf (lit_put ?rb ?t)" using lit_put_wf [of ?t ?rb] o lrb by (simp add: out_wf_def in_skip_def)
      then show "literal_input 0 (lit_put ?rb ?t) = Some (lit_put ?rb ?t)" using sk(1) by (intro literal_input_0) simp_all
      show "length ?rb = n" by (rule lrb)
      show "byte_bits ?rb = take (8 * n) (in_bits s)" using reg [of n] 3 by simp
      have "length (in_bits s) = 8 * ?B + 8 * avail_in s"
        using length_in_bits [of s] length_avail_bytes [OF wf] B by linarith
      moreover have "length (in_bits ?t) = length (in_bits s) - 8 * n" using sk(2) by simp
      moreover have "c = 8 * (v + (b - n))" if "a = 8 * b + 8 * v" "c = a - 8 * n" "n < b" for a b c v :: nat
        using that by (simp add: diff_mult_distrib2 add_mult_distrib2)
      ultimately have "length (in_bits ?t) = 8 * (avail_in s + (?B - n))" using 3(2) by blast
      then show "avail_in ?t + (?B - n) = length (in_bits ?t) div 8" by simp
    qed (use sk in simp_all)
  qed
qed

lemma decode_literal_block_spec:
  assumes "in_wf s" "out_wf s" "8 dvd read_in_length s" "read_in_length s = 0 \<longrightarrow> read_in s = 0"
    and "unat (type0_block_len s) < 2 ^ 16" "length (in_bits s) div 8 < 2 ^ 32"
  defines "len \<equiv> unat (type0_block_len s)"
  defines "n \<equiv> min len (min (avail_out s) (length (in_bits s) div 8))"
  shows "\<exists>ret s' bs. decode_literal_block s = Some (ret, s') \<and> length bs = n
    \<and> byte_bits bs = take (8 * n) (in_bits s) \<and> in_wf s' \<and> in_bits s' = drop (8 * n) (in_bits s)
    \<and> out_buf s' = blit (out_buf s) (next_out s) bs \<and> next_out s' = next_out s + n \<and> avail_out s' = avail_out s - n
    \<and> total_out s' = total_out s + of_nat n \<and> unat (type0_block_len s') = len - n
    \<and> block_state s' = (if n < len then ISAL_BLOCK_TYPE0
        else if bfinal s \<noteq> 0 then ISAL_BLOCK_INPUT_DONE else ISAL_BLOCK_NEW_HDR)
    \<and> ret = (if length (in_bits s') < 8 \<and> block_state s' \<noteq> ISAL_BLOCK_INPUT_DONE then ISAL_END_INPUT
        else if avail_out s' = 0 \<and> n < len then ISAL_OUT_OVERFLOW else 0)"
proof -
  let ?B = "nat (read_in_length s) div 8"
  have rl: "0 \<le> read_in_length s" using assms(1) by (simp add: in_wf_def)
  have "nat (read_in_length s) = 8 * ?B" using assms(3) rl by (metis dvd_mult_div_cancel int_dvd_int_iff int_nat_eq of_nat_numeral)
  then have len: "length (in_bits s) div 8 = avail_in s + ?B"
    using length_in_bits [of s] length_avail_bytes [OF assms(1)] by linarith
  define bst where "bst = (if n < len then ISAL_BLOCK_TYPE0 else if bfinal s \<noteq> 0 then ISAL_BLOCK_INPUT_DONE else ISAL_BLOCK_NEW_HDR)"
  let ?s = "s\<lparr>block_state := bst\<rparr>"
  have "(avail_in s + ?B) mod 2 ^ 32 = avail_in s + ?B" using assms(6) unfolding len by (rule mod_less)
  then have ll: "literal_len ?B s = (n, ?s)" by (simp add: literal_len Let_def n_def len_def len bst_def)
  have b: "in_bits ?s = in_bits s" by (simp add: in_fields_ignore)
  have n: "n \<le> avail_out ?s" "n \<le> avail_in ?s + nat (read_in_length ?s) div 8" by (simp_all add: n_def len)
  have pre: "in_wf ?s" "8 dvd read_in_length ?s" "read_in_length ?s = 0 \<longrightarrow> read_in ?s = 0" "out_wf ?s"
    using assms(1-4) by (simp_all add: in_fields_ignore out_wf_def)
  have rls: "read_in_length ?s = read_in_length s" by simp
  from literal_take [OF pre n, unfolded b rls] obtain bs s' rest bytes t where
    t: "literal_register n ?B ?s = Some (rest, bytes, s')" "literal_input rest s' = Some (lit_put bs t)" "length bs = n"
      "byte_bits bs = take (8 * n) (in_bits s)" "in_wf t" "in_bits t = drop (8 * n) (in_bits s)"
      "avail_in t + bytes = length (in_bits t) div 8" "in_rest t = in_rest ?s" .
  note r = in_rest_fields [OF t(8)]
  have lt: "unat (type0_block_len s - of_nat n) = len - n"
  proof -
    have "n \<le> len" by (simp add: n_def)
    moreover have "unat (of_nat n :: u32) = n" using assms(5) by (intro unat_of_nat_lt) (simp add: n_def len_def)
    ultimately show ?thesis by (simp add: unat_sub word_le_nat_alt len_def)
  qed
  have sg: "0 < sint (type0_block_len s - of_nat n) \<longleftrightarrow> n < len"
  proof -
    have u: "unat (type0_block_len s - of_nat n) < 2 ^ 31" using lt assms(5) by (simp add: len_def)
    then have "sint (type0_block_len s - of_nat n) = int (len - n)"
      using lt by (simp add: sint_uint signed_take_bit_int_eq_self_iff uint_nat)
    then show ?thesis by (simp add: n_def)
  qed
  have len8: "length xs div 8 = 0 \<longleftrightarrow> length xs < 8" for xs :: "bool list" by (simp add: div_eq_0_iff)
  have "avail_in t + bytes \<le> length (in_bits s) div 8" unfolding t(6,7) by (intro div_le_mono) simp
  then have "(avail_in t + bytes) mod 2 ^ 32 = avail_in t + bytes" using assms(6) by (intro mod_less) simp
  then have z: "(avail_in t + bytes) mod 2 ^ 32 = 0 \<longleftrightarrow> length (in_bits t) < 8" using t(7) len8 [of "in_bits t"] by simp
  have ao: "avail_out (lit_put bs t) = avail_out s - n" "type0_block_len (lit_put bs t) = type0_block_len s - of_nat n"
    "block_state t = bst" using r t(3) by (simp_all add: lit_put_def)
  have e: "decode_literal_block s = Some
      (if length (in_bits t) < 8 \<and> bst \<noteq> ISAL_BLOCK_INPUT_DONE then ISAL_END_INPUT
        else if avail_out s - n = 0 \<and> n < len then ISAL_OUT_OVERFLOW else 0, lit_put bs t)"
    using z by (auto simp: decode_literal_block_def ll t(1,2) ao sg)
  show ?thesis
    by (intro exI conjI, rule e) (use t r lt in \<open>simp_all add: bst_def [symmetric]\<close>, simp_all add: lit_put_def)
qed

text \<open>
  C4: stored blocks. When the register holds whole bytes and the input is below 4 GiB, \<open>decode_literal_block\<close> copies as many bytes of
  the stream as the block, the input and the room in the output allow, in both the register and the
  input buffer; the return value and the block state say which of the three ended the copy.
\<close>

theorem decode_literal_block_copies:
  assumes "in_wf s" "out_wf s" "8 dvd read_in_length s" "read_in_length s = 0 \<longrightarrow> read_in s = 0"
    and "unat (type0_block_len s) < 2 ^ 16" "length (in_bits s) div 8 < 2 ^ 32"
  defines "len \<equiv> unat (type0_block_len s)"
  defines "n \<equiv> min len (min (avail_out s) (length (in_bits s) div 8))"
  shows "\<exists>ret s' bs. decode_literal_block s = Some (ret, s') \<and> length bs = n
    \<and> byte_bits bs = take (8 * n) (in_bits s) \<and> in_wf s' \<and> in_bits s' = drop (8 * n) (in_bits s)
    \<and> out_buf s' = blit (out_buf s) (next_out s) bs \<and> next_out s' = next_out s + n \<and> avail_out s' = avail_out s - n
    \<and> total_out s' = total_out s + of_nat n \<and> unat (type0_block_len s') = len - n
    \<and> block_state s' = (if n < len then ISAL_BLOCK_TYPE0
        else if bfinal s \<noteq> 0 then ISAL_BLOCK_INPUT_DONE else ISAL_BLOCK_NEW_HDR)
    \<and> ret = (if length (in_bits s') < 8 \<and> block_state s' \<noteq> ISAL_BLOCK_INPUT_DONE then ISAL_END_INPUT
        else if avail_out s' = 0 \<and> n < len then ISAL_OUT_OVERFLOW else 0)"
  unfolding n_def len_def using assms(1-6) by (rule decode_literal_block_spec)

theorem decode_literal_block_copies_witness:
  "\<forall>s. \<exists>s'. decode_literal_block (s\<lparr>in_buf := [7, 8, 9], next_in := 0, avail_in := 3, read_in := 0, read_in_length := 0,
      out_buf := [0, 0], next_out := 0, avail_out := 2, type0_block_len := 3, bfinal := 1\<rparr>) = Some (ISAL_OUT_OVERFLOW, s')
    \<and> unat (type0_block_len s') = 1"
proof
  fix s :: inflate_state
  let ?s = "s\<lparr>in_buf := [7, 8, 9], next_in := 0, avail_in := 3, read_in := 0, read_in_length := 0,
    out_buf := [0, 0], next_out := 0, avail_out := 2, type0_block_len := 3, bfinal := 1\<rparr>"
  have "length (in_bits ?s) = 24" by (simp add: in_bits_def avail_bytes_def)
  moreover have "in_wf ?s" "out_wf ?s" by (simp_all add: in_wf_def out_wf_def)
  ultimately show "\<exists>s'. decode_literal_block ?s = Some (ISAL_OUT_OVERFLOW, s') \<and> unat (type0_block_len s') = 1"
    using decode_literal_block_copies [of ?s] by auto
qed

text \<open>
  C3: coded blocks. With lookup tables whose hints stay inside them, \<open>decode_huffman_code_block_stateless\<close>
  ends and never accesses memory outside of the input, the tables and the output window from
  \<open>next_out\<close> to \<open>next_out + avail_out\<close>; it returns one of the five documented values and, when that is
  not an error, a state from which decoding can go on.
\<close>

theorem decode_huffman_block_safe:
  assumes "in_wf s" "out_wf s" "small_ok (dist_huff_code s)" "large_ok (lit_huff_code s)"
  shows "\<exists>ret s'. decode_huffman_code_block_stateless s start_out = Some (ret, s')
    \<and> ret \<in> {0, ISAL_END_INPUT, ISAL_OUT_OVERFLOW, ISAL_INVALID_SYMBOL, ISAL_INVALID_LOOKBACK}
    \<and> out_ext s s' \<and> out_wf s' \<and> (0 \<le> ret \<longrightarrow> in_wf s') \<and> (ret = 0 \<longrightarrow> block_state s' \<noteq> ISAL_BLOCK_CODED)"
proof -
  let ?s = "s\<lparr>copy_overflow_length := 0, copy_overflow_distance := 0\<rparr>"
  have "block_ok ?s" using assms by (simp add: block_ok_def in_fields_ignore out_wf_def)
  from block_loop_safe [OF this, of start_out] obtain ret s' where b: "block_loop start_out ?s = Some (ret, s')" "out_ext ?s s'"
    "0 \<le> ret \<longrightarrow> in_wf s'" "ret \<in> {0, ISAL_END_INPUT, ISAL_OUT_OVERFLOW, ISAL_INVALID_SYMBOL, ISAL_INVALID_LOOKBACK}"
    "ret = 0 \<longrightarrow> block_state s' \<noteq> ISAL_BLOCK_CODED" by auto
  moreover have x: "out_ext s s'" using b(2) by (simp add: out_ext_def in_end_def)
  moreover have "out_wf s'" using out_ext_wf [OF x assms(2)] .
  ultimately show ?thesis
    by (simp add: decode_huffman_code_block_stateless_def decode_huffman_code_block_stateless_base_def)
qed

theorem decode_huffman_block_safe_witness:
  "\<forall>s lit dist. \<exists>ret s'. decode_huffman_code_block_stateless (s\<lparr>in_buf := [1, 2], next_in := 0, avail_in := 2, read_in := 0,
      read_in_length := 0, out_buf := [0, 0, 0], next_out := 1, avail_out := 2,
      lit_huff_code := lit\<lparr>short_code_lookup := replicate 4096 0\<rparr>,
      dist_huff_code := dist\<lparr>short_code_lookup := replicate 1024 0\<rparr>\<rparr>) 0 = Some (ret, s') \<and> hd (out_buf s') = 0"
proof (intro allI)
  fix s :: inflate_state and lit :: inflate_huff_code_large and dist :: inflate_huff_code_small
  let ?s = "s\<lparr>in_buf := [1, 2], next_in := 0, avail_in := 2, read_in := 0,
      read_in_length := 0, out_buf := [0, 0, 0], next_out := 1, avail_out := 2,
      lit_huff_code := lit\<lparr>short_code_lookup := replicate 4096 0\<rparr>,
      dist_huff_code := dist\<lparr>short_code_lookup := replicate 1024 0\<rparr>\<rparr>"
  have "in_wf ?s" "out_wf ?s" "small_ok (dist_huff_code ?s)" "large_ok (lit_huff_code ?s)"
    by (simp_all add: in_wf_def out_wf_def small_ok_def large_ok_def)
  from decode_huffman_block_safe [OF this, of 0] obtain ret s' where
    d: "decode_huffman_code_block_stateless ?s 0 = Some (ret, s')" "out_ext ?s s'" by blast
  have "take 1 (out_buf s') = [0]" "length (out_buf s') = 3" using d(2) by (simp_all add: out_ext_def)
  then have "hd (out_buf s') = 0" by (cases "out_buf s'") auto
  with d(1) show "\<exists>ret s'. decode_huffman_code_block_stateless ?s 0 = Some (ret, s') \<and> hd (out_buf s') = 0" by blast
qed

text \<open>The distance tables of an accepted code are such tables.\<close>

lemma dist_table_small_ok:
  assumes t: "dist_table lens max_symbol tbl"
  shows "small_ok tbl"
proof -
  have len: "length (short_code_lookup tbl) = 1024" using t by (simp add: dist_table_def small_table_def)
  have "unat (e AND 0x1FF) + 2 ^ (unat (drop_bit 11 (e - 0x400)) - 10) \<le> length (long_code_lookup tbl)"
    if e: "e \<in> set (short_code_lookup tbl)" "e AND 0x400 \<noteq> 0" for e
  proof -
    obtain i where i: "i < 1024" "short_code_lookup tbl ! i = e" using e(1) len by (auto simp: in_set_conv_nth)
    define r :: u64 where "r = of_nat i OR push_bit 10 (mask 54)"
    define s where "s = (undefined :: inflate_state)\<lparr>in_buf := [], next_in := 0, avail_in := 0, read_in := r, read_in_length := 64\<rparr>"
    have bi: "bit i n \<Longrightarrow> n < 10" for n
      using i(1) bit_take_bit_iff [of 10 i n] by (simp add: take_bit_nat_eq_self)
    have wf: "in_wf s" by (auto simp: in_wf_def s_def dest: bit_imp_le_length)
    have pk: "in_peek s = s" by (simp add: in_peek_def s_def)
    have "decode_next_dist s tbl \<noteq> None"
      using decode_next_dist_step [OF wf t] by fastforce
    moreover have "unat (r AND 0x3FF) = i"
    proof -
      have "r AND mask 10 = of_nat i"
        by (rule bit_word_eqI) (auto simp: r_def bit_simps bit_mask_iff dest: bi)
      moreover have "(0x3FF :: u64) = mask 10" by (simp add: mask_eq_exp_minus_1)
      ultimately show ?thesis using i(1) by (simp add: unat_of_nat_lt)
    qed
    moreover have "read_in s = r" by (simp add: s_def)
    ultimately have lt: "unat (e AND 0x1FF) + unat (r AND (push_bit (unat (drop_bit 11 (e - 0x400))) 1 - 1)) div 2 ^ 10
      < length (long_code_lookup tbl)"
      using i(2) e(2) len i(1) pk
      by (auto simp: decode_next_dist_def in_peek_alt Let_def get_at_def ISAL_DECODE_SHORT_BITS_def split: if_splits)
    let ?m = "unat (drop_bit 11 (e - 0x400))"
    have m: "?m < 64"
    proof -
      have "?m = drop_bit 11 (unat (e - 0x400))" by (rule unat_drop_bit_eq)
      moreover have "unat (e - 0x400) < 2 ^ LENGTH(16)" by (rule unsigned_less)
      ultimately show ?thesis by (simp add: drop_bit_eq_div)
    qed
    have "unat (r AND (push_bit ?m 1 - 1)) div 2 ^ 10 + 1 = 2 ^ (?m - 10)"
    proof (cases "10 \<le> ?m")
      case True
      have "drop_bit 10 (take_bit ?m (unat r)) = mask (?m - 10)"
        using m by (intro bit_eqI) (auto simp: r_def bit_simps bit_mask_iff dest: bi)
      then show ?thesis
        using unat_and_ones [OF m, of r] by (simp add: take_bit_eq_mod drop_bit_eq_div mask_eq_exp_minus_1)
    next
      case False
      then have "(2 :: nat) ^ ?m < 2 ^ 10" by (intro power_strict_increasing) auto
      moreover have "unat (r AND (push_bit ?m 1 - 1)) < 2 ^ ?m" using unat_and_ones [OF m, of r] by simp
      ultimately have "unat (r AND (push_bit ?m 1 - 1)) < 2 ^ 10" by (rule less_trans [rotated])
      with False show ?thesis by simp
    qed
    with lt show ?thesis by linarith
  qed
  then show ?thesis using len by (simp add: small_ok_def)
qed

end
