(* ===== verification/Inflate_Wrapper.thy ===== *)
theory Inflate_Wrapper
  imports Inflate_Block Bit_Writer
begin

text \<open>
  The gzip and zlib wrappers of \<open>igzip/igzip_inflate.c\<close>: \<open>isal_inflate_init\<close>, the reader of a
  fixed number of bytes with its queue \<open>tmp_in_buffer\<close>, the headers and the trailers. A call may
  end in the middle of any field (\<open>ISAL_END_INPUT\<close>); the block state says where the next call
  goes on. The value \<open>None\<close> is an access outside of a buffer.
\<close>

section \<open>Constants\<close>

definition ISAL_DECOMP_OK :: int where "ISAL_DECOMP_OK = 0"
definition ISAL_NAME_OVERFLOW :: int where "ISAL_NAME_OVERFLOW = 3"
definition ISAL_COMMENT_OVERFLOW :: int where "ISAL_COMMENT_OVERFLOW = 4"
definition ISAL_EXTRA_OVERFLOW :: int where "ISAL_EXTRA_OVERFLOW = 5"
definition ISAL_NEED_DICT :: int where "ISAL_NEED_DICT = 6"
definition ISAL_INVALID_WRAPPER :: int where "ISAL_INVALID_WRAPPER = - 4"
definition ISAL_UNSUPPORTED_METHOD :: int where "ISAL_UNSUPPORTED_METHOD = - 5"
definition ISAL_INCORRECT_CHECKSUM :: int where "ISAL_INCORRECT_CHECKSUM = - 6"
definition ISAL_INVALID_STATE :: int where "ISAL_INVALID_STATE = - 3"

definition DEFLATE_METHOD :: nat where "DEFLATE_METHOD = 8"
definition ZLIB_DICT_FLAG :: u32 where "ZLIB_DICT_FLAG = 0x20"
definition TEXT_FLAG :: u32 where "TEXT_FLAG = 1"
definition HCRC_FLAG :: u32 where "HCRC_FLAG = 2"
definition EXTRA_FLAG :: u32 where "EXTRA_FLAG = 4"
definition NAME_FLAG :: u32 where "NAME_FLAG = 8"
definition COMMENT_FLAG :: u32 where "COMMENT_FLAG = 16"
definition UNDEFINED_FLAG :: u32 where "UNDEFINED_FLAG = - 1"
definition GZIP_HDR_BASE :: nat where "GZIP_HDR_BASE = 10"
definition GZIP_EXTRA_LEN :: nat where "GZIP_EXTRA_LEN = 2"
definition GZIP_HCRC_LEN :: nat where "GZIP_HCRC_LEN = 2"
definition GZIP_TRAILER_LEN :: nat where "GZIP_TRAILER_LEN = 8"
definition ZLIB_HDR_BASE :: nat where "ZLIB_HDR_BASE = 2"
definition ZLIB_DICT_LEN :: nat where "ZLIB_DICT_LEN = 4"
definition ZLIB_INFO_OFFSET :: nat where "ZLIB_INFO_OFFSET = 4"
definition ZLIB_LEVEL_OFFSET :: nat where "ZLIB_LEVEL_OFFSET = 6"
definition ZLIB_TRAILER_LEN :: nat where "ZLIB_TRAILER_LEN = 4"
definition IGZIP_HIST_SIZE :: nat where "IGZIP_HIST_SIZE = 32768"

lemmas wrapper_consts =
  ISAL_DECOMP_OK_def ISAL_NAME_OVERFLOW_def ISAL_COMMENT_OVERFLOW_def ISAL_EXTRA_OVERFLOW_def ISAL_NEED_DICT_def
  ISAL_INVALID_WRAPPER_def ISAL_UNSUPPORTED_METHOD_def ISAL_INCORRECT_CHECKSUM_def ISAL_INVALID_STATE_def
  DEFLATE_METHOD_def ZLIB_DICT_FLAG_def TEXT_FLAG_def HCRC_FLAG_def EXTRA_FLAG_def NAME_FLAG_def COMMENT_FLAG_def
  UNDEFINED_FLAG_def GZIP_HDR_BASE_def GZIP_EXTRA_LEN_def GZIP_HCRC_LEN_def GZIP_TRAILER_LEN_def ZLIB_HDR_BASE_def
  ZLIB_DICT_LEN_def ZLIB_INFO_OFFSET_def ZLIB_LEVEL_OFFSET_def ZLIB_TRAILER_LEN_def IGZIP_HIST_SIZE_def

section \<open>The headers as data\<close>

text \<open>A pointer that may be NULL is an option.\<close>

record isal_gzip_header =
  gz_text :: u32
  gz_time :: u32
  gz_xflags :: u32
  gz_os :: u32
  gz_extra :: "u8 list option"
  gz_extra_buf_len :: u32
  gz_extra_len :: u32
  gz_name :: "u8 list option"
  gz_name_buf_len :: u32
  gz_comment :: "u8 list option"
  gz_comment_buf_len :: u32
  gz_hcrc :: u32
  gz_flags :: u32

record isal_zlib_header =
  z_info :: u32
  z_level :: u32
  z_dict_id :: u32
  z_dict_flag :: u32

definition isal_gzip_header_init :: "isal_gzip_header \<Rightarrow> isal_gzip_header" where
  "isal_gzip_header_init gz_hdr =
    gz_hdr\<lparr>gz_text := 0, gz_time := 0, gz_xflags := 0, gz_os := 0xff, gz_extra := None, gz_extra_buf_len := 0,
      gz_extra_len := 0, gz_name := None, gz_name_buf_len := 0, gz_comment := None, gz_comment_buf_len := 0,
      gz_hcrc := 0, gz_flags := 0\<rparr>"

definition isal_zlib_header_init :: "isal_zlib_header \<Rightarrow> isal_zlib_header" where
  "isal_zlib_header_init z_hdr = z_hdr\<lparr>z_info := 0, z_level := 0, z_dict_id := 0, z_dict_flag := 0\<rparr>"

section \<open>Initialisation\<close>

text \<open>NULL is offset 0 of an empty block.\<close>

definition isal_inflate_init :: "inflate_state \<Rightarrow> inflate_state" where
  "isal_inflate_init state =
    state\<lparr>read_in := 0, read_in_length := 0, in_buf := [], next_in := 0, avail_in := 0, out_buf := [], next_out := 0,
      avail_out := 0, total_out := 0, dict_length := 0, block_state := ISAL_BLOCK_NEW_HDR, bfinal := 0, crc_flag := 0,
      crc := 0, hist_bits := 0, type0_block_len := 0, write_overflow_lits := 0, write_overflow_len := 0,
      copy_overflow_length := 0, copy_overflow_distance := 0, wrapper_flag := False, tmp_in_size := 0,
      tmp_out_processed := 0, tmp_out_valid := 0\<rparr>"

definition isal_inflate_reset :: "inflate_state \<Rightarrow> inflate_state" where
  "isal_inflate_reset state =
    state\<lparr>read_in := 0, read_in_length := 0, total_out := 0, dict_length := 0, block_state := ISAL_BLOCK_NEW_HDR,
      bfinal := 0, crc := 0, type0_block_len := 0, write_overflow_lits := 0, write_overflow_len := 0,
      copy_overflow_length := 0, copy_overflow_distance := 0, wrapper_flag := False, tmp_in_size := 0,
      tmp_out_processed := 0, tmp_out_valid := 0\<rparr>"

definition isal_inflate_set_dict :: "inflate_state \<Rightarrow> u8 list \<Rightarrow> (int \<times> inflate_state) option" where
  "isal_inflate_set_dict state dict =
    (if block_state state \<noteq> ISAL_BLOCK_NEW_HDR \<or> tmp_out_processed state \<noteq> tmp_out_valid state
     then Some (ISAL_INVALID_STATE, state)
     else do {
       let dict = (if length dict > IGZIP_HIST_SIZE then drop (length dict - IGZIP_HIST_SIZE) dict else dict);
       tmp \<leftarrow> put_bytes (tmp_out_buffer state) 0 dict;
       Some (0, state\<lparr>tmp_out_buffer := tmp, tmp_out_processed := length dict, tmp_out_valid := length dict,
         dict_length := length dict\<rparr>)
     })"

section \<open>Fields of the header\<close>

definition in_advance :: "nat \<Rightarrow> inflate_state \<Rightarrow> inflate_state" where
  "in_advance n state = state\<lparr>next_in := next_in state + n, avail_in := avail_in state - n\<rparr>"

text \<open>\<open>read_buf\<close> is the list of the bytes it points to. A \<open>memcpy\<close> of a negative size is outside.\<close>

definition fixed_size_read :: "inflate_state \<Rightarrow> nat \<Rightarrow> (int \<times> u8 list \<times> inflate_state) option" where
  "fixed_size_read state read_size =
    (if avail_in state + tmp_in_size state < read_size then do {
       bs \<leftarrow> get_bytes (in_buf state) (next_in state) (avail_in state);
       tmp \<leftarrow> put_bytes (tmp_in_buffer state) (tmp_in_size state) bs;
       Some (ISAL_END_INPUT, [], in_advance (avail_in state)
         (state\<lparr>tmp_in_buffer := tmp, tmp_in_size := tmp_in_size state + avail_in state\<rparr>))
     } else if read_size < tmp_in_size state then None
     else do {
       let n = read_size - tmp_in_size state;
       bs \<leftarrow> get_bytes (in_buf state) (next_in state) n;
       (read_buf, state) \<leftarrow>
         (if tmp_in_size state \<noteq> 0 then do {
            tmp \<leftarrow> put_bytes (tmp_in_buffer state) (tmp_in_size state) bs;
            Some (take read_size tmp, state\<lparr>tmp_in_buffer := tmp, tmp_in_size := 0\<rparr>)
          } else Some (bs, state));
       Some (0, read_buf, in_advance n state)
     })"

text \<open>\<open>count\<close> shares its memory with \<open>type0_block_len\<close>.\<close>

definition set_count :: "nat \<Rightarrow> inflate_state \<Rightarrow> inflate_state" where
  "set_count n state = state\<lparr>type0_block_len := of_nat n\<rparr>"

definition buffer_header_copy :: "inflate_state \<Rightarrow> nat \<Rightarrow> u8 list option \<Rightarrow> u32 \<Rightarrow> u32 \<Rightarrow> int \<Rightarrow>
    (int \<times> u8 list option \<times> inflate_state) option" where
  "buffer_header_copy state in_len buf buffer_len offset buf_error =
    (let len = min in_len (avail_in state);
         buf_len = unat (buffer_len - offset);
         ret = (if len = in_len then 0 else ISAL_END_INPUT)
     in case buf of
          None \<Rightarrow> Some (ret, None, set_count (in_len - len) (in_advance len state))
        | Some b \<Rightarrow>
            if buf_len < len then do {
              bs \<leftarrow> get_bytes (in_buf state) (next_in state) buf_len;
              b \<leftarrow> put_bytes b (unat offset) bs;
              Some (buf_error, Some b, set_count (in_len - buf_len) (in_advance buf_len state))
            } else do {
              bs \<leftarrow> get_bytes (in_buf state) (next_in state) len;
              b \<leftarrow> put_bytes b (unat offset) bs;
              Some (ret, Some b, set_count (in_len - len) (in_advance len state))
            })"

definition strnlen :: "u8 list \<Rightarrow> nat" where
  "strnlen bs = length (takeWhile (\<lambda>c. c \<noteq> 0) bs)"

definition string_header_copy :: "inflate_state \<Rightarrow> u8 list option \<Rightarrow> u32 \<Rightarrow> u32 \<Rightarrow> int \<Rightarrow>
    (int \<times> u8 list option \<times> inflate_state) option" where
  "string_header_copy state str_buf str_len offset str_error = do {
     let room = unat (str_len - offset);
     let max_len = (if room > avail_in state \<or> str_buf = None then avail_in state else room);
     bs \<leftarrow> get_bytes (in_buf state) (next_in state) max_len;
     let len = strnlen bs;
     str_buf \<leftarrow> (case str_buf of None \<Rightarrow> Some None
       | Some b \<Rightarrow> do { b \<leftarrow> put_bytes b (unat offset) (take len bs); Some (Some b) });
     let state = in_advance len state;
     let state = state\<lparr>type0_block_len := type0_block_len state + of_nat len\<rparr>;
     if str_buf \<noteq> None \<and> len = room then Some (str_error, str_buf, state)
     else if avail_in state = 0 then Some (ISAL_END_INPUT, str_buf, state)
     else do {
       str_buf \<leftarrow> (case str_buf of None \<Rightarrow> Some None
         | Some b \<Rightarrow> do { b \<leftarrow> put_bytes b (unat offset + len) [0]; Some (Some b) });
       Some (0, str_buf, set_count 0 (in_advance 1 state))
     }
   }"

section \<open>The trailers\<close>

text \<open>Whole bytes in the register are moved to the queue, without the bits of the last byte of the
  block that are padding.\<close>

definition queue_register :: "inflate_state \<Rightarrow> inflate_state option" where
  "queue_register state =
    (if read_in_length state \<ge> 8 then do {
       let byte_count = nat (read_in_length state) div 8;
       let offset = nat (read_in_length state) mod 8;
       tmp \<leftarrow> put_le_u64 (tmp_in_buffer state) (tmp_in_size state) (drop_bit offset (read_in state));
       Some (state\<lparr>tmp_in_buffer := tmp, read_in := 0, read_in_length := 0, tmp_in_size := tmp_in_size state + byte_count\<rparr>)
     } else Some state)"

definition check_gzip_checksum :: "inflate_state \<Rightarrow> (int \<times> inflate_state) option" where
  "check_gzip_checksum state = do {
     (ret, trailer, state) \<leftarrow>
       (if read_in_length state \<ge> 8 * int GZIP_TRAILER_LEN
        then Some (0, read_in state, state\<lparr>read_in_length := 0, read_in := 0\<rparr>)
        else do {
          state \<leftarrow> queue_register state;
          (ret, next_in, state) \<leftarrow> fixed_size_read state GZIP_TRAILER_LEN;
          Some (ret, load_le_u64 next_in, state)
        });
     if ret \<noteq> 0 then Some (ret, state\<lparr>block_state := ISAL_CHECKSUM_CHECK\<rparr>)
     else
       let state = state\<lparr>block_state := ISAL_BLOCK_FINISH\<rparr>
       in if trailer \<noteq> ucast (crc state) OR push_bit 32 (ucast (total_out state))
          then Some (ISAL_INCORRECT_CHECKSUM, state) else Some (ISAL_DECOMP_OK, state)
   }"

definition isal_bswap32 :: "u32 \<Rightarrow> u32" where
  "isal_bswap32 x = le_word (rev (le_bytes 4 x))"

definition check_zlib_checksum :: "inflate_state \<Rightarrow> (int \<times> inflate_state) option" where
  "check_zlib_checksum state = do {
     (ret, trailer, state) \<leftarrow>
       (if read_in_length state \<ge> 8 * int ZLIB_TRAILER_LEN
        then
          let bit_count = nat (read_in_length state) mod 8;
              state = state\<lparr>read_in := drop_bit bit_count (read_in state), read_in_length := read_in_length state - int bit_count\<rparr>
          in Some (0, ucast (read_in state), state\<lparr>read_in_length := read_in_length state - 8 * int ZLIB_TRAILER_LEN,
            read_in := drop_bit (8 * ZLIB_TRAILER_LEN) (read_in state)\<rparr>)
        else do {
          state \<leftarrow> queue_register state;
          (ret, next_in, state) \<leftarrow> fixed_size_read state ZLIB_TRAILER_LEN;
          Some (ret, load_le_u32 next_in, state)
        });
     if ret \<noteq> 0 then Some (ret, state\<lparr>block_state := ISAL_CHECKSUM_CHECK\<rparr>)
     else
       let state = state\<lparr>block_state := ISAL_BLOCK_FINISH\<rparr>
       in if isal_bswap32 trailer \<noteq> crc state
          then Some (ISAL_INCORRECT_CHECKSUM, state) else Some (ISAL_DECOMP_OK, state)
   }"

section \<open>The gzip header\<close>

text \<open>The cases of the jump table, last one first. A field that is not complete leaves the switch
  (\<open>break\<close>), which adds the bytes of this call to the header checksum; \<open>start_in\<close> is where the
  call began to read.\<close>

type_synonym gzip_result = "(int \<times> inflate_state \<times> isal_gzip_header) option"

definition hdr_crc :: "u32 \<Rightarrow> nat \<Rightarrow> inflate_state \<Rightarrow> u32" where
  "hdr_crc hcrc start_in state = crc32_gzip_refl hcrc (take (next_in state - start_in) (drop start_in (in_buf state)))"

definition gzip_break :: "nat \<Rightarrow> u32 \<Rightarrow> u32 \<Rightarrow> int \<Rightarrow> inflate_state \<Rightarrow> isal_gzip_header \<Rightarrow> gzip_result" where
  "gzip_break start_in flags hcrc ret state gz_hdr =
    Some (ret, state, if flags AND HCRC_FLAG \<noteq> 0 then gz_hdr\<lparr>gz_hcrc := hdr_crc hcrc start_in state\<rparr> else gz_hdr)"

definition gzip_done :: "inflate_state \<Rightarrow> isal_gzip_header \<Rightarrow> gzip_result" where
  "gzip_done state gz_hdr = Some (ISAL_DECOMP_OK, state\<lparr>wrapper_flag := True, block_state := ISAL_BLOCK_NEW_HDR\<rparr>, gz_hdr)"

definition gzip_hcrc_case :: "u32 \<Rightarrow> inflate_state \<Rightarrow> isal_gzip_header \<Rightarrow> gzip_result" where
  "gzip_hcrc_case hcrc state gz_hdr = do {
     (ret, next_in, state) \<leftarrow> fixed_size_read state GZIP_HCRC_LEN;
     if ret \<noteq> 0 then Some (ret, state\<lparr>block_state := ISAL_GZIP_HCRC\<rparr>, gz_hdr)
     else if hcrc AND 0xffff \<noteq> ucast (load_le_u16 next_in) then Some (ISAL_INCORRECT_CHECKSUM, state, gz_hdr)
     else gzip_done state gz_hdr
   }"

definition gzip_flag_hcrc :: "nat \<Rightarrow> u32 \<Rightarrow> u32 \<Rightarrow> inflate_state \<Rightarrow> isal_gzip_header \<Rightarrow> gzip_result" where
  "gzip_flag_hcrc start_in flags hcrc state gz_hdr =
    (if flags AND HCRC_FLAG \<noteq> 0
     then gzip_hcrc_case (hdr_crc hcrc start_in state) state (gz_hdr\<lparr>gz_hcrc := hdr_crc hcrc start_in state\<rparr>)
     else gzip_done state gz_hdr)"

definition gzip_comment_case :: "nat \<Rightarrow> u32 \<Rightarrow> u32 \<Rightarrow> inflate_state \<Rightarrow> isal_gzip_header \<Rightarrow> gzip_result" where
  "gzip_comment_case start_in flags hcrc state gz_hdr = do {
     (ret, comment, state) \<leftarrow> string_header_copy state (gz_comment gz_hdr) (gz_comment_buf_len gz_hdr)
       (type0_block_len state) ISAL_COMMENT_OVERFLOW;
     let gz_hdr = gz_hdr\<lparr>gz_comment := comment\<rparr>;
     if ret \<noteq> 0 then gzip_break start_in flags hcrc ret (state\<lparr>block_state := ISAL_GZIP_COMMENT\<rparr>) gz_hdr
     else gzip_flag_hcrc start_in flags hcrc state gz_hdr
   }"

definition gzip_flag_comment :: "nat \<Rightarrow> u32 \<Rightarrow> u32 \<Rightarrow> inflate_state \<Rightarrow> isal_gzip_header \<Rightarrow> gzip_result" where
  "gzip_flag_comment start_in flags hcrc state gz_hdr =
    (if flags AND COMMENT_FLAG \<noteq> 0 then gzip_comment_case start_in flags hcrc state gz_hdr
     else gzip_flag_hcrc start_in flags hcrc state gz_hdr)"

definition gzip_name_case :: "nat \<Rightarrow> u32 \<Rightarrow> u32 \<Rightarrow> inflate_state \<Rightarrow> isal_gzip_header \<Rightarrow> gzip_result" where
  "gzip_name_case start_in flags hcrc state gz_hdr = do {
     (ret, nm, state) \<leftarrow> string_header_copy state (gz_name gz_hdr) (gz_name_buf_len gz_hdr)
       (type0_block_len state) ISAL_NAME_OVERFLOW;
     let gz_hdr = gz_hdr\<lparr>gz_name := nm\<rparr>;
     if ret \<noteq> 0 then gzip_break start_in flags hcrc ret (state\<lparr>block_state := ISAL_GZIP_NAME\<rparr>) gz_hdr
     else gzip_flag_comment start_in flags hcrc state gz_hdr
   }"

definition gzip_flag_name :: "nat \<Rightarrow> u32 \<Rightarrow> u32 \<Rightarrow> inflate_state \<Rightarrow> isal_gzip_header \<Rightarrow> gzip_result" where
  "gzip_flag_name start_in flags hcrc state gz_hdr =
    (if flags AND NAME_FLAG \<noteq> 0 then gzip_name_case start_in flags hcrc state gz_hdr
     else gzip_flag_comment start_in flags hcrc state gz_hdr)"

definition gzip_extra_case :: "u32 \<Rightarrow> nat \<Rightarrow> u32 \<Rightarrow> u32 \<Rightarrow> inflate_state \<Rightarrow> isal_gzip_header \<Rightarrow> gzip_result" where
  "gzip_extra_case cnt start_in flags hcrc state gz_hdr = do {
     (ret, extra, state) \<leftarrow> buffer_header_copy state (unat cnt) (gz_extra gz_hdr) (gz_extra_buf_len gz_hdr)
       (gz_extra_len gz_hdr - cnt) ISAL_EXTRA_OVERFLOW;
     let gz_hdr = gz_hdr\<lparr>gz_extra := extra\<rparr>;
     if ret \<noteq> 0 then gzip_break start_in flags hcrc ret (state\<lparr>block_state := ISAL_GZIP_EXTRA\<rparr>) gz_hdr
     else gzip_flag_name start_in flags hcrc state gz_hdr
   }"

definition gzip_extra_len_case :: "nat \<Rightarrow> u32 \<Rightarrow> u32 \<Rightarrow> inflate_state \<Rightarrow> isal_gzip_header \<Rightarrow> gzip_result" where
  "gzip_extra_len_case start_in flags hcrc state gz_hdr = do {
     (ret, next_in, state) \<leftarrow> fixed_size_read state GZIP_EXTRA_LEN;
     if ret \<noteq> 0 then gzip_break start_in flags hcrc ret (state\<lparr>block_state := ISAL_GZIP_EXTRA_LEN\<rparr>) gz_hdr
     else
       let xlen = ucast (load_le_u16 next_in) :: u32
       in gzip_extra_case xlen start_in flags hcrc state (gz_hdr\<lparr>gz_extra_len := xlen\<rparr>)
   }"

definition gzip_new_hdr_case :: "nat \<Rightarrow> u32 \<Rightarrow> inflate_state \<Rightarrow> isal_gzip_header \<Rightarrow> gzip_result" where
  "gzip_new_hdr_case start_in hcrc state gz_hdr = do {
     (ret, next_in, state) \<leftarrow> fixed_size_read (state\<lparr>type0_block_len := 0\<rparr>) GZIP_HDR_BASE;
     if ret \<noteq> 0 then gzip_break start_in UNDEFINED_FLAG hcrc ret state gz_hdr
     else
       let flags = ucast (next_in ! 3) :: u32;
           gz_hdr = gz_hdr\<lparr>gz_time := load_le_u32 (drop 4 next_in), gz_xflags := ucast (next_in ! 8),
             gz_os := ucast (next_in ! 9)\<rparr>
       in if next_in ! 0 \<noteq> 0x1f \<or> next_in ! 1 \<noteq> 0x8b then Some (ISAL_INVALID_WRAPPER, state, gz_hdr)
          else if unat (next_in ! 2) \<noteq> DEFLATE_METHOD then Some (ISAL_UNSUPPORTED_METHOD, state, gz_hdr)
          else
            let gz_hdr = gz_hdr\<lparr>gz_text := if flags AND TEXT_FLAG \<noteq> 0 then 1 else 0, gz_flags := flags\<rparr>
            in if flags AND EXTRA_FLAG \<noteq> 0 then gzip_extra_len_case start_in flags hcrc state gz_hdr
               else gzip_flag_name start_in flags hcrc state (gz_hdr\<lparr>gz_extra_len := 0\<rparr>)
   }"

definition isal_read_gzip_header :: "inflate_state \<Rightarrow> isal_gzip_header \<Rightarrow> gzip_result" where
  "isal_read_gzip_header state gz_hdr =
    (let flags = gz_flags gz_hdr; start_in = next_in state; hcrc = gz_hcrc gz_hdr
     in case block_state state of
          ISAL_BLOCK_NEW_HDR \<Rightarrow> gzip_new_hdr_case start_in (if tmp_in_size state = 0 then 0 else hcrc) state gz_hdr
        | ISAL_GZIP_EXTRA_LEN \<Rightarrow> gzip_extra_len_case start_in flags hcrc state gz_hdr
        | ISAL_GZIP_EXTRA \<Rightarrow> gzip_extra_case (type0_block_len state) start_in flags hcrc state gz_hdr
        | ISAL_GZIP_NAME \<Rightarrow> gzip_name_case start_in flags hcrc state gz_hdr
        | ISAL_GZIP_COMMENT \<Rightarrow> gzip_comment_case start_in flags hcrc state gz_hdr
        | ISAL_GZIP_HCRC \<Rightarrow> gzip_hcrc_case hcrc state gz_hdr
        | _ \<Rightarrow> gzip_break start_in flags hcrc 0 state gz_hdr)"

section \<open>The zlib header\<close>

definition zlib_dict_case :: "inflate_state \<Rightarrow> isal_zlib_header \<Rightarrow> (int \<times> inflate_state \<times> isal_zlib_header) option" where
  "zlib_dict_case state zlib_hdr = do {
     (ret, next_in, state) \<leftarrow> fixed_size_read state ZLIB_DICT_LEN;
     if ret \<noteq> 0 then Some (ret, state\<lparr>block_state := ISAL_ZLIB_DICT\<rparr>, zlib_hdr)
     else Some (0, state\<lparr>wrapper_flag := True, block_state := ISAL_BLOCK_NEW_HDR\<rparr>, zlib_hdr\<lparr>z_dict_id := load_be_u32 next_in\<rparr>)
   }"

definition isal_read_zlib_header :: "inflate_state \<Rightarrow> isal_zlib_header \<Rightarrow>
    (int \<times> inflate_state \<times> isal_zlib_header) option" where
  "isal_read_zlib_header state zlib_hdr =
    (case block_state state of
       ISAL_BLOCK_NEW_HDR \<Rightarrow> do {
         let zlib_hdr = zlib_hdr\<lparr>z_dict_flag := 0\<rparr>;
         (ret, next_in, state) \<leftarrow> fixed_size_read state ZLIB_HDR_BASE;
         if ret \<noteq> 0 then Some (ret, state, zlib_hdr)
         else
           let cmf = ucast (next_in ! 0) :: u32; flags = ucast (next_in ! 1) :: u32;
               zlib_hdr = zlib_hdr\<lparr>z_info := drop_bit ZLIB_INFO_OFFSET cmf,
                 z_dict_flag := if flags AND ZLIB_DICT_FLAG \<noteq> 0 then 1 else 0, z_level := drop_bit ZLIB_LEVEL_OFFSET flags\<rparr>
           in if cmf AND 0xf \<noteq> of_nat DEFLATE_METHOD then Some (ISAL_UNSUPPORTED_METHOD, state, zlib_hdr)
              else if (256 * cmf + flags) mod 31 \<noteq> 0 then Some (ISAL_INCORRECT_CHECKSUM, state, zlib_hdr)
              else if z_dict_flag zlib_hdr \<noteq> 0 then zlib_dict_case state zlib_hdr
              else Some (0, state\<lparr>wrapper_flag := True, block_state := ISAL_BLOCK_NEW_HDR\<rparr>, zlib_hdr)
       }
     | ISAL_ZLIB_DICT \<Rightarrow> zlib_dict_case state zlib_hdr
     | _ \<Rightarrow> Some (0, state, zlib_hdr))"

end
