(* ===== verification/Wrapper_Resume.thy ===== *)
theory Wrapper_Resume
  imports Inflate_Wrapper
begin

text \<open>
  Reading a wrapper in pieces: what the functions of \<open>Inflate_Wrapper\<close> do to the bytes that are
  queued or available, and that a header read in two calls is the header read in one.
\<close>

section \<open>States that differ only in where the bytes are\<close>

text \<open>The caller's buffer ends where the available bytes end; the queue is the array of
  \<open>ISAL_DEF_MAX_HDR_SIZE\<close> bytes.\<close>

definition hdr_ok :: "inflate_state \<Rightarrow> bool" where
  "hdr_ok s \<longleftrightarrow> next_in s + avail_in s = length (in_buf s) \<and> length (tmp_in_buffer s) = 328"

definition queued :: "inflate_state \<Rightarrow> u8 list" where
  "queued s = take (tmp_in_size s) (tmp_in_buffer s)"

definition same :: "inflate_state \<Rightarrow> inflate_state \<Rightarrow> bool" where
  "same s t \<longleftrightarrow> hdr_ok s \<and> hdr_ok t \<and> avail_bytes t = avail_bytes s \<and> queued t = queued s
    \<and> (\<exists>ib ni tb bst. t = s\<lparr>in_buf := ib, next_in := ni, tmp_in_buffer := tb, block_state := bst\<rparr>)"

text \<open>A new input buffer, and an input buffer that goes on.\<close>

definition feed :: "u8 list \<Rightarrow> inflate_state \<Rightarrow> inflate_state" where
  "feed bs s = s\<lparr>in_buf := bs, next_in := 0, avail_in := length bs\<rparr>"

definition more :: "u8 list \<Rightarrow> inflate_state \<Rightarrow> inflate_state" where
  "more ys s = s\<lparr>in_buf := in_buf s @ ys, avail_in := avail_in s + length ys\<rparr>"

definition consumes :: "inflate_state \<Rightarrow> inflate_state \<Rightarrow> bool" where
  "consumes s s' \<longleftrightarrow> in_buf s' = in_buf s \<and> next_in s \<le> next_in s' \<and> next_in s' + avail_in s' = next_in s + avail_in s
    \<and> length (tmp_in_buffer s') = length (tmp_in_buffer s)"

lemma avail_bytes_ok: "hdr_ok s \<Longrightarrow> avail_bytes s = drop (next_in s) (in_buf s)"
  by (auto simp: hdr_ok_def avail_bytes_def)

lemma length_avail_ok [simp]: "hdr_ok s \<Longrightarrow> length (avail_bytes s) = avail_in s"
  by (auto simp add: hdr_ok_def avail_bytes_def)

lemma feed_simps [simp]:
  "in_buf (feed bs s) = bs" "next_in (feed bs s) = 0" "avail_in (feed bs s) = length bs" "avail_bytes (feed bs s) = bs"
  "tmp_in_size (feed bs s) = tmp_in_size s" "tmp_in_buffer (feed bs s) = tmp_in_buffer s" "block_state (feed bs s) = block_state s"
  "type0_block_len (feed bs s) = type0_block_len s" "queued (feed bs s) = queued s"
  by (simp_all add: feed_def avail_bytes_def queued_def)

lemma more_simps [simp]:
  "in_buf (more ys s) = in_buf s @ ys" "next_in (more ys s) = next_in s" "avail_in (more ys s) = avail_in s + length ys"
  "tmp_in_size (more ys s) = tmp_in_size s" "tmp_in_buffer (more ys s) = tmp_in_buffer s" "block_state (more ys s) = block_state s"
  "type0_block_len (more ys s) = type0_block_len s" "queued (more ys s) = queued s"
  by (simp_all add: more_def queued_def)

lemma hdr_ok_feed [simp]: "hdr_ok (feed bs s) \<longleftrightarrow> length (tmp_in_buffer s) = 328"
  by (simp add: hdr_ok_def)

lemma hdr_ok_more [simp]: "hdr_ok (more ys s) \<longleftrightarrow> hdr_ok s"
  by (auto simp: hdr_ok_def)

lemma hdr_ok_upd [simp]:
  "hdr_ok (s\<lparr>block_state := b\<rparr>) = hdr_ok s" "hdr_ok (s\<lparr>type0_block_len := n\<rparr>) = hdr_ok s"
  "hdr_ok (s\<lparr>wrapper_flag := w\<rparr>) = hdr_ok s" "hdr_ok (s\<lparr>tmp_in_size := k\<rparr>) = hdr_ok s"
  by (simp_all add: hdr_ok_def)

lemma avail_bytes_more: "hdr_ok s \<Longrightarrow> avail_bytes (more ys s) = avail_bytes s @ ys"
  using avail_bytes_ok [of s] avail_bytes_ok [of "more ys s"] by (simp add: hdr_ok_def)

lemma more_feed: "more ys (feed xs s) = feed (xs @ ys) s"
  by (simp add: more_def feed_def)

lemma sameI:
  assumes "hdr_ok s" "hdr_ok t" "avail_bytes t = avail_bytes s" "queued t = queued s"
    "t = s\<lparr>in_buf := ib, next_in := ni, tmp_in_buffer := tb, block_state := bst\<rparr>"
  shows "same s t"
  using assms unfolding same_def by blast

lemma sameE:
  assumes "same s t"
  obtains ib ni tb bst where "t = s\<lparr>in_buf := ib, next_in := ni, tmp_in_buffer := tb, block_state := bst\<rparr>"
  using assms unfolding same_def by blast

lemma same_fields:
  assumes "same s t"
  shows "hdr_ok s" "hdr_ok t" "avail_bytes t = avail_bytes s" "queued t = queued s" "avail_in t = avail_in s"
    "tmp_in_size t = tmp_in_size s" "type0_block_len t = type0_block_len s" "wrapper_flag t = wrapper_flag s"
  using assms by (auto simp: same_def)

lemma same_refl: "hdr_ok s \<Longrightarrow> same s s"
  by (rule sameI [where ib = "in_buf s" and ni = "next_in s" and tb = "tmp_in_buffer s" and bst = "block_state s"]) simp_all

text \<open>An update of the same fields on both sides.\<close>

lemma same_upd:
  assumes "same s t"
  shows "same (s\<lparr>block_state := b\<rparr>) (t\<lparr>block_state := b'\<rparr>)" "same (s\<lparr>type0_block_len := n\<rparr>) (t\<lparr>type0_block_len := n\<rparr>)"
    "same (s\<lparr>wrapper_flag := w\<rparr>) (t\<lparr>wrapper_flag := w\<rparr>)"
proof -
  obtain ib ni tb bst where t: "t = s\<lparr>in_buf := ib, next_in := ni, tmp_in_buffer := tb, block_state := bst\<rparr>"
    using assms by (rule sameE)
  note f = same_fields [OF assms]
  show "same (s\<lparr>block_state := b\<rparr>) (t\<lparr>block_state := b'\<rparr>)"
    by (rule sameI [where ib = ib and ni = ni and tb = tb and bst = b']; use f in \<open>simp add: t avail_bytes_def queued_def\<close>)
  show "same (s\<lparr>type0_block_len := n\<rparr>) (t\<lparr>type0_block_len := n\<rparr>)" "same (s\<lparr>wrapper_flag := w\<rparr>) (t\<lparr>wrapper_flag := w\<rparr>)"
    by (rule sameI [where ib = ib and ni = ni and tb = tb and bst = bst]; use f in \<open>simp add: t avail_bytes_def queued_def\<close>)+
qed

lemma same_block_state: "same (s\<lparr>block_state := b\<rparr>) t \<Longrightarrow> same s t"
proof -
  assume a: "same (s\<lparr>block_state := b\<rparr>) t"
  obtain ib ni tb bst where t: "t = s\<lparr>block_state := b, in_buf := ib, next_in := ni, tmp_in_buffer := tb, block_state := bst\<rparr>"
    using a by (rule sameE)
  show ?thesis
    by (rule sameI [where ib = ib and ni = ni and tb = tb and bst = bst]; use same_fields [OF a] t in \<open>simp add: avail_bytes_def queued_def\<close>)
qed

section \<open>Advancing in the input\<close>

lemma in_advance_simps [simp]:
  "in_buf (in_advance n s) = in_buf s" "next_in (in_advance n s) = next_in s + n" "avail_in (in_advance n s) = avail_in s - n"
  "tmp_in_size (in_advance n s) = tmp_in_size s" "tmp_in_buffer (in_advance n s) = tmp_in_buffer s"
  "type0_block_len (in_advance n s) = type0_block_len s" "queued (in_advance n s) = queued s"
  by (simp_all add: in_advance_def queued_def)

lemma hdr_ok_in_advance [simp]: "n \<le> avail_in s \<Longrightarrow> hdr_ok (in_advance n s) = hdr_ok s"
  by (simp add: hdr_ok_def)

lemma avail_bytes_in_advance [simp]: "avail_bytes (in_advance n s) = drop n (avail_bytes s)"
  by (simp add: avail_bytes_def drop_take add.commute)

lemma avail_bytes_upd [simp]:
  "avail_bytes (s\<lparr>tmp_in_buffer := b\<rparr>) = avail_bytes s" "avail_bytes (s\<lparr>tmp_in_size := k\<rparr>) = avail_bytes s"
  "avail_bytes (s\<lparr>type0_block_len := c\<rparr>) = avail_bytes s" "avail_bytes (s\<lparr>block_state := bst\<rparr>) = avail_bytes s"
  "avail_bytes (s\<lparr>wrapper_flag := w\<rparr>) = avail_bytes s"
  by (simp_all add: avail_bytes_def)

lemma same_in_advance:
  assumes "same s t" "n \<le> avail_in s"
  shows "same (in_advance n s) (in_advance n t)"
proof -
  obtain ib ni tb bst where t: "t = s\<lparr>in_buf := ib, next_in := ni, tmp_in_buffer := tb, block_state := bst\<rparr>"
    using assms(1) by (rule sameE)
  note f = same_fields [OF assms(1)]
  show ?thesis
    by (rule sameI [where ib = ib and ni = "ni + n" and tb = tb and bst = bst])
      (use f assms(2) in \<open>simp_all\<close>, simp add: t in_advance_def)
qed

lemma get_bytes_avail: "hdr_ok s \<Longrightarrow> n \<le> avail_in s \<Longrightarrow> get_bytes (in_buf s) (next_in s) n = Some (take n (avail_bytes s))"
  by (simp add: get_bytes_def avail_bytes_ok) (simp add: hdr_ok_def)

lemma get_bytes_more:
  "hdr_ok s \<Longrightarrow> n \<le> avail_in s + length ys \<Longrightarrow> get_bytes (in_buf s @ ys) (next_in s) n = Some (take n (avail_bytes s @ ys))"
  using get_bytes_avail [of "more ys s" n] by (simp add: avail_bytes_more)

lemma consumes_in_advance [simp]: "n \<le> avail_in s \<Longrightarrow> consumes s (in_advance n s)"
  by (simp add: consumes_def)

lemma consumes_trans: "consumes a b \<Longrightarrow> consumes b c \<Longrightarrow> consumes a c"
  by (simp add: consumes_def)

lemma consumes_hdr_ok: "consumes s s' \<Longrightarrow> hdr_ok s \<Longrightarrow> hdr_ok s'"
  by (simp add: consumes_def hdr_ok_def)

lemma in_advance_more: "n \<le> avail_in s \<Longrightarrow> in_advance n (more ys s) = more ys (in_advance n s)"
  by (simp add: in_advance_def more_def)

section \<open>Reading a fixed number of bytes\<close>

definition fsr_end :: "inflate_state \<Rightarrow> inflate_state" where
  "fsr_end s = in_advance (avail_in s) (s\<lparr>tmp_in_buffer := blit (tmp_in_buffer s) (tmp_in_size s) (avail_bytes s),
    tmp_in_size := tmp_in_size s + avail_in s\<rparr>)"

definition fsr_ok :: "nat \<Rightarrow> inflate_state \<Rightarrow> inflate_state" where
  "fsr_ok n s = in_advance (n - tmp_in_size s) (if tmp_in_size s = 0 then s
    else s\<lparr>tmp_in_buffer := blit (tmp_in_buffer s) (tmp_in_size s) (take (n - tmp_in_size s) (avail_bytes s)), tmp_in_size := 0\<rparr>)"

lemma fixed_size_read:
  assumes "hdr_ok s" "n \<le> 328"
  shows "fixed_size_read s n =
    (if avail_in s + tmp_in_size s < n then Some (ISAL_END_INPUT, [], fsr_end s)
     else if n < tmp_in_size s then None
     else Some (0, take n (queued s @ avail_bytes s), fsr_ok n s))"
proof -
  have b: "length (tmp_in_buffer s) = 328" using assms(1) by (simp add: hdr_ok_def)
  show ?thesis
  proof (cases "avail_in s + tmp_in_size s < n")
    case True
    then show ?thesis
      using assms b by (simp add: fixed_size_read_def get_bytes_avail put_bytes_def fsr_end_def)
  next
    case False
    let ?k = "n - tmp_in_size s"
    have "take n (blit (tmp_in_buffer s) (tmp_in_size s) (take ?k (avail_bytes s))) = take n (queued s @ avail_bytes s)"
      if "tmp_in_size s \<le> n"
      using that False b assms by (simp add: blit_def queued_def)
    then show ?thesis
      using False assms b by (simp add: fixed_size_read_def get_bytes_avail put_bytes_def fsr_ok_def queued_def Let_def)
  qed
qed

lemma fsr_end:
  assumes "hdr_ok s" "avail_in s + tmp_in_size s < 328"
  shows "hdr_ok (fsr_end s)" "avail_bytes (fsr_end s) = []" "avail_in (fsr_end s) = 0" "consumes s (fsr_end s)"
    "queued (fsr_end s) = queued s @ avail_bytes s" "tmp_in_size (fsr_end s) = tmp_in_size s + avail_in s"
    "type0_block_len (fsr_end s) = type0_block_len s" "next_in (fsr_end s) = next_in s + avail_in s" "in_buf (fsr_end s) = in_buf s"
    "block_state (fsr_end s) = block_state s" "length (tmp_in_buffer (fsr_end s)) = 328"
  using assms by (auto simp: fsr_end_def hdr_ok_def consumes_def queued_def blit_def in_advance_def avail_bytes_def)

lemma fsr_ok:
  assumes "hdr_ok s" "tmp_in_size s \<le> n" "n \<le> avail_in s + tmp_in_size s" "n \<le> 328"
  shows "hdr_ok (fsr_ok n s)" "avail_bytes (fsr_ok n s) = drop (n - tmp_in_size s) (avail_bytes s)" "consumes s (fsr_ok n s)"
    "queued (fsr_ok n s) = []" "tmp_in_size (fsr_ok n s) = 0" "type0_block_len (fsr_ok n s) = type0_block_len s"
    "avail_in (fsr_ok n s) = avail_in s - (n - tmp_in_size s)"
  using assms by (auto simp: fsr_ok_def hdr_ok_def consumes_def queued_def in_advance_def avail_bytes_def drop_take add.commute)

text \<open>Results of a field that agree.\<close>

definition prim_rel :: "(int \<times> 'b \<times> inflate_state) option \<Rightarrow> (int \<times> 'b \<times> inflate_state) option \<Rightarrow> bool" where
  "prim_rel = rel_option (\<lambda>(r, b, s) (r', b', s'). r = r' \<and> b = b' \<and> same s s')"

lemma prim_rel_Some [simp]: "prim_rel (Some (r, b, s)) (Some (r', b', s')) \<longleftrightarrow> r = r' \<and> b = b' \<and> same s s'"
  by (simp add: prim_rel_def)

lemma prim_rel_None [simp]: "prim_rel None None"
  by (simp add: prim_rel_def)

lemma same_fsr_end:
  assumes "same s t" "avail_in s + tmp_in_size s < 328"
  shows "same (fsr_end s) (fsr_end t)"
proof -
  obtain ib ni tb bst where t: "t = s\<lparr>in_buf := ib, next_in := ni, tmp_in_buffer := tb, block_state := bst\<rparr>"
    using assms(1) by (rule sameE)
  note f = same_fields [OF assms(1)]
  have t2: "avail_in t + tmp_in_size t < 328" using f assms(2) by simp
  show ?thesis
    by (rule sameI [where ib = ib and ni = "ni + avail_in s" and tb = "tmp_in_buffer (fsr_end t)" and bst = bst])
      (use f assms(2) t2 in \<open>simp_all add: fsr_end\<close>, simp add: t fsr_end_def in_advance_def)
qed

lemma same_fsr_ok:
  assumes "same s t" "tmp_in_size s \<le> n" "n \<le> avail_in s + tmp_in_size s" "n \<le> 328"
  shows "same (fsr_ok n s) (fsr_ok n t)"
proof -
  obtain ib ni tb bst where t: "t = s\<lparr>in_buf := ib, next_in := ni, tmp_in_buffer := tb, block_state := bst\<rparr>"
    using assms(1) by (rule sameE)
  note f = same_fields [OF assms(1)]
  have t2: "tmp_in_size t \<le> n" "n \<le> avail_in t + tmp_in_size t" using f assms(2,3) by simp_all
  show ?thesis
    by (rule sameI [where ib = ib and ni = "ni + (n - tmp_in_size s)" and tb = "tmp_in_buffer (fsr_ok n t)" and bst = bst])
      (use f assms(2-4) t2 in \<open>simp_all add: fsr_ok\<close>, simp add: t fsr_ok_def in_advance_def)
qed

lemma fixed_size_read_same: "same s t \<Longrightarrow> n \<le> 328 \<Longrightarrow> prim_rel (fixed_size_read s n) (fixed_size_read t n)"
  using same_fields [of s t] same_fsr_end [of s t] same_fsr_ok [of s t n] by (simp add: fixed_size_read)

lemma fixed_size_read_consumes:
  "fixed_size_read s n = Some (r, b, s2) \<Longrightarrow> hdr_ok s \<Longrightarrow> n \<le> 328 \<Longrightarrow> consumes s s2"
  by (auto simp: fixed_size_read fsr_end fsr_ok split: if_splits)

lemma fixed_size_read_more:
  assumes "fixed_size_read s n = Some (0, b, s2)" "hdr_ok s" "n \<le> 328"
  shows "fixed_size_read (more ys s) n = Some (0, b, more ys s2)"
proof -
  have g: "\<not> avail_in s + tmp_in_size s < n" "\<not> n < tmp_in_size s" and b: "b = take n (queued s @ avail_bytes s)"
    and s2: "s2 = fsr_ok n s"
    using assms by (auto simp: fixed_size_read ISAL_END_INPUT_def split: if_splits)
  have "tmp_in_size s \<le> 328" using g assms(3) by simp
  then have q: "length (queued s) = tmp_in_size s" using assms(2) by (simp add: queued_def hdr_ok_def)
  have "take n (queued s @ avail_bytes s @ ys) = b"
    using g assms(2) by (simp add: b q)
  moreover have "fsr_ok n (more ys s) = more ys s2"
  proof -
    let ?k = "n - tmp_in_size s"
    have "take ?k (avail_bytes (more ys s)) = take ?k (avail_bytes s)" using g assms(2) by (simp add: avail_bytes_more)
    then have "fsr_ok n (more ys s) = in_advance ?k (more ys (if tmp_in_size s = 0 then s
        else s\<lparr>tmp_in_buffer := blit (tmp_in_buffer s) (tmp_in_size s) (take ?k (avail_bytes s)), tmp_in_size := 0\<rparr>))"
      by (cases "tmp_in_size s = 0") (simp_all add: fsr_ok_def, simp_all add: more_def in_advance_def)
    then show ?thesis using g by (simp add: s2 fsr_ok_def in_advance_more)
  qed
  ultimately show ?thesis using g assms(2,3) by (simp add: fixed_size_read avail_bytes_more)
qed

lemma same_queue:
  assumes "hdr_ok t" "hdr_ok u" "avail_bytes u = avail_bytes t" "queued u = queued t"
    "u = t\<lparr>in_buf := in_buf u, next_in := next_in u, tmp_in_buffer := tmp_in_buffer u\<rparr>"
  shows "same t u"
  by (rule sameI [where bst = "block_state t"]) (use assms in simp_all)

lemma fixed_size_read_resume:
  assumes ok: "hdr_ok s" and n: "n \<le> 328" and e: "avail_in s + tmp_in_size s < n"
  shows "prim_rel (fixed_size_read (feed ys (fsr_end s)) n) (fixed_size_read (more ys s) n)"
proof -
  let ?t = "feed ys (fsr_end s)" and ?u = "more ys s"
  have e328: "avail_in s + tmp_in_size s < 328" using n e by simp
  note f = fsr_end [OF ok e328]
  have okt: "hdr_ok ?t" and oku: "hdr_ok ?u" using f ok by simp_all
  have q: "length (queued s) = tmp_in_size s" using ok e328 by (simp add: queued_def hdr_ok_def)
  have av: "avail_bytes ?u = avail_bytes s @ ys" using ok by (rule avail_bytes_more)
  show ?thesis
  proof (cases "length ys + (avail_in s + tmp_in_size s) < n")
    case True
    have t: "avail_in ?t + tmp_in_size ?t < 328" "avail_in ?u + tmp_in_size ?u < 328" using True n f by simp_all
    have "same (fsr_end ?t) (fsr_end ?u)"
    proof (rule sameI [where ib = "in_buf ?u" and ni = "next_in (fsr_end ?u)" and tb = "tmp_in_buffer (fsr_end ?u)" and bst = "block_state s"])
      show "fsr_end ?u = (fsr_end ?t)\<lparr>in_buf := in_buf ?u, next_in := next_in (fsr_end ?u), tmp_in_buffer := tmp_in_buffer (fsr_end ?u), block_state := block_state s\<rparr>"
        by (simp add: fsr_end_def feed_def more_def in_advance_def)
    qed (use fsr_end [OF okt t(1)] fsr_end [OF oku t(2)] f av in simp_all)
    then show ?thesis using True n okt oku f by (simp add: fixed_size_read)
  next
    case False
    have t: "tmp_in_size ?t \<le> n" "n \<le> avail_in ?t + tmp_in_size ?t" "tmp_in_size ?u \<le> n" "n \<le> avail_in ?u + tmp_in_size ?u"
      using False e f by simp_all
    have "same (fsr_ok n ?t) (fsr_ok n ?u)"
    proof (rule sameI [where ib = "in_buf ?u" and ni = "next_in (fsr_ok n ?u)" and tb = "tmp_in_buffer (fsr_ok n ?u)" and bst = "block_state s"])
      show "fsr_ok n ?u = (fsr_ok n ?t)\<lparr>in_buf := in_buf ?u, next_in := next_in (fsr_ok n ?u), tmp_in_buffer := tmp_in_buffer (fsr_ok n ?u), block_state := block_state s\<rparr>"
        using False e by (simp add: fsr_ok_def fsr_end_def feed_def more_def in_advance_def)
    qed (use fsr_ok [OF okt t(1,2) n] fsr_ok [OF oku t(3,4) n] f av ok q e in simp_all)
    then show ?thesis using False e n okt oku f q av ok by (simp add: fixed_size_read)
  qed
qed

section \<open>Copying a buffer and a string\<close>

lemma put_bytes_append:
  "off + length xs \<le> length b \<Longrightarrow> put_bytes b off (xs @ ys) = put_bytes (blit b off xs) (off + length xs) ys"
  by (simp add: put_bytes_def blit_def ac_simps)

lemma put_bytes_Some: "put_bytes b off xs = Some b' \<longleftrightarrow> off + length xs \<le> length b \<and> b' = blit b off xs"
  by (auto simp: put_bytes_def)

lemma put_bytes_Some': "Some b' = put_bytes b off xs \<longleftrightarrow> off + length xs \<le> length b \<and> b' = blit b off xs"
  by (auto simp: put_bytes_def)

lemma set_count_simps [simp]:
  "hdr_ok (set_count n s) = hdr_ok s" "avail_bytes (set_count n s) = avail_bytes s" "avail_in (set_count n s) = avail_in s"
  "type0_block_len (set_count n s) = of_nat n" "consumes s (set_count n t) = consumes s t" "block_state (set_count n s) = block_state s"
  by (simp_all add: set_count_def consumes_def)

lemma set_count_more: "set_count n (more ys s) = more ys (set_count n s)"
  by (simp add: set_count_def more_def)

lemma same_set_count: "same s t \<Longrightarrow> same (set_count n s) (set_count n t)"
  by (simp add: set_count_def same_upd)

text \<open>An offset in a buffer that moves on without wrapping.\<close>

lemma offset_add:
  assumes "unat (off :: u32) + k \<le> m" "m < 2 ^ 32"
  shows "unat (off + of_nat k) = unat off + k"
proof -
  have "unat off + unat (of_nat k :: u32) < 2 ^ LENGTH(32)" "unat (of_nat k :: u32) = k"
    using assms by (simp_all add: unat_of_nat)
  then show ?thesis by (simp add: unat_add_lem [THEN iffD1])
qed

lemma room_sub:
  assumes "k \<le> unat (bl - off :: u32)"
  shows "unat (bl - (off + of_nat k)) = unat (bl - off) - k"
proof -
  have "unat (bl - off) < 2 ^ LENGTH(32)" by (rule unsigned_less)
  then have k: "unat (of_nat k :: u32) = k" using assms by (simp add: unat_of_nat)
  then have "(of_nat k :: u32) \<le> bl - off" using assms by (simp add: word_le_nat_alt)
  then have "unat (bl - off - of_nat k) = unat (bl - off) - k" using k by (simp add: unat_sub)
  then show ?thesis by (simp add: diff_diff_eq)
qed

lemma same_feed_more:
  assumes "hdr_ok s" "j \<le> length ys" "k = avail_in s"
  shows "same ((in_advance j (feed ys ((in_advance k s)\<lparr>type0_block_len := c\<rparr>)))\<lparr>type0_block_len := d\<rparr>)
    ((in_advance (k + j) (more ys s))\<lparr>type0_block_len := d\<rparr>)"
  by (rule sameI [where ib = "in_buf s @ ys" and ni = "next_in s + k + j" and tb = "tmp_in_buffer s" and bst = "block_state s"])
    (use assms in \<open>simp_all add: avail_bytes_more\<close>, simp_all add: hdr_ok_def queued_def in_advance_def feed_def more_def)

text \<open>Buffers of a header are shorter than the address range of an offset.\<close>

definition small_buf :: "u8 list option \<Rightarrow> bool" where
  "small_buf b \<longleftrightarrow> (case b of None \<Rightarrow> True | Some b \<Rightarrow> length b < 2 ^ 32)"

lemma buffer_header_copy_Some:
  fixes n :: nat
  assumes "hdr_ok s"
  defines "len \<equiv> min n (avail_in s)"
  shows "buffer_header_copy s n (Some b) bl off err =
    map_option (\<lambda>b. (if unat (bl - off) < len then err else if len = n then 0 else ISAL_END_INPUT, Some b,
      set_count (n - min (unat (bl - off)) len) (in_advance (min (unat (bl - off)) len) s)))
    (put_bytes b (unat off) (take (min (unat (bl - off)) len) (avail_bytes s)))"
proof -
  have len: "len \<le> avail_in s" "len = n \<Longrightarrow> n \<le> avail_in s" by (auto simp: len_def)
  then show ?thesis
    using assms(1)
    by (cases "unat (bl - off) < len")
      (simp_all add: buffer_header_copy_def Let_def get_bytes_avail map_conv_bind_option comp_def flip: len_def)
qed

lemma buffer_header_copy_None:
  "buffer_header_copy s n None bl off err = (let len = min n (avail_in s)
    in Some (if len = n then 0 else ISAL_END_INPUT, None, set_count (n - len) (in_advance len s)))"
  by (simp add: buffer_header_copy_def Let_def)

lemma buffer_header_copy_same:
  assumes "same s t"
  shows "prim_rel (buffer_header_copy s n buf bl off err) (buffer_header_copy t n buf bl off err)"
proof (cases buf)
  case None
  then show ?thesis using same_fields [OF assms] assms
    by (simp add: buffer_header_copy_None Let_def same_set_count same_in_advance)
next
  case (Some b)
  then show ?thesis using same_fields [OF assms] assms
    by (simp add: buffer_header_copy_Some put_bytes_def same_set_count same_in_advance)
qed

lemma buffer_header_copy_consumes:
  assumes "buffer_header_copy s n buf bl off err = Some (r, b, s2)" "hdr_ok s"
  shows "consumes s s2 \<and> small_buf b = small_buf buf"
proof (cases buf)
  case None
  then show ?thesis using assms by (auto simp: buffer_header_copy_None Let_def small_buf_def)
next
  case (Some b0)
  then show ?thesis using assms by (auto simp: buffer_header_copy_Some put_bytes_Some small_buf_def)
qed

lemma buffer_header_copy_more:
  assumes "buffer_header_copy s n buf bl off err = Some (r, b, s2)" "hdr_ok s" "r \<noteq> ISAL_END_INPUT" "err \<noteq> ISAL_END_INPUT"
  shows "buffer_header_copy (more ys s) n buf bl off err = Some (r, b, more ys s2)"
proof (cases buf)
  case None
  then have "n \<le> avail_in s" using assms by (auto simp: buffer_header_copy_None Let_def split: if_splits)
  then show ?thesis using None assms by (simp add: buffer_header_copy_None in_advance_more set_count_more)
next
  case (Some b0)
  let ?B = "unat (bl - off)" and ?m = "min (unat (bl - off)) (min n (avail_in s))"
  have c: "n \<le> avail_in s \<or> ?B < avail_in s"
    using Some assms by (auto simp: buffer_header_copy_Some split: if_splits)
  then have e: "min ?B (min n (avail_in s + length ys)) = ?m" "?B < min n (avail_in s + length ys) \<longleftrightarrow> ?B < min n (avail_in s)"
    by linarith+
  have f: "?B < min n (avail_in s) \<or> min n (avail_in s + length ys) = n \<longleftrightarrow> ?B < min n (avail_in s) \<or> min n (avail_in s) = n"
    using c by linarith
  have t: "take ?m (avail_bytes s @ ys) = take ?m (avail_bytes s)" using assms(2) by simp
  show ?thesis
    using assms f by (auto simp: Some buffer_header_copy_Some avail_bytes_more e t in_advance_more set_count_more)
qed

lemma buffer_header_copy_resume:
  assumes b: "buffer_header_copy s (unat cnt) buf bl (el - cnt) err = Some (ISAL_END_INPUT, buf2, s2)" and ok: "hdr_ok s"
    and err: "err \<noteq> ISAL_END_INPUT" and small: "small_buf buf"
  shows "prim_rel (buffer_header_copy (feed ys s2) (unat (type0_block_len s2)) buf2 bl (el - type0_block_len s2) err)
    (buffer_header_copy (more ys s) (unat cnt) buf bl (el - cnt) err)"
proof -
  let ?k = "avail_in s" and ?N = "unat cnt" and ?o = "el - cnt"
  have lt: "?k < ?N" and s2: "s2 = set_count (?N - ?k) (in_advance ?k s)"
    using b err by (auto simp: buffer_header_copy_def Let_def bind_eq_Some_conv ISAL_END_INPUT_def min_def split: option.splits if_splits)
  have N: "?N < 2 ^ LENGTH(32)" by (rule unsigned_less)
  have c: "type0_block_len s2 = cnt - of_nat ?k" using lt by (simp add: s2 of_nat_diff)
  have uc: "unat (type0_block_len s2) = ?N - ?k" using N by (simp add: s2 unat_of_nat)
  have o2: "el - type0_block_len s2 = ?o + of_nat ?k" by (simp add: c)
  have m: "min ?N (?k + length ys) = ?k + min (?N - ?k) (length ys)" using lt by simp
  have st: "same (set_count d (in_advance j (feed ys s2))) (set_count d (in_advance (?k + j) (more ys s)))" if "j \<le> length ys" for d j
    using same_feed_more [OF ok that refl] by (simp add: s2 set_count_def)
  have okt: "hdr_ok (feed ys s2)" "hdr_ok (more ys s)" using ok by (simp_all add: s2 hdr_ok_def set_count_def)
  show ?thesis
  proof (cases buf)
    case None
    have "buf2 = None" using b None by (simp add: buffer_header_copy_def Let_def)
    then show ?thesis using None st [of "min (?N - ?k) (length ys)" "?N - ?k - min (?N - ?k) (length ys)"] m lt
      by (auto simp: buffer_header_copy_def Let_def uc)
  next
    case (Some b0)
    let ?B = "unat (bl - ?o)"
    have B: "?k \<le> ?B" and buf2: "buf2 = Some (blit b0 (unat ?o) (avail_bytes s))" and len: "unat ?o + ?k \<le> length b0"
      using b Some err lt ok
      by (auto simp: buffer_header_copy_def Let_def bind_eq_Some_conv get_bytes_avail put_bytes_Some min_def split: if_splits)
    have ou: "unat (?o + of_nat ?k) = unat ?o + ?k" using offset_add [OF len] small Some by (simp add: small_buf_def)
    have Bu: "unat (bl - (?o + of_nat ?k)) = ?B - ?k" using B by (rule room_sub)
    have put: "put_bytes b0 (unat ?o) (take (?k + j) (avail_bytes s @ ys))
        = put_bytes (blit b0 (unat ?o) (avail_bytes s)) (unat ?o + ?k) (take j ys)" for j
      using put_bytes_append [of "unat ?o" "avail_bytes s" b0 "take j ys"] len ok by simp
    define m1 where "m1 = min (?B - ?k) (min (?N - ?k) (length ys))"
    have m: "min ?B (min ?N (?k + length ys)) = ?k + m1" using B lt by (simp add: m1_def)
    have bools: "?B - ?k < min (?N - ?k) (length ys) \<longleftrightarrow> ?B < min ?N (?k + length ys)"
      "min (?N - ?k) (length ys) = ?N - ?k \<longleftrightarrow> min ?N (?k + length ys) = ?N"
      using B lt by linarith+
    have "m1 \<le> length ys" by (simp add: m1_def)
    from st [OF this] put [of m1] show ?thesis
      using okt bools
      by (simp add: Some buf2 buffer_header_copy_Some uc o2 ou Bu avail_bytes_more ok m flip: m1_def)
        (simp add: put_bytes_def)
  qed
qed

lemma strnlen_le: "strnlen bs \<le> length bs"
  by (simp add: strnlen_def length_takeWhile_le)

lemma strnlen_append: "strnlen (xs @ ys) = (if strnlen xs = length xs then length xs + strnlen ys else strnlen xs)"
proof (cases "\<forall>c\<in>set xs. c \<noteq> 0")
  case True
  then show ?thesis by (simp add: strnlen_def takeWhile_append2 takeWhile_eq_all_conv [THEN iffD2])
next
  case False
  then have "takeWhile (\<lambda>c. c \<noteq> 0) xs \<noteq> xs" using takeWhile_eq_all_conv [of "\<lambda>c. c \<noteq> 0" xs] by auto
  then have "length (takeWhile (\<lambda>c. c \<noteq> 0) xs) \<noteq> length xs"
    by (metis append_Nil2 append_eq_append_conv takeWhile_dropWhile_id)
  moreover have "takeWhile (\<lambda>c. c \<noteq> 0) (xs @ ys) = takeWhile (\<lambda>c. c \<noteq> 0) xs" using False by (auto intro: takeWhile_append1)
  ultimately show ?thesis by (simp add: strnlen_def)
qed

definition add_count :: "nat \<Rightarrow> inflate_state \<Rightarrow> inflate_state" where
  "add_count n s = s\<lparr>type0_block_len := type0_block_len s + of_nat n\<rparr>"

lemma add_count_simps [simp]:
  "hdr_ok (add_count n s) = hdr_ok s" "avail_bytes (add_count n s) = avail_bytes s" "avail_in (add_count n s) = avail_in s"
  "type0_block_len (add_count n s) = type0_block_len s + of_nat n" "consumes s (add_count n t) = consumes s t"
  by (simp_all add: add_count_def consumes_def)

lemma add_count_more: "add_count n (more ys s) = more ys (add_count n s)"
  by (simp add: add_count_def more_def)

lemma same_add_count: "same s t \<Longrightarrow> same (add_count n s) (add_count n t)"
  using same_fields [of s t] by (simp add: add_count_def same_upd)

lemma string_header_copy_None:
  assumes "hdr_ok s"
  shows "string_header_copy s None sl off err =
    (let len = strnlen (avail_bytes s)
     in if len = avail_in s then Some (ISAL_END_INPUT, None, add_count len (in_advance len s))
        else Some (0, None, set_count 0 (in_advance (len + 1) s)))"
proof -
  have "strnlen (avail_bytes s) \<le> avail_in s" using strnlen_le [of "avail_bytes s"] assms by simp
  then show ?thesis
    using assms by (auto simp: string_header_copy_def Let_def get_bytes_avail add_count_def set_count_def in_advance_def)
qed

lemma string_header_copy_Some:
  fixes off sl :: u32
  assumes "hdr_ok s"
  defines "room \<equiv> unat (sl - off)"
  defines "len \<equiv> strnlen (take (min room (avail_in s)) (avail_bytes s))"
  shows "string_header_copy s (Some b) sl off err = do {
      b \<leftarrow> put_bytes b (unat off) (take len (avail_bytes s));
      if len = room then Some (err, Some b, add_count len (in_advance len s))
      else if len = avail_in s then Some (ISAL_END_INPUT, Some b, add_count len (in_advance len s))
      else do { b \<leftarrow> put_bytes b (unat off + len) [0]; Some (0, Some b, set_count 0 (in_advance (len + 1) s)) }
    }"
proof -
  have le: "len \<le> room" "len \<le> avail_in s"
    using strnlen_le [of "take (min room (avail_in s)) (avail_bytes s)"] assms(1) by (simp_all add: len_def)
  have m: "(if room > avail_in s \<or> Some b = None then avail_in s else room) = min room (avail_in s)" by simp
  have t: "take len (take (min room (avail_in s)) (avail_bytes s)) = take len (avail_bytes s)" using le by simp
  have g: "get_bytes (in_buf s) (next_in s) (min room (avail_in s)) = Some (take (min room (avail_in s)) (avail_bytes s))"
    using assms(1) by (intro get_bytes_avail) simp_all
  have st: "set_count 0 (in_advance (Suc 0) (in_advance len s\<lparr>type0_block_len := c\<rparr>)) = set_count 0 (in_advance (Suc len) s)" for c
    by (simp add: set_count_def in_advance_def)
  show ?thesis
    unfolding string_header_copy_def Let_def room_def [symmetric] m g Option.bind.simps len_def [symmetric] t
    by (cases "put_bytes b (unat off) (take len (avail_bytes s))") (use le in \<open>auto simp: add_count_def st\<close>)
qed

end
