(* ===== verification/Gzip_Header.thy ===== *)
theory Gzip_Header
  imports Wrapper_Resume
begin

text \<open>
  The gzip header as a whole: reading it in two calls gives the result of reading it in one, for
  every place where the first input ends.
\<close>

section \<open>Copying a string\<close>

text \<open>The number of bytes a string copy takes.\<close>

definition str_taken :: "inflate_state \<Rightarrow> u32 \<Rightarrow> u32 \<Rightarrow> nat" where
  "str_taken s sl off = strnlen (take (min (unat (sl - off)) (avail_in s)) (avail_bytes s))"

lemma str_taken_le:
  assumes "hdr_ok s"
  shows "str_taken s sl off \<le> avail_in s" "str_taken s sl off \<le> unat (sl - off)" "strnlen (avail_bytes s) \<le> avail_in s"
  using strnlen_le [of "take (min (unat (sl - off)) (avail_in s)) (avail_bytes s)"] strnlen_le [of "avail_bytes s"] assms
  by (simp_all add: str_taken_def)

lemmas str_copy_Some = string_header_copy_Some [folded str_taken_def]

lemma string_header_copy_same:
  assumes "same s t"
  shows "prim_rel (string_header_copy s buf sl off err) (string_header_copy t buf sl off err)"
proof -
  note f = same_fields [OF assms]
  have l: "str_taken t sl off = str_taken s sl off" using f by (simp add: str_taken_def)
  note le = str_taken_le [OF f(1)]
  show ?thesis
  proof (cases buf)
    case None
    then show ?thesis using f le assms
      by (simp add: string_header_copy_None Let_def same_set_count same_in_advance same_add_count)
  next
    case (Some b)
    then show ?thesis using f le(1,2) [of sl off] assms
      by (auto simp: str_copy_Some l put_bytes_def same_set_count same_in_advance same_add_count)
  qed
qed

lemma string_header_copy_consumes:
  assumes "string_header_copy s buf sl off err = Some (r, b, s2)" "hdr_ok s"
  shows "consumes s s2 \<and> small_buf b = small_buf buf"
proof (cases buf)
  case None
  then show ?thesis using assms str_taken_le [OF assms(2)] by (auto simp: string_header_copy_None Let_def split: if_splits)
next
  case (Some b0)
  then show ?thesis using assms str_taken_le(1,2) [OF assms(2), of sl off]
    by (auto simp: str_copy_Some bind_eq_Some_conv put_bytes_Some small_buf_def split: if_splits)
qed

lemma string_header_copy_more:
  assumes b: "string_header_copy s buf sl off err = Some (r, b, s2)" and ok: "hdr_ok s" and r: "r \<noteq> ISAL_END_INPUT"
  shows "string_header_copy (more ys s) buf sl off err = Some (r, b, more ys s2)"
proof (cases buf)
  case None
  let ?l = "strnlen (avail_bytes s)"
  have lt: "?l < avail_in s"
    using str_taken_le(3) [OF ok] b ok r None by (auto simp: string_header_copy_None Let_def split: if_splits)
  then have "strnlen (avail_bytes s @ ys) = ?l" using ok by (simp add: strnlen_append)
  then show ?thesis
    using b ok lt None by (simp add: string_header_copy_None Let_def avail_bytes_more in_advance_more set_count_more)
next
  case (Some b0)
  let ?room = "unat (sl - off)"
  define len where "len = str_taken s sl off"
  note le = str_taken_le(1,2) [OF ok, of sl off, folded len_def]
  have c: "?room \<le> avail_in s \<or> len < avail_in s"
    using b ok r Some le by (auto simp: str_copy_Some bind_eq_Some_conv simp flip: len_def split: if_splits)
  have okm: "hdr_ok (more ys s)" using ok by simp
  have T: "take len (avail_bytes (more ys s)) = take len (avail_bytes s)" using ok le by (simp add: avail_bytes_more)
  have L: "str_taken (more ys s) sl off = len"
  proof (cases "?room \<le> avail_in s")
    case True
    then show ?thesis using ok by (simp add: len_def str_taken_def min_absorb1 avail_bytes_more)
  next
    case False
    then have "take (min ?room (avail_in s)) (avail_bytes s) = avail_bytes s" using ok by simp
    then show ?thesis using False c ok by (simp add: len_def str_taken_def strnlen_append min_def avail_bytes_more)
  qed
  have R: "string_header_copy (more ys s) (Some b0) sl off err = do {
      b \<leftarrow> put_bytes b0 (unat off) (take len (avail_bytes s));
      if len = ?room then Some (err, Some b, more ys (add_count len (in_advance len s)))
      else if len = avail_in s + length ys then Some (ISAL_END_INPUT, Some b, more ys (add_count len (in_advance len s)))
      else do { b \<leftarrow> put_bytes b (unat off + len) [0]; Some (0, Some b, set_count 0 (in_advance (len + 1) (more ys s))) }
    }"
    by (subst str_copy_Some [OF okm]) (simp only: L T more_simps in_advance_more [OF le(1)] add_count_more)
  show ?thesis
  proof (cases "len = ?room")
    case True
    then show ?thesis using b ok unfolding Some R str_copy_Some [OF ok] len_def [symmetric] by (auto simp: bind_eq_Some_conv)
  next
    case False
    then have "len < avail_in s" using c le by arith
    then show ?thesis using b ok False unfolding Some R str_copy_Some [OF ok] len_def [symmetric]
      by (auto simp: bind_eq_Some_conv in_advance_more set_count_more)
  qed
qed

lemma same_taken:
  assumes "hdr_ok s" "j \<le> length ys" "k = avail_in s" "s2 = add_count k (in_advance k s)"
  shows "same (add_count j (in_advance j (feed ys s2))) (add_count (k + j) (in_advance (k + j) (more ys s)))"
    "same (set_count c (in_advance j (feed ys s2))) (set_count c (in_advance (k + j) (more ys s)))"
  using same_feed_more [OF assms(1-3), where c = "type0_block_len s + of_nat k" and d = "type0_block_len s + of_nat (k + j)"]
    same_feed_more [OF assms(1-3), where c = "type0_block_len s + of_nat k" and d = "of_nat c"]
  by (simp_all add: assms(4) add_count_def set_count_def add.assoc)

lemma string_header_copy_resume:
  assumes b: "string_header_copy s buf sl (type0_block_len s) err = Some (ISAL_END_INPUT, buf2, s2)" and ok: "hdr_ok s"
    and err: "err \<noteq> ISAL_END_INPUT" and small: "small_buf buf"
  shows "prim_rel (string_header_copy (feed ys s2) buf2 sl (type0_block_len s2) err)
    (string_header_copy (more ys s) buf sl (type0_block_len s) err)"
proof -
  let ?k = "avail_in s" and ?off = "type0_block_len s"
  have END: "ISAL_END_INPUT \<noteq> 0" by (simp add: ISAL_END_INPUT_def)
  have okm: "hdr_ok (more ys s)" and av: "avail_bytes (more ys s) = avail_bytes s @ ys" using ok by (simp_all add: avail_bytes_more)
  show ?thesis
  proof (cases buf)
    case None
    have k: "strnlen (avail_bytes s) = ?k" and s2: "s2 = add_count ?k (in_advance ?k s)" and buf2: "buf2 = None"
      using b ok END None by (auto simp: string_header_copy_None Let_def split: if_splits)
    have okf: "hdr_ok (feed ys s2)" using ok by (simp add: s2 hdr_ok_def add_count_def)
    have m: "strnlen (avail_bytes (more ys s)) = ?k + strnlen ys" using k ok by (simp add: av strnlen_append)
    have le: "strnlen ys \<le> length ys" by (rule strnlen_le)
    show ?thesis
    proof (cases "strnlen ys = length ys")
      case True
      then show ?thesis
        using same_taken(1) [OF ok order_refl refl s2, of ys] None buf2 okf okm m
        by (simp add: string_header_copy_None Let_def)
    next
      case False
      then have "Suc (strnlen ys) \<le> length ys" using le by simp
      from same_taken(2) [OF ok this refl s2] show ?thesis
        using None buf2 okf okm m False by (simp add: string_header_copy_None Let_def)
    qed
  next
    case (Some b0)
    let ?room = "unat (sl - ?off)"
    have k: "str_taken s sl ?off = ?k" and s2: "s2 = add_count ?k (in_advance ?k s)" and room: "?k \<noteq> ?room"
      and buf2: "buf2 = Some (blit b0 (unat ?off) (avail_bytes s))" and len: "unat ?off + ?k \<le> length b0"
      using b ok END err Some by (auto simp: str_copy_Some bind_eq_Some_conv put_bytes_Some split: if_splits)
    have lt: "?k < ?room" using str_taken_le(2) [OF ok, of sl ?off] k room by simp
    have A: "strnlen (avail_bytes s) = ?k" using k lt ok by (simp add: str_taken_def)
    have okf: "hdr_ok (feed ys s2)" using ok by (simp add: s2 hdr_ok_def add_count_def)
    have c2: "type0_block_len s2 = ?off + of_nat ?k" by (simp add: s2)
    have ou: "unat (?off + of_nat ?k) = unat ?off + ?k" using offset_add [OF len] small Some by (simp add: small_buf_def)
    have ru: "unat (sl - (?off + of_nat ?k)) = ?room - ?k" using lt by (intro room_sub) simp
    define l where "l = str_taken (feed ys s2) sl (?off + of_nat ?k)"
    have l_le: "l \<le> length ys" "l \<le> ?room - ?k"
      using str_taken_le(1,2) [OF okf, of sl "?off + of_nat ?k"] by (simp_all add: l_def ru)
    have m: "str_taken (more ys s) sl ?off = ?k + l"
    proof -
      have "min ?room (?k + length ys) = ?k + min (?room - ?k) (length ys)" using lt by linarith
      then have "take (min ?room (?k + length ys)) (avail_bytes s @ ys) = avail_bytes s @ take (min (?room - ?k) (length ys)) ys"
        using ok by simp
      then show ?thesis using A ok by (simp add: str_taken_def av l_def ru strnlen_append)
    qed
    have put: "put_bytes b0 (unat ?off) (take (?k + l) (avail_bytes s @ ys))
        = put_bytes (blit b0 (unat ?off) (avail_bytes s)) (unat ?off + ?k) (take l ys)"
      using put_bytes_append [of "unat ?off" "avail_bytes s" b0 "take l ys"] len ok by simp
    have eqs: "?k + l = ?room \<longleftrightarrow> l = ?room - ?k" "?k + l = ?k + length ys \<longleftrightarrow> l = length ys" using lt by linarith+
    show ?thesis
    proof (cases "l = ?room - ?k \<or> l = length ys")
      case True
      then show ?thesis
        using same_taken(1) [OF ok l_le(1) refl s2]
        unfolding Some buf2 c2 str_copy_Some [OF okf] str_copy_Some [OF okm] m l_def [symmetric] ou ru av put more_simps eqs feed_simps
        by (cases "put_bytes (blit b0 (unat ?off) (avail_bytes s)) (unat ?off + ?k) (take l ys)") auto
    next
      case False
      then have "Suc l \<le> length ys" using l_le by simp
      from same_taken(2) [OF ok this refl s2] show ?thesis
        using False
        unfolding Some buf2 c2 str_copy_Some [OF okf] str_copy_Some [OF okm] m l_def [symmetric] ou ru av put more_simps eqs feed_simps
        by (cases "put_bytes (blit b0 (unat ?off) (avail_bytes s)) (unat ?off + ?k) (take l ys)") (auto simp: put_bytes_def add.assoc)
    qed
  qed
qed

section \<open>The checksum of the header\<close>

lemma crc32_gzip_append: "crc32_gzip_refl c (xs @ ys) = crc32_gzip_refl (crc32_gzip_refl c xs) ys"
  by (simp add: crc32_gzip_refl_def crc32_gzip_refl_base_def)

lemma crc32_gzip_Nil [simp]: "crc32_gzip_refl c [] = c"
  by (simp add: crc32_gzip_refl_def crc32_gzip_refl_base_def)

lemma take_drop_split: "a \<le> b \<Longrightarrow> b \<le> c \<Longrightarrow> take (c - a) (drop a xs) = take (b - a) (drop a xs) @ take (c - b) (drop b xs)"
proof -
  assume le: "a \<le> b" "b \<le> c"
  have "take (c - a) (drop a xs) = take (b - a + (c - b)) (drop a xs)" using le by simp
  also have "\<dots> = take (b - a) (drop a xs) @ take (c - b) (drop (b - a) (drop a xs))" by (rule take_add)
  finally show ?thesis using le by (simp add: drop_drop)
qed

lemma hdr_crc_consumes:
  assumes "hdr_ok s" "st \<le> next_in s" "consumes s s2"
  shows "hdr_crc c st s2 = crc32_gzip_refl (hdr_crc c st s) (take (avail_in s - avail_in s2) (avail_bytes s))"
proof -
  have "next_in s \<le> next_in s2" "in_buf s2 = in_buf s" "next_in s2 - next_in s = avail_in s - avail_in s2"
    using assms by (auto simp: consumes_def)
  then show ?thesis
    using take_drop_split [OF assms(2), of "next_in s2" "in_buf s"] assms(1)
    by (simp add: hdr_crc_def avail_bytes_ok crc32_gzip_append)
qed

text \<open>Two contexts of a field: the bytes are the same, and so is the checksum when there is one.\<close>

definition ctx :: "u32 \<Rightarrow> u32 \<Rightarrow> nat \<Rightarrow> inflate_state \<Rightarrow> u32 \<Rightarrow> nat \<Rightarrow> inflate_state \<Rightarrow> bool" where
  "ctx fl c st s c' st' t \<longleftrightarrow> same s t \<and> st \<le> next_in s \<and> st' \<le> next_in t
    \<and> (fl AND HCRC_FLAG \<noteq> 0 \<longrightarrow> hdr_crc c st s = hdr_crc c' st' t)"

lemma ctx_step:
  assumes "ctx fl c st s c' st' t" "same s2 t2" "consumes s s2" "consumes t t2"
  shows "ctx fl c st s2 c' st' t2"
  using assms hdr_crc_consumes [of s st s2 c] hdr_crc_consumes [of t st' t2 c'] same_fields [of s t] same_fields [of s2 t2]
  by (auto simp: ctx_def) (auto simp: consumes_def)

lemma ctx_resume:
  assumes ok: "hdr_ok s" and st: "st \<le> next_in s" and s1: "consumes s s1" "avail_in s1 = 0"
    and t: "same s2 t2" "consumes (feed ys s1) s2" "consumes (more ys s) t2"
  shows "ctx fl (hdr_crc c st s1) 0 s2 c st t2"
proof -
  have le: "next_in s2 \<le> length ys" and av: "avail_in s2 = length ys - next_in s2" and ib: "in_buf s2 = ys"
    using t(2) by (auto simp: consumes_def)
  have "next_in t2 + avail_in s2 = length (in_buf s) + length ys" and ib2: "in_buf t2 = in_buf s @ ys"
    using t(3) same_fields(5) [OF t(1)] ok by (auto simp: consumes_def hdr_ok_def)
  then have n: "next_in t2 = length (in_buf s) + next_in s2" using le av by simp
  have st': "st \<le> length (in_buf s)" using st ok by (simp add: hdr_ok_def)
  have n1: "next_in s1 = length (in_buf s)" "in_buf s1 = in_buf s" using s1 ok by (auto simp: consumes_def hdr_ok_def)
  have "hdr_crc c st t2 = crc32_gzip_refl c (drop st (in_buf s) @ take (next_in s2) ys)"
    using st' by (simp add: hdr_crc_def ib2 n)
  also have "\<dots> = hdr_crc (hdr_crc c st s1) 0 s2" by (simp add: hdr_crc_def ib n1 crc32_gzip_append)
  finally show ?thesis using t(1) st' by (simp add: ctx_def n)
qed

section \<open>One field of the header\<close>

definition eqh :: "isal_gzip_header \<Rightarrow> isal_gzip_header \<Rightarrow> bool" where
  "eqh h h' \<longleftrightarrow> h' = h\<lparr>gz_hcrc := gz_hcrc h'\<rparr>"

text \<open>Results that agree: a negative return code keeps the block state of the call.\<close>

definition gz_rel :: "gzip_result \<Rightarrow> gzip_result \<Rightarrow> bool" where
  "gz_rel = rel_option (\<lambda>(r, s, h) (r', s', h'). r = r' \<and> same s s' \<and> eqh h h'
    \<and> (0 \<le> r \<longrightarrow> block_state s = block_state s')
    \<and> (0 < r \<and> (block_state s = ISAL_BLOCK_NEW_HDR \<or> gz_flags h AND HCRC_FLAG \<noteq> 0) \<longrightarrow> gz_hcrc h = gz_hcrc h'))"

lemma gz_rel_None [simp]: "gz_rel None None"
  by (simp add: gz_rel_def)

lemma eqh_refl [simp]: "eqh h h"
  by (simp add: eqh_def)

lemma eqh_upd [simp]:
  "eqh h h' \<Longrightarrow> eqh (h\<lparr>gz_hcrc := c\<rparr>) h'" "eqh h h' \<Longrightarrow> eqh h (h'\<lparr>gz_hcrc := c\<rparr>)"
  "eqh h h' \<Longrightarrow> eqh (h\<lparr>gz_name := n\<rparr>) (h'\<lparr>gz_name := n\<rparr>)" "eqh h h' \<Longrightarrow> eqh (h\<lparr>gz_comment := n\<rparr>) (h'\<lparr>gz_comment := n\<rparr>)"
  "eqh h h' \<Longrightarrow> eqh (h\<lparr>gz_extra := n\<rparr>) (h'\<lparr>gz_extra := n\<rparr>)" "eqh h h' \<Longrightarrow> eqh (h\<lparr>gz_extra_len := k\<rparr>) (h'\<lparr>gz_extra_len := k\<rparr>)"
  by (cases h; cases h'; auto simp: eqh_def)+

lemma eqh_again:
  "eqh (h\<lparr>gz_name := n\<rparr>) h' \<Longrightarrow> eqh (h'\<lparr>gz_name := k\<rparr>) (h\<lparr>gz_name := k\<rparr>)"
  "eqh (h\<lparr>gz_comment := n\<rparr>) h' \<Longrightarrow> eqh (h'\<lparr>gz_comment := k\<rparr>) (h\<lparr>gz_comment := k\<rparr>)"
  "eqh (h\<lparr>gz_extra := n\<rparr>) h' \<Longrightarrow> eqh (h'\<lparr>gz_extra := k\<rparr>) (h\<lparr>gz_extra := k\<rparr>)"
  "eqh h h' \<Longrightarrow> eqh (h'\<lparr>gz_extra_len := m\<rparr>) (h\<lparr>gz_extra_len := m\<rparr>)" "eqh h h' \<Longrightarrow> eqh h' h"
  by (cases h; cases h'; auto simp: eqh_def)+

lemma eqh_fields:
  assumes "eqh h h'"
  shows "gz_name h' = gz_name h" "gz_comment h' = gz_comment h" "gz_extra h' = gz_extra h" "gz_flags h' = gz_flags h"
    "gz_name_buf_len h' = gz_name_buf_len h" "gz_comment_buf_len h' = gz_comment_buf_len h"
    "gz_extra_buf_len h' = gz_extra_buf_len h" "gz_extra_len h' = gz_extra_len h"
  by (use assms in \<open>cases h; cases h'; simp add: eqh_def\<close>)+

definition field_stage :: "(int \<times> 'b \<times> inflate_state) option \<Rightarrow> isal_block_state \<Rightarrow> nat \<Rightarrow> u32 \<Rightarrow> u32 \<Rightarrow>
    ('b \<Rightarrow> isal_gzip_header) \<Rightarrow> ('b \<Rightarrow> inflate_state \<Rightarrow> gzip_result) \<Rightarrow> gzip_result" where
  "field_stage P p st fl c hb g = do {
     (r, b, s2) \<leftarrow> P;
     if r \<noteq> 0 then gzip_break st fl c r (s2\<lparr>block_state := p\<rparr>) (hb b) else g b s2
   }"

lemma hdr_crc_block_state [simp]: "hdr_crc c st (s\<lparr>block_state := b\<rparr>) = hdr_crc c st s"
  by (simp add: hdr_crc_def)

lemma gzip_break_rel:
  assumes "ctx fl c st s c' st' t" "eqh h h'" "gz_flags h = fl" "p \<noteq> ISAL_BLOCK_NEW_HDR"
  shows "gz_rel (gzip_break st fl c r (s\<lparr>block_state := p\<rparr>) h) (gzip_break st' fl c' r (t\<lparr>block_state := p\<rparr>) h')"
  using assms same_upd(1) [of s t p p] by (auto simp: gzip_break_def gz_rel_def ctx_def)

lemma field_stage_rel:
  assumes P: "prim_rel P Q" and p: "p \<noteq> ISAL_BLOCK_NEW_HDR" and h: "\<And>b. eqh (hb b) (hb' b)" "\<And>b. gz_flags (hb b) = fl"
    and c: "\<And>r b s2 t2. P = Some (r, b, s2) \<Longrightarrow> Q = Some (r, b, t2) \<Longrightarrow> same s2 t2 \<Longrightarrow> ctx fl c st s2 c' st' t2"
    and g: "\<And>b s2 t2. P = Some (0, b, s2) \<Longrightarrow> ctx fl c st s2 c' st' t2 \<Longrightarrow> gz_rel (g b s2) (g' b t2)"
  shows "gz_rel (field_stage P p st fl c hb g) (field_stage Q p st' fl c' hb' g')"
proof (cases P)
  case None
  then show ?thesis using P by (simp add: prim_rel_def field_stage_def)
next
  case (Some x)
  obtain r b s2 where x: "x = (r, b, s2)" by (cases x)
  then obtain t2 where q: "Q = Some (r, b, t2)" and s: "same s2 t2"
    using P Some by (auto simp: prim_rel_def option_rel_Some1)
  have "ctx fl c st s2 c' st' t2" using c Some x q s by blast
  then show ?thesis
    using Some x q g gzip_break_rel [OF _ h(1) h(2) p] by (simp add: field_stage_def)
qed

text \<open>Resuming: the header on the left was read with the input that \<open>ys\<close> goes on from.\<close>

definition resumes :: "u8 list \<Rightarrow> gzip_result \<Rightarrow> gzip_result \<Rightarrow> bool" where
  "resumes ys X Y \<longleftrightarrow>
    (\<forall>s1 h1. X = Some (ISAL_END_INPUT, s1, h1) \<longrightarrow> gz_rel (isal_read_gzip_header (feed ys s1) h1) Y)"

lemma field_stage_resumes:
  assumes m: "\<And>b s2. P = Some (0, b, s2) \<Longrightarrow> Q = Some (0, b, more ys s2)"
    and e: "\<And>b s2 h1. P = Some (ISAL_END_INPUT, b, s2) \<Longrightarrow> eqh (hb b) h1
      \<Longrightarrow> (fl AND HCRC_FLAG \<noteq> 0 \<Longrightarrow> gz_hcrc h1 = hdr_crc c st s2)
      \<Longrightarrow> gz_rel (isal_read_gzip_header (feed ys (s2\<lparr>block_state := p\<rparr>)) h1) (field_stage Q p st fl c hb g')"
    and g: "\<And>b s2. P = Some (0, b, s2) \<Longrightarrow> resumes ys (g b s2) (g' b (more ys s2))"
  shows "resumes ys (field_stage P p st fl c hb g) (field_stage Q p st fl c hb g')"
  unfolding resumes_def
proof (intro allI impI)
  fix s1 h1 assume r: "field_stage P p st fl c hb g = Some (ISAL_END_INPUT, s1, h1)"
  then obtain k b s2 where P: "P = Some (k, b, s2)" by (auto simp: field_stage_def bind_eq_Some_conv)
  show "gz_rel (isal_read_gzip_header (feed ys s1) h1) (field_stage Q p st fl c hb g')"
  proof (cases "k = 0")
    case True
    then show ?thesis using r P m g by (simp add: field_stage_def resumes_def)
  next
    case False
    then have "k = ISAL_END_INPUT" "s1 = s2\<lparr>block_state := p\<rparr>"
      "h1 = (if fl AND HCRC_FLAG \<noteq> 0 then (hb b)\<lparr>gz_hcrc := hdr_crc c st s2\<rparr> else hb b)"
      using r P by (auto simp: field_stage_def gzip_break_def)
    then show ?thesis using e P by simp
  qed
qed

lemma gzip_done_rel: "same s t \<Longrightarrow> eqh h h' \<Longrightarrow> gz_rel (gzip_done s h) (gzip_done t h')"
  using same_upd(1) [of "s\<lparr>wrapper_flag := True\<rparr>" "t\<lparr>wrapper_flag := True\<rparr>" ISAL_BLOCK_NEW_HDR ISAL_BLOCK_NEW_HDR]
    same_upd(3) [of s t True]
  by (simp add: gzip_done_def gz_rel_def ISAL_DECOMP_OK_def)

lemma gzip_done_resumes: "resumes ys (gzip_done s h) Y"
  by (simp add: resumes_def gzip_done_def ISAL_DECOMP_OK_def ISAL_END_INPUT_def)

lemma gzip_hcrc_rel:
  assumes P: "prim_rel (fixed_size_read s GZIP_HCRC_LEN) (fixed_size_read t GZIP_HCRC_LEN)" and h: "eqh h h'"
    and c: "gz_hcrc h = c" "gz_hcrc h' = c"
  shows "gz_rel (gzip_hcrc_case c s h) (gzip_hcrc_case c t h')"
proof (cases "fixed_size_read s GZIP_HCRC_LEN")
  case None
  then show ?thesis using P by (simp add: prim_rel_def gzip_hcrc_case_def)
next
  case (Some x)
  obtain r b s2 where x: "x = (r, b, s2)" by (cases x)
  then obtain t2 where q: "fixed_size_read t GZIP_HCRC_LEN = Some (r, b, t2)" and s: "same s2 t2"
    using P Some by (auto simp: prim_rel_def option_rel_Some1)
  show ?thesis
  proof (cases "r \<noteq> 0 \<or> c AND 0xffff \<noteq> ucast (load_le_u16 b)")
    case True
    then show ?thesis
      using Some x q s h c same_upd(1) [OF s] by (auto simp: gzip_hcrc_case_def gz_rel_def ISAL_INCORRECT_CHECKSUM_def)
  next
    case False
    then show ?thesis using Some x q gzip_done_rel [OF s h] by (simp add: gzip_hcrc_case_def)
  qed
qed

lemma gzip_flag_hcrc_rel:
  assumes "ctx fl c st s c' st' t" "eqh h h'"
  shows "gz_rel (gzip_flag_hcrc st fl c s h) (gzip_flag_hcrc st' fl c' t h')"
proof -
  have s: "same s t" using assms(1) by (simp add: ctx_def)
  show ?thesis
  proof (cases "fl AND HCRC_FLAG = 0")
    case True
    then show ?thesis using gzip_done_rel [OF s assms(2)] by (simp add: gzip_flag_hcrc_def)
  next
    case False
    then have "hdr_crc c' st' t = hdr_crc c st s" using assms(1) by (simp add: ctx_def)
    moreover have "prim_rel (fixed_size_read s GZIP_HCRC_LEN) (fixed_size_read t GZIP_HCRC_LEN)"
      using s by (rule fixed_size_read_same) (simp add: GZIP_HCRC_LEN_def)
    ultimately show ?thesis
      using False assms(2) gzip_hcrc_rel [of s t "h\<lparr>gz_hcrc := hdr_crc c st s\<rparr>" "h'\<lparr>gz_hcrc := hdr_crc c st s\<rparr>"]
      by (simp add: gzip_flag_hcrc_def)
  qed
qed

subsection \<open>The fields as stages\<close>

lemma gzip_comment_stage:
  "gzip_comment_case st fl c s h = field_stage
    (string_header_copy s (gz_comment h) (gz_comment_buf_len h) (type0_block_len s) ISAL_COMMENT_OVERFLOW)
    ISAL_GZIP_COMMENT st fl c (\<lambda>b. h\<lparr>gz_comment := b\<rparr>) (\<lambda>b s2. gzip_flag_hcrc st fl c s2 (h\<lparr>gz_comment := b\<rparr>))"
  by (simp add: gzip_comment_case_def field_stage_def Let_def)

lemma gzip_name_stage:
  "gzip_name_case st fl c s h = field_stage
    (string_header_copy s (gz_name h) (gz_name_buf_len h) (type0_block_len s) ISAL_NAME_OVERFLOW)
    ISAL_GZIP_NAME st fl c (\<lambda>b. h\<lparr>gz_name := b\<rparr>) (\<lambda>b s2. gzip_flag_comment st fl c s2 (h\<lparr>gz_name := b\<rparr>))"
  by (simp add: gzip_name_case_def field_stage_def Let_def)

lemma gzip_extra_stage:
  "gzip_extra_case cnt st fl c s h = field_stage
    (buffer_header_copy s (unat cnt) (gz_extra h) (gz_extra_buf_len h) (gz_extra_len h - cnt) ISAL_EXTRA_OVERFLOW)
    ISAL_GZIP_EXTRA st fl c (\<lambda>b. h\<lparr>gz_extra := b\<rparr>) (\<lambda>b s2. gzip_flag_name st fl c s2 (h\<lparr>gz_extra := b\<rparr>))"
  by (simp add: gzip_extra_case_def field_stage_def Let_def)

lemma gzip_extra_len_stage:
  "gzip_extra_len_case st fl c s h = field_stage (fixed_size_read s GZIP_EXTRA_LEN) ISAL_GZIP_EXTRA_LEN st fl c (\<lambda>b. h)
    (\<lambda>b s2. gzip_extra_case (ucast (load_le_u16 b)) st fl c s2 (h\<lparr>gz_extra_len := ucast (load_le_u16 b)\<rparr>))"
  unfolding gzip_extra_len_case_def field_stage_def Let_def by (rule refl)

lemma ctx_same: "ctx fl c st s c' st' t \<Longrightarrow> same s t \<and> hdr_ok s \<and> hdr_ok t \<and> type0_block_len t = type0_block_len s"
  using same_fields [of s t] by (simp add: ctx_def)

lemma gzip_comment_rel:
  assumes c: "ctx fl c st s c' st' t" and h: "eqh h h'" "gz_flags h = fl"
  shows "gz_rel (gzip_comment_case st fl c s h) (gzip_comment_case st' fl c' t h')"
  unfolding gzip_comment_stage eqh_fields [OF h(1)] ctx_same [OF c, THEN conjunct2, THEN conjunct2, THEN conjunct2]
proof (rule field_stage_rel, goal_cases)
  case 1
  show ?case using ctx_same [OF c] by (blast intro: string_header_copy_same)
next
  case (5 r b s2 t2)
  then show ?case using string_header_copy_consumes ctx_same [OF c] ctx_step [OF c] by blast
next
  case (6 b s2 t2)
  then show ?case using h by (intro gzip_flag_hcrc_rel) simp_all
qed (use h in simp_all)

lemma gzip_flag_comment_rel:
  assumes "ctx fl c st s c' st' t" "eqh h h'" "gz_flags h = fl"
  shows "gz_rel (gzip_flag_comment st fl c s h) (gzip_flag_comment st' fl c' t h')"
  using gzip_comment_rel [OF assms] gzip_flag_hcrc_rel [OF assms(1,2)] by (simp add: gzip_flag_comment_def)

lemma gzip_name_rel:
  assumes c: "ctx fl c st s c' st' t" and h: "eqh h h'" "gz_flags h = fl"
  shows "gz_rel (gzip_name_case st fl c s h) (gzip_name_case st' fl c' t h')"
  unfolding gzip_name_stage eqh_fields [OF h(1)] ctx_same [OF c, THEN conjunct2, THEN conjunct2, THEN conjunct2]
proof (rule field_stage_rel, goal_cases)
  case 1
  show ?case using ctx_same [OF c] by (blast intro: string_header_copy_same)
next
  case (5 r b s2 t2)
  then show ?case using string_header_copy_consumes ctx_same [OF c] ctx_step [OF c] by blast
next
  case (6 b s2 t2)
  then show ?case using h by (intro gzip_flag_comment_rel) simp_all
qed (use h in simp_all)

lemma gzip_flag_name_rel:
  assumes "ctx fl c st s c' st' t" "eqh h h'" "gz_flags h = fl"
  shows "gz_rel (gzip_flag_name st fl c s h) (gzip_flag_name st' fl c' t h')"
  using gzip_name_rel [OF assms] gzip_flag_comment_rel [OF assms] by (simp add: gzip_flag_name_def)

lemma gzip_extra_rel:
  assumes c: "ctx fl c st s c' st' t" and h: "eqh h h'" "gz_flags h = fl"
  shows "gz_rel (gzip_extra_case cnt st fl c s h) (gzip_extra_case cnt st' fl c' t h')"
  unfolding gzip_extra_stage eqh_fields [OF h(1)]
proof (rule field_stage_rel, goal_cases)
  case 1
  show ?case using ctx_same [OF c] by (blast intro: buffer_header_copy_same)
next
  case (5 r b s2 t2)
  then show ?case using buffer_header_copy_consumes ctx_same [OF c] ctx_step [OF c] by blast
next
  case (6 b s2 t2)
  then show ?case using h by (intro gzip_flag_name_rel) simp_all
qed (use h in simp_all)

section \<open>Resuming each field\<close>

text \<open>A resumed field continues in the same context: what a stage on \<open>more ys s\<close> and its resumption
  on \<open>feed ys s1\<close> need.\<close>

lemma feed_block_state: "feed ys (s\<lparr>block_state := p\<rparr>) = (feed ys s)\<lparr>block_state := p\<rparr>"
  by (simp add: feed_def)

lemma same_trans:
  assumes "same a b" "same b c"
  shows "same a c"
proof -
  obtain ib ni tb bst where c: "c = b\<lparr>in_buf := ib, next_in := ni, tmp_in_buffer := tb, block_state := bst\<rparr>"
    using assms(2) by (rule sameE)
  obtain ib' ni' tb' bst' where b: "b = a\<lparr>in_buf := ib', next_in := ni', tmp_in_buffer := tb', block_state := bst'\<rparr>"
    using assms(1) by (rule sameE)
  show ?thesis
    by (rule sameI [where ib = ib and ni = ni and tb = tb and bst = bst])
      (use same_fields [OF assms(1)] same_fields [OF assms(2)] in simp_all, simp add: b c)
qed

lemma prim_rel_trans: "prim_rel P Q \<Longrightarrow> prim_rel Q R \<Longrightarrow> prim_rel P R"
  by (cases P; cases Q; cases R) (auto simp: prim_rel_def intro: same_trans)

lemma string_header_copy_end:
  assumes "string_header_copy s buf sl off err = Some (ISAL_END_INPUT, b, s2)" "hdr_ok s" "err \<noteq> ISAL_END_INPUT"
  shows "avail_in s2 = 0"
proof (cases buf)
  case None
  then show ?thesis using assms by (auto simp: string_header_copy_None Let_def ISAL_END_INPUT_def split: if_splits)
next
  case (Some b0)
  then show ?thesis using assms by (auto simp: str_copy_Some bind_eq_Some_conv ISAL_END_INPUT_def split: if_splits)
qed

lemma buffer_header_copy_end:
  assumes "buffer_header_copy s n buf bl off err = Some (ISAL_END_INPUT, b, s2)" "hdr_ok s" "err \<noteq> ISAL_END_INPUT"
  shows "avail_in s2 = 0"
proof (cases buf)
  case None
  then show ?thesis using assms by (auto simp: buffer_header_copy_None Let_def ISAL_END_INPUT_def min_def split: if_splits)
next
  case (Some b0)
  then show ?thesis using assms
    by (auto simp: buffer_header_copy_Some ISAL_END_INPUT_def min_def split: if_splits)
qed

text \<open>The whole of a stage that was resumed, from the agreement of its field.\<close>

lemma field_stage_resumed:
  assumes P: "prim_rel P Q" and p: "p \<noteq> ISAL_BLOCK_NEW_HDR" and h: "\<And>b. eqh (hb b) (hb' b)" "\<And>b. gz_flags (hb b) = fl"
    and ok: "hdr_ok s" "st \<le> next_in s" and u_end: "consumes s u" "avail_in u = 0"
    and d_crc: "fl AND HCRC_FLAG \<noteq> 0 \<Longrightarrow> d = hdr_crc c st u"
    and cP: "\<And>r b s2. P = Some (r, b, s2) \<Longrightarrow> consumes (feed ys u) s2"
    and cQ: "\<And>r b t2. Q = Some (r, b, t2) \<Longrightarrow> consumes (more ys s) t2"
    and g: "\<And>b s2 t2. ctx fl d 0 s2 c st t2 \<Longrightarrow> gz_rel (g b s2) (g' b t2)"
  shows "gz_rel (field_stage P p 0 fl d hb g) (field_stage Q p st fl c hb' g')"
proof (rule field_stage_rel [OF P p h], goal_cases)
  case (1 r b s2 t2)
  have "ctx fl (hdr_crc c st u) 0 s2 c st t2" using ctx_resume [OF ok u_end 1(3) cP [OF 1(1)] cQ [OF 1(2)]] .
  then show ?case using d_crc by (auto simp: ctx_def)
qed (use g in blast)

lemma same_block: "hdr_ok s \<Longrightarrow> same (s\<lparr>block_state := p\<rparr>) s"
  using same_upd(1) [OF same_refl, of s p "block_state s"] by simp

lemma fixed_resumed:
  assumes e: "fixed_size_read s n = Some (ISAL_END_INPUT, b, s2)" and ok: "hdr_ok s" and n: "n \<le> 328"
  shows "prim_rel (fixed_size_read (feed ys (s2\<lparr>block_state := p\<rparr>)) n) (fixed_size_read (more ys s) n)"
    "consumes s s2" "avail_in s2 = 0" "hdr_ok (feed ys (s2\<lparr>block_state := p\<rparr>))"
proof -
  have lt: "avail_in s + tmp_in_size s < n" and s2: "s2 = fsr_end s"
    using e ok n by (auto simp: fixed_size_read ISAL_END_INPUT_def split: if_splits)
  have f: "hdr_ok (feed ys s2)" "avail_in s2 = 0" using fsr_end [OF ok] lt n by (simp_all add: s2)
  have "prim_rel (fixed_size_read ((feed ys s2)\<lparr>block_state := p\<rparr>) n) (fixed_size_read (feed ys s2) n)"
    using same_block [OF f(1)] n by (rule fixed_size_read_same)
  then show "prim_rel (fixed_size_read (feed ys (s2\<lparr>block_state := p\<rparr>)) n) (fixed_size_read (more ys s) n)"
    using fixed_size_read_resume [OF ok n lt, of ys] by (auto simp: feed_block_state s2 intro: prim_rel_trans)
  show "consumes s s2" using fixed_size_read_consumes [OF e ok n] .
  show "avail_in s2 = 0" "hdr_ok (feed ys (s2\<lparr>block_state := p\<rparr>))" using f by (simp_all add: feed_block_state)
qed

lemma string_resumed:
  assumes e: "string_header_copy s buf sl (type0_block_len s) err = Some (ISAL_END_INPUT, b, s2)" and ok: "hdr_ok s"
    and err: "err \<noteq> ISAL_END_INPUT" and small: "small_buf buf"
  shows "prim_rel (string_header_copy (feed ys (s2\<lparr>block_state := p\<rparr>)) b sl (type0_block_len s2) err)
    (string_header_copy (more ys s) buf sl (type0_block_len s) err)"
    "consumes s s2" "avail_in s2 = 0" "hdr_ok (feed ys (s2\<lparr>block_state := p\<rparr>))"
proof -
  show c: "consumes s s2" using string_header_copy_consumes [OF e ok] by blast
  then have f: "hdr_ok (feed ys s2)" using ok by (simp add: consumes_def hdr_ok_def)
  have "prim_rel (string_header_copy ((feed ys s2)\<lparr>block_state := p\<rparr>) b sl (type0_block_len s2) err)
      (string_header_copy (feed ys s2) b sl (type0_block_len s2) err)"
    using same_block [OF f] by (rule string_header_copy_same)
  then show "prim_rel (string_header_copy (feed ys (s2\<lparr>block_state := p\<rparr>)) b sl (type0_block_len s2) err)
    (string_header_copy (more ys s) buf sl (type0_block_len s) err)"
    using string_header_copy_resume [OF e ok err small, of ys] by (auto simp: feed_block_state intro: prim_rel_trans)
  show "avail_in s2 = 0" using string_header_copy_end [OF e ok err] .
  show "hdr_ok (feed ys (s2\<lparr>block_state := p\<rparr>))" using f by (simp add: feed_block_state)
qed

lemma buffer_resumed:
  assumes e: "buffer_header_copy s (unat cnt) buf bl (el - cnt) err = Some (ISAL_END_INPUT, b, s2)" and ok: "hdr_ok s"
    and err: "err \<noteq> ISAL_END_INPUT" and small: "small_buf buf"
  shows "prim_rel (buffer_header_copy (feed ys (s2\<lparr>block_state := p\<rparr>)) (unat (type0_block_len s2)) b bl (el - type0_block_len s2) err)
    (buffer_header_copy (more ys s) (unat cnt) buf bl (el - cnt) err)"
    "consumes s s2" "avail_in s2 = 0" "hdr_ok (feed ys (s2\<lparr>block_state := p\<rparr>))"
proof -
  show c: "consumes s s2" using buffer_header_copy_consumes [OF e ok] by blast
  then have f: "hdr_ok (feed ys s2)" using ok by (simp add: consumes_def hdr_ok_def)
  have "prim_rel (buffer_header_copy ((feed ys s2)\<lparr>block_state := p\<rparr>) (unat (type0_block_len s2)) b bl (el - type0_block_len s2) err)
      (buffer_header_copy (feed ys s2) (unat (type0_block_len s2)) b bl (el - type0_block_len s2) err)"
    using same_block [OF f] by (rule buffer_header_copy_same)
  then show "prim_rel (buffer_header_copy (feed ys (s2\<lparr>block_state := p\<rparr>)) (unat (type0_block_len s2)) b bl (el - type0_block_len s2) err)
    (buffer_header_copy (more ys s) (unat cnt) buf bl (el - cnt) err)"
    using buffer_header_copy_resume [OF e ok err small, of ys] by (auto simp: feed_block_state intro: prim_rel_trans)
  show "avail_in s2 = 0" using buffer_header_copy_end [OF e ok err] .
  show "hdr_ok (feed ys (s2\<lparr>block_state := p\<rparr>))" using f by (simp add: feed_block_state)
qed

text \<open>Where the reader is: the buffer, the place the call began at, and the header.\<close>

definition at_field :: "nat \<Rightarrow> u32 \<Rightarrow> inflate_state \<Rightarrow> isal_gzip_header \<Rightarrow> bool" where
  "at_field st fl s h \<longleftrightarrow> hdr_ok s \<and> st \<le> next_in s \<and> gz_flags h = fl
    \<and> small_buf (gz_extra h) \<and> small_buf (gz_name h) \<and> small_buf (gz_comment h)"

lemma gzip_hcrc_resumes:
  assumes ok: "hdr_ok s" and c: "gz_hcrc h = c"
  shows "resumes ys (gzip_hcrc_case c s h) (gzip_hcrc_case c (more ys s) h)"
  unfolding resumes_def
proof (intro allI impI)
  fix s1 h1 assume r: "gzip_hcrc_case c s h = Some (ISAL_END_INPUT, s1, h1)"
  then obtain b s2 where e: "fixed_size_read s GZIP_HCRC_LEN = Some (ISAL_END_INPUT, b, s2)"
    and s1: "s1 = s2\<lparr>block_state := ISAL_GZIP_HCRC\<rparr>" "h1 = h"
    by (auto simp: gzip_hcrc_case_def gzip_done_def bind_eq_Some_conv ISAL_END_INPUT_def wrapper_consts split: if_splits)
  note f = fixed_resumed(1) [OF e ok, of ys ISAL_GZIP_HCRC]
  have "isal_read_gzip_header (feed ys s1) h1 = gzip_hcrc_case c (feed ys s1) h"
    by (simp add: isal_read_gzip_header_def s1 c Let_def)
  then show "gz_rel (isal_read_gzip_header (feed ys s1) h1) (gzip_hcrc_case c (more ys s) h)"
    using f s1 c by (simp add: gzip_hcrc_rel GZIP_HCRC_LEN_def)
qed

lemma gzip_flag_hcrc_resumes:
  assumes a: "at_field st fl s h"
  shows "resumes ys (gzip_flag_hcrc st fl c s h) (gzip_flag_hcrc st fl c (more ys s) h)"
proof (cases "fl AND HCRC_FLAG = 0")
  case True
  then show ?thesis by (simp add: gzip_flag_hcrc_def gzip_done_resumes)
next
  case False
  have ok: "hdr_ok s" and st: "next_in s \<le> length (in_buf s)" using a by (simp_all add: at_field_def hdr_ok_def)
  have "hdr_crc c st (more ys s) = hdr_crc c st s" using st a by (simp add: hdr_crc_def at_field_def)
  then show ?thesis using False gzip_hcrc_resumes [OF ok] by (simp add: gzip_flag_hcrc_def)
qed

lemma more_type0: "type0_block_len (more ys s) = type0_block_len s"
  by simp

lemma gzip_comment_resumes:
  assumes a: "at_field st fl s h"
  shows "resumes ys (gzip_comment_case st fl c s h) (gzip_comment_case st fl c (more ys s) h)"
  unfolding gzip_comment_stage more_type0
proof (rule field_stage_resumes, goal_cases)
  case (1 b s2)
  then show ?case using a by (intro string_header_copy_more) (auto simp: at_field_def ISAL_END_INPUT_def)
next
  case (2 b s2 h1)
  have err: "ISAL_COMMENT_OVERFLOW \<noteq> ISAL_END_INPUT" by (simp add: ISAL_COMMENT_OVERFLOW_def ISAL_END_INPUT_def)
  have ok: "hdr_ok s" "st \<le> next_in s" "gz_flags h = fl" "small_buf (gz_comment h)" using a by (simp_all add: at_field_def)
  let ?s1 = "s2\<lparr>block_state := ISAL_GZIP_COMMENT\<rparr>"
  note R = string_resumed [OF 2(1) ok(1) err ok(4)]
  note f = R(1) [of ys ISAL_GZIP_COMMENT] R(2,3) R(4) [of ys ISAL_GZIP_COMMENT]
  note h1 = eqh_fields [OF 2(2)]
  have eq: "isal_read_gzip_header (feed ys ?s1) h1 = gzip_comment_case 0 fl (gz_hcrc h1) (feed ys ?s1) h1"
    using h1 ok by (simp add: isal_read_gzip_header_def Let_def)
  show ?case unfolding eq gzip_comment_stage
  proof (rule field_stage_resumed [where u = ?s1 and s = s and ys = ys], goal_cases)
    case 1
    then show ?case using f(1) h1 by simp
  next
    case (10 r b s2)
    then show ?case using string_header_copy_consumes f(4) by blast
  next
    case (11 r b t2)
    then show ?case using string_header_copy_consumes ok by simp
  next
    case (12 b s2 t2)
    then show ?case using eqh_again(2) [OF 2(2)] by (intro gzip_flag_hcrc_rel)
  next
    case (3 b)
    then show ?case using eqh_again(2) [OF 2(2)] .
  qed (use 2(3) h1 ok f in \<open>simp_all add: consumes_def\<close>)
next
  case (3 b s2)
  have "consumes s s2" "small_buf b = small_buf (gz_comment h)" "hdr_ok s"
    using string_header_copy_consumes [OF 3] a by (simp_all add: at_field_def)
  then show ?case using a by (intro gzip_flag_hcrc_resumes) (auto simp: at_field_def consumes_def hdr_ok_def)
qed

lemma gzip_flag_comment_resumes:
  assumes "at_field st fl s h"
  shows "resumes ys (gzip_flag_comment st fl c s h) (gzip_flag_comment st fl c (more ys s) h)"
  using gzip_comment_resumes [OF assms] gzip_flag_hcrc_resumes [OF assms] by (simp add: gzip_flag_comment_def)

lemma gzip_name_resumes:
  assumes a: "at_field st fl s h"
  shows "resumes ys (gzip_name_case st fl c s h) (gzip_name_case st fl c (more ys s) h)"
  unfolding gzip_name_stage more_type0
proof (rule field_stage_resumes, goal_cases)
  case (1 b s2)
  then show ?case using a by (intro string_header_copy_more) (auto simp: at_field_def ISAL_END_INPUT_def)
next
  case (2 b s2 h1)
  have err: "ISAL_NAME_OVERFLOW \<noteq> ISAL_END_INPUT" by (simp add: ISAL_NAME_OVERFLOW_def ISAL_END_INPUT_def)
  have ok: "hdr_ok s" "st \<le> next_in s" "gz_flags h = fl" "small_buf (gz_name h)" using a by (simp_all add: at_field_def)
  let ?s1 = "s2\<lparr>block_state := ISAL_GZIP_NAME\<rparr>"
  note R = string_resumed [OF 2(1) ok(1) err ok(4)]
  note f = R(1) [of ys ISAL_GZIP_NAME] R(2,3) R(4) [of ys ISAL_GZIP_NAME]
  note h1 = eqh_fields [OF 2(2)]
  have eq: "isal_read_gzip_header (feed ys ?s1) h1 = gzip_name_case 0 fl (gz_hcrc h1) (feed ys ?s1) h1"
    using h1 ok by (simp add: isal_read_gzip_header_def Let_def)
  show ?case unfolding eq gzip_name_stage
  proof (rule field_stage_resumed [where u = ?s1 and s = s and ys = ys], goal_cases)
    case 1
    then show ?case using f(1) h1 by simp
  next
    case (10 r b s2)
    then show ?case using string_header_copy_consumes f(4) by blast
  next
    case (11 r b t2)
    then show ?case using string_header_copy_consumes ok by simp
  next
    case (12 b s2 t2)
    then show ?case using eqh_again(1) [OF 2(2)] by (intro gzip_flag_comment_rel) (use h1 ok in simp_all)
  next
    case (3 b)
    then show ?case using eqh_again(1) [OF 2(2)] .
  qed (use 2(3) h1 ok f in \<open>simp_all add: consumes_def\<close>)
next
  case (3 b s2)
  have "consumes s s2" "small_buf b = small_buf (gz_name h)" "hdr_ok s"
    using string_header_copy_consumes [OF 3] a by (simp_all add: at_field_def)
  then show ?case using a by (intro gzip_flag_comment_resumes) (auto simp: at_field_def consumes_def hdr_ok_def)
qed

lemma gzip_flag_name_resumes:
  assumes "at_field st fl s h"
  shows "resumes ys (gzip_flag_name st fl c s h) (gzip_flag_name st fl c (more ys s) h)"
  using gzip_name_resumes [OF assms] gzip_flag_comment_resumes [OF assms] by (simp add: gzip_flag_name_def)

lemma gzip_extra_resumes:
  assumes a: "at_field st fl s h"
  shows "resumes ys (gzip_extra_case cnt st fl c s h) (gzip_extra_case cnt st fl c (more ys s) h)"
  unfolding gzip_extra_stage
proof (rule field_stage_resumes, goal_cases)
  case (1 b s2)
  then show ?case using a by (intro buffer_header_copy_more) (auto simp: at_field_def ISAL_END_INPUT_def ISAL_EXTRA_OVERFLOW_def)
next
  case (2 b s2 h1)
  have err: "ISAL_EXTRA_OVERFLOW \<noteq> ISAL_END_INPUT" by (simp add: ISAL_EXTRA_OVERFLOW_def ISAL_END_INPUT_def)
  have ok: "hdr_ok s" "st \<le> next_in s" "gz_flags h = fl" "small_buf (gz_extra h)" using a by (simp_all add: at_field_def)
  let ?s1 = "s2\<lparr>block_state := ISAL_GZIP_EXTRA\<rparr>"
  note R = buffer_resumed [OF 2(1) ok(1) err ok(4)]
  note f = R(1) [of ys ISAL_GZIP_EXTRA] R(2,3) R(4) [of ys ISAL_GZIP_EXTRA]
  note h1 = eqh_fields [OF 2(2)]
  have eq: "isal_read_gzip_header (feed ys ?s1) h1 = gzip_extra_case (type0_block_len s2) 0 fl (gz_hcrc h1) (feed ys ?s1) h1"
    using h1 ok by (simp add: isal_read_gzip_header_def Let_def)
  show ?case unfolding eq gzip_extra_stage
  proof (rule field_stage_resumed [where u = ?s1 and s = s and ys = ys], goal_cases)
    case 1
    then show ?case using f(1) h1 by simp
  next
    case (10 r b s2)
    then show ?case using buffer_header_copy_consumes f(4) by blast
  next
    case (11 r b t2)
    then show ?case using buffer_header_copy_consumes ok by simp
  next
    case (12 b s2 t2)
    then show ?case using eqh_again(3) [OF 2(2)] by (intro gzip_flag_name_rel) (use h1 ok in simp_all)
  next
    case (3 b)
    then show ?case using eqh_again(3) [OF 2(2)] .
  qed (use 2(3) h1 ok f in \<open>simp_all add: consumes_def\<close>)
next
  case (3 b s2)
  have "consumes s s2" "small_buf b = small_buf (gz_extra h)" "hdr_ok s"
    using buffer_header_copy_consumes [OF 3] a by (simp_all add: at_field_def)
  then show ?case using a by (intro gzip_flag_name_resumes) (auto simp: at_field_def consumes_def hdr_ok_def)
qed

lemma gzip_extra_len_rel:
  assumes c: "ctx fl c st s c' st' t" and h: "eqh h h'" "gz_flags h = fl"
  shows "gz_rel (gzip_extra_len_case st fl c s h) (gzip_extra_len_case st' fl c' t h')"
  unfolding gzip_extra_len_stage eqh_fields [OF h(1)]
proof (rule field_stage_rel, goal_cases)
  case 1
  show ?case using ctx_same [OF c] by (intro fixed_size_read_same) (simp_all add: GZIP_EXTRA_LEN_def)
next
  case (5 r b s2 t2)
  have n: "GZIP_EXTRA_LEN \<le> 328" by (simp add: GZIP_EXTRA_LEN_def)
  show ?case
    using ctx_step [OF c 5(3)] fixed_size_read_consumes [OF 5(1) _ n] fixed_size_read_consumes [OF 5(2) _ n] ctx_same [OF c] by blast
next
  case (6 b s2 t2)
  then show ?case using h by (intro gzip_extra_rel) simp_all
qed (use h in simp_all)

lemma gzip_extra_len_resumes:
  assumes a: "at_field st fl s h"
  shows "resumes ys (gzip_extra_len_case st fl c s h) (gzip_extra_len_case st fl c (more ys s) h)"
  unfolding gzip_extra_len_stage
proof (rule field_stage_resumes, goal_cases)
  case (1 b s2)
  then show ?case using a by (intro fixed_size_read_more) (auto simp: at_field_def GZIP_EXTRA_LEN_def)
next
  case (2 b s2 h1)
  have n: "GZIP_EXTRA_LEN \<le> 328" by (simp add: GZIP_EXTRA_LEN_def)
  have ok: "hdr_ok s" "st \<le> next_in s" "gz_flags h = fl" using a by (simp_all add: at_field_def)
  let ?s1 = "s2\<lparr>block_state := ISAL_GZIP_EXTRA_LEN\<rparr>"
  note R = fixed_resumed [OF 2(1) ok(1) n]
  note f = R(1) [of ys ISAL_GZIP_EXTRA_LEN] R(2,3) R(4) [of ys ISAL_GZIP_EXTRA_LEN]
  note h1 = eqh_fields [OF 2(2)]
  have eq: "isal_read_gzip_header (feed ys ?s1) h1 = gzip_extra_len_case 0 fl (gz_hcrc h1) (feed ys ?s1) h1"
    using h1 ok by (simp add: isal_read_gzip_header_def Let_def)
  show ?case unfolding eq gzip_extra_len_stage
  proof (rule field_stage_resumed [where u = ?s1 and s = s and ys = ys], goal_cases)
    case 1
    then show ?case using f(1) .
  next
    case (3 b)
    then show ?case using eqh_again(5) [OF 2(2)] .
  next
    case (10 r b s2)
    then show ?case using fixed_size_read_consumes f(4) n by blast
  next
    case (11 r b t2)
    then show ?case using fixed_size_read_consumes ok n by simp
  next
    case (12 b s2 t2)
    then show ?case using eqh_again(4) [OF 2(2)] by (intro gzip_extra_rel) (use h1 ok in simp_all)
  qed (use 2(3) h1 ok f in \<open>simp_all add: consumes_def\<close>)
next
  case (3 b s2)
  have "hdr_ok s" using a by (simp add: at_field_def)
  then have "consumes s s2" using fixed_size_read_consumes [OF 3] by (simp add: GZIP_EXTRA_LEN_def)
  then show ?case using a by (intro gzip_extra_resumes) (auto simp: at_field_def consumes_def hdr_ok_def)
qed

section \<open>The first ten bytes\<close>

definition gzip_base :: "nat \<Rightarrow> u32 \<Rightarrow> u8 list \<Rightarrow> inflate_state \<Rightarrow> isal_gzip_header \<Rightarrow> gzip_result" where
  "gzip_base st c b s h =
    (let flags = ucast (b ! 3) :: u32; h = h\<lparr>gz_time := load_le_u32 (drop 4 b), gz_xflags := ucast (b ! 8), gz_os := ucast (b ! 9)\<rparr>
     in if b ! 0 \<noteq> 0x1f \<or> b ! 1 \<noteq> 0x8b then Some (ISAL_INVALID_WRAPPER, s, h)
        else if unat (b ! 2) \<noteq> DEFLATE_METHOD then Some (ISAL_UNSUPPORTED_METHOD, s, h)
        else
          let h = h\<lparr>gz_text := if flags AND TEXT_FLAG \<noteq> 0 then 1 else 0, gz_flags := flags\<rparr>
          in if flags AND EXTRA_FLAG \<noteq> 0 then gzip_extra_len_case st flags c s h
             else gzip_flag_name st flags c s (h\<lparr>gz_extra_len := 0\<rparr>))"

lemma gzip_new_hdr_base:
  "gzip_new_hdr_case st c s h = do {
     (r, b, s2) \<leftarrow> fixed_size_read (s\<lparr>type0_block_len := 0\<rparr>) GZIP_HDR_BASE;
     if r \<noteq> 0 then gzip_break st UNDEFINED_FLAG c r s2 h else gzip_base st c b s2 h
   }"
  unfolding gzip_new_hdr_case_def gzip_base_def by (rule refl)

lemma eqh_base:
  "eqh h h' \<Longrightarrow> eqh (h\<lparr>gz_time := a, gz_xflags := b, gz_os := d\<rparr>) (h'\<lparr>gz_time := a, gz_xflags := b, gz_os := d\<rparr>)"
  "eqh h h' \<Longrightarrow> eqh (h\<lparr>gz_text := e, gz_flags := f\<rparr>) (h'\<lparr>gz_text := e, gz_flags := f\<rparr>)"
  by (cases h; cases h'; auto simp: eqh_def)+

lemma ctx_undefined: "ctx UNDEFINED_FLAG c st s c' st' t \<Longrightarrow> ctx fl c st s c' st' t"
  by (simp add: ctx_def UNDEFINED_FLAG_def HCRC_FLAG_def)

lemma gzip_base_rel:
  assumes c: "ctx UNDEFINED_FLAG c st s c' st' t" and h: "eqh h h'"
  shows "gz_rel (gzip_base st c b s h) (gzip_base st' c' b t h')"
proof -
  define h2 h2' where "h2 = h\<lparr>gz_time := load_le_u32 (drop 4 b), gz_xflags := ucast (b ! 8), gz_os := ucast (b ! 9)\<rparr>"
    and "h2' = h'\<lparr>gz_time := load_le_u32 (drop 4 b), gz_xflags := ucast (b ! 8), gz_os := ucast (b ! 9)\<rparr>"
  have e: "eqh h2 h2'" using eqh_base(1) [OF h] by (simp add: h2_def h2'_def)
  have err: "gz_rel (Some (r, s, h2)) (Some (r, t, h2'))" if "r < 0" for r
    using that e ctx_same [OF c] by (simp add: gz_rel_def)
  let ?fl = "ucast (b ! 3) :: u32" and ?tx = "if ucast (b ! 3) AND TEXT_FLAG \<noteq> 0 then 1 else 0"
  have e3: "eqh (h2\<lparr>gz_text := ?tx, gz_flags := ?fl\<rparr>) (h2'\<lparr>gz_text := ?tx, gz_flags := ?fl\<rparr>)" using eqh_base(2) [OF e] .
  note ctx_undefined [OF c, of ?fl]
  from gzip_extra_len_rel [OF this e3] gzip_flag_name_rel [OF this eqh_upd(6) [OF e3, of 0]] show ?thesis
    using err by (simp add: gzip_base_def Let_def ISAL_INVALID_WRAPPER_def ISAL_UNSUPPORTED_METHOD_def flip: h2_def h2'_def)
qed

lemma gzip_base_resumes:
  assumes ok: "hdr_ok s" "st \<le> next_in s" and small: "small_buf (gz_extra h)" "small_buf (gz_name h)" "small_buf (gz_comment h)"
  shows "resumes ys (gzip_base st c b s h) (gzip_base st c b (more ys s) h)"
proof -
  define h2 where "h2 = h\<lparr>gz_time := load_le_u32 (drop 4 b), gz_xflags := ucast (b ! 8), gz_os := ucast (b ! 9)\<rparr>"
  let ?fl = "ucast (b ! 3) :: u32" and ?tx = "if ucast (b ! 3) AND TEXT_FLAG \<noteq> 0 then 1 else 0"
  have "at_field st ?fl s (h2\<lparr>gz_text := ?tx, gz_flags := ?fl\<rparr>)" "at_field st ?fl s (h2\<lparr>gz_text := ?tx, gz_flags := ?fl, gz_extra_len := 0\<rparr>)"
    using ok small by (simp_all add: at_field_def h2_def)
  from gzip_extra_len_resumes [OF this(1)] gzip_flag_name_resumes [OF this(2)] show ?thesis
    by (simp add: gzip_base_def Let_def flip: h2_def)
      (simp add: resumes_def ISAL_INVALID_WRAPPER_def ISAL_UNSUPPORTED_METHOD_def ISAL_END_INPUT_def)
qed

lemma fixed_size_read_block_state:
  "fixed_size_read s n = Some (r, b, s2) \<Longrightarrow> hdr_ok s \<Longrightarrow> n \<le> 328 \<Longrightarrow> block_state s2 = block_state s"
  by (auto simp: fixed_size_read fsr_end_def fsr_ok_def in_advance_def split: if_splits)

lemma gzip_new_hdr_resumes:
  assumes ok: "hdr_ok s" and nh: "block_state s = ISAL_BLOCK_NEW_HDR"
    and small: "small_buf (gz_extra h)" "small_buf (gz_name h)" "small_buf (gz_comment h)"
    and c: "c = (if tmp_in_size s = 0 then 0 else gz_hcrc h)"
  shows "resumes ys (gzip_new_hdr_case (next_in s) c s h) (gzip_new_hdr_case (next_in s) c (more ys s) h)"
  unfolding resumes_def
proof (intro allI impI)
  fix s1 h1 assume r: "gzip_new_hdr_case (next_in s) c s h = Some (ISAL_END_INPUT, s1, h1)"
  let ?s = "s\<lparr>type0_block_len := 0\<rparr>" and ?st = "next_in s"
  have n: "GZIP_HDR_BASE \<le> 328" by (simp add: GZIP_HDR_BASE_def)
  have oks: "hdr_ok ?s" using ok by simp
  have mo: "(more ys s)\<lparr>type0_block_len := 0\<rparr> = more ys ?s" by (simp add: more_def)
  obtain k b s2 where P: "fixed_size_read ?s GZIP_HDR_BASE = Some (k, b, s2)"
    using r by (auto simp: gzip_new_hdr_base bind_eq_Some_conv)
  note cons = fixed_size_read_consumes [OF P oks n]
  show "gz_rel (isal_read_gzip_header (feed ys s1) h1) (gzip_new_hdr_case ?st c (more ys s) h)"
  proof (cases "k = 0")
    case True
    have "hdr_ok s2" "?st \<le> next_in s2" using cons oks consumes_hdr_ok by (auto simp: consumes_def)
    then have "resumes ys (gzip_base ?st c b s2 h) (gzip_base ?st c b (more ys s2) h)"
      using small by (intro gzip_base_resumes)
    then show ?thesis using r P True fixed_size_read_more [of ?s GZIP_HDR_BASE b s2 ys] oks n
      by (simp add: gzip_new_hdr_base resumes_def mo)
  next
    case False
    then have k: "k = ISAL_END_INPUT" and s1: "s1 = s2" and h1: "h1 = h\<lparr>gz_hcrc := hdr_crc c ?st s2\<rparr>"
      using r P by (auto simp: gzip_new_hdr_base gzip_break_def UNDEFINED_FLAG_def HCRC_FLAG_def)
    have lt: "avail_in s + tmp_in_size s < GZIP_HDR_BASE" and s2: "s2 = fsr_end ?s"
      using P k oks n by (auto simp: fixed_size_read ISAL_END_INPUT_def split: if_splits)
    note fe = fsr_end [OF oks]
    have f: "avail_in s2 = 0" "block_state s2 = ISAL_BLOCK_NEW_HDR" "tmp_in_size s2 = tmp_in_size s + avail_in s"
      "type0_block_len s2 = 0" "hdr_ok s2" "next_in s2 = ?st + avail_in s"
      using fe lt nh by (simp_all add: s2 GZIP_HDR_BASE_def)
    let ?t = "feed ys s2"
    have t0: "?t\<lparr>type0_block_len := 0\<rparr> = ?t" using f(4) by simp
    have c2: "(if tmp_in_size ?t = 0 then 0 else gz_hcrc h1) = hdr_crc c ?st s2"
      using f c by (simp add: h1 hdr_crc_def)
    have eq: "isal_read_gzip_header ?t h1 = gzip_new_hdr_case 0 (hdr_crc c ?st s2) ?t h1"
      using c2 f by (simp add: isal_read_gzip_header_def Let_def)
    have okt: "hdr_ok ?t" using f(5) by (simp add: hdr_ok_def)
    have R: "prim_rel (fixed_size_read ?t GZIP_HDR_BASE) (fixed_size_read (more ys ?s) GZIP_HDR_BASE)"
      using fixed_size_read_resume [OF oks n, of ys] lt by (simp add: s2)
    show ?thesis
    proof (cases "fixed_size_read ?t GZIP_HDR_BASE")
      case None
      then show ?thesis using R by (simp add: s1 eq gzip_new_hdr_base t0 mo prim_rel_def)
    next
      case (Some x)
      obtain r' b' u where x: "x = (r', b', u)" by (cases x)
      then obtain v where v: "fixed_size_read (more ys ?s) GZIP_HDR_BASE = Some (r', b', v)" and uv: "same u v"
        using R Some by (auto simp: prim_rel_def option_rel_Some1)
      have cu: "consumes ?t u" using fixed_size_read_consumes [OF _ okt n] Some x by blast
      have cv: "consumes (more ys ?s) v" using fixed_size_read_consumes [OF v _ n] oks by simp
      have ctx: "ctx UNDEFINED_FLAG (hdr_crc c ?st s2) 0 u c ?st v"
        using ctx_resume [OF oks _ cons f(1) uv cu cv] by simp
      have "block_state u = block_state ?t" "block_state v = block_state (more ys ?s)"
        using fixed_size_read_block_state [OF _ okt n] fixed_size_read_block_state [OF v _ n] Some x oks by auto
      then have bs: "block_state u = ISAL_BLOCK_NEW_HDR" "block_state v = ISAL_BLOCK_NEW_HDR"
        using f(2) nh by simp_all
      show ?thesis
      proof (cases "r' = 0")
        case True
        then show ?thesis unfolding s1 eq gzip_new_hdr_base t0 mo
          using Some x v gzip_base_rel [OF ctx, of h1 h b'] by (simp add: h1)
      next
        case False
        then show ?thesis unfolding s1 eq gzip_new_hdr_base t0 mo
          using Some x v uv ctx bs by (simp add: h1 gzip_break_def gz_rel_def ctx_def UNDEFINED_FLAG_def HCRC_FLAG_def)
      qed
    qed
  qed
qed

lemma isal_read_gzip_header_resumes:
  assumes ok: "hdr_ok s" and small: "small_buf (gz_extra h)" "small_buf (gz_name h)" "small_buf (gz_comment h)"
  shows "resumes ys (isal_read_gzip_header s h) (isal_read_gzip_header (more ys s) h)"
proof -
  have a: "at_field (next_in s) (gz_flags h) s h" using ok small by (simp add: at_field_def)
  have n: "resumes ys (gzip_break st fl c 0 s h) Y" for st fl c Y
    by (simp add: resumes_def gzip_break_def ISAL_END_INPUT_def)
  note l = gzip_new_hdr_resumes [OF ok _ small refl, of ys] gzip_extra_len_resumes [OF a, of ys] gzip_extra_resumes [OF a, of ys]
    gzip_name_resumes [OF a, of ys] gzip_comment_resumes [OF a, of ys] gzip_hcrc_resumes [OF ok refl, of ys]
  show ?thesis
    by (cases "block_state s") (simp_all add: isal_read_gzip_header_def Let_def n l)
qed

section \<open>The reader stays inside its buffers\<close>

text \<open>The buffers of a header are as long as it says, and the place in a field that was not complete
  is inside the field.\<close>

definition gz_bufs :: "isal_gzip_header \<Rightarrow> bool" where
  "gz_bufs h \<longleftrightarrow> (\<forall>b. gz_extra h = Some b \<longrightarrow> unat (gz_extra_buf_len h) \<le> length b)
    \<and> (\<forall>b. gz_name h = Some b \<longrightarrow> unat (gz_name_buf_len h) \<le> length b)
    \<and> (\<forall>b. gz_comment h = Some b \<longrightarrow> unat (gz_comment_buf_len h) \<le> length b)"

definition gz_wf :: "inflate_state \<Rightarrow> isal_gzip_header \<Rightarrow> bool" where
  "gz_wf s h \<longleftrightarrow> hdr_ok s \<and> gz_bufs h \<and>
    (case block_state s of
       ISAL_BLOCK_NEW_HDR \<Rightarrow> tmp_in_size s < GZIP_HDR_BASE
     | ISAL_GZIP_EXTRA_LEN \<Rightarrow> tmp_in_size s < GZIP_EXTRA_LEN
     | ISAL_GZIP_EXTRA \<Rightarrow> tmp_in_size s = 0 \<and> type0_block_len s \<le> gz_extra_len h
         \<and> (gz_extra h \<noteq> None \<longrightarrow> gz_extra_len h - type0_block_len s \<le> gz_extra_buf_len h)
     | ISAL_GZIP_NAME \<Rightarrow> tmp_in_size s = 0 \<and> (gz_name h \<noteq> None \<longrightarrow> type0_block_len s \<le> gz_name_buf_len h)
     | ISAL_GZIP_COMMENT \<Rightarrow> tmp_in_size s = 0 \<and> (gz_comment h \<noteq> None \<longrightarrow> type0_block_len s \<le> gz_comment_buf_len h)
     | ISAL_GZIP_HCRC \<Rightarrow> tmp_in_size s < GZIP_HCRC_LEN
     | _ \<Rightarrow> True)"

definition gz_total :: "gzip_result \<Rightarrow> bool" where
  "gz_total X \<longleftrightarrow> (\<exists>r s h. X = Some (r, s, h) \<and> (0 \<le> r \<longrightarrow> gz_wf s h))"

lemma gz_total_Some [simp]: "gz_total (Some (r, s, h)) \<longleftrightarrow> (0 \<le> r \<longrightarrow> gz_wf s h)"
  by (simp add: gz_total_def)

lemma gz_total_break:
  "gz_total (gzip_break st fl c r s h) \<longleftrightarrow> (0 \<le> r \<longrightarrow> gz_wf s h)"
  by (auto simp: gzip_break_def gz_wf_def gz_bufs_def split: isal_block_state.splits)

lemma fixed_size_read_total:
  assumes "hdr_ok s" "n \<le> 328" "tmp_in_size s \<le> n"
  shows "\<exists>r b s2. fixed_size_read s n = Some (r, b, s2) \<and> hdr_ok s2 \<and> type0_block_len s2 = type0_block_len s
    \<and> (if r = 0 then tmp_in_size s2 = 0 else tmp_in_size s2 < n)"
  using assms fsr_end [of s] fsr_ok [of s n] by (simp add: fixed_size_read ISAL_END_INPUT_def)

lemma buffer_header_copy_total:
  assumes ok: "hdr_ok s" and b: "\<And>b. buf = Some b \<Longrightarrow> unat bl \<le> length b \<and> off \<le> bl"
  shows "\<exists>r b m. buffer_header_copy s n buf bl off err = Some (r, b, set_count (n - m) (in_advance m s)) \<and> m \<le> n \<and> m \<le> avail_in s
    \<and> (r = 0 \<longrightarrow> m = n \<or> err = 0) \<and> map_option length b = map_option length buf \<and> (buf \<noteq> None \<longrightarrow> unat off + m \<le> unat bl)"
proof (cases buf)
  case None
  then show ?thesis
    by (auto simp: buffer_header_copy_None Let_def ISAL_END_INPUT_def intro!: exI [of _ "min n (avail_in s)"])
next
  case (Some b0)
  let ?m = "min (unat (bl - off)) (min n (avail_in s))"
  have le: "off \<le> bl" "unat bl \<le> length b0" using b Some by auto
  have B: "unat (bl - off) = unat bl - unat off" "unat off \<le> unat bl"
    using le(1) by (simp_all add: unat_sub word_le_nat_alt)
  have "unat off + length (take ?m (avail_bytes s)) \<le> length b0" using ok le B by simp
  then have "put_bytes b0 (unat off) (take ?m (avail_bytes s)) = Some (blit b0 (unat off) (take ?m (avail_bytes s)))"
    "length (blit b0 (unat off) (take ?m (avail_bytes s))) = length b0"
    by (simp_all add: put_bytes_def)
  then show ?thesis using Some ok B
    by (auto simp: buffer_header_copy_Some ISAL_END_INPUT_def intro!: exI [of _ ?m])
qed

lemma string_header_copy_total:
  assumes ok: "hdr_ok s" and b: "\<And>b. buf = Some b \<Longrightarrow> unat sl \<le> length b \<and> off \<le> sl" and off: "off = type0_block_len s"
  shows "\<exists>r b s2. string_header_copy s buf sl off err = Some (r, b, s2) \<and> hdr_ok s2 \<and> tmp_in_size s2 = tmp_in_size s
    \<and> map_option length b = map_option length buf \<and> (buf \<noteq> None \<longrightarrow> type0_block_len s2 \<le> sl) \<and> (r = 0 \<and> err \<noteq> 0 \<longrightarrow> type0_block_len s2 = 0)"
proof (cases buf)
  case None
  have "strnlen (avail_bytes s) \<le> avail_in s" using str_taken_le(3) [OF ok] .
  then show ?thesis
    using None ok by (auto simp: string_header_copy_None Let_def ISAL_END_INPUT_def add_count_def set_count_def)
next
  case (Some b0)
  define len where "len = str_taken s sl off"
  note le = str_taken_le(1,2) [OF ok, of sl off, folded len_def]
  have bl: "off \<le> sl" "unat sl \<le> length b0" using b Some by auto
  have B: "unat (sl - off) = unat sl - unat off" "unat off \<le> unat sl"
    using bl(1) by (simp_all add: unat_sub word_le_nat_alt)
  have p1: "put_bytes b0 (unat off) (take len (avail_bytes s)) = Some (blit b0 (unat off) (take len (avail_bytes s)))"
    "length (blit b0 (unat off) (take len (avail_bytes s))) = length b0"
    using ok le B bl by (simp_all add: put_bytes_def)
  have sl: "unat sl < 2 ^ LENGTH(32)" by (rule unsigned_less)
  have "unat (off + of_nat len) = unat off + len" using le B sl by (intro offset_add [where m = "unat sl"]) simp_all
  then have c: "type0_block_len s + of_nat len \<le> sl" using le B by (simp add: word_le_nat_alt flip: off)
  show ?thesis
  proof (cases "len = unat (sl - off) \<or> len = avail_in s")
    case True
    let ?b = "blit b0 (unat off) (take len (avail_bytes s))" and ?s = "add_count len (in_advance len s)"
    have "string_header_copy s buf sl off err = Some (if len = unat (sl - off) then err else ISAL_END_INPUT, Some ?b, ?s)"
      unfolding Some str_copy_Some [OF ok] len_def [symmetric] p1(1) using True by auto
    moreover have "hdr_ok ?s" "type0_block_len ?s \<le> sl" "tmp_in_size ?s = tmp_in_size s"
      using ok le c by (simp_all, simp add: add_count_def)
    ultimately show ?thesis using p1(2) Some by (simp add: ISAL_END_INPUT_def)
  next
    case False
    then have "unat off + len < length b0" using le B bl by arith
    then have "put_bytes (blit b0 (unat off) (take len (avail_bytes s))) (unat off + len) [0]
        = Some (blit (blit b0 (unat off) (take len (avail_bytes s))) (unat off + len) [0])"
      "length (blit (blit b0 (unat off) (take len (avail_bytes s))) (unat off + len) [0]) = length b0"
      using p1(2) by (simp_all add: put_bytes_def)
    moreover from this(1) have "string_header_copy s buf sl off err
        = Some (0, Some (blit (blit b0 (unat off) (take len (avail_bytes s))) (unat off + len) [0]), set_count 0 (in_advance (len + 1) s))"
      unfolding Some str_copy_Some [OF ok] len_def [symmetric] p1(1) using False by simp
    moreover have "hdr_ok (set_count 0 (in_advance (len + 1) s))" "tmp_in_size (set_count 0 (in_advance (len + 1) s)) = tmp_in_size s"
      using ok le False by (simp_all, simp add: set_count_def)
    ultimately show ?thesis using Some by simp
  qed
qed

lemma gz_bufs_upd [simp]:
  "gz_bufs h \<Longrightarrow> map_option length b = map_option length (gz_comment h) \<Longrightarrow> gz_bufs (h\<lparr>gz_comment := b\<rparr>)"
  "gz_bufs h \<Longrightarrow> map_option length b = map_option length (gz_name h) \<Longrightarrow> gz_bufs (h\<lparr>gz_name := b\<rparr>)"
  "gz_bufs h \<Longrightarrow> map_option length b = map_option length (gz_extra h) \<Longrightarrow> gz_bufs (h\<lparr>gz_extra := b\<rparr>)"
  "gz_bufs (h\<lparr>gz_hcrc := c\<rparr>) = gz_bufs h" "gz_bufs (h\<lparr>gz_extra_len := n\<rparr>) = gz_bufs h"
  by (auto simp: gz_bufs_def map_option_case split: option.splits)

lemma gzip_done_total: "hdr_ok s \<Longrightarrow> gz_bufs h \<Longrightarrow> tmp_in_size s = 0 \<Longrightarrow> gz_total (gzip_done s h)"
  by (simp add: gzip_done_def gz_wf_def GZIP_HDR_BASE_def)

lemma gzip_hcrc_total:
  assumes "hdr_ok s" "gz_bufs h" "tmp_in_size s < GZIP_HCRC_LEN"
  shows "gz_total (gzip_hcrc_case c s h)"
proof -
  from fixed_size_read_total [OF assms(1), of GZIP_HCRC_LEN] obtain r b s2 where f:
    "fixed_size_read s GZIP_HCRC_LEN = Some (r, b, s2)" "hdr_ok s2" "if r = 0 then tmp_in_size s2 = 0 else tmp_in_size s2 < GZIP_HCRC_LEN"
    using assms(3) by (auto simp: GZIP_HCRC_LEN_def)
  then show ?thesis using assms(2) gzip_done_total [of s2 h]
    by (auto simp: gzip_hcrc_case_def gz_wf_def ISAL_INCORRECT_CHECKSUM_def split: if_splits)
qed

text \<open>Between two fields.\<close>

definition gz_between :: "inflate_state \<Rightarrow> isal_gzip_header \<Rightarrow> bool" where
  "gz_between s h \<longleftrightarrow> hdr_ok s \<and> gz_bufs h \<and> tmp_in_size s = 0 \<and> type0_block_len s = 0"

lemma gzip_flag_hcrc_total: "gz_between s h \<Longrightarrow> gz_total (gzip_flag_hcrc st fl c s h)"
  by (simp add: gzip_flag_hcrc_def gz_between_def gzip_done_total gzip_hcrc_total GZIP_HCRC_LEN_def)

lemma gzip_comment_total:
  assumes "hdr_ok s" "gz_bufs h" "tmp_in_size s = 0" "gz_comment h \<noteq> None \<longrightarrow> type0_block_len s \<le> gz_comment_buf_len h"
  shows "gz_total (gzip_comment_case st fl c s h)"
proof -
  have "unat (gz_comment_buf_len h) \<le> length b \<and> type0_block_len s \<le> gz_comment_buf_len h" if "gz_comment h = Some b" for b
    using assms that by (simp add: gz_bufs_def)
  from string_header_copy_total [where buf = "gz_comment h" and err = ISAL_COMMENT_OVERFLOW, OF assms(1) this refl] obtain r b s2 where f:
    "string_header_copy s (gz_comment h) (gz_comment_buf_len h) (type0_block_len s) ISAL_COMMENT_OVERFLOW = Some (r, b, s2)"
    "hdr_ok s2" "tmp_in_size s2 = 0" "map_option length b = map_option length (gz_comment h)"
    "gz_comment h \<noteq> None \<longrightarrow> type0_block_len s2 \<le> gz_comment_buf_len h" "r = 0 \<longrightarrow> type0_block_len s2 = 0"
    using assms(3) by (auto simp: ISAL_COMMENT_OVERFLOW_def)
  have "gz_comment h = None \<longleftrightarrow> b = None" using f(4) by (cases b; cases "gz_comment h") simp_all
  then have "gz_wf (s2\<lparr>block_state := ISAL_GZIP_COMMENT\<rparr>) (h\<lparr>gz_comment := b\<rparr>)"
    using f(2-5) assms(2) by (simp add: gz_wf_def)
  moreover have "gz_total (gzip_flag_hcrc st fl c s2 (h\<lparr>gz_comment := b\<rparr>))" if "r = 0"
    using that f assms(2) by (intro gzip_flag_hcrc_total) (simp add: gz_between_def)
  ultimately show ?thesis using f(1) by (simp add: gzip_comment_case_def gz_total_break Let_def)
qed

lemma gzip_flag_comment_total: "gz_between s h \<Longrightarrow> gz_total (gzip_flag_comment st fl c s h)"
  by (simp add: gzip_flag_comment_def gzip_flag_hcrc_total) (simp add: gz_between_def gzip_comment_total)

lemma gzip_name_total:
  assumes "hdr_ok s" "gz_bufs h" "tmp_in_size s = 0" "gz_name h \<noteq> None \<longrightarrow> type0_block_len s \<le> gz_name_buf_len h"
  shows "gz_total (gzip_name_case st fl c s h)"
proof -
  have "unat (gz_name_buf_len h) \<le> length b \<and> type0_block_len s \<le> gz_name_buf_len h" if "gz_name h = Some b" for b
    using assms that by (simp add: gz_bufs_def)
  from string_header_copy_total [where buf = "gz_name h" and err = ISAL_NAME_OVERFLOW, OF assms(1) this refl] obtain r b s2 where f:
    "string_header_copy s (gz_name h) (gz_name_buf_len h) (type0_block_len s) ISAL_NAME_OVERFLOW = Some (r, b, s2)"
    "hdr_ok s2" "tmp_in_size s2 = 0" "map_option length b = map_option length (gz_name h)"
    "gz_name h \<noteq> None \<longrightarrow> type0_block_len s2 \<le> gz_name_buf_len h" "r = 0 \<longrightarrow> type0_block_len s2 = 0"
    using assms(3) by (auto simp: ISAL_NAME_OVERFLOW_def)
  have "gz_name h = None \<longleftrightarrow> b = None" using f(4) by (cases b; cases "gz_name h") simp_all
  then have "gz_wf (s2\<lparr>block_state := ISAL_GZIP_NAME\<rparr>) (h\<lparr>gz_name := b\<rparr>)"
    using f(2-5) assms(2) by (simp add: gz_wf_def)
  moreover have "gz_total (gzip_flag_comment st fl c s2 (h\<lparr>gz_name := b\<rparr>))" if "r = 0"
    using that f assms(2) by (intro gzip_flag_comment_total) (simp add: gz_between_def)
  ultimately show ?thesis using f(1) by (simp add: gzip_name_case_def gz_total_break Let_def)
qed

lemma gzip_flag_name_total: "gz_between s h \<Longrightarrow> gz_total (gzip_flag_name st fl c s h)"
  by (simp add: gzip_flag_name_def gzip_flag_comment_total) (simp add: gz_between_def gzip_name_total)

lemma gzip_extra_total:
  assumes "hdr_ok s" "gz_bufs h" "tmp_in_size s = 0" "cnt \<le> gz_extra_len h"
    "gz_extra h \<noteq> None \<longrightarrow> gz_extra_len h - cnt \<le> gz_extra_buf_len h"
  shows "gz_total (gzip_extra_case cnt st fl c s h)"
proof -
  let ?off = "gz_extra_len h - cnt"
  have "unat (gz_extra_buf_len h) \<le> length b \<and> ?off \<le> gz_extra_buf_len h" if "gz_extra h = Some b" for b
    using assms that by (simp add: gz_bufs_def)
  from buffer_header_copy_total [where buf = "gz_extra h" and n = "unat cnt" and err = ISAL_EXTRA_OVERFLOW, OF assms(1) this] obtain r b m where f:
    "buffer_header_copy s (unat cnt) (gz_extra h) (gz_extra_buf_len h) ?off ISAL_EXTRA_OVERFLOW
      = Some (r, b, set_count (unat cnt - m) (in_advance m s))"
    "m \<le> unat cnt" "m \<le> avail_in s" "r = 0 \<longrightarrow> m = unat cnt" "map_option length b = map_option length (gz_extra h)"
    "gz_extra h \<noteq> None \<longrightarrow> unat ?off + m \<le> unat (gz_extra_buf_len h)"
    by (auto simp: ISAL_EXTRA_OVERFLOW_def)
  let ?s = "set_count (unat cnt - m) (in_advance m s)"
  have cm: "unat cnt < 2 ^ LENGTH(32)" by (rule unsigned_less)
  define k :: u32 where "k = of_nat (unat cnt - m)"
  have uk: "unat k = unat cnt - m" unfolding k_def using cm by (subst unat_of_nat) simp
  have le: "k \<le> gz_extra_len h" using assms(4) by (simp add: word_le_nat_alt uk)
  have "unat (gz_extra_len h - k) = unat ?off + m"
    using le assms(4) f(2) by (simp add: unat_sub uk word_le_nat_alt)
  then have off: "gz_extra h \<noteq> None \<longrightarrow> gz_extra_len h - k \<le> gz_extra_buf_len h"
    using f(6) by (simp add: word_le_nat_alt)
  have tk: "type0_block_len ?s = k" by (simp only: set_count_simps k_def)
  have ok: "hdr_ok ?s" "tmp_in_size ?s = 0" using assms(1,3) f(3) by (simp_all, simp add: set_count_def)
  have "gz_extra h = None \<longleftrightarrow> b = None" using f(5) by (cases b; cases "gz_extra h") simp_all
  then have "gz_wf (?s\<lparr>block_state := ISAL_GZIP_EXTRA\<rparr>) (h\<lparr>gz_extra := b\<rparr>)"
    using ok off le f(5) assms(2) tk by (simp add: gz_wf_def)
  moreover have "gz_total (gzip_flag_name st fl c ?s (h\<lparr>gz_extra := b\<rparr>))" if "r = 0"
    using that f ok assms(2) by (intro gzip_flag_name_total) (simp add: gz_between_def)
  ultimately show ?thesis using f(1) by (simp add: gzip_extra_case_def gz_total_break Let_def)
qed

lemma gzip_extra_len_total:
  assumes "hdr_ok s" "gz_bufs h" "tmp_in_size s < GZIP_EXTRA_LEN"
  shows "gz_total (gzip_extra_len_case st fl c s h)"
proof -
  from fixed_size_read_total [OF assms(1), of GZIP_EXTRA_LEN] obtain r b s2 where f:
    "fixed_size_read s GZIP_EXTRA_LEN = Some (r, b, s2)" "hdr_ok s2" "if r = 0 then tmp_in_size s2 = 0 else tmp_in_size s2 < GZIP_EXTRA_LEN"
    using assms(3) by (auto simp: GZIP_EXTRA_LEN_def)
  show ?thesis
  proof (cases "r = 0")
    case True
    then show ?thesis using f assms(2) gzip_extra_total [of s2 "h\<lparr>gz_extra_len := ucast (load_le_u16 b)\<rparr>" "ucast (load_le_u16 b)"]
      by (simp add: gzip_extra_len_stage field_stage_def)
  next
    case False
    then show ?thesis using f assms(2) by (simp add: gzip_extra_len_stage field_stage_def gz_total_break gz_wf_def)
  qed
qed

lemma gzip_new_hdr_total:
  assumes "hdr_ok s" "gz_bufs h" "tmp_in_size s < GZIP_HDR_BASE" "block_state s = ISAL_BLOCK_NEW_HDR"
  shows "gz_total (gzip_new_hdr_case st c s h)"
proof -
  let ?s = "s\<lparr>type0_block_len := 0\<rparr>"
  have n: "GZIP_HDR_BASE \<le> 328" by (simp add: GZIP_HDR_BASE_def)
  have ok: "hdr_ok ?s" using assms(1) by simp
  from fixed_size_read_total [OF ok n] obtain r b s2 where f:
    "fixed_size_read ?s GZIP_HDR_BASE = Some (r, b, s2)" "hdr_ok s2" "type0_block_len s2 = 0"
    "if r = 0 then tmp_in_size s2 = 0 else tmp_in_size s2 < GZIP_HDR_BASE"
    using assms(3) by auto
  have bs: "block_state s2 = ISAL_BLOCK_NEW_HDR" using fixed_size_read_block_state [OF f(1) ok n] assms(4) by simp
  show ?thesis
  proof (cases "r = 0")
    case True
    have "gz_bufs (h\<lparr>gz_time := t, gz_xflags := x, gz_os := y, gz_text := z, gz_flags := u\<rparr>)" for t x y z u
      using assms(2) by (simp add: gz_bufs_def)
    then show ?thesis using True f gzip_extra_len_total gzip_flag_name_total
      by (simp add: gzip_new_hdr_base gzip_base_def Let_def ISAL_INVALID_WRAPPER_def ISAL_UNSUPPORTED_METHOD_def
        gz_between_def GZIP_EXTRA_LEN_def)
  next
    case False
    then show ?thesis using f assms(2) bs by (simp add: gzip_new_hdr_base gz_total_break gz_wf_def)
  qed
qed

lemma isal_read_gzip_header_total: "gz_wf s h \<Longrightarrow> gz_total (isal_read_gzip_header s h)"
  by (cases "block_state s")
    (simp_all add: isal_read_gzip_header_def Let_def gz_wf_def gz_total_break gzip_new_hdr_total gzip_extra_len_total
      gzip_extra_total gzip_name_total gzip_comment_total gzip_hcrc_total)

section \<open>Properties\<close>

text \<open>C5: a gzip header may be cut anywhere. When the input ends inside the header, calling
  \<open>isal_read_gzip_header\<close> again with the rest gives what one call on the whole input gives: the same
  return code, the same header fields (the running checksum \<open>gz_hcrc\<close> is compared while the header
  is not complete), the same bytes left, and the same state up to the caller's buffer.\<close>

theorem gzip_header_resumes:
  assumes "length (tmp_in_buffer s) = 328" "small_buf (gz_extra h)" "small_buf (gz_name h)" "small_buf (gz_comment h)"
    and "isal_read_gzip_header (feed xs s) h = Some (ISAL_END_INPUT, u, k)"
  shows "gz_rel (isal_read_gzip_header (feed ys u) k) (isal_read_gzip_header (feed (xs @ ys) s) h)"
proof -
  have "hdr_ok (feed xs s)" using assms(1) by simp
  from isal_read_gzip_header_resumes [OF this assms(2-4), of ys] assms(5) show ?thesis
    by (simp add: resumes_def more_feed)
qed

theorem gzip_header_resumes_witness:
  "\<forall>s h. \<exists>u k. isal_read_gzip_header (feed [0x1f, 0x8b, 8]
      (s\<lparr>tmp_in_buffer := replicate 328 0, tmp_in_size := 0, block_state := ISAL_BLOCK_NEW_HDR\<rparr>))
      (isal_gzip_header_init h) = Some (ISAL_END_INPUT, u, k)
    \<and> gz_rel (isal_read_gzip_header (feed [0, 1, 2, 3, 4, 5, 6] u) k)
        (isal_read_gzip_header (feed [0x1f, 0x8b, 8, 0, 1, 2, 3, 4, 5, 6]
          (s\<lparr>tmp_in_buffer := replicate 328 0, tmp_in_size := 0, block_state := ISAL_BLOCK_NEW_HDR\<rparr>)) (isal_gzip_header_init h))"
proof (intro allI)
  fix s :: inflate_state and h :: isal_gzip_header
  let ?s = "s\<lparr>tmp_in_buffer := replicate 328 0, tmp_in_size := 0, block_state := ISAL_BLOCK_NEW_HDR\<rparr>"
  have ok: "hdr_ok ((feed [0x1f, 0x8b, 8] ?s)\<lparr>type0_block_len := 0\<rparr>)" by simp
  obtain u k where r: "isal_read_gzip_header (feed [0x1f, 0x8b, 8] ?s) (isal_gzip_header_init h) = Some (ISAL_END_INPUT, u, k)"
    using fixed_size_read [OF ok, of GZIP_HDR_BASE]
    by (auto simp: isal_read_gzip_header_def gzip_new_hdr_base gzip_break_def GZIP_HDR_BASE_def ISAL_END_INPUT_def)
  have "small_buf (gz_extra (isal_gzip_header_init h))" "small_buf (gz_name (isal_gzip_header_init h))"
    "small_buf (gz_comment (isal_gzip_header_init h))"
    by (simp_all add: isal_gzip_header_init_def small_buf_def)
  from gzip_header_resumes [OF _ this r, of "[0, 1, 2, 3, 4, 5, 6]"] r
  show "\<exists>u k. isal_read_gzip_header (feed [0x1f, 0x8b, 8] ?s) (isal_gzip_header_init h) = Some (ISAL_END_INPUT, u, k)
    \<and> gz_rel (isal_read_gzip_header (feed [0, 1, 2, 3, 4, 5, 6] u) k)
        (isal_read_gzip_header (feed [0x1f, 0x8b, 8, 0, 1, 2, 3, 4, 5, 6] ?s) (isal_gzip_header_init h))"
    by auto
qed

text \<open>C6: the gzip header reader is total on well-formed states: it never reads or writes outside of the
  input, the queue or the buffers of the header, and unless it reports an error (a negative code) it
  leaves a well-formed state to go on from.\<close>

theorem gzip_header_total:
  assumes "gz_wf s h"
  shows "\<exists>r u k. isal_read_gzip_header s h = Some (r, u, k) \<and> (0 \<le> r \<longrightarrow> gz_wf u k)"
  using isal_read_gzip_header_total [OF assms] by (simp add: gz_total_def)

theorem gzip_header_total_witness:
  "\<forall>s h. \<exists>r u k. isal_read_gzip_header
      (feed [0x1f, 0x8b, 8, 8, 0, 0, 0, 0, 0, 3, 65] (s\<lparr>tmp_in_buffer := replicate 328 0, tmp_in_size := 0, block_state := ISAL_BLOCK_NEW_HDR\<rparr>))
      (isal_gzip_header_init h) = Some (r, u, k) \<and> (0 \<le> r \<longrightarrow> gz_wf u k)"
proof (intro allI)
  fix s :: inflate_state and h :: isal_gzip_header
  have "gz_wf (feed [0x1f, 0x8b, 8, 8, 0, 0, 0, 0, 0, 3, 65]
      (s\<lparr>tmp_in_buffer := replicate 328 0, tmp_in_size := 0, block_state := ISAL_BLOCK_NEW_HDR\<rparr>)) (isal_gzip_header_init h)"
    by (simp add: gz_wf_def gz_bufs_def isal_gzip_header_init_def GZIP_HDR_BASE_def)
  then show "\<exists>r u k. isal_read_gzip_header
      (feed [0x1f, 0x8b, 8, 8, 0, 0, 0, 0, 0, 3, 65] (s\<lparr>tmp_in_buffer := replicate 328 0, tmp_in_size := 0, block_state := ISAL_BLOCK_NEW_HDR\<rparr>))
      (isal_gzip_header_init h) = Some (r, u, k) \<and> (0 \<le> r \<longrightarrow> gz_wf u k)"
    by (rule gzip_header_total)
qed

end
