(* ===== verification/Wrapper_Trailer.thy ===== *)
theory Wrapper_Trailer
  imports Wrapper_Resume
begin

text \<open>
  The trailers of gzip and zlib streams: the bytes of the trailer may be in the queue of an earlier
  call, in the register and in the input. \<open>reg_bytes\<close> are the whole bytes in the register behind the
  padding bits of the last block.
\<close>

definition reg_bytes :: "inflate_state \<Rightarrow> u8 list" where
  "reg_bytes s = le_bytes (nat (read_in_length s) div 8) (drop_bit (nat (read_in_length s) mod 8) (read_in s))"

definition trailer_bytes :: "inflate_state \<Rightarrow> u8 list" where
  "trailer_bytes s = queued s @ reg_bytes s @ avail_bytes s"

text \<open>When the trailer is looked at the queue is empty, or the register has been moved to it.\<close>

definition trailer_ok :: "inflate_state \<Rightarrow> bool" where
  "trailer_ok s \<longleftrightarrow> hdr_ok s \<and> 0 \<le> read_in_length s \<and> read_in_length s \<le> 64
    \<and> (if read_in_length s < 8 then tmp_in_size s \<le> 8 else tmp_in_size s = 0)"

lemma queue_register:
  assumes ok: "trailer_ok s"
  obtains u where "queue_register s = Some u" "hdr_ok u" "queued u = queued s @ reg_bytes s" "avail_bytes u = avail_bytes s"
    "crc u = crc s" "total_out u = total_out s" "avail_in u = avail_in s"
    "tmp_in_size u = tmp_in_size s + nat (read_in_length s) div 8" "read_in_length u < 8" "0 \<le> read_in_length u"
proof (cases "8 \<le> read_in_length s")
  case True
  let ?w = "drop_bit (nat (read_in_length s) mod 8) (read_in s)" and ?k = "nat (read_in_length s) div 8"
  let ?u = "s\<lparr>tmp_in_buffer := blit (tmp_in_buffer s) 0 (le_bytes 8 ?w), read_in := 0, read_in_length := 0, tmp_in_size := ?k\<rparr>"
  have s: "hdr_ok s" "tmp_in_size s = 0" "read_in_length s \<le> 64" using ok True by (simp_all add: trailer_ok_def)
  then have b: "length (tmp_in_buffer s) = 328" by (simp add: hdr_ok_def)
  have k: "?k \<le> 8" using s(3) by simp
  have "take ?k (blit (tmp_in_buffer s) 0 (le_bytes 8 ?w)) = le_bytes ?k ?w"
    using k by (simp add: blit_def take_le_bytes)
  then have "queued ?u = queued s @ reg_bytes s" using s(2) by (simp add: queued_def reg_bytes_def)
  moreover have "queue_register s = Some ?u"
    using True s(2) b by (simp add: queue_register_def put_le_u64_Some Let_def)
  moreover have "hdr_ok ?u" using s(1) b by (simp add: hdr_ok_def)
  ultimately show thesis using s(2) by (intro that [of ?u]) (simp_all add: avail_bytes_def)
next
  case False
  then show thesis using ok
    by (intro that [of s]) (simp_all add: queue_register_def trailer_ok_def reg_bytes_def le_bytes_def)
qed

lemma le_word_8: "load_le_u64 (le_bytes 8 w @ xs) = w"
  by (simp add: load_le_u64_def le_word_le_bytes)

lemma reg_bytes_short: "read_in_length s < 8 \<Longrightarrow> reg_bytes s = []"
  by (simp add: reg_bytes_def le_bytes_def)

lemma trailer_block_state [simp]: "trailer_bytes (s\<lparr>block_state := b\<rparr>) = trailer_bytes s" "trailer_ok (s\<lparr>block_state := b\<rparr>) = trailer_ok s"
  by (simp_all add: trailer_bytes_def reg_bytes_def queued_def trailer_ok_def)

lemma gzip_trailer_queue:
  assumes ok: "trailer_ok s" and lt: "read_in_length s < 64"
  shows "\<exists>r u. check_gzip_checksum s = Some (r, u) \<and>
    (if length (trailer_bytes s) < 8
     then r = ISAL_END_INPUT \<and> block_state u = ISAL_CHECKSUM_CHECK \<and> trailer_ok u \<and> avail_in u = 0 \<and> trailer_bytes u = trailer_bytes s
     else block_state u = ISAL_BLOCK_FINISH
       \<and> r = (if load_le_u64 (trailer_bytes s) = ucast (crc s) OR push_bit 32 (ucast (total_out s)) then ISAL_DECOMP_OK else ISAL_INCORRECT_CHECKSUM))"
proof -
  from queue_register [OF ok] obtain u where u: "queue_register s = Some u" "hdr_ok u" "queued u = queued s @ reg_bytes s"
    "avail_bytes u = avail_bytes s" "crc u = crc s" "total_out u = total_out s" "avail_in u = avail_in s"
    "tmp_in_size u = tmp_in_size s + nat (read_in_length s) div 8" "read_in_length u < 8" "0 \<le> read_in_length u" .
  have t8: "tmp_in_size u \<le> 8" using ok lt u(8) by (auto simp: trailer_ok_def split: if_splits)
  have q: "length (queued u) = tmp_in_size u" using u(2) t8 by (simp add: queued_def hdr_ok_def)
  have tb: "trailer_bytes s = queued u @ avail_bytes u" by (simp add: trailer_bytes_def u)
  have len: "length (trailer_bytes s) = avail_in u + tmp_in_size u" using u(2) q by (simp add: tb)
  note fsr = fixed_size_read [OF u(2), of 8]
  have ge: "\<not> 64 \<le> read_in_length s" using lt by simp
  show ?thesis
  proof (cases "length (trailer_bytes s) < 8")
    case True
    then have lt8: "avail_in u + tmp_in_size u < 8" by (simp add: len)
    note f = fsr_end [OF u(2)]
    have "read_in_length (fsr_end u) = read_in_length u" by (simp add: fsr_end_def in_advance_def)
    moreover have "trailer_bytes (fsr_end u) = trailer_bytes s"
      using f lt8 u(9) calculation unfolding tb by (simp add: trailer_bytes_def reg_bytes_short)
    ultimately show ?thesis using True f lt8 u(9,10) fsr
      by (simp add: check_gzip_checksum_def ge u(1) GZIP_TRAILER_LEN_def ISAL_END_INPUT_def trailer_ok_def)
  next
    case False
    have "load_le_u64 (take 8 (trailer_bytes s)) = load_le_u64 (trailer_bytes s)" by (simp add: load_le_u64_def)
    moreover have "crc (fsr_ok 8 u) = crc s" "total_out (fsr_ok 8 u) = total_out s"
      by (simp_all add: fsr_ok_def in_advance_def u)
    moreover have "fixed_size_read u 8 = Some (0, take 8 (trailer_bytes s), fsr_ok 8 u)"
      using False [unfolded len] t8 fsr by (simp add: tb)
    ultimately show ?thesis using False
      by (simp add: check_gzip_checksum_def ge u(1) GZIP_TRAILER_LEN_def Let_def)
  qed
qed

lemma gzip_trailer:
  assumes ok: "trailer_ok s"
  shows "\<exists>r u. check_gzip_checksum s = Some (r, u) \<and>
    (if length (trailer_bytes s) < 8
     then r = ISAL_END_INPUT \<and> block_state u = ISAL_CHECKSUM_CHECK \<and> trailer_ok u \<and> avail_in u = 0 \<and> trailer_bytes u = trailer_bytes s
     else block_state u = ISAL_BLOCK_FINISH
       \<and> r = (if load_le_u64 (trailer_bytes s) = ucast (crc s) OR push_bit 32 (ucast (total_out s)) then ISAL_DECOMP_OK else ISAL_INCORRECT_CHECKSUM))"
proof (cases "read_in_length s < 64")
  case True
  then show ?thesis by (rule gzip_trailer_queue [OF ok])
next
  case False
  then have l: "read_in_length s = 64" and q: "queued s = []" using ok by (auto simp: trailer_ok_def queued_def)
  have tb: "trailer_bytes s = le_bytes 8 (read_in s) @ avail_bytes s" by (simp add: trailer_bytes_def q reg_bytes_def l)
  then have "load_le_u64 (trailer_bytes s) = read_in s" "length (trailer_bytes s) = 8 + length (avail_bytes s)"
    by (simp_all add: le_word_8)
  then show ?thesis using l by (simp add: check_gzip_checksum_def GZIP_TRAILER_LEN_def)
qed

lemma bswap_load: "isal_bswap32 (load_le_u32 bs) = load_be_u32 bs" if "4 \<le> length bs"
proof -
  have "le_bytes 4 (load_le_u32 bs) = take 4 bs"
    unfolding load_le_u32_def using that le_bytes_le_word [of "take 4 bs", where 'w = 32] by simp
  then show ?thesis by (simp add: isal_bswap32_def load_be_u32_def)
qed

lemma zlib_trailer:
  assumes ok: "trailer_ok s" and t4: "read_in_length s < 8 \<Longrightarrow> tmp_in_size s \<le> 4"
  shows "\<exists>r u. check_zlib_checksum s = Some (r, u) \<and>
    (if length (trailer_bytes s) < 4
     then r = ISAL_END_INPUT \<and> block_state u = ISAL_CHECKSUM_CHECK \<and> trailer_ok u \<and> avail_in u = 0 \<and> trailer_bytes u = trailer_bytes s
     else block_state u = ISAL_BLOCK_FINISH
       \<and> r = (if load_be_u32 (trailer_bytes s) = crc s then ISAL_DECOMP_OK else ISAL_INCORRECT_CHECKSUM))"
proof (cases "read_in_length s < 32")
  case True
  from queue_register [OF ok] obtain u where u: "queue_register s = Some u" "hdr_ok u" "queued u = queued s @ reg_bytes s"
    "avail_bytes u = avail_bytes s" "crc u = crc s" "total_out u = total_out s" "avail_in u = avail_in s"
    "tmp_in_size u = tmp_in_size s + nat (read_in_length s) div 8" "read_in_length u < 8" "0 \<le> read_in_length u" .
  have t8: "tmp_in_size u \<le> 4" using ok True u(8) t4 by (auto simp: trailer_ok_def split: if_splits)
  have q: "length (queued u) = tmp_in_size u" using u(2) t8 by (simp add: queued_def hdr_ok_def)
  have tb: "trailer_bytes s = queued u @ avail_bytes u" by (simp add: trailer_bytes_def u)
  have len: "length (trailer_bytes s) = avail_in u + tmp_in_size u" using u(2) q by (simp add: tb)
  note fsr = fixed_size_read [OF u(2), of 4]
  have ge: "\<not> 32 \<le> read_in_length s" using True by simp
  show ?thesis
  proof (cases "length (trailer_bytes s) < 4")
    case True
    then have lt8: "avail_in u + tmp_in_size u < 4" by (simp add: len)
    note f = fsr_end [OF u(2)]
    have "read_in_length (fsr_end u) = read_in_length u" by (simp add: fsr_end_def in_advance_def)
    moreover have "trailer_bytes (fsr_end u) = trailer_bytes s"
      using f lt8 u(9) calculation unfolding tb by (simp add: trailer_bytes_def reg_bytes_short)
    ultimately show ?thesis using True f lt8 u(9,10) fsr
      by (simp add: check_zlib_checksum_def ge u(1) ZLIB_TRAILER_LEN_def ISAL_END_INPUT_def trailer_ok_def)
  next
    case False
    have "isal_bswap32 (load_le_u32 (take 4 (trailer_bytes s))) = load_be_u32 (trailer_bytes s)"
      using False by (subst bswap_load) (simp_all add: load_be_u32_def)
    moreover have "crc (fsr_ok 4 u) = crc s" by (simp add: fsr_ok_def in_advance_def u)
    moreover have "fixed_size_read u 4 = Some (0, take 4 (trailer_bytes s), fsr_ok 4 u)"
      using False [unfolded len] t8 fsr by (simp add: tb)
    ultimately show ?thesis using False
      by (simp add: check_zlib_checksum_def ge u(1) ZLIB_TRAILER_LEN_def Let_def)
  qed
next
  case False
  let ?n = "nat (read_in_length s)" and ?w = "drop_bit (nat (read_in_length s) mod 8) (read_in s)"
  have q: "queued s = []" using ok False by (simp add: trailer_ok_def queued_def)
  have n: "4 \<le> ?n div 8" using False by simp
  have t: "take 4 (reg_bytes s) = le_bytes 4 ?w" using n by (simp add: reg_bytes_def take_le_bytes)
  have "le_bytes 4 ?w = le_bytes 4 (ucast ?w :: u32)" by (rule nth_equalityI) (auto simp: bit_simps ac_simps intro!: bit_word_eqI)
  then have "ucast ?w = load_le_u32 (reg_bytes s)"
    using t by (simp add: load_le_u32_def le_word_le_bytes)
  moreover have l4: "4 \<le> length (reg_bytes s)" using n by (simp add: reg_bytes_def)
  ultimately have "isal_bswap32 (ucast ?w) = load_be_u32 (trailer_bytes s)"
    using bswap_load [OF l4] by (simp add: trailer_bytes_def q load_be_u32_def)
  moreover have "\<not> length (trailer_bytes s) < 4" using l4 by (simp add: trailer_bytes_def)
  ultimately show ?thesis using False by (simp add: check_zlib_checksum_def ZLIB_TRAILER_LEN_def Let_def)
qed

section \<open>Properties\<close>

lemma trailer_queue_size: "trailer_ok s \<Longrightarrow> length (trailer_bytes s) < 4 \<Longrightarrow> tmp_in_size s < 4"
  by (auto simp: trailer_ok_def trailer_bytes_def queued_def hdr_ok_def split: if_splits)

text \<open>C7: the trailer decides. With the bytes of the trailer spread over the queue, the register and the
  input, \<open>check_gzip_checksum\<close> accepts exactly when they are the CRC and the length of the output, and
  \<open>check_zlib_checksum\<close> exactly when they are the Adler-32 in big-endian order; when there are too
  few bytes both keep them for the next call and leave a state from which this holds again. The
  queue holds at most the bytes of the trailer: eight for gzip, four for zlib.\<close>

theorem trailers_decide:
  assumes "trailer_ok s"
  shows "(\<exists>r u. check_gzip_checksum s = Some (r, u) \<and>
      (if length (trailer_bytes s) < 8
       then r = ISAL_END_INPUT \<and> block_state u = ISAL_CHECKSUM_CHECK \<and> trailer_ok u \<and> avail_in u = 0 \<and> trailer_bytes u = trailer_bytes s
       else block_state u = ISAL_BLOCK_FINISH
         \<and> r = (if load_le_u64 (trailer_bytes s) = ucast (crc s) OR push_bit 32 (ucast (total_out s)) then ISAL_DECOMP_OK else ISAL_INCORRECT_CHECKSUM)))
    \<and> ((read_in_length s < 8 \<longrightarrow> tmp_in_size s \<le> 4) \<longrightarrow> (\<exists>r u. check_zlib_checksum s = Some (r, u) \<and>
      (if length (trailer_bytes s) < 4
       then r = ISAL_END_INPUT \<and> block_state u = ISAL_CHECKSUM_CHECK \<and> trailer_ok u \<and> avail_in u = 0 \<and> trailer_bytes u = trailer_bytes s
         \<and> tmp_in_size u \<le> 4
       else block_state u = ISAL_BLOCK_FINISH
         \<and> r = (if load_be_u32 (trailer_bytes s) = crc s then ISAL_DECOMP_OK else ISAL_INCORRECT_CHECKSUM))))"
proof (intro conjI impI gzip_trailer [OF assms])
  assume "read_in_length s < 8 \<longrightarrow> tmp_in_size s \<le> 4"
  with zlib_trailer [OF assms] obtain r u where u: "check_zlib_checksum s = Some (r, u)"
    "if length (trailer_bytes s) < 4
     then r = ISAL_END_INPUT \<and> block_state u = ISAL_CHECKSUM_CHECK \<and> trailer_ok u \<and> avail_in u = 0 \<and> trailer_bytes u = trailer_bytes s
     else block_state u = ISAL_BLOCK_FINISH
       \<and> r = (if load_be_u32 (trailer_bytes s) = crc s then ISAL_DECOMP_OK else ISAL_INCORRECT_CHECKSUM)" by blast
  moreover have "tmp_in_size u \<le> 4" if "length (trailer_bytes s) < 4"
    using u(2) that trailer_queue_size [of u] by simp
  ultimately show "\<exists>r u. check_zlib_checksum s = Some (r, u) \<and>
      (if length (trailer_bytes s) < 4
       then r = ISAL_END_INPUT \<and> block_state u = ISAL_CHECKSUM_CHECK \<and> trailer_ok u \<and> avail_in u = 0 \<and> trailer_bytes u = trailer_bytes s
         \<and> tmp_in_size u \<le> 4
       else block_state u = ISAL_BLOCK_FINISH
         \<and> r = (if load_be_u32 (trailer_bytes s) = crc s then ISAL_DECOMP_OK else ISAL_INCORRECT_CHECKSUM))" by auto
qed

theorem trailers_decide_witness:
  "\<forall>s. \<exists>r u. check_zlib_checksum (s\<lparr>tmp_in_buffer := replicate 328 0, tmp_in_size := 0, read_in_length := 0, crc := 1,
      in_buf := [0, 0, 0, 1], next_in := 0, avail_in := 4\<rparr>) = Some (r, u) \<and> r = ISAL_DECOMP_OK"
proof
  fix s :: inflate_state
  let ?s = "s\<lparr>tmp_in_buffer := replicate 328 0, tmp_in_size := 0, read_in_length := 0, crc := 1,
      in_buf := [0, 0, 0, 1], next_in := 0, avail_in := 4\<rparr>"
  have "trailer_ok ?s" by (simp add: trailer_ok_def hdr_ok_def)
  moreover have "trailer_bytes ?s = [0, 0, 0, 1]"
    by (simp add: trailer_bytes_def queued_def reg_bytes_def le_bytes_def avail_bytes_def)
  moreover have "load_be_u32 [0, 0, 0, 1] = (1 :: u32)" by (simp add: load_be_u32_def)
  ultimately show "\<exists>r u. check_zlib_checksum ?s = Some (r, u) \<and> r = ISAL_DECOMP_OK"
    using trailers_decide [of ?s] by auto
qed

end
