(* ===== verification/Deflate_State.thy ===== *)
theory Deflate_State
  imports Inflate_Wrapper
begin

text \<open>
  The compression stream of \<open>include/igzip_lib.h\<close> and the operations of \<open>igzip/igzip.c\<close> that set it
  up. The state \<open>struct isal_zstate\<close> is embedded in \<open>struct isal_zstream\<close>; the record of the stream
  extends the record of the state. Pointers into the input and the output are a memory block and
  an offset, as in \<open>Inflate_State\<close>.
\<close>

section \<open>Constants\<close>

definition NO_FLUSH :: nat where "NO_FLUSH = 0"
definition SYNC_FLUSH :: nat where "SYNC_FLUSH = 1"
definition FULL_FLUSH :: nat where "FULL_FLUSH = 2"

definition IGZIP_DEFLATE :: nat where "IGZIP_DEFLATE = 0"
definition IGZIP_GZIP :: nat where "IGZIP_GZIP = 1"
definition IGZIP_GZIP_NO_HDR :: nat where "IGZIP_GZIP_NO_HDR = 2"
definition IGZIP_ZLIB :: nat where "IGZIP_ZLIB = 3"
definition IGZIP_ZLIB_NO_HDR :: nat where "IGZIP_ZLIB_NO_HDR = 4"

definition COMP_OK :: int where "COMP_OK = 0"
definition INVALID_FLUSH :: int where "INVALID_FLUSH = - 7"
definition STATELESS_OVERFLOW :: int where "STATELESS_OVERFLOW = - 1"
definition ISAL_INVALID_OPERATION :: int where "ISAL_INVALID_OPERATION = - 9"
definition ISAL_INVALID_LEVEL :: int where "ISAL_INVALID_LEVEL = - 4"
definition ISAL_INVALID_LEVEL_BUF :: int where "ISAL_INVALID_LEVEL_BUF = - 5"

definition IGZIP_HUFFTABLE_CUSTOM :: int where "IGZIP_HUFFTABLE_CUSTOM = 0"
definition IGZIP_HUFFTABLE_DEFAULT :: int where "IGZIP_HUFFTABLE_DEFAULT = 1"
definition IGZIP_HUFFTABLE_STATIC :: int where "IGZIP_HUFFTABLE_STATIC = 2"

definition IGZIP_NO_HIST :: nat where "IGZIP_NO_HIST = 0"
definition IGZIP_HIST :: nat where "IGZIP_HIST = 1"
definition IGZIP_DICT_HIST :: nat where "IGZIP_DICT_HIST = 2"
definition IGZIP_DICT_HASH_SET :: nat where "IGZIP_DICT_HASH_SET = 3"

definition IGZIP_K :: nat where "IGZIP_K = 1024"
definition ISAL_DEF_MAX_HDR_SIZE :: nat where "ISAL_DEF_MAX_HDR_SIZE = 328"
definition ISAL_DEF_MAX_HIST_BITS :: nat where "ISAL_DEF_MAX_HIST_BITS = 15"
definition ISAL_DEF_HIST_SIZE :: nat where "ISAL_DEF_HIST_SIZE = 32 * 1024"
definition ISAL_LOOK_AHEAD :: nat where "ISAL_LOOK_AHEAD = 288"
definition ISAL_DEF_MAX_LEVEL :: nat where "ISAL_DEF_MAX_LEVEL = 3"

definition IGZIP_LVL0_HASH_SIZE :: nat where "IGZIP_LVL0_HASH_SIZE = 8 * 1024"
definition IGZIP_LVL1_HASH_SIZE :: nat where "IGZIP_LVL1_HASH_SIZE = 8 * 1024"
definition IGZIP_LVL2_HASH_SIZE :: nat where "IGZIP_LVL2_HASH_SIZE = 32768"
definition IGZIP_LVL3_HASH_SIZE :: nat where "IGZIP_LVL3_HASH_SIZE = 32768"

definition LVL0_HASH_MASK :: u32 where "LVL0_HASH_MASK = 8191"
definition LVL1_HASH_MASK :: u32 where "LVL1_HASH_MASK = 8191"
definition LVL2_HASH_MASK :: u32 where "LVL2_HASH_MASK = 32767"
definition LVL3_HASH_MASK :: u32 where "LVL3_HASH_MASK = 32767"

text \<open>\<open>LVL3_REQ\<close> is not in parentheses in the header; in the sum of \<open>LVL3_MIN\<close> it makes no difference.\<close>

definition ISAL_DEF_LVL1_MIN :: nat where "ISAL_DEF_LVL1_MIN = (4 * 1024 + 2 * 8192) + 4 * 1 * 1024"
definition ISAL_DEF_LVL2_MIN :: nat where "ISAL_DEF_LVL2_MIN = (4 * 1024 + 2 * 32768) + 4 * 1 * 1024"
definition ISAL_DEF_LVL3_MIN :: nat where "ISAL_DEF_LVL3_MIN = 4 * 1024 + 4 * 4 * 1024 + 2 * 32768 + 4 * 1 * 1024"

lemmas deflate_consts =
  NO_FLUSH_def SYNC_FLUSH_def FULL_FLUSH_def IGZIP_DEFLATE_def IGZIP_GZIP_def IGZIP_GZIP_NO_HDR_def IGZIP_ZLIB_def
  IGZIP_ZLIB_NO_HDR_def COMP_OK_def INVALID_FLUSH_def STATELESS_OVERFLOW_def ISAL_INVALID_OPERATION_def
  ISAL_INVALID_LEVEL_def ISAL_INVALID_LEVEL_BUF_def IGZIP_NO_HIST_def IGZIP_HIST_def IGZIP_DICT_HIST_def
  IGZIP_DICT_HASH_SET_def ISAL_DEF_MAX_HDR_SIZE_def

section \<open>The data\<close>

datatype isal_zstate_state =
    ZSTATE_NEW_HDR
  | ZSTATE_HDR
  | ZSTATE_CREATE_HDR
  | ZSTATE_BODY
  | ZSTATE_FLUSH_READ_BUFFER
  | ZSTATE_FLUSH_ICF_BUFFER
  | ZSTATE_TYPE0_HDR
  | ZSTATE_TYPE0_BODY
  | ZSTATE_SYNC_FLUSH
  | ZSTATE_FLUSH_WRITE_BUFFER
  | ZSTATE_TRL
  | ZSTATE_END
  | ZSTATE_TMP_NEW_HDR
  | ZSTATE_TMP_HDR
  | ZSTATE_TMP_CREATE_HDR
  | ZSTATE_TMP_BODY
  | ZSTATE_TMP_FLUSH_READ_BUFFER
  | ZSTATE_TMP_FLUSH_ICF_BUFFER
  | ZSTATE_TMP_TYPE0_HDR
  | ZSTATE_TMP_TYPE0_BODY
  | ZSTATE_TMP_SYNC_FLUSH
  | ZSTATE_TMP_FLUSH_WRITE_BUFFER
  | ZSTATE_TMP_TRL
  | ZSTATE_TMP_END

text \<open>The numbers of the enumeration, for the arithmetic with \<open>ZSTATE_TMP_OFFSET\<close>.\<close>

definition zstates :: "isal_zstate_state list" where
  "zstates = [ZSTATE_NEW_HDR, ZSTATE_HDR, ZSTATE_CREATE_HDR, ZSTATE_BODY, ZSTATE_FLUSH_READ_BUFFER,
    ZSTATE_FLUSH_ICF_BUFFER, ZSTATE_TYPE0_HDR, ZSTATE_TYPE0_BODY, ZSTATE_SYNC_FLUSH, ZSTATE_FLUSH_WRITE_BUFFER,
    ZSTATE_TRL, ZSTATE_END, ZSTATE_TMP_NEW_HDR, ZSTATE_TMP_HDR, ZSTATE_TMP_CREATE_HDR, ZSTATE_TMP_BODY,
    ZSTATE_TMP_FLUSH_READ_BUFFER, ZSTATE_TMP_FLUSH_ICF_BUFFER, ZSTATE_TMP_TYPE0_HDR, ZSTATE_TMP_TYPE0_BODY,
    ZSTATE_TMP_SYNC_FLUSH, ZSTATE_TMP_FLUSH_WRITE_BUFFER, ZSTATE_TMP_TRL, ZSTATE_TMP_END]"

definition zstate_num :: "isal_zstate_state \<Rightarrow> nat" where
  "zstate_num s = length (takeWhile (\<lambda>t. t \<noteq> s) zstates)"

definition ZSTATE_TMP_OFFSET :: nat where
  "ZSTATE_TMP_OFFSET = zstate_num ZSTATE_TMP_HDR - zstate_num ZSTATE_HDR"

record isal_hufftables =
  deflate_hdr :: "u8 list"
  deflate_hdr_count :: u32
  deflate_hdr_extra_bits :: u32
  dist_table :: "u32 list"
  len_table :: "u32 list"
  lit_table :: "u16 list"
  lit_table_sizes :: "u8 list"
  dcodes :: "u16 list"
  dcodes_sizes :: "u8 list"

record isal_mod_hist =
  d_hist :: "u32 list"
  ll_hist :: "u32 list"

text \<open>The memory for levels 1 to 3: the members of the union all begin with \<open>hash_table\<close>; the
  intermediate symbols lie behind the structure, \<open>icf_buf_start\<close> is index 0 of \<open>lb_icf_buf\<close>.\<close>

record level_buf =
  lb_encode_tables :: hufftables_icf
  lb_hist :: isal_mod_hist
  lb_deflate_hdr_count :: u32
  lb_deflate_hdr_extra_bits :: u32
  lb_deflate_hdr :: "u8 list"
  lb_icf_buf :: "deflate_icf list"
  lb_icf_buf_next :: nat
  lb_icf_buf_avail_out :: u64
  lb_hash_table :: "u16 list"
  lb_matches_next :: nat
  lb_matches_end :: nat
  lb_matches :: "deflate_icf list"

record isal_zstate =
  zs_block_next :: u32
  zs_block_end :: u32
  zs_dist_mask :: u32
  zs_hash_mask :: u32
  zs_state :: isal_zstate_state
  zs_bitbuf :: BitBuf2
  zs_crc :: u32
  zs_has_wrap_hdr :: bool
  zs_has_eob_hdr :: bool
  zs_has_eob :: bool
  zs_has_hist :: nat
  zs_has_level_buf_init :: bool
  zs_count :: u32
  zs_tmp_out_buff :: "u8 list"
  zs_tmp_out_start :: nat
  zs_tmp_out_end :: nat
  zs_b_bytes_valid :: nat
  zs_b_bytes_processed :: nat
  zs_buffer :: "u8 list"
  zs_head :: "u16 list"

record isal_zstream = isal_zstate +
  zs_in_buf :: "u8 list"
  zs_next_in :: nat
  zs_avail_in :: nat
  zs_total_in :: u32
  zs_out_buf :: "u8 list"
  zs_next_out :: nat
  zs_avail_out :: nat
  zs_total_out :: u32
  zs_hufftables :: isal_hufftables
  zs_level :: nat
  zs_level_buf_size :: nat
  zs_level_buf :: "level_buf option"
  zs_end_of_stream :: bool
  zs_flush :: nat
  zs_gzip_flag :: nat
  zs_hist_bits :: nat

record isal_dict =
  dict_level :: nat
  dict_hist_size :: nat
  dict_hash_size :: nat
  dict_history :: "u8 list"
  dict_hashtable :: "u16 list"

section \<open>Initialisation\<close>

text \<open>\<open>hufftables_default\<close> and \<open>hufftables_static\<close> are the generated tables of \<open>hufftables_c.c\<close>.\<close>

definition isal_deflate_init :: "isal_hufftables \<Rightarrow> isal_zstream \<Rightarrow> isal_zstream" where
  "isal_deflate_init hufftables_default stream =
    stream\<lparr>zs_total_in := 0, zs_total_out := 0, zs_hufftables := hufftables_default, zs_level := 0, zs_level_buf := None,
      zs_level_buf_size := 0, zs_end_of_stream := False, zs_flush := NO_FLUSH, zs_gzip_flag := 0, zs_hist_bits := 0,
      zs_block_next := 0, zs_block_end := 0, zs_b_bytes_valid := 0, zs_b_bytes_processed := 0,
      zs_has_wrap_hdr := False, zs_has_eob := False, zs_has_eob_hdr := False, zs_has_hist := IGZIP_NO_HIST,
      zs_has_level_buf_init := False, zs_state := ZSTATE_NEW_HDR, zs_count := 0, zs_tmp_out_start := 0,
      zs_tmp_out_end := 0, zs_bitbuf := init_bitbuf (zs_bitbuf stream), zs_crc := 0\<rparr>"

definition isal_deflate_reset :: "isal_zstream \<Rightarrow> isal_zstream" where
  "isal_deflate_reset stream =
    stream\<lparr>zs_total_in := 0, zs_total_out := 0, zs_block_next := 0, zs_block_end := 0, zs_b_bytes_valid := 0,
      zs_b_bytes_processed := 0, zs_has_wrap_hdr := False, zs_has_eob := False, zs_has_level_buf_init := False,
      zs_has_eob_hdr := False, zs_has_hist := IGZIP_NO_HIST, zs_state := ZSTATE_NEW_HDR, zs_count := 0,
      zs_tmp_out_start := 0, zs_tmp_out_end := 0, zs_bitbuf := init_bitbuf (zs_bitbuf stream), zs_crc := 0\<rparr>"

definition isal_deflate_stateless_init :: "isal_hufftables \<Rightarrow> isal_zstream \<Rightarrow> isal_zstream" where
  "isal_deflate_stateless_init hufftables_default stream =
    stream\<lparr>zs_total_in := 0, zs_total_out := 0, zs_hufftables := hufftables_default, zs_level := 0, zs_level_buf := None,
      zs_level_buf_size := 0, zs_end_of_stream := False, zs_flush := NO_FLUSH, zs_gzip_flag := 0, zs_hist_bits := 0,
      zs_has_wrap_hdr := False, zs_state := ZSTATE_NEW_HDR\<rparr>"

text \<open>A NULL pointer is \<open>None\<close>; the custom case falls through to the error.\<close>

definition isal_deflate_set_hufftables :: "isal_hufftables \<Rightarrow> isal_hufftables \<Rightarrow> isal_zstream \<Rightarrow>
    isal_hufftables option \<Rightarrow> int \<Rightarrow> int \<times> isal_zstream" where
  "isal_deflate_set_hufftables hufftables_default hufftables_static stream hufftables type =
    (if zs_state stream \<noteq> ZSTATE_NEW_HDR then (ISAL_INVALID_OPERATION, stream)
     else if type = IGZIP_HUFFTABLE_DEFAULT then (COMP_OK, stream\<lparr>zs_hufftables := hufftables_default\<rparr>)
     else if type = IGZIP_HUFFTABLE_STATIC then (COMP_OK, stream\<lparr>zs_hufftables := hufftables_static\<rparr>)
     else if type = IGZIP_HUFFTABLE_CUSTOM then
       (case hufftables of
          Some h \<Rightarrow> (COMP_OK, stream\<lparr>zs_hufftables := h\<rparr>)
        | None \<Rightarrow> (ISAL_INVALID_OPERATION, stream))
     else (ISAL_INVALID_OPERATION, stream))"

definition check_level_req :: "isal_zstream \<Rightarrow> int" where
  "check_level_req stream =
    (if zs_level stream = 0 then 0
     else if zs_level_buf stream = None then ISAL_INVALID_LEVEL_BUF
     else if zs_level stream = 3 then if zs_level_buf_size stream < ISAL_DEF_LVL3_MIN then ISAL_INVALID_LEVEL else 0
     else if zs_level stream = 2 then if zs_level_buf_size stream < ISAL_DEF_LVL2_MIN then ISAL_INVALID_LEVEL else 0
     else if zs_level stream = 1 then if zs_level_buf_size stream < ISAL_DEF_LVL1_MIN then ISAL_INVALID_LEVEL else 0
     else ISAL_INVALID_LEVEL)"

text \<open>\<open>IGZIP_HIST_SIZE\<close> is \<open>ISAL_DEF_HIST_SIZE\<close> in this configuration.\<close>

definition set_dist_mask :: "isal_zstream \<Rightarrow> isal_zstream" where
  "set_dist_mask stream =
    (let stream = (if zs_hist_bits stream > ISAL_DEF_MAX_HIST_BITS \<or> zs_hist_bits stream = 0
                   then stream\<lparr>zs_hist_bits := ISAL_DEF_MAX_HIST_BITS\<rparr> else stream);
         hist_size = push_bit (zs_hist_bits stream) 1 :: u32;
         stream = stream\<lparr>zs_dist_mask := hist_size - 1\<rparr>
     in if IGZIP_HIST_SIZE < ISAL_DEF_HIST_SIZE \<and> zs_dist_mask stream > of_nat IGZIP_HIST_SIZE - 1
        then stream\<lparr>zs_dist_mask := of_nat IGZIP_HIST_SIZE - 1\<rparr> else stream)"

definition set_hash_mask :: "isal_zstream \<Rightarrow> isal_zstream" where
  "set_hash_mask stream =
    (if zs_level stream = 3 then stream\<lparr>zs_hash_mask := LVL3_HASH_MASK\<rparr>
     else if zs_level stream = 2 then stream\<lparr>zs_hash_mask := LVL2_HASH_MASK\<rparr>
     else if zs_level stream = 1 then stream\<lparr>zs_hash_mask := LVL1_HASH_MASK\<rparr>
     else if zs_level stream = 0 then stream\<lparr>zs_hash_mask := LVL0_HASH_MASK\<rparr>
     else stream)"

text \<open>The hash table of the level.\<close>

definition update_hash_table :: "(u16 list \<Rightarrow> u16 list option) \<Rightarrow> isal_zstream \<Rightarrow> isal_zstream option" where
  "update_hash_table f stream =
    (if zs_level stream \<in> {1, 2, 3} then
       (case zs_level_buf stream of
          None \<Rightarrow> None
        | Some lb \<Rightarrow> do { t \<leftarrow> f (lb_hash_table lb); Some (stream\<lparr>zs_level_buf := Some (lb\<lparr>lb_hash_table := t\<rparr>)\<rparr>) })
     else do { t \<leftarrow> f (zs_head stream); Some (stream\<lparr>zs_head := t\<rparr>) })"

text \<open>\<open>wmemset\<close> fills whole \<open>wchar_t\<close>s, of four bytes.\<close>

definition reset_match_history :: "isal_zstream \<Rightarrow> isal_zstream option" where
  "reset_match_history stream =
    (let hash_table_size = 2 * (zs_hash_mask stream + 1);
         stream = stream\<lparr>zs_has_hist := IGZIP_NO_HIST\<rparr>;
         hash_table_size = (if hash_table_size \<le> 4 then 4 else hash_table_size);
         n = 2 * (unat hash_table_size div 4)
     in update_hash_table (\<lambda>t. if n \<le> length t then Some (replicate n (ucast (zs_total_in stream)) @ drop n t) else None) stream)"

section \<open>Dictionaries\<close>

definition isal_deflate_set_dict :: "isal_zstream \<Rightarrow> u8 list \<Rightarrow> (int \<times> isal_zstream) option" where
  "isal_deflate_set_dict stream dict =
    (if zs_state stream \<noteq> ZSTATE_NEW_HDR \<or> zs_b_bytes_processed stream \<noteq> zs_b_bytes_valid stream
     then Some (ISAL_INVALID_STATE, stream)
     else if length dict = 0 then Some (COMP_OK, stream)
     else do {
       let dict = (if length dict > IGZIP_HIST_SIZE then drop (length dict - IGZIP_HIST_SIZE) dict else dict);
       buf \<leftarrow> put_bytes (zs_buffer stream) 0 dict;
       Some (COMP_OK, stream\<lparr>zs_buffer := buf, zs_b_bytes_processed := length dict, zs_b_bytes_valid := length dict,
         zs_has_hist := IGZIP_DICT_HIST\<rparr>)
     })"

definition isal_deflate_reset_dict :: "isal_zstream \<Rightarrow> isal_dict \<Rightarrow> (int \<times> isal_zstream) option" where
  "isal_deflate_reset_dict stream dict =
    (if zs_state stream \<noteq> ZSTATE_NEW_HDR \<or> zs_b_bytes_processed stream \<noteq> zs_b_bytes_valid stream
        \<or> dict_level dict \<noteq> zs_level stream \<or> dict_hist_size dict = 0 \<or> dict_hist_size dict > IGZIP_HIST_SIZE
        \<or> dict_hash_size dict > IGZIP_LVL3_HASH_SIZE
     then Some (ISAL_INVALID_STATE, stream)
     else if check_level_req stream \<noteq> 0 then Some (check_level_req stream, stream)
     else do {
       hist \<leftarrow> get_bytes (dict_history dict) 0 (dict_hist_size dict);
       buf \<leftarrow> put_bytes (zs_buffer stream) 0 hist;
       let stream = stream\<lparr>zs_buffer := buf, zs_b_bytes_processed := dict_hist_size dict,
         zs_b_bytes_valid := dict_hist_size dict, zs_has_hist := IGZIP_DICT_HASH_SET\<rparr>;
       stream \<leftarrow> update_hash_table (\<lambda>t. if length t \<le> length (dict_hashtable dict)
         then Some (take (length t) (dict_hashtable dict)) else None) stream;
       Some (COMP_OK, stream)
     })"

section \<open>Output through the bit buffer\<close>

text \<open>\<open>set_buf(&state->bitbuf, stream->next_out, stream->avail_out)\<close>, and the lines that take over what
  was written (\<open>buffer_ptr\<close>, \<open>buffer_used\<close>).\<close>

definition zs_set_buf :: "isal_zstream \<Rightarrow> BitBuf2" where
  "zs_set_buf stream = set_buf ((zs_bitbuf stream)\<lparr>m_mem := zs_out_buf stream\<rparr>) (zs_next_out stream) (zs_avail_out stream)"

definition zs_take_buf :: "BitBuf2 \<Rightarrow> isal_zstream \<Rightarrow> isal_zstream" where
  "zs_take_buf bb stream =
    stream\<lparr>zs_bitbuf := bb, zs_out_buf := m_mem bb, zs_next_out := buffer_ptr bb,
      zs_avail_out := zs_avail_out stream - unat (buffer_used bb), zs_total_out := zs_total_out stream + buffer_used bb\<rparr>"

text \<open>\<open>memcpy(stream->next_out, bs, \<dots>)\<close> followed by the update of the three output fields.\<close>

definition zs_put :: "u8 list \<Rightarrow> isal_zstream \<Rightarrow> isal_zstream option" where
  "zs_put bs stream = do {
     out \<leftarrow> put_bytes (zs_out_buf stream) (zs_next_out stream) bs;
     Some (stream\<lparr>zs_out_buf := out, zs_next_out := zs_next_out stream + length bs,
       zs_avail_out := zs_avail_out stream - length bs, zs_total_out := zs_total_out stream + of_nat (length bs)\<rparr>)
   }"

definition update_checksum_deflate :: "isal_zstream \<Rightarrow> u8 list \<Rightarrow> isal_zstream" where
  "update_checksum_deflate stream start_in =
    (if zs_gzip_flag stream \<in> {IGZIP_GZIP, IGZIP_GZIP_NO_HDR} then stream\<lparr>zs_crc := crc32_gzip_refl (zs_crc stream) start_in\<rparr>
     else if zs_gzip_flag stream \<in> {IGZIP_ZLIB, IGZIP_ZLIB_NO_HDR} then stream\<lparr>zs_crc := isal_adler32_bam1 (zs_crc stream) start_in\<rparr>
     else stream)"

end
