(* ===== verification/Deflate_Headers.thy ===== *)
theory Deflate_Headers
  imports Deflate_State
begin

text \<open>
  The writers of \<open>igzip/igzip.c\<close> for the wrappers of a stream: \<open>isal_write_gzip_header\<close>,
  \<open>isal_write_zlib_header\<close>, the headers and the trailer that \<open>isal_deflate\<close> writes itself, and the
  deflate block header that is stored in the Huffman tables.
\<close>

section \<open>Headers given by the caller\<close>

text \<open>\<open>strnlen(s, n)\<close> on a block of memory that may be shorter than \<open>n\<close>.\<close>

definition strnlen_in :: "u8 list \<Rightarrow> u32 \<Rightarrow> u32 option" where
  "strnlen_in s n =
    (let len = strnlen (take (unat n) s)
     in if len = length s \<and> len < unat n then None else Some (of_nat len))"

definition UINT32_MAX :: u32 where "UINT32_MAX = - 1"

text \<open>The length of a string with the null terminator that ends it, added to the size of the header;
  an \<open>Inl\<close> is the early return of the code.\<close>

definition gzip_string_size :: "u8 list option \<Rightarrow> u32 \<Rightarrow> u32 \<Rightarrow> (u32 + u32 \<times> u32) option" where
  "gzip_string_size s buf_len hdr_size =
    (case s of None \<Rightarrow> Some (Inr (0, hdr_size))
     | Some s \<Rightarrow> do {
         len \<leftarrow> strnlen_in s buf_len;
         let len = (if len < buf_len then len + 1 else len);
         Some (if len > UINT32_MAX - hdr_size then Inl UINT32_MAX else Inr (len, hdr_size + len))
       })"

definition gzip_header_flags :: "isal_gzip_header \<Rightarrow> u32" where
  "gzip_header_flags gz_hdr =
    (if gz_text gz_hdr \<noteq> 0 then TEXT_FLAG else 0) OR (if gz_extra gz_hdr \<noteq> None then EXTRA_FLAG else 0)
    OR (if gz_name gz_hdr \<noteq> None then NAME_FLAG else 0) OR (if gz_comment gz_hdr \<noteq> None then COMMENT_FLAG else 0)
    OR (if gz_hcrc gz_hdr \<noteq> 0 then HCRC_FLAG else 0)"

text \<open>The first part: the flags and sizes, or the value returned early.\<close>

definition gzip_header_size :: "isal_gzip_header \<Rightarrow> (u32 + u32 \<times> u32 \<times> u32) option" where
  "gzip_header_size gz_hdr =
    (let hdr_size = of_nat GZIP_HDR_BASE
     in if gz_extra gz_hdr \<noteq> None \<and> gz_extra_len gz_hdr > 0xffff then Some (Inl UINT32_MAX)
        else
          let hdr_size = (if gz_extra gz_hdr \<noteq> None then hdr_size + (of_nat GZIP_EXTRA_LEN + gz_extra_len gz_hdr) else hdr_size)
          in do {
            r \<leftarrow> gzip_string_size (gz_name gz_hdr) (gz_name_buf_len gz_hdr) hdr_size;
            case r of Inl e \<Rightarrow> Some (Inl e) | Inr (name_len, hdr_size) \<Rightarrow> do {
              r \<leftarrow> gzip_string_size (gz_comment gz_hdr) (gz_comment_buf_len gz_hdr) hdr_size;
              case r of Inl e \<Rightarrow> Some (Inl e) | Inr (comment_len, hdr_size) \<Rightarrow>
                Some (Inr (name_len, comment_len,
                  if gz_hcrc gz_hdr \<noteq> 0 then hdr_size + of_nat GZIP_HCRC_LEN else hdr_size))
            }
          })"

definition gzip_base_bytes :: "u32 \<Rightarrow> isal_gzip_header \<Rightarrow> u8 list" where
  "gzip_base_bytes flags gz_hdr =
    [0x1f, 0x8b, of_nat DEFLATE_METHOD, ucast flags] @ le_bytes 4 (gz_time gz_hdr) @ [ucast (gz_xflags gz_hdr), ucast (gz_os gz_hdr)]"

definition isal_write_gzip_header :: "isal_zstream \<Rightarrow> isal_gzip_header \<Rightarrow> (u32 \<times> isal_zstream) option" where
  "isal_write_gzip_header stream gz_hdr = do {
     let flags = gzip_header_flags gz_hdr;
     let out_start = zs_next_out stream;
     r \<leftarrow> gzip_header_size gz_hdr;
     case r of
       Inl e \<Rightarrow> Some (e, stream)
     | Inr (name_len, comment_len, hdr_size) \<Rightarrow>
         if of_nat (zs_avail_out stream) < hdr_size then Some (hdr_size, stream)
         else do {
           mem \<leftarrow> put_bytes (zs_out_buf stream) out_start (gzip_base_bytes flags gz_hdr);
           let out = out_start + GZIP_HDR_BASE;
           (mem, out) \<leftarrow> (case gz_extra gz_hdr of None \<Rightarrow> Some (mem, out) | Some extra \<Rightarrow> do {
             mem \<leftarrow> put_bytes mem out (le_bytes 2 (gz_extra_len gz_hdr));
             let out = out + GZIP_EXTRA_LEN;
             bs \<leftarrow> get_bytes extra 0 (unat (gz_extra_len gz_hdr));
             mem \<leftarrow> put_bytes mem out bs;
             Some (mem, out + unat (gz_extra_len gz_hdr)) });
           (mem, out) \<leftarrow> (case gz_name gz_hdr of None \<Rightarrow> Some (mem, out) | Some s \<Rightarrow> do {
             bs \<leftarrow> get_bytes s 0 (unat name_len);
             mem \<leftarrow> put_bytes mem out bs;
             Some (mem, out + unat name_len) });
           (mem, out) \<leftarrow> (case gz_comment gz_hdr of None \<Rightarrow> Some (mem, out) | Some s \<Rightarrow> do {
             bs \<leftarrow> get_bytes s 0 (unat comment_len);
             mem \<leftarrow> put_bytes mem out bs;
             Some (mem, out + unat comment_len) });
           mem \<leftarrow> (if gz_hcrc gz_hdr \<noteq> 0 then do {
             bs \<leftarrow> get_bytes mem out_start (out - out_start);
             put_bytes mem out (le_bytes 2 (crc32_gzip_refl 0 bs)) } else Some mem);
           Some (0, stream\<lparr>zs_out_buf := mem, zs_next_out := zs_next_out stream + unat hdr_size,
             zs_total_out := zs_total_out stream + hdr_size, zs_avail_out := zs_avail_out stream - unat hdr_size\<rparr>)
         }
   }"

definition isal_write_zlib_header :: "isal_zstream \<Rightarrow> isal_zlib_header \<Rightarrow> (u32 \<times> isal_zstream) option" where
  "isal_write_zlib_header stream z_hdr =
    (let dict_flag = (if z_dict_flag z_hdr \<noteq> 0 then ZLIB_DICT_FLAG else 0);
         hdr_size = (if z_dict_flag z_hdr \<noteq> 0 then ZLIB_HDR_BASE + ZLIB_DICT_LEN else ZLIB_HDR_BASE)
     in if zs_avail_out stream < hdr_size then Some (of_nat hdr_size, stream)
        else
          let cmf = of_nat DEFLATE_METHOD OR push_bit 4 (z_info z_hdr);
              flg = push_bit 6 (z_level z_hdr) OR dict_flag;
              flg = flg + (31 - (256 * cmf + flg) mod 31)
          in do {
            stream \<leftarrow> zs_put ([ucast cmf, ucast flg] @ (if dict_flag \<noteq> 0 then rev (le_bytes 4 (z_dict_id z_hdr)) else [])) stream;
            Some (0, stream)
          })"

end
