(* ===== verification/Header_Roundtrip.thy ===== *)
theory Header_Roundtrip
  imports Deflate_Headers Wrapper_Resume
begin

text \<open>
  The headers that \<open>isal_write_gzip_header\<close> and \<open>isal_write_zlib_header\<close> produce are the headers
  that \<open>isal_read_gzip_header\<close> and \<open>isal_read_zlib_header\<close> read.
\<close>

section \<open>The bytes of a gzip header\<close>

definition gz_str :: "u8 list option \<Rightarrow> u32 \<Rightarrow> u8 list" where
  "gz_str s n = (case s of None \<Rightarrow> [] | Some s \<Rightarrow> take (strnlen (take (unat n) s) + 1) s)"

definition gz_extra_bytes :: "isal_gzip_header \<Rightarrow> u8 list" where
  "gz_extra_bytes h = (case gz_extra h of None \<Rightarrow> []
     | Some e \<Rightarrow> le_bytes 2 (gz_extra_len h) @ take (unat (gz_extra_len h)) e)"

definition gz_body_bytes :: "isal_gzip_header \<Rightarrow> u8 list" where
  "gz_body_bytes h = gzip_base_bytes (gzip_header_flags h) h @ gz_extra_bytes h @ gz_str (gz_name h) (gz_name_buf_len h)
     @ gz_str (gz_comment h) (gz_comment_buf_len h)"

definition gz_hcrc_bytes :: "isal_gzip_header \<Rightarrow> u8 list" where
  "gz_hcrc_bytes h = (if gz_hcrc h \<noteq> 0 then le_bytes 2 (crc32_gzip_refl 0 (gz_body_bytes h)) else [])"

definition gz_bytes :: "isal_gzip_header \<Rightarrow> u8 list" where
  "gz_bytes h = gz_body_bytes h @ gz_hcrc_bytes h"

text \<open>The strings end with a null byte inside of their buffers, the extra field is in its buffer.\<close>

definition str_ok :: "u8 list option \<Rightarrow> u32 \<Rightarrow> bool" where
  "str_ok s n \<longleftrightarrow> (case s of None \<Rightarrow> True | Some s \<Rightarrow> strnlen (take (unat n) s) < length (take (unat n) s))"

definition gz_header_ok :: "isal_gzip_header \<Rightarrow> bool" where
  "gz_header_ok h \<longleftrightarrow> str_ok (gz_name h) (gz_name_buf_len h) \<and> str_ok (gz_comment h) (gz_comment_buf_len h)
    \<and> (case gz_extra h of None \<Rightarrow> True | Some e \<Rightarrow> gz_extra_len h \<le> 0xffff \<and> unat (gz_extra_len h) \<le> length e)"

lemma length_base_bytes [simp]: "length (gzip_base_bytes f h) = 10"
  by (simp add: gzip_base_bytes_def)

lemma u32_add: "unat (a :: u32) + b < 2 ^ 32 \<Longrightarrow> unat (a + of_nat b) = unat a + b"
proof -
  assume a: "unat a + b < 2 ^ 32"
  then have "unat (of_nat b :: u32) = b" by (simp add: unat_of_nat)
  with a show ?thesis by (simp add: unat_add_lem [THEN iffD1])
qed

lemma strnlen_in_ok:
  assumes "strnlen (take (unat n) s) < length (take (unat n) s)"
  shows "strnlen_in s n = Some (of_nat (strnlen (take (unat n) s)))"
proof -
  have "strnlen (take (unat n) s) \<noteq> length s" using assms by simp
  then show ?thesis by (simp add: strnlen_in_def)
qed

lemma max32: "unat UINT32_MAX = 2 ^ 32 - 1"
  by (simp add: UINT32_MAX_def unsigned_minus_1_eq_mask mask_eq_exp_minus_1)

lemma gzip_string_size:
  assumes "str_ok s n" "unat k + length (gz_str s n) < 2 ^ 32"
  shows "gzip_string_size s n k = Some (Inr (of_nat (length (gz_str s n)), k + of_nat (length (gz_str s n))))"
proof (cases s)
  case None
  then show ?thesis by (simp add: gzip_string_size_def gz_str_def)
next
  case (Some b)
  let ?l = "strnlen (take (unat n) b)"
  have lt: "?l < length b" "?l < unat n" using assms(1) Some by (simp_all add: str_ok_def)
  then have len: "length (gz_str s n) = ?l + 1" using Some by (simp add: gz_str_def)
  have n32: "unat n < 2 ^ LENGTH(32)" by (rule unsigned_less)
  have u: "unat (of_nat ?l :: u32) = ?l" using lt(2) n32 by (simp add: unat_of_nat)
  define m where "m = length (gz_str s n)"
  have u2: "unat (of_nat m :: u32) = m" using assms(2) by (simp add: m_def unat_of_nat_lt)
  have lm: "(of_nat ?l :: u32) + 1 = of_nat m" by (simp add: m_def len)
  have c: "(of_nat ?l :: u32) < n" using lt u by (simp add: word_less_nat_alt)
  have "unat k < 2 ^ LENGTH(32)" by (rule unsigned_less)
  then have "unat (UINT32_MAX - k) = 2 ^ 32 - 1 - unat k"
    using max32 by (subst unat_sub) (simp_all add: word_le_nat_alt)
  then have "\<not> of_nat m > UINT32_MAX - k"
    using assms(2) u2 by (simp add: word_less_nat_alt flip: m_def)
  then show ?thesis using c strnlen_in_ok [of n b] lt
    by (simp add: gzip_string_size_def Some lm Let_def flip: m_def) (simp add: Some m_def)
qed

text \<open>The size the writer computes is the length of the bytes.\<close>

lemma gzip_header_size:
  assumes ok: "gz_header_ok h" and len: "length (gz_bytes h) < 2 ^ 32"
  shows "gzip_header_size h = Some (Inr (of_nat (length (gz_str (gz_name h) (gz_name_buf_len h))),
    of_nat (length (gz_str (gz_comment h) (gz_comment_buf_len h))), of_nat (length (gz_bytes h))))"
proof -
  define ex where "ex = length (gz_extra_bytes h)"
  define nm where "nm = length (gz_str (gz_name h) (gz_name_buf_len h))"
  define cm where "cm = length (gz_str (gz_comment h) (gz_comment_buf_len h))"
  have l: "length (gz_bytes h) = 10 + ex + nm + cm + (if gz_hcrc h \<noteq> 0 then 2 else 0)"
    by (simp add: gz_bytes_def gz_body_bytes_def gz_hcrc_bytes_def ex_def nm_def cm_def)
  have e: "\<not> (gz_extra h \<noteq> None \<and> gz_extra_len h > 0xffff)" using ok
    by (auto simp: gz_header_ok_def linorder_not_less [symmetric] split: option.splits)
  have k: "(if gz_extra h \<noteq> None then of_nat GZIP_HDR_BASE + (of_nat GZIP_EXTRA_LEN + gz_extra_len h) else of_nat GZIP_HDR_BASE)
      = (of_nat (10 + ex) :: u32)"
  proof (cases "gz_extra h")
    case (Some e)
    then have "ex = 2 + unat (gz_extra_len h)" using ok by (simp add: ex_def gz_extra_bytes_def gz_header_ok_def)
    then show ?thesis using Some by (simp add: wrapper_consts)
  qed (simp add: ex_def gz_extra_bytes_def wrapper_consts)
  define p where "p = 10 + ex"
  define q where "q = p + nm"
  have lt: "p + nm < 2 ^ 32" "q + cm < 2 ^ 32" using len by (simp_all add: l p_def q_def)
  have u: "unat (of_nat p :: u32) = p" "unat (of_nat q :: u32) = q" using lt by (simp_all add: unat_of_nat_lt)
  have s1: "gzip_string_size (gz_name h) (gz_name_buf_len h) (of_nat p) = Some (Inr (of_nat nm, of_nat q))"
    using gzip_string_size [of "gz_name h" "gz_name_buf_len h" "of_nat p"] ok lt u
    by (simp add: gz_header_ok_def q_def flip: nm_def)
  have s2: "gzip_string_size (gz_comment h) (gz_comment_buf_len h) (of_nat q) = Some (Inr (of_nat cm, of_nat (q + cm)))"
    using gzip_string_size [of "gz_comment h" "gz_comment_buf_len h" "of_nat q"] ok lt u
    by (simp add: gz_header_ok_def flip: cm_def)
  show ?thesis
    unfolding gzip_header_size_def Let_def k p_def [symmetric] s1 Option.bind.simps sum.case prod.case s2
    using e by (simp add: l q_def p_def wrapper_consts flip: nm_def cm_def)
qed

text \<open>Writing one string behind another.\<close>

lemma put_bytes_blit:
  assumes "off + length xs + length ys \<le> length b"
  shows "put_bytes (blit b off xs) (off + length xs) ys = Some (blit b off (xs @ ys))"
  using assms put_bytes_append [of off xs b ys] by (simp add: put_bytes_def)

lemma gz_str_prefix: "s = Some b \<Longrightarrow> str_ok s n \<Longrightarrow> get_bytes b 0 (length (gz_str s n)) = Some (gz_str s n)"
  by (simp add: get_bytes_def gz_str_def str_ok_def)

lemma isal_write_gzip_header_ok:
  assumes ok: "gz_header_ok h" and len: "length (gz_bytes h) \<le> zs_avail_out z" "zs_avail_out z < 2 ^ 32"
    and mem: "zs_next_out z + zs_avail_out z \<le> length (zs_out_buf z)"
  shows "isal_write_gzip_header z h = Some (0, z\<lparr>zs_out_buf := blit (zs_out_buf z) (zs_next_out z) (gz_bytes h),
    zs_next_out := zs_next_out z + length (gz_bytes h), zs_total_out := zs_total_out z + of_nat (length (gz_bytes h)),
    zs_avail_out := zs_avail_out z - length (gz_bytes h)\<rparr>)"
proof -
  let ?o = "zs_next_out z" and ?base = "gzip_base_bytes (gzip_header_flags h) h"
  let ?nm = "gz_str (gz_name h) (gz_name_buf_len h)" and ?cm = "gz_str (gz_comment h) (gz_comment_buf_len h)"
  let ?ex = "gz_extra_bytes h" and ?hc = "gz_hcrc_bytes h"
  have l: "length (gz_bytes h) = 10 + length ?ex + length ?nm + length ?cm + length ?hc"
    by (simp add: gz_bytes_def gz_body_bytes_def)
  have room: "?o + (10 + length ?ex + length ?nm + length ?cm + length ?hc) \<le> length (zs_out_buf z)"
    using len mem by (simp add: l)
  have sz: "gzip_header_size h = Some (Inr (of_nat (length ?nm), of_nat (length ?cm), of_nat (length (gz_bytes h))))"
    using len by (intro gzip_header_size ok) simp
  have u: "unat (of_nat (length ?nm) :: u32) = length ?nm" "unat (of_nat (length ?cm) :: u32) = length ?cm"
    "unat (of_nat (length (gz_bytes h)) :: u32) = length (gz_bytes h)" "unat (of_nat (zs_avail_out z) :: u32) = zs_avail_out z"
    by (rule unat_of_nat_lt; use len l in simp)+
  have c: "\<not> (of_nat (zs_avail_out z) :: u32) < of_nat (length (gz_bytes h))" using u len by (simp add: word_less_nat_alt)
  have p1: "put_bytes (zs_out_buf z) ?o ?base = Some (blit (zs_out_buf z) ?o ?base)" using room by (simp add: put_bytes_def)
  define b1 where "b1 = blit (zs_out_buf z) ?o ?base"
  define b2 where "b2 = blit (zs_out_buf z) ?o (?base @ ?ex)"
  define b3 where "b3 = blit (zs_out_buf z) ?o ((?base @ ?ex) @ ?nm)"
  define b4 where "b4 = blit (zs_out_buf z) ?o (((?base @ ?ex) @ ?nm) @ ?cm)"
  have e: "(case gz_extra h of None \<Rightarrow> Some (b1, ?o + 10) | Some extra \<Rightarrow> do {
             mem \<leftarrow> put_bytes b1 (?o + 10) (le_bytes 2 (gz_extra_len h));
             bs \<leftarrow> get_bytes extra 0 (unat (gz_extra_len h));
             mem \<leftarrow> put_bytes mem (?o + 10 + 2) bs;
             Some (mem, ?o + 10 + 2 + unat (gz_extra_len h)) }) = Some (b2, ?o + 10 + length ?ex)"
  proof (cases "gz_extra h")
    case None
    then show ?thesis by (simp add: b1_def b2_def gz_extra_bytes_def)
  next
    case (Some ext)
    let ?t = "take (unat (gz_extra_len h)) ext"
    have le: "unat (gz_extra_len h) \<le> length ext" using ok Some by (simp add: gz_header_ok_def)
    have ex: "?ex = le_bytes 2 (gz_extra_len h) @ ?t" by (simp add: gz_extra_bytes_def Some)
    have "put_bytes b1 (?o + 10) (le_bytes 2 (gz_extra_len h)) = Some (blit (zs_out_buf z) ?o (?base @ le_bytes 2 (gz_extra_len h)))"
      using room put_bytes_blit [of ?o ?base "le_bytes 2 (gz_extra_len h)"] by (simp add: b1_def ex)
    moreover have "put_bytes (blit (zs_out_buf z) ?o (?base @ le_bytes 2 (gz_extra_len h))) (12 + ?o) ?t = Some b2"
      using room put_bytes_blit [of ?o "?base @ le_bytes 2 (gz_extra_len h)" ?t] by (simp add: b2_def ex add.commute [of 12])
    ultimately show ?thesis using le by (simp add: Some get_bytes_def ex)
  qed
  have s: "(case st of None \<Rightarrow> Some (blit (zs_out_buf z) ?o xs, ?o + length xs) | Some s \<Rightarrow> do {
       bs \<leftarrow> get_bytes s 0 (length (gz_str st n));
       mem \<leftarrow> put_bytes (blit (zs_out_buf z) ?o xs) (?o + length xs) bs;
       Some (mem, ?o + length xs + length (gz_str st n)) })
      = Some (blit (zs_out_buf z) ?o (xs @ gz_str st n), ?o + length xs + length (gz_str st n))"
    if "str_ok st n" "?o + length xs + length (gz_str st n) \<le> length (zs_out_buf z)" for st n xs
  proof (cases st)
    case None
    then show ?thesis by (simp add: gz_str_def)
  next
    case (Some b)
    from gz_str_prefix [OF Some that(1)] put_bytes_blit [OF that(2)] show ?thesis by (simp add: Some)
  qed
  have ok2: "str_ok (gz_name h) (gz_name_buf_len h)" "str_ok (gz_comment h) (gz_comment_buf_len h)"
    using ok by (simp_all add: gz_header_ok_def)
  have l1: "?o + 10 + length ?ex = ?o + length (?base @ ?ex)" "?o + length (?base @ ?ex) + length ?nm = ?o + length ((?base @ ?ex) @ ?nm)"
    by simp_all
  note s3 = s [OF ok2(1), of "?base @ ?ex", folded b2_def b3_def]
  note s4 = s [OF ok2(2), of "(?base @ ?ex) @ ?nm", folded b3_def b4_def]
  have body: "gz_body_bytes h = ((?base @ ?ex) @ ?nm) @ ?cm" by (simp add: gz_body_bytes_def)
  have g: "get_bytes b4 ?o (10 + length ?ex + length ?nm + length ?cm) = Some (gz_body_bytes h)"
    using room unfolding b4_def body [symmetric]
    by (simp add: get_bytes_def drop_blit) (simp add: gz_body_bytes_def)
  have h: "(if gz_hcrc h \<noteq> 0 then do {
             bs \<leftarrow> get_bytes b4 ?o (10 + length ?ex + length ?nm + length ?cm);
             put_bytes b4 (?o + 10 + length ?ex + length ?nm + length ?cm) (le_bytes 2 (crc32_gzip_refl 0 bs)) } else Some b4)
      = Some (blit (zs_out_buf z) ?o (gz_bytes h))"
  proof (cases "gz_hcrc h = 0")
    case True
    then show ?thesis by (simp add: b4_def gz_bytes_def gz_hcrc_bytes_def body)
  next
    case False
    have "put_bytes b4 (?o + length (gz_body_bytes h)) ?hc = Some (blit (zs_out_buf z) ?o (gz_body_bytes h @ ?hc))"
      unfolding b4_def body [symmetric] using room by (intro put_bytes_blit) (simp add: gz_body_bytes_def)
    then show ?thesis using False g by (simp add: gz_bytes_def gz_hcrc_bytes_def) (simp add: gz_body_bytes_def add.assoc)
  qed
  have t: "?o + length ((?base @ ?ex) @ ?nm) + length ?cm - ?o = 10 + length ?ex + length ?nm + length ?cm"
    "?o + length ((?base @ ?ex) @ ?nm) + length ?cm = ?o + 10 + length ?ex + length ?nm + length ?cm" by simp_all
  have r: "?o + length (?base @ ?ex) + length ?nm \<le> length (zs_out_buf z)" "?o + length ((?base @ ?ex) @ ?nm) + length ?cm \<le> length (zs_out_buf z)"
    using room by simp_all
  show ?thesis
    unfolding isal_write_gzip_header_def Let_def sz Option.bind.simps sum.case prod.case u if_not_P [OF c] p1 b1_def [symmetric]
      GZIP_HDR_BASE_def GZIP_EXTRA_LEN_def e
    unfolding l1(1)
    unfolding s3 [OF r(1)] Option.bind.simps prod.case
    unfolding l1(2)
    unfolding s4 [OF r(2)] Option.bind.simps prod.case
    unfolding t(1)
    unfolding t(2)
    unfolding h Option.bind.simps prod.case ..
qed

section \<open>Reading the fields\<close>

text \<open>The state after \<open>k\<close> bytes, with the counter of a field at its end.\<close>

definition adv :: "nat \<Rightarrow> inflate_state \<Rightarrow> inflate_state" where
  "adv k s = (in_advance k s)\<lparr>type0_block_len := 0\<rparr>"

lemma adv_simps [simp]:
  "in_buf (adv k s) = in_buf s" "next_in (adv k s) = next_in s + k" "avail_in (adv k s) = avail_in s - k"
  "tmp_in_size (adv k s) = tmp_in_size s" "tmp_in_buffer (adv k s) = tmp_in_buffer s" "type0_block_len (adv k s) = 0"
  "avail_bytes (adv k s) = drop k (avail_bytes s)" "queued (adv k s) = queued s"
  by (simp_all add: adv_def queued_def)

lemma hdr_ok_adv: "hdr_ok s \<Longrightarrow> k \<le> avail_in s \<Longrightarrow> hdr_ok (adv k s)"
  by (simp add: adv_def)

lemma adv_add: "(in_advance n (adv k s))\<lparr>type0_block_len := 0\<rparr> = adv (k + n) s" "set_count 0 (in_advance n (adv k s)) = adv (k + n) s"
  by (simp_all add: adv_def set_count_def in_advance_def add.assoc)

lemma in_advance_adv: "in_advance n (adv k s) = adv (k + n) s"
  by (simp add: adv_def in_advance_def add.assoc)

text \<open>The bytes that are to be read are in the input.\<close>

definition reads :: "inflate_state \<Rightarrow> u8 list \<Rightarrow> bool" where
  "reads s bs \<longleftrightarrow> hdr_ok s \<and> tmp_in_size s = 0 \<and> (\<exists>rest. avail_bytes s = bs @ rest)"

lemma readsD:
  assumes "reads s (pre @ bs)"
  shows "length pre + length bs \<le> avail_in s" "take (length bs) (drop (length pre) (avail_bytes s)) = bs" "hdr_ok s"
    "hdr_ok (adv (length pre) s)" "tmp_in_size s = 0"
proof -
  obtain rest where r: "avail_bytes s = (pre @ bs) @ rest" and ok: "hdr_ok s" using assms by (auto simp: reads_def)
  have "avail_in s = length (pre @ bs) + length rest" using r ok by (metis length_append length_avail_ok)
  then show "length pre + length bs \<le> avail_in s" by simp
  then show "hdr_ok (adv (length pre) s)" by (intro hdr_ok_adv ok) simp
  show "take (length bs) (drop (length pre) (avail_bytes s)) = bs" by (simp add: r)
  show "hdr_ok s" "tmp_in_size s = 0" using assms by (simp_all add: reads_def)
qed

lemma read_fixed:
  assumes "reads s (pre @ bs)" "length bs \<le> 328"
  shows "fixed_size_read (adv (length pre) s) (length bs) = Some (0, bs, adv (length pre + length bs) s)"
proof -
  note r = readsD [OF assms(1)]
  have lt: "\<not> avail_in s - length pre < length bs" using r(1) by simp
  show ?thesis
    using r(2,5) lt fixed_size_read [OF r(4) assms(2)] by (simp add: queued_def fsr_ok_def in_advance_adv)
qed

lemma read_extra:
  assumes "reads s (pre @ bs)" "case buf of None \<Rightarrow> True | Some b \<Rightarrow> length bs \<le> unat bl \<and> length bs \<le> length b"
  shows "buffer_header_copy (adv (length pre) s) (length bs) buf bl 0 err
    = Some (0, map_option (\<lambda>b. blit b 0 bs) buf, adv (length pre + length bs) s)"
proof -
  note r = readsD [OF assms(1)]
  have m: "min (length bs) (avail_in s - length pre) = length bs" using r(1) by simp
  show ?thesis
  proof (cases buf)
    case None
    then show ?thesis using buffer_header_copy_None [of "adv (length pre) s" "length bs"] by (simp add: m adv_add)
  next
    case (Some b)
    have m2: "min (unat bl) (length bs) = length bs" "\<not> unat bl < length bs" "length bs \<le> length b" using assms(2) Some by simp_all
    show ?thesis using r(2) m2 buffer_header_copy_Some [OF r(4), of "length bs" b bl 0 err]
      by (simp add: Some m adv_add put_bytes_def)
  qed
qed

lemma read_string:
  assumes "reads s (pre @ str @ [0])" "0 \<notin> set str"
    "case buf of None \<Rightarrow> True | Some b \<Rightarrow> length str < unat bl \<and> length str < length b"
  shows "string_header_copy (adv (length pre) s) buf bl 0 err
    = Some (0, map_option (\<lambda>b. blit b 0 (str @ [0])) buf, adv (length pre + length (str @ [0])) s)"
proof -
  note r = readsD [OF assms(1)]
  obtain rest where av: "drop (length pre) (avail_bytes s) = str @ 0 # rest"
    using assms(1) by (auto simp: reads_def)
  have sl: "strnlen (str @ 0 # xs) = length str" for xs
  proof -
    have "strnlen str = length str"
      unfolding strnlen_def using assms(2) by (subst takeWhile_eq_all_conv [THEN iffD2]) auto
    moreover have "strnlen (0 # xs) = 0" by (simp add: strnlen_def)
    ultimately show ?thesis by (simp add: strnlen_append)
  qed
  show ?thesis
  proof (cases buf)
    case None
    have "length str \<noteq> avail_in s - length pre" using r(1) by simp
    then show ?thesis by (simp add: None string_header_copy_None [OF r(4)] av sl adv_add Let_def)
  next
    case (Some b)
    have l: "length str < unat bl" "length str < length b" using assms(3) Some by simp_all
    obtain k where k: "min (unat bl) (avail_in s - length pre) = length str + Suc k"
      using l r(1) by (metis add_Suc_right less_iff_Suc_add length_append_singleton min_less_iff_conj less_diff_conv add.commute Suc_le_eq)
    have "strnlen (take (min (unat bl) (avail_in s - length pre)) (str @ 0 # rest)) = length str"
      by (simp add: k sl)
    moreover have "length str \<noteq> avail_in s - length pre" using r(1) by simp
    ultimately show ?thesis
      using l string_header_copy_Some [OF r(4), of b bl 0 err] put_bytes_blit [of 0 str "[0]" b]
      by (simp add: Some av adv_add put_bytes_def)
  qed
qed

lemma gz_str_split:
  assumes "s = Some b" "str_ok s n"
  obtains str where "gz_str s n = str @ [0]" "0 \<notin> set str"
proof -
  let ?t = "take (unat n) b" and ?w = "takeWhile (\<lambda>c. c \<noteq> 0) (take (unat n) b)"
  have lt: "length ?w < length ?t" using assms by (simp add: str_ok_def strnlen_def)
  then have nz: "?t ! length ?w = 0" using nth_length_takeWhile [of "\<lambda>c. c \<noteq> 0" ?t] by simp
  have "take (length ?w + 1) b = take (length ?w + 1) ?t" using lt
    by (simp add: min_absorb1 Suc_le_eq)
  also have "\<dots> = take (length ?w) ?t @ [0]" using lt nz by (simp add: take_Suc_conv_app_nth)
  also have "take (length ?w) ?t = ?w" by (metis takeWhile_eq_take)
  finally have "gz_str s n = ?w @ [0]" by (simp add: gz_str_def assms(1) strnlen_def)
  moreover have "0 \<notin> set ?w" by (auto dest: set_takeWhileD)
  ultimately show thesis by (rule that)
qed

section \<open>Reading the header\<close>

text \<open>The buffers of the reader are large enough for the fields that are present.\<close>

definition fits :: "u8 list option \<Rightarrow> u32 \<Rightarrow> u8 list \<Rightarrow> bool" where
  "fits buf bl bs \<longleftrightarrow> (case buf of None \<Rightarrow> True | Some b \<Rightarrow> length bs \<le> unat bl \<and> length bs \<le> length b)"

definition gz_room :: "isal_gzip_header \<Rightarrow> isal_gzip_header \<Rightarrow> bool" where
  "gz_room rh h \<longleftrightarrow> fits (gz_extra rh) (gz_extra_buf_len rh) (drop 2 (gz_extra_bytes h))
    \<and> fits (gz_name rh) (gz_name_buf_len rh) (gz_str (gz_name h) (gz_name_buf_len h))
    \<and> fits (gz_comment rh) (gz_comment_buf_len rh) (gz_str (gz_comment h) (gz_comment_buf_len h))"

definition put_field :: "u8 list option \<Rightarrow> u8 list \<Rightarrow> u8 list option \<Rightarrow> u8 list option" where
  "put_field field bs buf = (if field = None then buf else map_option (\<lambda>b. blit b 0 bs) buf)"

lemma flag_tests:
  "gzip_header_flags h AND EXTRA_FLAG \<noteq> 0 \<longleftrightarrow> gz_extra h \<noteq> None" "gzip_header_flags h AND NAME_FLAG \<noteq> 0 \<longleftrightarrow> gz_name h \<noteq> None"
  "gzip_header_flags h AND COMMENT_FLAG \<noteq> 0 \<longleftrightarrow> gz_comment h \<noteq> None" "gzip_header_flags h AND HCRC_FLAG \<noteq> 0 \<longleftrightarrow> gz_hcrc h \<noteq> 0"
  "gzip_header_flags h AND TEXT_FLAG \<noteq> 0 \<longleftrightarrow> gz_text h \<noteq> 0" "ucast (ucast (gzip_header_flags h) :: u8) = gzip_header_flags h"
  unfolding gzip_header_flags_def wrapper_consts
  by (cases "gz_text h \<noteq> 0"; cases "gz_extra h \<noteq> None"; cases "gz_name h \<noteq> None"; cases "gz_comment h \<noteq> None"; cases "gz_hcrc h \<noteq> 0"; simp)+

lemma hdr_crc_adv:
  assumes "reads s bs"
  shows "hdr_crc 0 (next_in s) (adv (length bs) s) = crc32_gzip_refl 0 bs"
  using readsD [of s "[]" bs] assms avail_bytes_ok [of s] by (simp add: hdr_crc_def)

lemma read_flag_hcrc:
  assumes "reads s (gz_bytes h)"
  shows "gzip_flag_hcrc (next_in s) (gzip_header_flags h) 0 (adv (length (gz_body_bytes h)) s) rh
    = gzip_done (adv (length (gz_bytes h)) s) (if gz_hcrc h \<noteq> 0 then rh\<lparr>gz_hcrc := crc32_gzip_refl 0 (gz_body_bytes h)\<rparr> else rh)"
proof (cases "gz_hcrc h = 0")
  case True
  then show ?thesis by (simp add: gzip_flag_hcrc_def flag_tests gz_bytes_def gz_hcrc_bytes_def)
next
  case False
  let ?c = "crc32_gzip_refl 0 (gz_body_bytes h)"
  have hc: "gz_hcrc_bytes h = le_bytes 2 ?c" using False by (simp add: gz_hcrc_bytes_def)
  have r: "reads s (gz_body_bytes h @ le_bytes 2 ?c)" using assms by (simp add: gz_bytes_def hc)
  have "reads s (gz_body_bytes h)" using assms by (auto simp: reads_def gz_bytes_def)
  from hdr_crc_adv [OF this] read_fixed [OF r] have
    "hdr_crc 0 (next_in s) (adv (length (gz_body_bytes h)) s) = ?c"
    "fixed_size_read (adv (length (gz_body_bytes h)) s) 2 = Some (0, le_bytes 2 ?c, adv (length (gz_bytes h)) s)"
    by (simp_all add: gz_bytes_def hc)
  moreover have "?c AND 0xffff = ucast (load_le_u16 (le_bytes 2 ?c))"
  proof (rule bit_word_eqI)
    fix i assume i: "i < LENGTH(32)"
    have m: "bit (65535 :: u32) i \<longleftrightarrow> i < 16"
      using bit_mask_iff [of 16 i, where 'a = u32] i by (simp add: mask_eq_exp_minus_1)
    show "bit (?c AND 0xffff) i = bit (ucast (load_le_u16 (le_bytes 2 ?c)) :: u32) i"
    proof (cases "i < 16")
      case True
      then have "i div 8 < 2" "8 * (i div 8) + i mod 8 = i" by simp_all
      then show ?thesis using True m by (simp add: load_le_u16_def bit_simps bit_le_word)
    next
      case False
      then show ?thesis using m i by (simp add: load_le_u16_def bit_simps bit_le_word)
    qed
  qed
  ultimately show ?thesis using False
    by (simp add: gzip_flag_hcrc_def flag_tests gzip_hcrc_case_def GZIP_HCRC_LEN_def)
qed

lemma reads_prefix: "reads s (xs @ ys) \<Longrightarrow> reads s xs"
  by (auto simp: reads_def)

text \<open>A string field that is present is read by the string copy.\<close>

lemma read_str_field:
  assumes "reads s (pre @ gz_str st n)" "st \<noteq> None" "str_ok st n" "fits buf bl (gz_str st n)"
  shows "string_header_copy (adv (length pre) s) buf bl 0 err
    = Some (0, put_field st (gz_str st n) buf, adv (length pre + length (gz_str st n)) s)"
proof -
  obtain b where b: "st = Some b" using assms(2) by blast
  obtain str where str: "gz_str st n = str @ [0]" "0 \<notin> set str" using gz_str_split [OF b assms(3)] .
  show ?thesis
    using read_string [of s pre str bl buf err] assms(1,4) str(2) unfolding str(1) fits_def
    by (cases buf) (simp_all add: b put_field_def)
qed

definition gz_read_hcrc :: "isal_gzip_header \<Rightarrow> isal_gzip_header \<Rightarrow> isal_gzip_header" where
  "gz_read_hcrc h rh = (if gz_hcrc h \<noteq> 0 then rh\<lparr>gz_hcrc := crc32_gzip_refl 0 (gz_body_bytes h)\<rparr> else rh)"

lemma read_flag_comment:
  assumes r: "reads s (gz_bytes h)" and ok: "str_ok (gz_comment h) (gz_comment_buf_len h)"
    and room: "fits (gz_comment rh) (gz_comment_buf_len rh) (gz_str (gz_comment h) (gz_comment_buf_len h))"
    and body: "gz_body_bytes h = pre @ gz_str (gz_comment h) (gz_comment_buf_len h)"
  shows "gzip_flag_comment (next_in s) (gzip_header_flags h) 0 (adv (length pre) s) rh
    = gzip_done (adv (length (gz_bytes h)) s) (gz_read_hcrc h
        (rh\<lparr>gz_comment := put_field (gz_comment h) (gz_str (gz_comment h) (gz_comment_buf_len h)) (gz_comment rh)\<rparr>))"
proof (cases "gz_comment h = None")
  case True
  then show ?thesis using read_flag_hcrc [OF r, of rh]
    by (simp add: gzip_flag_comment_def flag_tests gz_read_hcrc_def put_field_def body gz_str_def)
next
  case False
  have "reads s (pre @ gz_str (gz_comment h) (gz_comment_buf_len h))"
    using reads_prefix [of s "gz_body_bytes h" "gz_hcrc_bytes h"] r by (simp add: gz_bytes_def body)
  from read_str_field [OF this False ok room] read_flag_hcrc [OF r] False show ?thesis
    by (simp add: gzip_flag_comment_def gzip_comment_case_def flag_tests gz_read_hcrc_def body)
qed

lemma read_flag_name:
  assumes r: "reads s (gz_bytes h)" and ok: "str_ok (gz_name h) (gz_name_buf_len h)" "str_ok (gz_comment h) (gz_comment_buf_len h)"
    and room: "fits (gz_name rh) (gz_name_buf_len rh) (gz_str (gz_name h) (gz_name_buf_len h))"
      "fits (gz_comment rh) (gz_comment_buf_len rh) (gz_str (gz_comment h) (gz_comment_buf_len h))"
    and body: "gz_body_bytes h = pre @ gz_str (gz_name h) (gz_name_buf_len h) @ gz_str (gz_comment h) (gz_comment_buf_len h)"
  shows "gzip_flag_name (next_in s) (gzip_header_flags h) 0 (adv (length pre) s) rh
    = gzip_done (adv (length (gz_bytes h)) s) (gz_read_hcrc h
        (rh\<lparr>gz_name := put_field (gz_name h) (gz_str (gz_name h) (gz_name_buf_len h)) (gz_name rh),
          gz_comment := put_field (gz_comment h) (gz_str (gz_comment h) (gz_comment_buf_len h)) (gz_comment rh)\<rparr>))"
proof -
  let ?nm = "gz_str (gz_name h) (gz_name_buf_len h)"
  have body2: "gz_body_bytes h = (pre @ ?nm) @ gz_str (gz_comment h) (gz_comment_buf_len h)" by (simp add: body)
  note c = read_flag_comment [OF r ok(2) _ body2]
  show ?thesis
  proof (cases "gz_name h = None")
    case True
    then show ?thesis using c [of rh] room(2)
      by (simp add: gzip_flag_name_def flag_tests put_field_def gz_str_def)
  next
    case False
    have "reads s (pre @ ?nm)"
      using reads_prefix [of s "pre @ ?nm"] r by (simp add: gz_bytes_def body)
    from read_str_field [OF this False ok(1) room(1)] c [of "rh\<lparr>gz_name := put_field (gz_name h) ?nm (gz_name rh)\<rparr>"] room(2) False
    show ?thesis by (simp add: gzip_flag_name_def gzip_name_case_def flag_tests)
  qed
qed

text \<open>The result of reading the whole header.\<close>

definition gz_read :: "isal_gzip_header \<Rightarrow> isal_gzip_header \<Rightarrow> isal_gzip_header" where
  "gz_read h rh = gz_read_hcrc h (rh\<lparr>
     gz_time := gz_time h, gz_xflags := gz_xflags h AND 0xff, gz_os := gz_os h AND 0xff,
     gz_text := if gz_text h \<noteq> 0 then 1 else 0, gz_flags := gzip_header_flags h,
     gz_extra_len := if gz_extra h \<noteq> None then gz_extra_len h else 0,
     gz_extra := put_field (gz_extra h) (drop 2 (gz_extra_bytes h)) (gz_extra rh),
     gz_name := put_field (gz_name h) (gz_str (gz_name h) (gz_name_buf_len h)) (gz_name rh),
     gz_comment := put_field (gz_comment h) (gz_str (gz_comment h) (gz_comment_buf_len h)) (gz_comment rh)\<rparr>)"

lemma ucast_u8_u32: "ucast (ucast (w :: u32) :: u8) = w AND 0xff"
  by (rule bit_word_eqI) (use bit_mask_iff [of 8, where 'a = u32] in \<open>auto simp: bit_simps mask_eq_exp_minus_1\<close>)

lemma load_16: "(w :: u32) \<le> 0xffff \<Longrightarrow> ucast (load_le_u16 (le_bytes 2 w)) = w"
proof -
  assume "w \<le> 0xffff"
  then have "unat w < 2 ^ 16" by (simp add: word_le_nat_alt)
  then have "unat (take_bit 16 w) = unat w" by (simp add: unsigned_take_bit_eq take_bit_nat_eq_self)
  then have "take_bit 16 w = w" by (rule unsigned_word_eqI)
  then have hi: "bit w i \<Longrightarrow> i < 16" for i by (metis bit_take_bit_iff)
  show ?thesis
  proof (rule bit_word_eqI)
    fix i assume i: "i < LENGTH(32)"
    show "bit (ucast (load_le_u16 (le_bytes 2 w)) :: u32) i = bit w i"
    proof (cases "i < 16")
      case True
      then have "i div 8 < 2" "8 * (i div 8) + i mod 8 = i" by simp_all
      then show ?thesis using True by (simp add: load_le_u16_def bit_simps bit_le_word)
    next
      case False
      then show ?thesis using hi i by (auto simp add: load_le_u16_def bit_simps bit_le_word)
    qed
  qed
qed

lemma read_extra_len:
  assumes r: "reads s (gz_bytes h)" and ok: "gz_header_ok h" and room: "gz_room rh h" and ex: "gz_extra h \<noteq> None"
  shows "gzip_extra_len_case (next_in s) (gzip_header_flags h) 0 (adv 10 s) rh
    = gzip_done (adv (length (gz_bytes h)) s) (gz_read_hcrc h (rh\<lparr>
        gz_extra_len := gz_extra_len h, gz_extra := put_field (gz_extra h) (drop 2 (gz_extra_bytes h)) (gz_extra rh),
        gz_name := put_field (gz_name h) (gz_str (gz_name h) (gz_name_buf_len h)) (gz_name rh),
        gz_comment := put_field (gz_comment h) (gz_str (gz_comment h) (gz_comment_buf_len h)) (gz_comment rh)\<rparr>))"
proof -
  let ?base = "gzip_base_bytes (gzip_header_flags h) h" and ?l2 = "le_bytes 2 (gz_extra_len h)"
  let ?nm = "gz_str (gz_name h) (gz_name_buf_len h)" and ?cm = "gz_str (gz_comment h) (gz_comment_buf_len h)"
  obtain e where e: "gz_extra h = Some e" "gz_extra_len h \<le> 0xffff" "unat (gz_extra_len h) \<le> length e"
    using ex ok by (auto simp: gz_header_ok_def)
  define ext where "ext = take (unat (gz_extra_len h)) e"
  have ext: "gz_extra_bytes h = ?l2 @ ext" "length ext = unat (gz_extra_len h)" using e by (simp_all add: ext_def gz_extra_bytes_def)
  have body: "gz_body_bytes h = (?base @ ?l2 @ ext) @ ?nm @ ?cm" by (simp add: gz_body_bytes_def ext)
  have r3: "reads s ((?base @ ?l2) @ ext)"
    using reads_prefix [of s "(?base @ ?l2) @ ext"] r by (simp add: gz_bytes_def body)
  then have r2: "reads s (?base @ ?l2)" by (rule reads_prefix)
  let ?rh = "rh\<lparr>gz_extra_len := gz_extra_len h\<rparr>"
  have "buffer_header_copy (adv 12 s) (unat (gz_extra_len h)) (gz_extra rh) (gz_extra_buf_len rh) 0 ISAL_EXTRA_OVERFLOW
      = Some (0, put_field (gz_extra h) ext (gz_extra rh), adv (12 + length ext) s)"
    using read_extra [OF r3] room by (simp add: gz_room_def fits_def ext put_field_def e flip: ext(2))
  moreover have "fixed_size_read (adv 10 s) 2 = Some (0, ?l2, adv 12 s)" using read_fixed [OF r2] by simp
  moreover have "gzip_flag_name (next_in s) (gzip_header_flags h) 0 (adv (12 + length ext) s)
      (?rh\<lparr>gz_extra := put_field (gz_extra h) ext (gz_extra rh)\<rparr>)
    = gzip_done (adv (length (gz_bytes h)) s) (gz_read_hcrc h (?rh\<lparr>gz_extra := put_field (gz_extra h) ext (gz_extra rh),
        gz_name := put_field (gz_name h) ?nm (gz_name rh), gz_comment := put_field (gz_comment h) ?cm (gz_comment rh)\<rparr>))"
    using read_flag_name [OF r _ _ _ _ body, of "?rh\<lparr>gz_extra := put_field (gz_extra h) ext (gz_extra rh)\<rparr>"] ok room
    by (simp add: gz_header_ok_def gz_room_def)
  ultimately show ?thesis
    by (simp add: gzip_extra_len_case_def gzip_extra_case_def GZIP_EXTRA_LEN_def load_16 e(2) ext(1) Let_def)
qed

lemma nth_base_bytes:
  "gzip_base_bytes f h ! 0 = 0x1f" "gzip_base_bytes f h ! 1 = 0x8b" "gzip_base_bytes f h ! Suc 0 = 0x8b"
  "unat (gzip_base_bytes f h ! 2) = DEFLATE_METHOD"
  "gzip_base_bytes f h ! 3 = ucast f" "load_le_u32 (drop 4 (gzip_base_bytes f h)) = gz_time h"
  "gzip_base_bytes f h ! 8 = ucast (gz_xflags h)" "gzip_base_bytes f h ! 9 = ucast (gz_os h)"
  by (simp_all add: gzip_base_bytes_def DEFLATE_METHOD_def load_le_u32_def le_word_le_bytes nth_append)

lemma isal_read_gzip_header_ok:
  assumes r: "reads s (gz_bytes h)" and ok: "gz_header_ok h" and room: "gz_room rh h" and b: "block_state s = ISAL_BLOCK_NEW_HDR"
  shows "isal_read_gzip_header s rh = gzip_done (adv (length (gz_bytes h)) s) (gz_read h rh)"
proof -
  let ?base = "gzip_base_bytes (gzip_header_flags h) h" and ?f = "gzip_header_flags h"
  have t: "tmp_in_size s = 0" using r by (simp add: reads_def)
  have r1: "reads s ([] @ ?base)" using reads_prefix [of s ?base] r by (simp add: gz_bytes_def gz_body_bytes_def)
  have f: "fixed_size_read (s\<lparr>type0_block_len := 0\<rparr>) GZIP_HDR_BASE = Some (0, ?base, adv 10 s)"
    using read_fixed [OF r1] by (simp add: GZIP_HDR_BASE_def adv_def in_advance_def)
  define rh1 where "rh1 = rh\<lparr>gz_time := gz_time h, gz_xflags := gz_xflags h AND 0xff, gz_os := gz_os h AND 0xff,
     gz_text := if gz_text h \<noteq> 0 then 1 else 0, gz_flags := ?f\<rparr>"
  have room1: "gz_room rh1 h" using room by (simp add: rh1_def gz_room_def)
  have "isal_read_gzip_header s rh = (if gz_extra h \<noteq> None then gzip_extra_len_case (next_in s) ?f 0 (adv 10 s) rh1
      else gzip_flag_name (next_in s) ?f 0 (adv 10 s) (rh1\<lparr>gz_extra_len := 0\<rparr>))"
    by (simp add: isal_read_gzip_header_def b t gzip_new_hdr_case_def f nth_base_bytes Let_def flag_tests rh1_def
      ucast_u8_u32 [of "gz_xflags h"] ucast_u8_u32 [of "gz_os h"])
  also have "\<dots> = gzip_done (adv (length (gz_bytes h)) s) (gz_read h rh)"
  proof (cases "gz_extra h = None")
    case True
    then have body: "gz_body_bytes h = ?base @ gz_str (gz_name h) (gz_name_buf_len h) @ gz_str (gz_comment h) (gz_comment_buf_len h)"
      by (simp add: gz_body_bytes_def gz_extra_bytes_def)
    show ?thesis
      using True read_flag_name [OF r _ _ _ _ body, of "rh1\<lparr>gz_extra_len := 0\<rparr>"] ok room1
      by (simp add: gz_header_ok_def gz_room_def rh1_def gz_read_def put_field_def)
  next
    case False
    then show ?thesis using read_extra_len [OF r ok room1 False] by (simp add: rh1_def gz_read_def)
  qed
  finally show ?thesis .
qed

section \<open>The zlib header\<close>

definition z_bytes :: "isal_zlib_header \<Rightarrow> u8 list" where
  "z_bytes h =
    (let d = (if z_dict_flag h \<noteq> 0 then ZLIB_DICT_FLAG else 0);
         cmf = of_nat DEFLATE_METHOD OR push_bit 4 (z_info h);
         flg = push_bit 6 (z_level h) OR d
     in [ucast cmf, ucast (flg + (31 - (256 * cmf + flg) mod 31))]
        @ (if z_dict_flag h \<noteq> 0 then rev (le_bytes 4 (z_dict_id h)) else []))"

lemma isal_write_zlib_header_ok:
  assumes "length (z_bytes h) \<le> zs_avail_out z" "zs_next_out z + zs_avail_out z \<le> length (zs_out_buf z)"
  shows "isal_write_zlib_header z h = Some (0, z\<lparr>zs_out_buf := blit (zs_out_buf z) (zs_next_out z) (z_bytes h),
    zs_next_out := zs_next_out z + length (z_bytes h), zs_total_out := zs_total_out z + of_nat (length (z_bytes h)),
    zs_avail_out := zs_avail_out z - length (z_bytes h)\<rparr>)"
proof -
  define out where "out = z_bytes h"
  have l: "length out = (if z_dict_flag h \<noteq> 0 then 6 else 2)" by (simp add: out_def z_bytes_def Let_def)
  have nz: "ZLIB_DICT_FLAG \<noteq> 0" by (simp add: ZLIB_DICT_FLAG_def)
  have "isal_write_zlib_header z h = do { z \<leftarrow> zs_put out z; Some (0, z) }"
    using assms(1) l nz unfolding out_def [symmetric]
    by (cases "z_dict_flag h = 0") (simp_all add: isal_write_zlib_header_def ZLIB_HDR_BASE_def ZLIB_DICT_LEN_def Let_def,
      simp_all add: out_def z_bytes_def Let_def)
  then show ?thesis using assms unfolding out_def [symmetric] by (simp add: zs_put_def put_bytes_def)
qed

text \<open>The two bytes of the header carry the four fields and are a multiple of 31.\<close>

definition z_two_bytes_ok :: "nat \<Rightarrow> nat \<Rightarrow> u32 \<Rightarrow> bool" where
  "z_two_bytes_ok i l d =
    (let cmf = 8 OR push_bit 4 (of_nat i) :: u32;
         flg = push_bit 6 (of_nat l) OR d;
         f = flg + (31 - (256 * cmf + flg) mod 31)
     in ucast (ucast cmf :: u8) AND 0xf = (8 :: u32) \<and> drop_bit 4 (ucast (ucast cmf :: u8)) = (of_nat i :: u32)
        \<and> ucast (ucast f :: u8) AND 0x20 = d \<and> drop_bit 6 (ucast (ucast f :: u8)) = (of_nat l :: u32)
        \<and> (256 * ucast (ucast cmf :: u8) + ucast (ucast f :: u8)) mod 31 = (0 :: u32))"

lemma z_two_bytes_all: "\<forall>i\<in>set [0..<16]. \<forall>l\<in>set [0..<4]. \<forall>d\<in>set [0, 0x20]. z_two_bytes_ok i l d"
  by (simp add: z_two_bytes_ok_def upt_conv_Cons)

lemma z_two_bytes: "i < 16 \<Longrightarrow> l < 4 \<Longrightarrow> d = 0 \<or> d = 0x20 \<Longrightarrow> z_two_bytes_ok i l d"
  using z_two_bytes_all by auto

definition z_header_ok :: "isal_zlib_header \<Rightarrow> bool" where
  "z_header_ok h \<longleftrightarrow> z_info h < 16 \<and> z_level h < 4"

lemma isal_read_zlib_header_ok:
  assumes r: "reads s (z_bytes h)" and ok: "z_header_ok h" and b: "block_state s = ISAL_BLOCK_NEW_HDR"
  shows "\<exists>s'. isal_read_zlib_header s rh = Some (0, s', rh\<lparr>z_info := z_info h, z_level := z_level h,
      z_dict_flag := if z_dict_flag h \<noteq> 0 then 1 else 0, z_dict_id := if z_dict_flag h \<noteq> 0 then z_dict_id h else z_dict_id rh\<rparr>)
    \<and> avail_bytes s' = drop (length (z_bytes h)) (avail_bytes s) \<and> wrapper_flag s' \<and> block_state s' = ISAL_BLOCK_NEW_HDR"
proof -
  let ?d = "if z_dict_flag h \<noteq> 0 then ZLIB_DICT_FLAG else 0"
  define cmf where "cmf = of_nat DEFLATE_METHOD OR push_bit 4 (z_info h)"
  define flg where "flg = push_bit 6 (z_level h) OR ?d"
  define f where "f = flg + (31 - (256 * cmf + flg) mod 31)"
  define dict where "dict = (if z_dict_flag h \<noteq> 0 then rev (le_bytes 4 (z_dict_id h)) else [])"
  have zb: "z_bytes h = [ucast cmf, ucast f] @ dict" by (simp add: z_bytes_def cmf_def flg_def f_def dict_def Let_def)
  have "z_two_bytes_ok (unat (z_info h)) (unat (z_level h)) ?d"
    using ok by (intro z_two_bytes) (auto simp: z_header_ok_def word_less_nat_alt ZLIB_DICT_FLAG_def)
  then have t: "ucast (ucast cmf :: u8) AND 0xf = (8 :: u32)" "drop_bit 4 (ucast (ucast cmf :: u8)) = z_info h"
    "ucast (ucast f :: u8) AND 0x20 = ?d" "drop_bit 6 (ucast (ucast f :: u8)) = z_level h"
    "(256 * ucast (ucast cmf :: u8) + ucast (ucast f :: u8)) mod 31 = (0 :: u32)"
    by (simp_all add: z_two_bytes_ok_def Let_def cmf_def flg_def f_def DEFLATE_METHOD_def)
  have r1: "reads (s\<lparr>type0_block_len := 0\<rparr>) ([] @ [ucast cmf, ucast f])" and t0: "tmp_in_size s = 0" and ok0: "hdr_ok s"
    using reads_prefix [of s "[ucast cmf, ucast f]" dict] r by (auto simp add: zb reads_def)
  have len: "length (z_bytes h) \<le> avail_in s" using readsD [of s "[]" "z_bytes h"] r by simp
  obtain rest where av: "avail_bytes s = z_bytes h @ rest" using r by (auto simp: reads_def)
  have f2: "fixed_size_read s 2 = Some (0, [ucast cmf, ucast f], in_advance 2 s)"
    using fixed_size_read [OF ok0, of 2] t0 len av by (simp add: zb queued_def fsr_ok_def)
  have dict2: "fixed_size_read (in_advance 2 s) 4 = Some (0, dict, in_advance 4 (in_advance 2 s))" if "z_dict_flag h \<noteq> 0"
  proof -
    have l: "length dict = 4" using that by (simp add: dict_def)
    have "hdr_ok (in_advance 2 s)" "\<not> avail_in s - 2 < 4" using len ok0 l by (simp_all add: zb)
    then show ?thesis
      using fixed_size_read [of "in_advance 2 s" 4] t0 av l by (simp add: zb queued_def fsr_ok_def)
  qed
  have id: "load_be_u32 (rev (le_bytes 4 w)) = (w :: u32)" for w by (simp add: load_be_u32_def le_word_le_bytes)
  show ?thesis
  proof (cases "z_dict_flag h = 0")
    case True
    then show ?thesis using t f2 b
      by (simp add: isal_read_zlib_header_def zlib_dict_case_def wrapper_consts Let_def zb dict_def) (simp add: numeral_2_eq_2)
  next
    case False
    then show ?thesis using t f2 b dict2 [OF False]
      by (simp add: isal_read_zlib_header_def zlib_dict_case_def wrapper_consts Let_def zb dict_def id)
  qed
qed

section \<open>Properties\<close>

lemma written_blit: "off + length bs \<le> length mem \<Longrightarrow> take (length bs) (drop off (blit mem off bs)) = bs"
  by (simp add: drop_blit)

text \<open>C8: the header written is the header read. When the output has room, \<open>isal_write_gzip_header\<close>
  succeeds, and \<open>isal_read_gzip_header\<close> on the bytes written, with any input behind them, returns
  \<open>ISAL_DECOMP_OK\<close> at the first byte behind the header with the time, the low bytes of xflags and os,
  the text flag, the extra field, the name and the comment that were given, after it has checked
  the header CRC if there is one. The same for the zlib header with its window size,
  level and dictionary.\<close>

theorem header_roundtrip:
  assumes "zs_next_out z + zs_avail_out z \<le> length (zs_out_buf z)" "zs_avail_out z < 2 ^ 32"
    and "length (tmp_in_buffer r) = 328" "tmp_in_size r = 0" "block_state r = ISAL_BLOCK_NEW_HDR"
    and "gz_header_ok h" "length (gz_bytes h) \<le> zs_avail_out z" "gz_room rh h"
    and "z_header_ok zh" "length (z_bytes zh) \<le> zs_avail_out z"
  shows "(\<exists>z' n. isal_write_gzip_header z h = Some (0, z') \<and> zs_next_out z' = zs_next_out z + n
      \<and> (\<exists>r'. isal_read_gzip_header (feed (take n (drop (zs_next_out z) (zs_out_buf z')) @ rest) r) rh = Some (ISAL_DECOMP_OK, r', gz_read h rh)
        \<and> avail_bytes r' = rest \<and> wrapper_flag r' \<and> block_state r' = ISAL_BLOCK_NEW_HDR))
    \<and> (\<exists>z' n. isal_write_zlib_header z zh = Some (0, z') \<and> zs_next_out z' = zs_next_out z + n
      \<and> (\<exists>r'. isal_read_zlib_header (feed (take n (drop (zs_next_out z) (zs_out_buf z')) @ rest) r) rzh
          = Some (0, r', rzh\<lparr>z_info := z_info zh, z_level := z_level zh, z_dict_flag := if z_dict_flag zh \<noteq> 0 then 1 else 0,
              z_dict_id := if z_dict_flag zh \<noteq> 0 then z_dict_id zh else z_dict_id rzh\<rparr>)
        \<and> avail_bytes r' = rest \<and> wrapper_flag r' \<and> block_state r' = ISAL_BLOCK_NEW_HDR))"
proof (intro conjI)
  have rd: "reads (feed (bs @ rest) r) bs" for bs using assms(3,4) by (simp add: reads_def)
  show "\<exists>z' n. isal_write_gzip_header z h = Some (0, z') \<and> zs_next_out z' = zs_next_out z + n
      \<and> (\<exists>r'. isal_read_gzip_header (feed (take n (drop (zs_next_out z) (zs_out_buf z')) @ rest) r) rh = Some (ISAL_DECOMP_OK, r', gz_read h rh)
        \<and> avail_bytes r' = rest \<and> wrapper_flag r' \<and> block_state r' = ISAL_BLOCK_NEW_HDR)"
    using isal_write_gzip_header_ok [OF assms(6,7,2,1)] isal_read_gzip_header_ok [OF rd assms(6,8)] assms(1,5,7)
    by (simp add: written_blit gzip_done_def)
  show "\<exists>z' n. isal_write_zlib_header z zh = Some (0, z') \<and> zs_next_out z' = zs_next_out z + n
      \<and> (\<exists>r'. isal_read_zlib_header (feed (take n (drop (zs_next_out z) (zs_out_buf z')) @ rest) r) rzh
          = Some (0, r', rzh\<lparr>z_info := z_info zh, z_level := z_level zh, z_dict_flag := if z_dict_flag zh \<noteq> 0 then 1 else 0,
              z_dict_id := if z_dict_flag zh \<noteq> 0 then z_dict_id zh else z_dict_id rzh\<rparr>)
        \<and> avail_bytes r' = rest \<and> wrapper_flag r' \<and> block_state r' = ISAL_BLOCK_NEW_HDR)"
    using isal_write_zlib_header_ok [OF assms(10,1)] isal_read_zlib_header_ok [OF rd assms(9)] assms(1,5,10)
    by (simp add: written_blit)
qed

theorem header_roundtrip_witness:
  "\<forall>z r. \<exists>z' n r'. isal_write_gzip_header (z\<lparr>zs_out_buf := replicate 64 0, zs_next_out := 1, zs_avail_out := 60\<rparr>)
      \<lparr>gz_text = 1, gz_time = 7, gz_xflags = 0x102, gz_os = 3, gz_extra = Some [9, 8], gz_extra_buf_len = 2, gz_extra_len = 2,
        gz_name = Some [65, 66, 0, 1], gz_name_buf_len = 4, gz_comment = None, gz_comment_buf_len = 0, gz_hcrc = 1, gz_flags = 0\<rparr> = Some (0, z')
    \<and> isal_read_gzip_header (feed (take n (drop 1 (zs_out_buf z')) @ [42])
        (r\<lparr>tmp_in_buffer := replicate 328 0, tmp_in_size := 0, block_state := ISAL_BLOCK_NEW_HDR\<rparr>))
        (isal_gzip_header_init undefined) = r' \<and> map_option (\<lambda>(x, s, h). (x, gz_time h, gz_xflags h)) r' = Some (ISAL_DECOMP_OK, 7, 2)"
proof (intro allI)
  fix z :: isal_zstream and r :: inflate_state
  let ?z = "z\<lparr>zs_out_buf := replicate 64 0, zs_next_out := 1, zs_avail_out := 60\<rparr>"
  let ?r = "r\<lparr>tmp_in_buffer := replicate 328 0, tmp_in_size := 0, block_state := ISAL_BLOCK_NEW_HDR\<rparr>"
  let ?h = "\<lparr>gz_text = 1, gz_time = 7, gz_xflags = 0x102, gz_os = 3, gz_extra = Some [9, 8], gz_extra_buf_len = 2, gz_extra_len = 2,
        gz_name = Some [65, 66, 0, 1], gz_name_buf_len = 4, gz_comment = None, gz_comment_buf_len = 0, gz_hcrc = 1, gz_flags = 0\<rparr>"
  let ?rh = "isal_gzip_header_init undefined" and ?zh = "\<lparr>z_info = 7, z_level = 2, z_dict_id = 5, z_dict_flag = 1\<rparr>"
  have ok: "gz_header_ok ?h" "gz_room ?rh ?h" "z_header_ok ?zh" "length (z_bytes ?zh) = 6"
    by (simp_all add: gz_header_ok_def str_ok_def strnlen_def gz_room_def fits_def isal_gzip_header_init_def z_header_ok_def z_bytes_def Let_def)
  have l: "length (gz_bytes ?h) = 19"
    by (simp add: gz_bytes_def gz_body_bytes_def gz_hcrc_bytes_def gz_extra_bytes_def gz_str_def strnlen_def)
  have "\<exists>z' n. isal_write_gzip_header ?z ?h = Some (0, z') \<and> zs_next_out z' = zs_next_out ?z + n
      \<and> (\<exists>r'. isal_read_gzip_header (feed (take n (drop (zs_next_out ?z) (zs_out_buf z')) @ [42]) ?r) ?rh = Some (ISAL_DECOMP_OK, r', gz_read ?h ?rh)
        \<and> avail_bytes r' = [42] \<and> wrapper_flag r' \<and> block_state r' = ISAL_BLOCK_NEW_HDR)"
    by (rule header_roundtrip [of ?z ?r ?h ?rh ?zh "[42]", THEN conjunct1]) (use ok l in simp_all)
  then obtain z' n r' where w: "isal_write_gzip_header ?z ?h = Some (0, z')"
    "isal_read_gzip_header (feed (take n (drop 1 (zs_out_buf z')) @ [42]) ?r) ?rh = Some (ISAL_DECOMP_OK, r', gz_read ?h ?rh)"
    by auto
  have "gz_time (gz_read ?h ?rh) = 7" "gz_xflags (gz_read ?h ?rh) = 2" by (simp_all add: gz_read_def gz_read_hcrc_def)
  with w show "\<exists>z' n r'. isal_write_gzip_header ?z ?h = Some (0, z')
    \<and> isal_read_gzip_header (feed (take n (drop 1 (zs_out_buf z')) @ [42]) ?r) ?rh = r'
    \<and> map_option (\<lambda>(x, s, h). (x, gz_time h, gz_xflags h)) r' = Some (ISAL_DECOMP_OK, 7, 2)"
    by (intro exI [of _ z'] exI [of _ n] exI) auto
qed

end
