(* ===== verification/Deflate_Stream.thy ===== *)
theory Deflate_Stream
  imports Deflate_Headers
begin

text \<open>
  The output side of \<open>igzip/igzip.c\<close>: the wrapper header and trailer of the stream, the header of a
  deflate block from the Huffman tables, the flushes, and stored blocks. Each operation writes as much as
  the output has room for and leaves the rest to a later call. The value \<open>None\<close> is an access
  outside of a buffer or a failed \<open>assert\<close>.
\<close>

section \<open>Constants\<close>

definition gzip_hdr_bytes :: nat where "gzip_hdr_bytes = 10"
definition gzip_trl_bytes :: nat where "gzip_trl_bytes = 8"
definition zlib_hdr_bytes :: nat where "zlib_hdr_bytes = 2"
definition zlib_trl_bytes :: nat where "zlib_trl_bytes = 4"
definition TYPE0_HDR_LEN :: nat where "TYPE0_HDR_LEN = 4"
definition TYPE0_BLK_HDR_LEN :: nat where "TYPE0_BLK_HDR_LEN = 5"
definition TYPE0_MAX_BLK_LEN :: u32 where "TYPE0_MAX_BLK_LEN = 65535"
definition FORCE_FLUSH :: nat where "FORCE_FLUSH = 64"

definition CODE_LIT :: u64 where "CODE_LIT = 1"
definition CODE_LIT_LENGTH :: nat where "CODE_LIT_LENGTH = 2"
definition CODE_10 :: u64 where "CODE_10 = 3"
definition CODE_10_LENGTH :: nat where "CODE_10_LENGTH = 4"
definition CODE_280 :: u64 where "CODE_280 = 0x0f"
definition CODE_280_LENGTH :: nat where "CODE_280_LENGTH = 4"
definition CODE_280_TOTAL_LENGTH :: nat where "CODE_280_TOTAL_LENGTH = 4 + 4 + 1"
definition END_OF_BLOCK :: u64 where "END_OF_BLOCK = 7"
definition END_OF_BLOCK_LEN :: nat where "END_OF_BLOCK_LEN = 4"
definition MIN_REPEAT_LEN :: nat where "MIN_REPEAT_LEN = 4 * 1024"
definition HEADER_LENGTH :: nat where "HEADER_LENGTH = 16"
definition MAX_FIXUP_CODE_LENGTH :: nat where "MAX_FIXUP_CODE_LENGTH = 8"

text \<open>The rows are arrays of five 32-bit words, the last one 0; only 16 bytes are copied.\<close>

definition repeated_char_header :: "u32 list list" where
  "repeated_char_header =
    [[0x0121c0ec, 0xc30c0000, 0x7d57fab0, 0x49270938, 0], [0x0121c0ec, 0xc30c0000, 0x7baaff30, 0x49270938, 0]]"

section \<open>The wrapper of the stream\<close>

definition zlib_header_in_buffer :: "isal_zstream \<Rightarrow> u8 list" where
  "zlib_header_in_buffer stream =
    (let hist_bits = (if zs_hist_bits stream = 0 then ISAL_DEF_MAX_HIST_BITS else zs_hist_bits stream);
         info = (if hist_bits > 8 then of_nat (hist_bits - 8) else 0) :: u8;
         level = (if zs_level stream = 0 then 0 else 1) :: u8;
         cmf = of_nat DEFLATE_METHOD OR push_bit 4 info :: u8;
         flg = push_bit 6 level :: u8;
         flg = ucast (ucast flg + (31 - (256 * ucast cmf + ucast flg) mod 31) :: u32)
     in [cmf, flg])"

text \<open>The ten bytes of \<open>buffer\<close>, of which \<open>hdr_bytes\<close> are used.\<close>

definition stream_header_bytes :: "isal_zstream \<Rightarrow> u8 list" where
  "stream_header_bytes stream =
    (if zs_gzip_flag stream = IGZIP_ZLIB then zlib_header_in_buffer stream @ [0x08, 0, 0, 0, 0, 0, 0, 0xff]
     else [0x1f, 0x8b, 0x08, 0, 0, 0, 0, 0, if zs_level stream = 0 then 0x04 else 0, 0xff])"

definition write_stream_header_stateless :: "isal_zstream \<Rightarrow> (int \<times> isal_zstream) option" where
  "write_stream_header_stateless stream =
    (if zs_has_wrap_hdr stream then Some (COMP_OK, stream)
     else
       let hdr_bytes = (if zs_gzip_flag stream = IGZIP_ZLIB then zlib_hdr_bytes else gzip_hdr_bytes)
       in if hdr_bytes \<ge> zs_avail_out stream then Some (STATELESS_OVERFLOW, stream)
          else do {
            stream \<leftarrow> zs_put (take hdr_bytes (stream_header_bytes stream)) stream;
            Some (COMP_OK, stream\<lparr>zs_has_wrap_hdr := True\<rparr>)
          })"

definition write_stream_header :: "isal_zstream \<Rightarrow> isal_zstream option" where
  "write_stream_header stream =
    (if zs_has_wrap_hdr stream then Some stream
     else
       let hdr_bytes = (if zs_gzip_flag stream = IGZIP_ZLIB then zlib_hdr_bytes else gzip_hdr_bytes);
           bytes_to_write = of_nat hdr_bytes - zs_count stream;
           bytes_to_write = (if bytes_to_write > of_nat (zs_avail_out stream) then of_nat (zs_avail_out stream) else bytes_to_write)
       in do {
         bs \<leftarrow> get_bytes (stream_header_bytes stream) (unat (zs_count stream)) (unat bytes_to_write);
         let stream = stream\<lparr>zs_count := zs_count stream + bytes_to_write\<rparr>;
         let stream = (if zs_count stream = of_nat hdr_bytes then stream\<lparr>zs_count := 0, zs_has_wrap_hdr := True\<rparr> else stream);
         zs_put bs stream
       })"

text \<open>The last bytes are written behind \<open>next_out\<close> although \<open>bytes\<close> were written by the bit buffer:
  \<open>next_out\<close> has been moved, \<open>avail_out\<close> has not.\<close>

definition write_trailer_end :: "isal_zstream \<Rightarrow> isal_zstream option" where
  "write_trailer_end stream =
    (if zs_gzip_flag stream \<in> {IGZIP_GZIP, IGZIP_GZIP_NO_HDR} then
       if zs_avail_out stream \<ge> gzip_trl_bytes then do {
         stream \<leftarrow> zs_put (le_bytes 8 (push_bit 32 (ucast (zs_total_in stream)) OR ucast (zs_crc stream) :: u64)) stream;
         Some (stream\<lparr>zs_state := ZSTATE_END\<rparr>)
       } else Some stream
     else if zs_gzip_flag stream \<in> {IGZIP_ZLIB, IGZIP_ZLIB_NO_HDR} then
       if zs_avail_out stream \<ge> zlib_trl_bytes then do {
         stream \<leftarrow> zs_put (rev (le_bytes 4 ((zs_crc stream AND 0xFFFF0000) OR ((zs_crc stream AND 0xFFFF) + 1) mod of_nat ADLER_MOD))) stream;
         Some (stream\<lparr>zs_state := ZSTATE_END\<rparr>)
       } else Some stream
     else Some (stream\<lparr>zs_state := ZSTATE_END\<rparr>))"

text \<open>The static block that holds only the end of block symbol is the ten bits of \<open>0x003\<close>.\<close>

definition write_trailer :: "isal_zstream \<Rightarrow> isal_zstream option" where
  "write_trailer stream =
    (let bb = zs_set_buf stream
     in if \<not> zs_has_eob_hdr stream \<and> zs_avail_out stream < 8 then Some (stream\<lparr>zs_bitbuf := bb\<rparr>)
        else do {
          bb \<leftarrow> (if \<not> zs_has_eob_hdr stream then write_bits bb 0x003 10 else Some bb);
          if \<not> zs_has_eob_hdr stream \<and> is_full bb then Some (zs_take_buf bb (stream\<lparr>zs_has_eob_hdr := True\<rparr>))
          else if m_bit_count bb \<noteq> 0 \<and> zs_avail_out stream < 8
          then Some (stream\<lparr>zs_has_eob_hdr := True, zs_bitbuf := bb, zs_out_buf := m_mem bb\<rparr>)
          else do {
            bb \<leftarrow> (if m_bit_count bb \<noteq> 0 then flush bb else Some bb);
            write_trailer_end (zs_take_buf bb (stream\<lparr>zs_has_eob_hdr := True\<rparr>))
          }
        })"

section \<open>Flushes\<close>

definition sync_flush :: "isal_zstream \<Rightarrow> isal_zstream option" where
  "sync_flush stream =
    (if zs_avail_out stream \<ge> 8 then do {
       let bb = zs_set_buf stream;
       let flush_size = (8 - ((m_bit_count bb + 3) mod 8)) mod 8;
       let bits_to_write = (push_bit (flush_size + 3) 0xFFFF0000 :: u64);
       let bits_len = 32 + flush_size + 3;
       bb \<leftarrow> write_bits bb bits_to_write bits_len;
       let stream = zs_take_buf bb (stream\<lparr>zs_state := ZSTATE_NEW_HDR, zs_has_eob := False\<rparr>);
       Some (if zs_flush stream = FULL_FLUSH then stream\<lparr>zs_has_hist := IGZIP_NO_HIST\<rparr> else stream)
     } else Some stream)"

definition flush_write_buffer :: "isal_zstream \<Rightarrow> isal_zstream option" where
  "flush_write_buffer stream =
    (if zs_avail_out stream \<ge> 8 then do {
       bb \<leftarrow> flush (zs_set_buf stream);
       Some (zs_take_buf bb (stream\<lparr>zs_state := ZSTATE_NEW_HDR\<rparr>))
     } else Some stream)"

section \<open>The header of a block\<close>

definition write_deflate_header_stateless :: "isal_zstream \<Rightarrow> (int \<times> isal_zstream) option" where
  "write_deflate_header_stateless stream =
    (let hufftables = zs_hufftables stream; n = unat (deflate_hdr_count hufftables)
     in do {
       b \<leftarrow> get_at (deflate_hdr hufftables) n;
       let hdr_extra_bits = (ucast b :: u64);
       if deflate_hdr_count hufftables + 8 \<ge> of_nat (zs_avail_out stream) then Some (STATELESS_OVERFLOW, stream)
       else do {
         bs \<leftarrow> get_bytes (deflate_hdr hufftables) 0 n;
         let (bs, hdr_extra_bits) =
           (if \<not> zs_end_of_stream stream
            then if deflate_hdr_count hufftables > 0 then (bs[0 := bs ! 0 - 1], hdr_extra_bits) else (bs, hdr_extra_bits - 1)
            else (bs, hdr_extra_bits));
         let stream = (if zs_end_of_stream stream then stream\<lparr>zs_has_eob_hdr := True\<rparr> else stream);
         stream \<leftarrow> zs_put bs stream;
         bb \<leftarrow> write_bits (zs_set_buf stream) hdr_extra_bits (unat (deflate_hdr_extra_bits hufftables));
         Some (COMP_OK, zs_take_buf bb (stream\<lparr>zs_state := ZSTATE_BODY\<rparr>))
       }
     })"

text \<open>The words of the header, 32 bits at a time; \<open>k\<close> is \<open>header_next\<close>.\<close>

function write_header_words :: "u8 list \<Rightarrow> nat \<Rightarrow> nat \<Rightarrow> u64 \<Rightarrow> BitBuf2 \<Rightarrow> (u64 \<times> BitBuf2) option" where
  "write_header_words hdr k header_end header_bits bb =
    (if k \<le> header_end then do {
       bb \<leftarrow> write_bits bb header_bits 32;
       bb \<leftarrow> write_bits bb (drop_bit 32 header_bits) 32;
       bs \<leftarrow> get_bytes hdr k 8;
       write_header_words hdr (k + 8) header_end (load_le_u64 bs) bb
     } else Some (header_bits, bb))"
  by pat_completeness auto
termination by (relation "measure (\<lambda>(hdr, k, e, _). e + 1 - k)") auto

declare write_header_words.simps [simp del]

definition write_deflate_header_unaligned_stateless :: "isal_zstream \<Rightarrow> (int \<times> isal_zstream) option" where
  "write_deflate_header_unaligned_stateless stream =
    (let hufftables = zs_hufftables stream; n = unat (deflate_hdr_count hufftables)
     in if m_bit_count (zs_bitbuf stream) = 0 then write_deflate_header_stateless stream
        else if deflate_hdr_count hufftables + 16 \<ge> of_nat (zs_avail_out stream) then Some (STATELESS_OVERFLOW, stream)
        else do {
          let bb = zs_set_buf stream;
          bs \<leftarrow> get_bytes (deflate_hdr hufftables) 0 8;
          let header_bits = (if zs_end_of_stream stream then load_le_u64 bs else load_le_u64 bs - 1);
          let stream = (if zs_end_of_stream stream then stream\<lparr>zs_has_eob_hdr := True\<rparr> else stream);
          (header_bits, bb) \<leftarrow> write_header_words (deflate_hdr hufftables) 8 (n div 8 * 8) header_bits bb;
          let bit_count = (n mod 8) * 8 + unat (deflate_hdr_extra_bits hufftables);
          (header_bits, bit_count, bb) \<leftarrow>
            (if bit_count > MAX_BITBUF_BIT_WRITE then do {
               bb \<leftarrow> write_bits bb header_bits MAX_BITBUF_BIT_WRITE;
               Some (drop_bit MAX_BITBUF_BIT_WRITE header_bits, bit_count - MAX_BITBUF_BIT_WRITE, bb)
             } else Some (header_bits, bit_count, bb));
          bb \<leftarrow> write_bits bb header_bits bit_count;
          bb \<leftarrow> check_space bb FORCE_FLUSH;
          Some (COMP_OK, zs_take_buf bb (stream\<lparr>zs_state := ZSTATE_BODY\<rparr>))
        })"

definition write_header :: "isal_zstream \<Rightarrow> u8 list \<Rightarrow> u32 \<Rightarrow> u32 \<Rightarrow> isal_zstate_state \<Rightarrow> bool \<Rightarrow> isal_zstream option" where
  "write_header stream hdr hdr_count extra_bits_count next_state toggle_end_of_stream = do {
     b \<leftarrow> get_at hdr (unat hdr_count);
     let hdr_extra_bits = (ucast b :: u32);
     let stream = stream\<lparr>zs_state := ZSTATE_HDR\<rparr>;
     if m_bit_count (zs_bitbuf stream) \<noteq> 0 \<and> zs_avail_out stream < 8 then Some stream
     else do {
       stream \<leftarrow> (if m_bit_count (zs_bitbuf stream) \<noteq> 0 then do {
                    bb \<leftarrow> flush (zs_set_buf stream);
                    Some (zs_take_buf bb stream)
                  } else Some stream);
       stream \<leftarrow> (if zs_gzip_flag stream = IGZIP_GZIP \<or> zs_gzip_flag stream = IGZIP_ZLIB then write_stream_header stream else Some stream);
       let count = hdr_count - zs_count stream;
       (count, hdr_extra_bits, stream) \<leftarrow>
         (if count \<noteq> 0 then do {
            let count = (if count > of_nat (zs_avail_out stream) then of_nat (zs_avail_out stream) else count);
            bs \<leftarrow> get_bytes hdr (unat (zs_count stream)) (unat count);
            let toggle = (toggle_end_of_stream \<and> zs_count stream = 0 \<and> count > 0);
            let bs = (if toggle then bs[0 := bs ! 0 XOR 1] else bs);
            let stream = (if toggle then stream\<lparr>zs_has_eob_hdr := \<not> zs_has_eob_hdr stream\<rparr> else stream);
            stream \<leftarrow> zs_put bs stream;
            let stream = stream\<lparr>zs_count := zs_count stream + count\<rparr>;
            Some (hdr_count - zs_count stream, hdr_extra_bits, stream)
          } else if toggle_end_of_stream \<and> hdr_count = 0
            then Some (count, hdr_extra_bits XOR 1, stream\<lparr>zs_has_eob_hdr := \<not> zs_has_eob_hdr stream\<rparr>)
            else Some (count, hdr_extra_bits, stream));
       if count = 0 \<and> zs_avail_out stream \<ge> 8 then do {
         bb \<leftarrow> write_bits (zs_set_buf stream) (ucast hdr_extra_bits) (unat extra_bits_count);
         Some (zs_take_buf bb (stream\<lparr>zs_state := next_state, zs_count := 0\<rparr>))
       } else Some stream
     }
   }"

end
