(* ===== verification/Deflate_Stored.thy ===== *)
theory Deflate_Stored
  imports Deflate_Stream
begin

text \<open>
  Stored blocks (\<open>write_type0_header\<close>, \<open>write_stored_block\<close> of \<open>igzip/igzip.c\<close>). The input of a block
  lies before \<open>next_in\<close>: \<open>block_next\<close> and \<open>block_end\<close> count from the start of the stream, like \<open>total_in\<close>.
\<close>

definition are_buffers_empty_hashX :: "isal_zstream \<Rightarrow> bool" where
  "are_buffers_empty_hashX stream \<longleftrightarrow> zs_avail_in stream = 0"

definition are_buffers_empty_hash_map :: "isal_zstream \<Rightarrow> bool" where
  "are_buffers_empty_hash_map stream \<longleftrightarrow> zs_avail_in stream = 0
    \<and> (case zs_level_buf stream of None \<Rightarrow> False | Some lb \<Rightarrow> lb_matches_next lb \<ge> lb_matches_end lb)"

definition are_buffers_empty :: "isal_zstream \<Rightarrow> bool" where
  "are_buffers_empty stream =
    (if zs_level stream = 3 then are_buffers_empty_hash_map stream else are_buffers_empty_hashX stream)"

text \<open>The four bytes of the header are the low half of \<open>stored_blk_hdr\<close>; the final bit goes before them.\<close>

definition write_type0_header :: "isal_zstream \<Rightarrow> isal_zstream option" where
  "write_type0_header stream =
    (let block_in_size = zs_block_end stream - zs_block_next stream;
         (stored_blk_hdr, copy_size, stream) =
           (if block_in_size > TYPE0_MAX_BLK_LEN then (0xFFFF :: u64, TYPE0_MAX_BLK_LEN, stream)
            else
              let stored_blk_hdr = push_bit 16 (ucast (NOT block_in_size)) OR ucast (block_in_size AND 0xFFFF);
                  block_next_offset = zs_total_in stream - zs_block_next stream;
                  avail_in = of_nat (zs_avail_in stream) + block_next_offset
              in (stored_blk_hdr, block_in_size,
                  if zs_end_of_stream stream \<and> avail_in = block_in_size then stream\<lparr>zs_has_eob_hdr := True\<rparr> else stream))
     in if m_bit_count (zs_bitbuf stream) = 0 \<and> zs_avail_out stream \<ge> TYPE0_HDR_LEN + 1 then do {
          stream \<leftarrow> zs_put (le_bytes 5 (push_bit 8 stored_blk_hdr OR of_bool (zs_has_eob_hdr stream))) stream;
          Some (stream\<lparr>zs_state := ZSTATE_TYPE0_BODY, zs_count := copy_size\<rparr>)
        } else if zs_avail_out stream \<ge> 8 then do {
          bb \<leftarrow> write_bits_flush (zs_set_buf stream) (of_bool (zs_has_eob_hdr stream)) 3;
          stream \<leftarrow> zs_put (le_bytes 4 stored_blk_hdr) (zs_take_buf bb stream);
          Some (stream\<lparr>zs_state := ZSTATE_TYPE0_BODY, zs_count := copy_size\<rparr>)
        } else Some (stream\<lparr>zs_has_eob_hdr := False\<rparr>))"

text \<open>The body of the loop behind the header: how much is copied, the copy, and what follows when the
  block is complete. The \<open>assert\<close> on \<open>count\<close> is kept; \<open>next_in\<close> goes back to the first byte that is not
  written yet.\<close>

definition stored_amount :: "isal_zstream \<Rightarrow> u32 \<times> isal_zstream" where
  "stored_amount stream =
    (let copy_size = zs_count stream;
         block_next_offset = zs_total_in stream - zs_block_next stream;
         avail_in = of_nat (zs_avail_in stream) + block_next_offset
     in if copy_size > of_nat (zs_avail_out stream) \<or> copy_size > avail_in
        then let copy_size = min (of_nat (zs_avail_out stream)) avail_in
             in (copy_size, stream\<lparr>zs_count := zs_count stream - copy_size\<rparr>)
        else (copy_size, stream\<lparr>zs_count := 0, zs_state := ZSTATE_TYPE0_HDR\<rparr>))"

definition stored_copy :: "nat \<Rightarrow> u32 \<Rightarrow> isal_zstream \<Rightarrow> isal_zstream option" where
  "stored_copy block_next_offset copy_size stream = do {
     bs \<leftarrow> (if block_next_offset > zs_next_in stream then None
            else get_bytes (zs_in_buf stream) (zs_next_in stream - block_next_offset) (unat copy_size));
     zs_put bs (stream\<lparr>zs_block_next := zs_block_next stream + copy_size\<rparr>)
   }"

definition stored_done :: "isal_zstream \<Rightarrow> isal_zstream option" where
  "stored_done stream =
    (if zs_block_next stream = zs_block_end stream then
       let stream = stream\<lparr>zs_state := if zs_has_eob_hdr stream then ZSTATE_TRL else ZSTATE_NEW_HDR\<rparr>
       in if zs_flush stream = FULL_FLUSH \<and> zs_state stream = ZSTATE_NEW_HDR \<and> are_buffers_empty stream
          then reset_match_history stream else Some stream
     else Some stream)"

definition stored_step :: "isal_zstream \<Rightarrow> isal_zstream option" where
  "stored_step stream =
    (if zs_count stream > zs_block_end stream - zs_block_next stream then None
     else do {
       let (copy_size, stream') = stored_amount stream;
       stream' \<leftarrow> stored_copy (unat (zs_total_in stream - zs_block_next stream)) copy_size stream';
       stored_done stream'
     })"

text \<open>The loop ends: each round that starts another one has copied \<open>count\<close> bytes behind a header.\<close>

lemma update_hash_table_fields:
  "update_hash_table f s = Some t \<Longrightarrow> zs_block_next t = zs_block_next s \<and> zs_block_end t = zs_block_end s \<and> zs_state t = zs_state s
    \<and> zs_count t = zs_count s \<and> zs_out_buf t = zs_out_buf s \<and> zs_next_out t = zs_next_out s"
  by (auto simp: update_hash_table_def bind_eq_Some_conv split: if_splits option.splits)

lemma reset_match_history_fields:
  "reset_match_history s = Some t \<Longrightarrow> zs_block_next t = zs_block_next s \<and> zs_block_end t = zs_block_end s \<and> zs_state t = zs_state s
    \<and> zs_count t = zs_count s \<and> zs_out_buf t = zs_out_buf s \<and> zs_next_out t = zs_next_out s"
  unfolding reset_match_history_def Let_def by (drule update_hash_table_fields) simp

lemma zs_put_fields:
  "zs_put bs s = Some t \<Longrightarrow> zs_block_next t = zs_block_next s \<and> zs_block_end t = zs_block_end s \<and> zs_state t = zs_state s
    \<and> zs_count t = zs_count s \<and> zs_total_in t = zs_total_in s"
  by (auto simp: zs_put_def bind_eq_Some_conv)

lemma stored_copy_fields:
  "stored_copy k n s = Some t \<Longrightarrow> zs_block_next t = zs_block_next s + n \<and> zs_block_end t = zs_block_end s \<and> zs_state t = zs_state s
    \<and> zs_count t = zs_count s \<and> zs_total_in t = zs_total_in s"
  by (auto simp: stored_copy_def bind_eq_Some_conv dest!: zs_put_fields split: if_splits)

lemma stored_done_again:
  assumes "stored_done s = Some t" "zs_state t = ZSTATE_TYPE0_HDR"
  shows "t = s" "zs_block_next s \<noteq> zs_block_end s"
proof -
  have "zs_block_next s \<noteq> zs_block_end s"
  proof
    assume "zs_block_next s = zs_block_end s"
    then show False using assms by (auto simp: stored_done_def Let_def dest!: reset_match_history_fields split: if_splits)
  qed
  then show "t = s" "zs_block_next s \<noteq> zs_block_end s" using assms(1) by (simp_all add: stored_done_def)
qed

lemma stored_step_again:
  assumes s: "stored_step s = Some t" and t: "zs_state t = ZSTATE_TYPE0_HDR" and body: "zs_state s \<noteq> ZSTATE_TYPE0_HDR"
  shows "zs_block_end t = zs_block_end s" "zs_block_next t \<noteq> zs_block_end t"
    "unat (zs_block_end t - zs_block_next t) = unat (zs_block_end s - zs_block_next s) - unat (zs_count s)"
proof -
  obtain n u where a: "stored_amount s = (n, u)" by fastforce
  obtain v where v: "stored_copy (unat (zs_total_in s - zs_block_next s)) n u = Some v" and d: "stored_done v = Some t"
    and le: "zs_count s \<le> zs_block_end s - zs_block_next s"
    using s by (auto simp: stored_step_def a bind_eq_Some_conv split: if_splits)
  have v2: "v = t" "zs_block_next v \<noteq> zs_block_end v" using stored_done_again [OF d t] by simp_all
  have "zs_state u = ZSTATE_TYPE0_HDR" using stored_copy_fields [OF v] v2 t by simp
  then have u: "n = zs_count s" "zs_block_next u = zs_block_next s" "zs_block_end u = zs_block_end s"
    using a body by (auto simp: stored_amount_def Let_def split: if_splits)
  then have r: "zs_block_end t = zs_block_end s" "zs_block_next t = zs_block_next s + zs_count s"
    using stored_copy_fields [OF v] v2 by simp_all
  show "zs_block_end t = zs_block_end s" "zs_block_next t \<noteq> zs_block_end t" using r v2 by simp_all
  have "zs_block_end t - zs_block_next t = zs_block_end s - zs_block_next s - zs_count s" using r by simp
  then show "unat (zs_block_end t - zs_block_next t) = unat (zs_block_end s - zs_block_next s) - unat (zs_count s)"
    using le by (simp add: unat_sub)
qed

lemma write_type0_header_body:
  assumes "write_type0_header s = Some t" "zs_state t \<noteq> ZSTATE_TYPE0_HDR" "zs_state s = ZSTATE_TYPE0_HDR"
  shows "zs_block_end t = zs_block_end s" "zs_block_next t = zs_block_next s"
    "zs_count t = min (zs_block_end s - zs_block_next s) TYPE0_MAX_BLK_LEN"
  using assms
  by (auto simp: write_type0_header_def Let_def bind_eq_Some_conv zs_take_buf_def min_def dest!: zs_put_fields split: if_splits)

function write_stored_block :: "isal_zstream \<Rightarrow> (u32 \<times> isal_zstream) option" where
  "write_stored_block stream = do {
     stream \<leftarrow> (if zs_state stream = ZSTATE_TYPE0_HDR then write_type0_header stream else Some stream);
     if zs_state stream = ZSTATE_TYPE0_HDR then Some (zs_block_end stream - zs_block_next stream, stream)
     else do {
       stream \<leftarrow> stored_step stream;
       if zs_state stream = ZSTATE_TYPE0_HDR then write_stored_block stream
       else Some (zs_block_end stream - zs_block_next stream, stream)
     }
   }"
  by pat_completeness auto
termination
proof (relation "measure (\<lambda>s. 2 * unat (zs_block_end s - zs_block_next s) + (if zs_state s = ZSTATE_TYPE0_HDR then 0 else 1))", simp)
  fix s t u
  assume h: "(if zs_state s = ZSTATE_TYPE0_HDR then write_type0_header s else Some s) = Some t"
    and t: "zs_state t \<noteq> ZSTATE_TYPE0_HDR" and u: "stored_step t = Some u" "zs_state u = ZSTATE_TYPE0_HDR"
  note a = stored_step_again [OF u t]
  show "(u, s) \<in> measure (\<lambda>s. 2 * unat (zs_block_end s - zs_block_next s) + (if zs_state s = ZSTATE_TYPE0_HDR then 0 else 1))"
  proof (cases "zs_state s = ZSTATE_TYPE0_HDR")
    case True
    then have w: "write_type0_header s = Some t" using h by simp
    note b = write_type0_header_body [OF w t True]
    have "zs_block_next s \<noteq> zs_block_end s"
    proof
      assume e: "zs_block_next s = zs_block_end s"
      then have "zs_count t = 0" "zs_block_next t = zs_block_end t" using b by (simp_all add: min_def TYPE0_MAX_BLK_LEN_def)
      then have "unat (zs_block_end u - zs_block_next u) = 0" using a by simp
      then show False using a by (simp add: unat_eq_0)
    qed
    then have "0 < unat (zs_block_end s - zs_block_next s)" by (simp add: unat_gt_0)
    moreover have "0 < unat (zs_count t)" using b(3) calculation by (auto simp: min_def TYPE0_MAX_BLK_LEN_def unat_gt_0)
    ultimately show ?thesis using a b True u by simp
  next
    case False
    then show ?thesis using h a u by simp
  qed
qed

declare write_stored_block.simps [simp del]

end
