(* ===== verification/Deflate_Match.thy ===== *)
theory Deflate_Match
  imports Deflate_State
begin

text \<open>
  \<open>igzip/huffman.h\<close>: positions of bits, codes of literals, lengths and distances, hashes and the
  comparison of two strings. A failed \<open>assert\<close> and a load outside of the memory block are \<open>None\<close>.
\<close>

section \<open>Bits\<close>

definition bsr :: "u32 \<Rightarrow> nat" where
  "bsr val = (if val = 0 then 0 else 32 - length (takeWhile (\<lambda>i. \<not> bit val i) (rev [0..<32])))"

definition tzbytecnt :: "u64 \<Rightarrow> nat" where
  "tzbytecnt val = (if val = 0 then 64 else length (takeWhile (\<lambda>i. \<not> bit val i) [0..<64])) div 8"

section \<open>Codes\<close>

definition IGZIP_DIST_TABLE_SIZE :: nat where "IGZIP_DIST_TABLE_SIZE = 2"
definition IGZIP_DECODE_OFFSET :: nat where "IGZIP_DECODE_OFFSET = 0"
definition SHORTEST_MATCH :: nat where "SHORTEST_MATCH = 4"

definition compute_dist_code :: "isal_hufftables \<Rightarrow> u16 \<Rightarrow> (u64 \<times> nat) option" where
  "compute_dist_code hufftables dist =
    (if unat dist \<le> IGZIP_DIST_TABLE_SIZE then None
     else
       let dist = dist - 1;
           msb = bsr (ucast dist)
       in if msb < 2 then None
          else
            let num_extra_bits = msb - 2;
                extra_bits = (ucast dist :: u32) AND (push_bit num_extra_bits 1 - 1);
                dist = drop_bit num_extra_bits dist;
                sym = unat dist + 2 * num_extra_bits
            in if sym \<ge> 30 then None
               else do {
                 code \<leftarrow> get_at (dcodes hufftables) (sym - IGZIP_DECODE_OFFSET);
                 len \<leftarrow> get_at (dcodes_sizes hufftables) (sym - IGZIP_DECODE_OFFSET);
                 Some (ucast (ucast code OR push_bit (unat len) extra_bits), unat len + num_extra_bits)
               })"

definition get_dist_code :: "isal_hufftables \<Rightarrow> u32 \<Rightarrow> (u64 \<times> nat) option" where
  "get_dist_code hufftables dist =
    (if dist < 1 \<or> dist > 32768 then None
     else if unat dist \<le> IGZIP_DIST_TABLE_SIZE then do {
       code_len \<leftarrow> get_at (dist_table hufftables) (unat (dist - 1));
       Some (ucast (drop_bit 5 code_len), unat (code_len AND 0x1F))
     } else compute_dist_code hufftables (ucast dist))"

definition get_len_code :: "isal_hufftables \<Rightarrow> nat \<Rightarrow> (u64 \<times> nat) option" where
  "get_len_code hufftables len =
    (if len < 3 \<or> len > 258 then None
     else do {
       code_len \<leftarrow> get_at (len_table hufftables) (len - 3);
       Some (ucast (drop_bit 5 code_len), unat (code_len AND 0x1F))
     })"

definition get_lit_code :: "isal_hufftables \<Rightarrow> nat \<Rightarrow> (u64 \<times> nat) option" where
  "get_lit_code hufftables lit =
    (if lit > 256 then None
     else do {
       code \<leftarrow> get_at (lit_table hufftables) lit;
       len \<leftarrow> get_at (lit_table_sizes hufftables) lit;
       Some (ucast code, unat len)
     })"

text \<open>For intermediate symbols: the code and the extra bits.\<close>

definition compute_dist_icf_code :: "u32 \<Rightarrow> (nat \<times> u32) option" where
  "compute_dist_icf_code dist =
    (let dist = dist - 1;
         msb = bsr dist
     in if msb < 2 then None
        else
          let num_extra_bits = msb - 2;
              extra_bits = dist AND (push_bit num_extra_bits 1 - 1);
              dist = drop_bit num_extra_bits dist;
              code = unat dist + 2 * num_extra_bits
          in if code \<ge> 30 then None else Some (code, extra_bits))"

definition get_dist_icf_code :: "u32 \<Rightarrow> (nat \<times> u32) option" where
  "get_dist_icf_code dist =
    (if dist < 1 \<or> dist > 32768 then None
     else if dist \<le> 2 then Some (unat (dist - 1), 0)
     else compute_dist_icf_code dist)"

definition get_len_icf_code :: "nat \<Rightarrow> nat option" where
  "get_len_icf_code len = (if len < 3 \<or> len > 258 then None else Some (len + 254))"

definition get_lit_icf_code :: "nat \<Rightarrow> nat option" where
  "get_lit_icf_code lit = (if lit > 256 then None else Some lit)"

section \<open>Hashes\<close>

text \<open>The portable variant, without the CRC instruction.\<close>

definition compute_hash :: "u32 \<Rightarrow> u32" where
  "compute_hash data =
    (let hash = ucast data :: u64;
         hash = drop_bit 16 (hash * 0xB2D06057);
         hash = drop_bit 16 (hash * 0xB2D06057)
     in ucast hash)"

definition compute_hash_mad :: "u32 \<Rightarrow> u32" where
  "compute_hash_mad data =
    (let step = (\<lambda>data. 0xFFFFE84B * scast (ucast data :: u16) + 0xFFFF97B1 * scast (ucast (drop_bit 16 data) :: u16) :: u32)
     in step (step data))"

section \<open>Comparison\<close>

text \<open>The 8-byte loop; \<open>Inl\<close> is the early return.\<close>

fun compare_words :: "u8 list \<Rightarrow> nat \<Rightarrow> nat \<Rightarrow> nat \<Rightarrow> nat \<Rightarrow> (nat + nat) option" where
  "compare_words mem a b cnt 0 = Some (Inr cnt)"
| "compare_words mem a b cnt (Suc k) = do {
     x \<leftarrow> get_bytes mem a 8;
     y \<leftarrow> get_bytes mem b 8;
     let test = load_le_u64 x XOR load_le_u64 y;
     if test \<noteq> 0 then Some (Inl (cnt + tzbytecnt test)) else compare_words mem (a + 8) (b + 8) (cnt + 8) k
   }"

text \<open>The cases of the \<open>switch\<close>, which fall through.\<close>

fun compare_tail :: "u8 list \<Rightarrow> nat \<Rightarrow> nat \<Rightarrow> nat \<Rightarrow> nat \<Rightarrow> nat option" where
  "compare_tail mem a b cnt 0 = Some cnt"
| "compare_tail mem a b cnt (Suc k) = do {
     x \<leftarrow> get_at mem a;
     y \<leftarrow> get_at mem b;
     if x \<noteq> y then Some cnt else compare_tail mem (a + 1) (b + 1) (cnt + 1) k
   }"

definition compare :: "u8 list \<Rightarrow> nat \<Rightarrow> nat \<Rightarrow> nat \<Rightarrow> nat option" where
  "compare mem a b max_length = do {
     r \<leftarrow> compare_words mem a b 0 (max_length div 8);
     case r of Inl n \<Rightarrow> Some n
     | Inr cnt \<Rightarrow> compare_tail mem (a + cnt) (b + cnt) cnt (max_length mod 8)
   }"

definition compare258 :: "u8 list \<Rightarrow> nat \<Rightarrow> nat \<Rightarrow> nat \<Rightarrow> nat option" where
  "compare258 mem a b max_length = compare mem a b (min max_length 258)"

section \<open>The comparison finds the common prefix\<close>

text \<open>The length of the longest common prefix, up to \<open>n\<close>.\<close>

fun common :: "u8 list \<Rightarrow> nat \<Rightarrow> nat \<Rightarrow> nat \<Rightarrow> nat" where
  "common mem a b 0 = 0"
| "common mem a b (Suc n) = (if mem ! a = mem ! b then Suc (common mem (a + 1) (b + 1) n) else 0)"

lemma common_le: "common mem a b n \<le> n"
  by (induction n arbitrary: a b) auto

lemma common_eq: "i < common mem a b n \<Longrightarrow> mem ! (a + i) = mem ! (b + i)"
proof (induction n arbitrary: a b i)
  case (Suc n)
  show ?case
  proof (cases i)
    case 0
    then show ?thesis using Suc.prems by (simp split: if_splits)
  next
    case (Suc j)
    then show ?thesis using Suc.prems Suc.IH [of j "a + 1" "b + 1"] by (simp split: if_splits)
  qed
qed simp

lemma common_stop: "common mem a b n < n \<Longrightarrow> mem ! (a + common mem a b n) \<noteq> mem ! (b + common mem a b n)"
proof (induction n arbitrary: a b)
  case (Suc n)
  then show ?case using Suc.IH [of "a + 1" "b + 1"] by (simp split: if_splits)
qed simp

lemma common_unique:
  assumes "k \<le> n" "\<And>i. i < k \<Longrightarrow> mem ! (a + i) = mem ! (b + i)" "k < n \<Longrightarrow> mem ! (a + k) \<noteq> mem ! (b + k)"
  shows "common mem a b n = k"
proof (rule ccontr)
  assume "common mem a b n \<noteq> k"
  then consider "common mem a b n < k" | "k < common mem a b n" by linarith
  then show False
    using assms common_le [of mem a b n] common_eq [of k mem a b n] common_stop [of mem a b n] by cases auto
qed

lemma common_add:
  "common mem a b (m + n) = (if common mem a b m = m then m + common mem (a + m) (b + m) n else common mem a b m)"
proof (induction m arbitrary: a b)
  case (Suc m)
  then show ?case using common_le [of mem "a + 1" "b + 1" m] by simp
qed simp

text \<open>The first byte in which two words differ.\<close>

lemma tzbytecnt:
  assumes "length xs = 8" "length ys = 8" "le_word xs XOR le_word ys \<noteq> (0 :: u64)"
  defines "k \<equiv> tzbytecnt (le_word xs XOR le_word ys)"
  shows "k < 8" "\<forall>i<k. xs ! i = ys ! i" "xs ! k \<noteq> ys ! k"
proof -
  let ?v = "le_word xs XOR le_word ys :: u64"
  let ?w = "takeWhile (\<lambda>i. \<not> bit ?v i) [0..<64]"
  have "\<exists>i. bit ?v i"
  proof (rule ccontr)
    assume "\<not> (\<exists>i. bit ?v i)"
    then have "?v = 0" by (intro bit_word_eqI) simp
    then show False using assms(3) by simp
  qed
  then obtain i where "bit ?v i" by blast
  then have i: "bit ?v i" "i < 64" using bit_imp_le_length [of ?v i] by simp_all
  have lt: "length ?w < 64"
  proof (rule ccontr)
    assume "\<not> length ?w < 64"
    then have "length ?w = length [0..<64]" using length_takeWhile_le [of "\<lambda>i. \<not> bit ?v i" "[0..<64]"] by simp
    then have "?w = [0..<64]" by (metis takeWhile_eq_take take_all order_refl)
    then show False using i by (metis atLeastLessThan_iff set_takeWhileD set_upt zero_le)
  qed
  then have b: "bit ?v (length ?w)"
    using nth_length_takeWhile [of "\<lambda>i. \<not> bit ?v i" "[0..<64]"] by simp
  have nb: "\<not> bit ?v j" if "j < length ?w" for j
  proof -
    have "?w ! j = j" using that lt by (simp add: takeWhile_nth)
    then show ?thesis using that by (metis nth_mem set_takeWhileD)
  qed
  have k: "k = length ?w div 8" using assms(3) by (simp add: k_def tzbytecnt_def)
  show "k < 8" using lt by (simp add: k)
  have bv: "bit ?v j \<longleftrightarrow> bit (xs ! (j div 8)) (j mod 8) \<noteq> bit (ys ! (j div 8)) (j mod 8)" if "j < 64" for j
    using that assms(1,2) by (simp add: bit_xor_iff bit_le_word)
  show "\<forall>i<k. xs ! i = ys ! i"
  proof (intro allI impI)
    fix i assume i: "i < k"
    show "xs ! i = ys ! i"
    proof (rule bit_word_eqI)
      fix j assume "j < LENGTH(8)"
      then have j: "j < 8" by simp
      have "8 * i + j < length ?w" using i j unfolding k by linarith
      then show "bit (xs ! i) j = bit (ys ! i) j" using nb [of "8 * i + j"] bv [of "8 * i + j"] j lt by simp
    qed
  qed
  show "xs ! k \<noteq> ys ! k" using b bv [OF lt] by (auto simp: k)
qed

lemma compare_words:
  assumes "a + 8 * k \<le> length mem" "b + 8 * k \<le> length mem"
  shows "compare_words mem a b cnt k
    = Some (if common mem a b (8 * k) = 8 * k then Inr (cnt + 8 * k) else Inl (cnt + common mem a b (8 * k)))"
  using assms
proof (induction k arbitrary: a b cnt)
  case (Suc k)
  let ?x = "take 8 (drop a mem)" and ?y = "take 8 (drop b mem)"
  let ?v = "le_word ?x XOR le_word ?y :: u64"
  have len: "length ?x = 8" "length ?y = 8" using Suc.prems by simp_all
  have len64: "8 * length ?x \<le> LENGTH(64)" "8 * length ?y \<le> LENGTH(64)" using len by simp_all
  have g: "get_bytes mem a 8 = Some ?x" "get_bytes mem b 8 = Some ?y" using Suc.prems by (simp_all add: get_bytes_def)
  have nth: "?x ! i = mem ! (a + i)" "?y ! i = mem ! (b + i)" if "i < 8" for i using that Suc.prems by simp_all
  have ld: "load_le_u64 ?x XOR load_le_u64 ?y = ?v" by (simp add: load_le_u64_def)
  have s: "8 * Suc k = 8 + 8 * k" by simp
  show ?case
  proof (cases "?v = 0")
    case True
    then have "(le_word ?x :: u64) = le_word ?y" by simp
    then have "le_bytes (length ?x) (le_word ?x :: u64) = le_bytes (length ?y) (le_word ?y :: u64)" using len by simp
    then have "?x = ?y" unfolding le_bytes_le_word [OF len64(1)] le_bytes_le_word [OF len64(2)] .
    then have "mem ! (a + i) = mem ! (b + i)" if "i < 8" for i using nth that by metis
    then have c: "common mem a b 8 = 8" by (intro common_unique) simp_all
    have "compare_words mem a b cnt (Suc k) = compare_words mem (a + 8) (b + 8) (cnt + 8) k"
      using True by (simp add: g load_le_u64_def Let_def)
    also have "\<dots> = Some (if common mem (a + 8) (b + 8) (8 * k) = 8 * k then Inr (cnt + 8 + 8 * k)
        else Inl (cnt + 8 + common mem (a + 8) (b + 8) (8 * k)))"
      using Suc.prems by (intro Suc.IH) simp_all
    finally show ?thesis unfolding s common_add c by simp
  next
    case False
    note t = tzbytecnt [OF len False]
    have c: "common mem a b 8 = tzbytecnt ?v" using t nth by (intro common_unique) auto
    moreover have "load_le_u64 ?x \<noteq> load_le_u64 ?y" using False by (auto simp: load_le_u64_def)
    ultimately show ?thesis unfolding s common_add using t(1) by (simp add: g ld)
  qed
qed simp

lemma compare_tail:
  "a + k \<le> length mem \<Longrightarrow> b + k \<le> length mem \<Longrightarrow> compare_tail mem a b cnt k = Some (cnt + common mem a b k)"
  by (induction k arbitrary: a b cnt) (auto simp: get_at_def)

text \<open>\<open>compare\<close> returns the length of the longest common prefix.\<close>

lemma compare:
  assumes "a + n \<le> length mem" "b + n \<le> length mem"
  shows "compare mem a b n = Some (common mem a b n)"
proof -
  have n: "n = 8 * (n div 8) + n mod 8" by simp
  let ?q = "8 * (n div 8)"
  have l: "a + ?q \<le> length mem" "b + ?q \<le> length mem" "a + ?q + n mod 8 \<le> length mem" "b + ?q + n mod 8 \<le> length mem"
    using assms n by linarith+
  have "common mem a b n = (if common mem a b ?q = ?q then ?q + common mem (a + ?q) (b + ?q) (n mod 8) else common mem a b ?q)"
    by (subst n) (rule common_add)
  then show ?thesis using l by (simp add: compare_def compare_words compare_tail)
qed

end
