(* ===== verification/Deflate_Body.thy ===== *)
theory Deflate_Body
  imports Deflate_Match
begin

text \<open>
  The level 0 compressor, \<open>igzip/igzip_base.c\<close>: a hash table of the positions of 4-byte strings
  proposes a match, \<open>compare258\<close> verifies it, the code of the match or of one literal goes to
  the bit buffer. \<open>file_start\<close> is the place of the first byte of the stream, so
  \<open>next - file_start\<close> is the position in the stream, \<open>total_in\<close> for the first byte of the call.
\<close>

section \<open>One symbol\<close>

definition file_pos :: "u32 \<Rightarrow> nat \<Rightarrow> nat \<Rightarrow> u32" where
  "file_pos total_in start next = total_in + of_nat (next - start)"

text \<open>The literal word at \<open>next\<close>, the distance of the last place with its hash, and the table updated.\<close>

definition hash_lookup :: "u8 list \<Rightarrow> u32 \<Rightarrow> (nat \<Rightarrow> u32) \<Rightarrow> nat \<Rightarrow> u16 list \<Rightarrow> (u32 \<times> u32 \<times> u16 list) option" where
  "hash_lookup mem hash_mask pos next last_seen = do {
     bs \<leftarrow> get_bytes mem next 4;
     let literal = load_le_u32 bs;
     let hash = unat (compute_hash literal AND hash_mask);
     seen \<leftarrow> get_at last_seen hash;
     Some (literal, (pos next - ucast seen) AND 0xFFFF, last_seen[hash := ucast (pos next)])
   }"

fun hash_update :: "u8 list \<Rightarrow> u32 \<Rightarrow> (nat \<Rightarrow> u32) \<Rightarrow> nat list \<Rightarrow> u16 list \<Rightarrow> u16 list option" where
  "hash_update mem hash_mask pos [] last_seen = Some last_seen"
| "hash_update mem hash_mask pos (next_hash # ks) last_seen = do {
     (literal, dist, last_seen) \<leftarrow> hash_lookup mem hash_mask pos next_hash last_seen;
     hash_update mem hash_mask pos ks last_seen
   }"

definition write_literal :: "isal_hufftables \<Rightarrow> nat \<Rightarrow> BitBuf2 \<Rightarrow> BitBuf2 option" where
  "write_literal hufftables lit bb = do {
     (code, code_len) \<leftarrow> get_lit_code hufftables lit;
     write_bits bb code code_len
   }"

definition write_match :: "isal_hufftables \<Rightarrow> nat \<Rightarrow> u32 \<Rightarrow> BitBuf2 \<Rightarrow> BitBuf2 option" where
  "write_match hufftables match_length dist bb = do {
     (code, code_len) \<leftarrow> get_len_code hufftables match_length;
     (code2, code_len2) \<leftarrow> get_dist_code hufftables dist;
     write_bits bb (code OR push_bit code_len code2) (code_len + code_len2)
   }"

text \<open>The length of the match at distance \<open>dist\<close>, 0 when the distance is not in the window.\<close>

definition match_at :: "u8 list \<Rightarrow> u32 \<Rightarrow> u32 \<Rightarrow> nat \<Rightarrow> nat \<Rightarrow> nat option" where
  "match_at mem hist_size dist next max_length =
    (if dist - 1 < hist_size
     then if dist = 0 \<or> unat dist > next then None else compare258 mem (next - unat dist) next max_length
     else Some 0)"

definition deflate_step :: "isal_hufftables \<Rightarrow> u8 list \<Rightarrow> u32 \<Rightarrow> u32 \<Rightarrow> (nat \<Rightarrow> u32) \<Rightarrow> (nat \<Rightarrow> nat list) \<Rightarrow> nat \<Rightarrow>
    nat \<Rightarrow> u16 list \<Rightarrow> BitBuf2 \<Rightarrow> (nat \<times> u16 list \<times> BitBuf2) option" where
  "deflate_step hufftables mem hash_mask hist_size pos hashes max_length next last_seen bb = do {
     (literal, dist, last_seen) \<leftarrow> hash_lookup mem hash_mask pos next last_seen;
     match_length \<leftarrow> match_at mem hist_size dist next max_length;
     if match_length \<ge> SHORTEST_MATCH then do {
       last_seen \<leftarrow> hash_update mem hash_mask pos (hashes next) last_seen;
       bb \<leftarrow> write_match hufftables match_length dist bb;
       Some (next + match_length, last_seen, bb)
     } else do {
       bb \<leftarrow> write_literal hufftables (unat (literal AND 0xFF)) bb;
       Some (next + 1, last_seen, bb)
     }
   }"

lemma deflate_step_next:
  "deflate_step hufftables mem hash_mask hist_size pos hashes max_length next last_seen bb = Some (next', ls, bb') \<Longrightarrow> next < next'"
  by (auto simp: deflate_step_def bind_eq_Some_conv SHORTEST_MATCH_def split: if_splits prod.splits)

section \<open>The loops\<close>

text \<open>The result tells whether the loop ended because the output is full.\<close>

function body_loop :: "isal_hufftables \<Rightarrow> u8 list \<Rightarrow> u32 \<Rightarrow> u32 \<Rightarrow> (nat \<Rightarrow> u32) \<Rightarrow> nat \<Rightarrow> nat \<Rightarrow> u16 list \<Rightarrow> BitBuf2 \<Rightarrow>
    (bool \<times> nat \<times> u16 list \<times> BitBuf2) option" where
  "body_loop hufftables mem hash_mask hist_size pos end_in next last_seen bb =
    (if next + ISAL_LOOK_AHEAD < end_in then
       if is_full bb then Some (True, next, last_seen, bb)
       else do {
         (next', last_seen, bb) \<leftarrow> deflate_step hufftables mem hash_mask hist_size pos (\<lambda>n. [n + 1, n + 2]) 258 next last_seen bb;
         body_loop hufftables mem hash_mask hist_size pos end_in next' last_seen bb
       }
     else Some (False, next, last_seen, bb))"
  by pat_completeness auto
termination
  by (relation "measure (\<lambda>(_, _, _, _, _, end_in, next, _). end_in - next)") (auto dest: deflate_step_next)

declare body_loop.simps [simp del]

function finish_loop :: "isal_hufftables \<Rightarrow> u8 list \<Rightarrow> u32 \<Rightarrow> u32 \<Rightarrow> (nat \<Rightarrow> u32) \<Rightarrow> nat \<Rightarrow> nat \<Rightarrow> u16 list \<Rightarrow> BitBuf2 \<Rightarrow>
    (bool \<times> nat \<times> u16 list \<times> BitBuf2) option" where
  "finish_loop hufftables mem hash_mask hist_size pos end_in next last_seen bb =
    (if next + 3 < end_in then
       if is_full bb then Some (True, next, last_seen, bb)
       else do {
         (next', last_seen, bb) \<leftarrow> deflate_step hufftables mem hash_mask hist_size pos (\<lambda>n. []) (end_in - next) next last_seen bb;
         finish_loop hufftables mem hash_mask hist_size pos end_in next' last_seen bb
       }
     else Some (False, next, last_seen, bb))"
  by pat_completeness auto
termination
  by (relation "measure (\<lambda>(_, _, _, _, _, end_in, next, _). end_in - next)") (auto dest: deflate_step_next)

declare finish_loop.simps [simp del]

function literal_loop :: "isal_hufftables \<Rightarrow> u8 list \<Rightarrow> nat \<Rightarrow> nat \<Rightarrow> BitBuf2 \<Rightarrow> (bool \<times> nat \<times> BitBuf2) option" where
  "literal_loop hufftables mem end_in next bb =
    (if next < end_in then
       if is_full bb then Some (True, next, bb)
       else do {
         literal \<leftarrow> get_at mem next;
         bb \<leftarrow> write_literal hufftables (unat literal) bb;
         literal_loop hufftables mem end_in (next + 1) bb
       }
     else Some (False, next, bb))"
  by pat_completeness auto
termination
  by (relation "measure (\<lambda>(_, _, end_in, next, _). end_in - next)") auto

declare literal_loop.simps [simp del]

section \<open>The functions of igzip_base.c\<close>

definition update_state :: "nat \<Rightarrow> nat \<Rightarrow> nat \<Rightarrow> BitBuf2 \<Rightarrow> isal_zstream \<Rightarrow> isal_zstream" where
  "update_state start_in next end_in bb stream =
    (let stream = (if next > start_in then stream\<lparr>zs_has_hist := IGZIP_HIST\<rparr> else stream)
     in zs_take_buf bb (stream\<lparr>zs_next_in := next, zs_total_in := zs_total_in stream + of_nat (next - start_in),
          zs_avail_in := end_in - next\<rparr>))"

definition isal_deflate_body_base :: "isal_zstream \<Rightarrow> isal_zstream option" where
  "isal_deflate_body_base stream =
    (if zs_avail_in stream = 0 then
       Some (if zs_end_of_stream stream \<or> zs_flush stream \<noteq> NO_FLUSH then stream\<lparr>zs_state := ZSTATE_FLUSH_READ_BUFFER\<rparr> else stream)
     else do {
       let start_in = zs_next_in stream;
       let end_in = start_in + zs_avail_in stream;
       (full, next, last_seen, bb) \<leftarrow> body_loop (zs_hufftables stream) (zs_in_buf stream) (zs_hash_mask stream)
         (zs_dist_mask stream) (file_pos (zs_total_in stream) start_in) end_in start_in (zs_head stream) (zs_set_buf stream);
       let stream = update_state start_in next end_in bb (stream\<lparr>zs_head := last_seen\<rparr>);
       if full then Some stream
       else if zs_avail_in stream > ISAL_LOOK_AHEAD then None
       else Some (if zs_end_of_stream stream \<or> zs_flush stream \<noteq> NO_FLUSH then stream\<lparr>zs_state := ZSTATE_FLUSH_READ_BUFFER\<rparr> else stream)
     })"

definition isal_deflate_body :: "isal_zstream \<Rightarrow> isal_zstream option" where
  "isal_deflate_body stream = isal_deflate_body_base stream"

text \<open>\<open>end_of_stream == 1\<close>: the field is 0 or 1.\<close>

definition finish_eob :: "nat \<Rightarrow> nat \<Rightarrow> nat \<Rightarrow> BitBuf2 \<Rightarrow> isal_zstream \<Rightarrow> isal_zstream option" where
  "finish_eob start_in next end_in bb stream =
    (if is_full bb then Some (update_state start_in next end_in bb stream)
     else do {
       bb \<leftarrow> write_literal (zs_hufftables stream) 256 bb;
       Some (update_state start_in next end_in bb
         (stream\<lparr>zs_has_eob := True, zs_state := if zs_end_of_stream stream then ZSTATE_TRL else ZSTATE_SYNC_FLUSH\<rparr>))
     })"

definition isal_deflate_finish_base :: "isal_zstream \<Rightarrow> isal_zstream option" where
  "isal_deflate_finish_base stream =
    (let start_in = zs_next_in stream; end_in = start_in + zs_avail_in stream; bb = zs_set_buf stream
     in if zs_avail_in stream = 0 then finish_eob start_in start_in end_in bb stream
        else do {
          (full, next, last_seen, bb) \<leftarrow> finish_loop (zs_hufftables stream) (zs_in_buf stream) (zs_hash_mask stream)
            (zs_dist_mask stream) (file_pos (zs_total_in stream) start_in) end_in start_in (zs_head stream) bb;
          let stream = stream\<lparr>zs_head := last_seen\<rparr>;
          if full then Some (update_state start_in next end_in bb stream)
          else do {
            (full, next, bb) \<leftarrow> literal_loop (zs_hufftables stream) (zs_in_buf stream) end_in next bb;
            if full then Some (update_state start_in next end_in bb stream)
            else finish_eob start_in next end_in bb stream
          }
        })"

definition isal_deflate_finish :: "isal_zstream \<Rightarrow> isal_zstream option" where
  "isal_deflate_finish stream = isal_deflate_finish_base stream"

section \<open>The hashes of a dictionary\<close>

text \<open>A dictionary of fewer than four bytes has no string.\<close>

definition isal_deflate_hash_base :: "u16 list \<Rightarrow> u32 \<Rightarrow> u32 \<Rightarrow> u8 list \<Rightarrow> u16 list option" where
  "isal_deflate_hash_base hash_table hash_mask current_index dict =
    hash_update dict hash_mask (\<lambda>next. current_index - of_nat (length dict) + of_nat next)
      [0..<length dict + 1 - SHORTEST_MATCH] hash_table"

definition isal_deflate_hash :: "isal_zstream \<Rightarrow> u8 list \<Rightarrow> isal_zstream option" where
  "isal_deflate_hash stream dict = do {
     stream \<leftarrow> update_hash_table (\<lambda>t. isal_deflate_hash_base (replicate (length t) 0xFFFF) (zs_hash_mask stream) (zs_total_in stream) dict) stream;
     Some (stream\<lparr>zs_has_hist := IGZIP_HIST\<rparr>)
   }"

definition isal_deflate_process_dict :: "isal_zstream \<Rightarrow> isal_dict option \<Rightarrow> u8 list \<Rightarrow> (int \<times> isal_dict option) option" where
  "isal_deflate_process_dict stream dict dict_data =
    (case dict of
       None \<Rightarrow> Some (ISAL_INVALID_STATE, dict)
     | Some d \<Rightarrow>
         if dict_data = [] \<or> dict_level d > ISAL_DEF_MAX_LEVEL then Some (ISAL_INVALID_STATE, dict)
         else do {
           let dict_data = (if length dict_data > IGZIP_HIST_SIZE then drop (length dict_data - IGZIP_HIST_SIZE) dict_data else dict_data);
           hist \<leftarrow> put_bytes (dict_history d) 0 dict_data;
           let (size, mask) = (if zs_level stream = 3 then (IGZIP_LVL3_HASH_SIZE, LVL3_HASH_MASK)
             else if zs_level stream = 2 then (IGZIP_LVL2_HASH_SIZE, LVL2_HASH_MASK)
             else if zs_level stream = 1 then (IGZIP_LVL1_HASH_SIZE, LVL1_HASH_MASK)
             else (IGZIP_LVL0_HASH_SIZE, LVL0_HASH_MASK));
           t \<leftarrow> isal_deflate_hash_base (replicate (length (dict_hashtable d)) 0xFFFF) mask 0 dict_data;
           Some (COMP_OK, Some (d\<lparr>dict_level := zs_level stream, dict_hist_size := length dict_data, dict_history := hist,
             dict_hash_size := size, dict_hashtable := t\<rparr>))
         })"

end
