(* ===== verification/Deflate_Tokens.thy ===== *)
theory Deflate_Tokens
  imports Deflate_Body
begin

text \<open>
  What the level 0 compressor emits is a sequence of literals and matches whose expansion is the input it
  consumed, whatever the hash table proposes; and with a hash table whose entries lie in the
  window no access is out of bounds.
\<close>

section \<open>Symbols and their expansion\<close>

datatype token = Literal u8 | Match nat nat

text \<open>What an inflater makes of the symbols; \<open>hist\<close> is everything before.\<close>

fun expand :: "u8 list \<Rightarrow> token list \<Rightarrow> u8 list option" where
  "expand hist [] = Some hist"
| "expand hist (Literal b # ts) = expand (hist @ [b]) ts"
| "expand hist (Match n d # ts) =
    (if 3 \<le> n \<and> n \<le> 258 \<and> 1 \<le> d \<and> d \<le> 32768 \<and> d \<le> length hist
     then expand (hist @ lz_repeat hist (length hist) d n) ts else None)"

lemma expand_append: "expand hist (ts @ us) = expand hist ts \<bind> (\<lambda>h. expand h us)"
  by (induction hist ts rule: expand.induct) simp_all

definition code_bits :: "(u64 \<times> nat) option \<Rightarrow> bool list" where
  "code_bits c = (case c of None \<Rightarrow> [] | Some (code, len) \<Rightarrow> word_bits code len)"

fun token_bits :: "isal_hufftables \<Rightarrow> token \<Rightarrow> bool list" where
  "token_bits h (Literal b) = code_bits (get_lit_code h (unat b))"
| "token_bits h (Match n d) = code_bits (get_len_code h n) @ code_bits (get_dist_code h (of_nat d))"

text \<open>Tables whose codes have no bits above their lengths and fit the bit buffer.\<close>

definition code_ok :: "nat \<Rightarrow> (u64 \<times> nat) option \<Rightarrow> bool" where
  "code_ok m c \<longleftrightarrow> (case c of None \<Rightarrow> False | Some (code, len) \<Rightarrow> take_bit len code = code \<and> len \<le> m)"

definition hufft_ok :: "isal_hufftables \<Rightarrow> bool" where
  "hufft_ok h \<longleftrightarrow> (\<forall>lit \<le> 256. code_ok 28 (get_lit_code h lit)) \<and> (\<forall>n. 3 \<le> n \<and> n \<le> 258 \<longrightarrow> code_ok 28 (get_len_code h n))
    \<and> (\<forall>d. 1 \<le> d \<and> d \<le> 32768 \<longrightarrow> code_ok 28 (get_dist_code h d))"

section \<open>The bit buffer between symbols\<close>

definition bb_ok :: "BitBuf2 \<Rightarrow> bool" where
  "bb_ok bb \<longleftrightarrow> bb_wf bb \<and> m_bit_count bb \<le> 7 \<and> int (m_out_buf bb) \<le> m_out_end bb + 8
    \<and> m_out_end bb + 8 \<le> int (length (m_mem bb))"

lemma bb_ok_write:
  assumes "bb_ok bb" "\<not> is_full bb" "take_bit n code = code" "n \<le> 56"
  obtains bb' where "write_bits bb code n = Some bb'" "bb_ok bb'" "bb_bits bb' = bb_bits bb @ word_bits code n" "bb_frame bb bb'"
proof -
  have r: "m_out_buf bb + 8 \<le> length (m_mem bb)" using assms(1,2) by (intro not_full_room) (simp_all add: bb_ok_def)
  have "m_bit_count bb + n \<le> 63" using assms(1,4) by (simp add: bb_ok_def)
  from write_bits [OF _ this assms(3) r] assms(1) obtain bb' where b: "write_bits bb code n = Some bb'" "bb_wf bb'"
    "bb_bits bb' = bb_bits bb @ word_bits code n" "bb_frame bb bb'" "m_bit_count bb' = (m_bit_count bb + n) mod 8"
    "m_out_buf bb' = m_out_buf bb + (m_bit_count bb + n) div 8" unfolding bb_ok_def by blast
  moreover have "m_bit_count bb' \<le> 7" using b(5) mod_less_divisor [of 8 "m_bit_count bb + n"] by simp
  moreover have "(m_bit_count bb + n) div 8 \<le> 7" using \<open>m_bit_count bb + n \<le> 63\<close> by linarith
  then have "int (m_out_buf bb') \<le> m_out_end bb' + 8" using b(4,6) assms(2) by (simp add: is_full_def bb_frame_def)
  ultimately show thesis using assms(1) by (intro that [of bb']) (simp_all add: bb_ok_def bb_frame_def)
qed

lemma write_literal_bits:
  assumes "bb_ok bb" "\<not> is_full bb" "hufft_ok h" "lit \<le> 256"
  obtains bb' where "write_literal h lit bb = Some bb'" "bb_ok bb'" "bb_bits bb' = bb_bits bb @ code_bits (get_lit_code h lit)" "bb_frame bb bb'"
proof -
  obtain c n where c: "get_lit_code h lit = Some (c, n)" "take_bit n c = c" "n \<le> 28"
    using assms(3,4) by (fastforce simp: hufft_ok_def code_ok_def split: option.splits)
  from c(3) have "n \<le> 56" by simp
  from bb_ok_write [OF assms(1,2) c(2) this] obtain bb' where "write_bits bb c n = Some bb'" "bb_ok bb'"
    "bb_bits bb' = bb_bits bb @ word_bits c n" "bb_frame bb bb'" .
  then show thesis using c by (intro that [of bb']) (simp_all add: write_literal_def code_bits_def)
qed

lemma write_match_bits:
  assumes "bb_ok bb" "\<not> is_full bb" "hufft_ok h" "3 \<le> m" "m \<le> 258" "1 \<le> d" "d \<le> 32768"
  obtains bb' where "write_match h m d bb = Some bb'" "bb_ok bb'" "bb_frame bb bb'"
    "bb_bits bb' = bb_bits bb @ code_bits (get_len_code h m) @ code_bits (get_dist_code h d)"
proof -
  obtain c n where c: "get_len_code h m = Some (c, n)" "take_bit n c = c" "n \<le> 28"
    using assms(3-5) by (fastforce simp: hufft_ok_def code_ok_def split: option.splits)
  obtain c2 n2 where c2: "get_dist_code h d = Some (c2, n2)" "take_bit n2 c2 = c2" "n2 \<le> 28"
    using assms(3,6,7) by (fastforce simp: hufft_ok_def code_ok_def split: option.splits)
  let ?w = "c OR push_bit n c2"
  have b: "bit c i \<Longrightarrow> i < n" "bit c2 i \<Longrightarrow> i < n2" for i
    using c(2) c2(2) by (metis bit_take_bit_iff)+
  have t: "take_bit (n + n2) ?w = ?w" by (rule bit_eqI) (auto simp: bit_simps dest: b)
  have "word_bits ?w (n + n2) = word_bits c n @ word_bits c2 n2"
    unfolding word_bits_append
  proof (rule arg_cong2 [where f = append])
    show "word_bits ?w n = word_bits c n" by (simp add: word_bits_def bit_simps)
    have "drop_bit n ?w = c2"
    proof (rule bit_word_eqI)
      fix i assume "i < LENGTH(64)"
      have "bit c2 i \<Longrightarrow> n + i < 64" using b(2) [of i] c(3) c2(3) by simp
      moreover have "\<not> bit c (n + i)" using b(1) [of "n + i"] by auto
      ultimately show "bit (drop_bit n ?w) i = bit c2 i" by (auto simp: bit_simps)
    qed
    then show "word_bits (drop_bit n ?w) n2 = word_bits c2 n2" by simp
  qed
  moreover have "n + n2 \<le> 56" using c(3) c2(3) by simp
  then obtain bb' where "write_bits bb ?w (n + n2) = Some bb'" "bb_ok bb'"
    "bb_bits bb' = bb_bits bb @ word_bits ?w (n + n2)" "bb_frame bb bb'" by (rule bb_ok_write [OF assms(1,2) t])
  ultimately show thesis using c c2 by (intro that [of bb']) (simp_all add: write_match_def code_bits_def)
qed

section \<open>A match is a repeat\<close>

lemma match_periodic:
  assumes "0 < d" "d \<le> k" "i < common mem (k - d) k n"
  shows "mem ! (k + i) = mem ! (k - d + i mod d)"
  using assms(3)
proof (induction i rule: less_induct)
  case (less i)
  have e: "mem ! (k + i) = mem ! (k - d + i)" using common_eq [OF less.prems] by simp
  show ?case
  proof (cases "i < d")
    case True
    then show ?thesis using e by simp
  next
    case False
    then obtain j where j: "i = j + d" by (metis add.commute le_add_diff_inverse not_less)
    have "j < i" "j < common mem (k - d) k n" using j assms(1) less.prems by simp_all
    then have "mem ! (k + j) = mem ! (k - d + j mod d)" by (rule less.IH)
    then show ?thesis using e j assms(2) by simp
  qed
qed

lemma expand_match:
  assumes "0 < d" "d \<le> k" "m \<le> common mem (k - d) k n" "k + m \<le> length mem" "d \<le> 32768" "3 \<le> m" "m \<le> 258"
  shows "expand (take k mem) [Match m d] = Some (take (k + m) mem)"
proof -
  have l: "length (take k mem) = k" using assms(4) by simp
  have "lz_repeat (take k mem) k d m = take m (drop k mem)"
  proof (rule nth_equalityI)
    fix i assume "i < length (lz_repeat (take k mem) k d m)"
    then have i: "i < m" by simp
    then have "mem ! (k + i) = mem ! (k - d + i mod d)" using match_periodic [OF assms(1,2), of i mem n] assms(3) by simp
    moreover have "k - d + i mod d < k" using assms(1,2) mod_less_divisor [OF assms(1), of i] by linarith
    ultimately show "lz_repeat (take k mem) k d m ! i = take m (drop k mem) ! i"
      using i assms(4) by (simp add: lz_repeat_def)
  qed (use assms(4) in simp)
  then show ?thesis using l assms by (simp add: take_add)
qed

section \<open>Distances in the window\<close>

definition dist_of :: "u32 \<Rightarrow> u16 \<Rightarrow> u32" where
  "dist_of p e = (p - ucast e) AND 0xFFFF"

lemma unat_mask16: "unat ((w :: u32) AND 0xFFFF) = unat w mod 65536"
proof -
  have "(0xFFFF :: u32) = mask 16" by (simp add: mask_eq_exp_minus_1)
  then have "w AND 0xFFFF = take_bit 16 w" by (simp only: take_bit_eq_mask)
  then have "unat (w AND 0xFFFF) = take_bit 16 (unat w)" by (simp only: unsigned_take_bit_eq)
  then show ?thesis by (simp only: take_bit_eq_mod) simp
qed

lemma unat_mod16: "unat (w :: u32) mod 65536 = nat (uint w mod 65536)"
  by (simp only: unat_eq_nat_uint nat_mod_distrib [OF uint_ge_0] ) simp

lemma uint_mod16: "uint (of_int i :: u32) mod 65536 = i mod 65536"
  by (simp add: uint_word_of_int mod_mod_cancel)

lemma uint_diff16: "uint ((p :: u32) - ucast (e :: u16)) mod 65536 = (uint p - uint e) mod 65536"
proof -
  have "p - ucast e = of_int (uint p - uint e)" by simp
  then show ?thesis by (simp only: uint_mod16)
qed

lemma dist_of_nat: "unat (dist_of p e) = nat ((uint p - uint e) mod 65536)"
  unfolding dist_of_def unat_mask16 unat_mod16 uint_diff16 ..

lemma dist_of_add: "unat (dist_of (p + of_nat k) e) = (unat (dist_of p e) + k) mod 65536"
proof -
  have "uint (p + of_nat k) mod 65536 = (uint p + int k) mod 65536"
    using uint_mod16 [of "uint p + int k"] by simp
  then have "(uint (p + of_nat k) - uint e) mod 65536 = ((uint p - uint e) mod 65536 + int k) mod 65536"
    by (metis (no_types, opaque_lifting) add_diff_eq diff_add_eq mod_add_left_eq mod_diff_left_eq)
  then have "int (unat (dist_of (p + of_nat k) e)) = int ((unat (dist_of p e) + k) mod 65536)"
    by (simp add: dist_of_nat zmod_int)
  then show ?thesis by (simp only: of_nat_eq_iff)
qed

lemma dist_of_self: "dist_of p (ucast p) = 0"
proof -
  have "uint (ucast p :: u16) = uint p mod 65536" by (simp add: unsigned_ucast_eq take_bit_eq_mod)
  then have "unat (dist_of p (ucast p)) = 0" by (simp add: dist_of_nat mod_diff_right_eq)
  then show ?thesis by (simp add: unat_eq_0)
qed

text \<open>Looking from position \<open>n\<close> of the memory, stream position \<open>p\<close>, an entry is either not usable as
  a distance or points into the memory.\<close>

definition window_entry :: "u32 \<Rightarrow> u32 \<Rightarrow> nat \<Rightarrow> u16 \<Rightarrow> bool" where
  "window_entry hist p n e \<longleftrightarrow> (1 \<le> unat (dist_of p e) \<and> unat (dist_of p e) \<le> unat hist \<longrightarrow> unat (dist_of p e) \<le> n)"

lemma window_entry_add:
  assumes "window_entry hist p n e"
  shows "window_entry hist (p + of_nat k) (n + k) e"
proof (cases "unat (dist_of p e) + k < 65536")
  case True
  then have "unat (dist_of (p + of_nat k) e) = unat (dist_of p e) + k" by (simp add: dist_of_add)
  then show ?thesis using assms by (cases "unat (dist_of p e) = 0") (auto simp: window_entry_def)
next
  case False
  have "unat (dist_of p e) < 65536" by (simp add: dist_of_nat)
  moreover have "(unat (dist_of p e) + k) mod 65536 = (unat (dist_of p e) + k - 65536) mod 65536"
    using False by (simp add: le_mod_geq)
  moreover have "\<dots> \<le> unat (dist_of p e) + k - 65536" by simp
  ultimately have "unat (dist_of (p + of_nat k) e) < k" using False by (simp add: dist_of_add)
  then show ?thesis by (simp add: window_entry_def)
qed

lemma window_entry_self: "window_entry hist p n (ucast p)"
  by (simp add: window_entry_def dist_of_self)

lemma dist_in_window:
  "dist - 1 < hist \<longleftrightarrow> 1 \<le> unat (dist :: u32) \<and> unat dist \<le> unat hist"
proof (cases "dist = 0")
  case True
  then show ?thesis by (simp add: not_less)
next
  case False
  then have "unat (dist - 1) = unat dist - 1" "1 \<le> unat dist" by (simp_all add: unat_minus_one unat_gt_0 Suc_le_eq)
  then show ?thesis by (auto simp: word_less_nat_alt)
qed

definition window_ok :: "u32 \<Rightarrow> u32 \<Rightarrow> nat \<Rightarrow> u16 list \<Rightarrow> bool" where
  "window_ok hist p n ls \<longleftrightarrow> (\<forall>e \<in> set ls. window_entry hist p n e)"

lemma window_ok_add: "window_ok hist p n ls \<Longrightarrow> window_ok hist (p + of_nat k) (n + k) ls"
  by (simp add: window_ok_def window_entry_add)

lemma window_ok_update: "window_ok hist p n ls \<Longrightarrow> window_ok hist p n (ls[i := ucast p])"
  using set_update_subset_insert [of ls i "ucast p"] window_entry_self by (fastforce simp: window_ok_def)

lemma file_pos_add: "start \<le> n \<Longrightarrow> file_pos tot start (n + k) = file_pos tot start n + of_nat k"
  by (simp add: file_pos_def Nat.add_diff_assoc2)

lemma window_entry_advance:
  assumes "window_entry hist (file_pos tot start n) n e" "start \<le> n" "n \<le> n'"
  shows "window_entry hist (file_pos tot start n') n' e"
proof -
  obtain k where "n' = n + k" using assms(3) le_Suc_ex by blast
  then show ?thesis using window_entry_add [OF assms(1), of k] file_pos_add [OF assms(2), of tot k] by (simp only:)
qed

lemma window_ok_advance:
  "window_ok hist (file_pos tot start n) n ls \<Longrightarrow> start \<le> n \<Longrightarrow> n \<le> n' \<Longrightarrow> window_ok hist (file_pos tot start n') n' ls"
  using window_entry_advance by (fastforce simp: window_ok_def)

section \<open>The hash table\<close>

lemma hash_lookup:
  assumes "next + 4 \<le> length mem" "unat hmask < length ls"
  obtains h where "h < length ls" "hash_lookup mem hmask pos next ls = Some (load_le_u32 (take 4 (drop next mem)),
    dist_of (pos next) (ls ! h), ls[h := ucast (pos next)])"
proof
  let ?l = "load_le_u32 (take 4 (drop next mem))"
  let ?h = "unat (compute_hash ?l AND hmask)"
  have "compute_hash ?l AND hmask \<le> hmask" by (rule word_and_le1)
  then show h: "?h < length ls" using assms(2) by (simp add: word_le_nat_alt)
  then show "hash_lookup mem hmask pos next ls = Some (?l, dist_of (pos next) (ls ! ?h), ls[?h := ucast (pos next)])"
    using assms(1) by (simp add: hash_lookup_def get_bytes_def get_at_def dist_of_def Let_def)
qed

lemma hash_update:
  assumes "\<forall>k \<in> set ks. next \<le> k \<and> k \<le> stop \<and> k + 4 \<le> length mem" "unat hmask < length ls" "start \<le> next" "next \<le> stop"
    and "window_ok hist (file_pos tot start stop) stop ls"
  shows "\<exists>ls'. hash_update mem hmask (file_pos tot start) ks ls = Some ls' \<and> length ls' = length ls
    \<and> window_ok hist (file_pos tot start stop) stop ls'"
  using assms
proof (induction ks arbitrary: ls)
  case (Cons k ks)
  let ?pos = "file_pos tot start"
  have k: "k + 4 \<le> length mem" "start \<le> k" "k \<le> stop" using Cons.prems(1,3) by auto
  obtain h where h: "h < length ls" "hash_lookup mem hmask ?pos k ls = Some (load_le_u32 (take 4 (drop k mem)),
      dist_of (?pos k) (ls ! h), ls[h := ucast (?pos k)])" using hash_lookup [OF k(1) Cons.prems(2)] by blast
  have "window_entry hist (?pos stop) stop (ucast (?pos k))"
    using k(2,3) by (intro window_entry_advance [OF window_entry_self])
  then have "window_ok hist (?pos stop) stop (ls[h := ucast (?pos k)])"
    using Cons.prems(5) set_update_subset_insert [of ls h "ucast (?pos k)"] by (fastforce simp: window_ok_def)
  then have "\<exists>ls'. hash_update mem hmask ?pos ks (ls[h := ucast (?pos k)]) = Some ls' \<and> length ls' = length (ls[h := ucast (?pos k)])
    \<and> window_ok hist (?pos stop) stop ls'" using Cons.prems by (intro Cons.IH) simp_all
  then show ?case by (simp add: h(2))
qed simp

section \<open>One step\<close>

text \<open>The bit buffer went from \<open>bb\<close> to \<open>bb'\<close> by the symbols \<open>ts\<close>, which stand for the input from
  \<open>next\<close> to \<open>next'\<close>.\<close>

definition emits :: "isal_hufftables \<Rightarrow> u8 list \<Rightarrow> nat \<Rightarrow> nat \<Rightarrow> BitBuf2 \<Rightarrow> BitBuf2 \<Rightarrow> token list \<Rightarrow> bool" where
  "emits h mem next next' bb bb' ts \<longleftrightarrow> expand (take next mem) ts = Some (take next' mem)
    \<and> bb_bits bb' = bb_bits bb @ concat (map (token_bits h) ts) \<and> bb_frame bb bb' \<and> bb_ok bb' \<and> next \<le> next'"

lemma emits_refl: "bb_ok bb \<Longrightarrow> emits h mem next next bb bb []"
  by (simp add: emits_def)

lemma emits_trans:
  "emits h mem a b x y ts \<Longrightarrow> emits h mem b c y z us \<Longrightarrow> emits h mem a c x z (ts @ us)"
  by (auto simp: emits_def expand_append intro: bb_frame_trans)

lemma low_byte:
  assumes "next + 4 \<le> length mem"
  shows "unat (load_le_u32 (take 4 (drop next mem)) AND 0xFF) = unat (mem ! next)"
proof -
  let ?w = "load_le_u32 (take 4 (drop next mem))"
  have "(0xFF :: u32) = mask 8" by (simp add: mask_eq_exp_minus_1)
  then have "?w AND 0xFF = take_bit 8 ?w" by (simp only: take_bit_eq_mask)
  moreover have "take_bit 8 ?w = ucast (mem ! next)"
  proof (rule bit_word_eqI)
    fix i assume "i < LENGTH(32)"
    then show "bit (take_bit 8 ?w) i = bit (ucast (mem ! next) :: u32) i"
      using assms bit_imp_le_length [of "mem ! next" i]
      by (cases "i < 8") (auto simp: bit_take_bit_iff load_le_u32_def bit_le_word bit_ucast_iff)
  qed
  ultimately have "?w AND 0xFF = ucast (mem ! next)" by (simp only:)
  moreover have "unat (ucast (mem ! next) :: u32) = unat (mem ! next)" using u8_less [of "mem ! next"] by (simp add: unsigned_ucast_eq take_bit_nat_eq_self_iff)
  ultimately show ?thesis by simp
qed

lemma emit_literal:
  assumes "bb_ok bb" "\<not> is_full bb" "hufft_ok h" "next < length mem"
  obtains bb' where "write_literal h (unat (mem ! next)) bb = Some bb'" "emits h mem next (next + 1) bb bb' [Literal (mem ! next)]"
proof -
  have "unat (mem ! next) \<le> 256" using unsigned_less [of "mem ! next", where ?'a = nat] by simp
  with assms(1-3) obtain bb' where "write_literal h (unat (mem ! next)) bb = Some bb'" "bb_ok bb'"
    "bb_bits bb' = bb_bits bb @ code_bits (get_lit_code h (unat (mem ! next)))" "bb_frame bb bb'"
    by (rule write_literal_bits)
  moreover have "take (next + 1) mem = take next mem @ [mem ! next]" using assms(4) by (simp add: take_Suc_conv_app_nth)
  ultimately show thesis by (intro that [of bb']) (simp_all add: emits_def)
qed

lemma match_at_window:
  assumes "window_entry hist p next e" "next + min m 258 \<le> length mem"
  obtains n where "match_at mem hist (dist_of p e) next m = Some n"
    "n \<ge> SHORTEST_MATCH \<Longrightarrow> n \<le> common mem (next - unat (dist_of p e)) next (min m 258) \<and> 1 \<le> unat (dist_of p e)
      \<and> unat (dist_of p e) \<le> unat hist \<and> unat (dist_of p e) \<le> next"
proof (cases "dist_of p e - 1 < hist")
  case True
  then have d: "1 \<le> unat (dist_of p e)" "unat (dist_of p e) \<le> unat hist" by (simp_all add: dist_in_window)
  then have n: "unat (dist_of p e) \<le> next" using assms(1) by (simp add: window_entry_def)
  define c where "c = common mem (next - unat (dist_of p e)) next (min m 258)"
  have "compare258 mem (next - unat (dist_of p e)) next m = Some c"
    unfolding c_def compare258_def using assms(2) n by (intro compare) simp_all
  moreover have "dist_of p e \<noteq> 0" using d(1) by auto
  ultimately show thesis using True d n by (intro that [of c]) (simp_all add: match_at_def c_def)
next
  case False
  then show thesis by (intro that [of 0]) (simp_all add: match_at_def SHORTEST_MATCH_def)
qed

lemma deflate_step:
  assumes bb: "bb_ok bb" "\<not> is_full bb" "hufft_ok h" and tab: "unat hmask < length ls" "unat hist \<le> 32768"
    and win: "window_ok hist (file_pos tot start next) next ls" "start \<le> next"
    and len: "next + 4 \<le> length mem" "next + min m 258 \<le> length mem"
    and ks: "\<forall>k \<in> set (ks next). \<forall>n \<ge> SHORTEST_MATCH. next \<le> k \<and> k \<le> next + n \<and> k + 4 \<le> length mem"
    and step: "step = deflate_step h mem hmask hist (file_pos tot start) ks m next ls bb"
  shows "\<exists>next' ls' bb' ts. step = Some (next', ls', bb') \<and> emits h mem next next' bb bb' ts \<and> next' \<le> next + max 1 (min m 258)
    \<and> length ls' = length ls \<and> window_ok hist (file_pos tot start next') next' ls'"
proof -
  let ?pos = "file_pos tot start"
  obtain i where i: "i < length ls" "hash_lookup mem hmask ?pos next ls = Some (load_le_u32 (take 4 (drop next mem)),
    dist_of (?pos next) (ls ! i), ls[i := ucast (?pos next)])" using hash_lookup [OF len(1) tab(1)] by blast
  define d ls1 where "d = dist_of (?pos next) (ls ! i)" and "ls1 = ls[i := ucast (?pos next)]"
  have w1: "window_ok hist (?pos next) next ls1" "length ls1 = length ls"
    unfolding ls1_def using win(1) by (simp_all add: window_ok_update)
  have "window_entry hist (?pos next) next (ls ! i)" using win(1) i(1) by (simp add: window_ok_def)
  from match_at_window [OF this len(2)] obtain n where n: "match_at mem hist d next m = Some n"
    "n \<ge> SHORTEST_MATCH \<Longrightarrow> n \<le> common mem (next - unat d) next (min m 258) \<and> 1 \<le> unat d \<and> unat d \<le> unat hist \<and> unat d \<le> next"
    unfolding d_def by blast
  note s = step [unfolded deflate_step_def i(2) d_def [symmetric] ls1_def [symmetric]]
  show ?thesis
  proof (cases "n \<ge> SHORTEST_MATCH")
    case True
    note n2 = n(2) [OF True]
    have nm: "n \<le> min m 258" using conjunct1 [OF n2] common_le by (rule order_trans)
    have w2: "window_ok hist (?pos (next + n)) (next + n) ls1" using w1(1) win(2) by (rule window_ok_advance) simp
    have "unat hmask < length ls1" "next \<le> next + n" using tab(1) w1(2) by simp_all
    have "\<forall>k \<in> set (ks next). next \<le> k \<and> k \<le> next + n \<and> k + 4 \<le> length mem" using ks True by simp
    from hash_update [OF this \<open>unat hmask < length ls1\<close> win(2) \<open>next \<le> next + n\<close> w2]
    obtain ls2 where l2: "hash_update mem hmask ?pos (ks next) ls1 = Some ls2" "length ls2 = length ls1"
      "window_ok hist (?pos (next + n)) (next + n) ls2" by (elim exE conjE)
    have dd: "1 \<le> d" "d \<le> 32768" using n2 tab(2) by (simp_all add: word_le_nat_alt)
    have n3: "3 \<le> n" "n \<le> 258" using True nm by (simp_all add: SHORTEST_MATCH_def)
    obtain bb' where b: "write_match h n d bb = Some bb'" "bb_ok bb'" "bb_frame bb bb'"
      "bb_bits bb' = bb_bits bb @ code_bits (get_len_code h n) @ code_bits (get_dist_code h d)"
      by (rule write_match_bits [OF bb n3 dd])
    have "expand (take next mem) [Match n (unat d)] = Some (take (next + n) mem)"
      using n2 nm n3 len(2) tab(2) by (intro expand_match [where n = "min m 258"]) simp_all
    then have "emits h mem next (next + n) bb bb' [Match n (unat d)]" using b by (simp add: emits_def)
    moreover have "step = Some (next + n, ls2, bb')" using s n(1) True l2(1) b(1) by simp
    ultimately show ?thesis using nm l2 w1(2) by fastforce
  next
    case False
    have lt: "next < length mem" using len(1) by simp
    obtain bb' where b: "write_literal h (unat (mem ! next)) bb = Some bb'"
      "emits h mem next (next + 1) bb bb' [Literal (mem ! next)]" by (rule emit_literal [OF bb lt])
    have "step = Some (next + 1, ls1, bb')" using s n(1) False b(1) low_byte [OF len(1)] by simp
    moreover have "window_ok hist (?pos (next + 1)) (next + 1) ls1" using w1(1) win(2) by (rule window_ok_advance) simp
    ultimately show ?thesis using b(2) w1(2) by fastforce
  qed
qed

section \<open>The loops\<close>

text \<open>What a loop returns: the symbols of the input up to \<open>next'\<close> are out, or the output is full.\<close>

definition loop_result :: "isal_hufftables \<Rightarrow> u8 list \<Rightarrow> u32 \<Rightarrow> u32 \<Rightarrow> nat \<Rightarrow> nat \<Rightarrow> nat \<Rightarrow> nat \<Rightarrow> u16 list \<Rightarrow> BitBuf2 \<Rightarrow>
    (bool \<times> nat \<times> u16 list \<times> BitBuf2) option \<Rightarrow> bool" where
  "loop_result h mem hist tot start stop ahead next ls bb r \<longleftrightarrow> (\<exists>full next' ls' bb' ts. r = Some (full, next', ls', bb')
    \<and> emits h mem next next' bb bb' ts \<and> next' \<le> stop \<and> length ls' = length ls
    \<and> window_ok hist (file_pos tot start next') next' ls' \<and> (if full then is_full bb' else stop \<le> next' + ahead))"

lemma loop_result_refl:
  assumes "bb_ok bb" "next \<le> stop" "window_ok hist (file_pos tot start next) next ls" "if full then is_full bb else stop \<le> next + ahead"
  shows "loop_result h mem hist tot start stop ahead next ls bb (Some (full, next, ls, bb))"
  unfolding loop_result_def using assms emits_refl [OF assms(1), of h mem "next"]
  by (intro exI [of _ full] exI [of _ "next"] exI [of _ ls] exI [of _ bb] exI [of _ "[]"]) simp

lemma loop_result_step:
  assumes "emits h mem next next' bb bb' ts" "length ls' = length ls" "loop_result h mem hist tot start stop ahead next' ls' bb' r"
  shows "loop_result h mem hist tot start stop ahead next ls bb r"
proof -
  obtain full n l b us where r: "r = Some (full, n, l, b)" "emits h mem next' n bb' b us" "n \<le> stop" "length l = length ls'"
    "window_ok hist (file_pos tot start n) n l" "if full then is_full b else stop \<le> n + ahead"
    using assms(3) unfolding loop_result_def by blast
  then show ?thesis unfolding loop_result_def using emits_trans [OF assms(1) r(2)] assms(2) by (intro exI conjI) simp_all
qed

lemma body_loop:
  assumes "bb_ok bb" "hufft_ok h" "unat hmask < length ls" "unat hist \<le> 32768" "window_ok hist (file_pos tot start next) next ls"
    and "start \<le> next" "next \<le> stop" "stop \<le> length mem"
  shows "loop_result h mem hist tot start stop ISAL_LOOK_AHEAD next ls bb
    (body_loop h mem hmask hist (file_pos tot start) stop next ls bb)"
  using assms
proof (induction "stop - next" arbitrary: "next" ls bb rule: less_induct)
  case less
  note p = less.prems
  let ?pos = "file_pos tot start"
  show ?case
  proof (cases "next + ISAL_LOOK_AHEAD < stop \<and> \<not> is_full bb")
    case False
    then show ?thesis using loop_result_refl [OF p(1,7,5), of "is_full bb" ISAL_LOOK_AHEAD h mem]
        loop_result_refl [OF p(1,7,5), of False ISAL_LOOK_AHEAD h mem]
      by (subst body_loop.simps) (auto split: if_splits)
  next
    case True
    then have r: "next + 288 < stop" "\<not> is_full bb" by (simp_all add: ISAL_LOOK_AHEAD_def)
    have k: "\<forall>k \<in> set [next + 1, next + 2]. \<forall>n \<ge> SHORTEST_MATCH. next \<le> k \<and> k \<le> next + n \<and> k + 4 \<le> length mem"
      using r(1) p(8) by (auto simp: SHORTEST_MATCH_def)
    have len: "next + 4 \<le> length mem" "next + min 258 258 \<le> length mem" using r(1) p(8) by simp_all
    obtain next' ls' bb' ts where s: "deflate_step h mem hmask hist ?pos (\<lambda>n. [n + 1, n + 2]) 258 next ls bb = Some (next', ls', bb')"
      "emits h mem next next' bb bb' ts" "next' \<le> next + max 1 (min 258 258)" "length ls' = length ls" "window_ok hist (?pos next') next' ls'"
      using deflate_step [OF p(1) r(2) p(2-6) len _ refl, of "\<lambda>n. [n + 1, n + 2]"] k by auto
    then have n: "next < next'" "next' \<le> stop" "bb_ok bb'" using deflate_step_next [OF s(1)] r(1) by (simp_all add: emits_def)
    have "loop_result h mem hist tot start stop ISAL_LOOK_AHEAD next' ls' bb' (body_loop h mem hmask hist ?pos stop next' ls' bb')"
      using n p r(1) s(4,5) by (intro less.hyps) simp_all
    then show ?thesis using loop_result_step [OF s(2,4)] True s(1) by (subst body_loop.simps) simp
  qed
qed

lemma finish_loop:
  assumes "bb_ok bb" "hufft_ok h" "unat hmask < length ls" "unat hist \<le> 32768" "window_ok hist (file_pos tot start next) next ls"
    and "start \<le> next" "next \<le> stop" "stop \<le> length mem"
  shows "loop_result h mem hist tot start stop 3 next ls bb
    (finish_loop h mem hmask hist (file_pos tot start) stop next ls bb)"
  using assms
proof (induction "stop - next" arbitrary: "next" ls bb rule: less_induct)
  case less
  note p = less.prems
  let ?pos = "file_pos tot start"
  show ?case
  proof (cases "next + 3 < stop \<and> \<not> is_full bb")
    case False
    then show ?thesis using loop_result_refl [OF p(1,7,5), of "is_full bb" 3 h mem] loop_result_refl [OF p(1,7,5), of False 3 h mem]
      by (subst finish_loop.simps) (auto split: if_splits)
  next
    case True
    let ?m = "stop - next"
    have len: "next + 4 \<le> length mem" "next + min ?m 258 \<le> length mem" using True p(7,8) by linarith+
    obtain next' ls' bb' ts where s: "deflate_step h mem hmask hist ?pos (\<lambda>n. []) ?m next ls bb = Some (next', ls', bb')"
      "emits h mem next next' bb bb' ts" "next' \<le> next + max 1 (min ?m 258)" "length ls' = length ls" "window_ok hist (?pos next') next' ls'"
      using deflate_step [OF p(1) conjunct2 [OF True] p(2-6) len _ refl, of "\<lambda>n. []"] by auto
    then have n: "next < next'" "next' \<le> stop" "bb_ok bb'" using deflate_step_next [OF s(1)] True by (simp_all add: emits_def max_def split: if_splits)
    have "loop_result h mem hist tot start stop 3 next' ls' bb' (finish_loop h mem hmask hist ?pos stop next' ls' bb')"
      using n p True s(4,5) by (intro less.hyps) simp_all
    then show ?thesis using loop_result_step [OF s(2,4)] True s(1) by (subst finish_loop.simps) simp
  qed
qed

lemma literal_loop:
  assumes "bb_ok bb" "hufft_ok h" "next \<le> stop" "stop \<le> length mem"
  shows "\<exists>full next' bb' ts. literal_loop h mem stop next bb = Some (full, next', bb') \<and> emits h mem next next' bb bb' ts
    \<and> next' \<le> stop \<and> (if full then is_full bb' else next' = stop)"
  using assms
proof (induction "stop - next" arbitrary: "next" bb rule: less_induct)
  case less
  note p = less.prems
  show ?case
  proof (cases "next < stop \<and> \<not> is_full bb")
    case False
    then show ?thesis using p emits_refl [OF p(1), of h mem "next"] by (subst literal_loop.simps) auto
  next
    case True
    then have l: "next < length mem" using p(4) by simp
    obtain bb' where b: "write_literal h (unat (mem ! next)) bb = Some bb'" "emits h mem next (next + 1) bb bb' [Literal (mem ! next)]"
      by (rule emit_literal [OF p(1) conjunct2 [OF True] p(2) l])
    have "\<exists>full next' bb'' ts. literal_loop h mem stop (next + 1) bb' = Some (full, next', bb'') \<and> emits h mem (next + 1) next' bb' bb'' ts
      \<and> next' \<le> stop \<and> (if full then is_full bb'' else next' = stop)"
      using conjunct1 [OF True] b(2) p by (intro less.hyps) (simp_all add: emits_def)
    then obtain full next' bb'' ts where r: "literal_loop h mem stop (next + 1) bb' = Some (full, next', bb'')"
      "emits h mem (next + 1) next' bb' bb'' ts" "next' \<le> stop" "if full then is_full bb'' else next' = stop" by blast
    have "literal_loop h mem stop next bb = Some (full, next', bb'')"
      using True b(1) r(1) l by (subst literal_loop.simps) (simp add: get_at_Some)
    then show ?thesis using r emits_trans [OF b(2) r(2)] by blast
  qed
qed

section \<open>The functions\<close>

definition level0_ok :: "isal_zstream \<Rightarrow> bool" where
  "level0_ok s \<longleftrightarrow> hufft_ok (zs_hufftables s) \<and> bb_ok (zs_set_buf s) \<and> unat (zs_hash_mask s) < length (zs_head s)
    \<and> unat (zs_dist_mask s) \<le> 32768 \<and> zs_next_in s + zs_avail_in s \<le> length (zs_in_buf s) \<and> zs_avail_out s < 2 ^ 32
    \<and> window_ok (zs_dist_mask s) (zs_total_in s) (zs_next_in s) (zs_head s)"

text \<open>Bits waiting in the bit buffer, and the bytes stored between two states of a stream.\<close>

definition zs_pending :: "isal_zstream \<Rightarrow> bool list" where
  "zs_pending s = word_bits (m_bits (zs_bitbuf s)) (m_bit_count (zs_bitbuf s))"

definition zs_written :: "isal_zstream \<Rightarrow> isal_zstream \<Rightarrow> u8 list" where
  "zs_written s s' = take (zs_next_out s' - zs_next_out s) (drop (zs_next_out s) (zs_out_buf s'))"

definition level0_emits :: "isal_zstream \<Rightarrow> isal_zstream \<Rightarrow> token list \<Rightarrow> bool list \<Rightarrow> bool" where
  "level0_emits s s' ts eob \<longleftrightarrow>
      expand (take (zs_next_in s) (zs_in_buf s)) ts = Some (take (zs_next_in s') (zs_in_buf s))
    \<and> byte_bits (zs_written s s') @ zs_pending s' = zs_pending s @ concat (map (token_bits (zs_hufftables s)) ts) @ eob
    \<and> zs_next_in s \<le> zs_next_in s' \<and> zs_next_in s' + zs_avail_in s' = zs_next_in s + zs_avail_in s
    \<and> zs_next_out s \<le> zs_next_out s' \<and> zs_next_out s' + zs_avail_out s' = zs_next_out s + zs_avail_out s
    \<and> take (zs_next_out s) (zs_out_buf s') = take (zs_next_out s) (zs_out_buf s)
    \<and> length (zs_out_buf s') = length (zs_out_buf s) \<and> level0_ok s'"

lemma emits_frame:
  assumes "emits h mem next next' bb bb' ts" "bb_ok bb"
  shows "m_out_start bb' = m_out_start bb" "m_out_end bb' = m_out_end bb" "length (m_mem bb') = length (m_mem bb)"
  using assms by (simp_all add: emits_def bb_frame_def)

lemma bb_bits_set_buf: "bb_bits (zs_set_buf s) = zs_pending s"
  by (simp add: bb_bits_def bb_out_def zs_set_buf_def set_buf_def zs_pending_def byte_bits_def)

text \<open>Taking the bit buffer back into the stream.\<close>

lemma level0_update_state:
  assumes ok: "level0_ok s" and bb: "bb_frame (zs_set_buf s) bb" "bb_ok bb"
    and bits: "bb_bits bb = zs_pending s @ concat (map (token_bits (zs_hufftables s)) ts) @ eob"
    and ex: "expand (take (zs_next_in s) (zs_in_buf s)) ts = Some (take n (zs_in_buf s))"
    and n: "zs_next_in s \<le> n" "n \<le> zs_next_in s + zs_avail_in s"
    and ls: "length ls = length (zs_head s)" "window_ok (zs_dist_mask s) (file_pos (zs_total_in s) (zs_next_in s) n) n ls"
    and s1: "s1 = s\<lparr>zs_head := ls, zs_has_eob := e, zs_state := st\<rparr>"
    and s': "s' = update_state (zs_next_in s) n (zs_next_in s + zs_avail_in s) bb s1"
  shows "level0_emits s s' ts eob" "zs_avail_out s' < 8 \<longleftrightarrow> is_full bb"
proof -
  let ?b = "zs_set_buf s"
  have b: "m_out_start bb = zs_next_out s" "m_out_end bb = int (zs_next_out s) + int (zs_avail_out s) - 8"
    "length (m_mem bb) = length (zs_out_buf s)" "take (zs_next_out s) (m_mem bb) = take (zs_next_out s) (zs_out_buf s)"
    using bb(1) by (simp_all add: bb_frame_def zs_set_buf_def set_buf_def)
  have le: "zs_next_out s \<le> m_out_buf bb" "m_out_buf bb \<le> zs_next_out s + zs_avail_out s"
    "zs_next_out s + zs_avail_out s \<le> length (zs_out_buf s)"
    using bb(2) b by (simp_all add: bb_ok_def bb_wf_def)
  have "m_out_buf bb - zs_next_out s < 2 ^ 32" using le(2) ok by (auto simp: level0_ok_def)
  then have used: "unat (buffer_used bb) = m_out_buf bb - zs_next_out s"
    by (simp add: buffer_used_def b(1) unat_of_nat_lt)
  have out: "zs_bitbuf s' = bb" "zs_out_buf s' = m_mem bb" "zs_next_out s' = m_out_buf bb"
    "zs_avail_out s' = zs_avail_out s - (m_out_buf bb - zs_next_out s)"
    "zs_next_in s' = n" "zs_avail_in s' = zs_next_in s + zs_avail_in s - n" "zs_head s' = ls"
    "zs_total_in s' = file_pos (zs_total_in s) (zs_next_in s) n" "zs_in_buf s' = zs_in_buf s"
    "zs_hufftables s' = zs_hufftables s" "zs_hash_mask s' = zs_hash_mask s" "zs_dist_mask s' = zs_dist_mask s"
    unfolding s' s1 update_state_def zs_take_buf_def
    by (simp_all add: Let_def used buffer_ptr_def file_pos_def)
  have set: "bb_ok (zs_set_buf s')"
    using bb(2) b le by (simp add: bb_ok_def bb_wf_def zs_set_buf_def set_buf_def out)
  moreover have "zs_avail_out s' < 2 ^ 32" using ok unfolding out level0_ok_def by linarith
  ultimately have "level0_ok s'" using ok ls n by (simp add: level0_ok_def out)
  moreover have "byte_bits (zs_written s s') @ zs_pending s' = bb_bits bb"
    by (simp add: zs_written_def zs_pending_def bb_bits_def bb_out_def out b(1))
  ultimately show "level0_emits s s' ts eob"
    using ex n le b bits by (simp add: level0_emits_def out)
  show "zs_avail_out s' < 8 \<longleftrightarrow> is_full bb" using le by (auto simp: out is_full_def b(2))
qed

lemma level0_body:
  assumes ok: "level0_ok s"
  shows "\<exists>s' ts. isal_deflate_body s = Some s' \<and> level0_emits s s' ts []
    \<and> (zs_avail_in s' \<le> ISAL_LOOK_AHEAD \<or> zs_avail_out s' < 8)"
proof (cases "zs_avail_in s = 0")
  case True
  define s' where "s' = (if zs_end_of_stream s \<or> zs_flush s \<noteq> NO_FLUSH then s\<lparr>zs_state := ZSTATE_FLUSH_READ_BUFFER\<rparr> else s)"
  have "level0_emits s s' [] []"
    using ok by (simp add: s'_def level0_emits_def level0_ok_def zs_set_buf_def zs_written_def zs_pending_def byte_bits_def)
  moreover have "isal_deflate_body s = Some s'" "zs_avail_in s' = 0"
    using True by (simp_all add: isal_deflate_body_def isal_deflate_body_base_def s'_def)
  ultimately show ?thesis by fastforce
next
  case False
  let ?start = "zs_next_in s" and ?stop = "zs_next_in s + zs_avail_in s"
  let ?pos = "file_pos (zs_total_in s) ?start"
  note o = ok [unfolded level0_ok_def]
  have "loop_result (zs_hufftables s) (zs_in_buf s) (zs_dist_mask s) (zs_total_in s) ?start ?stop ISAL_LOOK_AHEAD ?start
      (zs_head s) (zs_set_buf s) (body_loop (zs_hufftables s) (zs_in_buf s) (zs_hash_mask s) (zs_dist_mask s) ?pos ?stop ?start
      (zs_head s) (zs_set_buf s))"
    using o by (intro body_loop) (simp_all add: file_pos_def)
  then obtain full n ls bb ts where l: "body_loop (zs_hufftables s) (zs_in_buf s) (zs_hash_mask s) (zs_dist_mask s) ?pos ?stop
      ?start (zs_head s) (zs_set_buf s) = Some (full, n, ls, bb)"
    and e: "emits (zs_hufftables s) (zs_in_buf s) ?start n (zs_set_buf s) bb ts" and n: "n \<le> ?stop"
    and ls: "length ls = length (zs_head s)" "window_ok (zs_dist_mask s) (?pos n) n ls"
    and f: "if full then is_full bb else ?stop \<le> n + ISAL_LOOK_AHEAD"
    unfolding loop_result_def by blast
  define st where "st = (if \<not> full \<and> (zs_end_of_stream s \<or> zs_flush s \<noteq> NO_FLUSH) then ZSTATE_FLUSH_READ_BUFFER else zs_state s)"
  define s1 where "s1 = s\<lparr>zs_head := ls, zs_has_eob := zs_has_eob s, zs_state := st\<rparr>"
  define s' where "s' = update_state ?start n ?stop bb s1"
  have r: "level0_emits s s' ts []" "zs_avail_out s' < 8 \<longleftrightarrow> is_full bb"
    using level0_update_state [OF ok _ _ _ _ _ n ls s1_def s'_def, of ts "[]"] e by (simp_all add: emits_def bb_bits_set_buf)
  have a: "zs_avail_in s' = ?stop - n" by (simp add: s'_def update_state_def zs_take_buf_def Let_def)
  have "\<not> full \<Longrightarrow> \<not> ISAL_LOOK_AHEAD < ?stop - n" using f by simp
  then have "isal_deflate_body s = Some s'"
    using False l by (simp add: isal_deflate_body_def isal_deflate_body_base_def Let_def s'_def s1_def st_def
      update_state_def zs_take_buf_def)
  then show ?thesis using r a f by (auto split: if_splits)
qed

lemma level0_finish_eob:
  assumes ok: "level0_ok s" and e: "emits (zs_hufftables s) (zs_in_buf s) (zs_next_in s) n (zs_set_buf s) bb ts"
    and n: "n = zs_next_in s + zs_avail_in s" and ls: "length ls = length (zs_head s)"
      "window_ok (zs_dist_mask s) (file_pos (zs_total_in s) (zs_next_in s) n) n ls"
  shows "\<exists>s' eob. finish_eob (zs_next_in s) n n bb (s\<lparr>zs_head := ls\<rparr>) = Some s'
    \<and> level0_emits s s' ts (if eob then code_bits (get_lit_code (zs_hufftables s) 256) else [])
    \<and> (if eob then zs_avail_in s' = 0 \<and> zs_has_eob s'
         \<and> zs_state s' = (if zs_end_of_stream s then ZSTATE_TRL else ZSTATE_SYNC_FLUSH)
       else zs_avail_out s' < 8 \<and> zs_state s' = zs_state s)"
proof (cases "is_full bb")
  case True
  define s1 where "s1 = s\<lparr>zs_head := ls, zs_has_eob := zs_has_eob s, zs_state := zs_state s\<rparr>"
  define s' where "s' = update_state (zs_next_in s) n (zs_next_in s + zs_avail_in s) bb s1"
  have "level0_emits s s' ts []" "zs_avail_out s' < 8"
    using level0_update_state [OF ok _ _ _ _ _ _ ls s1_def s'_def, of ts "[]"] e n True by (simp_all add: emits_def bb_bits_set_buf)
  moreover have "zs_state s' = zs_state s" by (simp add: s'_def s1_def update_state_def zs_take_buf_def Let_def)
  moreover have "s1 = s\<lparr>zs_head := ls\<rparr>" by (simp add: s1_def)
  ultimately show ?thesis using True n by (intro exI [of _ s'] exI [of _ False]) (simp add: finish_eob_def s'_def)
next
  case False
  let ?st = "if zs_end_of_stream s then ZSTATE_TRL else ZSTATE_SYNC_FLUSH"
  have "bb_ok bb" "hufft_ok (zs_hufftables s)" using e ok by (simp_all add: emits_def level0_ok_def)
  from write_literal_bits [OF this(1) False this(2) order_refl] obtain bb' where b: "write_literal (zs_hufftables s) 256 bb = Some bb'"
    "bb_ok bb'" "bb_bits bb' = bb_bits bb @ code_bits (get_lit_code (zs_hufftables s) 256)" "bb_frame bb bb'" .
  define s1 where "s1 = s\<lparr>zs_head := ls, zs_has_eob := True, zs_state := ?st\<rparr>"
  define s' where "s' = update_state (zs_next_in s) n (zs_next_in s + zs_avail_in s) bb' s1"
  have "bb_frame (zs_set_buf s) bb'" using e b(4) by (auto simp: emits_def intro: bb_frame_trans)
  then have "level0_emits s s' ts (code_bits (get_lit_code (zs_hufftables s) 256))"
    using level0_update_state(1) [OF ok _ b(2) _ _ _ _ ls s1_def s'_def, of ts "code_bits (get_lit_code (zs_hufftables s) 256)"] e n b(3)
    by (simp add: emits_def bb_bits_set_buf)
  moreover have "zs_state s' = ?st" "zs_has_eob s'" "zs_avail_in s' = 0"
    by (simp_all add: s'_def s1_def update_state_def zs_take_buf_def Let_def n)
  moreover have "s1 = s\<lparr>zs_head := ls, zs_has_eob := True, zs_state := ?st\<rparr>" by (simp add: s1_def)
  ultimately show ?thesis using False n b(1)
    by (intro exI [of _ s'] exI [of _ True]) (simp add: finish_eob_def s'_def)
qed

lemma level0_finish:
  assumes ok: "level0_ok s"
  shows "\<exists>s' ts eob. isal_deflate_finish s = Some s'
    \<and> level0_emits s s' ts (if eob then code_bits (get_lit_code (zs_hufftables s) 256) else [])
    \<and> (if eob then zs_avail_in s' = 0 \<and> zs_has_eob s'
         \<and> zs_state s' = (if zs_end_of_stream s then ZSTATE_TRL else ZSTATE_SYNC_FLUSH)
       else zs_avail_out s' < 8 \<and> zs_state s' = zs_state s)"
proof -
  let ?h = "zs_hufftables s" and ?mem = "zs_in_buf s" and ?start = "zs_next_in s" and ?stop = "zs_next_in s + zs_avail_in s"
  let ?pos = "file_pos (zs_total_in s) ?start"
  note o = ok [unfolded level0_ok_def]
  have "loop_result ?h ?mem (zs_dist_mask s) (zs_total_in s) ?start ?stop 3 ?start (zs_head s) (zs_set_buf s)
      (finish_loop ?h ?mem (zs_hash_mask s) (zs_dist_mask s) ?pos ?stop ?start (zs_head s) (zs_set_buf s))"
    using o by (intro finish_loop) (simp_all add: file_pos_def)
  then obtain full n ls bb ts where l: "finish_loop ?h ?mem (zs_hash_mask s) (zs_dist_mask s) ?pos ?stop
      ?start (zs_head s) (zs_set_buf s) = Some (full, n, ls, bb)"
    and e: "emits ?h ?mem ?start n (zs_set_buf s) bb ts" and n: "n \<le> ?stop"
    and ls: "length ls = length (zs_head s)" "window_ok (zs_dist_mask s) (?pos n) n ls"
    and f: "if full then is_full bb else ?stop \<le> n + 3"
    unfolding loop_result_def by blast
  have bb: "bb_ok bb" "hufft_ok ?h" "?start \<le> n" "?stop \<le> length ?mem" using e o by (simp_all add: emits_def)
  from literal_loop [OF bb(1,2) n bb(4)] obtain full2 n2 bb2 us
    where l2: "literal_loop ?h ?mem ?stop n bb = Some (full2, n2, bb2)" and e2: "emits ?h ?mem n n2 bb bb2 us" and n2: "n2 \<le> ?stop"
      and f2: "if full2 then is_full bb2 else n2 = ?stop" by blast
  have stop: ?thesis if r: "isal_deflate_finish s = Some (update_state ?start n' ?stop b (s\<lparr>zs_head := ls\<rparr>))"
    and e': "emits ?h ?mem ?start n' (zs_set_buf s) b vs" and n': "n \<le> n'" "n' \<le> ?stop" and b: "is_full b" for n' b vs
  proof -
    define s1 where "s1 = s\<lparr>zs_head := ls, zs_has_eob := zs_has_eob s, zs_state := zs_state s\<rparr>"
    define s' where "s' = update_state ?start n' ?stop b s1"
    have "window_ok (zs_dist_mask s) (?pos n') n' ls" using ls(2) bb(3) n'(1) by (rule window_ok_advance)
    then have "level0_emits s s' vs []" "zs_avail_out s' < 8"
      using level0_update_state [OF ok _ _ _ _ _ n'(2) ls(1) _ s1_def s'_def, of vs "[]"] e' b by (simp_all add: emits_def bb_bits_set_buf)
    moreover have "zs_state s' = zs_state s" by (simp add: s'_def s1_def update_state_def zs_take_buf_def Let_def)
    moreover have "isal_deflate_finish s = Some s'" using r by (simp add: s'_def s1_def)
    ultimately show ?thesis by (intro exI [of _ s'] exI [of _ vs] exI [of _ False]) simp
  qed
  have d: "isal_deflate_finish s = (if full then Some (update_state ?start n ?stop bb (s\<lparr>zs_head := ls\<rparr>))
      else if full2 then Some (update_state ?start n2 ?stop bb2 (s\<lparr>zs_head := ls\<rparr>))
      else finish_eob ?start n2 ?stop bb2 (s\<lparr>zs_head := ls\<rparr>))" if "zs_avail_in s \<noteq> 0"
    using that l l2 by (simp add: isal_deflate_finish_def isal_deflate_finish_base_def Let_def)
  have n_n2: "n \<le> n2" using e2 by (simp add: emits_def)
  have e3: "emits ?h ?mem ?start n2 (zs_set_buf s) bb2 (ts @ us)" by (rule emits_trans [OF e e2])
  show ?thesis
  proof (cases "zs_avail_in s = 0")
    case True
    have x: "emits ?h ?mem ?start ?start (zs_set_buf s) (zs_set_buf s) []" using o by (simp add: emits_refl)
    have r: "isal_deflate_finish s = finish_eob ?start ?start ?start (zs_set_buf s) (s\<lparr>zs_head := zs_head s\<rparr>)"
      using True by (simp add: isal_deflate_finish_def isal_deflate_finish_base_def Let_def)
    have w: "window_ok (zs_dist_mask s) (?pos ?start) ?start (zs_head s)" using o by (simp add: file_pos_def)
    have "?start = ?stop" using True by simp
    from level0_finish_eob [OF ok x this refl w] show ?thesis unfolding r by blast
  next
    case False
    have w: "window_ok (zs_dist_mask s) (?pos n2) n2 ls" using ls(2) bb(3) n_n2 by (rule window_ok_advance)
    consider "full" | "\<not> full" "full2" | "\<not> full" "\<not> full2" by blast
    then show ?thesis
    proof cases
      case 1
      then have "isal_deflate_finish s = Some (update_state ?start n ?stop bb (s\<lparr>zs_head := ls\<rparr>))" "is_full bb" using d [OF False] f by simp_all
      then show ?thesis by (intro stop [OF _ e order_refl n])
    next
      case 2
      then have "isal_deflate_finish s = Some (update_state ?start n2 ?stop bb2 (s\<lparr>zs_head := ls\<rparr>))" "is_full bb2" using d [OF False] f2 by simp_all
      then show ?thesis by (intro stop [OF _ e3 n_n2 n2])
    next
      case 3
      then have s2: "n2 = ?stop" using f2 by simp
      then have r: "isal_deflate_finish s = finish_eob ?start n2 n2 bb2 (s\<lparr>zs_head := ls\<rparr>)" using d [OF False] 3 by simp
      from level0_finish_eob [OF ok e3 s2 ls(1) w] show ?thesis unfolding r by blast
    qed
  qed
qed

end
