(* ===== verification/Deflate_Level0.thy ===== *)
theory Deflate_Level0
  imports Deflate_Tokens
begin

text \<open>
  Code tables that fit (\<open>tables_ok\<close>) make every literal, length and distance of DEFLATE encodable, and the
  property of the level 0 compressor.
\<close>

section \<open>Tables that fit\<close>

lemma bsr:
  assumes "v \<noteq> 0"
  shows "1 \<le> bsr v" "bsr v \<le> 32" "2 ^ (bsr v - 1) \<le> unat v" "unat v < 2 ^ bsr v"
proof -
  let ?xs = "rev [0..<32]"
  let ?w = "takeWhile (\<lambda>i. \<not> bit v i) ?xs"
  define k where "k = length ?w"
  have b: "bsr v = 32 - k" using assms by (simp add: bsr_def k_def)
  have ex: "\<exists>i \<in> set ?xs. bit v i"
  proof (rule ccontr)
    assume "\<not> (\<exists>i \<in> set ?xs. bit v i)"
    then have "v = 0" by (intro bit_word_eqI) auto
    then show False using assms by simp
  qed
  have lt: "k < 32"
  proof (rule ccontr)
    assume "\<not> k < 32"
    then have "length ?w = length ?xs" using length_takeWhile_le [of "\<lambda>i. \<not> bit v i" ?xs] by (simp add: k_def)
    then have "?w = ?xs" by (metis takeWhile_eq_take take_all order_refl)
    then show False using ex by (metis set_takeWhileD)
  qed
  have nth: "?xs ! i = 31 - i" if "i < 32" for i using that by (simp add: rev_nth)
  have "bit v (?xs ! k)" using nth_length_takeWhile [of "\<lambda>i. \<not> bit v i" ?xs] lt by (simp add: k_def)
  then have top: "bit v (bsr v - 1)" using lt by (simp add: nth b)
  have above: "\<not> bit v i" if "bsr v \<le> i" for i
  proof (cases "i < 32")
    case True
    have "31 - i < k" using that True lt by (simp add: b)
    then have "?w ! (31 - i) = ?xs ! (31 - i)" "?w ! (31 - i) \<in> set ?w"
      unfolding k_def by (rule takeWhile_nth, rule nth_mem)
    then show ?thesis using True by (auto simp: nth dest: set_takeWhileD)
  next
    case False
    then show ?thesis using bit_imp_le_length [of v i] by auto
  qed
  show "1 \<le> bsr v" "bsr v \<le> 32" using lt by (simp_all add: b)
  have "take_bit (bsr v) v = v" using above by (intro bit_word_eqI) (auto simp: bit_simps not_le [symmetric])
  then have "take_bit (bsr v) (unat v) = unat v" by (metis unsigned_take_bit_eq)
  then show "unat v < 2 ^ bsr v" by (simp add: take_bit_nat_eq_self_iff)
  have "bit (unat v) (bsr v - 1)" using top by (simp add: bit_unsigned_iff)
  then have "unat v div 2 ^ (bsr v - 1) \<noteq> 0" by (metis bit_iff_odd even_zero)
  then show "2 ^ (bsr v - 1) \<le> unat v" by (simp add: div_eq_0_iff not_less)
qed

definition packed_ok :: "u32 \<Rightarrow> bool" where
  "packed_ok x \<longleftrightarrow> (let n = unat (x AND 0x1F) in n \<le> 28 \<and> take_bit n (drop_bit 5 x) = drop_bit 5 x)"

definition tables_ok :: "isal_hufftables \<Rightarrow> bool" where
  "tables_ok h \<longleftrightarrow> length (dist_table h) = 2 \<and> length (len_table h) = 256 \<and> length (lit_table h) = 257
    \<and> length (lit_table_sizes h) = 257 \<and> length (dcodes h) = 30 \<and> length (dcodes_sizes h) = 30
    \<and> list_all packed_ok (dist_table h) \<and> list_all packed_ok (len_table h)
    \<and> list_all2 (\<lambda>c n. unat n \<le> 15 \<and> take_bit (unat n) c = c) (lit_table h) (lit_table_sizes h)
    \<and> list_all2 (\<lambda>c n. unat n \<le> 15 \<and> take_bit (unat n) c = c) (dcodes h) (dcodes_sizes h)"

lemma take_bit_ucast_u64:
  "take_bit n x = x \<Longrightarrow> take_bit n (ucast (x :: 'a::len word) :: u64) = ucast x"
  by (rule bit_word_eqI) (metis (no_types, lifting) bit_take_bit_iff bit_ucast_iff)

lemma packed_code_ok: "packed_ok x \<Longrightarrow> code_ok 28 (Some (ucast (drop_bit 5 x), unat (x AND 0x1F)))"
  by (simp add: packed_ok_def code_ok_def Let_def take_bit_ucast_u64)

lemma compute_dist_code_ok:
  assumes h: "length (dcodes h) = 30" "length (dcodes_sizes h) = 30"
    "list_all2 (\<lambda>c n. unat n \<le> 15 \<and> take_bit (unat n) c = c) (dcodes h) (dcodes_sizes h)"
    and d: "2 < unat d" "unat d \<le> 32768"
  shows "code_ok 28 (compute_dist_code h d)"
proof -
  define e where "e = d - 1"
  have "d \<noteq> 0" using d(1) by auto
  then have e: "unat e = unat d - 1" by (simp add: e_def unat_minus_one)
  define m where "m = bsr (ucast e)"
  have u: "unat (ucast e :: u32) = unat e"
    using unsigned_less [of e, where ?'a = nat] by (simp add: unsigned_ucast_eq take_bit_nat_eq_self_iff)
  then have "unat (ucast e :: u32) \<noteq> 0" using d e by simp
  then have "(ucast e :: u32) \<noteq> 0" by auto
  from bsr [OF this] have b: "1 \<le> m" "2 ^ (m - 1) \<le> unat e" "unat e < 2 ^ m" by (simp_all add: m_def u)
  have m2: "2 \<le> m"
  proof (rule ccontr)
    assume "\<not> 2 \<le> m"
    then have "m = 1" using b(1) by simp
    then show False using b(3) e d by simp
  qed
  have "(2 :: nat) ^ (m - 1) < 2 ^ 15" using b(2) e d by (intro le_less_trans [OF b(2)]) simp
  then have "m - 1 < 15" by (rule power_less_imp_less_exp [rotated]) simp
  then have m15: "m \<le> 15" by simp
  define x where "x = m - 2"
  have x: "x \<le> 13" "m = x + 2" using m2 m15 by (simp_all add: x_def)
  have "unat (drop_bit x e) = unat e div 2 ^ x" unfolding unat_drop_bit_eq by (rule drop_bit_eq_div)
  also have "\<dots> < 4" using b(3) x(2) by (simp add: div_less_iff_less_mult power_add mult.commute)
  finally have sym: "unat (drop_bit x e) + 2 * x < 30" using x by simp
  define s where "s = unat (drop_bit x e) + 2 * x"
  have c: "unat (dcodes_sizes h ! s) \<le> 15" "take_bit (unat (dcodes_sizes h ! s)) (dcodes h ! s) = dcodes h ! s"
    using h sym by (auto simp: list_all2_conv_all_nth s_def)
  define n ex where "n = unat (dcodes_sizes h ! s)" and "ex = (ucast e :: u32) AND (push_bit x 1 - 1)"
  have "push_bit x 1 - 1 = (mask x :: u32)" by (simp add: mask_eq_exp_minus_1 push_bit_eq_mult)
  then have ex: "bit ex i \<Longrightarrow> i < x" for i by (simp add: ex_def bit_and_iff bit_mask_iff)
  have cb: "bit (dcodes h ! s) i \<Longrightarrow> i < n" for i using c(2) unfolding n_def by (metis bit_take_bit_iff)
  have "take_bit (n + x) (ucast (dcodes h ! s) OR push_bit n ex) = (ucast (dcodes h ! s) OR push_bit n ex :: u32)"
  proof (rule bit_word_eqI)
    fix i
    have "i < n + x" if "bit (ucast (dcodes h ! s) OR push_bit n ex :: u32) i"
      using that cb [of i] ex [of "i - n"] by (auto simp: bit_or_iff bit_push_bit_iff bit_ucast_iff)
    then show "bit (take_bit (n + x) (ucast (dcodes h ! s) OR push_bit n ex :: u32)) i = bit (ucast (dcodes h ! s) OR push_bit n ex :: u32) i"
      unfolding bit_take_bit_iff by blast
  qed
  moreover have "compute_dist_code h d = Some (ucast (ucast (dcodes h ! s) OR push_bit n ex :: u32), n + x)"
    using d m2 sym h unfolding compute_dist_code_def Let_def e_def [symmetric] m_def [symmetric]
    by (simp add: IGZIP_DIST_TABLE_SIZE_def IGZIP_DECODE_OFFSET_def get_at_Some x_def [symmetric] s_def [symmetric] n_def ex_def)
  ultimately show ?thesis using c(1) x(1) by (simp add: code_ok_def n_def take_bit_ucast_u64)
qed

lemma tables_ok: "tables_ok h \<Longrightarrow> hufft_ok h"
proof -
  assume h: "tables_ok h"
  have lit: "code_ok 28 (get_lit_code h lit)" if "lit \<le> 256" for lit
  proof -
    have "unat (lit_table_sizes h ! lit) \<le> 15" "take_bit (unat (lit_table_sizes h ! lit)) (lit_table h ! lit) = lit_table h ! lit"
      using h that by (auto simp: tables_ok_def list_all2_conv_all_nth)
    then show ?thesis using h that by (simp add: tables_ok_def get_lit_code_def get_at_Some code_ok_def take_bit_ucast_u64)
  qed
  have len: "code_ok 28 (get_len_code h n)" if "3 \<le> n" "n \<le> 258" for n
    using h that packed_code_ok by (auto simp: tables_ok_def get_len_code_def get_at_Some list_all_length)
  have dist: "code_ok 28 (get_dist_code h d)" if "1 \<le> d" "d \<le> 32768" for d
  proof (cases "unat d \<le> 2")
    case True
    have "d \<noteq> 0" using that by auto
    then have "unat (d - 1) < 2" using True by (simp add: unat_minus_one)
    then show ?thesis using h True that packed_code_ok
      by (auto simp: tables_ok_def get_dist_code_def get_at_Some list_all_length IGZIP_DIST_TABLE_SIZE_def)
  next
    case False
    then have "2 < unat d" by simp
    have "unat d \<le> 32768" using that(2) by (simp add: word_le_nat_alt)
    then have "unat (ucast d :: u16) = unat d" by (simp add: unsigned_ucast_eq take_bit_nat_eq_self_iff)
    then have "code_ok 28 (compute_dist_code h (ucast d))"
      using h False \<open>unat d \<le> 32768\<close> by (intro compute_dist_code_ok) (simp_all add: tables_ok_def)
    moreover have "\<not> (d < 1 \<or> d > 32768)" using that \<open>2 < unat d\<close> by (auto simp: not_less)
    ultimately show ?thesis using False by (simp add: get_dist_code_def IGZIP_DIST_TABLE_SIZE_def)
  qed
  show ?thesis using lit len dist by (simp add: hufft_ok_def)
qed

section \<open>Level 0\<close>

text \<open>
  C9: level 0. For every input, output space and contents of the hash table that stay in the window,
  with code tables that fit, \<open>isal_deflate_body\<close> and \<open>isal_deflate_finish\<close> return without an access out of
  bounds or a failed assertion. The bits they append are the codes of literals and matches whose
  expansion after the earlier input is exactly the input they consumed; the body stops when the look-ahead is reached or less than
  8 bytes of output are left, the finish ends with the end-of-block code exactly when all input is consumed and
  there was room, and the invariant holds again for the next call.
\<close>

theorem deflate_level0_tokens:
  assumes "level0_ok s" "eob = code_bits (get_lit_code (zs_hufftables s) 256)"
  shows "(\<exists>s' ts. isal_deflate_body s = Some s' \<and> level0_emits s s' ts []
      \<and> (zs_avail_in s' \<le> ISAL_LOOK_AHEAD \<or> zs_avail_out s' < 8))
    \<and> (\<exists>s' ts ended. isal_deflate_finish s = Some s' \<and> level0_emits s s' ts (if ended then eob else [])
      \<and> (if ended then zs_avail_in s' = 0 \<and> zs_has_eob s'
           \<and> zs_state s' = (if zs_end_of_stream s then ZSTATE_TRL else ZSTATE_SYNC_FLUSH)
         else zs_avail_out s' < 8 \<and> zs_state s' = zs_state s))"
  using level0_body [OF assms(1)] level0_finish [OF assms(1)] unfolding assms(2) by blast

text \<open>A table with codes of fixed lengths, and a stream at its start.\<close>

definition sample_hufftables :: isal_hufftables where
  "sample_hufftables = \<lparr>deflate_hdr = [], deflate_hdr_count = 0, deflate_hdr_extra_bits = 0,
     dist_table = map (\<lambda>i. of_nat (32 * i + 5)) [0..<2], len_table = map (\<lambda>i. of_nat (32 * (257 + i) + 10)) [0..<256],
     lit_table = map of_nat [0..<257], lit_table_sizes = replicate 257 10,
     dcodes = map of_nat [0..<30], dcodes_sizes = replicate 30 5\<rparr>"

definition sample_zstream :: isal_zstream where
  "sample_zstream = \<lparr>zs_block_next = 0, zs_block_end = 0, zs_dist_mask = 32767, zs_hash_mask = 15, zs_state = ZSTATE_BODY,
     zs_bitbuf = \<lparr>m_mem = [], m_bits = 0, m_bit_count = 0, m_out_buf = 0, m_out_end = 0, m_out_start = 0\<rparr>, zs_crc = 0,
     zs_has_wrap_hdr = False, zs_has_eob_hdr = True, zs_has_eob = False, zs_has_hist = IGZIP_NO_HIST, zs_has_level_buf_init = False,
     zs_count = 0, zs_tmp_out_buff = [], zs_tmp_out_start = 0, zs_tmp_out_end = 0, zs_b_bytes_valid = 0,
     zs_b_bytes_processed = 0, zs_buffer = [], zs_head = replicate 16 0, zs_in_buf = [97, 98, 97, 98, 97, 98, 97, 98, 97, 98],
     zs_next_in = 0, zs_avail_in = 10, zs_total_in = 0, zs_out_buf = replicate 32 0, zs_next_out = 0, zs_avail_out = 32,
     zs_total_out = 0, zs_hufftables = sample_hufftables, zs_level = 0, zs_level_buf_size = 0, zs_level_buf = None,
     zs_end_of_stream = True, zs_flush = NO_FLUSH, zs_gzip_flag = IGZIP_DEFLATE, zs_hist_bits = 15\<rparr>"

lemma packed_entry:
  assumes "n \<le> 27" "c < 2 ^ n"
  shows "packed_ok (of_nat (32 * c + n))"
proof -
  let ?x = "of_nat (32 * c + n) :: u32"
  have c: "c < 2 ^ 27" using assms by (intro less_le_trans [OF assms(2)] power_increasing) simp_all
  then have x: "unat ?x = 32 * c + n" using assms(1) by (intro unat_of_nat_lt) simp
  have "(0x1F :: u32) = mask 5" by (simp add: mask_eq_exp_minus_1)
  then have "?x AND 0x1F = take_bit 5 ?x" by (simp only: take_bit_eq_mask)
  then have "unat (?x AND 0x1F) = take_bit 5 (unat ?x)" by (simp only: unsigned_take_bit_eq)
  then have a: "unat (?x AND 0x1F) = n" unfolding x using assms(1) by (simp add: take_bit_eq_mod)
  have "unat (drop_bit 5 ?x) = unat ?x div 2 ^ 5" unfolding unat_drop_bit_eq by (rule drop_bit_eq_div)
  then have d: "unat (drop_bit 5 ?x) = c" unfolding x using assms(1) by simp
  have "unat (take_bit n (drop_bit 5 ?x)) = take_bit n c" unfolding unsigned_take_bit_eq d ..
  then have "unat (take_bit n (drop_bit 5 ?x)) = unat (drop_bit 5 ?x)" using assms(2) d by (simp add: take_bit_nat_eq_self_iff)
  then have "take_bit n (drop_bit 5 ?x) = drop_bit 5 ?x" by (simp only: word_unat_eq_iff)
  then show ?thesis using assms(1) a by (simp add: packed_ok_def Let_def)
qed

lemma sample_ok: "level0_ok sample_zstream"
proof -
  have fits: "take_bit k (of_nat i :: u16) = of_nat i" if "i < 2 ^ k" for k i
    using that by (simp only: take_bit_of_nat take_bit_nat_eq_self)
  have p: "packed_ok (of_nat (32 * i + 5))" if "i < 2" for i by (rule packed_entry) (use that in simp_all)
  have q: "packed_ok (of_nat (32 * (257 + i) + 10))" if "i < 256" for i by (rule packed_entry) (use that in simp_all)
  have b: "\<forall>x \<in> (\<lambda>i. of_nat (32 * i + 5)) ` {0..<2}. packed_ok x"
    "\<forall>x \<in> (\<lambda>i. of_nat (32 * (257 + i) + 10)) ` {0..<256}. packed_ok x"
    by (intro ballI; elim imageE; hypsubst; rule p q; simp)+
  have "list_all packed_ok (dist_table sample_hufftables)"
    unfolding sample_hufftables_def isal_hufftables.simps list_all_iff set_map set_upt by (rule b(1))
  moreover have "list_all packed_ok (len_table sample_hufftables)"
    unfolding sample_hufftables_def isal_hufftables.simps list_all_iff set_map set_upt by (rule b(2))
  moreover have "list_all2 (\<lambda>c n. unat n \<le> 15 \<and> take_bit (unat n) c = c) (lit_table sample_hufftables) (lit_table_sizes sample_hufftables)"
    "list_all2 (\<lambda>c n. unat n \<le> 15 \<and> take_bit (unat n) c = c) (dcodes sample_hufftables) (dcodes_sizes sample_hufftables)"
    by (simp_all add: sample_hufftables_def list_all2_conv_all_nth fits del: take_bit_of_nat)
  ultimately have "tables_ok sample_hufftables" by (simp add: tables_ok_def) (simp add: sample_hufftables_def)
  then have "hufft_ok sample_hufftables" by (rule tables_ok)
  moreover have "window_entry 32767 0 0 0" by (simp add: window_entry_def dist_of_def)
  ultimately show ?thesis
    by (simp add: level0_ok_def sample_zstream_def zs_set_buf_def set_buf_def bb_ok_def bb_wf_def window_ok_def)
qed

theorem deflate_level0_tokens_witness:
  "\<exists>s' ts ended. isal_deflate_finish sample_zstream = Some s'
    \<and> level0_emits sample_zstream s' ts (if ended then code_bits (get_lit_code (zs_hufftables sample_zstream) 256) else [])
    \<and> (ended \<or> zs_avail_out s' < 8)"
  using deflate_level0_tokens [OF sample_ok refl] by (metis (full_types))

end
