(* ===== verification/Stored_Blocks.thy ===== *)
theory Stored_Blocks
  imports Deflate_Stored
begin

text \<open>
  The stored blocks \<open>write_stored_block\<close> writes, as a function of the data, and the proof that it writes
  them: however the output space is cut into calls, the bytes written so far and the bytes
  that are pending are the same list.
\<close>

section \<open>The specification\<close>

definition stored_hdr :: "bool \<Rightarrow> nat \<Rightarrow> u8 list" where
  "stored_hdr fin n = of_bool fin # le_bytes 2 (of_nat n :: u16) @ le_bytes 2 (NOT (of_nat n :: u16))"

lemma length_stored_hdr [simp]: "length (stored_hdr fin n) = 5"
  by (simp add: stored_hdr_def)

function stored_blocks :: "bool \<Rightarrow> u8 list \<Rightarrow> u8 list" where
  "stored_blocks fin data =
    (if length data > 65535 then stored_hdr False 65535 @ take 65535 data @ stored_blocks fin (drop 65535 data)
     else stored_hdr fin (length data) @ data)"
  by pat_completeness auto
termination by (relation "measure (\<lambda>(_, d). length d)") auto

declare stored_blocks.simps [simp del]

lemma stored_blocks_length: "5 \<le> length (stored_blocks fin data)"
  by (subst stored_blocks.simps) simp

section \<open>The bytes of a header\<close>

lemma le_bytes_push8: "le_bytes 5 (push_bit 8 (w :: u64) OR of_bool b) = of_bool b # le_bytes 4 w"
proof (rule nth_equalityI)
  fix i assume "i < length (le_bytes 5 (push_bit 8 w OR of_bool b))"
  then have i: "i < 5" by simp
  show "le_bytes 5 (push_bit 8 w OR of_bool b) ! i = (of_bool b # le_bytes 4 w) ! i"
  proof (cases i)
    case 0
    have "(ucast (push_bit 8 w OR of_bool b) :: u8) = of_bool b"
      by (rule bit_word_eqI) (auto simp: bit_simps)
    then show ?thesis using 0 by simp
  next
    case (Suc j)
    have "(ucast (drop_bit (8 * i) (push_bit 8 w OR of_bool b)) :: u8) = ucast (drop_bit (8 * j) w)"
      by (rule bit_word_eqI) (use Suc i in \<open>auto simp: bit_simps algebra_simps\<close>)
    then show ?thesis using Suc i by simp
  qed
qed simp

lemma type0_header_bytes:
  "le_bytes 4 (push_bit 16 (ucast (NOT len)) OR ucast (len AND 0xFFFF) :: u64)
    = le_bytes 2 (ucast (len :: u32) :: u16) @ le_bytes 2 (NOT (ucast len :: u16))"
proof (rule nth_equalityI)
  let ?h = "push_bit 16 (ucast (NOT len)) OR ucast (len AND 0xFFFF) :: u64"
  have m: "(0xFFFF :: u32) = mask 16" by (simp add: mask_eq_exp_minus_1)
  have b: "bit (ucast (len AND 0xFFFF) :: u64) k \<longleftrightarrow> k < 16 \<and> bit len k" for k
    unfolding m by (auto simp: bit_ucast_iff bit_and_iff bit_mask_iff dest: bit_imp_le_length)
  have hb: "bit ?h k \<longleftrightarrow> (16 \<le> k \<and> k < 48 \<and> \<not> bit len (k - 16)) \<or> (k < 16 \<and> bit len k)" for k
    unfolding bit_or_iff b unfolding bit_push_bit_iff bit_ucast_iff bit_not_iff by auto
  fix i assume "i < length (le_bytes 4 ?h)"
  then have i: "i < 4" by simp
  show "le_bytes 4 ?h ! i = (le_bytes 2 (ucast len :: u16) @ le_bytes 2 (NOT (ucast len :: u16))) ! i"
  proof (cases "i < 2")
    case True
    have "(ucast (drop_bit (8 * i) ?h) :: u8) = ucast (drop_bit (8 * i) (ucast len :: u16))"
    proof (rule bit_word_eqI)
      fix k assume "k < LENGTH(8)"
      then show "bit (ucast (drop_bit (8 * i) ?h) :: u8) k = bit (ucast (drop_bit (8 * i) (ucast len :: u16)) :: u8) k"
        unfolding bit_ucast_iff bit_drop_bit_eq comp_def hb using True by auto
    qed
    then show ?thesis using True i by (simp add: nth_append)
  next
    case False
    define j where "j = i - 2"
    have j: "i = j + 2" "j < 2" using False i by (simp_all add: j_def)
    have "(ucast (drop_bit (8 * i) ?h) :: u8) = ucast (drop_bit (8 * j) (NOT (ucast len :: u16)))"
    proof (rule bit_word_eqI)
      fix k assume "k < LENGTH(8)"
      then show "bit (ucast (drop_bit (8 * i) ?h) :: u8) k = bit (ucast (drop_bit (8 * j) (NOT (ucast len :: u16))) :: u8) k"
        unfolding bit_ucast_iff bit_drop_bit_eq comp_def hb bit_not_iff using j by auto
    qed
    then show ?thesis using j i by (simp add: nth_append)
  qed
qed simp

lemma max_header_bytes: "le_bytes 4 (0xFFFF :: u64) = le_bytes 2 (of_nat 65535 :: u16) @ le_bytes 2 (NOT (of_nat 65535 :: u16))"
  by (simp add: le_bytes_def upt_conv_Cons)

section \<open>What is pending\<close>

definition stored_rem :: "isal_zstream \<Rightarrow> nat" where
  "stored_rem s = unat (zs_block_end s - zs_block_next s)"

definition stored_off :: "isal_zstream \<Rightarrow> nat" where
  "stored_off s = unat (zs_total_in s - zs_block_next s)"

definition stored_data :: "isal_zstream \<Rightarrow> u8 list" where
  "stored_data s = take (stored_rem s) (drop (zs_next_in s - stored_off s) (zs_in_buf s))"

text \<open>The last block of the stream.\<close>

definition stored_fin :: "isal_zstream \<Rightarrow> bool" where
  "stored_fin s \<longleftrightarrow> zs_end_of_stream s \<and> zs_avail_in s + stored_off s = stored_rem s"

text \<open>The bytes in which the bits left in the bit buffer and the three bits of a block end.\<close>

definition stored_lead :: "BitBuf2 \<Rightarrow> bool \<Rightarrow> u8 list" where
  "stored_lead bb fin =
    (if m_bit_count bb = 0 then [of_bool fin]
     else le_bytes ((m_bit_count bb + 10) div 8) (m_bits bb OR push_bit (m_bit_count bb) (of_bool fin)))"

text \<open>How much output a header needs.\<close>

definition stored_need :: "isal_zstream \<Rightarrow> nat" where
  "stored_need s = (if m_bit_count (zs_bitbuf s) = 0 then 5 else 8)"

definition stored_pending :: "isal_zstream \<Rightarrow> u8 list" where
  "stored_pending s =
    (if zs_state s = ZSTATE_TYPE0_HDR
     then stored_lead (zs_bitbuf s) (stored_fin s \<and> length (stored_data s) \<le> 65535) @ tl (stored_blocks (stored_fin s) (stored_data s))
     else take (unat (zs_count s)) (stored_data s)
       @ (if unat (zs_count s) = stored_rem s then [] else stored_blocks (stored_fin s) (drop (unat (zs_count s)) (stored_data s))))"

text \<open>The table that \<open>reset_match_history\<close> clears is there.\<close>

definition hash_room :: "isal_zstream \<Rightarrow> bool" where
  "hash_room s \<longleftrightarrow> reset_match_history s \<noteq> None"

definition stored_inv :: "isal_zstream \<Rightarrow> bool" where
  "stored_inv s \<longleftrightarrow> zs_state s \<in> {ZSTATE_TYPE0_HDR, ZSTATE_TYPE0_BODY}
    \<and> m_bit_count (zs_bitbuf s) \<le> (if zs_state s = ZSTATE_TYPE0_HDR then 7 else 0)
    \<and> stored_rem s \<le> stored_off s \<and> stored_off s \<le> zs_next_in s \<and> zs_next_in s + zs_avail_in s \<le> length (zs_in_buf s)
    \<and> zs_avail_in s + stored_off s < 2 ^ 32 \<and> zs_avail_out s < 2 ^ 32 \<and> zs_next_out s + zs_avail_out s \<le> length (zs_out_buf s)
    \<and> hash_room s
    \<and> (if zs_state s = ZSTATE_TYPE0_HDR then \<not> zs_has_eob_hdr s
       else unat (zs_count s) \<le> stored_rem s \<and> (zs_has_eob_hdr s \<longleftrightarrow> stored_fin s \<and> unat (zs_count s) = stored_rem s))"

lemma hash_room_cong:
  assumes "zs_level t = zs_level s" "zs_level_buf t = zs_level_buf s" "zs_head t = zs_head s" "zs_hash_mask t = zs_hash_mask s"
    and "hash_room s"
  shows "hash_room t"
  using assms unfolding hash_room_def reset_match_history_def update_hash_table_def Let_def
  by (auto split: if_splits option.splits)

text \<open>Writing in front of what is pending.\<close>

definition stored_wrote :: "isal_zstream \<Rightarrow> isal_zstream \<Rightarrow> u8 list \<Rightarrow> bool" where
  "stored_wrote s s' w \<longleftrightarrow> take (zs_next_out s') (zs_out_buf s') = take (zs_next_out s) (zs_out_buf s) @ w
    \<and> length (zs_out_buf s') = length (zs_out_buf s) \<and> zs_next_out s' = zs_next_out s + length w
    \<and> zs_avail_out s' + length w = zs_avail_out s \<and> zs_in_buf s' = zs_in_buf s \<and> zs_next_in s' = zs_next_in s
    \<and> zs_avail_in s' = zs_avail_in s \<and> zs_total_in s' = zs_total_in s \<and> zs_end_of_stream s' = zs_end_of_stream s
    \<and> zs_flush s' = zs_flush s \<and> zs_block_end s' = zs_block_end s \<and> zs_level s' = zs_level s \<and> zs_total_out s' = zs_total_out s + of_nat (length w)"

lemma stored_wrote_take: "stored_wrote s t w \<Longrightarrow> take (zs_next_out t) (zs_out_buf t) = take (zs_next_out s) (zs_out_buf s) @ w"
  unfolding stored_wrote_def by blast

lemma stored_wrote_trans:
  assumes "stored_wrote s t v" "stored_wrote t u w"
  shows "stored_wrote s u (v @ w)"
proof -
  have "take (zs_next_out u) (zs_out_buf u) = take (zs_next_out t) (zs_out_buf t) @ w" by (rule stored_wrote_take [OF assms(2)])
  also have "\<dots> = take (zs_next_out s) (zs_out_buf s) @ v @ w" by (simp add: stored_wrote_take [OF assms(1)])
  finally show ?thesis using assms unfolding stored_wrote_def by (simp add: ac_simps)
qed

lemma stored_wrote_refl: "stored_wrote s s []"
  by (simp add: stored_wrote_def)

lemma take_blit_end: "off + length bs \<le> length out \<Longrightarrow> take (off + length bs) (blit out off bs) = take off out @ bs"
  by (simp add: blit_def)

section \<open>The header\<close>

lemma length_stored_data: "stored_inv s \<Longrightarrow> length (stored_data s) = stored_rem s"
  unfolding stored_data_def stored_inv_def length_take length_drop by linarith

text \<open>The five bytes at once, or the bit buffer and then four bytes.\<close>

lemma type0_emit:
  fixes h :: u64
  assumes b: "m_bit_count (zs_bitbuf s) \<le> 7" and room: "stored_need s \<le> zs_avail_out s"
    and out: "zs_next_out s + zs_avail_out s \<le> length (zs_out_buf s)"
  defines "w \<equiv> stored_lead (zs_bitbuf s) (zs_has_eob_hdr s) @ le_bytes 4 h"
  obtains ob bb where
    "(if m_bit_count (zs_bitbuf s) = 0 \<and> zs_avail_out s \<ge> TYPE0_HDR_LEN + 1 then do {
        stream \<leftarrow> zs_put (le_bytes 5 (push_bit 8 h OR of_bool (zs_has_eob_hdr s))) s;
        Some (stream\<lparr>zs_state := ZSTATE_TYPE0_BODY, zs_count := n\<rparr>)
      } else if zs_avail_out s \<ge> 8 then do {
        bb \<leftarrow> write_bits_flush (zs_set_buf s) (of_bool (zs_has_eob_hdr s)) 3;
        stream \<leftarrow> zs_put (le_bytes 4 h) (zs_take_buf bb s);
        Some (stream\<lparr>zs_state := ZSTATE_TYPE0_BODY, zs_count := n\<rparr>)
      } else Some (s\<lparr>zs_has_eob_hdr := False\<rparr>))
     = Some (s\<lparr>zs_out_buf := ob, zs_bitbuf := bb, zs_next_out := zs_next_out s + length w, zs_avail_out := zs_avail_out s - length w,
         zs_total_out := zs_total_out s + of_nat (length w), zs_state := ZSTATE_TYPE0_BODY, zs_count := n\<rparr>)"
    "m_bit_count bb = 0" "take (zs_next_out s + length w) ob = take (zs_next_out s) (zs_out_buf s) @ w"
    "length ob = length (zs_out_buf s)" "length w \<le> zs_avail_out s"
proof (cases "m_bit_count (zs_bitbuf s) = 0")
  case True
  then have w: "w = le_bytes 5 (push_bit 8 h OR of_bool (zs_has_eob_hdr s))" and lw: "length w = 5" and r: "5 \<le> zs_avail_out s"
    using room by (simp_all add: w_def stored_lead_def le_bytes_push8 stored_need_def)
  have "zs_next_out s + length w \<le> length (zs_out_buf s)" using out r lw by simp
  from take_blit_end [OF this] this lw r True show thesis
    by (intro that [of "zs_bitbuf s" "blit (zs_out_buf s) (zs_next_out s) w"])
      (simp_all add: w [symmetric] TYPE0_HDR_LEN_def zs_put_def put_bytes_def)
next
  case False
  let ?b = "m_bit_count (zs_bitbuf s)" and ?o = "zs_next_out s"
  define W where "W = m_bits (zs_bitbuf s) OR push_bit ?b (of_bool (zs_has_eob_hdr s))"
  define k where "k = (?b + 10) div 8"
  have r: "8 \<le> zs_avail_out s" using room False by (simp add: stored_need_def)
  have k: "0 < k" "k \<le> 2" using b by (auto simp: k_def)
  have w: "w = le_bytes k W @ le_bytes 4 h" using False by (simp add: w_def stored_lead_def W_def k_def)
  have l8: "?o + length (le_bytes 8 W) \<le> length (zs_out_buf s)" using out r by simp
  define o1 where "o1 = blit (zs_out_buf s) ?o (le_bytes 8 W)"
  define bb where "bb = (zs_set_buf s)\<lparr>m_mem := o1, m_out_buf := ?o + k, m_bits := 0, m_bit_count := 0\<rparr>"
  have f: "write_bits_flush (zs_set_buf s) (of_bool (zs_has_eob_hdr s)) 3 = Some bb"
    using l8 by (simp add: write_bits_flush_def flush_def zs_set_buf_def set_buf_def put_le_u64_Some bb_def W_def k_def o1_def add.commute)
  have bf: "m_mem bb = o1" "buffer_ptr bb = ?o + k" "buffer_used bb = of_nat k"
    by (simp_all add: bb_def buffer_ptr_def buffer_used_def zs_set_buf_def set_buf_def)
  have uk: "unat (of_nat k :: u32) = k" using k by (intro unat_of_nat_lt) simp
  have lo: "length o1 = length (zs_out_buf s)" using l8 by (simp add: o1_def)
  define ob where "ob = blit o1 (?o + k) (le_bytes 4 h)"
  have p: "?o + k + length (le_bytes 4 h) \<le> length o1" using l8 k lo by simp
  have "take (?o + k) o1 = take ?o (zs_out_buf s) @ le_bytes k W"
    using l8 k by (simp add: o1_def blit_def take_le_bytes)
  then have t: "take (?o + length w) ob = take ?o (zs_out_buf s) @ w"
    using take_blit_end [OF p] by (simp add: ob_def w add.assoc)
  have lob: "length ob = length (zs_out_buf s)" using p lo by (simp add: ob_def)
  have "zs_put (le_bytes 4 h) (zs_take_buf bb s) = Some (s\<lparr>zs_bitbuf := bb, zs_out_buf := ob, zs_next_out := ?o + length w,
      zs_avail_out := zs_avail_out s - length w, zs_total_out := zs_total_out s + of_nat (length w)\<rparr>)"
    using p by (simp add: zs_put_def put_bytes_def zs_take_buf_def bf uk w ob_def add.assoc)
  then show thesis using False r f t lob k by (intro that [of bb ob]) (simp_all add: w bb_def)
qed

lemma stored_hdr_step:
  assumes inv: "stored_inv s" and st: "zs_state s = ZSTATE_TYPE0_HDR" and room: "stored_need s \<le> zs_avail_out s"
  obtains t w where "write_type0_header s = Some t" "zs_state t = ZSTATE_TYPE0_BODY" "stored_inv t" "stored_wrote s t w"
    "w @ stored_pending t = stored_pending s" "w \<noteq> []"
proof -
  note i = inv [unfolded stored_inv_def]
  define n where "n = zs_block_end s - zs_block_next s"
  define big where "big = (n > TYPE0_MAX_BLK_LEN)"
  define f where "f = (stored_fin s \<and> \<not> big)"
  define h :: u64 where "h = (if big then 0xFFFF else push_bit 16 (ucast (NOT n)) OR ucast (n AND 0xFFFF))"
  define m where "m = (if big then TYPE0_MAX_BLK_LEN else n)"
  define s1 where "s1 = (if f then s\<lparr>zs_has_eob_hdr := True\<rparr> else s)"
  note len = length_stored_data [OF inv]
  have n: "unat n = stored_rem s" by (simp add: n_def stored_rem_def)
  have big: "big \<longleftrightarrow> 65535 < stored_rem s" unfolding big_def n [symmetric] by (simp add: TYPE0_MAX_BLK_LEN_def word_less_nat_alt)
  have eob: "\<not> zs_has_eob_hdr s" and bits: "m_bit_count (zs_bitbuf s) \<le> 7" using i st by simp_all
  have "of_nat (zs_avail_in s) + (zs_total_in s - zs_block_next s) = n \<longleftrightarrow> zs_avail_in s + stored_off s = stored_rem s"
  proof -
    have "of_nat (zs_avail_in s) + (zs_total_in s - zs_block_next s) = (of_nat (zs_avail_in s + stored_off s) :: u32)"
      by (simp add: stored_off_def)
    moreover have "unat (of_nat (zs_avail_in s + stored_off s) :: u32) = zs_avail_in s + stored_off s"
      using i by (intro unat_of_nat_lt) simp
    ultimately show ?thesis unfolding word_unat_eq_iff n by simp
  qed
  then have fin: "zs_end_of_stream s \<and> of_nat (zs_avail_in s) + (zs_total_in s - zs_block_next s) = n \<longleftrightarrow> stored_fin s"
    by (simp add: stored_fin_def)
  have s1: "zs_bitbuf s1 = zs_bitbuf s" "zs_avail_out s1 = zs_avail_out s" "zs_next_out s1 = zs_next_out s"
    "zs_out_buf s1 = zs_out_buf s" "zs_total_out s1 = zs_total_out s" "zs_has_eob_hdr s1 = f"
    using eob by (simp_all add: s1_def)
  define w where "w = stored_lead (zs_bitbuf s) f @ le_bytes 4 h"
  have pre: "m_bit_count (zs_bitbuf s1) \<le> 7" "stored_need s1 \<le> zs_avail_out s1" "zs_next_out s1 + zs_avail_out s1 \<le> length (zs_out_buf s1)"
    using bits room i by (simp_all add: s1 stored_need_def)
  from type0_emit [OF pre, of h m, unfolded s1, folded w_def] obtain ob bb where e:
    "(if m_bit_count (zs_bitbuf s) = 0 \<and> zs_avail_out s \<ge> TYPE0_HDR_LEN + 1 then do {
        stream \<leftarrow> zs_put (le_bytes 5 (push_bit 8 h OR of_bool f)) s1;
        Some (stream\<lparr>zs_state := ZSTATE_TYPE0_BODY, zs_count := m\<rparr>)
      } else if zs_avail_out s \<ge> 8 then do {
        bb \<leftarrow> write_bits_flush (zs_set_buf s1) (of_bool f) 3;
        stream \<leftarrow> zs_put (le_bytes 4 h) (zs_take_buf bb s1);
        Some (stream\<lparr>zs_state := ZSTATE_TYPE0_BODY, zs_count := m\<rparr>)
      } else Some (s1\<lparr>zs_has_eob_hdr := False\<rparr>))
     = Some (s1\<lparr>zs_out_buf := ob, zs_bitbuf := bb, zs_next_out := zs_next_out s + length w, zs_avail_out := zs_avail_out s - length w,
         zs_total_out := zs_total_out s + of_nat (length w), zs_state := ZSTATE_TYPE0_BODY, zs_count := m\<rparr>)"
    "m_bit_count bb = 0" "take (zs_next_out s + length w) ob = take (zs_next_out s) (zs_out_buf s) @ w"
    "length ob = length (zs_out_buf s)" "length w \<le> zs_avail_out s" by metis
  define t where "t = s1\<lparr>zs_out_buf := ob, zs_bitbuf := bb, zs_next_out := zs_next_out s + length w, zs_avail_out := zs_avail_out s - length w,
    zs_total_out := zs_total_out s + of_nat (length w), zs_state := ZSTATE_TYPE0_BODY, zs_count := m\<rparr>"
  have "write_type0_header s = Some t"
    unfolding t_def e(1) [symmetric] write_type0_header_def Let_def n_def [symmetric] fin big_def [symmetric]
    using eob by (cases big; cases "stored_fin s") (simp_all add: h_def m_def f_def s1_def)
  moreover have tf: "zs_block_end t = zs_block_end s" "zs_block_next t = zs_block_next s" "zs_total_in t = zs_total_in s"
    "zs_next_in t = zs_next_in s" "zs_in_buf t = zs_in_buf s" "zs_avail_in t = zs_avail_in s"
    "zs_end_of_stream t = zs_end_of_stream s" "zs_flush t = zs_flush s" "zs_level t = zs_level s" "zs_count t = m"
    "zs_level_buf t = zs_level_buf s" "zs_head t = zs_head s" "zs_hash_mask t = zs_hash_mask s" "zs_bitbuf t = bb"
    "zs_has_eob_hdr t = f" "zs_state t = ZSTATE_TYPE0_BODY" "zs_total_out t = zs_total_out s + of_nat (length w)"
    "zs_out_buf t = ob" "zs_next_out t = zs_next_out s + length w" "zs_avail_out t = zs_avail_out s - length w"
    using eob by (simp_all add: t_def s1_def)
  moreover have wt: "stored_wrote s t w" using e by (simp add: stored_wrote_def tf)
  moreover have d: "stored_data t = stored_data s" "stored_fin t = stored_fin s" "stored_rem t = stored_rem s" "stored_off t = stored_off s"
    by (simp_all add: stored_data_def stored_fin_def stored_rem_def stored_off_def tf)
  moreover have um: "unat m = (if big then 65535 else stored_rem s)" using n by (simp add: m_def TYPE0_MAX_BLK_LEN_def)
  moreover have "stored_inv t"
  proof -
    have "hash_room t" by (rule hash_room_cong [where s = s]) (use i in \<open>simp_all add: tf\<close>)
    moreover have "zs_next_out t + zs_avail_out t \<le> length (zs_out_buf t)" "zs_avail_out t < 2 ^ 32"
      using i e(4,5) by (auto simp: tf)
    ultimately show ?thesis using i um big e(2) unfolding stored_inv_def d by (auto simp: tf f_def)
  qed
  moreover have "w @ stored_pending t = stored_pending s"
  proof -
    have h: "le_bytes 4 h = (if big then tl (stored_hdr False 65535) else tl (stored_hdr (stored_fin s) (stored_rem s)))"
    proof -
      have "(ucast n :: u16) = of_nat (stored_rem s)" unfolding n [symmetric] by simp
      then show ?thesis by (simp add: h_def stored_hdr_def max_header_bytes type0_header_bytes)
    qed
    have ff: "stored_fin s \<and> length (stored_data s) \<le> 65535 \<longleftrightarrow> f" using big len by (auto simp: f_def)
    have tl: "tl (stored_hdr a b @ xs) = tl (stored_hdr a b) @ xs" for a b xs by (simp add: stored_hdr_def)
    have "stored_pending s = stored_lead (zs_bitbuf s) f @ tl (stored_blocks (stored_fin s) (stored_data s))"
      unfolding stored_pending_def ff using st by simp
    also have "tl (stored_blocks (stored_fin s) (stored_data s)) = le_bytes 4 h @ stored_pending t"
    proof (cases big)
      case True
      then have "65535 < length (stored_data s)" using big len by simp
      then show ?thesis using True um big unfolding stored_pending_def d tf h
        by (simp add: stored_blocks.simps [of _ "stored_data s"] tl)
    next
      case False
      then have "\<not> 65535 < length (stored_data s)" using big len by simp
      then show ?thesis using False um len unfolding stored_pending_def d tf h
        by (simp add: stored_blocks.simps [of _ "stored_data s"] tl)
    qed
    finally show ?thesis by (simp add: w_def)
  qed
  moreover have "length w = length (stored_lead (zs_bitbuf s) f) + 4" by (simp add: w_def)
  then have "w \<noteq> []" by auto
  ultimately show thesis using that by blast
qed

lemma stored_hdr_full:
  assumes "stored_inv s" "zs_state s = ZSTATE_TYPE0_HDR" "zs_avail_out s < stored_need s"
  shows "write_type0_header s = Some s"
  using assms by (auto simp: write_type0_header_def stored_inv_def stored_need_def Let_def TYPE0_HDR_LEN_def split: if_splits)

text \<open>On a byte boundary the bytes that are pending are the stored blocks.\<close>

lemma stored_blocks_hd: "stored_blocks fin data = of_bool (fin \<and> length data \<le> 65535) # tl (stored_blocks fin data)"
  by (subst (1 2) stored_blocks.simps) (simp add: stored_hdr_def)

lemma stored_pending_aligned:
  assumes "zs_state s = ZSTATE_TYPE0_HDR" "m_bit_count (zs_bitbuf s) = 0"
  shows "stored_pending s = stored_blocks (stored_fin s) (stored_data s)"
  using assms stored_blocks_hd [of "stored_fin s" "stored_data s"] by (simp add: stored_pending_def stored_lead_def)

section \<open>The body\<close>

lemma unat_minus_of_nat: "k \<le> unat (x :: u32) \<Longrightarrow> unat (x - of_nat k) = unat x - k"
proof -
  assume k: "k \<le> unat x"
  have "unat x < 2 ^ 32" using unsigned_less [of x, where ?'a = nat] by simp
  then have "unat (of_nat k :: u32) = k" using k by (intro unat_of_nat_lt) simp
  then show ?thesis using k by (simp add: unat_sub word_le_nat_alt)
qed

lemma stored_advance:
  assumes "zs_block_next t = zs_block_next s + of_nat k" "zs_block_end t = zs_block_end s" "zs_total_in t = zs_total_in s"
    "zs_next_in t = zs_next_in s" "zs_avail_in t = zs_avail_in s" "zs_in_buf t = zs_in_buf s" "zs_end_of_stream t = zs_end_of_stream s"
    and inv: "stored_rem s \<le> stored_off s" "stored_off s \<le> zs_next_in s" and k: "k \<le> stored_rem s"
  shows "stored_rem t = stored_rem s - k" "stored_off t = stored_off s - k" "stored_data t = drop k (stored_data s)"
    "stored_fin t = stored_fin s"
proof -
  have "zs_block_end t - zs_block_next t = zs_block_end s - zs_block_next s - of_nat k"
    "zs_total_in t - zs_block_next t = zs_total_in s - zs_block_next s - of_nat k" using assms(1-3) by simp_all
  then show r: "stored_rem t = stored_rem s - k" "stored_off t = stored_off s - k"
    unfolding stored_rem_def stored_off_def using k inv
    by (simp_all only:) (intro unat_minus_of_nat; simp add: stored_rem_def stored_off_def)+
  have "zs_next_in s - (stored_off s - k) = zs_next_in s - stored_off s + k" using inv k by simp
  then show "stored_data t = drop k (stored_data s)"
    unfolding stored_data_def r using assms(4,6) by (simp add: drop_take add.commute)
  show "stored_fin t = stored_fin s" unfolding stored_fin_def r using assms(5,7) inv k by auto
qed

lemma reset_match_history_shape:
  assumes "reset_match_history s = Some t"
  shows "\<exists>h lb. t = s\<lparr>zs_has_hist := IGZIP_NO_HIST, zs_head := h, zs_level_buf := lb\<rparr>"
proof -
  obtain f where "update_hash_table f (s\<lparr>zs_has_hist := IGZIP_NO_HIST\<rparr>) = Some t"
    using assms by (auto simp: reset_match_history_def Let_def)
  then have "(\<exists>lb. t = s\<lparr>zs_has_hist := IGZIP_NO_HIST, zs_level_buf := lb\<rparr>) \<or> (\<exists>h. t = s\<lparr>zs_has_hist := IGZIP_NO_HIST, zs_head := h\<rparr>)"
    by (auto simp: update_hash_table_def bind_eq_Some_conv split: if_splits option.splits)
  moreover have "s\<lparr>zs_has_hist := IGZIP_NO_HIST, zs_level_buf := lb\<rparr> = s\<lparr>zs_has_hist := IGZIP_NO_HIST, zs_head := zs_head s, zs_level_buf := lb\<rparr>"
    "s\<lparr>zs_has_hist := IGZIP_NO_HIST, zs_head := h\<rparr> = s\<lparr>zs_has_hist := IGZIP_NO_HIST, zs_head := h, zs_level_buf := zs_level_buf s\<rparr>" for lb h
    by simp_all
  ultimately show ?thesis by metis
qed

text \<open>One round: what is left of the chunk or as much as the output takes.\<close>

lemma stored_body_step:
  assumes inv: "stored_inv s" and st: "zs_state s = ZSTATE_TYPE0_BODY"
  defines "k \<equiv> min (unat (zs_count s)) (zs_avail_out s)"
  obtains t where "stored_step s = Some t" "stored_wrote s t (take k (stored_data s))" "k \<le> stored_rem s"
    "if k < unat (zs_count s) then zs_state t = ZSTATE_TYPE0_BODY \<and> stored_inv t
       \<and> take k (stored_data s) @ stored_pending t = stored_pending s \<and> zs_avail_out t = 0 \<and> stored_rem t = stored_rem s - k
     else if k < stored_rem s then zs_state t = ZSTATE_TYPE0_HDR \<and> stored_inv t
       \<and> take k (stored_data s) @ stored_pending t = stored_pending s \<and> stored_rem t = stored_rem s - k
     else zs_state t = (if stored_fin s then ZSTATE_TRL else ZSTATE_NEW_HDR) \<and> take k (stored_data s) = stored_pending s
       \<and> stored_rem t = 0"
proof -
  note i = inv [unfolded stored_inv_def]
  have c: "unat (zs_count s) \<le> stored_rem s" "zs_has_eob_hdr s \<longleftrightarrow> stored_fin s \<and> unat (zs_count s) = stored_rem s"
    using i st by simp_all
  have kc: "k \<le> unat (zs_count s)" "k \<le> zs_avail_out s" by (simp_all add: k_def)
  have k: "k \<le> stored_rem s" using kc c by simp
  have kb: "k < 2 ^ 32" using kc i by (auto simp: k_def)
  then have uk: "unat (of_nat k :: u32) = k" by (intro unat_of_nat_lt) simp
  have count_le: "zs_count s \<le> zs_block_end s - zs_block_next s" using c(1) by (simp add: word_le_nat_alt stored_rem_def)
  have uo: "unat (of_nat (zs_avail_out s) :: u32) = zs_avail_out s" using i by (intro unat_of_nat_lt) simp
  have ua: "unat (of_nat (zs_avail_in s) + (zs_total_in s - zs_block_next s) :: u32) = zs_avail_in s + stored_off s"
  proof -
    have "of_nat (zs_avail_in s) + (zs_total_in s - zs_block_next s) = (of_nat (zs_avail_in s + stored_off s) :: u32)"
      by (simp add: stored_off_def)
    then show ?thesis using i by (simp only:) (intro unat_of_nat_lt; simp)
  qed
  define more where "more = (k < unat (zs_count s))"
  define u where "u = (if more then s\<lparr>zs_count := zs_count s - of_nat k\<rparr> else s\<lparr>zs_count := 0, zs_state := ZSTATE_TYPE0_HDR\<rparr>)"
  have amount: "stored_amount s = (of_nat k, u)"
  proof -
    let ?a = "of_nat (zs_avail_in s) + (zs_total_in s - zs_block_next s) :: u32"
    have na: "\<not> zs_count s > ?a" using c(1) i ua by (auto simp: word_less_nat_alt not_less)
    have "zs_count s > of_nat (zs_avail_out s) \<longleftrightarrow> more"
      unfolding more_def k_def word_less_nat_alt uo by auto
    moreover have "min (of_nat (zs_avail_out s)) ?a = of_nat k" if more
    proof -
      have "of_nat (zs_avail_out s) \<le> ?a" using that c(1) i unfolding more_def k_def word_le_nat_alt uo ua by auto
      moreover have "k = zs_avail_out s" using that unfolding more_def k_def by (simp add: min_def split: if_splits)
      ultimately show ?thesis by (simp add: min_def)
    qed
    moreover have "zs_count s = of_nat k" if "\<not> more"
      using that kc(1) unfolding more_def by (simp add: word_unat_eq_iff uk)
    ultimately show ?thesis unfolding stored_amount_def Let_def u_def using na by (cases more) simp_all
  qed
  define bs where "bs = take k (stored_data s)"
  have lb: "length bs = k" using length_stored_data [OF inv] k by (simp add: bs_def)
  have gb: "get_bytes (zs_in_buf s) (zs_next_in s - stored_off s) k = Some bs"
    using i k by (auto simp: get_bytes_def bs_def stored_data_def min_def)
  define v where "v = u\<lparr>zs_block_next := zs_block_next s + of_nat k, zs_out_buf := blit (zs_out_buf s) (zs_next_out s) bs,
    zs_next_out := zs_next_out s + k, zs_avail_out := zs_avail_out s - k, zs_total_out := zs_total_out s + of_nat k\<rparr>"
  have uf: "zs_next_in u = zs_next_in s" "zs_in_buf u = zs_in_buf s" "zs_block_next u = zs_block_next s"
    "zs_out_buf u = zs_out_buf s" "zs_next_out u = zs_next_out s" "zs_avail_out u = zs_avail_out s" "zs_total_out u = zs_total_out s"
    by (simp_all add: u_def)
  have vf: "zs_block_next v = zs_block_next s + of_nat k" "zs_block_end v = zs_block_end s" "zs_total_in v = zs_total_in s"
    "zs_next_in v = zs_next_in s" "zs_avail_in v = zs_avail_in s" "zs_in_buf v = zs_in_buf s" "zs_end_of_stream v = zs_end_of_stream s"
    "zs_flush v = zs_flush s" "zs_level v = zs_level s" "zs_level_buf v = zs_level_buf s" "zs_head v = zs_head s"
    "zs_hash_mask v = zs_hash_mask s" "zs_bitbuf v = zs_bitbuf s" "zs_has_eob_hdr v = zs_has_eob_hdr s"
    "zs_out_buf v = blit (zs_out_buf s) (zs_next_out s) bs" "zs_next_out v = zs_next_out s + k" "zs_avail_out v = zs_avail_out s - k"
    "zs_total_out v = zs_total_out s + of_nat k" "zs_state v = (if more then ZSTATE_TYPE0_BODY else ZSTATE_TYPE0_HDR)"
    "zs_count v = (if more then zs_count s - of_nat k else 0)"
    using st by (simp_all add: v_def u_def)
  have copy: "stored_copy (unat (zs_total_in s - zs_block_next s)) (of_nat k) u = Some v"
    using gb i kc lb unfolding stored_off_def [symmetric]
    by (simp add: stored_copy_def uk uf zs_put_def put_bytes_def v_def)
  note adv = stored_advance [OF vf(1-7) _ _ k]
  have adv: "stored_rem v = stored_rem s - k" "stored_off v = stored_off s - k" "stored_data v = drop k (stored_data s)"
    "stored_fin v = stored_fin s" using adv i by simp_all
  have hv: "hash_room v" by (rule hash_room_cong [where s = s]) (use i vf in simp_all)
  have "zs_next_out s + length bs \<le> length (zs_out_buf s)" using i kc lb by simp
  then have "stored_wrote s v bs" using take_blit_end [of "zs_next_out s" bs "zs_out_buf s"] kc lb by (simp add: stored_wrote_def vf)
  have step: "stored_step s = stored_done v" using count_le unfolding not_less [symmetric] by (simp add: stored_step_def amount copy)
  have inv_v: "stored_inv v" if "k < stored_rem s"
  proof -
    have "zs_next_out v + zs_avail_out v \<le> length (zs_out_buf v)" "zs_avail_out v < 2 ^ 32" "zs_avail_in v + stored_off v < 2 ^ 32"
      using i kc lb by (auto simp: vf adv)
    moreover have "unat (zs_count s - of_nat k) = unat (zs_count s) - k" using kc by (intro unat_minus_of_nat)
    ultimately show ?thesis using i hv that c kc st unfolding stored_inv_def adv by (auto simp: vf more_def)
  qed
  have pend: "bs @ stored_pending v = stored_pending s" if "k < stored_rem s"
  proof (cases more)
    case True
    have "unat (zs_count s - of_nat k) = unat (zs_count s) - k" using kc by (intro unat_minus_of_nat)
    moreover have "take (unat (zs_count s)) (stored_data s) = take k (stored_data s) @ take (unat (zs_count s) - k) (drop k (stored_data s))"
      using kc by (metis le_add_diff_inverse take_add)
    ultimately show ?thesis using True that st kc c unfolding stored_pending_def adv
      by (auto simp: vf more_def bs_def)
  next
    case False
    then have "k = unat (zs_count s)" using kc by (simp add: more_def)
    moreover have "stored_pending v = stored_blocks (stored_fin v) (stored_data v)"
      using False i st by (intro stored_pending_aligned) (simp_all add: vf)
    ultimately show ?thesis using that st unfolding stored_pending_def [of s] adv by (simp add: bs_def)
  qed
  have be: "zs_block_next v = zs_block_end v \<longleftrightarrow> k = stored_rem s"
  proof -
    have "zs_block_next v = zs_block_end v \<longleftrightarrow> stored_rem v = 0" by (auto simp: stored_rem_def unat_eq_0)
    then show ?thesis using adv(1) k by auto
  qed
  show thesis
  proof (cases "k < stored_rem s")
    case True
    then have "stored_step s = Some v" using step be by (simp add: stored_done_def)
    then show ?thesis
      using that [of v] \<open>stored_wrote s v bs\<close> True inv_v [OF True] pend [OF True] adv k vf kc
      by (auto simp: bs_def more_def k_def split: if_splits)
  next
    case False
    then have kr: "k = stored_rem s" using k by simp
    then have nm: "\<not> more" "unat (zs_count s) = k" using c kc by (auto simp: more_def)
    define x where "x = v\<lparr>zs_state := if stored_fin s then ZSTATE_TRL else ZSTATE_NEW_HDR\<rparr>"
    have xf: "zs_has_eob_hdr v = stored_fin s" using vf c nm kr by simp
    have hx: "hash_room x" by (rule hash_room_cong [where s = v]) (use hv in \<open>simp_all add: x_def\<close>)
    then obtain y where y: "reset_match_history x = Some y" by (auto simp: hash_room_def)
    define z where "z = (if zs_flush x = FULL_FLUSH \<and> zs_state x = ZSTATE_NEW_HDR \<and> are_buffers_empty x then y else x)"
    have "stored_done v = Some (if zs_flush x = FULL_FLUSH \<and> zs_state x = ZSTATE_NEW_HDR \<and> are_buffers_empty x then y else x)"
      using be kr y xf by (cases "stored_fin s") (auto simp: stored_done_def Let_def x_def)
    then have "stored_step s = Some z" using step by (simp add: z_def)
    moreover have "take k (stored_data s) = stored_pending s" using nm kr st length_stored_data [OF inv] by (simp add: stored_pending_def)
    moreover obtain h lb where ye: "y = x\<lparr>zs_has_hist := IGZIP_NO_HIST, zs_head := h, zs_level_buf := lb\<rparr>"
      using reset_match_history_shape [OF y] by blast
    have "stored_wrote s y bs = stored_wrote s v bs" "stored_wrote s x bs = stored_wrote s v bs"
      unfolding ye x_def by (simp_all add: stored_wrote_def)
    then have "stored_wrote s z bs" "zs_state z = zs_state x" "stored_rem z = stored_rem v"
      using \<open>stored_wrote s v bs\<close> by (auto simp: z_def ye x_def stored_rem_def)
    ultimately show ?thesis
      using that [of z] kr adv nm by (simp add: bs_def x_def)
  qed
qed

section \<open>The whole call\<close>

definition stored_result :: "isal_zstream \<Rightarrow> isal_zstream \<Rightarrow> u8 list \<Rightarrow> bool" where
  "stored_result s s' w \<longleftrightarrow> stored_wrote s s' w
    \<and> (if zs_state s' \<in> {ZSTATE_TYPE0_HDR, ZSTATE_TYPE0_BODY}
       then stored_inv s' \<and> w @ stored_pending s' = stored_pending s \<and> stored_need s' \<le> stored_need s \<and> stored_fin s' = stored_fin s
       else zs_state s' = (if stored_fin s then ZSTATE_TRL else ZSTATE_NEW_HDR) \<and> w = stored_pending s \<and> stored_rem s' = 0)"

lemma stored_result_trans:
  assumes "stored_wrote s t v" "v @ stored_pending t = stored_pending s" "stored_fin t = stored_fin s" "stored_need t \<le> stored_need s"
    "stored_result t u w"
  shows "stored_result s u (v @ w)"
  using assms stored_wrote_trans [OF assms(1)] unfolding stored_result_def by (auto split: if_splits)

lemma stored_step_bitbuf:
  assumes "stored_step s = Some t"
  shows "m_bit_count (zs_bitbuf t) = m_bit_count (zs_bitbuf s)"
proof -
  have "zs_bitbuf v = zs_bitbuf u" if "stored_copy k n u = Some v" for k n u v
    using that by (auto simp: stored_copy_def zs_put_def bind_eq_Some_conv split: if_splits)
  moreover have "zs_bitbuf u = zs_bitbuf s" if "stored_amount s = (n, u)" for n u
    using that by (auto simp: stored_amount_def Let_def split: if_splits)
  moreover have "zs_bitbuf v = zs_bitbuf u" if "stored_done u = Some v" for u v
    using that by (auto simp: stored_done_def Let_def dest!: reset_match_history_shape split: if_splits)
  ultimately show ?thesis using assms by (auto simp: stored_step_def bind_eq_Some_conv split: if_splits prod.splits)
qed

lemma write_stored_block_spec:
  assumes "stored_inv s"
  shows "\<exists>n s' w. write_stored_block s = Some (n, s') \<and> unat n = stored_rem s' \<and> stored_result s s' w
    \<and> (stored_need s \<le> zs_avail_out s \<and> zs_state s' \<in> {ZSTATE_TYPE0_HDR, ZSTATE_TYPE0_BODY} \<longrightarrow> w \<noteq> [])"
  using assms
proof (induction "2 * stored_rem s + (if zs_state s = ZSTATE_TYPE0_HDR then 0 else 1)" arbitrary: s rule: less_induct)
  case less
  note inv = less.prems
  have room: "zs_next_out s + zs_avail_out s \<le> length (zs_out_buf s)" using inv by (simp add: stored_inv_def)
  have st: "zs_state s = ZSTATE_TYPE0_HDR \<or> zs_state s = ZSTATE_TYPE0_BODY" using inv by (simp add: stored_inv_def)
  have fin_cong: "stored_fin t = stored_fin s" "stored_rem t = stored_rem s"
    if "stored_wrote s t v" "zs_block_next t = zs_block_next s" for t v
    using that by (simp_all add: stored_fin_def stored_off_def stored_rem_def stored_wrote_def)
  show ?case
  proof (cases "zs_state s = ZSTATE_TYPE0_HDR \<and> zs_avail_out s < stored_need s")
    case True
    then have h: "write_type0_header s = Some s" using stored_hdr_full [OF inv] by simp
    have "write_stored_block s = Some (zs_block_end s - zs_block_next s, s)"
      using True by (subst write_stored_block.simps) (simp add: h)
    moreover have "stored_result s s []" using True inv by (simp add: stored_result_def stored_wrote_refl)
    ultimately show ?thesis using True by (auto simp: stored_rem_def)
  next
    case False
    obtain t v where t: "(if zs_state s = ZSTATE_TYPE0_HDR then write_type0_header s else Some s) = Some t"
      "zs_state t = ZSTATE_TYPE0_BODY" "stored_inv t" "stored_wrote s t v" "v @ stored_pending t = stored_pending s"
      "zs_state s = ZSTATE_TYPE0_HDR \<longrightarrow> v \<noteq> []"
      "length v \<le> zs_avail_out s" "zs_block_next t = zs_block_next s"
    proof (cases "zs_state s = ZSTATE_TYPE0_HDR")
      case True
      then have r: "stored_need s \<le> zs_avail_out s" using False by simp
      from stored_hdr_step [OF inv True r] obtain t w where t: "write_type0_header s = Some t" "zs_state t = ZSTATE_TYPE0_BODY"
        "stored_inv t" "stored_wrote s t w" "w @ stored_pending t = stored_pending s" "w \<noteq> []" .
      have "zs_block_next t = zs_block_next s" using write_type0_header_body(2) [OF t(1) _ True] t(2) by simp
      moreover have "length w \<le> zs_avail_out s" using t(4) by (simp add: stored_wrote_def)
      ultimately show thesis using True t r by (intro that [of t w]) simp_all
    next
      case False
      then show thesis using inv st by (intro that [of s "[]"]) (simp_all add: stored_wrote_refl)
    qed
    have need: "stored_need t \<le> stored_need s" "stored_need t = 5"
      using t(2,3) by (simp_all add: stored_need_def stored_inv_def)
    note tf = fin_cong [OF t(4,8)]
    define k where "k = min (unat (zs_count t)) (zs_avail_out t)"
    from stored_body_step [OF t(3,2), folded k_def] obtain u where u: "stored_step t = Some u"
      "stored_wrote t u (take k (stored_data t))" "k \<le> stored_rem t"
      "if k < unat (zs_count t) then zs_state u = ZSTATE_TYPE0_BODY \<and> stored_inv u
         \<and> take k (stored_data t) @ stored_pending u = stored_pending t \<and> zs_avail_out u = 0 \<and> stored_rem u = stored_rem t - k
       else if k < stored_rem t then zs_state u = ZSTATE_TYPE0_HDR \<and> stored_inv u
         \<and> take k (stored_data t) @ stored_pending u = stored_pending t \<and> stored_rem u = stored_rem t - k
       else zs_state u = (if stored_fin t then ZSTATE_TRL else ZSTATE_NEW_HDR) \<and> take k (stored_data t) = stored_pending t
         \<and> stored_rem u = 0" by blast
    have lw: "length (take k (stored_data t)) = k" using u(3) length_stored_data [OF t(3)] by simp
    have e: "write_stored_block s = (if zs_state u = ZSTATE_TYPE0_HDR then write_stored_block u
        else Some (zs_block_end u - zs_block_next u, u))"
      by (subst write_stored_block.simps) (simp add: t(1,2) u(1))
    have fu: "stored_fin u = stored_fin t" if ru: "stored_rem u = stored_rem t - k"
    proof -
      have be: "zs_block_end u = zs_block_end t" using u(2) by (simp add: stored_wrote_def)
      have "unat (zs_block_end u - zs_block_next u) = unat (zs_block_end t - zs_block_next t - of_nat k)"
        using ru u(3) by (simp add: stored_rem_def unat_minus_of_nat)
      then have d: "zs_block_end u - zs_block_next u = zs_block_end t - zs_block_next t - of_nat k"
        by (rule word_unat_eq_iff [THEN iffD2])
      have "zs_block_next u = zs_block_end u - (zs_block_end u - zs_block_next u)" by simp
      also have "\<dots> = zs_block_next t + of_nat k" unfolding d unfolding be by simp
      finally show ?thesis using u(2,3) t(3) by (intro stored_advance(4)) (simp_all add: stored_wrote_def stored_inv_def)
    qed
    have needu: "stored_need u = stored_need t" using stored_step_bitbuf [OF u(1)] by (simp add: stored_need_def)
    consider "k < unat (zs_count t)" | "\<not> k < unat (zs_count t)" "k < stored_rem t" | "\<not> k < unat (zs_count t)" "\<not> k < stored_rem t"
      by blast
    then show ?thesis
    proof cases
      case 1
      then have "stored_result t u (take k (stored_data t))" using u fu needu by (simp add: stored_result_def)
      then have "stored_result s u (v @ take k (stored_data t))" by (rule stored_result_trans [OF t(4,5) tf(1) need(1)])
      moreover have "v @ take k (stored_data t) \<noteq> []" if "stored_need s \<le> zs_avail_out s"
      proof (cases "v = []")
        case True
        then have "k = zs_avail_out s" using 1 t(4) by (simp add: k_def stored_wrote_def)
        then show ?thesis using that lw need by auto
      qed simp
      ultimately show ?thesis using e 1 u by (auto simp: stored_rem_def)
    next
      case 2
      then have uu: "zs_state u = ZSTATE_TYPE0_HDR" "stored_inv u" "take k (stored_data t) @ stored_pending u = stored_pending t"
        "stored_rem u = stored_rem t - k" using u(4) by simp_all
      have m: "2 * stored_rem u + (if zs_state u = ZSTATE_TYPE0_HDR then 0 else 1)
        < 2 * stored_rem s + (if zs_state s = ZSTATE_TYPE0_HDR then 0 else 1)"
      proof (cases "zs_state s = ZSTATE_TYPE0_HDR")
        case True
        have "0 < unat (zs_count t)"
          using write_type0_header_body(3) [of s t] t(1,2) True 2(2) tf(2)
          by (auto simp: stored_rem_def min_def TYPE0_MAX_BLK_LEN_def unat_gt_0)
        then have "0 < k" using 2(1) by simp
        then show ?thesis using uu True tf(2) 2(2) by simp
      next
        case False
        then show ?thesis using uu tf(2) by simp
      qed
      obtain n s' w where w: "write_stored_block u = Some (n, s')" "unat n = stored_rem s'" "stored_result u s' w"
        "stored_need u \<le> zs_avail_out u \<and> zs_state s' \<in> {ZSTATE_TYPE0_HDR, ZSTATE_TYPE0_BODY} \<longrightarrow> w \<noteq> []"
        using less.hyps [OF m uu(2)] by blast
      have "stored_result t s' (take k (stored_data t) @ w)"
        by (rule stored_result_trans [OF u(2) uu(3) fu [OF uu(4)] eq_refl [OF needu] w(3)])
      then have "stored_result s s' (v @ take k (stored_data t) @ w)" by (rule stored_result_trans [OF t(4,5) tf(1) need(1)])
      moreover have "v @ take k (stored_data t) @ w \<noteq> []"
        if "stored_need s \<le> zs_avail_out s" "zs_state s' \<in> {ZSTATE_TYPE0_HDR, ZSTATE_TYPE0_BODY}"
      proof (cases "v = [] \<and> k = 0")
        case True
        then have "zs_avail_out u = zs_avail_out s" using u(2) t(4) lw by (simp add: stored_wrote_def)
        then have "w \<noteq> []" using w(4) that needu need(1) by auto
        then show ?thesis by simp
      next
        case False
        then show ?thesis using lw by auto
      qed
      ultimately show ?thesis using e uu(1) w(1,2) by auto
    next
      case 3
      then have "stored_result t u (take k (stored_data t))" using u by (simp add: stored_result_def split: if_splits)
      then have "stored_result s u (v @ take k (stored_data t))" by (rule stored_result_trans [OF t(4,5) tf(1) need(1)])
      moreover have "zs_state u \<noteq> ZSTATE_TYPE0_HDR" "zs_state u \<noteq> ZSTATE_TYPE0_BODY" using 3 u(4) by (auto split: if_splits)
      ultimately show ?thesis using e by (auto simp: stored_rem_def)
    qed
  qed
qed

section \<open>Calls in a row\<close>

text \<open>A caller that hands out one output buffer after the other until the block is written, and collects what is in
  them.\<close>

fun stored_calls :: "u8 list list \<Rightarrow> isal_zstream \<Rightarrow> (u8 list \<times> isal_zstream) option" where
  "stored_calls [] s = Some ([], s)"
| "stored_calls (buf # bufs) s =
    (if zs_state s \<in> {ZSTATE_TYPE0_HDR, ZSTATE_TYPE0_BODY} then do {
       (n, t) \<leftarrow> write_stored_block (s\<lparr>zs_out_buf := buf, zs_next_out := 0, zs_avail_out := length buf\<rparr>);
       (out, u) \<leftarrow> stored_calls bufs t;
       Some (take (zs_next_out t) (zs_out_buf t) @ out, u)
     } else Some ([], s))"

lemma stored_refill:
  assumes "stored_inv s" "length buf < 2 ^ 32"
  defines "t \<equiv> s\<lparr>zs_out_buf := buf, zs_next_out := 0, zs_avail_out := length buf\<rparr>"
  shows "stored_inv t" "stored_pending t = stored_pending s" "stored_fin t = stored_fin s" "stored_need t = stored_need s"
proof -
  have "hash_room t" by (rule hash_room_cong [where s = s]) (use assms in \<open>simp_all add: stored_inv_def\<close>)
  moreover show d: "stored_pending t = stored_pending s" "stored_fin t = stored_fin s" "stored_need t = stored_need s"
    by (simp_all add: t_def stored_need_def stored_pending_def stored_fin_def stored_data_def stored_rem_def stored_off_def)
  moreover have "stored_rem t = stored_rem s" "stored_off t = stored_off s"
    by (simp_all add: t_def stored_rem_def stored_off_def)
  ultimately show "stored_inv t" using assms(1,2) by (simp add: stored_inv_def t_def)
qed

lemma stored_calls_spec:
  assumes "stored_inv s" "length (stored_pending s) < length bufs" "\<forall>buf \<in> set bufs. stored_need s \<le> length buf \<and> length buf < 2 ^ 32"
  shows "\<exists>s'. stored_calls bufs s = Some (stored_pending s, s') \<and> zs_state s' = (if stored_fin s then ZSTATE_TRL else ZSTATE_NEW_HDR)"
  using assms
proof (induction bufs arbitrary: s)
  case (Cons buf bufs)
  have lb: "stored_need s \<le> length buf" "length buf < 2 ^ 32" using Cons.prems(3) by simp_all
  define t where "t = s\<lparr>zs_out_buf := buf, zs_next_out := 0, zs_avail_out := length buf\<rparr>"
  note t = stored_refill [OF Cons.prems(1) lb(2), folded t_def]
  have st: "zs_state s \<in> {ZSTATE_TYPE0_HDR, ZSTATE_TYPE0_BODY}" using Cons.prems(1) by (simp add: stored_inv_def)
  obtain n u w where u: "write_stored_block t = Some (n, u)" "stored_result t u w"
    "zs_state u \<in> {ZSTATE_TYPE0_HDR, ZSTATE_TYPE0_BODY} \<Longrightarrow> w \<noteq> []"
    using write_stored_block_spec [OF t(1)] lb unfolding t(4) by (auto simp: t_def)
  have w: "take (zs_next_out u) (zs_out_buf u) = w"
    using u(2) stored_wrote_take [of t u w] by (simp add: stored_result_def) (simp add: t_def)
  show ?case
  proof (cases "zs_state u \<in> {ZSTATE_TYPE0_HDR, ZSTATE_TYPE0_BODY}")
    case True
    then have r: "stored_inv u" "w @ stored_pending u = stored_pending s" "stored_fin u = stored_fin s" "w \<noteq> []" "stored_need u \<le> stored_need s"
      using u(2,3) t by (simp_all add: stored_result_def)
    have "length (stored_pending s) = length w + length (stored_pending u)" unfolding r(2) [symmetric] by simp
    then have "length (stored_pending u) < length bufs" using r(4) Cons.prems(2) by (cases w) auto
    then obtain s' where "stored_calls bufs u = Some (stored_pending u, s')"
      "zs_state s' = (if stored_fin s then ZSTATE_TRL else ZSTATE_NEW_HDR)"
      using Cons.IH [of u] r Cons.prems(3) by (auto intro: order_trans)
    then show ?thesis using st u(1) w r(2) unfolding t_def by simp
  next
    case False
    then have r: "zs_state u = (if stored_fin s then ZSTATE_TRL else ZSTATE_NEW_HDR)" "w = stored_pending s"
      using u(2) t by (simp_all add: stored_result_def split: if_splits)
    have "stored_calls bufs u = Some ([], u)" using False by (cases bufs) simp_all
    then show ?thesis using st u(1) w r unfolding t_def by simp
  qed
qed simp

text \<open>The first bytes are the bits that were left, the final bit and zeros.\<close>

lemma stored_lead_bits:
  assumes "m_bit_count bb \<le> 7" "take_bit (m_bit_count bb) (m_bits bb) = m_bits bb"
  shows "\<exists>pad. byte_bits (stored_lead bb fin) = word_bits (m_bits bb) (m_bit_count bb) @ fin # replicate pad False \<and> 2 \<le> pad"
proof (cases "m_bit_count bb = 0")
  case True
  have "map (bit (of_bool fin :: u8)) [0..<8] = fin # replicate 7 False"
    by (cases fin) (simp_all add: upt_conv_Cons eval_nat_numeral)
  then have "byte_bits (stored_lead bb fin) = word_bits (m_bits bb) (m_bit_count bb) @ fin # replicate 7 False"
    using True by (simp add: stored_lead_def word_bits_def)
  then show ?thesis by (intro exI [of _ 7]) simp
next
  case False
  let ?b = "m_bit_count bb" and ?k = "(m_bit_count bb + 10) div 8"
  let ?W = "m_bits bb OR push_bit ?b (of_bool fin)"
  have k: "?b + 3 \<le> 8 * ?k" "8 * ?k \<le> 64" using assms(1) by linarith+
  have hi: "\<not> bit (m_bits bb) i" if "?b \<le> i" for i
    using that arg_cong [OF assms(2), of "\<lambda>w. bit w i"] by (simp add: bit_take_bit_iff)
  have W: "bit ?W i \<longleftrightarrow> (if i < ?b then bit (m_bits bb) i else i = ?b \<and> fin)" if "i < 64" for i
    using that hi [of i] by (cases fin) (auto simp: bit_or_iff bit_push_bit_iff bit_1_iff bit_exp_iff)
  have "byte_bits (stored_lead bb fin) = map (bit ?W) [0..<8 * ?k]"
    using False k(2) by (simp add: stored_lead_def byte_bits_le_bytes)
  also have "\<dots> = word_bits (m_bits bb) ?b @ fin # replicate (8 * ?k - ?b - 1) False"
  proof (rule nth_equalityI)
    show "length (map (bit ?W) [0..<8 * ?k]) = length (word_bits (m_bits bb) ?b @ fin # replicate (8 * ?k - ?b - 1) False)"
      using k by simp
    fix i assume "i < length (map (bit ?W) [0..<8 * ?k])"
    then have i: "i < 8 * ?k" by simp
    then have "map (bit ?W) [0..<8 * ?k] ! i = bit ?W i" by simp
    also have "\<dots> \<longleftrightarrow> (word_bits (m_bits bb) ?b @ fin # replicate (8 * ?k - ?b - 1) False) ! i"
      using W [of i] i k(2) by (auto simp: nth_append nth_Cons' word_bits_def)
    finally show "map (bit ?W) [0..<8 * ?k] ! i = (word_bits (m_bits bb) ?b @ fin # replicate (8 * ?k - ?b - 1) False) ! i" .
  qed
  finally show ?thesis using k by (intro exI [of _ "8 * ?k - ?b - 1"]) simp
qed

text \<open>
  C11: \<open>write_stored_block\<close> called once per output buffer ends, after at most one call per byte that is
  pending, when every buffer has room for a header: five bytes, or eight when a chunk starts with bits left in
  the bit buffer (with less \<open>write_type0_header\<close> waits). The bytes it leaves in the buffers, in a
  row, are the stored blocks of the chunk: headers with LEN and NLEN, blocks of at most 65535 bytes, the
  final bit exactly on the last block of a stream; bits that were left go into the first byte, before the final bit and
  the padding. The state after it is the trailer or a new header.
\<close>

theorem stored_blocks_written:
  assumes "stored_inv s" "length (stored_pending s) < length bufs"
    and "\<forall>buf \<in> set bufs. (if m_bit_count (zs_bitbuf s) = 0 then 5 else 8) \<le> length buf \<and> length buf < 2 ^ 32"
  defines "blocks \<equiv> stored_blocks (stored_fin s) (stored_data s)" and "bits \<equiv> word_bits (m_bits (zs_bitbuf s)) (m_bit_count (zs_bitbuf s))"
  shows "(\<exists>s'. stored_calls bufs s = Some (stored_pending s, s') \<and> zs_state s' = (if stored_fin s then ZSTATE_TRL else ZSTATE_NEW_HDR))
    \<and> (zs_state s = ZSTATE_TYPE0_HDR \<and> m_bit_count (zs_bitbuf s) = 0 \<longrightarrow> stored_pending s = blocks)
    \<and> (zs_state s = ZSTATE_TYPE0_HDR \<and> take_bit (m_bit_count (zs_bitbuf s)) (m_bits (zs_bitbuf s)) = m_bits (zs_bitbuf s) \<longrightarrow>
        (\<exists>pad \<ge> 2. byte_bits (stored_pending s)
          = bits @ (stored_fin s \<and> length (stored_data s) \<le> 65535) # replicate pad False @ byte_bits (tl blocks)))"
proof (intro conjI impI)
  have "\<forall>buf \<in> set bufs. stored_need s \<le> length buf \<and> length buf < 2 ^ 32" using assms(3) by (simp add: stored_need_def)
  from stored_calls_spec [OF assms(1,2) this]
  show "\<exists>s'. stored_calls bufs s = Some (stored_pending s, s') \<and> zs_state s' = (if stored_fin s then ZSTATE_TRL else ZSTATE_NEW_HDR)" .
  show "stored_pending s = blocks" if "zs_state s = ZSTATE_TYPE0_HDR \<and> m_bit_count (zs_bitbuf s) = 0"
    unfolding blocks_def by (rule stored_pending_aligned) (use that in simp_all)
  assume h: "zs_state s = ZSTATE_TYPE0_HDR \<and> take_bit (m_bit_count (zs_bitbuf s)) (m_bits (zs_bitbuf s)) = m_bits (zs_bitbuf s)"
  then have "m_bit_count (zs_bitbuf s) \<le> 7" using assms(1) by (simp add: stored_inv_def)
  from stored_lead_bits [OF this, of "stored_fin s \<and> length (stored_data s) \<le> 65535"] h
  obtain pad where "2 \<le> pad" "byte_bits (stored_lead (zs_bitbuf s) (stored_fin s \<and> length (stored_data s) \<le> 65535))
    = bits @ (stored_fin s \<and> length (stored_data s) \<le> 65535) # replicate pad False" unfolding bits_def by blast
  then show "\<exists>pad \<ge> 2. byte_bits (stored_pending s)
      = bits @ (stored_fin s \<and> length (stored_data s) \<le> 65535) # replicate pad False @ byte_bits (tl blocks)"
    using h by (intro exI [of _ pad]) (simp add: stored_pending_def blocks_def)
qed

definition stored_sample :: isal_zstream where
  "stored_sample = \<lparr>zs_block_next = 0, zs_block_end = 3, zs_dist_mask = 32767, zs_hash_mask = 15, zs_state = ZSTATE_TYPE0_HDR,
     zs_bitbuf = \<lparr>m_mem = [], m_bits = 0, m_bit_count = 0, m_out_buf = 0, m_out_end = 0, m_out_start = 0\<rparr>, zs_crc = 0,
     zs_has_wrap_hdr = False, zs_has_eob_hdr = False, zs_has_eob = False, zs_has_hist = IGZIP_NO_HIST, zs_has_level_buf_init = False,
     zs_count = 0, zs_tmp_out_buff = [], zs_tmp_out_start = 0, zs_tmp_out_end = 0, zs_b_bytes_valid = 0,
     zs_b_bytes_processed = 0, zs_buffer = [], zs_head = replicate 16 0, zs_in_buf = [97, 98, 99],
     zs_next_in = 3, zs_avail_in = 0, zs_total_in = 3, zs_out_buf = [], zs_next_out = 0, zs_avail_out = 0,
     zs_total_out = 0, zs_hufftables = \<lparr>deflate_hdr = [], deflate_hdr_count = 0, deflate_hdr_extra_bits = 0, dist_table = [],
       len_table = [], lit_table = [], lit_table_sizes = [], dcodes = [], dcodes_sizes = []\<rparr>,
     zs_level = 0, zs_level_buf_size = 0, zs_level_buf = None,
     zs_end_of_stream = True, zs_flush = NO_FLUSH, zs_gzip_flag = IGZIP_DEFLATE, zs_hist_bits = 15\<rparr>"

lemma stored_sample_bits: "m_bit_count (zs_bitbuf stored_sample) = 0"
  by (simp add: stored_sample_def)

lemma stored_sample_facts:
  "stored_inv stored_sample" "stored_data stored_sample = [97, 98, 99]" "stored_fin stored_sample"
  "zs_state stored_sample = ZSTATE_TYPE0_HDR" "stored_pending stored_sample = [1, 3, 0, 252, 255, 97, 98, 99]"
proof -
  have d: "stored_rem stored_sample = 3" "stored_off stored_sample = 3"
    by (simp_all add: stored_rem_def stored_off_def stored_sample_def)
  show f: "stored_data stored_sample = [97, 98, 99]" "stored_fin stored_sample" "zs_state stored_sample = ZSTATE_TYPE0_HDR"
    by (simp_all add: d stored_data_def stored_fin_def) (simp_all add: stored_sample_def)
  have "hash_room stored_sample"
    by (simp add: hash_room_def reset_match_history_def update_hash_table_def stored_sample_def)
  then show "stored_inv stored_sample" by (simp add: stored_inv_def d f) (simp add: stored_sample_def)
  have "stored_pending stored_sample = stored_blocks True [97, 98, 99]"
    using stored_pending_aligned [OF f(3) stored_sample_bits] f by simp
  then show "stored_pending stored_sample = [1, 3, 0, 252, 255, 97, 98, 99]"
    by (simp add: stored_blocks.simps stored_hdr_def le_bytes_def upt_conv_Cons)
qed

theorem stored_blocks_written_witness:
  "\<exists>s'. stored_calls (replicate 9 (replicate 5 0)) stored_sample = Some ([1, 3, 0, 252, 255, 97, 98, 99], s')
    \<and> zs_state s' = ZSTATE_TRL"
  using stored_blocks_written [of stored_sample "replicate 9 (replicate 5 0)"] stored_sample_facts stored_sample_bits by auto

end
