(* ===== verification/Inflate_Header.thy ===== *)
theory Inflate_Header
  imports Inflate_Block
begin

text \<open>
  The block headers of \<open>igzip/igzip_inflate.c\<close>: the tables of literal and length symbols with up to three
  symbols per entry (\<open>set_and_expand_lit_len_huffcode\<close>, \<open>make_inflate_huff_code_lit_len\<close>), the static
  and the dynamic header, \<open>read_header\<close> and its resumable form \<open>read_header_stateful\<close>. The
  configuration is the one without generated tables (\<open>NO_STATIC_INFLATE_H\<close>), where
  \<open>header_matches_pregen\<close> is 0. The value \<open>None\<close> is an access outside of an array, a shift
  by a negative amount, or a loop that does not end.
\<close>

section \<open>Constants and helpers\<close>

definition LIT_LEN :: nat where "LIT_LEN = 286"
definition LIT_LEN_ELEMS :: nat where "LIT_LEN_ELEMS = 514"
definition LIT_TABLE_SIZE :: nat where "LIT_TABLE_SIZE = 257"
definition ISAL_DEF_LIT_SYMBOLS :: nat where "ISAL_DEF_LIT_SYMBOLS = 257"
definition MAX_LIT_LEN_COUNT :: nat where "MAX_LIT_LEN_COUNT = 23"
definition CODE_LEN_CODES :: nat where "CODE_LEN_CODES = 19"
definition ISAL_DECODE_LONG_BITS :: nat where "ISAL_DECODE_LONG_BITS = 12"
definition TRIPLE_SYM_FLAG :: nat where "TRIPLE_SYM_FLAG = 0"
definition DOUBLE_SYM_FLAG :: nat where "DOUBLE_SYM_FLAG = TRIPLE_SYM_FLAG + 1"
definition SINGLE_SYM_FLAG :: nat where "SINGLE_SYM_FLAG = DOUBLE_SYM_FLAG + 1"
definition DEFAULT_SYM_FLAG :: nat where "DEFAULT_SYM_FLAG = TRIPLE_SYM_FLAG"
definition SINGLE_SYM_THRESH :: nat where "SINGLE_SYM_THRESH = 2 * 1024"
definition DOUBLE_SYM_THRESH :: nat where "DOUBLE_SYM_THRESH = 4 * 1024"
definition INVALID_CODE :: u32 where "INVALID_CODE = 0xFFFFFF"

lemmas header_consts =
  LIT_LEN_def LIT_LEN_ELEMS_def LIT_TABLE_SIZE_def ISAL_DEF_LIT_SYMBOLS_def MAX_LIT_LEN_COUNT_def CODE_LEN_CODES_def
  ISAL_DECODE_LONG_BITS_def TRIPLE_SYM_FLAG_def DOUBLE_SYM_FLAG_def SINGLE_SYM_FLAG_def DEFAULT_SYM_FLAG_def
  SINGLE_SYM_THRESH_def DOUBLE_SYM_THRESH_def INVALID_CODE_def

definition put_at :: "'a list \<Rightarrow> nat \<Rightarrow> 'a \<Rightarrow> 'a list option" where
  "put_at xs i x = (if i < length xs then Some (xs[i := x]) else None)"

fun fold_opt :: "('a \<Rightarrow> 'b \<Rightarrow> 'b option) \<Rightarrow> 'a list \<Rightarrow> 'b \<Rightarrow> 'b option" where
  "fold_opt f [] s = Some s"
| "fold_opt f (x # xs) s = f x s \<bind> fold_opt f xs"

section \<open>The expanded code of literals and lengths\<close>

text \<open>\<open>count_total\<close>, \<open>count_tmp\<close> and \<open>expand_count\<close> through the two loops; the second one adds no \<open>count[i]\<close>.\<close>

definition expand_step :: "u32 \<Rightarrow> nat \<Rightarrow> u32 \<times> u32 \<times> u16 list \<Rightarrow> u32 \<times> u32 \<times> u16 list" where
  "expand_step add i st =
    (let (count_total, count_tmp, expand_count) = st;
         count_total = add + count_tmp + count_total;
         count_tmp = ucast (expand_count ! (i + 1))
     in (count_total, count_tmp, expand_count[i + 1 := ucast count_total]))"

definition expand_counts :: "u16 list \<Rightarrow> u16 list \<Rightarrow> u16 list" where
  "expand_counts count expand_count =
    (let count_tmp = ucast (expand_count ! 1);
         expand_count = expand_count[0 := 0, 1 := 0];
         (count_total, count_tmp, expand_count) =
           fold (\<lambda>i. expand_step (ucast (count ! i)) i) [1..<MAX_HUFF_TREE_DEPTH] (0, count_tmp, expand_count);
         count_tmp = ucast (count ! MAX_HUFF_TREE_DEPTH) + count_tmp;
         (count_total, count_tmp, expand_count) =
           fold (expand_step 0) [MAX_HUFF_TREE_DEPTH..<MAX_LIT_LEN_COUNT - 1] (count_total, count_tmp, expand_count)
     in expand_count)"

type_synonym expand_state = "huff_code list \<times> nat list \<times> u32 list \<times> u16 list"

definition expand_literal :: "nat \<Rightarrow> expand_state \<Rightarrow> expand_state option" where
  "expand_literal i st =
    (let (table, code_list, next_code, expand_count) = st in do {
       h \<leftarrow> get_at table i;
       let code_len = hc_length h;
       if code_len = 0 then Some st
       else do {
         next \<leftarrow> get_at next_code code_len;
         insert_index \<leftarrow> get_at expand_count code_len;
         let code = bit_reverse2 (ucast next) code_len;
         code_list \<leftarrow> put_at code_list (unat insert_index) i;
         Some (table[i := write_huff_code code code_len], code_list, next_code[code_len := next + 1],
           expand_count[code_len := insert_index + 1])
       }
     })"

text \<open>One code per value of the extra bits of a length symbol.\<close>

definition expand_extra :: "u32 \<Rightarrow> nat \<Rightarrow> nat \<Rightarrow> nat \<Rightarrow> nat \<Rightarrow> nat \<Rightarrow> huff_code list \<times> nat list \<Rightarrow>
    (huff_code list \<times> nat list) option" where
  "expand_extra code code_len expand_len insert_index expand_next extra st =
    (let (table, code_list) = st in do {
       code_list \<leftarrow> put_at code_list (insert_index + extra) (expand_next + extra);
       table \<leftarrow> put_at table (expand_next + extra) (write_huff_code (code OR push_bit code_len (of_nat extra)) expand_len);
       Some (table, code_list)
     })"

definition expand_length :: "huff_code list \<Rightarrow> nat \<Rightarrow> nat \<times> expand_state \<Rightarrow> (nat \<times> expand_state) option" where
  "expand_length tmp_table len_sym st =
    (let (expand_next, table, code_list, next_code, expand_count) = st;
         extra_count = len_extra_bit_count ! len_sym;
         len_size = 2 ^ extra_count
     in do {
       h \<leftarrow> get_at tmp_table len_sym;
       let code_len = hc_length h;
       if code_len = 0 then Some (expand_next + len_size, table, code_list, next_code, expand_count)
       else do {
         next \<leftarrow> get_at next_code code_len;
         let code = bit_reverse2 (ucast next) code_len;
         let expand_len = code_len + extra_count;
         insert_index \<leftarrow> get_at expand_count expand_len;
         (table, code_list) \<leftarrow> fold_opt (expand_extra code code_len expand_len (unat insert_index) expand_next)
           [0..<len_size] (table, code_list);
         Some (expand_next + len_size, table, code_list, next_code[code_len := next + 1],
           expand_count[expand_len := insert_index + of_nat len_size])
       }
     })"

text \<open>The results are the return value, the table, \<open>count\<close>, which now holds where the codes of a length begin, and
  \<open>code_list\<close>.\<close>

definition set_and_expand_lit_len_huffcode :: "huff_code list \<Rightarrow> nat \<Rightarrow> u16 list \<Rightarrow> u16 list \<Rightarrow> nat list \<Rightarrow>
    (int \<times> huff_code list \<times> u16 list \<times> nat list) option" where
  "set_and_expand_lit_len_huffcode lit_len_huff table_length count expand_count code_list =
    (let next_code = map (next_code_at count) [0..<MAX_HUFF_TREE_DEPTH + 1];
         expand_count = expand_counts count expand_count;
         count = (if table_length > LIT_LEN then count[8 := count ! 8 - 2] else count);
         max = next_code ! MAX_HUFF_TREE_DEPTH + ucast (count ! MAX_HUFF_TREE_DEPTH)
     in if max > push_bit MAX_HUFF_TREE_DEPTH 1 then Some (ISAL_INVALID_BLOCK, lit_len_huff, count, code_list)
        else if length lit_len_huff < LIT_LEN_ELEMS then None
        else do {
          let count = take MAX_LIT_LEN_COUNT expand_count;
          let tmp_table = take (LIT_LEN - ISAL_DEF_LIT_SYMBOLS) (drop ISAL_DEF_LIT_SYMBOLS lit_len_huff);
          let table = blit lit_len_huff ISAL_DEF_LIT_SYMBOLS (replicate (LIT_LEN_ELEMS - ISAL_DEF_LIT_SYMBOLS) 0);
          (table, code_list, next_code, expand_count) \<leftarrow>
            fold_opt expand_literal [0..<ISAL_DEF_LIT_SYMBOLS] (table, code_list, next_code, expand_count);
          (_, table, code_list, next_code, expand_count) \<leftarrow>
            fold_opt (expand_length tmp_table) [0..<LIT_LEN - ISAL_DEF_LIT_SYMBOLS]
              (ISAL_DEF_LIT_SYMBOLS, table, code_list, next_code, expand_count);
          Some (0, table, count, code_list)
        })"

section \<open>The lookup table of literals and lengths\<close>

definition index_to_sym :: "nat \<Rightarrow> nat" where
  "index_to_sym index = (if index \<noteq> 513 then index else 512)"

text \<open>The arrays that do not change in the short loops: the codes and where each length begins.\<close>

record lit_codes =
  lc_table :: "huff_code list"
  lc_list :: "nat list"
  lc_count_total :: "u16 list"

definition lc_count :: "lit_codes \<Rightarrow> nat \<Rightarrow> nat option" where
  "lc_count lc i = map_option unat (get_at (lc_count_total lc) i)"

text \<open>The symbol at an index of the list: its number, its code and its length.\<close>

definition lc_sym :: "lit_codes \<Rightarrow> nat \<Rightarrow> (nat \<times> u32 \<times> nat) option" where
  "lc_sym lc index = do {
     sym_index \<leftarrow> get_at (lc_list lc) index;
     h \<leftarrow> get_at (lc_table lc) sym_index;
     Some (index_to_sym sym_index, ucast (hc_code h), hc_length h)
   }"

definition set_single :: "lit_codes \<Rightarrow> nat \<Rightarrow> u32 list \<Rightarrow> u32 list option" where
  "set_single lc index1 short = do {
     (sym1, sym1_code, sym1_len) \<leftarrow> lc_sym lc index1;
     if sym1 > MAX_LIT_LEN_SYM then Some short
     else put_at short (unat sym1_code) (of_nat sym1 OR push_bit 28 (of_nat sym1_len) OR push_bit 26 1)
   }"

text \<open>The second symbols of pairs; \<open>code\<close> has 16 bits.\<close>

fun set_pairs :: "lit_codes \<Rightarrow> nat \<Rightarrow> u32 \<Rightarrow> nat \<Rightarrow> nat \<Rightarrow> nat list \<Rightarrow> u32 list \<Rightarrow> u32 list option" where
  "set_pairs lc sym1 sym1_code sym1_len sym2_len [] short = Some short"
| "set_pairs lc sym1 sym1_code sym1_len sym2_len (index2 # is) short = do {
     (sym2, sym2_code, _) \<leftarrow> lc_sym lc index2;
     if sym2 > MAX_LIT_LEN_SYM then Some short
     else do {
       let code = (ucast (sym1_code OR push_bit sym1_len sym2_code) :: u16);
       short \<leftarrow> put_at short (unat code) (of_nat sym1 OR push_bit 8 (of_nat sym2)
         OR push_bit 28 (of_nat (sym1_len + sym2_len)) OR push_bit 26 2);
       set_pairs lc sym1 sym1_code sym1_len sym2_len is short
     }
   }"

text \<open>A first symbol that is not a literal moves the index to the codes of the next length, wherever
  that is.\<close>

partial_function (option) pair_loop :: "lit_codes \<Rightarrow> nat \<Rightarrow> nat \<Rightarrow> nat \<Rightarrow> u32 list \<Rightarrow> u32 list option" where
  "pair_loop lc last_length stop index1 short =
    (if index1 < stop then do {
       (sym1, sym1_code, sym1_len) \<leftarrow> lc_sym lc index1;
       if sym1 \<ge> 256 then do {
         index1 \<leftarrow> lc_count lc (sym1_len + 1);
         pair_loop lc last_length stop index1 short
       } else if sym1_len > last_length then None
       else do {
         a \<leftarrow> lc_count lc (last_length - sym1_len);
         b \<leftarrow> lc_count lc (last_length - sym1_len + 1);
         short \<leftarrow> set_pairs lc sym1 sym1_code sym1_len (last_length - sym1_len) [a..<b] short;
         pair_loop lc last_length stop (index1 + 1) short
       }
     } else Some short)"

fun set_triples :: "lit_codes \<Rightarrow> nat \<Rightarrow> u32 \<Rightarrow> nat \<Rightarrow> nat \<Rightarrow> u32 \<Rightarrow> nat \<Rightarrow> nat \<Rightarrow> nat list \<Rightarrow> u32 list \<Rightarrow> u32 list option" where
  "set_triples lc sym1 sym1_code sym1_len sym2 sym2_code sym2_len sym3_len [] short = Some short"
| "set_triples lc sym1 sym1_code sym1_len sym2 sym2_code sym2_len sym3_len (index3 # is) short = do {
     (sym3, sym3_code, _) \<leftarrow> lc_sym lc index3;
     if sym3 > MAX_LIT_LEN_SYM - 1 then Some short
     else do {
       let code = (ucast (sym1_code OR push_bit sym1_len sym2_code OR push_bit (sym2_len + sym1_len) sym3_code) :: u16);
       short \<leftarrow> put_at short (unat code) (of_nat sym1 OR push_bit 8 (of_nat sym2) OR push_bit 16 (of_nat sym3)
         OR push_bit 28 (of_nat (sym1_len + sym2_len + sym3_len)) OR push_bit 26 3);
       set_triples lc sym1 sym1_code sym1_len sym2 sym2_code sym2_len sym3_len is short
     }
   }"

partial_function (option) triple_second_loop :: "lit_codes \<Rightarrow> nat \<Rightarrow> nat \<Rightarrow> u32 \<Rightarrow> nat \<Rightarrow> nat \<Rightarrow> nat \<Rightarrow> u32 list \<Rightarrow> u32 list option" where
  "triple_second_loop lc last_length sym1 sym1_code sym1_len stop index2 short =
    (if index2 < stop then do {
       (sym2, sym2_code, sym2_len) \<leftarrow> lc_sym lc index2;
       if sym2 \<ge> 256 then do {
         index2 \<leftarrow> lc_count lc (sym2_len + 1);
         triple_second_loop lc last_length sym1 sym1_code sym1_len stop index2 short
       } else if sym1_len + sym2_len > last_length then None
       else do {
         let sym3_len = last_length - sym1_len - sym2_len;
         a \<leftarrow> lc_count lc sym3_len;
         b \<leftarrow> lc_count lc (sym3_len + 1);
         short \<leftarrow> set_triples lc sym1 sym1_code sym1_len sym2 sym2_code sym2_len sym3_len [a..<b] short;
         triple_second_loop lc last_length sym1 sym1_code sym1_len stop (index2 + 1) short
       }
     } else Some short)"

partial_function (option) triple_loop :: "lit_codes \<Rightarrow> nat \<Rightarrow> nat \<Rightarrow> nat \<Rightarrow> nat \<Rightarrow> u32 list \<Rightarrow> u32 list option" where
  "triple_loop lc last_length min_length stop index1 short =
    (if index1 < stop then do {
       (sym1, sym1_code, sym1_len) \<leftarrow> lc_sym lc index1;
       if sym1 \<ge> 256 then do {
         index1 \<leftarrow> lc_count lc (sym1_len + 1);
         triple_loop lc last_length min_length stop index1 short
       } else if sym1_len > last_length then None
       else if last_length - sym1_len < 2 * min_length then Some short
       else do {
         a \<leftarrow> lc_count lc min_length;
         b \<leftarrow> lc_count lc (last_length - sym1_len - min_length + 1);
         short \<leftarrow> triple_second_loop lc last_length sym1 sym1_code sym1_len b a short;
         triple_loop lc last_length min_length stop (index1 + 1) short
       }
     } else Some short)"

definition short_round :: "lit_codes \<Rightarrow> nat \<Rightarrow> nat \<Rightarrow> nat \<Rightarrow> nat \<Rightarrow> u32 list \<Rightarrow> u32 list option" where
  "short_round lc multisym min_length last_length copy_size short =
    (if 2 * copy_size > length short then None
     else do {
       let short = blit short copy_size (take copy_size short);
       a \<leftarrow> lc_count lc last_length;
       b \<leftarrow> lc_count lc (last_length + 1);
       short \<leftarrow> fold_opt (set_single lc) [a..<b] short;
       if multisym \<ge> SINGLE_SYM_FLAG \<or> last_length < 2 * min_length then Some short
       else do {
         first \<leftarrow> lc_count lc min_length;
         stop \<leftarrow> lc_count lc (last_length - min_length + 1);
         short \<leftarrow> pair_loop lc last_length stop first short;
         if multisym \<ge> DOUBLE_SYM_FLAG \<or> last_length < 3 * min_length then Some short
         else do {
           stop \<leftarrow> lc_count lc (last_length - 2 * min_length + 1);
           triple_loop lc last_length min_length stop first short
         }
       }
     })"

function short_rounds :: "lit_codes \<Rightarrow> nat \<Rightarrow> nat \<Rightarrow> nat \<Rightarrow> nat \<Rightarrow> u32 list \<Rightarrow> u32 list option" where
  "short_rounds lc multisym min_length last_length copy_size short =
    (if last_length \<le> ISAL_DECODE_LONG_BITS then do {
       short \<leftarrow> short_round lc multisym min_length last_length copy_size short;
       short_rounds lc multisym min_length (last_length + 1) (copy_size * 2) short
     } else Some short)"
  by pat_completeness auto
termination by (relation "measure (\<lambda>(_, _, _, l, _). Suc ISAL_DECODE_LONG_BITS - l)") auto

declare short_rounds.simps [simp del]

definition large_long_set :: "nat \<Rightarrow> nat \<Rightarrow> huff_code list \<times> u16 list \<Rightarrow> nat \<Rightarrow> huff_code list \<times> u16 list" where
  "large_long_set off max_length st i =
    (let (table, long) = st; sym1 = index_to_sym i; sym1_len = hc_length (table ! i);
         long_bits = unat (hc_code_and_extra (table ! i)) div 2 ^ ISAL_DECODE_LONG_BITS;
         min_increment = 2 ^ (sym1_len - ISAL_DECODE_LONG_BITS);
         long = foldl (\<lambda>long b. long[off + b := of_nat sym1 OR push_bit 10 (of_nat sym1_len)]) long
           (strides long_bits min_increment (2 ^ (max_length - ISAL_DECODE_LONG_BITS)))
     in (table[i := hc_set_code_and_extra (table ! i) INVALID_CODE], long))"

text \<open>\<open>temp_code_list\<close> has 512 entries.\<close>

fun large_long_loop :: "huff_code list \<Rightarrow> u32 list \<Rightarrow> u16 list \<Rightarrow> nat \<Rightarrow> nat list \<Rightarrow> (u32 list \<times> u16 list) option" where
  "large_long_loop table short long long_code_lookup_length [] = Some (short, long)"
| "large_long_loop table short long long_code_lookup_length (i # long_code_list) = do {
     h \<leftarrow> get_at table i;
     if hc_code_and_extra h = INVALID_CODE
     then large_long_loop table short long long_code_lookup_length long_code_list
     else if \<not> list_all (\<lambda>j. j < length table) long_code_list then None
     else do {
       let first_bits = (ucast (hc_code_and_extra h) AND 0xFFF :: u16);
       let temp = i # filter (\<lambda>j. hc_code (table ! j) AND 0xFFF = first_bits) long_code_list;
       let max_length = hc_length (table ! last temp);
       if length temp > 512 \<or> \<not> list_all (\<lambda>j. ISAL_DECODE_LONG_BITS \<le> hc_length (table ! j)) temp then None
       else do {
         let size = 2 ^ (max_length - ISAL_DECODE_LONG_BITS);
         long \<leftarrow> memset0 long long_code_lookup_length size;
         let (table, long) = foldl (large_long_set long_code_lookup_length max_length) (table, long) temp;
         short \<leftarrow> put_at short (unat first_bits)
           (of_nat long_code_lookup_length OR push_bit 26 (of_nat max_length) OR 0x2000000);
         large_long_loop table short long (long_code_lookup_length + size) long_code_list
       }
     }
   }"

definition make_inflate_huff_code_lit_len :: "inflate_huff_code_large \<Rightarrow> huff_code list \<Rightarrow> u16 list \<Rightarrow> nat list \<Rightarrow>
    nat \<Rightarrow> inflate_huff_code_large option" where
  "make_inflate_huff_code_lit_len result huff_code_table count_total code_list multisym = do {
     n \<leftarrow> get_at count_total (MAX_LIT_LEN_COUNT - 1);
     let code_list_len = unat n;
     if code_list_len = 0 then Some (result\<lparr>short_code_lookup := map (\<lambda>_. 0) (short_code_lookup result)\<rparr>)
     else do {
       first \<leftarrow> get_at code_list 0;
       h \<leftarrow> get_at huff_code_table first;
       let last_length = min (hc_length h) (ISAL_DECODE_LONG_BITS + 1);
       if last_length = 0 \<or> 2 ^ (last_length - 1) > length (short_code_lookup result) then None
       else do {
         let copy_size = 2 ^ (last_length - 1);
         let short = blit (short_code_lookup result) 0 (replicate copy_size 0);
         let lc = \<lparr>lc_table = huff_code_table, lc_list = code_list, lc_count_total = count_total\<rparr>;
         short \<leftarrow> short_rounds lc multisym last_length last_length copy_size short;
         index1 \<leftarrow> lc_count lc (ISAL_DECODE_LONG_BITS + 1);
         if index1 > code_list_len \<or> code_list_len > length code_list then None
         else do {
           (short, long) \<leftarrow> large_long_loop huff_code_table short (long_code_lookup result) 0
             (map ((!) code_list) [index1..<code_list_len]);
           Some (result\<lparr>short_code_lookup := short, long_code_lookup := long\<rparr>)
         }
       }
     }
   }"

section \<open>The static header\<close>

text \<open>A length is all that is read of an entry before its code is set.\<close>

definition static_lit_code :: "huff_code list" where
  "static_lit_code = map (write_huff_code 0)
     (replicate 144 8 @ replicate 112 9 @ replicate 24 7 @ replicate 8 8 @ replicate (LIT_LEN_ELEMS - 288) 0)"

definition static_lit_count :: "u16 list" where
  "static_lit_count = [0, 0, 0, 0, 0, 0, 0, 24, 152, 112, 0, 0, 0, 0, 0, 0, 0, 0, 0, 0, 0, 0, 0]"

definition static_lit_expand_count :: "u16 list" where
  "static_lit_expand_count = [0, 0, 0, 0, 0, 0, 0, - 15, 1, 16, 32, 48, 16, 128, 0, 0, 0, 0, 0, 0, 0, 0, 0]"

definition static_dist_count :: "u16 list" where
  "static_dist_count = [0, 0, 0, 0, 0, 32, 0, 0, 0, 0, 0, 0, 0, 0, 0, 0]"

definition max_dist_of :: "inflate_state \<Rightarrow> nat" where
  "max_dist_of state = (if hist_bits state \<noteq> 0 \<and> hist_bits state < 15 then 2 * hist_bits state else DIST_LEN)"

definition setup_static_header :: "inflate_state \<Rightarrow> (int \<times> inflate_state) option" where
  "setup_static_header state =
    (let multisym = SINGLE_SYM_FLAG;
         dist_code = replicate (DIST_LEN + 2) (write_huff_code 0 5)
     in do {
       (_, lit_code, lit_count, code_list) \<leftarrow> set_and_expand_lit_len_huffcode static_lit_code (LIT_LEN + 2) static_lit_count
         static_lit_expand_count (replicate (LIT_LEN_ELEMS + 2) 0);
       let dist_code = snd (set_codes dist_code static_dist_count);
       lit \<leftarrow> make_inflate_huff_code_lit_len (lit_huff_code state) lit_code lit_count code_list multisym;
       dist \<leftarrow> make_inflate_huff_code_dist (dist_huff_code state) dist_code static_dist_count (max_dist_of state);
       Some (0, state\<lparr>lit_huff_code := lit, dist_huff_code := dist, block_state := ISAL_BLOCK_CODED\<rparr>)
     })"

section \<open>The dynamic header\<close>

text \<open>The lengths of the two codes while they are decoded. \<open>dyn_dist\<close> says that \<open>count\<close> points to
  \<open>dist_count\<close>; \<open>dyn_current\<close> and \<open>dyn_previous\<close> are indices into the table.\<close>

record dyn_state =
  dyn_table :: "huff_code list"
  dyn_lit_count :: "u16 list"
  dyn_dist_count :: "u16 list"
  dyn_expand_count :: "u16 list"
  dyn_current :: nat
  dyn_dist :: bool
  dyn_previous :: "nat option"

text \<open>One length written at \<open>current\<close>.\<close>

definition dyn_put :: "nat \<Rightarrow> huff_code \<Rightarrow> dyn_state \<Rightarrow> dyn_state option" where
  "dyn_put hlit h d =
    (let len = hc_length h;
         d = (if dyn_current d = LIT_TABLE_SIZE + hlit then d\<lparr>dyn_current := LIT_LEN, dyn_dist := True\<rparr> else d);
         previous = dyn_current d
     in do {
       d \<leftarrow> (if dyn_dist d
         then do { n \<leftarrow> get_at (dyn_dist_count d) len; Some (d\<lparr>dyn_dist_count := (dyn_dist_count d)[len := n + 1]\<rparr>) }
         else do { n \<leftarrow> get_at (dyn_lit_count d) len; Some (d\<lparr>dyn_lit_count := (dyn_lit_count d)[len := n + 1]\<rparr>) });
       table \<leftarrow> put_at (dyn_table d) previous h;
       let d = d\<lparr>dyn_table := table, dyn_previous := Some previous, dyn_current := previous + 1\<rparr>;
       if len = 0 \<or> previous \<ge> LIT_TABLE_SIZE + hlit \<or> previous < 264 then Some d
       else do {
         extra_count \<leftarrow> get_at len_extra_bit_count (previous - LIT_TABLE_SIZE);
         a \<leftarrow> get_at (dyn_expand_count d) len;
         let expand_count = (dyn_expand_count d)[len := a - 1];
         b \<leftarrow> get_at expand_count (len + extra_count);
         Some (d\<lparr>dyn_expand_count := expand_count[len + extra_count := b + of_nat (2 ^ extra_count)]\<rparr>)
       }
     })"

text \<open>A run of \<open>i\<close> zeros.\<close>

definition dyn_zeros :: "nat \<Rightarrow> nat \<Rightarrow> dyn_state \<Rightarrow> dyn_state" where
  "dyn_zeros hlit i d =
    (let current = dyn_current d + i;
         d = d\<lparr>dyn_current := current, dyn_previous := Some (current - 1)\<rparr>
     in if \<not> dyn_dist d \<and> current > LIT_TABLE_SIZE + hlit then
          let current = current + (LIT_LEN - LIT_TABLE_SIZE - hlit);
              d = d\<lparr>dyn_current := current, dyn_dist := True\<rparr>
          in if current > LIT_LEN then d\<lparr>dyn_previous := Some (current - 1)\<rparr> else d
        else d)"

text \<open>One symbol of the code of code lengths: \<open>Inl\<close> is a return from \<open>setup_dynamic_header\<close>.\<close>

definition dyn_step :: "nat \<Rightarrow> nat \<Rightarrow> inflate_huff_code_small \<Rightarrow> inflate_state \<Rightarrow> dyn_state \<Rightarrow>
    (int + dyn_state) option \<times> inflate_state" where
  "dyn_step hlit end_table code_huff state d =
    (case decode_next_header state code_huff of
       None \<Rightarrow> (None, state)
     | Some (symbol, state) \<Rightarrow>
         if read_in_length state < 0 then
           (if dyn_current d > 256 \<and> hc_length (dyn_table d ! 256) = 0 then Some (Inl ISAL_INVALID_BLOCK)
            else Some (Inl ISAL_END_INPUT), state)
         else if symbol < 16 then
           (map_option Inr (dyn_put hlit (write_huff_code 0 (unat symbol)) d), state)
         else if symbol = 16 then
           (let (v, state) = inflate_in_read_bits state 2; i = 3 + unat v
            in (case dyn_previous d of
                  None \<Rightarrow> Some (Inl ISAL_INVALID_BLOCK)
                | Some previous \<Rightarrow>
                    if dyn_current d + i > end_table then Some (Inl ISAL_INVALID_BLOCK)
                    else do {
                      rep_code \<leftarrow> get_at (dyn_table d) previous;
                      d \<leftarrow> fold_opt (\<lambda>_. dyn_put hlit rep_code) [0..<i] d;
                      Some (Inr d)
                    }, state))
         else if symbol = 17 then
           (let (v, state) = inflate_in_read_bits state 3 in (Some (Inr (dyn_zeros hlit (3 + unat v) d)), state))
         else if symbol = 18 then
           (let (v, state) = inflate_in_read_bits state 7 in (Some (Inr (dyn_zeros hlit (11 + unat v) d)), state))
         else (Some (Inl ISAL_INVALID_BLOCK), state))"

lemma dyn_put_current: "dyn_put hlit h d = Some d' \<Longrightarrow> hlit \<le> 29 \<Longrightarrow> dyn_current d < dyn_current d'"
  by (auto simp: dyn_put_def Let_def bind_eq_Some_conv header_consts split: if_splits)

lemma dyn_puts_current:
  "fold_opt (\<lambda>_. dyn_put hlit h) xs d = Some d' \<Longrightarrow> hlit \<le> 29 \<Longrightarrow> dyn_current d + length xs \<le> dyn_current d'"
proof (induction xs arbitrary: d)
  case (Cons x xs)
  then obtain e where e: "dyn_put hlit h d = Some e" "fold_opt (\<lambda>_. dyn_put hlit h) xs e = Some d'"
    by (auto simp: bind_eq_Some_conv)
  show ?case using Cons.IH [OF e(2) Cons.prems(2)] dyn_put_current [OF e(1) Cons.prems(2)] by simp
qed simp

lemma dyn_step_current:
  assumes "dyn_step hlit end_table c s d = (Some (Inr d'), s')" "hlit \<le> 29"
  shows "dyn_current d < dyn_current d'"
proof -
  have z: "dyn_current d < dyn_current (dyn_zeros hlit i d)" if "0 < i" for i
    using that assms(2) by (auto simp: dyn_zeros_def Let_def header_consts)
  show ?thesis
    using assms
    by (auto simp: dyn_step_def case_prod_beta z bind_eq_Some_conv Let_def split: option.splits if_splits
      dest: dyn_put_current dest!: dyn_puts_current)
qed

text \<open>The loop; \<open>hlit\<close> has been checked to be at most 29.\<close>

function dyn_loop :: "nat \<Rightarrow> nat \<Rightarrow> inflate_huff_code_small \<Rightarrow> inflate_state \<Rightarrow> dyn_state \<Rightarrow>
    ((int + dyn_state) \<times> inflate_state) option" where
  "dyn_loop hlit end_table code_huff state d =
    (if dyn_current d < end_table \<and> hlit \<le> 29 then
       (case dyn_step hlit end_table code_huff state d of
          (None, _) \<Rightarrow> None
        | (Some (Inl ret), state) \<Rightarrow> Some (Inl ret, state)
        | (Some (Inr d), state) \<Rightarrow> dyn_loop hlit end_table code_huff state d)
     else Some (Inr d, state))"
  by pat_completeness auto
termination
  by (relation "measure (\<lambda>(_, e, _, _, d). e - dyn_current d)") (auto dest!: dyn_step_current [OF sym])

declare dyn_loop.simps [simp del]

text \<open>The lengths of the code of code lengths, three bits each; \<open>flag\<close> is 0 when all of them are.\<close>

definition code_length_order :: "nat list" where
  "code_length_order = [0x10, 0x11, 0x12, 0x00, 0x08, 0x07, 0x09, 0x06, 0x0a, 0x05, 0x0b, 0x04, 0x0c, 0x03, 0x0d,
    0x02, 0x0e, 0x01, 0x0f]"

definition read_code_length :: "nat \<Rightarrow> inflate_state \<times> huff_code list \<times> u16 list \<Rightarrow>
    (inflate_state \<times> huff_code list \<times> u16 list) option" where
  "read_code_length i st =
    (let (state, code_huff, code_count) = st; (v, state) = inflate_in_read_bits_unsafe state 3; len = unat v
     in do {
       k \<leftarrow> get_at code_length_order i;
       n \<leftarrow> get_at code_count len;
       Some (state, code_huff[k := write_huff_code 0 len], code_count[len := n + 1])
     })"

text \<open>What remains when both tables are decoded.\<close>

definition dynamic_tables :: "nat \<Rightarrow> dyn_state \<Rightarrow> inflate_state \<Rightarrow> (int \<times> inflate_state) option" where
  "dynamic_tables multisym d state =
    (let (err, dist_huff) = set_codes (take DIST_LEN (drop LIT_LEN (dyn_table d))) (dyn_dist_count d)
     in if err \<noteq> 0 then Some (ISAL_INVALID_BLOCK, state)
        else do {
          dist \<leftarrow> make_inflate_huff_code_dist (dist_huff_code state) dist_huff (dyn_dist_count d) (max_dist_of state);
          let state = state\<lparr>dist_huff_code := dist\<rparr>;
          (err, table, lit_count, code_list) \<leftarrow> set_and_expand_lit_len_huffcode (dyn_table d) LIT_LEN (dyn_lit_count d)
            (dyn_expand_count d) (replicate (LIT_LEN_ELEMS + 2) 0);
          if err \<noteq> 0 then Some (ISAL_INVALID_BLOCK, state)
          else do {
            lit \<leftarrow> make_inflate_huff_code_lit_len (lit_huff_code state) table lit_count code_list multisym;
            Some (0, state\<lparr>lit_huff_code := lit, block_state := ISAL_BLOCK_CODED\<rparr>)
          }
        })"

definition setup_dynamic_header :: "inflate_state \<Rightarrow> (int \<times> inflate_state) option" where
  "setup_dynamic_header state =
    (let multisym = (if bfinal state \<noteq> 0 \<and> avail_in state \<le> SINGLE_SYM_THRESH then SINGLE_SYM_FLAG
           else if bfinal state \<noteq> 0 \<and> avail_in state \<le> DOUBLE_SYM_THRESH then DOUBLE_SYM_FLAG
           else DEFAULT_SYM_FLAG);
         state = inflate_in_load state
     in if read_in_length state < 14 then Some (ISAL_END_INPUT, state)
        else
          let (hlit, state) = inflate_in_read_bits_unsafe state 5;
              (hdist, state) = inflate_in_read_bits_unsafe state 5;
              (hclen, state) = inflate_in_read_bits_unsafe state 4
          in if hlit > 29 \<or> hdist > 29 \<or> hclen > 15 then Some (ISAL_INVALID_BLOCK, state)
             else do {
               (state, code_huff, code_count) \<leftarrow> fold_opt read_code_length [0..<4]
                 (state, replicate CODE_LEN_CODES 0, replicate 16 0);
               let state = inflate_in_load state;
               (state, code_huff, code_count) \<leftarrow> fold_opt read_code_length [4..<unat hclen + 4] (state, code_huff, code_count);
               let (err, code_huff') = set_codes code_huff code_count;
               if read_in_length state < 0 then Some (ISAL_END_INPUT, state)
               else if list_all (\<lambda>h. hc_length h = 0) code_huff \<or> err \<noteq> 0 then Some (ISAL_INVALID_BLOCK, state)
               else do {
                 inflate_code_huff \<leftarrow> make_inflate_huff_code_header
                   \<lparr>short_code_lookup = replicate 1024 0, long_code_lookup = replicate 80 0\<rparr> code_huff' code_count CODE_LEN_CODES;
                 let end_table = LIT_LEN + unat hdist + 1;
                 (r, state) \<leftarrow> dyn_loop (unat hlit) end_table inflate_code_huff state
                   \<lparr>dyn_table = replicate LIT_LEN_ELEMS 0, dyn_lit_count = replicate MAX_LIT_LEN_COUNT 0,
                    dyn_dist_count = replicate 16 0, dyn_expand_count = replicate MAX_LIT_LEN_COUNT 0, dyn_current = 0,
                    dyn_dist = False, dyn_previous = None\<rparr>;
                 case r of
                   Inl ret \<Rightarrow> Some (ret, state)
                 | Inr d \<Rightarrow>
                     if dyn_current d > end_table \<or> hc_length (dyn_table d ! 256) = 0 then Some (ISAL_INVALID_BLOCK, state)
                     else if read_in_length state < 0 then Some (ISAL_END_INPUT, state)
                     else dynamic_tables multisym d state
               }
             })"

section \<open>The header of a block\<close>

text \<open>A stored block: the rest of the byte is skipped, then \<open>LEN\<close> and \<open>NLEN\<close>.\<close>

definition read_header_stored :: "inflate_state \<Rightarrow> int \<times> inflate_state" where
  "read_header_stored state =
    (let state = inflate_in_load state;
         bytes = nat (read_in_length state) div 8
     in if bytes < 4 then (ISAL_END_INPUT, state)
        else
          let read_in0 = drop_bit (nat (read_in_length state) mod 8) (read_in state);
              len = (ucast read_in0 :: u16);
              nlen = (ucast (drop_bit 16 read_in0) :: u16);
              state = state\<lparr>read_in := drop_bit 32 read_in0, read_in_length := int (bytes * 8) - 32\<rparr>
          in if len \<noteq> NOT nlen then (ISAL_INVALID_BLOCK, state)
             else (0, state\<lparr>type0_block_len := ucast len, block_state := ISAL_BLOCK_TYPE0\<rparr>))"

definition read_header :: "inflate_state \<Rightarrow> (int \<times> inflate_state) option" where
  "read_header state =
    (let (bfin, state) = inflate_in_read_bits state 1;
         state = state\<lparr>bfinal := ucast bfin\<rparr>;
         (btype, state) = inflate_in_read_bits state 2
     in if read_in_length state < 0 then Some (ISAL_END_INPUT, state)
        else if btype = 0 then Some (read_header_stored state)
        else if btype = 1 then setup_static_header state
        else if btype = 2 then setup_dynamic_header state
        else Some (ISAL_INVALID_BLOCK, state))"

text \<open>\<open>ISAL_DEF_MAX_HDR_SIZE\<close>, the size of \<open>tmp_in_buffer\<close>.\<close>

definition TMP_IN_SIZE :: nat where "TMP_IN_SIZE = 328"

text \<open>While \<open>block_state\<close> is \<open>ISAL_BLOCK_HDR\<close> the header is read from \<open>tmp_in_buffer\<close>; \<open>in_buf\<close>
  goes back to the caller's memory afterwards.\<close>

definition read_header_stateful :: "inflate_state \<Rightarrow> (int \<times> inflate_state) option" where
  "read_header_stateful start =
    (let in_tmp = (block_state start = ISAL_BLOCK_HDR)
     in do {
       state \<leftarrow> (if in_tmp then do {
           let copy_size = min (TMP_IN_SIZE - tmp_in_size start) (avail_in start);
           bs \<leftarrow> get_bytes (in_buf start) (next_in start) copy_size;
           tmp \<leftarrow> put_bytes (tmp_in_buffer start) (tmp_in_size start) bs;
           Some (start\<lparr>tmp_in_buffer := tmp, in_buf := tmp, next_in := 0, avail_in := tmp_in_size start + copy_size\<rparr>)
         } else Some start);
       (ret, state) \<leftarrow> read_header state;
       let state = (if in_tmp then
           let bytes_read = next_in state - tmp_in_size start
           in state\<lparr>in_buf := in_buf start, next_in := next_in start + bytes_read, avail_in := avail_in start - bytes_read\<rparr>
         else state);
       if ret = ISAL_END_INPUT then do {
         bs \<leftarrow> get_bytes (in_buf start) (next_in start) (avail_in start);
         tmp \<leftarrow> put_bytes (tmp_in_buffer state) (tmp_in_size state) bs;
         Some (ret, state\<lparr>read_in := read_in start, read_in_length := read_in_length start, tmp_in_buffer := tmp,
           tmp_in_size := tmp_in_size state + avail_in start, avail_in := 0, next_in := next_in start + avail_in start,
           block_state := ISAL_BLOCK_HDR\<rparr>)
       } else Some (ret, state\<lparr>tmp_in_size := 0\<rparr>)
     })"

end
