(* ===== verification/Inflate.thy ===== *)
theory Inflate
  imports Inflate_Header Deflate_State
begin

text \<open>
  \<open>isal_inflate_stateless\<close> and \<open>isal_inflate\<close> of \<open>igzip/igzip_inflate.c\<close>: wrapper, blocks, trailer.
  The stateful function decodes into \<open>tmp_out_buffer\<close> first, which holds the history of earlier calls, and then
  directly into the caller's buffer; \<open>out_buf\<close> is the buffer \<open>next_out\<close> points into. The value \<open>None\<close> is an
  access outside of a buffer or a loop that does not end.
\<close>

text \<open>The local header structures, before they are initialised.\<close>

definition any_gzip_header :: isal_gzip_header where
  "any_gzip_header = \<lparr>gz_text = 0, gz_time = 0, gz_xflags = 0, gz_os = 0, gz_extra = None, gz_extra_buf_len = 0, gz_extra_len = 0,
     gz_name = None, gz_name_buf_len = 0, gz_comment = None, gz_comment_buf_len = 0, gz_hcrc = 0, gz_flags = 0\<rparr>"

definition any_zlib_header :: isal_zlib_header where
  "any_zlib_header = \<lparr>z_info = 0, z_level = 0, z_dict_id = 0, z_dict_flag = 0\<rparr>"

text \<open>The register gives back the whole bytes it holds. The division truncates and \<open>read_in_length\<close> may be
  negative when a header ended early; \<open>avail_in\<close> has 32 bits.\<close>

definition undo_read_in :: "inflate_state \<Rightarrow> inflate_state" where
  "undo_read_in state =
    (let n = sgn (read_in_length state) * (\<bar>read_in_length state\<bar> div 8)
     in state\<lparr>next_in := nat (int (next_in state) - n), avail_in := nat ((int (avail_in state) + n) mod 2 ^ 32),
          read_in_length := 0, read_in := 0\<rparr>)"

definition sum_output :: "nat \<Rightarrow> inflate_state \<Rightarrow> inflate_state" where
  "sum_output start_out state =
    (if crc_flag state \<noteq> 0
     then update_checksum state (take (next_out state - start_out) (drop start_out (out_buf state))) else state)"

definition finalize_crc :: "inflate_state \<Rightarrow> inflate_state" where
  "finalize_crc state = state\<lparr>crc := finalize_adler32 (crc state)\<rparr>"

definition check_trailer :: "int \<Rightarrow> inflate_state \<Rightarrow> (int \<times> inflate_state) option" where
  "check_trailer ret state =
    (if crc_flag state \<in> {ISAL_ZLIB, ISAL_ZLIB_NO_HDR_VER} then check_zlib_checksum (finalize_crc state)
     else if crc_flag state = ISAL_ZLIB_NO_HDR then Some (ret, finalize_crc state)
     else if crc_flag state \<in> {ISAL_GZIP, ISAL_GZIP_NO_HDR_VER} then check_gzip_checksum state
     else Some (ret, state))"

definition decode_block :: "nat \<Rightarrow> inflate_state \<Rightarrow> (int \<times> inflate_state) option" where
  "decode_block start_out state =
    (if block_state state = ISAL_BLOCK_TYPE0 then decode_literal_block state
     else decode_huffman_code_block_stateless state start_out)"

section \<open>isal_inflate_stateless\<close>

definition stateless_block :: "nat \<Rightarrow> inflate_state \<Rightarrow> (int \<times> inflate_state) option" where
  "stateless_block start_out state = do {
     (ret, state) \<leftarrow> (if block_state state = ISAL_BLOCK_NEW_HDR then read_header state else Some (0, state));
     if ret \<noteq> 0 then Some (ret, state) else decode_block start_out state
   }"

partial_function (option) stateless_blocks :: "nat \<Rightarrow> inflate_state \<Rightarrow> (int \<times> inflate_state) option" where
  "stateless_blocks start_out state =
    (if block_state state \<noteq> ISAL_BLOCK_FINISH then do {
       (ret, state) \<leftarrow> stateless_block start_out state;
       if ret \<noteq> 0 then Some (ret, state)
       else stateless_blocks start_out
         (if block_state state = ISAL_BLOCK_INPUT_DONE then state\<lparr>block_state := ISAL_BLOCK_FINISH\<rparr> else state)
     } else Some (0, state))"

definition stateless_header :: "inflate_state \<Rightarrow> (int \<times> inflate_state) option" where
  "stateless_header state =
    (if crc_flag state = ISAL_GZIP then do {
       (ret, state, gz_hdr) \<leftarrow> isal_read_gzip_header state (isal_gzip_header_init any_gzip_header);
       Some (ret, state)
     } else if crc_flag state = ISAL_ZLIB then do {
       (ret, state, z_hdr) \<leftarrow> isal_read_zlib_header state (isal_zlib_header_init any_zlib_header);
       Some (if ret \<noteq> 0 then ret else if z_dict_flag z_hdr \<noteq> 0 then ISAL_NEED_DICT else 0, state)
     } else Some (0, state))"

definition isal_inflate_stateless :: "inflate_state \<Rightarrow> (int \<times> inflate_state) option" where
  "isal_inflate_stateless state = do {
     let start_out = next_out state;
     let state = state\<lparr>read_in := 0, read_in_length := 0, block_state := ISAL_BLOCK_NEW_HDR, dict_length := 0, bfinal := 0,
       crc := 0, total_out := 0, hist_bits := 0, tmp_in_size := 0\<rparr>;
     (ret, state) \<leftarrow> stateless_header state;
     if ret \<noteq> 0 then Some (ret, state)
     else do {
       (ret, state) \<leftarrow> stateless_blocks start_out state;
       let state = undo_read_in state;
       if ret = 0 \<and> crc_flag state \<noteq> 0 then check_trailer ret (sum_output start_out state)
       else Some (ret, state)
     }
   }"

section \<open>isal_inflate\<close>

definition TMP_OUT_SIZE :: nat where "TMP_OUT_SIZE = 2 * ISAL_DEF_HIST_SIZE + ISAL_LOOK_AHEAD"

definition stateful_block :: "nat \<Rightarrow> inflate_state \<Rightarrow> (int \<times> inflate_state) option" where
  "stateful_block start_out state = do {
     (ret, state) \<leftarrow> (if block_state state \<in> {ISAL_BLOCK_NEW_HDR, ISAL_BLOCK_HDR} then read_header_stateful state
       else Some (0, state));
     if ret \<noteq> 0 then Some (ret, state) else decode_block start_out state
   }"

text \<open>\<open>ret\<close> is the value that stays when there is no block to decode.\<close>

partial_function (option) stateful_blocks :: "nat \<Rightarrow> int \<Rightarrow> inflate_state \<Rightarrow> (int \<times> inflate_state) option" where
  "stateful_blocks start_out ret state =
    (if block_state state \<noteq> ISAL_BLOCK_INPUT_DONE then do {
       (ret, state) \<leftarrow> stateful_block start_out state;
       if ret \<noteq> 0 then Some (ret, state) else stateful_blocks start_out ret state
     } else Some (ret, state))"

text \<open>The symbols that found no room are written behind \<open>pos\<close>; the buffer has room for them.\<close>

definition write_overflow :: "u8 list \<Rightarrow> nat \<Rightarrow> inflate_state \<Rightarrow> (u8 list \<times> nat \<times> inflate_state) option" where
  "write_overflow buf pos state = do {
     (buf, pos, state) \<leftarrow>
       (if write_overflow_len state \<noteq> 0 then do {
          buf \<leftarrow> put_bytes buf pos (le_bytes 4 (write_overflow_lits state));
          Some (buf, pos + write_overflow_len state, state\<lparr>total_out := total_out state + of_nat (write_overflow_len state),
            write_overflow_lits := 0, write_overflow_len := 0\<rparr>)
        } else Some (buf, pos, state));
     if copy_overflow_length state \<noteq> 0 then do {
       buf \<leftarrow> byte_copy buf pos (copy_overflow_distance state) (copy_overflow_length state);
       Some (buf, pos + copy_overflow_length state, state\<lparr>total_out := total_out state + of_nat (copy_overflow_length state),
         copy_overflow_distance := 0, copy_overflow_length := 0\<rparr>)
     } else Some (buf, pos, state)
   }"

definition inflate_into_tmp :: "inflate_state \<Rightarrow> (int \<times> inflate_state) option" where
  "inflate_into_tmp start =
    (if tmp_out_valid start < 2 * ISAL_DEF_HIST_SIZE then do {
       (ret, state) \<leftarrow> stateful_blocks 0 0 (start\<lparr>out_buf := tmp_out_buffer start, next_out := tmp_out_valid start,
         avail_out := TMP_OUT_SIZE - ISAL_LOOK_AHEAD - tmp_out_valid start\<rparr>);
       (buf, pos, state) \<leftarrow> write_overflow (out_buf state) (next_out state) state;
       Some (ret, state\<lparr>tmp_out_buffer := buf, tmp_out_valid := pos, out_buf := out_buf start, next_out := next_out start,
         avail_out := avail_out start\<rparr>)
     } else Some (0, start))"

definition copy_from_tmp :: "inflate_state \<Rightarrow> inflate_state option" where
  "copy_from_tmp state = do {
     let copy_size = min (tmp_out_valid state - tmp_out_processed state) (avail_out state);
     bs \<leftarrow> get_bytes (tmp_out_buffer state) (tmp_out_processed state) copy_size;
     out \<leftarrow> put_bytes (out_buf state) (next_out state) bs;
     Some (state\<lparr>out_buf := out, tmp_out_processed := tmp_out_processed state + copy_size,
       avail_out := avail_out state - copy_size, next_out := next_out state + copy_size\<rparr>)
   }"

text \<open>\<open>total_out\<close> does not count the data that stays in \<open>tmp_out_buffer\<close>.\<close>

definition total_add :: "inflate_state \<Rightarrow> inflate_state" where
  "total_add state = state\<lparr>total_out := total_out state + of_nat (tmp_out_valid state - tmp_out_processed state)\<rparr>"

definition total_sub :: "inflate_state \<Rightarrow> inflate_state" where
  "total_sub state = state\<lparr>total_out := total_out state - of_nat (tmp_out_valid state - tmp_out_processed state)\<rparr>"

definition inflate_error :: "int \<Rightarrow> bool" where
  "inflate_error ret \<longleftrightarrow> ret \<in> {ISAL_INVALID_LOOKBACK, ISAL_INVALID_BLOCK, ISAL_INVALID_SYMBOL}"

text \<open>\<open>written\<close> is the number of bytes that went to the caller's buffer.\<close>

definition save_history :: "nat \<Rightarrow> inflate_state \<Rightarrow> inflate_state option" where
  "save_history written state =
    (if block_state state \<noteq> ISAL_BLOCK_INPUT_DONE
        \<or> copy_overflow_length state + write_overflow_len state + tmp_out_valid state > TMP_OUT_SIZE then
       if tmp_out_valid state = tmp_out_processed state \<and> written \<ge> ISAL_DEF_HIST_SIZE then do {
         bs \<leftarrow> get_bytes (out_buf state) (next_out state - ISAL_DEF_HIST_SIZE) ISAL_DEF_HIST_SIZE;
         tmp \<leftarrow> put_bytes (tmp_out_buffer state) 0 bs;
         Some (state\<lparr>tmp_out_buffer := tmp, tmp_out_valid := ISAL_DEF_HIST_SIZE, tmp_out_processed := ISAL_DEF_HIST_SIZE\<rparr>)
       } else if tmp_out_processed state \<ge> ISAL_DEF_HIST_SIZE then do {
         let shift_size = min (tmp_out_valid state - ISAL_DEF_HIST_SIZE) (tmp_out_processed state);
         tmp \<leftarrow> copy_within (tmp_out_buffer state) 0 shift_size (tmp_out_valid state - shift_size);
         Some (state\<lparr>tmp_out_buffer := tmp, tmp_out_valid := tmp_out_valid state - shift_size,
           tmp_out_processed := tmp_out_processed state - shift_size\<rparr>)
       } else Some state
     else Some state)"

definition inflate_done :: "int \<Rightarrow> inflate_state \<Rightarrow> (int \<times> inflate_state) option" where
  "inflate_done ret state =
    (if inflate_error ret then Some (ret, total_sub state)
     else if block_state state = ISAL_BLOCK_INPUT_DONE \<and> tmp_out_valid state = tmp_out_processed state then do {
       (ret, state) \<leftarrow> check_trailer ret (state\<lparr>block_state := ISAL_BLOCK_FINISH\<rparr>);
       Some (ret, total_sub (undo_read_in state))
     } else Some (ret, total_sub state))"

definition inflate_body :: "inflate_state \<Rightarrow> (int \<times> inflate_state) option" where
  "inflate_body state = do {
     let start_out = next_out state;
     let avail = avail_out state;
     (ret, state) \<leftarrow> inflate_into_tmp (total_add state);
     state \<leftarrow> copy_from_tmp state;
     if inflate_error ret then Some (ret, sum_output start_out (total_sub state))
     else do {
       (ret, state) \<leftarrow> (if tmp_out_processed state = tmp_out_valid state then stateful_blocks start_out ret state
         else Some (ret, state));
       state \<leftarrow> save_history (avail - avail_out state) (sum_output start_out state);
       (tmp, valid, state) \<leftarrow> write_overflow (tmp_out_buffer state) (tmp_out_valid state) state;
       inflate_done ret (state\<lparr>tmp_out_buffer := tmp, tmp_out_valid := valid\<rparr>)
     }
   }"

text \<open>The wrapper: \<open>Inl\<close> is a return from \<open>isal_inflate\<close>.\<close>

definition inflate_wrapper :: "inflate_state \<Rightarrow> ((int + unit) \<times> inflate_state) option" where
  "inflate_wrapper state =
    (if \<not> wrapper_flag state \<and> crc_flag state = ISAL_GZIP then do {
       (ret, state, gz_hdr) \<leftarrow> isal_read_gzip_header state (isal_gzip_header_init any_gzip_header);
       Some (if ret < 0 then Inl ret else if ret > 0 then Inl ISAL_DECOMP_OK else Inr (), state)
     } else if \<not> wrapper_flag state \<and> crc_flag state = ISAL_ZLIB then do {
       (ret, state, z_hdr) \<leftarrow> isal_read_zlib_header state (isal_zlib_header_init any_zlib_header);
       if ret < 0 then Some (Inl ret, state)
       else if ret > 0 then Some (Inl ISAL_DECOMP_OK, state)
       else if z_dict_flag z_hdr \<noteq> 0 then Some (Inl ISAL_NEED_DICT, state\<lparr>type0_block_len := z_dict_id z_hdr\<rparr>)
       else Some (Inr (), state)
     } else if block_state state = ISAL_CHECKSUM_CHECK then do {
       (ret, state) \<leftarrow> (if crc_flag state \<in> {ISAL_ZLIB, ISAL_ZLIB_NO_HDR_VER} then check_zlib_checksum state
         else if crc_flag state \<in> {ISAL_GZIP, ISAL_GZIP_NO_HDR_VER} then check_gzip_checksum state else Some (0, state));
       Some (Inl (if ret > 0 then ISAL_DECOMP_OK else ret), state)
     } else Some (Inr (), state))"

definition isal_inflate :: "inflate_state \<Rightarrow> (int \<times> inflate_state) option" where
  "isal_inflate state = do {
     (r, state) \<leftarrow> inflate_wrapper state;
     case r of
       Inl ret \<Rightarrow> Some (ret, state)
     | Inr _ \<Rightarrow>
         if block_state state \<noteq> ISAL_BLOCK_FINISH then do {
           (ret, state) \<leftarrow> inflate_body state;
           Some (if inflate_error ret then ret else if ret > 0 then ISAL_DECOMP_OK else ret, state)
         } else Some (ISAL_DECOMP_OK, state)
   }"

end
