(* ===== verification/Stored_Roundtrip.thy ===== *)
theory Stored_Roundtrip
  imports Stored_Blocks Inflate
begin

text \<open>
  Stored blocks round trip: what \<open>write_stored_block\<close> writes is read back by
  \<open>isal_inflate_stateless\<close>.
\<close>

section \<open>The header of a stored block\<close>

lemma byte_bits_le_bytes_16: "byte_bits (le_bytes 2 (w :: u16)) = map (bit w) [0..<16]"
proof (rule nth_equalityI)
  fix i assume "i < length (byte_bits (le_bytes 2 w))"
  then have i: "i < 16" by simp
  then have "i div 8 < 2" by linarith
  then show "byte_bits (le_bytes 2 w) ! i = map (bit w) [0..<16] ! i"
    using i by (simp add: nth_byte_bits bit_simps)
qed simp

lemma byte_bits_inject: "byte_bits xs = byte_bits ys \<Longrightarrow> xs = ys"
proof (induction xs arbitrary: ys)
  case Nil
  then have "length (byte_bits ys) = 0" by simp
  then show ?case by simp
next
  case (Cons x xs)
  have "length (byte_bits ys) = 8 * Suc (length xs)" using Cons.prems by (metis length_byte_bits length_Cons)
  then obtain y zs where ys: "ys = y # zs" by (cases ys) auto
  have "length (map (bit x) [0..<8]) = length (map (bit y) [0..<8])" by simp
  then have e: "map (bit x) [0..<8] = map (bit y) [0..<8]" "byte_bits xs = byte_bits zs"
    using Cons.prems append_eq_append_conv unfolding ys byte_bits_Cons by blast+
  have "bit x i = bit y i" if "i < 8" for i using e(1) that unfolding map_eq_conv by simp
  then have "x = y" by (intro bit_word_eqI) simp
  then show ?case using Cons.IH [OF e(2)] ys by simp
qed

lemma stored_hdr_bits:
  "byte_bits (stored_hdr fin n @ rest) = [fin, False, False] @ replicate 5 False @ map (bit (of_nat n :: u16)) [0..<16]
    @ map (bit (NOT (of_nat n :: u16))) [0..<16] @ byte_bits rest"
proof -
  have "map (bit (of_bool fin :: u8)) [0..<8] = [fin, False, False] @ replicate 5 False"
    by (cases fin) (simp_all add: upt_conv_Cons eval_nat_numeral)
  then show ?thesis by (simp add: stored_hdr_def byte_bits_le_bytes_16)
qed

text \<open>The reader skips to the end of the byte and finds both lengths.\<close>

lemma read_header_stored_bits:
  assumes "in_wf s" "in_bits s = replicate 5 False @ map (bit (len :: u16)) [0..<16] @ map (bit (NOT len)) [0..<16] @ byte_bits rest"
  shows "\<exists>t. read_header_stored s = (0, t) \<and> in_wf t \<and> in_bits t = byte_bits rest \<and> 8 dvd read_in_length t
    \<and> (read_in_length t = 0 \<longrightarrow> read_in t = 0)
    \<and> in_rest t = in_rest (s\<lparr>type0_block_len := ucast len, block_state := ISAL_BLOCK_TYPE0\<rparr>)"
proof -
  define l where "l = inflate_in_load s"
  note load = inflate_in_load [OF assms(1), folded l_def]
  have wf: "in_wf l" using load(1) by (simp add: in_loaded_def)
  have bits: "in_bits l = replicate 5 False @ map (bit len) [0..<16] @ map (bit (NOT len)) [0..<16] @ byte_bits rest"
    using load(2) assms(2) by simp
  then have lb: "length (in_bits l) = 37 + 8 * length rest" by simp
  have r37: "37 \<le> read_in_length l" using in_loaded_length [OF load(1), of 37] lb by simp
  have lb2: "nat (read_in_length l) + 8 * length (avail_bytes l) = 37 + 8 * length rest" using lb by (simp add: length_in_bits)
  define b where "b = nat (read_in_length l) div 8"
  have m: "nat (read_in_length l) mod 8 = 5"
  proof -
    have "nat (read_in_length l) mod 8 = (nat (read_in_length l) + 8 * length (avail_bytes l)) mod 8" by simp
    then show ?thesis unfolding lb2 by simp
  qed
  have b: "nat (read_in_length l) = 8 * b + 5" using m div_mult_mod_eq [of "nat (read_in_length l)" 8] by (simp add: b_def)
  have b4: "4 \<le> b" using b r37 by linarith
  have bit: "bit (read_in l) i = in_bits l ! i" if "i < 37" for i
    using in_loaded_bit [OF load(1), of i] that lb by (simp add: pad_bit_def)
  have "(ucast (drop_bit 5 (read_in l)) :: u16) = len"
    by (rule bit_word_eqI) (auto simp: bit_ucast_iff bit_drop_bit_eq bit bits nth_append)
  moreover have "(ucast (drop_bit 16 (drop_bit 5 (read_in l))) :: u16) = NOT len"
    by (rule bit_word_eqI) (auto simp: bit_ucast_iff bit_drop_bit_eq bit bits nth_append)
  moreover define t where "t = (in_skip 37 l)\<lparr>type0_block_len := ucast len, block_state := ISAL_BLOCK_TYPE0\<rparr>"
  have "l\<lparr>read_in := drop_bit 32 (drop_bit 5 (read_in l)), read_in_length := int (b * 8) - 32,
      type0_block_len := ucast len, block_state := ISAL_BLOCK_TYPE0\<rparr> = t"
    using b by (simp add: t_def in_skip_def)
  ultimately have "read_header_stored s = (0, t)"
    using b b4 unfolding read_header_stored_def l_def [symmetric] Let_def b_def [symmetric] m by simp
  moreover have sk: "in_wf (in_skip 37 l)" "in_bits (in_skip 37 l) = byte_bits rest"
    using in_skip [OF wf, of 37] r37 bits by simp_all
  then have tw: "in_wf t" "in_bits t = byte_bits rest"
    by (simp_all add: t_def in_wf_def in_bits_def avail_bytes_def)
  moreover have "8 dvd read_in_length t"
  proof -
    have "read_in_length t = 8 * (int b - 4)" using b by (simp add: t_def)
    then show ?thesis by simp
  qed
  moreover have "read_in t = 0" if "read_in_length t = 0"
  proof (rule bit_word_eqI)
    fix i
    have "read_in_length l = 37" using that by (simp add: t_def)
    then have "avail_in l = 0" using load(1) by (simp add: in_loaded_def)
    then have "in_bits t = []" using that by (simp add: t_def in_bits_def avail_bytes_def)
    then show "bit (read_in t) i = bit 0 i" using in_wf_register [OF tw(1), of i] by (auto simp: pad_bit_def)
  qed
  moreover have "in_rest t = in_rest (s\<lparr>type0_block_len := ucast len, block_state := ISAL_BLOCK_TYPE0\<rparr>)"
  proof -
    have c: "in_rest (u\<lparr>type0_block_len := x, block_state := y\<rparr>) = (in_rest u)\<lparr>type0_block_len := x, block_state := y\<rparr>" for u x y
      by (simp add: in_rest_def)
    show ?thesis unfolding t_def c using load(3) by simp
  qed
  ultimately show ?thesis by blast
qed

lemma read_header_stored_block:
  assumes "in_wf s" "in_bits s = byte_bits (stored_hdr fin n @ rest)"
  shows "\<exists>t. read_header s = Some (0, t) \<and> in_wf t \<and> in_bits t = byte_bits rest \<and> 8 dvd read_in_length t
    \<and> (read_in_length t = 0 \<longrightarrow> read_in t = 0)
    \<and> in_rest t = in_rest (s\<lparr>bfinal := of_bool fin, type0_block_len := ucast (of_nat n :: u16), block_state := ISAL_BLOCK_TYPE0\<rparr>)"
proof -
  obtain v1 t1 where r1: "inflate_in_read_bits s 1 = (v1, t1)" by fastforce
  note a = inflate_in_read_bits_spec [OF assms(1) _ r1]
  have bits: "in_bits s = [fin, False, False] @ replicate 5 False @ map (bit (of_nat n :: u16)) [0..<16]
    @ map (bit (NOT (of_nat n :: u16))) [0..<16] @ byte_bits rest"
    unfolding assms(2) by (rule stored_hdr_bits)
  have t1: "in_rest t1 = in_rest s" "in_wf t1" "unat v1 = of_bool fin"
    "in_bits t1 = [False, False] @ replicate 5 False @ map (bit (of_nat n :: u16)) [0..<16]
      @ map (bit (NOT (of_nat n :: u16))) [0..<16] @ byte_bits rest"
    using a by (simp_all add: bits bits_val_def)
  have "v1 = of_bool fin" using t1(3) by (cases fin) (simp_all add: word_unat_eq_iff)
  then have v1: "(ucast v1 :: u32) = of_bool fin" by (cases fin) simp_all
  define u where "u = t1\<lparr>bfinal := ucast v1\<rparr>"
  have u: "in_wf u" "in_bits u = in_bits t1" using t1(2) by (simp_all add: u_def in_wf_def in_bits_def avail_bytes_def)
  obtain v2 t2 where r2: "inflate_in_read_bits u 2 = (v2, t2)" by fastforce
  note b = inflate_in_read_bits_spec [OF u(1) _ r2]
  have t2: "in_rest t2 = in_rest u" "in_wf t2" "unat v2 = 0" "0 \<le> read_in_length t2"
    "in_bits t2 = replicate 5 False @ map (bit (of_nat n :: u16)) [0..<16]
      @ map (bit (NOT (of_nat n :: u16))) [0..<16] @ byte_bits rest"
    using b by (simp_all add: u(2) t1(4) bits_val_def)
  have v2: "v2 = 0" using t2(3) by (simp add: unat_eq_0)
  from read_header_stored_bits [OF t2(2,5)] obtain t where t: "read_header_stored t2 = (0, t)" "in_wf t"
    "in_bits t = byte_bits rest" "8 dvd read_in_length t" "read_in_length t = 0 \<longrightarrow> read_in t = 0"
    "in_rest t = in_rest (t2\<lparr>type0_block_len := ucast (of_nat n :: u16), block_state := ISAL_BLOCK_TYPE0\<rparr>)" by blast
  have "read_header s = Some (0, t)"
    unfolding read_header_def r1 Let_def prod.case u_def [symmetric] r2 using t2(4) v2 t(1) by simp
  moreover have "in_rest t = in_rest (s\<lparr>bfinal := of_bool fin, type0_block_len := ucast (of_nat n :: u16), block_state := ISAL_BLOCK_TYPE0\<rparr>)"
  proof -
    have c: "in_rest (u\<lparr>type0_block_len := x, block_state := y\<rparr>) = (in_rest u)\<lparr>type0_block_len := x, block_state := y\<rparr>"
      "in_rest (u\<lparr>bfinal := z\<rparr>) = (in_rest u)\<lparr>bfinal := z\<rparr>" for u x y z
      by (simp_all add: in_rest_def)
    show ?thesis unfolding t(6) c t2(1) u_def t1(1) v1 by (simp add: in_rest_def)
  qed
  ultimately show ?thesis using t by blast
qed


section \<open>The blocks\<close>

lemma literal_out_flag: "literal_out bs s = Some t \<Longrightarrow> crc_flag t = crc_flag s \<and> crc t = crc s"
  by (auto simp: literal_out_def put_bytes_def bind_eq_Some_conv)

lemma decode_literal_block_flag:
  assumes "decode_literal_block s = Some (ret, t)"
  shows "crc_flag t = crc_flag s \<and> crc t = crc s"
proof -
  obtain len u where u: "literal_len (nat (read_in_length s) div 8) s = (len, u)" by fastforce
  have fu: "crc_flag u = crc_flag s \<and> crc u = crc s" using u by (auto simp: literal_len_def Let_def split: if_splits)
  obtain len' bytes v w where v: "literal_register len (nat (read_in_length s) div 8) u = Some (len', bytes, v)"
    "literal_input len' v = Some w" "t = w"
    using assms u by (auto simp: decode_literal_block_def Let_def bind_eq_Some_conv split: if_splits)
  have "crc_flag v = crc_flag u \<and> crc v = crc u"
    using v(1) by (auto simp: literal_register_def bind_eq_Some_conv dest: literal_out_flag split: if_splits)
  moreover have "crc_flag w = crc_flag v \<and> crc w = crc v"
    using v(2) by (auto simp: literal_input_def bind_eq_Some_conv dest!: literal_out_flag)
  ultimately show ?thesis using v(3) fu by simp
qed

lemma in_rest_flag:
  assumes "in_rest s' = in_rest s"
  shows "crc_flag s' = crc_flag s" "crc s' = crc s"
  using arg_cong [OF assms, of crc_flag] arg_cong [OF assms, of crc] by (simp_all add: in_rest_def)

text \<open>One stored block of a stream.\<close>

definition stored_read :: "inflate_state \<Rightarrow> inflate_state \<Rightarrow> u8 list \<Rightarrow> u8 list \<Rightarrow> bool" where
  "stored_read s t bs rest \<longleftrightarrow> in_wf t \<and> out_wf t \<and> in_bits t = byte_bits rest
    \<and> out_buf t = blit (out_buf s) (next_out s) bs \<and> next_out t = next_out s + length bs
    \<and> avail_out t = avail_out s - length bs \<and> total_out t = total_out s + of_nat (length bs) \<and> crc_flag t = crc_flag s \<and> crc t = crc s"

lemma stored_read_state: "stored_read s (t\<lparr>block_state := b\<rparr>) bs rest = stored_read s t bs rest"
  by (simp add: stored_read_def in_fields_ignore out_wf_def)

lemma stored_read_trans:
  assumes "stored_read s t bs r" "stored_read t u cs r'" "next_out s + length bs \<le> length (out_buf s)"
  shows "stored_read s u (bs @ cs) r'"
  using assms by (simp add: stored_read_def blit_def ac_simps)

lemma stateless_stored_block:
  assumes "in_wf s" "out_wf s" "in_bits s = byte_bits (stored_hdr fin (length data) @ data @ rest)" "block_state s = ISAL_BLOCK_NEW_HDR"
    and "length data \<le> 65535" "length data \<le> avail_out s" "fin \<or> rest \<noteq> []"
    "length (data @ rest) < 2 ^ 32"
  shows "\<exists>t. stateless_block start_out s = Some (0, t) \<and> stored_read s t data rest
    \<and> block_state t = (if fin then ISAL_BLOCK_INPUT_DONE else ISAL_BLOCK_NEW_HDR)"
proof -
  from read_header_stored_block [OF assms(1,3)] obtain u where u: "read_header s = Some (0, u)" "in_wf u"
    "in_bits u = byte_bits (data @ rest)" "8 dvd read_in_length u" "read_in_length u = 0 \<longrightarrow> read_in u = 0"
    "in_rest u = in_rest (s\<lparr>bfinal := of_bool fin, type0_block_len := ucast (of_nat (length data) :: u16), block_state := ISAL_BLOCK_TYPE0\<rparr>)"
    by blast
  note f = in_rest_fields [OF u(6)] in_rest_flag [OF u(6)]
  have len: "unat (type0_block_len u) = length data"
  proof -
    have "unat (of_nat (length data) :: u16) = length data" using assms(5) by (intro unat_of_nat_lt) simp
    moreover have "take_bit 32 (length data) = length data" using assms(5) by (intro take_bit_nat_eq_self) simp
    ultimately show ?thesis by (simp add: f unsigned_ucast_eq)
  qed
  have ow: "out_wf u" using assms(2) by (simp add: out_wf_def f)
  have n: "min (length data) (min (avail_out u) (length (in_bits u) div 8)) = length data"
    using assms(6) by (simp add: u(3) f)
  have small: "length (in_bits u) div 8 < 2 ^ 32" using assms(8) by (simp add: u(3))
  from decode_literal_block_spec [OF u(2) ow u(4,5) _ small, unfolded len n] assms(5) obtain ret t bs where
    d: "decode_literal_block u = Some (ret, t)" "length bs = length data" "byte_bits bs = take (8 * length data) (in_bits u)"
      "in_wf t" "in_bits t = drop (8 * length data) (in_bits u)" "out_buf t = blit (out_buf u) (next_out u) bs"
      "next_out t = next_out u + length data" "avail_out t = avail_out u - length data"
      "total_out t = total_out u + of_nat (length data)"
      "block_state t = (if bfinal u \<noteq> 0 then ISAL_BLOCK_INPUT_DONE else ISAL_BLOCK_NEW_HDR)"
      "ret = (if length (in_bits t) < 8 \<and> block_state t \<noteq> ISAL_BLOCK_INPUT_DONE then ISAL_END_INPUT else 0)"
    by (auto simp: less_Suc_eq_le)
  have "byte_bits bs = byte_bits data" using d(3) by (simp add: u(3))
  then have bs: "bs = data" by (rule byte_bits_inject)
  have rest: "in_bits t = byte_bits rest" using d(5) by (simp add: u(3))
  have fin: "bfinal u \<noteq> 0 \<longleftrightarrow> fin" by (simp add: f)
  have "ret = 0" using d(10,11) rest assms(7) fin by (cases rest) auto
  moreover have "out_wf t" using ow d(2,6-8) assms(6) bs by (simp add: out_wf_def f)
  moreover have "crc_flag t = crc_flag s \<and> crc t = crc s" using decode_literal_block_flag [OF d(1)] f by simp
  ultimately have "stored_read s t data rest" using d rest bs by (simp add: stored_read_def f)
  moreover have "stateless_block start_out s = Some (0, t)"
    using assms(4) u(1) d(1) \<open>ret = 0\<close> by (simp add: stateless_block_def decode_block_def f)
  ultimately show ?thesis using d(10) fin by auto
qed

lemma stateless_blocks_stored:
  assumes "in_wf s" "out_wf s" "in_bits s = byte_bits (stored_blocks True data @ rest)" "block_state s = ISAL_BLOCK_NEW_HDR"
    and "length data \<le> avail_out s" "length (stored_blocks True data @ rest) < 2 ^ 32"
  shows "\<exists>t. stateless_blocks start_out s = Some (0, t) \<and> stored_read s t data rest"
  using assms
proof (induction "length data" arbitrary: data s rule: less_induct)
  case less
  show ?case
  proof (cases "65535 < length data")
    case False
    then have b: "in_bits s = byte_bits (stored_hdr True (length data) @ data @ rest)"
      using less.prems(3) by (simp add: stored_blocks.simps [of True data])
    have "length (data @ rest) < 2 ^ 32" using less.prems(6) False by (simp add: stored_blocks.simps [of True data])
    with stateless_stored_block [OF less.prems(1,2) b less.prems(4) _ less.prems(5)] False obtain t where
      t: "stateless_block start_out s = Some (0, t)" "stored_read s t data rest" "block_state t = ISAL_BLOCK_INPUT_DONE" by auto
    have "stateless_blocks start_out s = Some (0, t\<lparr>block_state := ISAL_BLOCK_FINISH\<rparr>)"
      using less.prems(4) t by (subst stateless_blocks.simps) (simp, subst stateless_blocks.simps, simp)
    moreover have "stored_read s (t\<lparr>block_state := ISAL_BLOCK_FINISH\<rparr>) data rest"
      using t(2) by (simp only: stored_read_state)
    ultimately show ?thesis by blast
  next
    case True
    let ?a = "take 65535 data" and ?b = "drop 65535 data"
    let ?r = "stored_blocks True ?b @ rest"
    have la: "length ?a = 65535" using True by simp
    have b: "in_bits s = byte_bits (stored_hdr False (length ?a) @ ?a @ ?r)"
      unfolding la using less.prems(3) True by (simp add: stored_blocks.simps [of True data])
    have small: "length (?a @ ?r) < 2 ^ 32" "length ?r < 2 ^ 32"
      using less.prems(6) True by (simp_all add: stored_blocks.simps [of True data])
    have "?r \<noteq> []" using stored_blocks_length [of True ?b] by auto
    then obtain t where t: "stateless_block start_out s = Some (0, t)" "stored_read s t ?a ?r" "block_state t = ISAL_BLOCK_NEW_HDR"
      using stateless_stored_block [OF less.prems(1,2) b less.prems(4) _ _ _ small(1)] la True less.prems(5) by auto
    have "length ?b < length data" "length ?b \<le> avail_out t" using True t(2) less.prems(5) la by (simp_all add: stored_read_def)
    then obtain u where u: "stateless_blocks start_out t = Some (0, u)" "stored_read t u ?b rest"
      using less.hyps [of ?b t] t small(2) by (auto simp: stored_read_def)
    have "next_out s + length ?a \<le> length (out_buf s)" using less.prems(2,5) la True by (simp add: out_wf_def)
    then have "stored_read s u (?a @ ?b) rest" by (rule stored_read_trans [OF t(2) u(2)])
    moreover have "stateless_blocks start_out s = Some (0, u)"
      using less.prems(4) t(1,3) u(1) by (subst stateless_blocks.simps) simp
    ultimately show ?thesis by simp
  qed
qed

section \<open>The whole stream\<close>

definition take_out :: "inflate_state \<Rightarrow> nat \<Rightarrow> u8 list" where
  "take_out r start = take (next_out r - start) (drop start (out_buf r))"

lemma stored_read_out:
  assumes "stored_read s t bs rest" "next_out s + length bs \<le> length (out_buf s)"
  shows "take_out t (next_out s) = bs"
  using assms by (simp add: stored_read_def take_out_def drop_blit)

lemma inflate_stored_blocks:
  assumes "crc_flag r \<in> {0, ISAL_GZIP_NO_HDR}" "length data \<le> avail_out r" "next_out r + avail_out r \<le> length (out_buf r)"
    and z: "in_buf r = stored_blocks True data @ rest" "next_in r = 0" "avail_in r = length (in_buf r)" "length (in_buf r) < 2 ^ 32"
  shows "\<exists>r'. isal_inflate_stateless r = Some (0, r') \<and> take_out r' (next_out r) = data
    \<and> next_out r' = next_out r + length data \<and> total_out r' = of_nat (length data) \<and> avail_in r' = length rest
    \<and> crc r' = (if crc_flag r = 0 then 0 else crc32_gzip_refl 0 data)"
proof -
  define s where "s = r\<lparr>read_in := 0, read_in_length := 0, block_state := ISAL_BLOCK_NEW_HDR, dict_length := 0, bfinal := 0,
    crc := 0, total_out := 0, hist_bits := 0, tmp_in_size := 0\<rparr>"
  have s: "in_wf s" "out_wf s" "in_bits s = byte_bits (stored_blocks True data @ rest)" "block_state s = ISAL_BLOCK_NEW_HDR"
    "length data \<le> avail_out s" "crc_flag s = crc_flag r" "next_out s = next_out r" "out_buf s = out_buf r" "total_out s = 0"
    using assms by (simp_all add: s_def in_wf_def out_wf_def in_bits_def avail_bytes_def)
  have "length (stored_blocks True data @ rest) < 2 ^ 32" using z by simp
  from stateless_blocks_stored [OF s(1-5) this] obtain t where t: "stateless_blocks (next_out r) s = Some (0, t)" "stored_read s t data rest"
    by blast
  note tr = t(2) [unfolded stored_read_def]
  have h: "stateless_header s = Some (0, s)"
    using assms(1) s(6) by (auto simp: stateless_header_def ISAL_GZIP_NO_HDR_def ISAL_GZIP_def ISAL_ZLIB_def)
  have "next_out s + length data \<le> length (out_buf s)" using assms(2,3) s by simp
  from stored_read_out [OF t(2) this] have o: "take_out t (next_out r) = data" by (simp add: s)
  define u where "u = undo_read_in t"
  have u: "out_buf u = out_buf t" "next_out u = next_out t" "total_out u = total_out t" "crc_flag u = crc_flag r" "crc u = crc t"
    using tr s by (simp_all add: u_def undo_read_in_def Let_def)
  have ou: "take (next_out t - next_out r) (drop (next_out r) (out_buf t)) = data" using o by (simp add: take_out_def)
  have av: "avail_in u = length rest"
  proof -
    have "in_wf t" using tr by simp
    then have rl: "0 \<le> read_in_length t" by (simp add: in_wf_def)
    have "nat (read_in_length t) + 8 * avail_in t = 8 * length rest"
      using tr length_in_bits [of t] length_avail_bytes [of t] by simp
    then have n: "int (avail_in t) + read_in_length t div 8 = int (length rest)" "length rest < 2 ^ 32" using rl z(4)
      by (simp_all add: z(1))
    have "sgn (read_in_length t) * (\<bar>read_in_length t\<bar> div 8) = read_in_length t div 8" using rl by (simp add: sgn_if)
    then show ?thesis using n by (simp add: u_def undo_read_in_def Let_def)
  qed
  have run: "isal_inflate_stateless r = (if crc_flag u \<noteq> 0 then check_trailer 0 (sum_output (next_out r) u) else Some (0, u))"
    unfolding isal_inflate_stateless_def Let_def s_def [symmetric] using h t(1) by (simp add: u_def [symmetric])
  define v where "v = (if crc_flag r = 0 then u else u\<lparr>crc := crc32_gzip_refl 0 data\<rparr>)"
  have "crc u = 0" using tr by (simp add: u s_def)
  then have "sum_output (next_out r) u = v" if "crc_flag r = ISAL_GZIP_NO_HDR"
    using that ou by (simp add: sum_output_def update_checksum_def v_def u ISAL_GZIP_NO_HDR_def)
  moreover have "check_trailer 0 v = Some (0, v)" if "crc_flag r = ISAL_GZIP_NO_HDR"
    using that by (simp add: check_trailer_def v_def u ISAL_GZIP_NO_HDR_def ISAL_GZIP_def ISAL_ZLIB_def
      ISAL_ZLIB_NO_HDR_def ISAL_ZLIB_NO_HDR_VER_def ISAL_GZIP_NO_HDR_VER_def)
  ultimately have "isal_inflate_stateless r = Some (0, v)"
    using assms(1) unfolding run u(4) by (auto simp: v_def)
  moreover have "take_out v (next_out r) = data" using o by (simp add: v_def take_out_def u)
  moreover have "crc v = (if crc_flag r = 0 then 0 else crc32_gzip_refl 0 data)"
    using \<open>crc u = 0\<close> by (simp add: v_def)
  ultimately show ?thesis using tr av s by (auto simp: v_def u)
qed

text \<open>
  C10: Stored blocks survive the round trip. The bytes \<open>write_stored_block\<close> leaves in the
  buffers of a caller, one call per buffer, are a stream from which \<open>isal_inflate_stateless\<close> restores the
  chunk: it returns 0, writes exactly the data behind \<open>next_out\<close>, counts them in \<open>total_out\<close>, leaves no input and, when
  asked for it, the CRC-32 of the data.
\<close>

theorem stored_roundtrip:
  assumes "stored_inv s" "zs_state s = ZSTATE_TYPE0_HDR" "m_bit_count (zs_bitbuf s) = 0" "stored_fin s" "length (stored_pending s) < length bufs"
    and "\<forall>buf \<in> set bufs. 5 \<le> length buf \<and> length buf < 2 ^ 32" "length (stored_pending s) < 2 ^ 32"
    and "crc_flag r \<in> {0, ISAL_GZIP_NO_HDR}" "length (stored_data s) \<le> avail_out r" "next_out r + avail_out r \<le> length (out_buf r)"
  shows "\<exists>z s' r'. stored_calls bufs s = Some (z, s') \<and> zs_state s' = ZSTATE_TRL
    \<and> isal_inflate_stateless (r\<lparr>in_buf := z, next_in := 0, avail_in := length z\<rparr>) = Some (0, r')
    \<and> take_out r' (next_out r) = stored_data s \<and> next_out r' = next_out r + length (stored_data s)
    \<and> total_out r' = of_nat (length (stored_data s)) \<and> avail_in r' = 0
    \<and> crc r' = (if crc_flag r = 0 then 0 else crc32_gzip_refl 0 (stored_data s))"
proof -
  let ?z = "stored_pending s"
  let ?r = "r\<lparr>in_buf := ?z, next_in := 0, avail_in := length ?z\<rparr>"
  have "in_buf ?r = stored_blocks True (stored_data s) @ []" using assms(2-4) by (simp add: stored_pending_aligned)
  with inflate_stored_blocks [of ?r "stored_data s" "[]"] assms(7-10) obtain r' where
    "isal_inflate_stateless ?r = Some (0, r')" "take_out r' (next_out r) = stored_data s"
    "next_out r' = next_out r + length (stored_data s)" "total_out r' = of_nat (length (stored_data s))" "avail_in r' = 0"
    "crc r' = (if crc_flag r = 0 then 0 else crc32_gzip_refl 0 (stored_data s))" by auto
  moreover obtain s' where "stored_calls bufs s = Some (?z, s')" "zs_state s' = ZSTATE_TRL"
    using stored_calls_spec [OF assms(1,5)] assms(3,4,6) by (auto simp: stored_need_def)
  ultimately show ?thesis by blast
qed

theorem stored_roundtrip_witness:
  "\<forall>r. \<exists>z s' r'. stored_calls (replicate 9 (replicate 5 0)) stored_sample = Some (z, s')
    \<and> isal_inflate_stateless (r\<lparr>out_buf := replicate 3 0, next_out := 0, avail_out := 3, crc_flag := 0,
        in_buf := z, next_in := 0, avail_in := length z\<rparr>) = Some (0, r')
    \<and> take_out r' 0 = [97, 98, 99]"
proof
  fix r :: inflate_state
  let ?r = "r\<lparr>out_buf := replicate 3 0, next_out := 0, avail_out := 3, crc_flag := 0\<rparr>"
  note s = stored_sample_facts
  show "\<exists>z s' r'. stored_calls (replicate 9 (replicate 5 0)) stored_sample = Some (z, s')
    \<and> isal_inflate_stateless (r\<lparr>out_buf := replicate 3 0, next_out := 0, avail_out := 3, crc_flag := 0,
        in_buf := z, next_in := 0, avail_in := length z\<rparr>) = Some (0, r')
    \<and> take_out r' 0 = [97, 98, 99]"
    using stored_roundtrip [of stored_sample "replicate 9 (replicate 5 0)" ?r] s stored_sample_bits by auto
qed

end
