(* ===== verification/Spec2Isabelle.thy ===== *)
theory Spec2Isabelle
  imports CRC_Correct Mem_Zero Adler32 EC_Correct EC_Highlevel EC_GFNI RAID Inflate_Symbols Bit_Writer Inflate_Block Gzip_Header Wrapper_Trailer Header_Roundtrip Deflate_Stored Deflate_Level0 Stored_Roundtrip
begin

text \<open>
  ISA-L (Intel Intelligent Storage Acceleration Library) in Isabelle/HOL.

  The library is a set of storage kernels: erasure codes (erasure_code/), RAID parity (raid/),
  checksums (crc/, igzip/adler32*), zero detection (mem/) and DEFLATE compression (igzip/).
  Each kernel has a portable C version ("base") and architecture specific ones; the public name
  is an alias of one of them. The development models the C versions and the C code that
  dispatches to the vector kernels.

  Theories, in the order of their imports:

  \<^item> ISAL_Prelude: bytes and word types, list and word lemmas, evaluation hints.
  \<^item> CRC_Register, CRC_Orders: the abstract shift register of a CRC (linear, both bit orders,
    byte steps, burst lemmas). CRC_Tables: the thirteen tables of crc/crc_base.c and
    crc/crc64_base.c. CRC_Ref: the bit-by-bit functions of crc/crc_ref.h and crc/crc64_ref.h.
    CRC_Base: the table-driven functions and crc/crc_base_aliases.c. CRC_Correct: base equals
    reference, continuation over split buffers, burst detection.
  \<^item> Unaligned: include/unaligned.h on byte lists. Mem_Zero: mem/mem_zero_detect_base.c.
    Adler32: igzip/adler32_base.c and the (B | A - 1) form igzip.c and igzip_inflate.c use.
  \<^item> XOR_Field: the locale of a field of bytes whose addition is XOR. GF256: gf_mul, gf_inv and
    their tables (erasure_code/ec_base.h, ec_base.c), with the interpretation that makes them such a field.
    GF_Matrix: the generator matrices and gf_invert_matrix. EC_Base: table initialisation,
    dot product, multiply-accumulate and the encode loops of ec_base.c. EC_Correct: encoding is
    the matrix product, any k of m blocks restore the data.
  \<^item> EC_Highlevel: the dispatchers ec_encode_data_* and ec_encode_data_update_* of
    ec_highlevel_func.c and of the ARM, RISC-V and PowerPC directories. The assembly kernels are
    parameters. The locale ec_kernels states what a dispatcher needs of them; the base loops
    interpret it, and ec_dot_contract and ec_mad_contract state it of an assembly kernel, for
    tables made by ec_init_tables and at least one source. The locale ec_init (a table of 32 bytes
    for every coefficient) is interpreted by both initialisation routines and gives what the slices of
    the tables hold. lookup_dot and lookup_mad, kernels with nibble lookups, meet the contract.
    EC_GFNI: the affine matrices of the GFNI path, with the instruction as a parameter; lane_dot and
    lane_mad, which load all four copies of a matrix, meet its contract.
  \<^item> RAID: raid/raid_base.c, on eight byte lanes as in the code.

  \<^item> Inflate_State: the state record of the decoder and its bit reader (igzip/igzip_inflate.c,
    inflate_in_*). Huffman_Codes: count_codes and set_codes, the canonical code of RFC 1951.
    Inflate_Lookup: the two-level decoding tables (make_inflate_huff_code_dist, _header);
    Inflate_Lookup_Correct: the loops that fill them and what every cell holds.
    Inflate_Symbols: decode_next_* on those tables, proved to return the symbol whose code is
    next in the bit buffer. Inflate_Block: decode_literal_block,
    decode_huffman_code_block_stateless_base (every bounds check and the termination of the
    loop). Bit_Writer: bitbuf2.h and encode_df.c, proved to emit the bits
    the reader reads back.
  \<^item> Inflate_Wrapper: isal_inflate_init/reset/set_dict, the gzip and zlib header readers and
    checksum trailers of igzip_inflate.c, as resumable state machines. Wrapper_Resume: the laws
    of the three buffered readers; Gzip_Header: splitting the input anywhere does not change
    what isal_read_gzip_header returns; Wrapper_Trailer: what check_gzip_checksum and
    check_zlib_checksum decide.

  \<^item> Inflate_Header: the symbol tables with up to three symbols per entry, static and dynamic
    block headers, read_header and read_header_stateful. Inflate: isal_inflate_stateless and
    isal_inflate with its internal output buffer, composed of all of the above.
  \<^item> Deflate_State: struct isal_zstream with struct isal_zstate, the initialisers, levels, masks,
    dictionaries. Deflate_Headers: isal_write_gzip_header and isal_write_zlib_header;
    Header_Roundtrip: the readers return what they wrote. Deflate_Stream: the wrapper header
    and trailer, block header and flushes of isal_deflate. Deflate_Stored: write_type0_header and
    write_stored_block; Stored_Blocks: the bytes they write over any sequence of output
    buffers; Stored_Roundtrip: isal_inflate_stateless reads them back.
  \<^item> Deflate_Match: huffman.h (codes of symbols, hashes, compare258). Deflate_Body: the level 0
    compressor of igzip_base.c (body, finish, dictionary hash). Deflate_Tokens: the emitted
    literals and matches expand to the consumed input, by induction over the loops;
    Deflate_Level0: code tables that fit, and the property.

  State and data. A buffer is a byte list; a function that writes through a pointer returns the
  new buffer. An array of buffers is a list of lists. Buffers do not alias. Machine integers
  are words of the width of the source; lengths and counters are nat where the source's counter
  cannot wrap for the buffers an address space holds. Where it can, the model has it: the T10-DIF
  functions and the references of crc_ref.h are None from the length on at which their 32-bit
  counter fails, decode_literal_block adds avail_in modulo 2^32, inflate_in_read_bits masks with an
  int, and the properties state the bound. Matrices are flat byte lists indexed as in the code.

  Errors and bounds. Return codes are int values with the names of igzip_lib.h. In the inflate
  and deflate theories the value None is an access outside of an array, a failed assert, or a loop
  that does not end. Loops whose bound is visible in the code are functions with a termination proof;
  the block loops and the loops that pack symbols are partial_function (option), so that not returning
  is None as well. That None does not arise is part of the properties of the Huffman block loop, of
  stored blocks (written, and read by isal_inflate_stateless), of the gzip header reader and of the level 0
  compressor; for isal_inflate and for static and dynamic headers it is not proved yet.

  Not modelled:

  \<^item> The drivers of the compressor in igzip.c: isal_deflate, isal_deflate_stateless and the functions
    only they call (isal_deflate_int, isal_deflate_pass, isal_deflate_int_stateless,
    get_hist_size, write_constant_compressed_stateless). Their parts are modelled. They come next.
  \<^item> Levels 1 to 3: the match finders that write the intermediate format (igzip_icf_base.c,
    igzip_icf_body.c) and the ICF blocks of igzip.c (create_icf_block_hdr, isal_deflate_icf_pass). The
    encoder of the format, encode_df.c, is modelled.
  \<^item> The construction of Huffman tables for the compressor: huff_codes.c, proc_heap_base.c,
    flatten_ll.c. Tables are data of the models, with well-formedness as a hypothesis.
  \<^item> Generated tables: static_inflate.h (the model is the configuration NO_STATIC_INFLATE_H, which
    computes the tables that ISAL_STATIC_INFLATE_TABLE would include, so header_matches_pregen is 0),
    the code tables of hufftables_c.c, and the programs that generate them.
  \<^item> Assembly files, vector intrinsics and the CPU dispatch around them (parameters); the 64 KiB
    multiplication table of GF_LARGE_TABLES; the zlib shim, the command line tool, tests and examples.
\<close>

end
